(* ===== verification/Prelude.thy ===== *)
theory Prelude
  imports Complex_Main "HOL-Library.AList" "HOL-Library.Word" "HOL-Library.Monad_Syntax"
begin

text \<open>
  Shared vocabulary of the development: the Python string operations the sources use, decimal
  printing and reading, dictionaries as association lists in insertion order, big-endian integers,
  and the fact collections the component theories extend.

  A Python \<open>str\<close> is modelled by a \<^typ>\<open>string\<close> whose characters are the code points below 256
  (Latin-1); on that range \<open>isspace\<close>, \<open>isdigit\<close>, \<open>isascii\<close> and \<open>lower\<close> are written out exactly.
  A Python \<open>float\<close> (clock readings, time-outs) is a \<^typ>\<open>real\<close>: rounding is not modelled.
\<close>

unbundle bit_operations_syntax

named_theorems py_str_simps \<open>unfolding rules of the Python string operations\<close>

named_theorems py_eval \<open>conditional unfolding rules that evaluate a closed term\<close>

named_theorems dict_simps \<open>lookup after an update, a deletion or a filter of a dictionary\<close>


section \<open>Characters and strings\<close>

definition isspace_char :: "char \<Rightarrow> bool" where
  "isspace_char c \<longleftrightarrow>
     (let n = (of_char c :: nat) in (9 \<le> n \<and> n \<le> 13) \<or> (28 \<le> n \<and> n \<le> 32) \<or> n = 133 \<or> n = 160)"

definition isascii_char :: "char \<Rightarrow> bool" where
  "isascii_char c \<longleftrightarrow> (of_char c :: nat) < 128"

definition isdigit_char :: "char \<Rightarrow> bool" where
  "isdigit_char c \<longleftrightarrow>
     (let n = (of_char c :: nat) in (48 \<le> n \<and> n \<le> 57) \<or> n = 178 \<or> n = 179 \<or> n = 185)"

definition lower_char :: "char \<Rightarrow> char" where
  "lower_char c =
     (let n = (of_char c :: nat)
      in if (65 \<le> n \<and> n \<le> 90) \<or> (192 \<le> n \<and> n \<le> 222 \<and> n \<noteq> 215) then char_of (n + 32) else c)"

definition ascii_digit :: "char \<Rightarrow> bool" where
  "ascii_digit c \<longleftrightarrow> 48 \<le> (of_char c :: nat) \<and> (of_char c :: nat) \<le> 57"

definition strip :: "string \<Rightarrow> string" where
  "strip s = rev (dropWhile isspace_char (rev (dropWhile isspace_char s)))"

definition lower :: "string \<Rightarrow> string" where
  "lower s = map lower_char s"

definition isascii :: "string \<Rightarrow> bool" where
  "isascii s \<longleftrightarrow> list_all isascii_char s"

definition isdigit :: "string \<Rightarrow> bool" where
  "isdigit s \<longleftrightarrow> s \<noteq> [] \<and> list_all isdigit_char s"

definition startswith :: "string \<Rightarrow> string \<Rightarrow> bool" where
  "startswith s p \<longleftrightarrow> take (length p) s = p"

definition endswith :: "string \<Rightarrow> string \<Rightarrow> bool" where
  "endswith s p \<longleftrightarrow> length p \<le> length s \<and> drop (length s - length p) s = p"

text \<open>\<open>s.rsplit(c, 1)\<close> for a separator that occurs in \<open>s\<close>: what is before and after its last
  occurrence.\<close>

definition rsplit1 :: "char \<Rightarrow> string \<Rightarrow> string \<times> string" where
  "rsplit1 c s =
     (let t = takeWhile (\<lambda>x. x \<noteq> c) (rev s) in (rev (drop (Suc (length t)) (rev s)), rev t))"

text \<open>\<open>s.split(c)\<close> for a one-character separator: one piece more than there are separators.\<close>

fun split_on :: "char \<Rightarrow> string \<Rightarrow> string list" where
  "split_on c [] = [[]]"
| "split_on c (x # xs) =
     (if x = c then [] # split_on c xs
      else (case split_on c xs of [] \<Rightarrow> [[x]] | p # ps \<Rightarrow> (x # p) # ps))"

text \<open>\<open>sep.join(parts)\<close> for a one-character separator.\<close>

fun join_with :: "char \<Rightarrow> string list \<Rightarrow> string" where
  "join_with c [] = []"
| "join_with c [p] = p"
| "join_with c (p # q # ps) = p @ c # join_with c (q # ps)"

lemmas [py_str_simps] =
  isspace_char_def isascii_char_def isdigit_char_def lower_char_def strip_def lower_def
  isascii_def isdigit_def startswith_def endswith_def rsplit1_def ascii_digit_def

lemma startswith_iff: "startswith s p \<longleftrightarrow> (\<exists>t. s = p @ t)"
  unfolding startswith_def by (metis append_eq_conv_conj append_take_drop_id)

lemma endswith_iff: "endswith s p \<longleftrightarrow> (\<exists>t. s = t @ p)"
proof
  assume "endswith s p"
  then show "\<exists>t. s = t @ p"
    unfolding endswith_def by (metis append_take_drop_id)
next
  assume "\<exists>t. s = t @ p"
  then show "endswith s p" by (auto simp: endswith_def)
qed

lemma rsplit1_snoc:
  assumes "c \<notin> set q"
  shows "rsplit1 c (p @ c # q) = (p, q)"
proof -
  have tw: "takeWhile (\<lambda>x. x \<noteq> c) (rev q @ c # rev p) = rev q"
    by (subst takeWhile_append2) (use assms in auto)
  then show ?thesis by (simp add: rsplit1_def Let_def)
qed

lemma rsplit1_decomp:
  assumes "c \<in> set s"
  obtains p q where "s = p @ c # q" and "c \<notin> set q" and "rsplit1 c s = (p, q)"
  by (metis assms rsplit1_snoc split_list_last)

lemma strip_no_space: "list_all (\<lambda>c. \<not> isspace_char c) s \<Longrightarrow> strip s = s"
proof -
  assume "list_all (\<lambda>c. \<not> isspace_char c) s"
  then have "dropWhile isspace_char s = s" "dropWhile isspace_char (rev s) = rev s"
    by (simp_all add: dropWhile_eq_self_iff list_all_iff hd_in_set)
      (metis hd_in_set list.set_sel(1) set_rev rev_is_Nil_conv)+
  then show ?thesis by (simp add: strip_def)
qed

lemma strip_surrounded:
  assumes "s \<noteq> []" "list_all (\<lambda>c. \<not> isspace_char c) s"
    "list_all isspace_char before" "list_all isspace_char after"
  shows "strip (before @ s @ after) = s"
proof -
  have front: "dropWhile isspace_char (ws @ t @ r) = t @ r"
    if "list_all isspace_char ws" "list_all (\<lambda>c. \<not> isspace_char c) t" "t \<noteq> []" for ws t r
    using that by (cases t) (simp_all add: list_all_iff dropWhile_append2)
  from front [of before s after] front [of "rev after" "rev s" "[]"] assms show ?thesis
    by (simp add: strip_def)
qed

lemma length_lower [simp]: "length (lower s) = length s"
  by (simp add: lower_def)

lemma lower_append [simp]: "lower (s @ t) = lower s @ lower t"
  by (simp add: lower_def)

lemma lower_Nil [simp]: "lower [] = []" and lower_eq_Nil [simp]: "lower s = [] \<longleftrightarrow> s = []"
  by (simp_all add: lower_def)

lemma lower_char_idem [simp]: "lower_char (lower_char c) = lower_char c"
  by (auto simp: lower_char_def Let_def)

lemma lower_idem [simp]: "lower (lower s) = lower s"
  by (simp add: lower_def)

lemma lower_char_fix:
  "(of_char c :: nat) < 65 \<Longrightarrow> lower_char c = c"
  by (auto simp: lower_char_def Let_def)

lemma split_on_not_Nil [simp]: "split_on c s \<noteq> []"
  by (cases s) (auto split: list.splits)

lemma join_split_on: "join_with c (split_on c s) = s"
proof (induction s)
  case (Cons x xs)
  obtain p ps where sp: "split_on c xs = p # ps"
    by (cases "split_on c xs") auto
  with Cons show ?case by (cases ps) auto
qed simp

lemma split_on_sep_free: "c \<notin> set s \<Longrightarrow> split_on c s = [s]"
  by (induction s) auto

lemma split_on_append: "c \<notin> set p \<Longrightarrow> split_on c (p @ c # s) = p # split_on c s"
  by (induction p) (auto split: list.splits)

lemma split_on_append_sep: "split_on c (p @ c # s) = split_on c p @ split_on c s"
proof (induction p)
  case (Cons x p)
  then show ?case by (cases "split_on c p") (auto split: list.splits)
qed simp

lemma split_on_inject: "split_on c s = split_on c t \<longleftrightarrow> s = t"
  by (metis join_split_on)

lemma join_with_append:
  "ps \<noteq> [] \<Longrightarrow> qs \<noteq> [] \<Longrightarrow> join_with c (ps @ qs) = join_with c ps @ c # join_with c qs"
proof (induction c ps rule: join_with.induct)
  case (2 c p)
  then show ?case by (cases qs) auto
qed auto

text \<open>A dotted suffix is a suffix of the list of labels.\<close>

lemma endswith_sep_iff_labels:
  "endswith q (c # h) \<longleftrightarrow> (\<exists>ls. ls \<noteq> [] \<and> split_on c q = ls @ split_on c h)"
proof
  assume "endswith q (c # h)"
  then obtain t where "q = t @ c # h" by (auto simp: endswith_iff)
  then show "\<exists>ls. ls \<noteq> [] \<and> split_on c q = ls @ split_on c h"
    by (auto simp: split_on_append_sep intro!: exI [of _ "split_on c t"])
next
  assume "\<exists>ls. ls \<noteq> [] \<and> split_on c q = ls @ split_on c h"
  then obtain ls where ls: "ls \<noteq> []" "split_on c q = ls @ split_on c h" by blast
  then have "q = join_with c ls @ c # h"
    by (metis join_split_on join_with_append split_on_not_Nil)
  then show "endswith q (c # h)" by (auto simp: endswith_iff)
qed

lemma split_on_join:
  "ps \<noteq> [] \<Longrightarrow> (\<And>p. p \<in> set ps \<Longrightarrow> c \<notin> set p) \<Longrightarrow> split_on c (join_with c ps) = ps"
  by (induction c ps rule: join_with.induct) (auto simp: split_on_sep_free split_on_append)


text \<open>\<open>s.split()\<close>: the maximal runs of non-space characters. \<open>sub in s\<close>: the substring test.\<close>

fun words_from :: "string \<Rightarrow> string \<Rightarrow> string list" where
  "words_from cur [] = (if cur = [] then [] else [rev cur])"
| "words_from cur (c # cs) =
     (if isspace_char c then (if cur = [] then words_from [] cs else rev cur # words_from [] cs)
      else words_from (c # cur) cs)"

definition split_ws :: "string \<Rightarrow> string list" where
  "split_ws s = words_from [] s"

fun substring_of :: "string \<Rightarrow> string \<Rightarrow> bool" where
  "substring_of sub [] = (sub = [])"
| "substring_of sub (c # cs) = (startswith (c # cs) sub \<or> substring_of sub cs)"

text \<open>\<open>s.splitlines()\<close>: the line boundaries of \<open>str\<close> below code point 256, with CR LF as one.\<close>

definition linebreak_char :: "char \<Rightarrow> bool" where
  "linebreak_char c \<longleftrightarrow>
     (let n = (of_char c :: nat) in (10 \<le> n \<and> n \<le> 13) \<or> (28 \<le> n \<and> n \<le> 30) \<or> n = 133)"

fun lines_from :: "string \<Rightarrow> string \<Rightarrow> string list" where
  "lines_from cur [] = (if cur = [] then [] else [rev cur])"
| "lines_from cur (c # cs) =
     (if linebreak_char c
      then rev cur # lines_from [] (if (of_char c :: nat) = 13 \<and> cs \<noteq> [] \<and> (of_char (hd cs) :: nat) = 10
                                    then tl cs else cs)
      else lines_from (c # cur) cs)"

definition splitlines :: "string \<Rightarrow> string list" where
  "splitlines s = lines_from [] s"


section \<open>Decimal numerals\<close>

definition digit_char :: "nat \<Rightarrow> char" where
  "digit_char d = char_of (48 + d)"

text \<open>\<open>str(n)\<close> for a non-negative \<open>n\<close>, and \<open>int(s)\<close> for a run of ASCII digits.\<close>

fun str_nat :: "nat \<Rightarrow> string" where
  "str_nat n = (if n < 10 then [digit_char n] else str_nat (n div 10) @ [digit_char (n mod 10)])"

declare str_nat.simps [simp del]

text \<open>\<open>str(i)\<close> for an integer.\<close>

definition str_int :: "int \<Rightarrow> string" where
  "str_int i = (if i < 0 then CHR ''-'' # str_nat (nat (- i)) else str_nat (nat i))"

lemma digit_char_eval [py_eval]:
  "digit_char 0 = CHR ''0''" "digit_char 1 = CHR ''1''" "digit_char (Suc 0) = CHR ''1''"
  "digit_char 2 = CHR ''2''" "digit_char 3 = CHR ''3''" "digit_char 4 = CHR ''4''"
  "digit_char 5 = CHR ''5''" "digit_char 6 = CHR ''6''" "digit_char 7 = CHR ''7''"
  "digit_char 8 = CHR ''8''" "digit_char 9 = CHR ''9''"
  by (simp_all add: digit_char_def char_of_def bit_0)

lemma str_nat_small [py_eval]: "n < 10 \<Longrightarrow> str_nat n = [digit_char n]"
  by (simp add: str_nat.simps [of n])

lemma str_nat_big [py_eval]:
  "10 \<le> n \<Longrightarrow> str_nat n = str_nat (n div 10) @ [digit_char (n mod 10)]"
  by (simp add: str_nat.simps [of n])

definition int_of_digits :: "string \<Rightarrow> nat" where
  "int_of_digits s = foldl (\<lambda>a c. 10 * a + ((of_char c :: nat) - 48)) 0 s"

text \<open>\<open>int(s)\<close>: surrounding white space, a sign, digits with single underscores, at most 4300 of them.\<close>

definition py_int :: "string \<Rightarrow> int option" where
  "py_int s =
     (let t = strip s;
          neg = startswith t ''-'';
          u = (if neg \<or> startswith t ''+'' then drop 1 t else t);
          groups = split_on CHR ''_'' u
      in if list_all (\<lambda>g. g \<noteq> [] \<and> list_all ascii_digit g) groups \<and> length (concat groups) \<le> 4300
         then Some ((if neg then - 1 else 1) * int (int_of_digits (concat groups))) else None)"

lemma of_char_digit_char: "d < 10 \<Longrightarrow> (of_char (digit_char d) :: nat) = 48 + d"
  by (simp add: digit_char_def)

lemma ascii_digit_char [simp]: "d < 10 \<Longrightarrow> ascii_digit (digit_char d)"
  by (simp add: ascii_digit_def of_char_digit_char)

lemma str_nat_not_Nil [simp]: "str_nat n \<noteq> []"
  by (subst str_nat.simps) simp

lemma str_nat_digits: "c \<in> set (str_nat n) \<Longrightarrow> ascii_digit c"
proof (induction n rule: str_nat.induct)
  case (1 n)
  then show ?case
    by (cases "n < 10") (auto simp: str_nat.simps [of n])
qed

lemma int_of_digits_append_digit:
  "d < 10 \<Longrightarrow> int_of_digits (s @ [digit_char d]) = 10 * int_of_digits s + d"
  by (simp add: int_of_digits_def of_char_digit_char)

lemma int_of_digits_str_nat [simp]: "int_of_digits (str_nat n) = n"
proof (induction n rule: str_nat.induct)
  case (1 n)
  show ?case
  proof (cases "n < 10")
    case True
    then show ?thesis
      using int_of_digits_append_digit [of n "[]"]
      by (simp add: str_nat.simps [of n] int_of_digits_def)
  next
    case False
    with 1 show ?thesis
      by (simp add: str_nat.simps [of n] int_of_digits_append_digit)
  qed
qed

lemma str_nat_inject [simp]: "str_nat m = str_nat n \<longleftrightarrow> m = n"
  by (metis int_of_digits_str_nat)

lemma length_str_nat: "n < 10 ^ Suc k \<Longrightarrow> length (str_nat n) \<le> Suc k"
proof (induction k arbitrary: n)
  case 0
  then show ?case by (simp add: str_nat.simps [of n])
next
  case (Suc k)
  have "n div 10 < 10 ^ Suc k" using Suc.prems by (simp add: less_mult_imp_div_less mult.commute)
  from Suc.IH [OF this] show ?case by (subst str_nat.simps) simp
qed

lemma ascii_digit_not_char:
  "ascii_digit c \<Longrightarrow> c \<noteq> CHR ''.''" "ascii_digit c \<Longrightarrow> c \<noteq> CHR '':''"
  "ascii_digit c \<Longrightarrow> c \<noteq> CHR ''/''"
  by (auto simp: ascii_digit_def)

lemma str_nat_no_sep [simp]:
  "CHR ''.'' \<notin> set (str_nat n)" "CHR '':'' \<notin> set (str_nat n)" "CHR ''/'' \<notin> set (str_nat n)"
  using ascii_digit_not_char str_nat_digits by blast+

lemma ascii_digit_isascii: "ascii_digit c \<Longrightarrow> isascii_char c \<and> isdigit_char c"
  by (simp add: ascii_digit_def isascii_char_def isdigit_char_def Let_def)

lemma isascii_isdigit_char_iff: "isascii_char c \<and> isdigit_char c \<longleftrightarrow> ascii_digit c"
  by (auto simp: isascii_char_def isdigit_char_def ascii_digit_def Let_def)

lemma isascii_isdigit_iff:
  "isascii s \<and> isdigit s \<longleftrightarrow> s \<noteq> [] \<and> list_all ascii_digit s"
  unfolding isascii_def isdigit_def list_all_iff using isascii_isdigit_char_iff by blast


text \<open>An \<open>HTTPException\<close>: its status and detail.\<close>

type_synonym http_error = "nat \<times> string"


section \<open>Bytes\<close>

type_synonym byte = "8 word"

text \<open>\<open>int.from_bytes(b, "big")\<close> and its inverse on a fixed width (the big-endian codes of
  \<open>struct.pack\<close>).\<close>

definition from_bytes_big :: "byte list \<Rightarrow> nat" where
  "from_bytes_big bs = foldl (\<lambda>a b. 256 * a + unat b) 0 bs"

fun to_bytes_big :: "nat \<Rightarrow> nat \<Rightarrow> byte list" where
  "to_bytes_big 0 n = []"
| "to_bytes_big (Suc k) n = to_bytes_big k (n div 256) @ [word_of_nat (n mod 256)]"

lemma to_bytes_big_numeral [py_eval]:
  "to_bytes_big (numeral k) n =
     to_bytes_big (pred_numeral k) (n div 256) @ [word_of_nat (n mod 256)]"
  by (simp only: numeral_eq_Suc [of k] to_bytes_big.simps)

lemmas [py_eval] = int_of_digits_def from_bytes_big_def char_of_def bit_0

text \<open>\<open>xs[a:b]\<close>: slicing never raises, it truncates.\<close>

definition py_slice :: "nat \<Rightarrow> nat \<Rightarrow> 'a list \<Rightarrow> 'a list" where
  "py_slice a b xs = take (b - a) (drop a xs)"

lemma from_bytes_big_Nil [simp]: "from_bytes_big [] = 0"
  by (simp add: from_bytes_big_def)

lemma from_bytes_big_snoc [simp]:
  "from_bytes_big (bs @ [b]) = 256 * from_bytes_big bs + unat b"
  by (simp add: from_bytes_big_def)

lemma unat_byte_less: "unat (b :: byte) < 256"
  using unsigned_less [of b] by simp

lemma from_bytes_big_less: "from_bytes_big bs < 256 ^ length bs"
proof (induction bs rule: rev_induct)
  case (snoc b bs)
  then have "from_bytes_big bs + 1 \<le> 256 ^ length bs" by simp
  then have "256 * from_bytes_big bs + 256 \<le> 256 * 256 ^ length bs" by linarith
  then show ?case using unat_byte_less [of b] by simp
qed simp

lemma length_to_bytes_big [simp]: "length (to_bytes_big k n) = k"
  by (induction k arbitrary: n) auto

lemma from_to_bytes_big: "from_bytes_big (to_bytes_big k n) = n mod 256 ^ k"
proof (induction k arbitrary: n)
  case (Suc k)
  have "unat (word_of_nat (n mod 256) :: byte) = n mod 256"
    by (simp add: unat_of_nat)
  with Suc show ?case
    by (simp add: mod_mult2_eq mult.commute)
qed simp

lemma from_to_bytes_big_id [simp]: "n < 256 ^ k \<Longrightarrow> from_bytes_big (to_bytes_big k n) = n"
  by (simp add: from_to_bytes_big)

lemma length_slice [simp]: "b \<le> length xs \<Longrightarrow> length (py_slice a b xs) = b - a"
  by (simp add: py_slice_def)

lemma slice_append_left [simp]: "b \<le> length xs \<Longrightarrow> py_slice a b (xs @ ys) = py_slice a b xs"
  by (cases "a \<le> length xs") (simp_all add: py_slice_def)

lemma slice_append_right:
  "length xs \<le> a \<Longrightarrow> py_slice a b (xs @ ys) = py_slice (a - length xs) (b - length xs) ys"
  by (simp add: py_slice_def)


section \<open>Dictionaries\<close>

text \<open>
  A Python \<open>dict\<close> is an association list in insertion order: \<^const>\<open>AList.update\<close> overwrites a
  present key in place and appends a new one, \<^const>\<open>AList.delete\<close> removes a key.
\<close>

type_synonym ('k, 'v) dict = "('k \<times> 'v) list"

abbreviation dict_ok :: "('k, 'v) dict \<Rightarrow> bool" where
  "dict_ok d \<equiv> distinct (map fst d)"

abbreviation dict_filter :: "('k \<Rightarrow> 'v \<Rightarrow> bool) \<Rightarrow> ('k, 'v) dict \<Rightarrow> ('k, 'v) dict" where
  "dict_filter P d \<equiv> filter (\<lambda>(k, v). P k v) d"

lemma map_of_dict_update [dict_simps]:
  "map_of (AList.update k v d) j = (if j = k then Some v else map_of d j)"
  by (simp add: update_conv')

lemma map_of_dict_delete [dict_simps]:
  "map_of (AList.delete k d) j = (if j = k then None else map_of d j)"
  by (simp add: delete_conv')

lemma dict_ok_update [simp]: "dict_ok d \<Longrightarrow> dict_ok (AList.update k v d)"
  by (rule distinct_update)

lemma dict_ok_delete [simp]: "dict_ok d \<Longrightarrow> dict_ok (AList.delete k d)"
  by (rule distinct_delete)

lemma dict_ok_filter [simp]: "dict_ok d \<Longrightarrow> dict_ok (filter P d)"
  by (induction d) auto

lemma map_of_dict_filter [dict_simps]:
  "dict_ok d \<Longrightarrow>
     map_of (dict_filter P d) k =
       (case map_of d k of None \<Rightarrow> None | Some v \<Rightarrow> if P k v then Some v else None)"
proof (induction d)
  case (Cons kv d)
  obtain j v where kv: "kv = (j, v)" by (cases kv)
  have "map_of d j = None" using Cons.prems kv by (simp add: map_of_eq_None_iff)
  with Cons kv show ?case by (auto split: option.splits)
qed simp

lemma set_dict_update:
  "dict_ok d \<Longrightarrow> set (AList.update k v d) = insert (k, v) {p \<in> set d. fst p \<noteq> k}"
proof (induction d)
  case (Cons kv d)
  then show ?case by (cases kv) (auto simp: rev_image_eqI)
qed simp

lemma set_dict_delete: "set (AList.delete k d) = {p \<in> set d. fst p \<noteq> k}"
  by (auto simp: AList.delete_eq)


section \<open>Aggregates with a default\<close>

text \<open>\<open>max(xs, default=None)\<close> and \<open>min(xs, default=None)\<close>.\<close>

fun max_default :: "real list \<Rightarrow> real option" where
  "max_default [] = None"
| "max_default (x # xs) = (case max_default xs of None \<Rightarrow> Some x | Some y \<Rightarrow> Some (max x y))"

fun min_default :: "real list \<Rightarrow> real option" where
  "min_default [] = None"
| "min_default (x # xs) = (case min_default xs of None \<Rightarrow> Some x | Some y \<Rightarrow> Some (min x y))"

lemma max_default_None [simp]: "max_default xs = None \<longleftrightarrow> xs = []"
  by (cases xs) (auto split: option.splits)

lemma max_default_SomeD: "max_default xs = Some m \<Longrightarrow> m \<in> set xs \<and> (\<forall>x\<in>set xs. x \<le> m)"
proof (induction xs arbitrary: m)
  case (Cons x xs)
  show ?case
  proof (cases "max_default xs")
    case (Some y)
    then show ?thesis using Cons.IH [OF Some] Cons.prems by (auto simp: max_def split: if_splits)
  qed (use Cons.prems in auto)
qed simp

lemma max_default_ge: "x \<in> set xs \<Longrightarrow> \<exists>m. max_default xs = Some m \<and> x \<le> m"
  by (metis empty_iff empty_set max_default_None max_default_SomeD not_None_eq)

lemma min_default_None [simp]: "min_default xs = None \<longleftrightarrow> xs = []"
  by (cases xs) (auto split: option.splits)

lemma min_default_SomeD: "min_default xs = Some m \<Longrightarrow> m \<in> set xs \<and> (\<forall>x\<in>set xs. m \<le> x)"
proof (induction xs arbitrary: m)
  case (Cons x xs)
  show ?case
  proof (cases "min_default xs")
    case (Some y)
    then show ?thesis using Cons.IH [OF Some] Cons.prems by (auto simp: min_def split: if_splits)
  qed (use Cons.prems in auto)
qed simp

lemma min_default_le: "x \<in> set xs \<Longrightarrow> \<exists>m. min_default xs = Some m \<and> m \<le> x"
  by (metis empty_iff empty_set min_default_None min_default_SomeD not_None_eq)

lemma keys_dict_update: "fst ` set (AList.update k v d) = insert k (fst ` set d)"
  by (induction d) auto

lemma length_dict_update: "length (AList.update k v d) \<le> Suc (length d)"
  by (induction d) auto

lemma dict_update_new: "k \<notin> fst ` set d \<Longrightarrow> AList.update k v d = d @ [(k, v)]"
  by (induction d) auto


section \<open>Step relations\<close>

text \<open>
  What the components that run as a state machine promise: an invariant that holds at the start and that
  every step keeps. What they get for it: it holds in every state a run reaches.
\<close>

locale step_invariant =
  fixes step :: "'s \<Rightarrow> 's \<Rightarrow> bool" and init :: "'s \<Rightarrow> bool" and inv :: "'s \<Rightarrow> bool"
  assumes init_inv: "init s \<Longrightarrow> inv s"
    and step_inv: "step s s' \<Longrightarrow> inv s \<Longrightarrow> inv s'"
begin

lemma star_inv: "step\<^sup>*\<^sup>* s s' \<Longrightarrow> inv s \<Longrightarrow> inv s'"
  by (induction rule: rtranclp_induct) (auto intro: step_inv)

lemma reachable_inv: "step\<^sup>*\<^sup>* s s' \<Longrightarrow> init s \<Longrightarrow> inv s'"
  by (blast intro: star_inv init_inv)

end

text \<open>
  Some of the steps, \<open>quiet\<close>, do a piece of the work that is left each time: a run of them ends, and it
  can be carried on until none of them is enabled.
\<close>

locale settling = step_invariant +
  fixes quiet :: "'s \<Rightarrow> 's \<Rightarrow> bool" and left :: "'s \<Rightarrow> nat"
  assumes quiet_step: "quiet s s' \<Longrightarrow> step s s'"
    and quiet_left: "quiet s s' \<Longrightarrow> left s' < left s"
begin

lemma quiet_star: "quiet\<^sup>*\<^sup>* s s' \<Longrightarrow> step\<^sup>*\<^sup>* s s'"
  by (induction rule: rtranclp_induct) (auto intro: rtranclp.rtrancl_into_rtrancl quiet_step)

lemma quiet_inv: "quiet\<^sup>*\<^sup>* s s' \<Longrightarrow> inv s \<Longrightarrow> inv s'"
  by (blast intro: star_inv quiet_star)

lemma no_infinite_run: "\<nexists>\<sigma>. \<forall>i. quiet (\<sigma> i) (\<sigma> (Suc i))"
proof
  assume "\<exists>\<sigma>. \<forall>i. quiet (\<sigma> i) (\<sigma> (Suc i))"
  then obtain \<sigma> where "\<forall>i. quiet (\<sigma> i) (\<sigma> (Suc i))" ..
  then have "\<forall>i. (\<sigma> (Suc i), \<sigma> i) \<in> measure left" using quiet_left by simp
  with wf_measure [of left] show False unfolding wf_iff_no_infinite_down_chain by blast
qed

lemma run_to_end: "\<exists>s'. quiet\<^sup>*\<^sup>* s s' \<and> (\<nexists>s''. quiet s' s'')"
proof (induction "left s" arbitrary: s rule: less_induct)
  case less
  show ?case
  proof (cases "\<exists>s1. quiet s s1")
    case True
    then obtain s1 where "quiet s s1" ..
    with less [OF quiet_left [OF this]] show ?thesis by (meson converse_rtranclp_into_rtranclp)
  qed blast
qed

end

end
