(* ===== verification/Acl.thy ===== *)
theory Acl
  imports Prelude
begin

text \<open>
  \<open>klangk/acl.py\<close>: permission checks over the resource tree. An ACL entry and a principal set are the
  dictionaries the code passes around; the table behind \<open>get_acl_entries_map\<close> is the argument
  \<open>table\<close>, the entries of each resource in position order. \<open>resource_ancestors\<close> is a loop that some
  arguments never leave, so it is a partial function: \<^term>\<open>None\<close> is a loop without end, and it
  propagates to the checks that run it.
\<close>

section \<open>Entries and principals\<close>

definition ACTION_DENY :: int where "ACTION_DENY = 0"
definition ACTION_ALLOW :: int where "ACTION_ALLOW = 1"
definition PRINCIPAL_SYSTEM :: int where "PRINCIPAL_SYSTEM = 0"
definition PRINCIPAL_USER :: int where "PRINCIPAL_USER = 1"
definition PRINCIPAL_GROUP :: int where "PRINCIPAL_GROUP = 2"
definition SYSTEM_EVERYONE :: int where "SYSTEM_EVERYONE = 0"
definition SYSTEM_AUTHENTICATED :: int where "SYSTEM_AUTHENTICATED = 1"

lemmas acl_constants [simp] =
  ACTION_DENY_def ACTION_ALLOW_def PRINCIPAL_SYSTEM_def PRINCIPAL_USER_def PRINCIPAL_GROUP_def
  SYSTEM_EVERYONE_def SYSTEM_AUTHENTICATED_def

record ace =
  action :: int
  principal_type :: int
  ace_user_id :: "string option"
  ace_group_id :: "string option"
  system_principal :: "int option"
  permission :: string

record principals =
  user_id :: string
  group_ids :: "string list"
  authenticated :: bool

type_synonym acl_table = "string \<Rightarrow> ace list"

definition matches_system_principal :: "ace \<Rightarrow> principals \<Rightarrow> bool" where
  "matches_system_principal ace principals =
     (if system_principal ace = Some SYSTEM_EVERYONE then True
      else if system_principal ace = Some SYSTEM_AUTHENTICATED then authenticated principals
      else False)"

definition ace_matches_principals :: "ace \<Rightarrow> principals \<Rightarrow> bool" where
  "ace_matches_principals ace principals =
     (let pt = principal_type ace
      in if pt = PRINCIPAL_SYSTEM then matches_system_principal ace principals
         else if pt = PRINCIPAL_USER then ace_user_id ace = Some (user_id principals)
         else if pt = PRINCIPAL_GROUP
         then (case ace_group_id ace of None \<Rightarrow> False | Some g \<Rightarrow> g \<in> set (group_ids principals))
         else False)"


section \<open>The walk\<close>

text \<open>\<open>path.rsplit("/", 1)[0]\<close>, which is the path itself when it has no slash.\<close>

definition path_parent :: "string \<Rightarrow> string" where
  "path_parent path =
     (let parent = (if CHR ''/'' \<in> set path then fst (rsplit1 CHR ''/'' path) else path)
      in if parent \<noteq> [] then parent else ''/'')"

partial_function (option) resource_ancestors :: "string \<Rightarrow> string list option" where
  "resource_ancestors path =
     (if path = ''/'' then Some [path]
      else do { paths \<leftarrow> resource_ancestors (path_parent path); Some (path # paths) })"

definition ace_decision :: "ace \<Rightarrow> string \<Rightarrow> bool option" where
  "ace_decision ace perm =
     (if permission ace \<noteq> ''*'' \<and> permission ace \<noteq> perm then None
      else Some (action ace = ACTION_ALLOW))"

text \<open>The inner and the outer loop; \<^term>\<open>None\<close> when no entry decides.\<close>

fun entries_decision :: "principals \<Rightarrow> string \<Rightarrow> ace list \<Rightarrow> bool option" where
  "entries_decision principals perm [] = None"
| "entries_decision principals perm (ace # aces) =
     (if ace_matches_principals ace principals
      then (case ace_decision ace perm of
              Some decision \<Rightarrow> Some decision
            | None \<Rightarrow> entries_decision principals perm aces)
      else entries_decision principals perm aces)"

fun walk_decision :: "principals \<Rightarrow> string \<Rightarrow> acl_table \<Rightarrow> string list \<Rightarrow> bool" where
  "walk_decision principals perm entries [] = False"
| "walk_decision principals perm entries (path # paths) =
     (case entries_decision principals perm (entries path) of
        Some decision \<Rightarrow> decision
      | None \<Rightarrow> walk_decision principals perm entries paths)"

definition check_permission_inmemory ::
  "string \<Rightarrow> principals \<Rightarrow> string \<Rightarrow> acl_table \<Rightarrow> bool option" where
  "check_permission_inmemory resource_path principals perm entries =
     map_option (walk_decision principals perm entries) (resource_ancestors resource_path)"

text \<open>The map that one query loads: the entries of the asked paths, nothing for any other.\<close>

definition get_acl_entries_map :: "acl_table \<Rightarrow> string list \<Rightarrow> acl_table" where
  "get_acl_entries_map table paths = (\<lambda>path. if path \<in> set paths then table path else [])"

definition check_permission :: "acl_table \<Rightarrow> string \<Rightarrow> principals \<Rightarrow> string \<Rightarrow> bool option" where
  "check_permission table resource_path principals perm = do {
     paths \<leftarrow> resource_ancestors resource_path;
     let entries = get_acl_entries_map table paths;
     check_permission_inmemory resource_path principals perm entries
   }"

definition get_principals :: "(string \<Rightarrow> string list) \<Rightarrow> string \<Rightarrow> principals" where
  "get_principals get_user_group_ids uid =
     \<lparr>user_id = uid, group_ids = get_user_group_ids uid, authenticated = True\<rparr>"

fun granted_permissions ::
  "string \<Rightarrow> principals \<Rightarrow> string list \<Rightarrow> acl_table \<Rightarrow> string list option" where
  "granted_permissions res principals [] entries = Some []"
| "granted_permissions res principals (p # permissions) entries = do {
     ok \<leftarrow> check_permission_inmemory res principals p entries;
     ps \<leftarrow> granted_permissions res principals permissions entries;
     Some (if ok then p # ps else ps)
   }"

fun all_ancestors :: "string list \<Rightarrow> string list option" where
  "all_ancestors [] = Some []"
| "all_ancestors (res # resources) = do {
     paths \<leftarrow> resource_ancestors res;
     rest \<leftarrow> all_ancestors resources;
     Some (paths @ rest)
   }"

fun collect_permissions ::
  "string list \<Rightarrow> principals \<Rightarrow> string list \<Rightarrow> acl_table \<Rightarrow> (string, string list) dict \<Rightarrow>
     (string, string list) dict option" where
  "collect_permissions [] principals permissions entries result = Some result"
| "collect_permissions (res # resources) principals permissions entries result = do {
     perms \<leftarrow> granted_permissions res principals permissions entries;
     collect_permissions resources principals permissions entries
       (if perms \<noteq> [] then AList.update res perms result else result)
   }"

definition permissions_for_resources ::
  "acl_table \<Rightarrow> string list \<Rightarrow> principals \<Rightarrow> string list \<Rightarrow> (string, string list) dict option" where
  "permissions_for_resources table resources principals permissions = do {
     ancestor_paths \<leftarrow> all_ancestors resources;
     let entries = get_acl_entries_map table ancestor_paths;
     collect_permissions resources principals permissions entries []
   }"


section \<open>Requests\<close>

definition API_PREFIX :: string where "API_PREFIX = ''/api/v1''"

definition logical_path :: "string \<Rightarrow> string" where
  "logical_path path =
     (if startswith path (API_PREFIX @ ''/'') then drop (length API_PREFIX) path else path)"

definition strip_slashes :: "string \<Rightarrow> string" where
  "strip_slashes s =
     rev (dropWhile (\<lambda>c. c = CHR ''/'') (rev (dropWhile (\<lambda>c. c = CHR ''/'') s)))"

definition request_to_resource :: "string \<Rightarrow> string" where
  "request_to_resource url_path =
     (let parts = split_on CHR ''/'' (strip_slashes (logical_path url_path))
      in if parts = [] \<or> parts ! 0 = [] then ''/''
         else if parts ! 0 = ''workspaces'' \<and> 2 \<le> length parts then ''/workspaces/'' @ parts ! 1
         else ''/'' @ parts ! 0)"

datatype access = Granted | Forbidden

text \<open>The dependencies; \<open>resource_fn\<close> is the resource the route computes, if it does.\<close>

definition has_permission ::
  "acl_table \<Rightarrow> (string \<Rightarrow> string list) \<Rightarrow> string \<Rightarrow> string option \<Rightarrow> string \<Rightarrow> string \<Rightarrow> access option" where
  "has_permission table groups perm resource_fn url_path uid =
     (let resource = (case resource_fn of Some r \<Rightarrow> r | None \<Rightarrow> request_to_resource url_path);
          principals = get_principals groups uid
      in map_option (\<lambda>ok. if ok then Granted else Forbidden)
           (check_permission table resource principals perm))"

fun check_all :: "acl_table \<Rightarrow> string \<Rightarrow> principals \<Rightarrow> string list \<Rightarrow> access option" where
  "check_all table resource principals [] = Some Granted"
| "check_all table resource principals (perm # perms) = do {
     ok \<leftarrow> check_permission table resource principals perm;
     if ok then check_all table resource principals perms else Some Forbidden
   }"

definition has_permissions ::
  "acl_table \<Rightarrow> (string \<Rightarrow> string list) \<Rightarrow> string list \<Rightarrow> string \<Rightarrow> string \<Rightarrow> access option" where
  "has_permissions table groups perms resource uid =
     check_all table resource (get_principals groups uid) perms"


section \<open>Lemmas\<close>

lemma path_parent_shape:
  assumes "path \<noteq> ''/''"
  shows "path = [] \<or> hd path = CHR ''/'' \<longleftrightarrow> hd (path_parent path) = CHR ''/''"
    and "path_parent path \<noteq> []"
    and "path \<noteq> [] \<Longrightarrow> hd path = CHR ''/'' \<Longrightarrow> length (path_parent path) < length path"
proof -
  have "(path = [] \<or> hd path = CHR ''/'' \<longleftrightarrow> hd (path_parent path) = CHR ''/'') \<and>
    path_parent path \<noteq> [] \<and>
    (path \<noteq> [] \<and> hd path = CHR ''/'' \<longrightarrow> length (path_parent path) < length path)"
  proof (cases "CHR ''/'' \<in> set path")
    case True
    then obtain p q where pq: "path = p @ CHR ''/'' # q" "rsplit1 CHR ''/'' path = (p, q)"
      by (rule rsplit1_decomp)
    then have "path_parent path = (if p \<noteq> [] then p else ''/'')"
      using True by (simp add: path_parent_def)
    with pq(1) assms show ?thesis by (cases p; cases q) auto
  next
    case False
    then have "path_parent path = (if path \<noteq> [] then path else ''/'')"
      by (simp add: path_parent_def)
    with False show ?thesis by (cases path) auto
  qed
  then show "path = [] \<or> hd path = CHR ''/'' \<longleftrightarrow> hd (path_parent path) = CHR ''/''"
    "path_parent path \<noteq> []"
    "path \<noteq> [] \<Longrightarrow> hd path = CHR ''/'' \<Longrightarrow> length (path_parent path) < length path" by blast+
qed

lemma resource_ancestors_returns:
  "path = [] \<or> hd path = CHR ''/'' \<Longrightarrow> \<exists>paths. resource_ancestors path = Some paths"
proof (induction "if path = [] then 2 else length path" arbitrary: path rule: less_induct)
  case less
  show ?case
  proof (cases "path = ''/''")
    case False
    note shape = path_parent_shape [OF False]
    have h: "hd (path_parent path) = CHR ''/''" using shape(1) less.prems by blast
    have "length (path_parent path) < (if path = [] then 2 else length path)"
    proof (cases "path = []")
      case True
      then show ?thesis by (simp add: path_parent_def)
    qed (use shape(3) less.prems in simp)
    then obtain paths where "resource_ancestors (path_parent path) = Some paths"
      using less.hyps [of "path_parent path"] shape(2) h by auto
    with False show ?thesis by (subst resource_ancestors.simps) simp
  qed (simp add: resource_ancestors.simps)
qed

lemma resource_ancestors_shape:
  assumes "resource_ancestors path = Some paths"
  shows "(path = [] \<or> hd path = CHR ''/'') \<and> paths \<noteq> [] \<and> hd paths = path \<and> last paths = ''/'' \<and>
    (\<forall>i. Suc i < length paths \<longrightarrow> paths ! Suc i = path_parent (paths ! i))"
proof (rule resource_ancestors.raw_induct [OF _ assms])
  fix f path paths
  assume IH: "\<And>path paths. f path = Some paths \<Longrightarrow> (path = [] \<or> hd path = CHR ''/'') \<and> paths \<noteq> [] \<and>
      hd paths = path \<and> last paths = ''/'' \<and>
      (\<forall>i. Suc i < length paths \<longrightarrow> paths ! Suc i = path_parent (paths ! i))"
    and step: "(if path = ''/'' then Some [path]
      else do { paths \<leftarrow> f (path_parent path); Some (path # paths) }) = Some paths"
  show "(path = [] \<or> hd path = CHR ''/'') \<and> paths \<noteq> [] \<and> hd paths = path \<and> last paths = ''/'' \<and>
      (\<forall>i. Suc i < length paths \<longrightarrow> paths ! Suc i = path_parent (paths ! i))"
  proof (cases "path = ''/''")
    case False
    then obtain rest where rest: "f (path_parent path) = Some rest" "paths = path # rest"
      using step by (auto simp: bind_eq_Some_conv)
    note r = IH [OF rest(1)]
    have "rest ! 0 = path_parent path" using r by (cases rest) auto
    then have "\<forall>i. Suc i < length paths \<longrightarrow> paths ! Suc i = path_parent (paths ! i)"
      using r by (auto simp: rest(2) nth_Cons split: nat.splits)
    moreover have "path = [] \<or> hd path = CHR ''/''"
      using r path_parent_shape(1,2) [OF False] by blast
    ultimately show ?thesis using r rest(2) by simp
  qed (use step in auto)
qed

lemma entries_decision_find:
  "entries_decision pr perm aces =
     map_option (\<lambda>a. action a = ACTION_ALLOW)
       (find (\<lambda>a. ace_matches_principals a pr \<and> (permission a = ''*'' \<or> permission a = perm)) aces)"
  by (induction aces) (auto simp: ace_decision_def)

lemma find_append: "find P (xs @ ys) = (case find P xs of None \<Rightarrow> find P ys | Some x \<Rightarrow> Some x)"
  by (induction xs) auto

lemma walk_decision_find:
  "walk_decision pr perm entries paths =
     (case find (\<lambda>a. ace_matches_principals a pr \<and> (permission a = ''*'' \<or> permission a = perm))
             (concat (map entries paths)) of
        None \<Rightarrow> False | Some a \<Rightarrow> action a = ACTION_ALLOW)"
  by (induction paths) (auto simp: entries_decision_find find_append split: option.splits)

lemma walk_decision_cong:
  "(\<And>path. path \<in> set paths \<Longrightarrow> entries path = entries' path) \<Longrightarrow>
     walk_decision pr perm entries paths = walk_decision pr perm entries' paths"
  by (induction paths) (auto split: option.splits)

lemma check_permission_table:
  "check_permission table res pr perm = check_permission_inmemory res pr perm table"
proof -
  have "walk_decision pr perm (get_acl_entries_map table paths) paths = walk_decision pr perm table paths"
    for paths by (rule walk_decision_cong) (simp add: get_acl_entries_map_def)
  then show ?thesis
    by (cases "resource_ancestors res") (simp_all add: check_permission_def check_permission_inmemory_def)
qed


section \<open>Properties\<close>

text \<open>
  (C29) The ancestor walk ends exactly on absolute paths. \<open>resource_ancestors\<close> returns if and only if
  the path is empty or starts with a slash (on any other path its loop never reaches the root), and
  then it lists the path first, the root last, and each entry's parent after it.
\<close>

theorem resource_ancestors_terminates:
  "((\<exists>paths. resource_ancestors path = Some paths) \<longleftrightarrow> path = [] \<or> hd path = CHR ''/'') \<and>
   (\<forall>paths. resource_ancestors path = Some paths \<longrightarrow>
      hd paths = path \<and> last paths = ''/'' \<and>
      (\<forall>i. Suc i < length paths \<longrightarrow> paths ! Suc i = path_parent (paths ! i)))"
  using resource_ancestors_returns resource_ancestors_shape by blast

theorem resource_ancestors_terminates_witness:
  "\<exists>paths. resource_ancestors ''/workspaces/w1'' = Some paths \<and> last paths = ''/''"
  using resource_ancestors_terminates [of "''/workspaces/w1''"] by auto

text \<open>
  (C30) The first applicable entry decides. A permission check is the action of the first entry, nearest
  resource first and by position within a resource, that matches the principals and names the
  permission or the wildcard; with no such entry it is refused. In particular an entry further up
  never overrides a nearer one.
\<close>

theorem check_permission_first_match:
  assumes "resource_ancestors res = Some paths"
  shows "check_permission table res pr perm =
    Some (case find (\<lambda>a. ace_matches_principals a pr \<and> (permission a = ''*'' \<or> permission a = perm))
                 (concat (map table paths)) of
            None \<Rightarrow> False | Some a \<Rightarrow> action a = ACTION_ALLOW)"
  using assms by (simp add: check_permission_table check_permission_inmemory_def walk_decision_find)

definition example_ace :: "int \<Rightarrow> string \<Rightarrow> ace" where
  "example_ace act perm = \<lparr>action = act, principal_type = 1, ace_user_id = Some ''u1'', ace_group_id = None,
     system_principal = None, permission = perm\<rparr>"

definition example_table :: acl_table where
  "example_table path =
     (if path = ''/workspaces'' then [example_ace 1 ''*'']
      else if path = ''/workspaces/w1'' then [example_ace 0 ''view''] else [])"

lemma example_ancestors: "resource_ancestors ''/workspaces/w1'' = Some [''/workspaces/w1'', ''/workspaces'', ''/'']"
  by (subst resource_ancestors.simps, simp add: path_parent_def rsplit1_def,
      subst resource_ancestors.simps, simp add: path_parent_def rsplit1_def,
      subst resource_ancestors.simps, simp)

theorem check_permission_first_match_witness:
  "check_permission example_table ''/workspaces/w1'' (get_principals (\<lambda>_. []) ''u1'') ''view'' = Some False \<and>
   check_permission example_table ''/workspaces/w1'' (get_principals (\<lambda>_. []) ''u1'') ''edit'' = Some True"
  using check_permission_first_match [OF example_ancestors, of example_table "get_principals (\<lambda>_. []) ''u1''"]
  by (simp add: example_table_def example_ace_def ace_matches_principals_def get_principals_def)

text \<open>
  Every request gets an answer. For any URL the resource derived from it is the root, a top-level
  resource or one workspace, the walk from it ends, and the dependency grants or refuses; it grants
  exactly when the check on that resource says so.
\<close>

theorem request_always_decided:
  "(\<exists>r. has_permission table groups perm None url uid = Some r) \<and>
   (has_permission table groups perm None url uid = Some Granted \<longleftrightarrow>
      check_permission table (request_to_resource url) (get_principals groups uid) perm = Some True) \<and>
   (\<exists>paths. resource_ancestors (request_to_resource url) = Some paths)"
proof -
  have "hd (request_to_resource url) = CHR ''/''" by (simp add: request_to_resource_def Let_def)
  then obtain paths where p: "resource_ancestors (request_to_resource url) = Some paths"
    using resource_ancestors_returns by blast
  then obtain b where "check_permission table (request_to_resource url) (get_principals groups uid) perm = Some b"
    by (simp add: check_permission_table check_permission_inmemory_def)
  with p show ?thesis by (auto simp: has_permission_def Let_def)
qed

lemma granted_permissions_filter:
  assumes "resource_ancestors res = Some paths" "set paths \<subseteq> set all_paths"
  shows "granted_permissions res pr perms (get_acl_entries_map table all_paths) =
    Some (filter (\<lambda>p. check_permission table res pr p = Some True) perms)"
proof -
  have "walk_decision pr p (get_acl_entries_map table all_paths) paths = walk_decision pr p table paths" for p
    by (rule walk_decision_cong) (use assms(2) in \<open>auto simp: get_acl_entries_map_def\<close>)
  then show ?thesis
    by (induction perms)
      (simp_all add: check_permission_table check_permission_inmemory_def assms(1))
qed

lemma all_ancestors_covers:
  "all_ancestors resources = Some all_paths \<Longrightarrow> res \<in> set resources \<Longrightarrow>
     \<exists>paths. resource_ancestors res = Some paths \<and> set paths \<subseteq> set all_paths"
proof (induction resources arbitrary: all_paths)
  case (Cons r resources)
  then show ?case by (fastforce simp: bind_eq_Some_conv)
qed simp

lemma collect_permissions_lookup:
  assumes "\<forall>r \<in> set resources. granted_permissions r pr perms entries = Some (g r)"
  shows "\<exists>d. collect_permissions resources pr perms entries result = Some d \<and>
    (\<forall>r. map_of d r = (if r \<in> set resources \<and> g r \<noteq> [] then Some (g r) else map_of result r))"
  using assms
proof (induction resources arbitrary: result)
  case (Cons r0 resources)
  let ?result = "if g r0 \<noteq> [] then AList.update r0 (g r0) result else result"
  from Cons.IH [of ?result] Cons.prems obtain d where
    d: "collect_permissions resources pr perms entries ?result = Some d"
      "\<forall>r. map_of d r = (if r \<in> set resources \<and> g r \<noteq> [] then Some (g r) else map_of ?result r)"
    by auto
  have "collect_permissions (r0 # resources) pr perms entries result = Some d"
    using Cons.prems d(1) by simp
  moreover have "map_of d r = (if r \<in> set (r0 # resources) \<and> g r \<noteq> [] then Some (g r) else map_of result r)" for r
    using d(2) by (auto simp: dict_simps)
  ultimately show ?case by blast
qed simp

text \<open>
  Bulk evaluation agrees with the single check. \<open>permissions_for_resources\<close>, which loads the
  entries of all ancestors in one query, gives each asked resource exactly the permissions the
  single check grants on it, in the asked order, and lists no resource with none.
\<close>

theorem permissions_for_resources_agrees:
  assumes "\<forall>r \<in> set resources. r = [] \<or> hd r = CHR ''/''"
  shows "\<exists>d. permissions_for_resources table resources pr perms = Some d \<and>
    (\<forall>r. map_of d r =
       (let granted = filter (\<lambda>p. check_permission table r pr p = Some True) perms
        in if r \<in> set resources \<and> granted \<noteq> [] then Some granted else None))"
proof -
  have "\<exists>all_paths. all_ancestors resources = Some all_paths"
    using assms resource_ancestors_returns by (induction resources) fastforce+
  then obtain all_paths where a: "all_ancestors resources = Some all_paths" ..
  let ?g = "\<lambda>r. filter (\<lambda>p. check_permission table r pr p = Some True) perms"
  have "\<forall>r \<in> set resources.
      granted_permissions r pr perms (get_acl_entries_map table all_paths) = Some (?g r)"
    using all_ancestors_covers [OF a] granted_permissions_filter by blast
  from collect_permissions_lookup [OF this, of "[]"] a show ?thesis
    by (auto simp: permissions_for_resources_def Let_def)
qed

theorem permissions_for_resources_agrees_witness:
  "\<exists>d. permissions_for_resources example_table [''/workspaces/w1''] (get_principals (\<lambda>_. []) ''u1'')
     [''view'', ''edit''] = Some d \<and> map_of d ''/workspaces/w1'' = Some [''edit'']"
proof -
  have "check_permission example_table ''/workspaces/w1'' (get_principals (\<lambda>_. []) ''u1'') ''view'' = Some False"
    "check_permission example_table ''/workspaces/w1'' (get_principals (\<lambda>_. []) ''u1'') ''edit'' = Some True"
    by (simp_all add: check_permission_table check_permission_inmemory_def example_ancestors
        example_table_def example_ace_def ace_matches_principals_def ace_decision_def get_principals_def)
  with permissions_for_resources_agrees [of "[''/workspaces/w1'']" example_table
      "get_principals (\<lambda>_. []) ''u1''" "[''view'', ''edit'']"]
  show ?thesis by auto
qed

end
