(* ===== verification/Acl_Store.thy ===== *)
theory Acl_Store
  imports Acl "HOL-Library.List_Lexorder" "HOL-Library.Char_ord"
begin

text \<open>
  The tables behind the permission checks and every writer into them: \<open>model/acl.py\<close>, the groups and
  memberships of \<open>model/users.py\<close>, and the parts of \<open>model/workspaces.py\<close> that seed, move and tear down
  a workspace's entries. A table is its list of rows in insertion order. A statement that a constraint of
  \<open>model/schema.py\<close> refuses is an \<open>IntegrityError\<close>; a transaction that raises leaves the tables as they
  were. The rows keep the columns the permission system reads; a fresh identifier (\<open>uuid4\<close>) is an
  argument of the operation that draws it.
\<close>

section \<open>Tables\<close>

definition SYSTEM_AGENT_ID :: string where
  "SYSTEM_AGENT_ID = ''00000000-0000-0000-0000-000000000001''"

definition ADMIN_GROUP_NAME :: string where "ADMIN_GROUP_NAME = ''admins''"
definition GROUP_SOURCE_MANUAL :: string where "GROUP_SOURCE_MANUAL = ''manual''"
definition GROUP_SOURCE_WORKSPACE_ROLE :: string where "GROUP_SOURCE_WORKSPACE_ROLE = ''workspace-role''"
definition OWNER_ROLE :: string where "OWNER_ROLE = ''owners''"

record member_account =
  u_id :: string
  u_email :: string
  u_handle :: string

record group_row =
  g_id :: string
  g_name :: string
  g_description :: "string option"
  g_source :: string

record membership =
  m_user :: string
  m_group :: string
  m_source :: string

record owned_workspace =
  w_id :: string
  w_owner :: string
  w_name :: string

record acl_row =
  a_id :: nat
  a_resource :: string
  a_position :: int
  a_ace :: ace

datatype share_effect = Workspaces_Changed string | Share_Event string string

record share_db =
  t_users :: "member_account list"
  t_groups :: "group_row list"
  t_members :: "membership list"
  t_workspaces :: "owned_workspace list"
  t_acl :: "acl_row list"
  t_acl_seq :: nat
  emitted :: "share_effect list"

datatype share_error =
    Agent_Principal
  | Role_Scope
  | Admin_Group_Protection
  | Integrity_Error
  | Value_Error
  | Http_Status nat

type_synonym 'a tx = "share_db \<Rightarrow> share_error + 'a \<times> share_db"
type_synonym 'a outcome = "(share_error + 'a) \<times> share_db"

definition tx_return :: "'a \<Rightarrow> 'a tx" where
  "tx_return a db = Inr (a, db)"

definition tx_raise :: "share_error \<Rightarrow> 'a tx" where
  "tx_raise e db = Inl e"

definition tx_bind :: "'a tx \<Rightarrow> ('a \<Rightarrow> 'b tx) \<Rightarrow> 'b tx" where
  "tx_bind m f db = (case m db of Inl e \<Rightarrow> Inl e | Inr (a, db') \<Rightarrow> f a db')"

fun tx_each :: "('x \<Rightarrow> unit tx) \<Rightarrow> 'x list \<Rightarrow> unit tx" where
  "tx_each f [] = tx_return ()"
| "tx_each f (x # xs) = tx_bind (f x) (\<lambda>_. tx_each f xs)"

text \<open>\<open>db.transaction()\<close>: commit on a clean exit, roll back and re-raise on an error.\<close>

definition transaction :: "'a tx \<Rightarrow> share_db \<Rightarrow> 'a outcome" where
  "transaction m db = (case m db of Inl e \<Rightarrow> (Inl e, db) | Inr (a, db') \<Rightarrow> (Inr a, db'))"

lemma pred_option_code [code]: "pred_option P None = True" "pred_option P (Some x) = P x"
  by simp_all

definition known_user :: "share_db \<Rightarrow> string \<Rightarrow> bool" where
  "known_user db i = (i \<in> u_id ` set (t_users db))"

definition known_group :: "share_db \<Rightarrow> string \<Rightarrow> bool" where
  "known_group db i = (i \<in> g_id ` set (t_groups db))"


section \<open>Access-control entries\<close>

text \<open>
  One INSERT: \<open>UNIQUE(resource, position)\<close>, the CHECK on the agent, and the two foreign keys.
\<close>

definition insert_acl_entry :: "string \<Rightarrow> int \<Rightarrow> ace \<Rightarrow> nat tx" where
  "insert_acl_entry resource pos e db =
     (if (resource, pos) \<in> (\<lambda>r. (a_resource r, a_position r)) ` set (t_acl db) then Inl Integrity_Error
      else if principal_type e = PRINCIPAL_USER \<and> ace_user_id e = Some SYSTEM_AGENT_ID then Inl Integrity_Error
      else if \<not> pred_option (known_user db) (ace_user_id e) \<or> \<not> pred_option (known_group db) (ace_group_id e)
      then Inl Integrity_Error
      else (let i = Suc (t_acl_seq db)
            in Inr (i, db\<lparr>t_acl := t_acl db @ [\<lparr>a_id = i, a_resource = resource, a_position = pos, a_ace = e\<rparr>],
                          t_acl_seq := i\<rparr>)))"

definition reject_agent_principal :: "ace \<Rightarrow> bool" where
  "reject_agent_principal e = (principal_type e = PRINCIPAL_USER \<and> ace_user_id e = Some SYSTEM_AGENT_ID)"

text \<open>\<open>name.split("-", 1)\<close> and the resource the second part names.\<close>

definition role_group_resource :: "string \<Rightarrow> string option" where
  "role_group_resource name =
     (case dropWhile (\<lambda>c. c \<noteq> CHR ''-'') name of [] \<Rightarrow> None | _ # rest \<Rightarrow> Some (''/workspaces/'' @ rest))"

definition check_role_group_scope :: "string \<Rightarrow> string \<Rightarrow> unit tx" where
  "check_role_group_scope resource gid db =
     (case find (\<lambda>g. g_id g = gid) (t_groups db) of
        None \<Rightarrow> tx_return () db
      | Some g \<Rightarrow>
          if g_source g \<noteq> GROUP_SOURCE_WORKSPACE_ROLE then tx_return () db
          else if role_group_resource (g_name g) \<noteq> Some resource then tx_raise Role_Scope db
          else tx_return () db)"

definition check_entry_scope :: "string \<Rightarrow> ace \<Rightarrow> unit tx" where
  "check_entry_scope resource e =
     (if principal_type e = PRINCIPAL_GROUP
      then (case ace_group_id e of Some gid \<Rightarrow> check_role_group_scope resource gid | None \<Rightarrow> tx_return ())
      else tx_return ())"

definition add_acl_entry :: "string \<Rightarrow> int \<Rightarrow> ace \<Rightarrow> share_db \<Rightarrow> nat outcome" where
  "add_acl_entry resource pos e db =
     (if ace_user_id e = Some SYSTEM_AGENT_ID then (Inl Agent_Principal, db)
      else transaction
        (tx_bind (check_entry_scope resource e) (\<lambda>_. insert_acl_entry resource pos e)) db)"

definition get_acl_entries :: "share_db \<Rightarrow> string \<Rightarrow> acl_row list" where
  "get_acl_entries db resource = sort_key a_position (filter (\<lambda>r. a_resource r = resource) (t_acl db))"

definition next_position :: "acl_row list \<Rightarrow> int" where
  "next_position entries = (if entries = [] then -1 else Max (set (map a_position entries))) + 1"

definition is_principal_entry :: "acl_row \<Rightarrow> int \<Rightarrow> string option \<Rightarrow> string option \<Rightarrow> bool" where
  "is_principal_entry r ptype uid gid =
     (principal_type (a_ace r) = ptype \<and> ace_user_id (a_ace r) = uid \<and> ace_group_id (a_ace r) = gid)"

definition share_ace :: "int \<Rightarrow> string option \<Rightarrow> string option \<Rightarrow> string \<Rightarrow> ace" where
  "share_ace ptype uid gid perm =
     \<lparr>action = ACTION_ALLOW, principal_type = ptype, ace_user_id = uid, ace_group_id = gid,
      system_principal = None, permission = perm\<rparr>"

definition load_locked_entries ::
  "string \<Rightarrow> int \<Rightarrow> string option \<Rightarrow> string option \<Rightarrow> acl_row list option tx" where
  "load_locked_entries resource ptype uid gid =
     tx_bind (if ptype = PRINCIPAL_GROUP
              then (case gid of Some g \<Rightarrow> check_role_group_scope resource g | None \<Rightarrow> tx_return ())
              else tx_return ())
       (\<lambda>_ db. let entries = get_acl_entries db resource
          in tx_return
            (if list_ex (\<lambda>r. is_principal_entry r ptype uid gid) entries then None else Some entries) db)"

fun insert_block :: "string \<Rightarrow> int \<Rightarrow> (string \<Rightarrow> ace) \<Rightarrow> string list \<Rightarrow> unit tx" where
  "insert_block resource pos template [] = tx_return ()"
| "insert_block resource pos template (perm # perms) =
     tx_bind (insert_acl_entry resource pos (template perm))
       (\<lambda>_. insert_block resource (pos + 1) template perms)"

definition add_principal_entries ::
  "string \<Rightarrow> string list \<Rightarrow> int \<Rightarrow> string option \<Rightarrow> string option \<Rightarrow> share_db \<Rightarrow> bool outcome" where
  "add_principal_entries resource permissions ptype uid gid db =
     (if reject_agent_principal (share_ace ptype uid gid []) then (Inl Agent_Principal, db)
      else transaction
        (tx_bind (load_locked_entries resource ptype uid gid)
          (\<lambda>found. case found of
             None \<Rightarrow> tx_return False
           | Some entries \<Rightarrow>
               tx_bind (insert_block resource (next_position entries) (share_ace ptype uid gid) permissions)
                 (\<lambda>_. tx_return True))) db)"

definition delete_resource_rows :: "string \<Rightarrow> unit tx" where
  "delete_resource_rows resource db =
     Inr ((), db\<lparr>t_acl := filter (\<lambda>r. a_resource r \<noteq> resource) (t_acl db)\<rparr>)"

definition replace_acl_entries :: "string \<Rightarrow> (int \<times> ace) list \<Rightarrow> share_db \<Rightarrow> unit outcome" where
  "replace_acl_entries resource entries db =
     (if list_ex (\<lambda>(_, e). reject_agent_principal e) entries then (Inl Agent_Principal, db)
      else transaction
        (tx_bind (tx_each (\<lambda>(_, e). check_entry_scope resource e) entries) (\<lambda>_.
         tx_bind (delete_resource_rows resource) (\<lambda>_.
         tx_each (\<lambda>(pos, e). tx_bind (insert_acl_entry resource pos e) (\<lambda>_. tx_return ())) entries))) db)"

definition delete_acl_entries_for_resource :: "string \<Rightarrow> share_db \<Rightarrow> nat outcome" where
  "delete_acl_entries_for_resource resource db =
     transaction (tx_bind (delete_resource_rows resource) (\<lambda>_.
       tx_return (length (filter (\<lambda>r. a_resource r = resource) (t_acl db))))) db"

text \<open>What the permission checks read: the entries of a path in position order.\<close>

definition acl_table_of :: "share_db \<Rightarrow> acl_table" where
  "acl_table_of db path = map a_ace (get_acl_entries db path)"


section \<open>Groups and memberships\<close>

definition get_group_by_name :: "share_db \<Rightarrow> string \<Rightarrow> group_row option" where
  "get_group_by_name db name = find (\<lambda>g. g_name g = name) (t_groups db)"

definition get_group_by_id :: "share_db \<Rightarrow> string \<Rightarrow> group_row option" where
  "get_group_by_id db gid = find (\<lambda>g. g_id g = gid) (t_groups db)"

definition insert_group :: "group_row \<Rightarrow> unit tx" where
  "insert_group g db =
     (if g_id g \<in> g_id ` set (t_groups db) \<or> g_name g \<in> g_name ` set (t_groups db) then Inl Integrity_Error
      else Inr ((), db\<lparr>t_groups := t_groups db @ [g]\<rparr>))"

definition create_group ::
  "string \<Rightarrow> string \<Rightarrow> string option \<Rightarrow> string \<Rightarrow> share_db \<Rightarrow> group_row outcome" where
  "create_group gid name description source db =
     (if source \<noteq> GROUP_SOURCE_MANUAL \<and> source \<noteq> GROUP_SOURCE_WORKSPACE_ROLE then (Inl Value_Error, db)
      else (let g = \<lparr>g_id = gid, g_name = name, g_description = description, g_source = source\<rparr>
            in transaction (tx_bind (insert_group g) (\<lambda>_. tx_return g)) db))"

text \<open>Deleting a group row deletes, through the foreign keys, its memberships and its entries.\<close>

definition drop_group :: "string \<Rightarrow> share_db \<Rightarrow> share_db" where
  "drop_group gid db =
     db\<lparr>t_groups := filter (\<lambda>g. g_id g \<noteq> gid) (t_groups db),
        t_members := filter (\<lambda>m. m_group m \<noteq> gid) (t_members db),
        t_acl := filter (\<lambda>r. ace_group_id (a_ace r) \<noteq> Some gid) (t_acl db)\<rparr>"

definition delete_group :: "string \<Rightarrow> share_db \<Rightarrow> bool outcome" where
  "delete_group gid db =
     (if map_option g_name (get_group_by_id db gid) = Some ADMIN_GROUP_NAME then (Inl Admin_Group_Protection, db)
      else transaction (\<lambda>db. Inr (known_group db gid, drop_group gid db)) db)"

definition admin_rename_error :: "string \<Rightarrow> string \<Rightarrow> bool" where
  "admin_rename_error current name =
     ((current = ADMIN_GROUP_NAME \<and> name \<noteq> ADMIN_GROUP_NAME) \<or>
      (current \<noteq> ADMIN_GROUP_NAME \<and> name = ADMIN_GROUP_NAME))"

definition set_group_fields :: "string \<Rightarrow> string option \<Rightarrow> string option \<Rightarrow> bool tx" where
  "set_group_fields gid name description db =
     (if \<not> known_group db gid then Inr (False, db)
      else if (case name of None \<Rightarrow> False | Some n \<Rightarrow> list_ex (\<lambda>g. g_id g \<noteq> gid \<and> g_name g = n) (t_groups db))
      then Inl Integrity_Error
      else Inr (True, db\<lparr>t_groups := map (\<lambda>g. if g_id g = gid
                   then g\<lparr>g_name := (case name of Some n \<Rightarrow> n | None \<Rightarrow> g_name g),
                          g_description := (case description of Some d \<Rightarrow> Some d | None \<Rightarrow> g_description g)\<rparr>
                   else g) (t_groups db)\<rparr>))"

definition update_group ::
  "string \<Rightarrow> string option \<Rightarrow> string option \<Rightarrow> share_db \<Rightarrow> bool outcome" where
  "update_group gid name description db =
     (if name \<noteq> None \<and> map_option g_source (get_group_by_id db gid) = Some GROUP_SOURCE_WORKSPACE_ROLE
      then (Inl Role_Scope, db)
      else if (case (name, get_group_by_id db gid) of
                 (Some n, Some g) \<Rightarrow> admin_rename_error (g_name g) n | _ \<Rightarrow> False)
      then (Inl Admin_Group_Protection, db)
      else if name = None \<and> description = None then (Inr False, db)
      else transaction (set_group_fields gid name description) db)"

text \<open>
  \<open>INSERT OR IGNORE\<close>: the primary key and the CHECK are ignored conflicts, a missing parent row is not.
\<close>

definition insert_membership :: "string \<Rightarrow> string \<Rightarrow> string \<Rightarrow> unit tx" where
  "insert_membership uid gid source db =
     (if (uid, gid) \<in> (\<lambda>m. (m_user m, m_group m)) ` set (t_members db) \<or> uid = SYSTEM_AGENT_ID
      then Inr ((), db)
      else if \<not> known_user db uid \<or> \<not> known_group db gid then Inl Integrity_Error
      else Inr ((), db\<lparr>t_members := t_members db @ [\<lparr>m_user = uid, m_group = gid, m_source = source\<rparr>]\<rparr>))"

definition add_user_to_group :: "string \<Rightarrow> string \<Rightarrow> string \<Rightarrow> share_db \<Rightarrow> unit outcome" where
  "add_user_to_group uid gid source db =
     (if uid = SYSTEM_AGENT_ID then (Inl Agent_Principal, db)
      else transaction (insert_membership uid gid source) db)"

definition delete_membership :: "string \<Rightarrow> string \<Rightarrow> share_db \<Rightarrow> share_db" where
  "delete_membership uid gid db =
     db\<lparr>t_members := filter (\<lambda>m. \<not> (m_user m = uid \<and> m_group m = gid)) (t_members db)\<rparr>"

definition remove_user_from_group :: "string \<Rightarrow> string \<Rightarrow> share_db \<Rightarrow> bool outcome" where
  "remove_user_from_group uid gid db =
     transaction (\<lambda>db. Inr (list_ex (\<lambda>m. m_user m = uid \<and> m_group m = gid) (t_members db),
       delete_membership uid gid db)) db"

definition get_user_group_ids :: "share_db \<Rightarrow> string \<Rightarrow> string list" where
  "get_user_group_ids db uid = map m_group (filter (\<lambda>m. m_user m = uid) (t_members db))"

text \<open>\<open>get_group_members\<close>: the join of the users with the memberships of the group, by e-mail address.\<close>

definition get_group_members :: "share_db \<Rightarrow> string \<Rightarrow> (string \<times> string) list" where
  "get_group_members db gid =
     map (\<lambda>(u, m). (u_id u, u_email u))
       (sort_key (\<lambda>(u, m). u_email u)
         (concat (map (\<lambda>u. map (Pair u) (filter (\<lambda>m. m_user m = u_id u \<and> m_group m = gid) (t_members db))) (t_users db))))"

text \<open>
  Deleting a user row deletes, through the foreign keys, their workspaces, memberships and entries.
\<close>

definition delete_user :: "string \<Rightarrow> share_db \<Rightarrow> bool outcome" where
  "delete_user uid db =
     (if uid = SYSTEM_AGENT_ID then (Inl Agent_Principal, db)
      else transaction (\<lambda>db. Inr (known_user db uid,
        db\<lparr>t_users := filter (\<lambda>u. u_id u \<noteq> uid) (t_users db),
           t_workspaces := filter (\<lambda>w. w_owner w \<noteq> uid) (t_workspaces db),
           t_members := filter (\<lambda>m. m_user m \<noteq> uid) (t_members db),
           t_acl := filter (\<lambda>r. ace_user_id (a_ace r) \<noteq> Some uid) (t_acl db)\<rparr>)) db)"

definition get_user_by_identifier :: "share_db \<Rightarrow> string \<Rightarrow> member_account option" where
  "get_user_by_identifier db identifier =
     (if CHR ''@'' \<in> set identifier then find (\<lambda>u. u_email u = identifier) (t_users db)
      else find (\<lambda>u. u_handle u = identifier) (t_users db))"


section \<open>Workspaces\<close>

definition ROLE_GROUP_PERMISSIONS :: "(string, string list) dict" where
  "ROLE_GROUP_PERMISSIONS =
     [(''owners'', [''*'']),
      (''coders'',
        [''monitor-workspace'', ''join-workspace'', ''terminal'', ''start-workspace'', ''stop-workspace'',
         ''restart-workspace'', ''egress-consent'', ''code-in-isolation'', ''exec-and-sync'',
         ''spectate-on-shared-terminals'', ''files-view'', ''files-download'', ''files-write'']),
      (''collaborators'',
        [''monitor-workspace'', ''join-workspace'', ''terminal'', ''start-workspace'', ''stop-workspace'',
         ''restart-workspace'', ''egress-consent'', ''code-in-isolation'', ''exec-and-sync'',
         ''code-in-shared-terminals'', ''spectate-on-shared-terminals'', ''share-terminals'',
         ''files-view'', ''files-download'', ''files-write'']),
      (''spectators'',
        [''monitor-workspace'', ''join-workspace'', ''terminal'', ''spectate-on-shared-terminals''])]"

definition workspace_path :: "string \<Rightarrow> string" where
  "workspace_path wid = ''/workspaces/'' @ wid"

definition role_group_name :: "string \<Rightarrow> string \<Rightarrow> string" where
  "role_group_name suffix wid = suffix @ ''-'' @ wid"

definition insert_workspace_row :: "string \<Rightarrow> string \<Rightarrow> string \<Rightarrow> unit tx" where
  "insert_workspace_row wid uid name db =
     (if wid \<in> w_id ` set (t_workspaces db) \<or> (uid, name) \<in> (\<lambda>w. (w_owner w, w_name w)) ` set (t_workspaces db) \<or>
         uid = SYSTEM_AGENT_ID \<or> \<not> known_user db uid
      then Inl Integrity_Error
      else Inr ((), db\<lparr>t_workspaces := t_workspaces db @ [\<lparr>w_id = wid, w_owner = uid, w_name = name\<rparr>]\<rparr>))"

text \<open>The loop over the role groups; \<open>gids\<close> are the identifiers it draws.\<close>

fun seed_role_groups ::
  "string \<Rightarrow> string \<Rightarrow> int \<Rightarrow> (string \<times> string list) list \<Rightarrow> string list \<Rightarrow> unit tx" where
  "seed_role_groups wid uid pos ((suffix, perms) # roles) (gid # gids) =
     tx_bind (insert_group \<lparr>g_id = gid, g_name = role_group_name suffix wid,
        g_description = Some (''Workspace role group: '' @ suffix), g_source = GROUP_SOURCE_WORKSPACE_ROLE\<rparr>) (\<lambda>_.
     tx_bind (insert_block (workspace_path wid) pos (share_ace PRINCIPAL_GROUP None (Some gid)) perms) (\<lambda>_.
     tx_bind (if suffix = OWNER_ROLE then insert_membership uid gid ''manual'' else tx_return ()) (\<lambda>_.
     seed_role_groups wid uid (pos + int (length perms)) roles gids)))"
| "seed_role_groups wid uid pos _ _ = tx_return ()"

definition seed_workspace_acl :: "string \<Rightarrow> string \<Rightarrow> string list \<Rightarrow> unit tx" where
  "seed_workspace_acl wid uid gids =
     tx_bind (insert_acl_entry (workspace_path wid) 0 (share_ace PRINCIPAL_USER (Some uid) None ''*''))
       (\<lambda>_. seed_role_groups wid uid 1 ROLE_GROUP_PERMISSIONS gids)"

definition create_workspace_with_acl ::
  "string \<Rightarrow> string \<Rightarrow> string \<Rightarrow> string list \<Rightarrow> share_db \<Rightarrow> string outcome" where
  "create_workspace_with_acl uid name wid gids db =
     (if uid = SYSTEM_AGENT_ID then (Inl Agent_Principal, db)
      else transaction
        (tx_bind (insert_workspace_row wid uid name) (\<lambda>_.
         tx_bind (seed_workspace_acl wid uid gids) (\<lambda>_. tx_return wid))) db)"

text \<open>SQLite's \<open>LIKE\<close> folds the ASCII letters.\<close>

definition like_fold :: "string \<Rightarrow> string" where
  "like_fold = map (\<lambda>c. let n = (of_char c :: nat) in if 65 \<le> n \<and> n \<le> 90 then char_of (n + 32) else c)"

definition get_workspace_role_groups :: "share_db \<Rightarrow> string \<Rightarrow> group_row list" where
  "get_workspace_role_groups db wid =
     filter (\<lambda>g. g_source g = GROUP_SOURCE_WORKSPACE_ROLE \<and>
                 endswith (like_fold (g_name g)) (like_fold (''-'' @ wid))) (t_groups db)"

definition delete_workspace :: "string \<Rightarrow> string \<Rightarrow> share_db \<Rightarrow> bool outcome" where
  "delete_workspace wid uid db =
     transaction (\<lambda>db.
       if \<not> list_ex (\<lambda>w. w_id w = wid \<and> w_owner w = uid) (t_workspaces db) then Inr (False, db)
       else (let db1 = db\<lparr>t_workspaces := filter (\<lambda>w. \<not> (w_id w = wid \<and> w_owner w = uid)) (t_workspaces db),
                          t_acl := filter (\<lambda>r. a_resource r \<noteq> workspace_path wid) (t_acl db)\<rparr>
             in Inr (True, fold (\<lambda>g. drop_group (g_id g)) (get_workspace_role_groups db1 wid) db1))) db"

definition swap_owners_group :: "string \<Rightarrow> string \<Rightarrow> string \<Rightarrow> unit tx" where
  "swap_owners_group wid old new db =
     (case find (\<lambda>g. startswith (g_name g) (OWNER_ROLE @ ''-'')) (get_workspace_role_groups db wid) of
        None \<Rightarrow> tx_return () db
      | Some g \<Rightarrow> insert_membership new (g_id g) ''manual'' (delete_membership old (g_id g) db))"

text \<open>The two UPDATE statements of a transfer, under the foreign key on the new owner.\<close>

definition move_owner :: "string \<Rightarrow> string \<Rightarrow> unit tx" where
  "move_owner wid new db =
     (if \<not> known_user db new then Inl Integrity_Error
      else Inr ((), db\<lparr>t_workspaces := map (\<lambda>w. if w_id w = wid then w\<lparr>w_owner := new\<rparr> else w) (t_workspaces db),
        t_acl := map (\<lambda>r. if a_resource r = workspace_path wid \<and> a_position r = 0 \<and>
                             principal_type (a_ace r) = PRINCIPAL_USER
                          then r\<lparr>a_ace := (a_ace r)\<lparr>ace_user_id := Some new\<rparr>\<rparr> else r) (t_acl db)\<rparr>))"

definition transfer_workspace :: "string \<Rightarrow> string \<Rightarrow> share_db \<Rightarrow> bool outcome" where
  "transfer_workspace wid new db =
     (if new = SYSTEM_AGENT_ID then (Inl Agent_Principal, db)
      else transaction (\<lambda>db.
        case find (\<lambda>w. w_id w = wid) (t_workspaces db) of
          None \<Rightarrow> tx_return False db
        | Some w \<Rightarrow>
            if w_owner w = new then tx_raise Value_Error db
            else if list_ex (\<lambda>v. w_owner v = new \<and> w_name v = w_name w \<and> w_id v \<noteq> wid) (t_workspaces db)
            then tx_raise Value_Error db
            else tx_bind (move_owner wid new) (\<lambda>_.
                 tx_bind (swap_owners_group wid (w_owner w) new) (\<lambda>_. tx_return True)) db) db)"

section \<open>What the transactions keep\<close>

text \<open>
  A transaction meets a contract when, started where the precondition holds, it raises or ends where the
  postcondition does.
\<close>

definition tx_meets :: "(share_db \<Rightarrow> bool) \<Rightarrow> 'a tx \<Rightarrow> ('a \<Rightarrow> share_db \<Rightarrow> bool) \<Rightarrow> bool" where
  "tx_meets P m Q \<longleftrightarrow> (\<forall>db a db'. P db \<longrightarrow> m db = Inr (a, db') \<longrightarrow> Q a db')"

lemma tx_meetsI: "(\<And>db a db'. P db \<Longrightarrow> m db = Inr (a, db') \<Longrightarrow> Q a db') \<Longrightarrow> tx_meets P m Q"
  by (auto simp: tx_meets_def)

lemma tx_meetsD: "tx_meets P m Q \<Longrightarrow> P db \<Longrightarrow> m db = Inr (a, db') \<Longrightarrow> Q a db'"
  by (auto simp: tx_meets_def)

lemma tx_meets_weaken: "tx_meets P' m Q \<Longrightarrow> (\<And>db. P db \<Longrightarrow> P' db) \<Longrightarrow> tx_meets P m Q"
  by (auto simp: tx_meets_def)

lemma tx_meets_return: "tx_meets (Q a) (tx_return a) Q"
  by (auto simp: tx_meets_def tx_return_def)

lemma tx_bind_Inr:
  "tx_bind m f db = Inr (b, db'') \<longleftrightarrow> (\<exists>a db'. m db = Inr (a, db') \<and> f a db' = Inr (b, db''))"
  by (auto simp: tx_bind_def split: sum.splits)

lemma tx_return_Inr: "tx_return a db = Inr (b, db') \<longleftrightarrow> b = a \<and> db' = db"
  by (auto simp: tx_return_def)

lemma tx_meets_bind:
  "tx_meets P m R \<Longrightarrow> (\<And>a. tx_meets (R a) (f a) Q) \<Longrightarrow> tx_meets P (tx_bind m f) Q"
  unfolding tx_meets_def tx_bind_Inr by blast

lemma tx_meets_each:
  assumes "\<And>x. x \<in> set xs \<Longrightarrow> tx_meets P (f x) (\<lambda>_. P)"
  shows "tx_meets P (tx_each f xs) (\<lambda>_. P)"
  using assms
proof (induction xs)
  case Nil
  show ?case using tx_meets_return [of "\<lambda>_. P" "()"] by simp
next
  case (Cons x xs)
  then show ?case by (simp add: tx_meets_bind [where R = "\<lambda>_. P"])
qed

lemma transaction_meets:
  "tx_meets P m (\<lambda>_. P) \<Longrightarrow> P db \<Longrightarrow> P (snd (transaction m db))"
  by (auto simp: transaction_def tx_meets_def split: sum.splits)

lemma transaction_Inr: "transaction m db = (Inr a, db') \<longleftrightarrow> m db = Inr (a, db')"
  by (auto simp: transaction_def split: sum.splits)


section \<open>The invariant\<close>

definition scope_ok :: "share_db \<Rightarrow> string \<Rightarrow> ace \<Rightarrow> bool" where
  "scope_ok db resource e \<longleftrightarrow>
     principal_type e = PRINCIPAL_GROUP \<longrightarrow>
     (\<forall>g \<in> set (t_groups db). ace_group_id e = Some (g_id g) \<and> g_source g = GROUP_SOURCE_WORKSPACE_ROLE \<longrightarrow>
        role_group_resource (g_name g) = Some resource)"

definition row_ok :: "share_db \<Rightarrow> acl_row \<Rightarrow> bool" where
  "row_ok db r \<longleftrightarrow>
     \<not> reject_agent_principal (a_ace r) \<and> pred_option (known_user db) (ace_user_id (a_ace r)) \<and>
     pred_option (known_group db) (ace_group_id (a_ace r)) \<and> scope_ok db (a_resource r) (a_ace r)"

definition member_ok :: "share_db \<Rightarrow> membership \<Rightarrow> bool" where
  "member_ok db m \<longleftrightarrow> m_user m \<noteq> SYSTEM_AGENT_ID \<and> known_user db (m_user m) \<and> known_group db (m_group m)"

definition workspace_ok :: "share_db \<Rightarrow> owned_workspace \<Rightarrow> bool" where
  "workspace_ok db w \<longleftrightarrow> w_owner w \<noteq> SYSTEM_AGENT_ID \<and> known_user db (w_owner w)"

definition keys_ok :: "share_db \<Rightarrow> bool" where
  "keys_ok db \<longleftrightarrow>
     distinct (map u_id (t_users db)) \<and> distinct (map g_id (t_groups db)) \<and> distinct (map g_name (t_groups db)) \<and>
     distinct (map (\<lambda>r. (a_resource r, a_position r)) (t_acl db)) \<and>
     distinct (map (\<lambda>m. (m_user m, m_group m)) (t_members db)) \<and>
     distinct (map w_id (t_workspaces db)) \<and> distinct (map (\<lambda>w. (w_owner w, w_name w)) (t_workspaces db))"

definition acl_db_ok :: "share_db \<Rightarrow> bool" where
  "acl_db_ok db \<longleftrightarrow>
     keys_ok db \<and> list_all (row_ok db) (t_acl db) \<and> list_all (member_ok db) (t_members db) \<and>
     list_all (workspace_ok db) (t_workspaces db)"

lemmas acl_db_ok_unfold = acl_db_ok_def keys_ok_def row_ok_def member_ok_def workspace_ok_def list_all_iff

lemma known_user_frame [simp]:
  "known_user (db\<lparr>t_acl := x\<rparr>) = known_user db" "known_user (db\<lparr>t_acl_seq := n\<rparr>) = known_user db"
  "known_user (db\<lparr>t_members := y\<rparr>) = known_user db" "known_user (db\<lparr>t_workspaces := z\<rparr>) = known_user db"
  "known_user (db\<lparr>t_groups := v\<rparr>) = known_user db" "known_user (db\<lparr>emitted := ev\<rparr>) = known_user db"
  by (simp_all add: known_user_def fun_eq_iff)

lemma known_group_frame [simp]:
  "known_group (db\<lparr>t_acl := x\<rparr>) = known_group db" "known_group (db\<lparr>t_acl_seq := n\<rparr>) = known_group db"
  "known_group (db\<lparr>t_members := y\<rparr>) = known_group db" "known_group (db\<lparr>t_workspaces := z\<rparr>) = known_group db"
  "known_group (db\<lparr>t_users := u\<rparr>) = known_group db" "known_group (db\<lparr>emitted := ev\<rparr>) = known_group db"
  by (simp_all add: known_group_def fun_eq_iff)

lemma scope_ok_frame [simp]:
  "scope_ok (db\<lparr>t_acl := x\<rparr>) = scope_ok db" "scope_ok (db\<lparr>t_acl_seq := n\<rparr>) = scope_ok db"
  "scope_ok (db\<lparr>t_members := y\<rparr>) = scope_ok db" "scope_ok (db\<lparr>t_workspaces := z\<rparr>) = scope_ok db"
  "scope_ok (db\<lparr>t_users := u\<rparr>) = scope_ok db" "scope_ok (db\<lparr>emitted := ev\<rparr>) = scope_ok db"
  by (simp_all add: scope_ok_def fun_eq_iff)

lemma known_group_ids: "map g_id (t_groups db') = map g_id (t_groups db) \<Longrightarrow> known_group db' = known_group db"
  unfolding known_group_def fun_eq_iff by (metis list.set_map)

lemma ok_frame [simp]:
  "row_ok (db\<lparr>t_acl := x\<rparr>) = row_ok db" "row_ok (db\<lparr>t_workspaces := z\<rparr>) = row_ok db"
  "member_ok (db\<lparr>t_acl := x\<rparr>) = member_ok db" "member_ok (db\<lparr>t_workspaces := z\<rparr>) = member_ok db"
  "workspace_ok (db\<lparr>t_acl := x\<rparr>) = workspace_ok db" "workspace_ok (db\<lparr>t_workspaces := z\<rparr>) = workspace_ok db"
  by (simp_all add: row_ok_def member_ok_def workspace_ok_def fun_eq_iff)

lemma scope_ok_groups: "t_groups db' = t_groups db \<Longrightarrow> scope_ok db' = scope_ok db"
  by (simp add: scope_ok_def fun_eq_iff)

lemma find_by_key:
  assumes "distinct (map f xs)" "x \<in> set xs"
  shows "find (\<lambda>y. f y = f x) xs = Some x"
  using assms by (induction xs) (auto simp: rev_image_eqI)

lemma check_role_group_scope_meets:
  "tx_meets acl_db_ok (check_role_group_scope resource gid)
     (\<lambda>_ db. acl_db_ok db \<and> (\<forall>e. ace_group_id e = Some gid \<longrightarrow> scope_ok db resource e))"
proof (rule tx_meetsI)
  fix db a db'
  assume ok: "acl_db_ok db" and run: "check_role_group_scope resource gid db = Inr (a, db')"
  then have "db' = db"
    by (auto simp: check_role_group_scope_def tx_return_def tx_raise_def split: option.splits if_splits)
  moreover have "role_group_resource (g_name g) = Some resource"
    if "g \<in> set (t_groups db)" "g_id g = gid" "g_source g = GROUP_SOURCE_WORKSPACE_ROLE" for g
  proof -
    have "find (\<lambda>y. g_id y = gid) (t_groups db) = Some g"
      using find_by_key [of g_id "t_groups db" g] ok that by (simp add: acl_db_ok_def keys_ok_def)
    with run that show ?thesis
      by (auto simp: check_role_group_scope_def tx_return_def tx_raise_def split: if_splits)
  qed
  ultimately show "acl_db_ok db' \<and> (\<forall>e. ace_group_id e = Some gid \<longrightarrow> scope_ok db' resource e)"
    using ok by (auto simp: scope_ok_def)
qed

lemma check_entry_scope_meets:
  "tx_meets acl_db_ok (check_entry_scope resource e) (\<lambda>_ db. acl_db_ok db \<and> scope_ok db resource e)"
proof (cases "principal_type e = PRINCIPAL_GROUP \<and> ace_group_id e \<noteq> None")
  case True
  then obtain gid where "ace_group_id e = Some gid" by blast
  with True check_role_group_scope_meets [of resource gid] show ?thesis
    by (auto simp: check_entry_scope_def tx_meets_def)
next
  case False
  then show ?thesis
    by (auto simp: check_entry_scope_def tx_meets_def tx_return_def scope_ok_def split: if_splits option.splits)
qed

lemma insert_acl_entry_Inr:
  assumes "insert_acl_entry resource pos e db = Inr (i, db')"
  shows "db' = db\<lparr>t_acl := t_acl db @ [\<lparr>a_id = i, a_resource = resource, a_position = pos, a_ace = e\<rparr>],
                  t_acl_seq := i\<rparr>"
    and "(resource, pos) \<notin> (\<lambda>r. (a_resource r, a_position r)) ` set (t_acl db)"
    and "\<not> reject_agent_principal e" "pred_option (known_user db) (ace_user_id e)"
        "pred_option (known_group db) (ace_group_id e)"
  using assms by (auto simp: insert_acl_entry_def Let_def reject_agent_principal_def split: if_splits)

lemma insert_acl_entry_meets:
  "tx_meets (\<lambda>db. acl_db_ok db \<and> scope_ok db resource e \<and> t_groups db = gs) (insert_acl_entry resource pos e)
     (\<lambda>_ db. acl_db_ok db \<and> t_groups db = gs)"
proof (rule tx_meetsI)
  fix db i db'
  assume pre: "acl_db_ok db \<and> scope_ok db resource e \<and> t_groups db = gs"
    and run: "insert_acl_entry resource pos e db = Inr (i, db')"
  note step = insert_acl_entry_Inr [OF run]
  show "acl_db_ok db' \<and> t_groups db' = gs"
    using pre step(2-5)
    by (auto simp: acl_db_ok_unfold step(1))
qed

lemma insert_block_meets:
  assumes "\<And>perm db. t_groups db = gs \<Longrightarrow> scope_ok db resource (template perm)"
  shows "tx_meets (\<lambda>db. acl_db_ok db \<and> t_groups db = gs) (insert_block resource pos template perms)
     (\<lambda>_ db. acl_db_ok db \<and> t_groups db = gs)"
proof (induction perms arbitrary: pos)
  case Nil
  then show ?case by (simp add: tx_meets_def tx_return_def)
next
  case (Cons perm perms)
  have "tx_meets (\<lambda>db. acl_db_ok db \<and> t_groups db = gs) (insert_acl_entry resource pos (template perm))
     (\<lambda>_ db. acl_db_ok db \<and> t_groups db = gs)"
    by (rule tx_meets_weaken [OF insert_acl_entry_meets]) (use assms in blast)
  then show ?case using Cons by (auto intro!: tx_meets_bind)
qed

lemma add_acl_entry_ok: "acl_db_ok db \<Longrightarrow> acl_db_ok (snd (add_acl_entry resource pos e db))"
proof -
  assume ok: "acl_db_ok db"
  have "tx_meets acl_db_ok (tx_bind (check_entry_scope resource e) (\<lambda>_. insert_acl_entry resource pos e)) (\<lambda>_. acl_db_ok)"
    using check_entry_scope_meets [of resource e] insert_acl_entry_meets [of resource e _ pos]
    unfolding tx_meets_def tx_bind_Inr by blast
  then show ?thesis using ok by (simp add: add_acl_entry_def transaction_meets)
qed

lemma load_locked_entries_Inr:
  assumes "load_locked_entries resource ptype uid gid db = Inr (found, db')"
  shows "db' = db"
    and "found = (if \<exists>r \<in> set (get_acl_entries db resource). is_principal_entry r ptype uid gid
                  then None else Some (get_acl_entries db resource))"
  using assms
  by (auto simp: load_locked_entries_def tx_bind_Inr tx_return_def tx_raise_def check_role_group_scope_def Let_def
      list_ex_iff split: if_splits option.splits)

lemma load_locked_entries_meets:
  "tx_meets acl_db_ok (load_locked_entries resource ptype uid gid)
     (\<lambda>_ db. acl_db_ok db \<and> (\<forall>perm. scope_ok db resource (share_ace ptype uid gid perm)))"
proof (rule tx_meetsI)
  fix db found db'
  assume ok: "acl_db_ok db" and run: "load_locked_entries resource ptype uid gid db = Inr (found, db')"
  have "db' = db" using load_locked_entries_Inr(1) [OF run] .
  moreover have "scope_ok db resource (share_ace ptype uid gid perm)" for perm
  proof (cases "ptype = PRINCIPAL_GROUP \<and> gid \<noteq> None")
    case True
    then obtain g where g: "gid = Some g" by blast
    from run True obtain a db1 where "check_role_group_scope resource g db = Inr (a, db1)" "db1 = db"
      by (auto simp: load_locked_entries_def tx_bind_Inr g check_role_group_scope_def tx_return_def tx_raise_def
          split: option.splits if_splits)
    with tx_meetsD [OF check_role_group_scope_meets ok] show ?thesis by (auto simp: share_ace_def g)
  qed (auto simp: scope_ok_def share_ace_def)
  ultimately show "acl_db_ok db' \<and> (\<forall>perm. scope_ok db' resource (share_ace ptype uid gid perm))" using ok by simp
qed

lemma add_principal_entries_ok:
  assumes "acl_db_ok db"
  shows "acl_db_ok (snd (add_principal_entries resource permissions ptype uid gid db))"
proof -
  let ?R = "\<lambda>db. acl_db_ok db \<and> (\<forall>perm. scope_ok db resource (share_ace ptype uid gid perm))"
  let ?f = "\<lambda>found. case found of None \<Rightarrow> tx_return False
           | Some entries \<Rightarrow>
               tx_bind (insert_block resource (next_position entries) (share_ace ptype uid gid) permissions)
                 (\<lambda>_. tx_return True)"
  have "tx_meets ?R (?f found) (\<lambda>_. acl_db_ok)" for found
  proof (rule tx_meetsI)
    fix db b db'
    assume pre: "?R db" and run: "?f found db = Inr (b, db')"
    have blk: "tx_meets (\<lambda>d. acl_db_ok d \<and> t_groups d = t_groups db)
        (insert_block resource pos (share_ace ptype uid gid) permissions)
        (\<lambda>_ d. acl_db_ok d \<and> t_groups d = t_groups db)" for pos
      using pre scope_ok_groups by (intro insert_block_meets) metis
    show "acl_db_ok db'"
    proof (cases found)
      case None
      then show ?thesis using run pre by (simp add: tx_return_def)
    next
      case (Some entries)
      then have "insert_block resource (next_position entries) (share_ace ptype uid gid) permissions db = Inr ((), db')"
        using run by (simp add: tx_bind_Inr tx_return_def)
      from tx_meetsD [OF blk _ this] pre show ?thesis by blast
    qed
  qed
  then have "tx_meets acl_db_ok (tx_bind (load_locked_entries resource ptype uid gid) ?f) (\<lambda>_. acl_db_ok)"
    by (rule tx_meets_bind [OF load_locked_entries_meets])
  then show ?thesis using assms by (simp add: add_principal_entries_def transaction_meets)
qed

lemma filtered_rows_ok:
  "acl_db_ok db \<Longrightarrow> acl_db_ok (db\<lparr>t_acl := filter P (t_acl db)\<rparr>)"
  by (auto simp: acl_db_ok_unfold distinct_map_filter)

lemma delete_resource_rows_meets:
  "tx_meets (\<lambda>db. acl_db_ok db \<and> t_groups db = gs) (delete_resource_rows resource)
     (\<lambda>_ db. acl_db_ok db \<and> t_groups db = gs)"
  by (auto simp: tx_meets_def delete_resource_rows_def filtered_rows_ok)

lemma delete_acl_entries_for_resource_ok:
  "acl_db_ok db \<Longrightarrow> acl_db_ok (snd (delete_acl_entries_for_resource resource db))"
  by (simp add: delete_acl_entries_for_resource_def transaction_def tx_bind_def delete_resource_rows_def
      tx_return_def filtered_rows_ok)

lemma tx_each_check_scopes:
  "tx_each (\<lambda>(pos, e). check_entry_scope resource e) entries db = Inr (a, db') \<Longrightarrow> acl_db_ok db \<Longrightarrow>
     db' = db \<and> (\<forall>(pos, e) \<in> set entries. scope_ok db resource e)"
proof (induction entries)
  case (Cons x entries)
  obtain pos e where x: "x = (pos, e)" by force
  have same: "check_entry_scope resource e db = Inr (b, db1) \<Longrightarrow> db1 = db" for b db1
    by (auto simp: check_entry_scope_def check_role_group_scope_def tx_return_def tx_raise_def
        split: if_splits option.splits)
  from Cons.prems obtain b where b: "check_entry_scope resource e db = Inr (b, db)"
      "tx_each (\<lambda>(pos, e). check_entry_scope resource e) entries db = Inr (a, db')"
    by (auto simp: x tx_bind_Inr dest: same)
  with tx_meetsD [OF check_entry_scope_meets Cons.prems(2) b(1)] Cons show ?case by (auto simp: x)
qed (simp add: tx_return_def)

lemma replace_acl_entries_ok:
  assumes ok: "acl_db_ok db"
  shows "acl_db_ok (snd (replace_acl_entries resource entries db))"
proof -
  let ?ins = "\<lambda>(pos, e). tx_bind (insert_acl_entry resource pos e) (\<lambda>_. tx_return ())"
  have "acl_db_ok db'" if run: "tx_bind (tx_each (\<lambda>(pos, e). check_entry_scope resource e) entries) (\<lambda>_.
         tx_bind (delete_resource_rows resource) (\<lambda>_. tx_each ?ins entries)) db = Inr (a, db')" for a db'
  proof -
    from run obtain db1 where db1: "delete_resource_rows resource db = Inr ((), db1)"
        "tx_each ?ins entries db1 = Inr (a, db')"
      and scope: "\<forall>(pos, e) \<in> set entries. scope_ok db resource e"
      using tx_each_check_scopes [OF _ ok] by (fastforce simp: tx_bind_Inr)
    let ?P = "\<lambda>d. acl_db_ok d \<and> t_groups d = t_groups db"
    have "tx_meets ?P (?ins x) (\<lambda>_. ?P)" if "x \<in> set entries" for x
    proof -
      obtain pos e where x: "x = (pos, e)" by force
      with that scope have "scope_ok db resource e" by auto
      then have "scope_ok d resource e" if "t_groups d = t_groups db" for d
        using scope_ok_groups [OF that] by simp
      then have "tx_meets ?P (insert_acl_entry resource pos e) (\<lambda>_. ?P)"
        by (intro tx_meets_weaken [OF insert_acl_entry_meets]) blast
      then show ?thesis
        unfolding x prod.case by (rule tx_meets_bind) (rule tx_meets_return)
    qed
    then have all: "tx_meets ?P (tx_each ?ins entries) (\<lambda>_. ?P)" by (rule tx_meets_each)
    have "?P db1" using tx_meetsD [OF delete_resource_rows_meets _ db1(1)] ok by blast
    from tx_meetsD [OF all this db1(2)] show ?thesis by blast
  qed
  then show ?thesis using ok
    by (auto simp: replace_acl_entries_def transaction_def split: sum.splits)
qed

lemma insert_group_meets: "tx_meets acl_db_ok (insert_group g) (\<lambda>_. acl_db_ok)"
proof (rule tx_meetsI)
  fix db a db'
  assume ok: "acl_db_ok db" and run: "insert_group g db = Inr (a, db')"
  then have new: "g_id g \<notin> g_id ` set (t_groups db)" "g_name g \<notin> g_name ` set (t_groups db)"
    and db': "db' = db\<lparr>t_groups := t_groups db @ [g]\<rparr>"
    by (auto simp: insert_group_def split: if_splits)
  have more: "known_group db i \<Longrightarrow> known_group db' i" for i by (auto simp: db' known_group_def)
  have "row_ok db' r" if "r \<in> set (t_acl db)" for r
  proof -
    have r: "row_ok db r" using ok that by (simp add: acl_db_ok_def list_all_iff)
    then have "ace_group_id (a_ace r) \<noteq> Some (g_id g)" using new(1) by (auto simp: row_ok_def known_group_def)
    with r show ?thesis
      by (auto simp: row_ok_def db' scope_ok_def known_group_def option.pred_set intro: more)
  qed
  with ok new show "acl_db_ok db'"
    by (auto simp: acl_db_ok_unfold db' known_group_def)
qed

lemma create_group_ok: "acl_db_ok db \<Longrightarrow> acl_db_ok (snd (create_group gid name description source db))"
proof -
  assume ok: "acl_db_ok db"
  have "tx_meets acl_db_ok (tx_bind (insert_group g) (\<lambda>_. tx_return g)) (\<lambda>_. acl_db_ok)" for g
    by (rule tx_meets_bind [OF insert_group_meets], rule tx_meets_return)
  from transaction_meets [OF this ok] ok show ?thesis by (simp add: create_group_def Let_def)
qed

lemma drop_group_ok:
  assumes ok: "acl_db_ok db"
  shows "acl_db_ok (drop_group gid db)"
proof -
  have kept: "known_group (drop_group gid db) i \<longleftrightarrow> known_group db i \<and> i \<noteq> gid" for i
    by (auto simp: drop_group_def known_group_def)
  have user: "known_user (drop_group gid db) = known_user db" by (simp add: drop_group_def)
  have "row_ok (drop_group gid db) r" if "r \<in> set (t_acl db)" "ace_group_id (a_ace r) \<noteq> Some gid" for r
  proof -
    have "scope_ok db (a_resource r) (a_ace r)" using ok that by (simp add: acl_db_ok_def list_all_iff row_ok_def)
    then have "scope_ok (drop_group gid db) (a_resource r) (a_ace r)" by (auto simp: scope_ok_def drop_group_def)
    then show ?thesis using ok that by (auto simp: acl_db_ok_def list_all_iff row_ok_def user kept option.pred_set)
  qed
  moreover have "member_ok (drop_group gid db) m" if "m \<in> set (t_members db)" "m_group m \<noteq> gid" for m
    using ok that by (auto simp: acl_db_ok_def list_all_iff member_ok_def user kept)
  moreover have "workspace_ok (drop_group gid db) w" if "w \<in> set (t_workspaces db)" for w
    using ok that by (auto simp: acl_db_ok_def list_all_iff workspace_ok_def user)
  ultimately show ?thesis using ok
    by (auto simp: acl_db_ok_def keys_ok_def list_all_iff drop_group_def distinct_map_filter)
qed

lemma delete_group_ok: "acl_db_ok db \<Longrightarrow> acl_db_ok (snd (delete_group gid db))"
  by (simp add: delete_group_def transaction_def drop_group_ok)

lemma update_group_ok:
  assumes ok: "acl_db_ok db"
  shows "acl_db_ok (snd (update_group gid name description db))"
proof -
  let ?f = "\<lambda>g. if g_id g = gid
      then g\<lparr>g_name := (case name of Some n \<Rightarrow> n | None \<Rightarrow> g_name g),
             g_description := (case description of Some d \<Rightarrow> Some d | None \<Rightarrow> g_description g)\<rparr> else g"
  let ?db = "db\<lparr>t_groups := map ?f (t_groups db)\<rparr>"
  have ids: "map g_id (map ?f gs) = map g_id gs" for gs by (induction gs) auto
  have known: "known_group ?db = known_group db" by (rule known_group_ids) simp
  have "acl_db_ok ?db"
    if role: "name = None \<or> map_option g_source (get_group_by_id db gid) \<noteq> Some GROUP_SOURCE_WORKSPACE_ROLE"
      and uniq: "\<forall>n. name = Some n \<longrightarrow> (\<forall>g \<in> set (t_groups db). g_id g \<noteq> gid \<longrightarrow> g_name g \<noteq> n)"
  proof -
    have d: "distinct (map g_id (t_groups db))" "distinct (map g_name (t_groups db))"
      using ok by (simp_all add: acl_db_ok_def keys_ok_def)
    have keep: "g_name (?f g) = g_name g"
      if "g \<in> set (t_groups db)" "g_source (?f g) = GROUP_SOURCE_WORKSPACE_ROLE" for g
      using role that find_by_key [OF d(1) that(1)] by (auto simp: get_group_by_id_def split: option.splits if_splits)
    have "scope_ok ?db res e" if "scope_ok db res e" for res e
      using that keep by (fastforce simp: scope_ok_def)
    moreover have "distinct (map g_name (map ?f (t_groups db)))"
    proof -
      have "x = y" if "x \<in> set (t_groups db)" "y \<in> set (t_groups db)" "g_name (?f x) = g_name (?f y)" for x y
        using that d uniq by (cases name) (auto simp: distinct_map inj_on_def split: if_splits)
      then show ?thesis using d by (auto simp: distinct_map inj_on_def)
    qed
    ultimately show ?thesis using ok ids [of "t_groups db"]
      by (simp add: acl_db_ok_unfold known del: map_map)
  qed
  moreover have "db' = db \<or> db' = ?db \<and> (\<forall>n. name = Some n \<longrightarrow> (\<forall>g \<in> set (t_groups db). g_id g \<noteq> gid \<longrightarrow> g_name g \<noteq> n))"
    if "set_group_fields gid name description db = Inr (b, db')" for b db'
  proof -
    have "(case name of None \<Rightarrow> False | Some n \<Rightarrow> P n) \<longleftrightarrow> (\<exists>n. name = Some n \<and> P n)" for P by (cases name) auto
    with that show ?thesis by (auto simp: set_group_fields_def list_ex_iff split: if_splits)
  qed
  ultimately have "acl_db_ok (snd (transaction (set_group_fields gid name description) db))"
    if "name = None \<or> map_option g_source (get_group_by_id db gid) \<noteq> Some GROUP_SOURCE_WORKSPACE_ROLE"
    using that ok unfolding transaction_def
    by (cases "set_group_fields gid name description db") (auto simp del: map_option_eq_Some)
  then show ?thesis using ok by (auto simp: update_group_def)
qed

lemma insert_membership_meets:
  "tx_meets (\<lambda>db. acl_db_ok db \<and> t_groups db = gs) (insert_membership uid gid source) (\<lambda>_ db. acl_db_ok db \<and> t_groups db = gs)"
  by (rule tx_meetsI) (auto simp: insert_membership_def acl_db_ok_unfold split: if_splits)

lemma add_user_to_group_ok: "acl_db_ok db \<Longrightarrow> acl_db_ok (snd (add_user_to_group uid gid source db))"
  unfolding add_user_to_group_def
  using transaction_meets [OF insert_membership_meets, of db "t_groups db" uid gid source] by auto

lemma delete_membership_ok: "acl_db_ok db \<Longrightarrow> acl_db_ok (delete_membership uid gid db)"
  by (auto simp: delete_membership_def acl_db_ok_unfold distinct_map_filter)

lemma remove_user_from_group_ok: "acl_db_ok db \<Longrightarrow> acl_db_ok (snd (remove_user_from_group uid gid db))"
  by (simp add: remove_user_from_group_def transaction_def delete_membership_ok)

lemma delete_user_ok:
  assumes ok: "acl_db_ok db"
  shows "acl_db_ok (snd (delete_user uid db))"
proof -
  let ?db = "snd (delete_user uid db)"
  have "known_user ?db i \<longleftrightarrow> known_user db i \<and> i \<noteq> uid" if "uid \<noteq> SYSTEM_AGENT_ID" for i
    using that by (auto simp: delete_user_def transaction_def known_user_def)
  with ok show ?thesis
    by (cases "uid = SYSTEM_AGENT_ID")
      (auto simp: acl_db_ok_unfold option.pred_set delete_user_def transaction_def distinct_map_filter known_user_def)
qed

lemma insert_workspace_row_meets: "tx_meets acl_db_ok (insert_workspace_row wid uid name) (\<lambda>_. acl_db_ok)"
  by (rule tx_meetsI) (auto simp: insert_workspace_row_def acl_db_ok_unfold split: if_splits)

lemma role_group_resource_name:
  "CHR ''-'' \<notin> set suffix \<Longrightarrow> role_group_resource (role_group_name suffix wid) = Some (workspace_path wid)"
  by (induction suffix) (auto simp: role_group_resource_def role_group_name_def workspace_path_def)

lemma seed_role_groups_meets:
  "\<forall>(suffix, perms) \<in> set roles. CHR ''-'' \<notin> set suffix \<Longrightarrow>
     tx_meets acl_db_ok (seed_role_groups wid uid pos roles gids) (\<lambda>_. acl_db_ok)"
proof (induction wid uid pos roles gids rule: seed_role_groups.induct)
  case (1 wid uid pos suffix perms roles gid gids)
  let ?g = "\<lparr>g_id = gid, g_name = role_group_name suffix wid,
      g_description = Some (''Workspace role group: '' @ suffix), g_source = GROUP_SOURCE_WORKSPACE_ROLE\<rparr>"
  show ?case
  proof (rule tx_meetsI)
    fix db a db'
    assume ok: "acl_db_ok db" and run: "seed_role_groups wid uid pos ((suffix, perms) # roles) (gid # gids) db = Inr (a, db')"
    from run obtain db1 b db2 c db3 where
      s1: "insert_group ?g db = Inr ((), db1)" and
      s2: "insert_block (workspace_path wid) pos (share_ace PRINCIPAL_GROUP None (Some gid)) perms db1 = Inr (b, db2)" and
      s3: "(if suffix = OWNER_ROLE then insert_membership uid gid ''manual'' else tx_return ()) db2 = Inr (c, db3)" and
      s4: "seed_role_groups wid uid (pos + int (length perms)) roles gids db3 = Inr (a, db')"
      unfolding seed_role_groups.simps tx_bind_Inr by auto
    have ok1: "acl_db_ok db1" using tx_meetsD [OF insert_group_meets ok s1] .
    then have inj: "inj_on g_id (set (t_groups db1))" by (simp add: acl_db_ok_def keys_ok_def distinct_map)
    have g: "?g \<in> set (t_groups db1)" using s1 by (auto simp: insert_group_def split: if_splits)
    have only: "g_name g = role_group_name suffix wid" if "g \<in> set (t_groups db1)" "g_id g = gid" for g
      using inj_onD [OF inj _ that(1) g] that(2) by simp
    have "role_group_resource (role_group_name suffix wid) = Some (workspace_path wid)"
      using 1 by (intro role_group_resource_name) auto
    with only have scope: "scope_ok d (workspace_path wid) (share_ace PRINCIPAL_GROUP None (Some gid) perm)"
      if "t_groups d = t_groups db1" for d perm
      using that by (auto simp: scope_ok_def share_ace_def)
    have blk: "tx_meets (\<lambda>db. acl_db_ok db \<and> t_groups db = t_groups db1)
        (insert_block (workspace_path wid) pos (share_ace PRINCIPAL_GROUP None (Some gid)) perms)
        (\<lambda>_ db. acl_db_ok db \<and> t_groups db = t_groups db1)" by (rule insert_block_meets) (rule scope)
    from tx_meetsD [OF blk _ s2] ok1 have "acl_db_ok db2" by blast
    have "acl_db_ok db3"
    proof (cases "suffix = OWNER_ROLE")
      case True
      with s3 have "insert_membership uid gid ''manual'' db2 = Inr (c, db3)" by simp
      from tx_meetsD [OF insert_membership_meets _ this] \<open>acl_db_ok db2\<close> show ?thesis by blast
    qed (use s3 \<open>acl_db_ok db2\<close> in \<open>simp add: tx_return_def\<close>)
    have "tx_meets acl_db_ok (seed_role_groups wid uid (pos + int (length perms)) roles gids) (\<lambda>_. acl_db_ok)"
      using 1 by simp
    from tx_meetsD [OF this \<open>acl_db_ok db3\<close> s4] show "acl_db_ok db'" .
  qed
qed (simp_all add: tx_meets_def tx_return_def)

lemma create_workspace_with_acl_ok: "acl_db_ok db \<Longrightarrow> acl_db_ok (snd (create_workspace_with_acl uid name wid gids db))"
proof -
  assume ok: "acl_db_ok db"
  have "scope_ok d res (share_ace PRINCIPAL_USER (Some uid) None ''*'')" for d res
    by (simp add: scope_ok_def share_ace_def)
  then have "tx_meets acl_db_ok (insert_acl_entry (workspace_path wid) 0 (share_ace PRINCIPAL_USER (Some uid) None ''*''))
      (\<lambda>_. acl_db_ok)"
    using insert_acl_entry_meets unfolding tx_meets_def by blast
  moreover have "tx_meets acl_db_ok (seed_role_groups wid uid 1 ROLE_GROUP_PERMISSIONS gids) (\<lambda>_. acl_db_ok)"
    by (rule seed_role_groups_meets) (simp add: ROLE_GROUP_PERMISSIONS_def)
  ultimately have "tx_meets acl_db_ok (seed_workspace_acl wid uid gids) (\<lambda>_. acl_db_ok)"
    unfolding seed_workspace_acl_def by (rule tx_meets_bind)
  then have "tx_meets acl_db_ok (tx_bind (insert_workspace_row wid uid name) (\<lambda>_.
         tx_bind (seed_workspace_acl wid uid gids) (\<lambda>_. tx_return wid))) (\<lambda>_. acl_db_ok)"
    by (intro tx_meets_bind [OF insert_workspace_row_meets] tx_meets_bind [where R = "\<lambda>_. acl_db_ok"] tx_meets_return)
  then show ?thesis using ok by (simp add: create_workspace_with_acl_def transaction_meets)
qed

lemma fold_drop_group_ok: "acl_db_ok db \<Longrightarrow> acl_db_ok (fold (\<lambda>g. drop_group (g_id g)) gs db)"
  by (induction gs arbitrary: db) (simp_all add: drop_group_ok)

lemma delete_workspace_ok:
  assumes "acl_db_ok db"
  shows "acl_db_ok (snd (delete_workspace wid uid db))"
proof -
  have "acl_db_ok (db\<lparr>t_workspaces := filter P (t_workspaces db), t_acl := filter Q (t_acl db)\<rparr>)" for P Q
    using assms by (auto simp: acl_db_ok_unfold distinct_map_filter)
  then show ?thesis using assms by (simp add: delete_workspace_def transaction_def Let_def fold_drop_group_ok)
qed

lemma swap_owners_group_meets: "tx_meets acl_db_ok (swap_owners_group wid old new) (\<lambda>_. acl_db_ok)"
proof (rule tx_meetsI)
  fix db a db'
  assume ok: "acl_db_ok db" and run: "swap_owners_group wid old new db = Inr (a, db')"
  have "acl_db_ok db'" if "insert_membership new gid ''manual'' (delete_membership old gid db) = Inr (a, db')" for gid
    using tx_meetsD [OF insert_membership_meets [of "t_groups (delete_membership old gid db)"] _ that]
      delete_membership_ok [OF ok] by blast
  with run ok show "acl_db_ok db'" by (auto simp: swap_owners_group_def tx_return_def split: option.splits)
qed

lemma transfer_workspace_ok:
  assumes ok: "acl_db_ok db"
  shows "acl_db_ok (snd (transfer_workspace wid new db))"
proof -
  have moved: "acl_db_ok db1"
    if "new \<noteq> SYSTEM_AGENT_ID" "find (\<lambda>w. w_id w = wid) (t_workspaces db) = Some w"
      "\<not> list_ex (\<lambda>v. w_owner v = new \<and> w_name v = w_name w \<and> w_id v \<noteq> wid) (t_workspaces db)"
      "move_owner wid new db = Inr (a, db1)" for w a db1
  proof -
    let ?w = "\<lambda>w. if w_id w = wid then w\<lparr>w_owner := new\<rparr> else w"
    let ?r = "\<lambda>r. if a_resource r = workspace_path wid \<and> a_position r = 0 \<and> principal_type (a_ace r) = PRINCIPAL_USER
      then r\<lparr>a_ace := (a_ace r)\<lparr>ace_user_id := Some new\<rparr>\<rparr> else r"
    from that(4) have known: "known_user db new"
      and db1: "db1 = db\<lparr>t_workspaces := map ?w (t_workspaces db), t_acl := map ?r (t_acl db)\<rparr>"
      by (auto simp: move_owner_def split: if_splits)
    have wid: "map w_id (map ?w ws) = map w_id ws" for ws by (induction ws) auto
    have pos: "map (\<lambda>r. (a_resource r, a_position r)) (map ?r rs) = map (\<lambda>r. (a_resource r, a_position r)) rs" for rs
      by (induction rs) auto
    have w: "w \<in> set (t_workspaces db)" "w_id w = wid" using that(2) by (auto simp: find_Some_iff)
    have "distinct (map (\<lambda>w. (w_owner w, w_name w)) (map ?w (t_workspaces db)))"
    proof -
      have d: "distinct (map w_id (t_workspaces db))" "distinct (map (\<lambda>w. (w_owner w, w_name w)) (t_workspaces db))"
        using ok by (simp_all add: acl_db_ok_def keys_ok_def)
      have "x = y" if "x \<in> set (t_workspaces db)" "y \<in> set (t_workspaces db)"
          "(w_owner (?w x), w_name (?w x)) = (w_owner (?w y), w_name (?w y))" for x y
        using that w d \<open>\<not> list_ex _ _\<close> by (auto simp: distinct_map inj_on_def list_ex_iff split: if_splits)
      then show ?thesis using d by (auto simp: distinct_map inj_on_def)
    qed
    moreover have "list_all (row_ok db) (map ?r (t_acl db))"
      using ok known that(1) by (auto simp: acl_db_ok_def list_all_iff row_ok_def reject_agent_principal_def scope_ok_def)
    moreover have "list_all (workspace_ok db) (map ?w (t_workspaces db))"
      using ok known that(1) by (auto simp: acl_db_ok_def list_all_iff workspace_ok_def)
    ultimately show ?thesis using ok wid [of "t_workspaces db"] pos [of "t_acl db"]
      unfolding db1 acl_db_ok_def keys_ok_def by (simp del: map_map list.pred_map)
  qed
  have "acl_db_ok db'" if "tx_bind (move_owner wid new) (\<lambda>_. tx_bind (swap_owners_group wid old new) (\<lambda>_. tx_return True)) db
      = Inr (a, db')" "\<And>b db1. move_owner wid new db = Inr (b, db1) \<Longrightarrow> acl_db_ok db1" for old a db'
    using that tx_meetsD [OF swap_owners_group_meets] by (fastforce simp: tx_bind_Inr tx_return_def)
  then show ?thesis using ok moved
    by (auto simp: transfer_workspace_def transaction_def tx_return_def tx_raise_def split: option.splits sum.splits)
qed


section \<open>Runs\<close>

text \<open>
  Every writer is one step; a step may raise, which leaves the tables alone. A new account, which
  \<open>model/users.py\<close> inserts elsewhere, is a step of the environment.
\<close>

inductive acl_step :: "share_db \<Rightarrow> share_db \<Rightarrow> bool" where
  account: "u_id u \<notin> u_id ` set (t_users db) \<Longrightarrow> acl_step db (db\<lparr>t_users := t_users db @ [u]\<rparr>)"
| add_entry: "acl_step db (snd (add_acl_entry resource pos e db))"
| add_block: "acl_step db (snd (add_principal_entries resource permissions ptype uid gid db))"
| replace: "acl_step db (snd (replace_acl_entries resource entries db))"
| delete_entries: "acl_step db (snd (delete_acl_entries_for_resource resource db))"
| new_group: "acl_step db (snd (create_group gid name description source db))"
| delete_group: "acl_step db (snd (delete_group gid db))"
| update_group: "acl_step db (snd (update_group gid name' description db))"
| join: "acl_step db (snd (add_user_to_group uid gid source db))"
| leave: "acl_step db (snd (remove_user_from_group uid gid db))"
| delete_user: "acl_step db (snd (delete_user uid db))"
| create_workspace: "acl_step db (snd (create_workspace_with_acl uid name wid gids db))"
| delete_workspace: "acl_step db (snd (delete_workspace wid uid db))"
| transfer: "acl_step db (snd (transfer_workspace wid uid db))"

definition empty_db :: share_db where
  "empty_db = \<lparr>t_users = [], t_groups = [], t_members = [], t_workspaces = [], t_acl = [], t_acl_seq = 0, emitted = []\<rparr>"

lemma new_account_ok:
  "u_id u \<notin> u_id ` set (t_users db) \<Longrightarrow> acl_db_ok db \<Longrightarrow> acl_db_ok (db\<lparr>t_users := t_users db @ [u]\<rparr>)"
proof -
  let ?db = "db\<lparr>t_users := t_users db @ [u]\<rparr>"
  assume new: "u_id u \<notin> u_id ` set (t_users db)" and ok: "acl_db_ok db"
  have "known_user db i \<Longrightarrow> known_user ?db i" for i by (auto simp: known_user_def)
  then show ?thesis using ok new by (auto simp: acl_db_ok_unfold option.pred_set)
qed

lemmas writers_ok =
  new_account_ok add_acl_entry_ok add_principal_entries_ok replace_acl_entries_ok delete_acl_entries_for_resource_ok
  create_group_ok delete_group_ok update_group_ok add_user_to_group_ok remove_user_from_group_ok delete_user_ok
  create_workspace_with_acl_ok delete_workspace_ok transfer_workspace_ok

interpretation acl_runs: step_invariant acl_step "\<lambda>db. db = empty_db" acl_db_ok
proof unfold_locales
  show "acl_db_ok db" if "db = empty_db" for db
    using that by (simp add: empty_db_def acl_db_ok_def keys_ok_def)
  show "acl_db_ok db'" if "acl_step db db'" "acl_db_ok db" for db db'
    using that by (cases rule: acl_step.cases) (simp_all add: writers_ok)
qed

lemma insort_key_map: "\<forall>x. k (f x) = j x \<Longrightarrow> insort_key k (f x) (map f xs) = map f (insort_key j x xs)"
  by (induction xs) auto

lemma sort_key_map: "\<forall>x. k (f x) = j x \<Longrightarrow> sort_key k (map f xs) = map f (sort_key j xs)"
  by (induction xs) (simp_all add: insort_key_map)

lemma get_acl_entries_set: "set (get_acl_entries db path) = {r \<in> set (t_acl db). a_resource r = path}"
  by (simp add: get_acl_entries_def)

text \<open>
  (C31) The agent holds nothing and a role group stays at home. Whatever sequence of writes has run,
  raising or not: the system agent is in no group, and an entry applies to it only when it applies to
  every signed-in user; an entry for a group that was seeded as a role group is on that workspace's own
  resource, the one its name carries; and no two entries of a resource have the same position, so the
  order the checks walk is determined.
\<close>

theorem agent_and_role_groups_confined:
  assumes "acl_step\<^sup>*\<^sup>* empty_db db"
  shows "get_user_group_ids db SYSTEM_AGENT_ID = [] \<and>
    (\<forall>path. \<forall>e \<in> set (acl_table_of db path).
       ace_matches_principals e (get_principals (get_user_group_ids db) SYSTEM_AGENT_ID) \<longrightarrow>
       principal_type e = PRINCIPAL_SYSTEM) \<and>
    (\<forall>path. \<forall>e \<in> set (acl_table_of db path). \<forall>g \<in> set (t_groups db).
       principal_type e = PRINCIPAL_GROUP \<and> ace_group_id e = Some (g_id g) \<and>
       g_source g = GROUP_SOURCE_WORKSPACE_ROLE \<longrightarrow> role_group_resource (g_name g) = Some path) \<and>
    (\<forall>path. distinct (map a_position (get_acl_entries db path)))"
proof -
  have ok: "acl_db_ok db" using acl_runs.reachable_inv [OF assms] by simp
  have row: "\<exists>r. r \<in> set (t_acl db) \<and> a_resource r = path \<and> a_ace r = e \<and> row_ok db r"
    if "e \<in> set (acl_table_of db path)" for e path
    using that ok by (auto simp: acl_table_of_def get_acl_entries_set acl_db_ok_def list_all_iff)
  have none: "get_user_group_ids db SYSTEM_AGENT_ID = []"
    using ok by (auto simp: get_user_group_ids_def acl_db_ok_def list_all_iff member_ok_def filter_empty_conv)
  have "principal_type e = PRINCIPAL_SYSTEM"
    if "e \<in> set (acl_table_of db path)"
      "ace_matches_principals e (get_principals (get_user_group_ids db) SYSTEM_AGENT_ID)" for e path
    using row [OF that(1)] that(2) none
    by (auto simp: row_ok_def reject_agent_principal_def ace_matches_principals_def get_principals_def Let_def
        split: if_splits option.splits)
  moreover have "role_group_resource (g_name g) = Some path"
    if "e \<in> set (acl_table_of db path)" "g \<in> set (t_groups db)" "principal_type e = PRINCIPAL_GROUP"
      "ace_group_id e = Some (g_id g)" "g_source g = GROUP_SOURCE_WORKSPACE_ROLE" for e path g
    using row [OF that(1)] that(2-) by (auto simp: row_ok_def scope_ok_def)
  moreover have "distinct (map a_position (get_acl_entries db path))" for path
    using ok by (auto simp: acl_db_ok_def keys_ok_def distinct_map get_acl_entries_def inj_on_def)
  ultimately show ?thesis using none by blast
qed

definition seeded_db :: share_db where
  "seeded_db =
     snd (add_acl_entry ''/workspaces/w'' 1 (share_ace PRINCIPAL_GROUP None (Some ''g1'') ''view'')
       (snd (add_acl_entry ''/workspaces/w'' 0 (share_ace PRINCIPAL_USER (Some ''u1'') None ''*'')
         (snd (create_group ''g1'' ''coders-w'' None GROUP_SOURCE_WORKSPACE_ROLE
           (empty_db\<lparr>t_users := [\<lparr>u_id = ''u1'', u_email = ''a@x'', u_handle = ''a''\<rparr>,
                                \<lparr>u_id = ''u2'', u_email = ''b@x'', u_handle = ''b''\<rparr>]\<rparr>))))))"

lemma seeded_db_reachable: "acl_step\<^sup>*\<^sup>* empty_db seeded_db"
proof -
  let ?u1 = "\<lparr>u_id = ''u1'', u_email = ''a@x'', u_handle = ''a''\<rparr>"
  let ?u2 = "\<lparr>u_id = ''u2'', u_email = ''b@x'', u_handle = ''b''\<rparr>"
  have "acl_step empty_db (empty_db\<lparr>t_users := [?u1]\<rparr>)"
    using acl_step.account [of ?u1 empty_db] by (simp add: empty_db_def)
  moreover have "acl_step (empty_db\<lparr>t_users := [?u1]\<rparr>) (empty_db\<lparr>t_users := [?u1, ?u2]\<rparr>)"
    using acl_step.account [of ?u2 "empty_db\<lparr>t_users := [?u1]\<rparr>"] by (simp add: empty_db_def)
  ultimately have "acl_step\<^sup>*\<^sup>* empty_db (empty_db\<lparr>t_users := [?u1, ?u2]\<rparr>)" by simp
  then show ?thesis unfolding seeded_db_def
    by (meson acl_step.add_entry acl_step.new_group rtranclp.rtrancl_into_rtrancl)
qed

lemmas store_eval =
  add_acl_entry_def create_group_def insert_group_def check_entry_scope_def check_role_group_scope_def
  role_group_resource_def insert_acl_entry_def known_user_def known_group_def transaction_def tx_bind_def tx_return_def
  tx_raise_def SYSTEM_AGENT_ID_def GROUP_SOURCE_MANUAL_def GROUP_SOURCE_WORKSPACE_ROLE_def share_ace_def Let_def

lemma seeded_db_tables:
  "seeded_db = \<lparr>t_users = [\<lparr>u_id = ''u1'', u_email = ''a@x'', u_handle = ''a''\<rparr>, \<lparr>u_id = ''u2'', u_email = ''b@x'', u_handle = ''b''\<rparr>],
     t_groups = [\<lparr>g_id = ''g1'', g_name = ''coders-w'', g_description = None, g_source = GROUP_SOURCE_WORKSPACE_ROLE\<rparr>],
     t_members = [], t_workspaces = [],
     t_acl = [\<lparr>a_id = 1, a_resource = ''/workspaces/w'', a_position = 0, a_ace = share_ace PRINCIPAL_USER (Some ''u1'') None ''*''\<rparr>,
              \<lparr>a_id = 2, a_resource = ''/workspaces/w'', a_position = 1, a_ace = share_ace PRINCIPAL_GROUP None (Some ''g1'') ''view''\<rparr>],
     t_acl_seq = 2, emitted = []\<rparr>"
  by (simp add: seeded_db_def empty_db_def store_eval)

theorem agent_and_role_groups_confined_witness:
  "acl_step\<^sup>*\<^sup>* empty_db seeded_db \<and> length (t_acl seeded_db) = 2 \<and>
   get_user_group_ids seeded_db SYSTEM_AGENT_ID = [] \<and>
   fst (add_acl_entry ''/workspaces/v'' 0 (share_ace PRINCIPAL_GROUP None (Some ''g1'') ''view'') seeded_db) = Inl Role_Scope"
proof -
  have "fst (add_acl_entry ''/workspaces/v'' 0 (share_ace PRINCIPAL_GROUP None (Some ''g1'') ''view'') seeded_db) = Inl Role_Scope"
    by (simp add: seeded_db_tables store_eval)
  then show ?thesis using agent_and_role_groups_confined [OF seeded_db_reachable] seeded_db_reachable
    by (simp add: seeded_db_tables)
qed

end
