(* ===== verification/Acl_Defaults.thy ===== *)
theory Acl_Defaults
  imports Acl_Store
begin

text \<open>
  \<open>seed_default_acls\<close> of \<open>lifecycle.py\<close>: the entries a fresh server starts with. The calls run one after
  the other, each in its own transaction, and the first that raises ends the seeding.
\<close>

definition system_ace :: "int \<Rightarrow> string \<Rightarrow> int \<Rightarrow> ace" where
  "system_ace act perm who =
     \<lparr>action = act, principal_type = PRINCIPAL_SYSTEM, ace_user_id = None, ace_group_id = None,
      system_principal = Some who, permission = perm\<rparr>"

definition group_ace :: "string \<Rightarrow> string \<Rightarrow> ace" where
  "group_ace perm gid = share_ace PRINCIPAL_GROUP None (Some gid) perm"

definition default_acls :: "string \<Rightarrow> string \<Rightarrow> (string \<times> int \<times> ace) list" where
  "default_acls admin_group_id members_group_id =
     [(''/'', 0, system_ace ACTION_ALLOW ''view'' SYSTEM_AUTHENTICATED),
      (''/'', 1, system_ace ACTION_DENY ''*'' SYSTEM_EVERYONE),
      (''/workspaces'', 0, group_ace ''create-workspace'' admin_group_id),
      (''/workspaces'', 1, group_ace ''create-workspace'' members_group_id),
      (''/users'', 0, group_ace ''manage-users'' admin_group_id),
      (''/users'', 1, system_ace ACTION_ALLOW ''search-users'' SYSTEM_AUTHENTICATED),
      (''/users'', 2, system_ace ACTION_DENY ''*'' SYSTEM_EVERYONE)] @
     concat (map (\<lambda>(resource, perm).
         [(resource, 0, group_ace perm admin_group_id), (resource, 1, system_ace ACTION_DENY ''*'' SYSTEM_EVERYONE)])
       [(''/groups'', ''manage-groups''), (''/invitations'', ''manage-invitations''),
        (''/server'', ''manage-server-schedule''), (''/events'', ''manage-events''), (''/acl'', ''manage-acls'')]) @
     map (\<lambda>perm. (''/volumes'', if perm = ''view-volumes'' then 0 else 1, group_ace perm admin_group_id))
       [''view-volumes'', ''manage-volumes''] @
     [(''/images'', 0, system_ace ACTION_ALLOW ''view-images'' SYSTEM_AUTHENTICATED)]"

fun add_entries :: "(string \<times> int \<times> ace) list \<Rightarrow> share_db \<Rightarrow> unit outcome" where
  "add_entries [] db = (Inr (), db)"
| "add_entries ((resource, pos, e) # entries) db =
     (case add_acl_entry resource pos e db of
        (Inl err, db') \<Rightarrow> (Inl err, db')
      | (Inr _, db') \<Rightarrow> add_entries entries db')"

definition seed_default_acls :: "string \<Rightarrow> string \<Rightarrow> share_db \<Rightarrow> unit outcome" where
  "seed_default_acls admin_group_id members_group_id db =
     (if t_acl db \<noteq> [] then (Inr (), db)
      else add_entries (default_acls admin_group_id members_group_id) db)"


section \<open>The posture of a fresh server\<close>

definition entry_fits :: "share_db \<Rightarrow> string \<Rightarrow> ace \<Rightarrow> bool" where
  "entry_fits db resource e \<longleftrightarrow>
     ace_user_id e = None \<and> pred_option (\<lambda>i. \<exists>g. get_group_by_id db i = Some g \<and> g_source g = GROUP_SOURCE_MANUAL) (ace_group_id e)"

lemma add_acl_entry_passes:
  assumes "entry_fits db resource e" "(resource, pos) \<notin> (\<lambda>r. (a_resource r, a_position r)) ` set (t_acl db)"
  shows "add_acl_entry resource pos e db =
    (Inr (Suc (t_acl_seq db)),
     db\<lparr>t_acl := t_acl db @ [\<lparr>a_id = Suc (t_acl_seq db), a_resource = resource, a_position = pos, a_ace = e\<rparr>],
        t_acl_seq := Suc (t_acl_seq db)\<rparr>)"
proof -
  have known: "pred_option (known_group db) (ace_group_id e)"
    using assms(1) by (auto simp: entry_fits_def option.pred_set get_group_by_id_def find_Some_iff known_group_def)
  have "check_entry_scope resource e db = Inr ((), db)"
    using assms(1)
    by (auto simp: check_entry_scope_def check_role_group_scope_def entry_fits_def get_group_by_id_def tx_return_def
        GROUP_SOURCE_MANUAL_def GROUP_SOURCE_WORKSPACE_ROLE_def split: option.splits)
  then show ?thesis using assms known
    by (simp add: add_acl_entry_def transaction_def tx_bind_def insert_acl_entry_def entry_fits_def Let_def)
qed

lemma add_entries_passes:
  assumes "\<forall>(resource, pos, e) \<in> set entries. entry_fits db resource e"
    and "distinct (map (\<lambda>r. (a_resource r, a_position r)) (t_acl db) @ map (\<lambda>(resource, pos, e). (resource, pos)) entries)"
  shows "\<exists>rows n. add_entries entries db = (Inr (), db\<lparr>t_acl := t_acl db @ rows, t_acl_seq := n\<rparr>) \<and>
    map (\<lambda>r. (a_resource r, a_position r, a_ace r)) rows = entries"
  using assms
proof (induction entries arbitrary: db)
  case Nil
  show ?case by (intro exI [of _ "[]"] exI [of _ "t_acl_seq db"]) simp
next
  case (Cons x entries)
  obtain resource pos e where x: "x = (resource, pos, e)" by (cases x)
  let ?row = "\<lparr>a_id = Suc (t_acl_seq db), a_resource = resource, a_position = pos, a_ace = e\<rparr>"
  let ?db = "db\<lparr>t_acl := t_acl db @ [?row], t_acl_seq := Suc (t_acl_seq db)\<rparr>"
  have step: "add_acl_entry resource pos e db = (Inr (Suc (t_acl_seq db)), ?db)"
    by (rule add_acl_entry_passes) (use Cons.prems in \<open>auto simp: x\<close>)
  have "entry_fits ?db = entry_fits db" by (simp add: entry_fits_def fun_eq_iff get_group_by_id_def)
  then obtain rows n where "add_entries entries ?db = (Inr (), ?db\<lparr>t_acl := t_acl ?db @ rows, t_acl_seq := n\<rparr>)"
    "map (\<lambda>r. (a_resource r, a_position r, a_ace r)) rows = entries"
    using Cons.IH [of ?db] Cons.prems by (auto simp: x)
  then show ?case
    by (intro exI [of _ "?row # rows"] exI [of _ n]) (simp add: x step)
qed

definition admin_surface :: "(string \<times> string) list" where
  "admin_surface =
     [(''/users'', ''manage-users''), (''/groups'', ''manage-groups''), (''/invitations'', ''manage-invitations''),
      (''/server'', ''manage-server-schedule''), (''/events'', ''manage-events''), (''/acl'', ''manage-acls''),
      (''/volumes'', ''view-volumes''), (''/volumes'', ''manage-volumes'')]"

lemma top_level_ancestors:
  assumes "s \<noteq> []" "CHR ''/'' \<notin> set s"
  shows "resource_ancestors (CHR ''/'' # s) = Some [CHR ''/'' # s, ''/'']"
proof -
  have "path_parent (CHR ''/'' # s) = ''/''"
    using rsplit1_snoc [OF assms(2), of "[]"] by (simp add: path_parent_def)
  moreover have "resource_ancestors ''/'' = Some [''/'']" by (simp add: resource_ancestors.simps)
  ultimately show ?thesis using assms(1) by (subst resource_ancestors.simps) simp
qed

lemma added_table:
  assumes "map (\<lambda>r. (a_resource r, a_position r, a_ace r)) rows = entries" "t_acl db = rows"
  shows "acl_table_of db path = map (snd \<circ> snd) (sort_key (fst \<circ> snd) (filter (\<lambda>x. fst x = path) entries))"
proof -
  let ?f = "\<lambda>r. (a_resource r, a_position r, a_ace r)"
  have "filter (\<lambda>x. fst x = path) (map ?f rows) = map ?f (filter (\<lambda>r. a_resource r = path) rows)"
    by (simp add: filter_map comp_def)
  then have "sort_key (fst \<circ> snd) (filter (\<lambda>x. fst x = path) entries) = map ?f (get_acl_entries db path)"
    unfolding assms(1) [symmetric] get_acl_entries_def assms(2) by (simp only:) (rule sort_key_map, simp)
  then show ?thesis by (simp add: acl_table_of_def)
qed

lemma default_tables:
  assumes "map (\<lambda>r. (a_resource r, a_position r, a_ace r)) rows = default_acls admins members" "t_acl db = rows"
  shows "acl_table_of db ''/'' = [system_ace ACTION_ALLOW ''view'' SYSTEM_AUTHENTICATED, system_ace ACTION_DENY ''*'' SYSTEM_EVERYONE]"
    and "acl_table_of db ''/workspaces'' = [group_ace ''create-workspace'' admins, group_ace ''create-workspace'' members]"
    and "acl_table_of db ''/users'' = [group_ace ''manage-users'' admins, system_ace ACTION_ALLOW ''search-users'' SYSTEM_AUTHENTICATED,
           system_ace ACTION_DENY ''*'' SYSTEM_EVERYONE]"
    and "acl_table_of db ''/volumes'' = [group_ace ''view-volumes'' admins, group_ace ''manage-volumes'' admins]"
    and "acl_table_of db ''/images'' = [system_ace ACTION_ALLOW ''view-images'' SYSTEM_AUTHENTICATED]"
    and "acl_table_of db ''/groups'' = [group_ace ''manage-groups'' admins, system_ace ACTION_DENY ''*'' SYSTEM_EVERYONE]"
    and "acl_table_of db ''/invitations'' = [group_ace ''manage-invitations'' admins, system_ace ACTION_DENY ''*'' SYSTEM_EVERYONE]"
    and "acl_table_of db ''/server'' = [group_ace ''manage-server-schedule'' admins, system_ace ACTION_DENY ''*'' SYSTEM_EVERYONE]"
    and "acl_table_of db ''/events'' = [group_ace ''manage-events'' admins, system_ace ACTION_DENY ''*'' SYSTEM_EVERYONE]"
    and "acl_table_of db ''/acl'' = [group_ace ''manage-acls'' admins, system_ace ACTION_DENY ''*'' SYSTEM_EVERYONE]"
  unfolding added_table [OF assms] by (simp_all add: default_acls_def)

lemma group_ace_matches [simp]:
  "ace_matches_principals (group_ace perm gid) (get_principals groups uid) \<longleftrightarrow> gid \<in> set (groups uid)"
  by (simp add: group_ace_def share_ace_def ace_matches_principals_def get_principals_def)

lemma system_ace_matches [simp]:
  "who \<in> {SYSTEM_EVERYONE, SYSTEM_AUTHENTICATED} \<Longrightarrow> ace_matches_principals (system_ace act perm who) (get_principals groups uid)"
  by (auto simp: system_ace_def ace_matches_principals_def matches_system_principal_def get_principals_def)

lemma default_decisions [simp]:
  "ace_decision (group_ace perm gid) p = (if perm \<noteq> ''*'' \<and> perm \<noteq> p then None else Some True)"
  "ace_decision (system_ace act perm who) p = (if perm \<noteq> ''*'' \<and> perm \<noteq> p then None else Some (act = ACTION_ALLOW))"
  by (auto simp: ace_decision_def group_ace_def share_ace_def system_ace_def)

text \<open>
  The posture a fresh server starts with. Seeding an empty table with two hand-managed groups
  succeeds, and then for every account: viewing is allowed, every administrative permission is granted on
  its resource exactly to the members of the admin group, creating workspaces to the members of either
  group, and searching users and listing images to everybody who is signed in.
\<close>

theorem default_posture:
  assumes "t_acl db = []" "get_group_by_id db admins = Some ga" "g_source ga = GROUP_SOURCE_MANUAL"
    and "get_group_by_id db members = Some gm" "g_source gm = GROUP_SOURCE_MANUAL"
  shows "\<exists>db'. seed_default_acls admins members db = (Inr (), db') \<and>
    (\<forall>groups uid. let check = (\<lambda>res. check_permission (acl_table_of db') res (get_principals groups uid)) in
       check ''/'' ''view'' = Some True \<and>
       list_all (\<lambda>(res, perm). check res perm = Some (admins \<in> set (groups uid))) admin_surface \<and>
       check ''/workspaces'' ''create-workspace'' = Some (admins \<in> set (groups uid) \<or> members \<in> set (groups uid)) \<and>
       check ''/users'' ''search-users'' = Some True \<and> check ''/images'' ''view-images'' = Some True)"
proof -
  have "\<forall>(resource, pos, e) \<in> set (default_acls admins members). entry_fits db resource e"
    using assms by (auto simp: default_acls_def entry_fits_def group_ace_def share_ace_def system_ace_def)
  moreover have "distinct (map (\<lambda>(resource, pos, e). (resource, pos)) (default_acls admins members))"
    by (simp add: default_acls_def)
  ultimately obtain rows n where
    run: "add_entries (default_acls admins members) db = (Inr (), db\<lparr>t_acl := t_acl db @ rows, t_acl_seq := n\<rparr>)"
    and rows: "map (\<lambda>r. (a_resource r, a_position r, a_ace r)) rows = default_acls admins members"
    using add_entries_passes [of "default_acls admins members" db] assms(1) by auto
  let ?db = "db\<lparr>t_acl := rows, t_acl_seq := n\<rparr>"
  note tables = default_tables [OF rows, of ?db, simplified]
  have root: "resource_ancestors ''/'' = Some [''/'']" by (simp add: resource_ancestors.simps)
  have "let check = (\<lambda>res. check_permission (acl_table_of ?db) res (get_principals groups uid)) in
       check ''/'' ''view'' = Some True \<and>
       list_all (\<lambda>(res, perm). check res perm = Some (admins \<in> set (groups uid))) admin_surface \<and>
       check ''/workspaces'' ''create-workspace'' = Some (admins \<in> set (groups uid) \<or> members \<in> set (groups uid)) \<and>
       check ''/users'' ''search-users'' = Some True \<and> check ''/images'' ''view-images'' = Some True" for groups uid
    unfolding Let_def check_permission_table check_permission_inmemory_def
    by (simp add: admin_surface_def root top_level_ancestors tables)
  with run assms(1) show ?thesis by (auto simp: seed_default_acls_def)
qed

end
