(* ===== verification/Sharing.thy ===== *)
theory Sharing
  imports Acl_Store
begin

text \<open>
  The sharing routes of \<open>api/workspaces.py\<close> and the group and access-control routes of \<open>api/admin.py\<close>, over
  the tables of \<open>Acl_Store\<close>: members, group shares, role groups, the raw entry lists, and ownership
  transfer. A handler answers with an error (\<open>Http_Status\<close> for an \<open>HTTPException\<close>, otherwise what the model
  layer raised) or a value, and leaves the tables as the transactions it ran committed them. \<open>caller\<close> is
  the authenticated user; \<open>stepped_up\<close> is the answer of \<open>stepup.ensure_step_up\<close> for the calling session,
  read only where the handler asks for it. The notices to sockets and the audit rows a handler sends are
  appended to \<open>emitted\<close>.
\<close>

section \<open>Gates\<close>

definition emit_effects :: "share_effect list \<Rightarrow> share_db \<Rightarrow> share_db" where
  "emit_effects effects db = db\<lparr>emitted := emitted db @ effects\<rparr>"

definition permitted :: "share_db \<Rightarrow> string \<Rightarrow> string \<Rightarrow> string \<Rightarrow> bool" where
  "permitted db caller perm resource \<longleftrightarrow>
     has_permission (acl_table_of db) (get_user_group_ids db) perm (Some resource) [] caller = Some Granted"

definition permitted_all :: "share_db \<Rightarrow> string \<Rightarrow> string list \<Rightarrow> string \<Rightarrow> bool" where
  "permitted_all db caller perms resource \<longleftrightarrow>
     has_permissions (acl_table_of db) (get_user_group_ids db) perms resource caller = Some Granted"

definition find_workspace :: "share_db \<Rightarrow> string \<Rightarrow> owned_workspace option" where
  "find_workspace db wid = find (\<lambda>w. w_id w = wid) (t_workspaces db)"

definition step_up_refused :: "share_db \<Rightarrow> bool \<Rightarrow> string \<Rightarrow> string \<Rightarrow> bool" where
  "step_up_refused db stepped_up caller wid \<longleftrightarrow>
     (case find_workspace db wid of None \<Rightarrow> False | Some w \<Rightarrow> w_owner w \<noteq> caller \<and> \<not> stepped_up)"

definition MEMBER_SHARE_PERMISSIONS :: "string list" where
  "MEMBER_SHARE_PERMISSIONS =
     [''view'', ''monitor-workspace'', ''join-workspace'', ''terminal'', ''files-view'', ''files-download'',
      ''files-write'']"

definition GROUP_SHARE_PERMISSIONS :: "string list" where
  "GROUP_SHARE_PERMISSIONS =
     [''view'', ''join-workspace'', ''terminal'', ''files-view'', ''files-download'', ''files-write'']"

definition ROLE_GROUP_SUFFIXES :: "string list" where
  "ROLE_GROUP_SUFFIXES = [''owners'', ''coders'', ''collaborators'', ''spectators'']"

definition ROLE_WRITE_GATE :: "string list" where
  "ROLE_WRITE_GATE = [''share-workspace'', ''share-advanced'']"

definition ALL_PERMISSIONS :: "string list" where
  "ALL_PERMISSIONS =
     [''view'', ''monitor-workspace'', ''create-workspace'', ''duplicate-workspace'', ''edit-workspace'',
      ''delete-workspace'', ''start-workspace'', ''stop-workspace'', ''restart-workspace'', ''transfer-workspace'',
      ''join-workspace'', ''terminal'', ''egress-consent'', ''code-in-isolation'', ''exec-and-sync'',
      ''spectate-on-shared-terminals'', ''code-in-shared-terminals'', ''share-terminals'', ''files-view'',
      ''files-download'', ''files-write'', ''export-workspace'', ''share-workspace'', ''share-advanced'',
      ''manage-users'', ''manage-invitations'', ''manage-groups'', ''manage-server-schedule'', ''manage-acls'',
      ''manage-events'', ''manage-volumes'', ''view-volumes'', ''view-images'', ''search-users'', ''*'']"


text \<open>
  The entries with the principal they display: nothing for an unknown principal type; the e-mail address or
  the name of the row the identifier refers to, the identifier itself without such a row.
\<close>

definition name_or_id :: "string option \<Rightarrow> string option \<Rightarrow> string option" where
  "name_or_id name i = (case name of Some n \<Rightarrow> if n \<noteq> [] then Some n else i | None \<Rightarrow> i)"

definition resolved_principal :: "share_db \<Rightarrow> ace \<Rightarrow> string option option" where
  "resolved_principal db e =
     (if principal_type e = PRINCIPAL_SYSTEM
      then Some (Some (if system_principal e = Some SYSTEM_EVERYONE then ''Everyone'' else ''Authenticated''))
      else if principal_type e = PRINCIPAL_USER
      then Some (name_or_id (case ace_user_id e of None \<Rightarrow> None
                   | Some i \<Rightarrow> map_option u_email (find (\<lambda>u. u_id u = i) (t_users db))) (ace_user_id e))
      else if principal_type e = PRINCIPAL_GROUP
      then Some (name_or_id (case ace_group_id e of None \<Rightarrow> None
                   | Some i \<Rightarrow> map_option g_name (get_group_by_id db i)) (ace_group_id e))
      else None)"

definition get_acl_entries_resolved :: "share_db \<Rightarrow> string \<Rightarrow> (acl_row \<times> string option option) list" where
  "get_acl_entries_resolved db resource = map (\<lambda>r. (r, resolved_principal db (a_ace r))) (get_acl_entries db resource)"


section \<open>Members and group shares\<close>

definition add_workspace_member :: "string \<Rightarrow> string \<Rightarrow> string \<Rightarrow> share_db \<Rightarrow> string outcome" where
  "add_workspace_member wid caller identifier db =
     (if \<not> permitted db caller ''share-workspace'' (workspace_path wid) then (Inl (Http_Status 403), db)
      else case get_user_by_identifier db identifier of
        None \<Rightarrow> (Inl (Http_Status 404), db)
      | Some target \<Rightarrow>
          if u_id target = caller then (Inl (Http_Status 400), db)
          else (case add_principal_entries (workspace_path wid) MEMBER_SHARE_PERMISSIONS PRINCIPAL_USER
                       (Some (u_id target)) None db of
                  (Inl e, db') \<Rightarrow> (Inl e, db')
                | (Inr shared, db') \<Rightarrow>
                    if \<not> shared then (Inl (Http_Status 409), db')
                    else (Inr (u_id target),
                          emit_effects [Workspaces_Changed caller, Workspaces_Changed (u_id target),
                                Share_Event wid ''workspace.member.add''] db')))"

definition renumber :: "acl_row list \<Rightarrow> (int \<times> ace) list" where
  "renumber rows = zip (map int [0..<length rows]) (map a_ace rows)"

text \<open>The read and the rewrite of \<open>_remove_principals\<close>, two transactions.\<close>

definition rewrite_without :: "string \<Rightarrow> (ace \<Rightarrow> bool) \<Rightarrow> acl_row list \<Rightarrow> share_db \<Rightarrow> unit outcome" where
  "rewrite_without resource predicate entries db =
     replace_acl_entries resource (renumber (filter (\<lambda>r. \<not> predicate (a_ace r)) entries)) db"

definition remove_principals :: "string \<Rightarrow> (ace \<Rightarrow> bool) \<Rightarrow> share_db \<Rightarrow> unit outcome" where
  "remove_principals wid predicate db =
     (let resource = workspace_path wid; entries = get_acl_entries db resource
      in rewrite_without resource predicate entries db)"

definition is_member_entry :: "string \<Rightarrow> ace \<Rightarrow> bool" where
  "is_member_entry member e = (principal_type e = PRINCIPAL_USER \<and> ace_user_id e = Some member)"

definition is_group_entry :: "string \<Rightarrow> ace \<Rightarrow> bool" where
  "is_group_entry gid e = (principal_type e = PRINCIPAL_GROUP \<and> ace_group_id e = Some gid)"

definition remove_workspace_member :: "string \<Rightarrow> string \<Rightarrow> string \<Rightarrow> share_db \<Rightarrow> unit outcome" where
  "remove_workspace_member wid caller member db =
     (if \<not> permitted db caller ''share-workspace'' (workspace_path wid) then (Inl (Http_Status 403), db)
      else (case remove_principals wid (is_member_entry member) db of
              (Inl e, db') \<Rightarrow> (Inl e, db')
            | (Inr _, db') \<Rightarrow>
                (Inr (), emit_effects [Workspaces_Changed caller, Workspaces_Changed member,
                               Share_Event wid ''workspace.member.remove''] db')))"

definition add_workspace_group :: "string \<Rightarrow> string \<Rightarrow> string \<Rightarrow> share_db \<Rightarrow> string outcome" where
  "add_workspace_group wid caller gid db =
     (if \<not> permitted db caller ''share-workspace'' (workspace_path wid) then (Inl (Http_Status 403), db)
      else if get_group_by_id db gid = None then (Inl (Http_Status 404), db)
      else (case add_principal_entries (workspace_path wid) GROUP_SHARE_PERMISSIONS PRINCIPAL_GROUP
                   None (Some gid) db of
              (Inl e, db') \<Rightarrow> (Inl e, db')
            | (Inr shared, db') \<Rightarrow>
                if \<not> shared then (Inl (Http_Status 409), db')
                else (Inr gid, emit_effects [Share_Event wid ''workspace.group.add''] db')))"

definition remove_workspace_group :: "string \<Rightarrow> string \<Rightarrow> string \<Rightarrow> share_db \<Rightarrow> unit outcome" where
  "remove_workspace_group wid caller gid db =
     (if \<not> permitted db caller ''share-workspace'' (workspace_path wid) then (Inl (Http_Status 403), db)
      else (case remove_principals wid (is_group_entry gid) db of
              (Inl e, db') \<Rightarrow> (Inl e, db')
            | (Inr _, db') \<Rightarrow> (Inr (), emit_effects [Share_Event wid ''workspace.group.remove''] db')))"

fun first_groups :: "string list \<Rightarrow> (acl_row \<times> string option option) list \<Rightarrow> (string \<times> string option) list" where
  "first_groups seen [] = []"
| "first_groups seen ((r, shown) # es) =
     (if principal_type (a_ace r) = PRINCIPAL_GROUP
      then (case ace_group_id (a_ace r) of
              None \<Rightarrow> first_groups seen es
            | Some gid \<Rightarrow> if gid = [] \<or> gid \<in> set seen then first_groups seen es
                          else (gid, Option.bind shown id) # first_groups (gid # seen) es)
      else first_groups seen es)"

definition get_workspace_groups :: "string \<Rightarrow> string \<Rightarrow> share_db \<Rightarrow> (string \<times> string option) list outcome" where
  "get_workspace_groups wid caller db =
     (if \<not> permitted db caller ''share-workspace'' (workspace_path wid) then (Inl (Http_Status 403), db)
      else (Inr (first_groups [] (get_acl_entries_resolved db (workspace_path wid))), db))"


section \<open>Roles\<close>

definition group_effective_permissions :: "string \<Rightarrow> string \<Rightarrow> acl_table \<Rightarrow> string list" where
  "group_effective_permissions resource gid entries =
     (let principals = \<lparr>user_id = [], group_ids = [gid], authenticated = True\<rparr>
      in filter (\<lambda>p. check_permission_inmemory resource principals p entries = Some True) ALL_PERMISSIONS)"

type_synonym role_listing = "string \<times> string \<times> string \<times> (string \<times> string) list \<times> string list"

definition workspace_roles :: "string \<Rightarrow> share_db \<Rightarrow> role_listing list" where
  "workspace_roles wid db =
     (let resource = workspace_path wid; entries = get_acl_entries_map (acl_table_of db) [resource]
      in concat (map (\<lambda>suffix.
           case get_group_by_name db (role_group_name suffix wid) of
             None \<Rightarrow> []
           | Some g \<Rightarrow> [(suffix, g_id g, role_group_name suffix wid, get_group_members db (g_id g),
                         group_effective_permissions resource (g_id g) entries)]) ROLE_GROUP_SUFFIXES))"

definition get_workspace_roles :: "string \<Rightarrow> string \<Rightarrow> share_db \<Rightarrow> role_listing list outcome" where
  "get_workspace_roles wid caller db =
     (if \<not> permitted db caller ''share-workspace'' (workspace_path wid) then (Inl (Http_Status 403), db)
      else (Inr (workspace_roles wid db), db))"

definition role_event :: "string \<Rightarrow> string \<Rightarrow> string \<Rightarrow> string \<Rightarrow> share_db \<Rightarrow> share_db" where
  "role_event wid caller member event db =
     emit_effects [Workspaces_Changed caller, Workspaces_Changed member, Share_Event wid event] db"

definition add_to_workspace_role ::
  "string \<Rightarrow> string \<Rightarrow> bool \<Rightarrow> string \<Rightarrow> string \<Rightarrow> share_db \<Rightarrow> unit outcome" where
  "add_to_workspace_role wid caller stepped_up role identifier db =
     (if \<not> permitted_all db caller ROLE_WRITE_GATE (workspace_path wid) then (Inl (Http_Status 403), db)
      else if role \<notin> set ROLE_GROUP_SUFFIXES then (Inl (Http_Status 400), db)
      else if step_up_refused db stepped_up caller wid then (Inl (Http_Status 403), db)
      else case get_group_by_name db (role_group_name role wid) of
        None \<Rightarrow> (Inl (Http_Status 404), db)
      | Some g \<Rightarrow>
          (case get_user_by_identifier db identifier of
             None \<Rightarrow> (Inl (Http_Status 404), db)
           | Some target \<Rightarrow>
               (case add_user_to_group (u_id target) (g_id g) ''manual'' db of
                  (Inl e, db') \<Rightarrow> (Inl e, db')
                | (Inr _, db') \<Rightarrow> (Inr (), role_event wid caller (u_id target) ''workspace.role.add'' db'))))"

definition remove_from_workspace_role ::
  "string \<Rightarrow> string \<Rightarrow> bool \<Rightarrow> string \<Rightarrow> string \<Rightarrow> share_db \<Rightarrow> unit outcome" where
  "remove_from_workspace_role wid caller stepped_up role member db =
     (if \<not> permitted_all db caller ROLE_WRITE_GATE (workspace_path wid) then (Inl (Http_Status 403), db)
      else if role \<notin> set ROLE_GROUP_SUFFIXES then (Inl (Http_Status 400), db)
      else if step_up_refused db stepped_up caller wid then (Inl (Http_Status 403), db)
      else case get_group_by_name db (role_group_name role wid) of
        None \<Rightarrow> (Inl (Http_Status 404), db)
      | Some g \<Rightarrow> (Inr (), role_event wid caller member ''workspace.role.remove''
                            (snd (remove_user_from_group member (g_id g) db))))"

fun remove_from_roles :: "string list \<Rightarrow> string \<Rightarrow> string \<Rightarrow> share_db \<Rightarrow> share_db" where
  "remove_from_roles [] wid uid db = db"
| "remove_from_roles (suffix # suffixes) wid uid db =
     remove_from_roles suffixes wid uid
       (case get_group_by_name db (role_group_name suffix wid) of
          None \<Rightarrow> db | Some g \<Rightarrow> snd (remove_user_from_group uid (g_id g) db))"

definition remove_from_all_roles :: "string \<Rightarrow> string \<Rightarrow> share_db \<Rightarrow> share_db" where
  "remove_from_all_roles = remove_from_roles ROLE_GROUP_SUFFIXES"

definition add_to_role :: "string \<Rightarrow> string \<Rightarrow> string \<Rightarrow> share_db \<Rightarrow> unit outcome" where
  "add_to_role wid uid role db =
     (case get_group_by_name db (role_group_name role wid) of
        None \<Rightarrow> (Inl (Http_Status 404), db)
      | Some g \<Rightarrow> add_user_to_group uid (g_id g) ''manual'' db)"

definition change_workspace_role ::
  "string \<Rightarrow> string \<Rightarrow> bool \<Rightarrow> string \<Rightarrow> string option \<Rightarrow> share_db \<Rightarrow> unit outcome" where
  "change_workspace_role wid caller stepped_up identifier role db =
     (if \<not> permitted_all db caller ROLE_WRITE_GATE (workspace_path wid) then (Inl (Http_Status 403), db)
      else if step_up_refused db stepped_up caller wid then (Inl (Http_Status 403), db)
      else case get_user_by_identifier db identifier of
        None \<Rightarrow> (Inl (Http_Status 404), db)
      | Some target \<Rightarrow>
          if (case role of None \<Rightarrow> False | Some r \<Rightarrow> r \<notin> set ROLE_GROUP_SUFFIXES) then (Inl (Http_Status 400), db)
          else (let db1 = remove_from_all_roles wid (u_id target) db
                in case (case role of None \<Rightarrow> (Inr (), db1) | Some r \<Rightarrow> add_to_role wid (u_id target) r db1) of
                     (Inl e, db2) \<Rightarrow> (Inl e, db2)
                   | (Inr _, db2) \<Rightarrow> (Inr (), role_event wid caller (u_id target) ''workspace.role.change'' db2)))"


section \<open>Raw entry lists and ownership\<close>

definition serialize_acl_entries :: "ace list \<Rightarrow> (int \<times> ace) list" where
  "serialize_acl_entries entries = zip (map int [0..<length entries]) entries"

definition replace_workspace_acl ::
  "string \<Rightarrow> string \<Rightarrow> bool \<Rightarrow> ace list \<Rightarrow> share_db \<Rightarrow> (acl_row \<times> string option option) list outcome" where
  "replace_workspace_acl wid caller stepped_up entries db =
     (let resource = workspace_path wid
      in if \<not> permitted db caller ''share-advanced'' resource then (Inl (Http_Status 403), db)
         else if step_up_refused db stepped_up caller wid then (Inl (Http_Status 403), db)
         else (case replace_acl_entries resource (serialize_acl_entries entries) db of
                 (Inl e, db') \<Rightarrow> (Inl e, db')
               | (Inr _, db') \<Rightarrow> (Inr (get_acl_entries_resolved db' resource), emit_effects [Share_Event wid ''acl.replace''] db')))"

definition auth_view_entry :: "ace \<Rightarrow> bool" where
  "auth_view_entry e =
     (action e = ACTION_ALLOW \<and> principal_type e = PRINCIPAL_SYSTEM \<and>
      system_principal e = Some SYSTEM_AUTHENTICATED \<and> permission e \<in> {''view'', ''*''})"

definition validate_root_acl :: "ace list \<Rightarrow> string \<Rightarrow> bool" where
  "validate_root_acl entries resource = (resource = ''/'' \<longrightarrow> list_ex auth_view_entry entries)"

definition workspace_scope :: "string \<Rightarrow> string option" where
  "workspace_scope resource =
     (let parts = split_on CHR ''/'' (strip_slashes resource)
      in if 2 \<le> length parts \<and> parts ! 0 = ''workspaces'' \<and> parts ! 1 \<noteq> []
         then Some (''/workspaces/'' @ parts ! 1) else None)"

definition replace_resource_acl ::
  "string \<Rightarrow> string \<Rightarrow> bool \<Rightarrow> ace list \<Rightarrow> share_db \<Rightarrow> (acl_row \<times> string option option) list outcome" where
  "replace_resource_acl resource caller stepped_up entries db =
     (if \<not> permitted db caller ''manage-acls'' ''/acl'' \<or> \<not> stepped_up then (Inl (Http_Status 403), db)
      else if \<not> validate_root_acl entries resource then (Inl (Http_Status 400), db)
      else if (case workspace_scope resource of
                 None \<Rightarrow> False | Some w \<Rightarrow> \<not> permitted db caller ''share-advanced'' w)
      then (Inl (Http_Status 403), db)
      else (case replace_acl_entries resource (serialize_acl_entries entries) db of
              (Inl e, db') \<Rightarrow> (Inl e, db')
            | (Inr _, db') \<Rightarrow> (Inr (get_acl_entries_resolved db' resource), emit_effects [Share_Event resource ''acl.replace''] db')))"

definition delete_group_route :: "string \<Rightarrow> string \<Rightarrow> bool \<Rightarrow> share_db \<Rightarrow> unit outcome" where
  "delete_group_route gid caller stepped_up db =
     (if \<not> permitted db caller ''manage-groups'' ''/groups'' \<or> \<not> stepped_up then (Inl (Http_Status 403), db)
      else if get_group_by_id db gid = None then (Inl (Http_Status 404), db)
      else (case delete_group gid db of
              (Inl e, db') \<Rightarrow> (Inl e, db')
            | (Inr _, db') \<Rightarrow>
                (Inr (), emit_effects [Share_Event gid ''group.delete'']
                   (snd (delete_acl_entries_for_resource (''/groups/'' @ gid) db')))))"

definition transfer_workspace_ownership ::
  "string \<Rightarrow> string \<Rightarrow> bool \<Rightarrow> string \<Rightarrow> share_db \<Rightarrow> unit outcome" where
  "transfer_workspace_ownership wid caller stepped_up identifier db =
     (if \<not> permitted db caller ''transfer-workspace'' (workspace_path wid) then (Inl (Http_Status 403), db)
      else if step_up_refused db stepped_up caller wid then (Inl (Http_Status 403), db)
      else case get_user_by_identifier db identifier of
        None \<Rightarrow> (Inl (Http_Status 404), db)
      | Some target \<Rightarrow>
          (case transfer_workspace wid (u_id target) db of
             (Inl Value_Error, db') \<Rightarrow> (Inl (Http_Status 409), db')
           | (Inl Agent_Principal, db') \<Rightarrow> (Inl (Http_Status 409), db')
           | (Inl e, db') \<Rightarrow> (Inl e, db')
           | (Inr moved, db') \<Rightarrow>
               if \<not> moved then (Inl (Http_Status 404), db')
               else (Inr (), role_event wid caller (u_id target) ''workspace.transfer'' db')))"


section \<open>Tables after a write\<close>

lemma insort_key_append:
  "\<forall>y \<in> set ys. f x \<le> f y \<Longrightarrow> insort_key f x (xs @ ys) = insort_key f x xs @ ys"
  by (induction xs) (cases ys; auto)+

lemma sort_key_append_above:
  assumes "\<forall>x \<in> set xs. \<forall>y \<in> set ys. f x \<le> f y" "sorted (map f ys)"
  shows "sort_key f (xs @ ys) = sort_key f xs @ ys"
  using assms
  by (induction xs) (simp_all add: insort_key_append sort_key_id_if_sorted)

lemma next_position_above: "r \<in> set rows \<Longrightarrow> a_position r < next_position rows"
  by (auto simp: next_position_def intro!: le_imp_less_Suc zle_add1_eq_le [THEN iffD2])

text \<open>The rows a block of inserts appends.\<close>

definition block_rows :: "acl_row list \<Rightarrow> string \<Rightarrow> int \<Rightarrow> ace list \<Rightarrow> bool" where
  "block_rows rows resource pos aces \<longleftrightarrow>
     map a_ace rows = aces \<and> (\<forall>r \<in> set rows. a_resource r = resource) \<and>
     map a_position rows = map (\<lambda>i. pos + int i) [0..<length rows]"

lemma block_rows_positions:
  assumes "block_rows rows resource pos aces"
  shows "sorted (map a_position rows)" "\<forall>r \<in> set rows. pos \<le> a_position r"
proof -
  have p: "map a_position rows = map (\<lambda>i. pos + int i) [0..<length rows]" using assms by (simp add: block_rows_def)
  show "sorted (map a_position rows)" unfolding p by (simp add: sorted_iff_nth_mono)
  have "set (map a_position rows) \<subseteq> {pos..}" unfolding p by auto
  then show "\<forall>r \<in> set rows. pos \<le> a_position r" by auto
qed

lemma block_rows_append:
  assumes "block_rows rows resource pos aces" "block_rows rows' resource (pos + int (length aces)) aces'"
  shows "block_rows (rows @ rows') resource pos (aces @ aces')"
proof -
  have "length rows = length aces" using assms(1) by (auto simp: block_rows_def)
  moreover have "map (\<lambda>i. pos + int i) [length rows..<length rows + length rows'] =
      map (\<lambda>i. pos + int (length rows) + int i) [0..<length rows']"
    by (rule nth_equalityI) simp_all
  then have "map (\<lambda>i. pos + int i) [0..<length rows + length rows'] =
      map (\<lambda>i. pos + int i) [0..<length rows] @ map (\<lambda>i. pos + int (length rows) + int i) [0..<length rows']"
    by (simp only: upt_add_eq_append [OF le0] map_append)
  ultimately show ?thesis using assms by (auto simp: block_rows_def)
qed

lemma insert_block_Inr:
  "insert_block resource pos template perms db = Inr (a, db') \<Longrightarrow>
     \<exists>rows n. db' = db\<lparr>t_acl := t_acl db @ rows, t_acl_seq := n\<rparr> \<and> block_rows rows resource pos (map template perms)"
proof (induction perms arbitrary: pos db)
  case Nil
  then have "db' = db" by (simp add: tx_return_def)
  then show ?case by (intro exI [of _ "[]"] exI [of _ "t_acl_seq db"]) (simp add: block_rows_def)
next
  case (Cons perm perms)
  then obtain i db1 where s1: "insert_acl_entry resource pos (template perm) db = Inr (i, db1)"
    and s2: "insert_block resource (pos + 1) template perms db1 = Inr (a, db')" by (auto simp: tx_bind_Inr)
  from Cons.IH [OF s2] obtain rows n where
    "db' = db1\<lparr>t_acl := t_acl db1 @ rows, t_acl_seq := n\<rparr>" and
    rows: "block_rows rows resource (pos + 1) (map template perms)" by blast
  moreover let ?row = "\<lparr>a_id = i, a_resource = resource, a_position = pos, a_ace = template perm\<rparr>"
  have "block_rows ([?row] @ rows) resource pos ([template perm] @ map template perms)"
    by (rule block_rows_append) (use rows in \<open>simp_all add: block_rows_def\<close>)
  ultimately show ?case using insert_acl_entry_Inr(1) [OF s1]
    by (intro exI [of _ "?row # rows"] exI [of _ n]) simp
qed

lemma get_acl_entries_append:
  assumes "block_rows rows resource pos aces" "\<forall>r \<in> set (get_acl_entries db resource). a_position r < pos"
  shows "get_acl_entries (db\<lparr>t_acl := t_acl db @ rows, t_acl_seq := n\<rparr>) path =
    (if path = resource then get_acl_entries db resource @ rows else get_acl_entries db path)"
proof -
  have "filter (\<lambda>r. a_resource r = path) rows = (if path = resource then rows else [])"
    using assms(1) by (auto simp: block_rows_def filter_id_conv filter_empty_conv)
  moreover have "sort_key a_position (filter (\<lambda>r. a_resource r = resource) (t_acl db) @ rows) =
      sort_key a_position (filter (\<lambda>r. a_resource r = resource) (t_acl db)) @ rows"
    using assms block_rows_positions [OF assms(1)]
    by (intro sort_key_append_above) (force simp: get_acl_entries_set)+
  ultimately show ?thesis by (simp add: get_acl_entries_def)
qed

lemma add_principal_entries_True:
  assumes "add_principal_entries resource perms ptype uid gid db = (Inr True, db')"
  shows "\<exists>rows n. db' = db\<lparr>t_acl := t_acl db @ rows, t_acl_seq := n\<rparr> \<and>
    (\<forall>path. get_acl_entries db' path =
       (if path = resource then get_acl_entries db resource @ rows else get_acl_entries db path)) \<and>
    map a_ace rows = map (share_ace ptype uid gid) perms"
proof -
  from assms have run: "tx_bind (load_locked_entries resource ptype uid gid)
          (\<lambda>found. case found of None \<Rightarrow> tx_return False
           | Some entries \<Rightarrow>
               tx_bind (insert_block resource (next_position entries) (share_ace ptype uid gid) perms)
                 (\<lambda>_. tx_return True)) db = Inr (True, db')"
    by (simp add: add_principal_entries_def transaction_Inr split: if_splits)
  then obtain found db1 where load: "load_locked_entries resource ptype uid gid db = Inr (found, db1)"
    and rest: "(case found of None \<Rightarrow> tx_return False
           | Some entries \<Rightarrow>
               tx_bind (insert_block resource (next_position entries) (share_ace ptype uid gid) perms)
                 (\<lambda>_. tx_return True)) db1 = Inr (True, db')" by (auto simp: tx_bind_Inr)
  note l = load_locked_entries_Inr [OF load]
  have "found = Some (get_acl_entries db resource)"
    using rest l(2) by (auto simp: tx_return_def split: if_splits)
  then have "insert_block resource (next_position (get_acl_entries db resource)) (share_ace ptype uid gid) perms db
      = Inr ((), db')" using rest l(1) by (auto simp: tx_bind_Inr tx_return_def)
  from insert_block_Inr [OF this] obtain rows n where
    "db' = db\<lparr>t_acl := t_acl db @ rows, t_acl_seq := n\<rparr>"
    and b: "block_rows rows resource (next_position (get_acl_entries db resource)) (map (share_ace ptype uid gid) perms)"
    by blast
  then show ?thesis
    using get_acl_entries_append [OF b] next_position_above b by (auto simp: block_rows_def)
qed

lemma shared_table:
  assumes "add_principal_entries resource perms ptype uid gid db = (Inr True, db')"
  shows "acl_table_of db' path =
    acl_table_of db path @ (if path = resource then map (share_ace ptype uid gid) perms else [])"
  using add_principal_entries_True [OF assms] by (auto simp: acl_table_of_def)

lemma check_permission_walk:
  "check_permission table res pr perm =
     map_option (\<lambda>paths. case find (\<lambda>a. ace_matches_principals a pr \<and> (permission a = ''*'' \<or> permission a = perm))
             (concat (map table paths)) of None \<Rightarrow> False | Some a \<Rightarrow> action a = ACTION_ALLOW)
       (resource_ancestors res)"
  by (simp add: check_permission_table check_permission_inmemory_def walk_decision_find [abs_def])

lemma entries_decision_append:
  "entries_decision pr perm (xs @ ys) =
     (case entries_decision pr perm xs of Some d \<Rightarrow> Some d | None \<Rightarrow> entries_decision pr perm ys)"
  by (auto simp: entries_decision_find find_append split: option.splits)

definition share_applies :: "principals \<Rightarrow> int \<Rightarrow> string option \<Rightarrow> string option \<Rightarrow> bool" where
  "share_applies pr ptype uid gid = ace_matches_principals (share_ace ptype uid gid []) pr"

lemma share_block_decision:
  "entries_decision pr perm (map (share_ace ptype uid gid) perms) =
     (if share_applies pr ptype uid gid \<and> (perm \<in> set perms \<or> ''*'' \<in> set perms) then Some True else None)"
proof -
  have "ace_matches_principals (share_ace ptype uid gid p) pr = share_applies pr ptype uid gid" for p
    by (simp add: share_applies_def share_ace_def ace_matches_principals_def matches_system_principal_def)
  then show ?thesis
    by (induction perms) (auto simp: ace_decision_def share_ace_def)
qed

lemma check_permission_walk_decision:
  "check_permission table res pr perm = map_option (walk_decision pr perm table) (resource_ancestors res)"
  by (simp add: check_permission_table check_permission_inmemory_def)

lemma walk_unshared:
  assumes "add_principal_entries resource perms ptype uid gid db = (Inr True, db')" "\<not> share_applies pr ptype uid gid"
  shows "check_permission (acl_table_of db') res pr perm = check_permission (acl_table_of db) res pr perm"
proof -
  have "walk_decision pr perm (acl_table_of db') paths = walk_decision pr perm (acl_table_of db) paths" for paths
    using assms(2)
    by (induction paths) (auto simp: shared_table [OF assms(1)] entries_decision_append share_block_decision split: option.splits)
  then show ?thesis by (cases "resource_ancestors res") (simp_all add: check_permission_walk_decision)
qed

text \<open>
  (C32) A share adds exactly its block. When the block of a principal has been added to a resource, every
  check for somebody it does not name answers as before, no check that granted stops granting, and on the
  resource itself the named principals get every permission of the block that no earlier entry of the
  resource decides for them; an entry that did decide, a Deny included, still does.
\<close>

theorem share_adds_exactly_its_block:
  assumes "add_principal_entries resource perms ptype uid gid db = (Inr True, db')"
  shows "(\<not> share_applies pr ptype uid gid \<longrightarrow>
      check_permission (acl_table_of db') res pr perm = check_permission (acl_table_of db) res pr perm) \<and>
    (check_permission (acl_table_of db) res pr perm = Some True \<longrightarrow>
      check_permission (acl_table_of db') res pr perm = Some True) \<and>
    entries_decision pr perm (acl_table_of db' resource) =
      (case entries_decision pr perm (acl_table_of db resource) of
         Some d \<Rightarrow> Some d
       | None \<Rightarrow> if share_applies pr ptype uid gid \<and> (perm \<in> set perms \<or> ''*'' \<in> set perms) then Some True else None)"
proof -
  let ?T = "acl_table_of db" and ?T' = "acl_table_of db'"
  have d: "entries_decision pr perm (?T' path) =
      (case entries_decision pr perm (?T path) of Some d \<Rightarrow> Some d
       | None \<Rightarrow> if path = resource \<and> share_applies pr ptype uid gid \<and> (perm \<in> set perms \<or> ''*'' \<in> set perms)
                then Some True else None)" for path
    by (auto simp: shared_table [OF assms] entries_decision_append share_block_decision split: option.splits)
  have "walk_decision pr perm ?T paths \<Longrightarrow> walk_decision pr perm ?T' paths" for paths
    by (induction paths) (auto simp: d split: option.splits)
  then show ?thesis using walk_unshared [OF assms, of pr res perm]
    by (cases "resource_ancestors res") (auto simp: check_permission_walk_decision d)
qed

definition sample_db :: share_db where
  "sample_db =
     empty_db\<lparr>t_users := [\<lparr>u_id = ''u1'', u_email = ''a@x'', u_handle = ''a''\<rparr>, \<lparr>u_id = ''u2'', u_email = ''b@x'', u_handle = ''b''\<rparr>],
       t_workspaces := [\<lparr>w_id = ''w'', w_owner = ''u1'', w_name = ''n''\<rparr>],
       t_acl := [\<lparr>a_id = 1, a_resource = ''/workspaces/w'', a_position = 0,
                  a_ace = share_ace PRINCIPAL_USER (Some ''u1'') None ''*''\<rparr>], t_acl_seq := 1\<rparr>"

lemmas share_eval =
  add_principal_entries_def reject_agent_principal_def transaction_def tx_bind_def load_locked_entries_def
  tx_return_def tx_raise_def get_acl_entries_def is_principal_entry_def insert_acl_entry_def next_position_def
  known_user_def known_group_def share_ace_def SYSTEM_AGENT_ID_def

lemma sample_share:
  "\<exists>db'. add_principal_entries ''/workspaces/w'' [''view'', ''terminal''] PRINCIPAL_USER (Some ''u2'') None sample_db
     = (Inr True, db')"
  by (simp add: sample_db_def empty_db_def share_eval Let_def)

theorem share_adds_exactly_its_block_witness:
  "\<exists>db'. add_principal_entries ''/workspaces/w'' [''view'', ''terminal''] PRINCIPAL_USER (Some ''u2'') None sample_db
     = (Inr True, db') \<and>
     entries_decision (get_principals (\<lambda>_. []) ''u2'') ''view'' (acl_table_of sample_db ''/workspaces/w'') = None \<and>
     entries_decision (get_principals (\<lambda>_. []) ''u2'') ''view'' (acl_table_of db' ''/workspaces/w'') = Some True"
proof -
  obtain db' where run: "add_principal_entries ''/workspaces/w'' [''view'', ''terminal''] PRINCIPAL_USER (Some ''u2'') None sample_db
     = (Inr True, db')" using sample_share by blast
  have none: "entries_decision (get_principals (\<lambda>_. []) ''u2'') ''view'' (acl_table_of sample_db ''/workspaces/w'') = None"
    by (simp add: sample_db_def empty_db_def acl_table_of_def get_acl_entries_def share_ace_def
        ace_matches_principals_def get_principals_def)
  have "share_applies (get_principals (\<lambda>_. []) ''u2'') PRINCIPAL_USER (Some ''u2'') None"
    by (simp add: share_applies_def share_ace_def ace_matches_principals_def get_principals_def)
  with share_adds_exactly_its_block [OF run, of "get_principals (\<lambda>_. []) ''u2''" "''/''" "''view''"] run none
  show ?thesis by auto
qed


section \<open>Rewriting a resource\<close>

lemma check_entry_scope_passes:
  assumes "scope_ok db resource e"
  shows "check_entry_scope resource e db = Inr ((), db)"
proof (cases "principal_type e = PRINCIPAL_GROUP")
  case True
  have "check_role_group_scope resource gid db = Inr ((), db)" if "ace_group_id e = Some gid" for gid
  proof (cases "find (\<lambda>g. g_id g = gid) (t_groups db)")
    case (Some g)
    then have "g \<in> set (t_groups db)" "g_id g = gid" by (auto simp: find_Some_iff)
    with assms True that Some show ?thesis
      by (auto simp: check_role_group_scope_def scope_ok_def tx_return_def)
  qed (simp add: check_role_group_scope_def tx_return_def)
  then show ?thesis by (auto simp: check_entry_scope_def tx_return_def split: option.splits)
qed (simp add: check_entry_scope_def tx_return_def)

lemma insert_entries_pass:
  assumes "distinct (map fst entries)" "\<forall>(pos, e) \<in> set entries. \<forall>r \<in> set (t_acl db). a_resource r = resource \<longrightarrow> a_position r \<noteq> pos"
    "\<forall>(pos, e) \<in> set entries. \<not> reject_agent_principal e \<and> pred_option (known_user db) (ace_user_id e) \<and>
       pred_option (known_group db) (ace_group_id e)"
  shows "\<exists>rows n. tx_each (\<lambda>(pos, e). tx_bind (insert_acl_entry resource pos e) (\<lambda>_. tx_return ())) entries db =
      Inr ((), db\<lparr>t_acl := t_acl db @ rows, t_acl_seq := n\<rparr>) \<and>
    map (\<lambda>r. (a_position r, a_ace r)) rows = entries \<and> (\<forall>r \<in> set rows. a_resource r = resource)"
  using assms
proof (induction entries arbitrary: db)
  case Nil
  show ?case by (intro exI [of _ "[]"] exI [of _ "t_acl_seq db"]) (simp add: tx_return_def)
next
  case (Cons x entries)
  obtain pos e where x: "x = (pos, e)" by force
  let ?row = "\<lparr>a_id = Suc (t_acl_seq db), a_resource = resource, a_position = pos, a_ace = e\<rparr>"
  let ?db = "db\<lparr>t_acl := t_acl db @ [?row], t_acl_seq := Suc (t_acl_seq db)\<rparr>"
  have ins: "insert_acl_entry resource pos e db = Inr (Suc (t_acl_seq db), ?db)"
    using Cons.prems by (auto simp: x insert_acl_entry_def reject_agent_principal_def Let_def)
  have "\<exists>rows n. tx_each (\<lambda>(pos, e). tx_bind (insert_acl_entry resource pos e) (\<lambda>_. tx_return ())) entries ?db =
      Inr ((), ?db\<lparr>t_acl := t_acl ?db @ rows, t_acl_seq := n\<rparr>) \<and>
    map (\<lambda>r. (a_position r, a_ace r)) rows = entries \<and> (\<forall>r \<in> set rows. a_resource r = resource)"
  proof (rule Cons.IH)
    have "pos \<notin> fst ` set entries" using Cons.prems(1) by (simp add: x)
    then show "\<forall>(p, e') \<in> set entries. \<forall>r \<in> set (t_acl ?db). a_resource r = resource \<longrightarrow> a_position r \<noteq> p"
      using Cons.prems(2) by (auto simp: rev_image_eqI)
  qed (use Cons.prems in \<open>auto simp: x\<close>)
  then obtain rows n where
    "tx_each (\<lambda>(pos, e). tx_bind (insert_acl_entry resource pos e) (\<lambda>_. tx_return ())) entries ?db =
      Inr ((), ?db\<lparr>t_acl := t_acl ?db @ rows, t_acl_seq := n\<rparr>)"
    "map (\<lambda>r. (a_position r, a_ace r)) rows = entries" "\<forall>r \<in> set rows. a_resource r = resource" by blast
  then show ?case using ins
    by (intro exI [of _ "?row # rows"] exI [of _ n]) (simp add: x tx_bind_Inr tx_return_Inr)
qed

lemma replace_acl_entries_passes:
  assumes ok: "\<forall>(pos, e) \<in> set entries. \<not> reject_agent_principal e \<and> pred_option (known_user db) (ace_user_id e) \<and>
       pred_option (known_group db) (ace_group_id e) \<and> scope_ok db resource e"
    and d: "distinct (map fst entries)" and s: "sorted (map fst entries)"
  shows "\<exists>acl n. replace_acl_entries resource entries db = (Inr (), db\<lparr>t_acl := acl, t_acl_seq := n\<rparr>) \<and>
    (\<forall>path. acl_table_of (db\<lparr>t_acl := acl, t_acl_seq := n\<rparr>) path =
       (if path = resource then map snd entries else acl_table_of db path))"
proof -
  let ?kept = "filter (\<lambda>r. a_resource r \<noteq> resource) (t_acl db)"
  let ?db = "db\<lparr>t_acl := ?kept\<rparr>"
  have "tx_each (\<lambda>(_, e). check_entry_scope resource e) entries db = Inr ((), db)"
    using ok by (induction entries) (auto simp: tx_return_def tx_bind_def check_entry_scope_passes)
  moreover have "\<exists>rows n. tx_each (\<lambda>(pos, e). tx_bind (insert_acl_entry resource pos e) (\<lambda>_. tx_return ())) entries ?db =
      Inr ((), ?db\<lparr>t_acl := t_acl ?db @ rows, t_acl_seq := n\<rparr>) \<and>
    map (\<lambda>r. (a_position r, a_ace r)) rows = entries \<and> (\<forall>r \<in> set rows. a_resource r = resource)"
    by (rule insert_entries_pass [OF d]) (use ok in auto)
  then obtain rows n where
    ins: "tx_each (\<lambda>(pos, e). tx_bind (insert_acl_entry resource pos e) (\<lambda>_. tx_return ())) entries ?db =
      Inr ((), ?db\<lparr>t_acl := t_acl ?db @ rows, t_acl_seq := n\<rparr>)"
    and rows: "map (\<lambda>r. (a_position r, a_ace r)) rows = entries" "\<forall>r \<in> set rows. a_resource r = resource" by blast
  ultimately have "replace_acl_entries resource entries db = (Inr (), db\<lparr>t_acl := ?kept @ rows, t_acl_seq := n\<rparr>)"
    using ok by (auto simp: replace_acl_entries_def list_ex_iff transaction_def tx_bind_def delete_resource_rows_def)
  moreover have "map a_position rows = map fst entries" "map a_ace rows = map snd entries"
    using rows(1) by auto
  then have "acl_table_of (db\<lparr>t_acl := ?kept @ rows, t_acl_seq := n\<rparr>) path =
      (if path = resource then map snd entries else acl_table_of db path)" for path
  proof -
    have "filter (\<lambda>r. a_resource r = path) rows = (if path = resource then rows else [])"
      using rows(2) by (auto simp: filter_id_conv filter_empty_conv)
    moreover have "filter (\<lambda>r. a_resource r = path) ?kept =
        (if path = resource then [] else filter (\<lambda>r. a_resource r = path) (t_acl db))"
      by (auto simp: filter_empty_conv intro!: filter_cong)
    ultimately show ?thesis
      using s \<open>map a_position rows = _\<close> \<open>map a_ace rows = _\<close>
      by (auto simp: acl_table_of_def get_acl_entries_def sort_key_id_if_sorted)
  qed
  ultimately show ?thesis by blast
qed

lemma renumber_simps [simp]:
  "map fst (renumber rows) = map int [0..<length rows]" "map snd (renumber rows) = map a_ace rows"
  by (simp_all add: renumber_def)

lemma sorted_map_int_upt [simp]: "sorted (map int [0..<n])"
  by (simp add: sorted_iff_nth_mono)

lemma remove_principals_passes:
  assumes "acl_db_ok db"
  shows "\<exists>acl n. remove_principals wid predicate db = (Inr (), db\<lparr>t_acl := acl, t_acl_seq := n\<rparr>) \<and>
    (\<forall>path. acl_table_of (db\<lparr>t_acl := acl, t_acl_seq := n\<rparr>) path =
       (if path = workspace_path wid then filter (\<lambda>e. \<not> predicate e) (acl_table_of db path) else acl_table_of db path))"
proof -
  let ?rows = "filter (\<lambda>r. \<not> predicate (a_ace r)) (get_acl_entries db (workspace_path wid))"
  have "row_ok db r \<and> a_resource r = workspace_path wid" if "(pos, a_ace r) \<in> set (renumber ?rows)" "r \<in> set ?rows" for pos r
    using assms that by (auto simp: get_acl_entries_set acl_db_ok_def list_all_iff)
  moreover have "\<exists>r \<in> set ?rows. e = a_ace r" if "(pos, e) \<in> set (renumber ?rows)" for pos e
    using set_zip_rightD [OF that [unfolded renumber_def]] by auto
  ultimately have "\<forall>(pos, e) \<in> set (renumber ?rows). \<not> reject_agent_principal e \<and>
      pred_option (known_user db) (ace_user_id e) \<and> pred_option (known_group db) (ace_group_id e) \<and>
      scope_ok db (workspace_path wid) e"
    by (fastforce simp: row_ok_def)
  from replace_acl_entries_passes [OF this] obtain acl n where
    "replace_acl_entries (workspace_path wid) (renumber ?rows) db = (Inr (), db\<lparr>t_acl := acl, t_acl_seq := n\<rparr>)"
    "\<forall>path. acl_table_of (db\<lparr>t_acl := acl, t_acl_seq := n\<rparr>) path =
       (if path = workspace_path wid then map a_ace ?rows else acl_table_of db path)"
    by (auto simp: distinct_map)
  moreover have "map a_ace ?rows = filter (\<lambda>e. \<not> predicate e) (acl_table_of db (workspace_path wid))"
    by (simp add: acl_table_of_def filter_map comp_def)
  ultimately show ?thesis
    by (intro exI [of _ acl] exI [of _ n]) (simp add: remove_principals_def rewrite_without_def Let_def)
qed

lemma permitted_emit [simp]: "permitted (emit_effects effects db) = permitted db"
  by (simp add: permitted_def fun_eq_iff emit_effects_def acl_table_of_def [abs_def] get_acl_entries_def get_user_group_ids_def [abs_def])

lemma acl_table_of_emit [simp]: "acl_table_of (emit_effects effects db) = acl_table_of db"
  by (simp add: emit_effects_def acl_table_of_def fun_eq_iff get_acl_entries_def)

lemma acl_db_ok_emit [simp]: "acl_db_ok (emit_effects effects db) = acl_db_ok db"
  by (simp add: emit_effects_def acl_db_ok_unfold)

lemma add_workspace_member_Inr:
  assumes "add_workspace_member wid caller identifier db = (Inr member, db')"
  obtains db1 where "permitted db caller ''share-workspace'' (workspace_path wid)" "member \<noteq> caller"
    "add_principal_entries (workspace_path wid) MEMBER_SHARE_PERMISSIONS PRINCIPAL_USER (Some member) None db = (Inr True, db1)"
    "db' = emit_effects [Workspaces_Changed caller, Workspaces_Changed member, Share_Event wid ''workspace.member.add''] db1"
  using assms
  by (auto simp: add_workspace_member_def split: if_splits option.splits prod.splits sum.splits)

text \<open>
  (C33) Removing a member undoes adding them. In any state the writes can reach, a caller who shares a
  workspace with somebody who has no user entry there, and then removes them, is never refused the
  second request, and every permission check in the system answers as it did before the share.
\<close>

theorem member_share_round_trip:
  assumes "acl_step\<^sup>*\<^sup>* empty_db db"
    and "add_workspace_member wid caller identifier db = (Inr member, db1)"
    and "\<forall>e \<in> set (acl_table_of db (workspace_path wid)). \<not> is_member_entry member e"
  shows "\<exists>db2. remove_workspace_member wid caller member db1 = (Inr (), db2) \<and>
    acl_table_of db2 = acl_table_of db \<and> t_members db2 = t_members db \<and> t_groups db2 = t_groups db \<and>
    check_permission (acl_table_of db2) res (get_principals (get_user_group_ids db2) who) perm =
      check_permission (acl_table_of db) res (get_principals (get_user_group_ids db) who) perm"
proof -
  from add_workspace_member_Inr [OF assms(2)] obtain db0 where
    p: "permitted db caller ''share-workspace'' (workspace_path wid)" "member \<noteq> caller"
    and run: "add_principal_entries (workspace_path wid) MEMBER_SHARE_PERMISSIONS PRINCIPAL_USER (Some member) None db = (Inr True, db0)"
    and db1: "db1 = emit_effects [Workspaces_Changed caller, Workspaces_Changed member, Share_Event wid ''workspace.member.add''] db0" .
  have ok: "acl_db_ok db" using acl_runs.reachable_inv [OF assms(1)] by simp
  then have ok1: "acl_db_ok db1" using add_principal_entries_ok [OF ok] run db1 by (metis acl_db_ok_emit snd_conv)
  obtain rows n where db0: "db0 = db\<lparr>t_acl := t_acl db @ rows, t_acl_seq := n\<rparr>"
    using add_principal_entries_True [OF run] by blast
  have "permitted db1 caller ''share-workspace'' (workspace_path wid)"
  proof -
    have "get_user_group_ids db0 = get_user_group_ids db" by (simp add: db0 get_user_group_ids_def fun_eq_iff)
    moreover have "\<not> share_applies (get_principals g caller) PRINCIPAL_USER (Some member) None" for g
      using p(2) by (simp add: share_applies_def share_ace_def ace_matches_principals_def get_principals_def)
    ultimately show ?thesis using p(1) walk_unshared [OF run]
      by (simp add: db1 permitted_def has_permission_def Let_def)
  qed
  moreover obtain acl k where
    rm: "remove_principals wid (is_member_entry member) db1 = (Inr (), db1\<lparr>t_acl := acl, t_acl_seq := k\<rparr>)"
    and tab: "\<forall>path. acl_table_of (db1\<lparr>t_acl := acl, t_acl_seq := k\<rparr>) path =
       (if path = workspace_path wid then filter (\<lambda>e. \<not> is_member_entry member e) (acl_table_of db1 path)
        else acl_table_of db1 path)"
    using remove_principals_passes [OF ok1] by blast
  let ?db2 = "emit_effects [Workspaces_Changed caller, Workspaces_Changed member, Share_Event wid ''workspace.member.remove'']
    (db1\<lparr>t_acl := acl, t_acl_seq := k\<rparr>)"
  have "acl_table_of db1 = acl_table_of db0" by (simp add: db1)
  then have "acl_table_of ?db2 path = acl_table_of db path" for path
    using assms(3) by (simp add: tab shared_table [OF run] filter_id_conv filter_empty_conv is_member_entry_def share_ace_def)
  then have "acl_table_of ?db2 = acl_table_of db" by blast
  moreover have "t_members ?db2 = t_members db" "t_groups ?db2 = t_groups db" by (simp_all add: emit_effects_def db1 db0)
  moreover from this have "get_user_group_ids ?db2 = get_user_group_ids db" by (simp add: get_user_group_ids_def fun_eq_iff)
  ultimately show ?thesis using rm
    by (intro exI [of _ ?db2]) (simp add: remove_workspace_member_def)
qed

lemma seeded_ancestors: "resource_ancestors ''/workspaces/w'' = Some [''/workspaces/w'', ''/workspaces'', ''/'']"
  by (subst resource_ancestors.simps, simp add: path_parent_def rsplit1_def,
      subst resource_ancestors.simps, simp add: path_parent_def rsplit1_def,
      subst resource_ancestors.simps, simp)

lemma seeded_table:
  "acl_table_of seeded_db path =
     (if path = ''/workspaces/w''
      then [share_ace PRINCIPAL_USER (Some ''u1'') None ''*'', share_ace PRINCIPAL_GROUP None (Some ''g1'') ''view''] else [])"
  by (simp add: seeded_db_tables acl_table_of_def get_acl_entries_def)

lemma seeded_permitted: "permitted seeded_db ''u1'' perm (workspace_path ''w'')"
  by (simp add: permitted_def has_permission_def workspace_path_def check_permission_walk_decision seeded_ancestors
      seeded_table share_ace_def ace_matches_principals_def ace_decision_def get_principals_def)

lemma seeded_share: "\<exists>db'. add_workspace_member ''w'' ''u1'' ''b@x'' seeded_db = (Inr ''u2'', db')"
proof -
  have "get_user_by_identifier seeded_db ''b@x'' = Some \<lparr>u_id = ''u2'', u_email = ''b@x'', u_handle = ''b''\<rparr>"
    by (simp add: get_user_by_identifier_def seeded_db_tables)
  moreover have "\<exists>db'. add_principal_entries (workspace_path ''w'') MEMBER_SHARE_PERMISSIONS PRINCIPAL_USER (Some ''u2'') None seeded_db
      = (Inr True, db')"
    by (simp add: MEMBER_SHARE_PERMISSIONS_def workspace_path_def seeded_db_tables share_eval Let_def)
  ultimately show ?thesis using seeded_permitted by (auto simp: add_workspace_member_def)
qed

theorem member_share_round_trip_witness:
  "\<exists>db1 db2. add_workspace_member ''w'' ''u1'' ''b@x'' seeded_db = (Inr ''u2'', db1) \<and>
     remove_workspace_member ''w'' ''u1'' ''u2'' db1 = (Inr (), db2) \<and> acl_table_of db2 = acl_table_of seeded_db"
proof -
  obtain db1 where run: "add_workspace_member ''w'' ''u1'' ''b@x'' seeded_db = (Inr ''u2'', db1)"
    using seeded_share by blast
  moreover have "\<forall>e \<in> set (acl_table_of seeded_db (workspace_path ''w'')). \<not> is_member_entry ''u2'' e"
    by (simp add: seeded_table workspace_path_def is_member_entry_def share_ace_def)
  ultimately show ?thesis using member_share_round_trip [OF seeded_db_reachable run] by blast
qed


section \<open>A new workspace\<close>

definition role_aces :: "(string \<times> string list) list \<Rightarrow> string list \<Rightarrow> ace list" where
  "role_aces roles gids =
     concat (map (\<lambda>((_, perms), gid). map (share_ace PRINCIPAL_GROUP None (Some gid)) perms) (zip roles gids))"

definition role_members :: "string \<Rightarrow> (string \<times> string list) list \<Rightarrow> string list \<Rightarrow> (string \<times> string) list" where
  "role_members uid roles gids =
     concat (map (\<lambda>((suffix, _), gid). if suffix = OWNER_ROLE then [(uid, gid)] else []) (zip roles gids))"

lemma seed_role_groups_Inr:
  assumes "seed_role_groups wid uid pos roles gids db = Inr (a, db')" "acl_db_ok db" "uid \<noteq> SYSTEM_AGENT_ID"
    "\<forall>(suffix, perms) \<in> set roles. CHR ''-'' \<notin> set suffix"
  shows "\<exists>rows gs ms n. db' = db\<lparr>t_groups := t_groups db @ gs, t_members := t_members db @ ms,
       t_acl := t_acl db @ rows, t_acl_seq := n\<rparr> \<and>
    block_rows rows (workspace_path wid) pos (role_aces roles gids) \<and>
    map (\<lambda>g. (g_name g, g_id g)) gs = map (\<lambda>((suffix, _), gid). (role_group_name suffix wid, gid)) (zip roles gids) \<and>
    map (\<lambda>m. (m_user m, m_group m)) ms = role_members uid roles gids"
  using assms
proof (induction wid uid pos roles gids arbitrary: db rule: seed_role_groups.induct)
  case (1 wid uid pos suffix perms roles gid gids)
  let ?g = "\<lparr>g_id = gid, g_name = role_group_name suffix wid,
      g_description = Some (''Workspace role group: '' @ suffix), g_source = GROUP_SOURCE_WORKSPACE_ROLE\<rparr>"
  from "1.prems"(1) obtain db1 b db2 c db3 where
    s1: "insert_group ?g db = Inr ((), db1)" and
    s2: "insert_block (workspace_path wid) pos (share_ace PRINCIPAL_GROUP None (Some gid)) perms db1 = Inr (b, db2)" and
    s3: "(if suffix = OWNER_ROLE then insert_membership uid gid ''manual'' else tx_return ()) db2 = Inr (c, db3)" and
    s4: "seed_role_groups wid uid (pos + int (length perms)) roles gids db3 = Inr (a, db')"
    unfolding seed_role_groups.simps tx_bind_Inr by auto
  have d1: "db1 = db\<lparr>t_groups := t_groups db @ [?g]\<rparr>" and fresh: "gid \<notin> g_id ` set (t_groups db)"
    using s1 by (auto simp: insert_group_def split: if_splits)
  obtain rows1 n1 where d2: "db2 = db1\<lparr>t_acl := t_acl db1 @ rows1, t_acl_seq := n1\<rparr>"
    and r1: "block_rows rows1 (workspace_path wid) pos (map (share_ace PRINCIPAL_GROUP None (Some gid)) perms)"
    using insert_block_Inr [OF s2] by blast
  have "(uid, gid) \<notin> (\<lambda>m. (m_user m, m_group m)) ` set (t_members db)"
    using "1.prems"(2) fresh by (auto simp: acl_db_ok_def list_all_iff member_ok_def known_group_def)
  then obtain ms1 where d3: "db3 = db2\<lparr>t_members := t_members db2 @ ms1\<rparr>"
    and m1: "map (\<lambda>m. (m_user m, m_group m)) ms1 = (if suffix = OWNER_ROLE then [(uid, gid)] else [])"
    using s3 "1.prems"(3)
    by (auto simp: insert_membership_def d1 d2 tx_return_def split: if_splits)
  have ok3: "acl_db_ok db3"
  proof -
    have kept: "tx_meets acl_db_ok (seed_role_groups wid uid pos [(suffix, perms)] [gid]) (\<lambda>_. acl_db_ok)"
      by (rule seed_role_groups_meets) (use "1.prems"(4) in auto)
    have "seed_role_groups wid uid pos [(suffix, perms)] [gid] db = Inr ((), db3)"
      using s1 s2 s3 by (auto simp: tx_bind_Inr tx_return_Inr)
    from tx_meetsD [OF kept "1.prems"(2) this] show ?thesis .
  qed
  from "1.IH" [OF s4 ok3 "1.prems"(3)] "1.prems"(4) obtain rows gs ms n where
    d: "db' = db3\<lparr>t_groups := t_groups db3 @ gs, t_members := t_members db3 @ ms, t_acl := t_acl db3 @ rows, t_acl_seq := n\<rparr>"
    and r: "block_rows rows (workspace_path wid) (pos + int (length perms)) (role_aces roles gids)"
    and g: "map (\<lambda>g. (g_name g, g_id g)) gs = map (\<lambda>((suffix, _), gid). (role_group_name suffix wid, gid)) (zip roles gids)"
    and m: "map (\<lambda>m. (m_user m, m_group m)) ms = role_members uid roles gids" by auto
  have "block_rows (rows1 @ rows) (workspace_path wid) pos (role_aces ((suffix, perms) # roles) (gid # gids))"
    using block_rows_append [OF r1, of rows "role_aces roles gids"] r by (simp add: role_aces_def)
  moreover have "map (\<lambda>m. (m_user m, m_group m)) (ms1 @ ms) = role_members uid ((suffix, perms) # roles) (gid # gids)"
    using m m1 by (simp add: role_members_def)
  ultimately show ?case using g
    by (intro exI [of _ "rows1 @ rows"] exI [of _ "?g # gs"] exI [of _ "ms1 @ ms"] exI [of _ n])
      (simp add: d d3 d2 d1)
qed (auto simp: tx_return_Inr role_aces_def role_members_def block_rows_def
    intro!: exI [of _ "[]"] exI [of _ "t_acl_seq db'"])

lemma group_decision:
  assumes "distinct [g1, g2, g3, g4]" "uid \<noteq> []" "gid \<in> {g1, g2, g3, g4}"
  shows "entries_decision \<lparr>user_id = [], group_ids = [gid], authenticated = True\<rparr> perm
      (share_ace PRINCIPAL_USER (Some uid) None ''*'' # role_aces [(r1, p1), (r2, p2), (r3, p3), (r4, p4)] [g1, g2, g3, g4]) =
    (let perms = (if gid = g1 then p1 else if gid = g2 then p2 else if gid = g3 then p3 else p4)
     in if perm \<in> set perms \<or> ''*'' \<in> set perms then Some True else None)"
proof -
  let ?pr = "\<lparr>user_id = [], group_ids = [gid], authenticated = True\<rparr>"
  have "share_applies ?pr PRINCIPAL_GROUP None (Some g) \<longleftrightarrow> g = gid" for g
    by (simp add: share_applies_def share_ace_def ace_matches_principals_def)
  moreover have "\<not> ace_matches_principals (share_ace PRINCIPAL_USER (Some uid) None p) ?pr" for p
    using assms(2) by (simp add: share_ace_def ace_matches_principals_def)
  ultimately show ?thesis using assms
    by (auto simp: role_aces_def entries_decision_append share_block_decision Let_def)
qed

lemma workspace_ancestors: "\<exists>rest. resource_ancestors (workspace_path wid) = Some (workspace_path wid # rest)"
proof -
  obtain paths where "resource_ancestors (workspace_path wid) = Some paths"
    using resource_ancestors_returns [of "workspace_path wid"] by (auto simp: workspace_path_def)
  with resource_ancestors_shape [OF this] show ?thesis by (cases paths) auto
qed

lemma walk_no_entries: "(\<And>p. p \<in> set paths \<Longrightarrow> table p = []) \<Longrightarrow> \<not> walk_decision pr perm table paths"
  by (induction paths) auto

lemma ancestors_shorter:
  assumes "resource_ancestors path = Some (path # rest)" "hd path = CHR ''/''" "path \<noteq> []"
  shows "path \<notin> set rest"
proof
  assume "path \<in> set rest"
  have shape: "\<forall>i. Suc i < length (path # rest) \<longrightarrow> (path # rest) ! Suc i = path_parent ((path # rest) ! i)"
    using resource_ancestors_shape [OF assms(1)] by blast
  have abs: "i < length (path # rest) \<Longrightarrow> (path # rest) ! i \<noteq> [] \<and> hd ((path # rest) ! i) = CHR ''/'' \<and>
      length ((path # rest) ! i) \<le> length path \<and> (0 < i \<longrightarrow> length ((path # rest) ! i) < length path \<or> path = ''/'')" for i
  proof (induction i)
    case (Suc i)
    let ?p = "(path # rest) ! i"
    from Suc shape have next': "(path # rest) ! Suc i = path_parent ?p" by simp
    show ?case
    proof (cases "?p = ''/''")
      case True
      then have "(path # rest) ! Suc i = ''/''" using next' by (simp add: path_parent_def rsplit1_def)
      then show ?thesis using Suc True assms(2,3) by (cases path) (auto simp: Suc_le_eq)
    next
      case False
      then show ?thesis using path_parent_shape(1-3) [OF False] Suc next' by fastforce
    qed
  qed (use assms in simp)
  have "path \<noteq> ''/''"
    using assms(1) \<open>path \<in> set rest\<close> by (auto simp: resource_ancestors.simps [of "''/''"])
  moreover from \<open>path \<in> set rest\<close> obtain i where "i < length rest" "rest ! i = path" by (auto simp: in_set_conv_nth)
  ultimately show False using abs [of "Suc i"] by simp
qed

lemma node_only_check:
  assumes "node = workspace_path wid"
  shows "check_permission_inmemory node pr perm (get_acl_entries_map table [node]) =
    Some (case entries_decision pr perm (table node) of Some d \<Rightarrow> d | None \<Rightarrow> False)"
proof -
  obtain rest where rest: "resource_ancestors node = Some (node # rest)" using workspace_ancestors assms by blast
  then have "node \<notin> set rest" using ancestors_shorter [OF rest] assms by (simp add: workspace_path_def)
  then have "\<not> walk_decision pr perm (get_acl_entries_map table [node]) rest"
    by (intro walk_no_entries) (auto simp: get_acl_entries_map_def)
  then show ?thesis
    by (simp add: check_permission_inmemory_def rest get_acl_entries_map_def split: option.splits)
qed

lemma create_workspace_Inr:
  assumes "create_workspace_with_acl uid name wid gids db = (Inr w, db')" "acl_db_ok db"
  shows "\<exists>rows gs ms n. db' = db\<lparr>t_workspaces := t_workspaces db @ [\<lparr>w_id = wid, w_owner = uid, w_name = name\<rparr>],
       t_groups := t_groups db @ gs, t_members := t_members db @ ms, t_acl := t_acl db @ rows, t_acl_seq := n\<rparr> \<and>
    block_rows rows (workspace_path wid) 0
      (share_ace PRINCIPAL_USER (Some uid) None ''*'' # role_aces ROLE_GROUP_PERMISSIONS gids) \<and>
    map (\<lambda>g. (g_name g, g_id g)) gs =
      map (\<lambda>((suffix, _), gid). (role_group_name suffix wid, gid)) (zip ROLE_GROUP_PERMISSIONS gids) \<and>
    map (\<lambda>m. (m_user m, m_group m)) ms = role_members uid ROLE_GROUP_PERMISSIONS gids"
proof -
  from assms(1) obtain a db1 i db2 where agent: "uid \<noteq> SYSTEM_AGENT_ID" and
    s1: "insert_workspace_row wid uid name db = Inr (a, db1)" and
    s2: "insert_acl_entry (workspace_path wid) 0 (share_ace PRINCIPAL_USER (Some uid) None ''*'') db1 = Inr (i, db2)" and
    s3: "seed_role_groups wid uid 1 ROLE_GROUP_PERMISSIONS gids db2 = Inr ((), db')"
    by (auto simp: create_workspace_with_acl_def transaction_Inr seed_workspace_acl_def tx_bind_Inr tx_return_Inr
        split: if_splits)
  have d1: "db1 = db\<lparr>t_workspaces := t_workspaces db @ [\<lparr>w_id = wid, w_owner = uid, w_name = name\<rparr>]\<rparr>"
    using s1 by (auto simp: insert_workspace_row_def split: if_splits)
  have ok1: "acl_db_ok db1" using tx_meetsD [OF insert_workspace_row_meets assms(2) s1] .
  moreover have "scope_ok db1 (workspace_path wid) (share_ace PRINCIPAL_USER (Some uid) None ''*'')"
    by (simp add: scope_ok_def share_ace_def)
  ultimately have ok2: "acl_db_ok db2"
    using tx_meetsD [OF insert_acl_entry_meets [of _ _ "t_groups db1"] _ s2] by blast
  have dash: "\<forall>(suffix, perms) \<in> set ROLE_GROUP_PERMISSIONS. CHR ''-'' \<notin> set suffix"
    by (simp add: ROLE_GROUP_PERMISSIONS_def)
  let ?row = "\<lparr>a_id = i, a_resource = workspace_path wid, a_position = 0,
    a_ace = share_ace PRINCIPAL_USER (Some uid) None ''*''\<rparr>"
  from seed_role_groups_Inr [OF s3 ok2 agent dash] obtain rows gs ms n where
    d: "db' = db2\<lparr>t_groups := t_groups db2 @ gs, t_members := t_members db2 @ ms, t_acl := t_acl db2 @ rows, t_acl_seq := n\<rparr>"
    and r: "block_rows rows (workspace_path wid) 1 (role_aces ROLE_GROUP_PERMISSIONS gids)"
    and g: "map (\<lambda>g. (g_name g, g_id g)) gs =
      map (\<lambda>((suffix, _), gid). (role_group_name suffix wid, gid)) (zip ROLE_GROUP_PERMISSIONS gids)"
    and m: "map (\<lambda>m. (m_user m, m_group m)) ms = role_members uid ROLE_GROUP_PERMISSIONS gids" by blast
  have "block_rows ([?row] @ rows) (workspace_path wid) 0
      ([share_ace PRINCIPAL_USER (Some uid) None ''*''] @ role_aces ROLE_GROUP_PERMISSIONS gids)"
    by (rule block_rows_append) (use r in \<open>simp_all add: block_rows_def\<close>)
  then show ?thesis using g m insert_acl_entry_Inr(1) [OF s2]
    by (intro exI [of _ "?row # rows"] exI [of _ gs] exI [of _ ms] exI [of _ n]) (simp add: d d1)
qed

lemma created_table:
  assumes "create_workspace_with_acl uid name wid gids db = (Inr w, db')" "acl_db_ok db"
    "get_acl_entries db (workspace_path wid) = []"
  shows "acl_table_of db' (workspace_path wid) =
    share_ace PRINCIPAL_USER (Some uid) None ''*'' # role_aces ROLE_GROUP_PERMISSIONS gids"
proof -
  from create_workspace_Inr [OF assms(1,2)] obtain rows gs ms n where
    d: "db' = db\<lparr>t_workspaces := t_workspaces db @ [\<lparr>w_id = wid, w_owner = uid, w_name = name\<rparr>],
       t_groups := t_groups db @ gs, t_members := t_members db @ ms, t_acl := t_acl db @ rows, t_acl_seq := n\<rparr>"
    and r: "block_rows rows (workspace_path wid) 0
      (share_ace PRINCIPAL_USER (Some uid) None ''*'' # role_aces ROLE_GROUP_PERMISSIONS gids)" by blast
  let ?db = "db\<lparr>t_acl := t_acl db @ rows, t_acl_seq := n\<rparr>"
  have "acl_table_of db' = acl_table_of ?db"
    by (simp add: d acl_table_of_def get_acl_entries_def fun_eq_iff)
  then show ?thesis
    using get_acl_entries_append [OF r, of db n "workspace_path wid"] assms(3) r
    by (simp add: acl_table_of_def block_rows_def)
qed

lemma created_members:
  assumes "acl_db_ok db" "gid \<notin> g_id ` set (t_groups db)"
  shows "filter (\<lambda>m. m_group m = gid) (t_members db @ ms) = filter (\<lambda>m. m_group m = gid) ms"
  using assms by (auto simp: acl_db_ok_def list_all_iff member_ok_def known_group_def filter_empty_conv)

lemma filter_by_key: "distinct (map f xs) \<Longrightarrow> x \<in> set xs \<Longrightarrow> filter (\<lambda>y. f y = f x) xs = [x]"
  by (induction xs) (auto simp: filter_empty_conv rev_image_eqI)

lemma concat_map_if: "concat (map (\<lambda>x. if P x then [f x] else []) xs) = map f (filter P xs)"
  by (induction xs) auto

lemma group_members_single:
  assumes "distinct (map u_id (t_users db))" "uid \<in> u_id ` set (t_users db)"
  shows "filter (\<lambda>m. m_group m = gid) (t_members db) = [m1] \<Longrightarrow> m_user m1 = uid \<Longrightarrow>
      map fst (get_group_members db gid) = [uid]"
    and "filter (\<lambda>m. m_group m = gid) (t_members db) = [] \<Longrightarrow> map fst (get_group_members db gid) = []"
proof -
  have split: "filter (\<lambda>m. m_user m = i \<and> m_group m = gid) ms = filter (\<lambda>m. m_user m = i) (filter (\<lambda>m. m_group m = gid) ms)" for i ms
    by (simp add: conj_commute)
  obtain u where u: "u \<in> set (t_users db)" "u_id u = uid" using assms(2) by blast
  have "filter (\<lambda>v. u_id v = uid) (t_users db) = [u]"
    using filter_by_key [OF assms(1) u(1)] u(2) by simp
  then have pick: "concat (map (\<lambda>v. if u_id v = uid then [(v, m1)] else []) (t_users db)) = [(u, m1)]"
    by (simp add: concat_map_if)
  show "map fst (get_group_members db gid) = [uid]"
    if "filter (\<lambda>m. m_group m = gid) (t_members db) = [m1]" "m_user m1 = uid"
  proof -
    have sel: "map (Pair v) (filter (\<lambda>m. m_user m = u_id v) [m1]) = (if u_id v = uid then [(v, m1)] else [])" for v
      using that(2) by auto
    show ?thesis unfolding get_group_members_def split that(1) sel pick by (simp add: u(2))
  qed
  show "map fst (get_group_members db gid) = []" if "filter (\<lambda>m. m_group m = gid) (t_members db) = []"
  proof -
    have none: "concat (map (\<lambda>u. []) us) = []" for us :: "member_account list" by (induction us) auto
    show ?thesis unfolding get_group_members_def split that by (simp add: none)
  qed
qed

lemma role_permissions:
  assumes "table node = share_ace PRINCIPAL_USER (Some uid) None ''*'' #
      role_aces [(r1, p1), (r2, p2), (r3, p3), (r4, p4)] [g1, g2, g3, g4]"
    and "node = workspace_path wid" "distinct [g1, g2, g3, g4]" "uid \<noteq> []" "gid \<in> {g1, g2, g3, g4}"
  shows "group_effective_permissions node gid (get_acl_entries_map table [node]) =
    (let perms = (if gid = g1 then p1 else if gid = g2 then p2 else if gid = g3 then p3 else p4)
     in filter (\<lambda>p. p \<in> set perms \<or> ''*'' \<in> set perms) ALL_PERMISSIONS)"
  unfolding group_effective_permissions_def Let_def node_only_check [OF assms(2)] assms(1)
    group_decision [OF assms(3,4,5)]
  by (intro filter_cong) auto

lemma created_groups:
  assumes "create_workspace_with_acl uid name wid [g1, g2, g3, g4] db = (Inr w, db')" "acl_db_ok db"
  shows "distinct [g1, g2, g3, g4]"
    and "\<exists>h. get_group_by_name db' (role_group_name ''owners'' wid) = Some h \<and> g_id h = g1"
    and "\<exists>h. get_group_by_name db' (role_group_name ''coders'' wid) = Some h \<and> g_id h = g2"
    and "\<exists>h. get_group_by_name db' (role_group_name ''collaborators'' wid) = Some h \<and> g_id h = g3"
    and "\<exists>h. get_group_by_name db' (role_group_name ''spectators'' wid) = Some h \<and> g_id h = g4"
    and "gid \<in> {g1, g2, g3, g4} \<Longrightarrow> map fst (get_group_members db' gid) = (if gid = g1 then [uid] else [])"
proof -
  have ok': "acl_db_ok db'" using create_workspace_with_acl_ok [OF assms(2), of uid name wid "[g1, g2, g3, g4]"] assms(1) by simp
  obtain rows gs ms n where
    d: "db' = db\<lparr>t_workspaces := t_workspaces db @ [\<lparr>w_id = wid, w_owner = uid, w_name = name\<rparr>],
       t_groups := t_groups db @ gs, t_members := t_members db @ ms, t_acl := t_acl db @ rows, t_acl_seq := n\<rparr>"
    and g: "map (\<lambda>g. (g_name g, g_id g)) gs =
      map (\<lambda>((suffix, _), gid). (role_group_name suffix wid, gid)) (zip ROLE_GROUP_PERMISSIONS [g1, g2, g3, g4])"
    and m: "map (\<lambda>m. (m_user m, m_group m)) ms = role_members uid ROLE_GROUP_PERMISSIONS [g1, g2, g3, g4]"
    using create_workspace_Inr [OF assms] by blast
  have keys: "distinct (map g_id (t_groups db'))" "distinct (map g_name (t_groups db'))"
    using ok' by (simp_all add: acl_db_ok_def keys_ok_def)
  have "map snd (map (\<lambda>g. (g_name g, g_id g)) gs) = [g1, g2, g3, g4]" unfolding g by (simp add: ROLE_GROUP_PERMISSIONS_def)
  then have ids: "map g_id gs = [g1, g2, g3, g4]" by (simp add: comp_def)
  then have all: "distinct (map g_id (t_groups db) @ [g1, g2, g3, g4])" using keys(1) by (simp add: d)
  then show "distinct [g1, g2, g3, g4]" unfolding distinct_append by blast
  have found: "\<exists>h. get_group_by_name db' name = Some h \<and> g_id h = i" if "(name, i) \<in> set (map (\<lambda>g. (g_name g, g_id g)) gs)" for name i
    using that find_by_key [OF keys(2)] by (auto simp: d get_group_by_name_def)
  show "\<exists>h. get_group_by_name db' (role_group_name ''owners'' wid) = Some h \<and> g_id h = g1"
    "\<exists>h. get_group_by_name db' (role_group_name ''coders'' wid) = Some h \<and> g_id h = g2"
    "\<exists>h. get_group_by_name db' (role_group_name ''collaborators'' wid) = Some h \<and> g_id h = g3"
    "\<exists>h. get_group_by_name db' (role_group_name ''spectators'' wid) = Some h \<and> g_id h = g4"
    by (rule found; simp only: g; simp add: ROLE_GROUP_PERMISSIONS_def)+
  obtain m1 where m1: "ms = [m1]" "m_user m1 = uid" "m_group m1 = g1"
    using m by (auto simp: role_members_def ROLE_GROUP_PERMISSIONS_def OWNER_ROLE_def)
  then have "acl_db_ok db'" "m1 \<in> set (t_members db')" using ok' by (simp_all add: d)
  then have "known_user db' uid" using m1 by (auto simp: acl_db_ok_def list_all_iff member_ok_def)
  then have users: "distinct (map u_id (t_users db'))" "uid \<in> u_id ` set (t_users db')"
    using ok' by (simp_all add: acl_db_ok_def keys_ok_def known_user_def)
  show "map fst (get_group_members db' gid) = (if gid = g1 then [uid] else [])" if "gid \<in> {g1, g2, g3, g4}"
  proof -
    have "gid \<notin> g_id ` set (t_groups db)" using all that by auto
    then have "filter (\<lambda>m. m_group m = gid) (t_members db') = (if gid = g1 then [m1] else [])"
      using created_members [OF assms(2), of gid ms] m1 by (simp add: d)
    then show ?thesis using group_members_single(1) [OF users, of gid m1] group_members_single(2) [OF users, of gid] m1(2)
      by (simp split: if_splits)
  qed
qed

text \<open>
  (C34) A new workspace starts with the roles the table lists. When the creation succeeds in a state the
  writes can reach, on a resource that has no entries yet: the owner passes every check on the workspace;
  and the role listing shows the four role groups with the identifiers drawn for them, the owner alone in
  \<open>owners\<close> and nobody in the others, and as effective permissions exactly those the role table grants,
  with the wildcard expanded to the whole vocabulary.
\<close>

theorem created_workspace_roles:
  assumes "acl_step\<^sup>*\<^sup>* empty_db db" "uid \<noteq> []" "get_acl_entries db (workspace_path wid) = []"
    and "create_workspace_with_acl uid name wid [g1, g2, g3, g4] db = (Inr w, db')"
  shows "check_permission (acl_table_of db') (workspace_path wid) (get_principals groups uid) perm = Some True \<and>
    map (\<lambda>(suffix, gid, name, members, perms). (suffix, gid, map fst members, perms)) (workspace_roles wid db') =
      map (\<lambda>((suffix, perms), gid). (suffix, gid, if suffix = OWNER_ROLE then [uid] else [],
             filter (\<lambda>p. p \<in> set perms \<or> ''*'' \<in> set perms) ALL_PERMISSIONS))
        (zip ROLE_GROUP_PERMISSIONS [g1, g2, g3, g4])"
proof -
  let ?path = "workspace_path wid" and ?gids = "[g1, g2, g3, g4]"
  have ok: "acl_db_ok db" using acl_runs.reachable_inv [OF assms(1)] by simp
  note table = created_table [OF assms(4) ok assms(3)]
  obtain rest where anc: "resource_ancestors ?path = Some (?path # rest)" using workspace_ancestors by blast
  have "ace_matches_principals (share_ace PRINCIPAL_USER (Some uid) None ''*'') (get_principals groups uid)"
    by (simp add: ace_matches_principals_def share_ace_def get_principals_def)
  then have owner: "check_permission (acl_table_of db') ?path (get_principals groups uid) perm = Some True"
    by (simp add: check_permission_walk_decision anc table ace_decision_def) (simp add: share_ace_def)
  obtain p1 p2 p3 p4 where roles: "ROLE_GROUP_PERMISSIONS =
      [(''owners'', p1), (''coders'', p2), (''collaborators'', p3), (''spectators'', p4)]"
    by (simp add: ROLE_GROUP_PERMISSIONS_def)
  note created = created_groups [OF assms(4) ok]
  from created(2-5) obtain h1 h2 h3 h4 where groups:
    "get_group_by_name db' (role_group_name ''owners'' wid) = Some h1" "g_id h1 = g1"
    "get_group_by_name db' (role_group_name ''coders'' wid) = Some h2" "g_id h2 = g2"
    "get_group_by_name db' (role_group_name ''collaborators'' wid) = Some h3" "g_id h3 = g3"
    "get_group_by_name db' (role_group_name ''spectators'' wid) = Some h4" "g_id h4 = g4" by blast
  let ?listed = "\<lambda>gid perms. group_effective_permissions ?path gid (get_acl_entries_map (acl_table_of db') [?path]) =
      filter (\<lambda>p. p \<in> set perms \<or> ''*'' \<in> set perms) ALL_PERMISSIONS \<and>
    map fst (get_group_members db' gid) = (if gid = g1 then [uid] else [])"
  note perms = role_permissions [where table = "acl_table_of db'" and node = ?path,
      OF table [unfolded roles] refl created(1) assms(2), unfolded Let_def]
  have ne: "g2 \<noteq> g1" "g3 \<noteq> g1" "g3 \<noteq> g2" "g4 \<noteq> g1" "g4 \<noteq> g2" "g4 \<noteq> g3" using created(1) by auto
  have "?listed g1 p1" "?listed g2 p2" "?listed g3 p3" "?listed g4 p4"
    using perms [of g1] perms [of g2] perms [of g3] perms [of g4] created(6) [of g1] created(6) [of g2]
      created(6) [of g3] created(6) [of g4] by (simp_all add: ne)
  then have "map (\<lambda>(suffix, gid, name, members, perms). (suffix, gid, map fst members, perms)) (workspace_roles wid db') =
      map (\<lambda>((suffix, perms), gid). (suffix, gid, if suffix = OWNER_ROLE then [uid] else [],
             filter (\<lambda>p. p \<in> set perms \<or> ''*'' \<in> set perms) ALL_PERMISSIONS)) (zip ROLE_GROUP_PERMISSIONS ?gids)"
    using ne groups
    by (simp add: workspace_roles_def ROLE_GROUP_SUFFIXES_def OWNER_ROLE_def roles Let_def)
  with owner show ?thesis by blast
qed

lemma sample_creation: "\<exists>db'. create_workspace_with_acl ''u1'' ''n'' ''v'' [''a'', ''b'', ''c'', ''d''] seeded_db = (Inr ''v'', db')"
proof -
  have "fst (create_workspace_with_acl ''u1'' ''n'' ''v'' [''a'', ''b'', ''c'', ''d''] seeded_db) = Inr ''v''"
    by code_simp
  then show ?thesis by (metis prod.collapse)
qed

theorem created_workspace_roles_witness:
  "\<exists>db'. create_workspace_with_acl ''u1'' ''n'' ''v'' [''a'', ''b'', ''c'', ''d''] seeded_db = (Inr ''v'', db') \<and>
     check_permission (acl_table_of db') (workspace_path ''v'') (get_principals (\<lambda>_. []) ''u1'') ''edit-workspace'' = Some True \<and>
     map (\<lambda>(suffix, gid, name, members, perms). (suffix, gid, map fst members, perms)) (workspace_roles ''v'' db') ! 3 =
       (''spectators'', ''d'', [], [''monitor-workspace'', ''join-workspace'', ''terminal'', ''spectate-on-shared-terminals''])"
proof -
  obtain db' where run: "create_workspace_with_acl ''u1'' ''n'' ''v'' [''a'', ''b'', ''c'', ''d''] seeded_db = (Inr ''v'', db')"
    using sample_creation by blast
  have "get_acl_entries seeded_db (workspace_path ''v'') = []"
    by (simp add: seeded_db_tables get_acl_entries_def workspace_path_def)
  from created_workspace_roles [OF seeded_db_reachable _ this run, of "\<lambda>_. []" "''edit-workspace''"] run
  show ?thesis by (simp add: ROLE_GROUP_PERMISSIONS_def ALL_PERMISSIONS_def OWNER_ROLE_def)
qed


section \<open>Ownership\<close>

lemma transfer_Inr:
  assumes "transfer_workspace wid new db = (Inr True, db')"
  shows "\<exists>w. find (\<lambda>w. w_id w = wid) (t_workspaces db) = Some w \<and> w_owner w \<noteq> new \<and>
    t_workspaces db' = map (\<lambda>w. if w_id w = wid then w\<lparr>w_owner := new\<rparr> else w) (t_workspaces db) \<and>
    t_acl db' = map (\<lambda>r. if a_resource r = workspace_path wid \<and> a_position r = 0 \<and> principal_type (a_ace r) = PRINCIPAL_USER
                       then r\<lparr>a_ace := (a_ace r)\<lparr>ace_user_id := Some new\<rparr>\<rparr> else r) (t_acl db)"
proof -
  from assms obtain w db1 where w: "find (\<lambda>w. w_id w = wid) (t_workspaces db) = Some w" "w_owner w \<noteq> new"
    and s1: "move_owner wid new db = Inr ((), db1)"
    and s2: "swap_owners_group wid (w_owner w) new db1 = Inr ((), db')"
    by (auto simp: transfer_workspace_def transaction_Inr tx_bind_Inr tx_return_Inr tx_raise_def split: if_splits option.splits)
  have "t_workspaces db' = t_workspaces db1 \<and> t_acl db' = t_acl db1"
    using s2 by (auto simp: swap_owners_group_def tx_return_Inr insert_membership_def delete_membership_def
        split: option.splits if_splits)
  moreover have "t_workspaces db1 = map (\<lambda>w. if w_id w = wid then w\<lparr>w_owner := new\<rparr> else w) (t_workspaces db) \<and>
    t_acl db1 = map (\<lambda>r. if a_resource r = workspace_path wid \<and> a_position r = 0 \<and> principal_type (a_ace r) = PRINCIPAL_USER
                       then r\<lparr>a_ace := (a_ace r)\<lparr>ace_user_id := Some new\<rparr>\<rparr> else r) (t_acl db)"
    using s1 by (auto simp: move_owner_def split: if_splits)
  ultimately show ?thesis using w by auto
qed

lemma transferred_entries:
  assumes "transfer_workspace wid new db = (Inr True, db')"
  shows "get_acl_entries db' (workspace_path wid) =
    map (\<lambda>r. if a_position r = 0 \<and> principal_type (a_ace r) = PRINCIPAL_USER
             then r\<lparr>a_ace := (a_ace r)\<lparr>ace_user_id := Some new\<rparr>\<rparr> else r) (get_acl_entries db (workspace_path wid))"
proof -
  let ?f = "\<lambda>r. if a_resource r = workspace_path wid \<and> a_position r = 0 \<and> principal_type (a_ace r) = PRINCIPAL_USER
      then r\<lparr>a_ace := (a_ace r)\<lparr>ace_user_id := Some new\<rparr>\<rparr> else r"
  let ?here = "\<lambda>r. a_resource r = workspace_path wid"
  have acl: "t_acl db' = map ?f (t_acl db)" using transfer_Inr [OF assms] by blast
  have here: "filter ?here (map ?f rows) = map ?f (filter ?here rows)" for rows by (induction rows) auto
  have "get_acl_entries db' (workspace_path wid) = sort_key a_position (map ?f (filter ?here (t_acl db)))"
    unfolding get_acl_entries_def acl here ..
  also have "\<dots> = map ?f (get_acl_entries db (workspace_path wid))"
    unfolding get_acl_entries_def by (rule sort_key_map) simp
  finally show ?thesis by (simp add: get_acl_entries_set)
qed

text \<open>
  A transfer hands over the first entry. When the first entry of the workspace is the user entry at
  position 0, a successful transfer makes the target the owner of the row and the principal of that
  entry, whatever the entry says and whomever it named; the entries after it are unchanged. With the
  seeded owner entry there the new owner passes every check on the workspace.
\<close>

lemma transfer_moves_first_entry:
  assumes "acl_step\<^sup>*\<^sup>* empty_db db" "transfer_workspace wid new db = (Inr True, db')"
    and "get_acl_entries db (workspace_path wid) = r # rs" "a_position r = 0"
    and "principal_type (a_ace r) = PRINCIPAL_USER"
  shows "acl_table_of db' (workspace_path wid) = (a_ace r)\<lparr>ace_user_id := Some new\<rparr> # map a_ace rs"
    and "permission (a_ace r) = ''*'' \<Longrightarrow>
      check_permission (acl_table_of db') (workspace_path wid) (get_principals groups new) perm =
        Some (action (a_ace r) = ACTION_ALLOW)"
proof -
  have "acl_db_ok db" using acl_runs.reachable_inv [OF assms(1)] by simp
  then have "distinct (map a_position (get_acl_entries db (workspace_path wid)))"
    by (auto simp: acl_db_ok_def keys_ok_def distinct_map get_acl_entries_def inj_on_def)
  then have "\<forall>x \<in> set rs. a_position x \<noteq> 0" using assms(3,4) by auto
  then show tab: "acl_table_of db' (workspace_path wid) = (a_ace r)\<lparr>ace_user_id := Some new\<rparr> # map a_ace rs"
    using assms(3-5) by (simp add: acl_table_of_def transferred_entries [OF assms(2)])
  obtain rest where "resource_ancestors (workspace_path wid) = Some (workspace_path wid # rest)"
    using workspace_ancestors by blast
  then show "check_permission (acl_table_of db') (workspace_path wid) (get_principals groups new) perm =
        Some (action (a_ace r) = ACTION_ALLOW)" if "permission (a_ace r) = ''*''"
    using assms(5) that
    by (simp add: check_permission_walk_decision tab ace_matches_principals_def get_principals_def ace_decision_def)
qed


section \<open>Writes that go wrong\<close>

text \<open>
  The rewrite of a removal replaces the list it read. A share that commits between the two is dropped:
  the resource ends with the entries read before the share, less those removed.
\<close>

lemma stale_rewrite_drops_share:
  assumes "acl_step\<^sup>*\<^sup>* empty_db db"
    and "add_principal_entries resource perms ptype uid gid db = (Inr True, db')"
  shows "\<exists>db''. rewrite_without resource predicate (get_acl_entries db resource) db' = (Inr (), db'') \<and>
    acl_table_of db'' resource = filter (\<lambda>e. \<not> predicate e) (acl_table_of db resource)"
proof -
  let ?rows = "filter (\<lambda>r. \<not> predicate (a_ace r)) (get_acl_entries db resource)"
  have ok: "acl_db_ok db" using acl_runs.reachable_inv [OF assms(1)] by simp
  obtain rows n where d: "db' = db\<lparr>t_acl := t_acl db @ rows, t_acl_seq := n\<rparr>"
    using add_principal_entries_True [OF assms(2)] by blast
  have "\<exists>r \<in> set ?rows. e = a_ace r" if "(pos, e) \<in> set (renumber ?rows)" for pos e
    using set_zip_rightD [OF that [unfolded renumber_def]] by auto
  then have "\<forall>(pos, e) \<in> set (renumber ?rows). \<not> reject_agent_principal e \<and>
      pred_option (known_user db') (ace_user_id e) \<and> pred_option (known_group db') (ace_group_id e) \<and>
      scope_ok db' resource e"
    using ok by (fastforce simp: d acl_db_ok_def list_all_iff row_ok_def get_acl_entries_set)
  from replace_acl_entries_passes [OF this] obtain acl k where
    "replace_acl_entries resource (renumber ?rows) db' = (Inr (), db'\<lparr>t_acl := acl, t_acl_seq := k\<rparr>)"
    "acl_table_of (db'\<lparr>t_acl := acl, t_acl_seq := k\<rparr>) resource = map a_ace ?rows"
    by (auto simp: distinct_map)
  then show ?thesis by (simp add: rewrite_without_def acl_table_of_def filter_map comp_def)
qed

text \<open>
  A role change that cannot find the target group has already taken the user's other roles away.
\<close>

lemma role_change_keeps_removals:
  assumes "permitted_all db caller ROLE_WRITE_GATE (workspace_path wid)" "\<not> step_up_refused db stepped_up caller wid"
    and "get_user_by_identifier db identifier = Some target" "role \<in> set ROLE_GROUP_SUFFIXES"
    and "get_group_by_name (remove_from_all_roles wid (u_id target) db) (role_group_name role wid) = None"
  shows "change_workspace_role wid caller stepped_up identifier (Some role) db =
    (Inl (Http_Status 404), remove_from_all_roles wid (u_id target) db)"
  using assms by (simp add: change_workspace_role_def add_to_role_def Let_def)

text \<open>
  Deleting a user removes the workspaces they own and leaves the role groups of those workspaces, with
  the entries that grant to them.
\<close>

lemma deleted_owner_leaves_role_groups:
  assumes "uid \<noteq> SYSTEM_AGENT_ID" "find_workspace db wid = Some w" "w_owner w = uid" "acl_db_ok db"
  shows "find_workspace (snd (delete_user uid db)) wid = None"
    and "get_workspace_role_groups (snd (delete_user uid db)) wid = get_workspace_role_groups db wid"
    and "filter (\<lambda>e. principal_type e = PRINCIPAL_GROUP \<and> ace_user_id e = None) (acl_table_of (snd (delete_user uid db)) path) =
      filter (\<lambda>e. principal_type e = PRINCIPAL_GROUP \<and> ace_user_id e = None) (acl_table_of db path)"
proof -
  let ?db = "snd (delete_user uid db)"
  have tabs: "t_workspaces ?db = filter (\<lambda>w. w_owner w \<noteq> uid) (t_workspaces db)" "t_groups ?db = t_groups db"
    "t_acl ?db = filter (\<lambda>r. ace_user_id (a_ace r) \<noteq> Some uid) (t_acl db)"
    using assms(1) by (simp_all add: delete_user_def transaction_def)
  have "w \<in> set (t_workspaces db)" "w_id w = wid" using assms(2) by (auto simp: find_workspace_def find_Some_iff)
  moreover have "inj_on w_id (set (t_workspaces db))" using assms(4) by (simp add: acl_db_ok_def keys_ok_def distinct_map)
  ultimately have "v = w" if "v \<in> set (t_workspaces db)" "w_id v = wid" for v
    using that by (auto dest: inj_onD)
  then show "find_workspace ?db wid = None" using assms(3) by (auto simp: find_workspace_def find_None_iff tabs)
  show "get_workspace_role_groups ?db wid = get_workspace_role_groups db wid"
    by (simp add: get_workspace_role_groups_def tabs)
  let ?P = "\<lambda>r. principal_type (a_ace r) = PRINCIPAL_GROUP \<and> ace_user_id (a_ace r) = None"
  have "filter ?P (sort_key a_position (filter (\<lambda>r. a_resource r = path) (filter (\<lambda>r. ace_user_id (a_ace r) \<noteq> Some uid) rows))) =
      filter ?P (sort_key a_position (filter (\<lambda>r. a_resource r = path) rows))" for rows
    by (simp only: filter_sort filter_filter) (metis (no_types, lifting) option.distinct(1))
  from this [of "t_acl db"]
  show "filter (\<lambda>e. principal_type e = PRINCIPAL_GROUP \<and> ace_user_id e = None) (acl_table_of ?db path) =
      filter (\<lambda>e. principal_type e = PRINCIPAL_GROUP \<and> ace_user_id e = None) (acl_table_of db path)"
    by (simp add: acl_table_of_def get_acl_entries_def filter_map comp_def tabs)
qed

text \<open>
  The guard on the root list asks for an entry that lets signed-in users view, not that it is reached.
\<close>

lemma root_guard_accepts_lockout:
  "\<exists>entries. validate_root_acl entries ''/'' \<and> entries_decision pr ''view'' entries = Some False"
proof -
  let ?deny = "\<lparr>action = ACTION_DENY, principal_type = PRINCIPAL_SYSTEM, ace_user_id = None, ace_group_id = None,
      system_principal = Some SYSTEM_EVERYONE, permission = ''*''\<rparr>"
  let ?view = "\<lparr>action = ACTION_ALLOW, principal_type = PRINCIPAL_SYSTEM, ace_user_id = None, ace_group_id = None,
      system_principal = Some SYSTEM_AUTHENTICATED, permission = ''view''\<rparr>"
  show ?thesis
    by (rule exI [of _ "[?deny, ?view]"])
      (simp add: validate_root_acl_def auth_view_entry_def ace_matches_principals_def matches_system_principal_def
        ace_decision_def)
qed


section \<open>The routes keep the invariant\<close>

lemma remove_from_roles_ok: "acl_db_ok db \<Longrightarrow> acl_db_ok (remove_from_roles suffixes wid uid db)"
  by (induction suffixes arbitrary: db) (auto simp: remove_user_from_group_ok split: option.split)

lemma outcome_ok:
  assumes "acl_db_ok (snd out)" "out = (res, db')"
  shows "acl_db_ok db'"
  using assms by simp

lemmas committed_ok =
  add_principal_entries_ok [THEN outcome_ok] replace_acl_entries_ok [THEN outcome_ok]
  add_user_to_group_ok [THEN outcome_ok] transfer_workspace_ok [THEN outcome_ok] delete_group_ok [THEN outcome_ok]

lemma remove_principals_ok: "acl_db_ok db \<Longrightarrow> acl_db_ok (snd (remove_principals wid predicate db))"
  by (simp add: remove_principals_def rewrite_without_def Let_def replace_acl_entries_ok)

lemma share_routes_ok:
  assumes "acl_db_ok db"
  shows "acl_db_ok (snd (add_workspace_member wid caller identifier db))"
    and "acl_db_ok (snd (remove_workspace_member wid caller member db))"
    and "acl_db_ok (snd (add_workspace_group wid caller gid db))"
    and "acl_db_ok (snd (remove_workspace_group wid caller gid db))"
  using assms remove_principals_ok [OF assms, of wid "is_member_entry member"]
    remove_principals_ok [OF assms, of wid "is_group_entry gid"]
  by (auto simp: add_workspace_member_def remove_workspace_member_def add_workspace_group_def
      remove_workspace_group_def split: option.split prod.split sum.split dest: committed_ok)

lemma role_routes_ok:
  assumes "acl_db_ok db"
  shows "acl_db_ok (snd (add_to_workspace_role wid caller stepped_up role identifier db))"
    and "acl_db_ok (snd (remove_from_workspace_role wid caller stepped_up role member db))"
    and "acl_db_ok (snd (change_workspace_role wid caller stepped_up identifier role' db))"
proof -
  show "acl_db_ok (snd (add_to_workspace_role wid caller stepped_up role identifier db))"
    using assms by (auto simp: add_to_workspace_role_def role_event_def split: option.split prod.split sum.split dest: committed_ok)
  show "acl_db_ok (snd (remove_from_workspace_role wid caller stepped_up role member db))"
    using assms by (auto simp: remove_from_workspace_role_def role_event_def remove_user_from_group_ok split: option.split)
  have removed: "acl_db_ok (remove_from_all_roles wid uid db)" for uid
    using assms by (simp add: remove_from_all_roles_def remove_from_roles_ok)
  have "acl_db_ok db'" if "add_to_role wid uid r (remove_from_all_roles wid uid db) = (res, db')" for uid r res db'
    using that removed [of uid] by (auto simp: add_to_role_def split: option.splits dest: committed_ok)
  then show "acl_db_ok (snd (change_workspace_role wid caller stepped_up identifier role' db))"
    using assms removed
    by (auto simp: change_workspace_role_def role_event_def Let_def split: option.split prod.split sum.split)
qed

lemma owner_routes_ok:
  assumes "acl_db_ok db"
  shows "acl_db_ok (snd (replace_workspace_acl wid caller stepped_up entries db))"
    and "acl_db_ok (snd (replace_resource_acl resource caller stepped_up entries db))"
    and "acl_db_ok (snd (delete_group_route gid caller stepped_up db))"
    and "acl_db_ok (snd (transfer_workspace_ownership wid caller stepped_up identifier db))"
proof -
  show "acl_db_ok (snd (replace_workspace_acl wid caller stepped_up entries db))"
    using assms by (auto simp: replace_workspace_acl_def Let_def split: prod.split sum.split dest: committed_ok)
  show "acl_db_ok (snd (replace_resource_acl resource caller stepped_up entries db))"
    using assms by (auto simp: replace_resource_acl_def split: prod.split sum.split dest: committed_ok)
  show "acl_db_ok (snd (delete_group_route gid caller stepped_up db))"
    using assms
    by (auto simp: delete_group_route_def delete_acl_entries_for_resource_ok split: prod.split sum.split dest: committed_ok)
  show "acl_db_ok (snd (transfer_workspace_ownership wid caller stepped_up identifier db))"
    using assms
    by (auto simp: transfer_workspace_ownership_def role_event_def split: option.split prod.split sum.split share_error.split
        dest: committed_ok)
qed

lemma workspace_scope_path:
  assumes "CHR ''/'' \<notin> set wid" "wid \<noteq> []"
  shows "workspace_scope (workspace_path wid) = Some (workspace_path wid)"
proof -
  have "dropWhile (\<lambda>c. c = CHR ''/'') (rev wid @ rev ''workspaces/'') = rev wid @ rev ''workspaces/''"
    using assms by (cases "rev wid") (auto simp: rev_eq_Cons_iff)
  then have "strip_slashes (workspace_path wid) = ''workspaces'' @ CHR ''/'' # wid"
    by (simp add: strip_slashes_def workspace_path_def)
  then have "split_on CHR ''/'' (strip_slashes (workspace_path wid)) = [''workspaces'', wid]"
    using assms by (simp add: split_on_sep_free)
  then show ?thesis using assms by (simp add: workspace_scope_def Let_def workspace_path_def)
qed

text \<open>
  A raw rewrite of a workspace's entries always carries the workspace's own grant, through whichever of
  the two routes, and the step-up unless the caller owns the workspace.
\<close>

lemma raw_rewrite_needs_grant:
  assumes "CHR ''/'' \<notin> set wid" "wid \<noteq> []"
  shows "fst (replace_resource_acl (workspace_path wid) caller stepped_up entries db) = Inr out \<Longrightarrow>
      permitted db caller ''share-advanced'' (workspace_path wid) \<and> permitted db caller ''manage-acls'' ''/acl'' \<and> stepped_up"
    and "fst (replace_workspace_acl wid caller stepped_up entries db) = Inr out \<Longrightarrow>
      permitted db caller ''share-advanced'' (workspace_path wid) \<and>
      (stepped_up \<or> find_workspace db wid = None \<or> map_option w_owner (find_workspace db wid) = Some caller)"
  by (auto simp: replace_resource_acl_def replace_workspace_acl_def workspace_scope_path [OF assms] step_up_refused_def
      Let_def split: if_splits option.splits)

end
