(* ===== verification/Packets.thy ===== *)
theory Packets
  imports Prelude
begin

text \<open>
  \<open>klangksidecar/packets.py\<close>: reading the addresses, ports and sequence number of a queued IPv4
  packet, the RFC 1071 checksum, and the forged RST that makes a denied \<open>connect()\<close> fail at once.
  Bytes are \<^typ>\<open>byte\<close>s; the reads the source makes are guarded by its own length checks, so an
  index is never out of range. A function that may raise returns an option.
\<close>

section \<open>Reading a queued packet\<close>

definition ethernet_offset :: "byte list \<Rightarrow> nat" where
  "ethernet_offset payload =
     (if 14 < length payload \<and> drop_bit 4 (payload ! 0) \<noteq> 4 \<and> drop_bit 4 (payload ! 14) = 4
      then 14 else 0)"

definition ipv4_offsets :: "byte list \<Rightarrow> (nat \<times> nat) option" where
  "ipv4_offsets payload =
     (let off = ethernet_offset payload
      in if length payload < off + 20 \<or> drop_bit 4 (payload ! off) \<noteq> 4 then None
         else (let ihl = unat (payload ! off AND 0x0F) * 4
               in if ihl < 20 \<or> length payload < off + ihl then None else Some (off, ihl)))"

text \<open>\<open>".".join(str(b) for b in bs)\<close>\<close>

definition dotted :: "byte list \<Rightarrow> string" where
  "dotted bs = join_with CHR ''.'' (map (\<lambda>b. str_nat (unat b)) bs)"

definition parse_dest :: "byte list \<Rightarrow> string \<times> nat" where
  "parse_dest payload =
     (case ipv4_offsets payload of
        None \<Rightarrow> ([], 0)
      | Some (off, ihl) \<Rightarrow>
          (let proto = payload ! (off + 9);
               dst = dotted (py_slice (off + 16) (off + 20) payload);
               port = (if (proto = 6 \<or> proto = 17) \<and> off + ihl + 4 \<le> length payload
                       then from_bytes_big (py_slice (off + ihl + 2) (off + ihl + 4) payload)
                       else 0)
           in (dst, port)))"

type_synonym syn_tuple = "string \<times> nat \<times> string \<times> nat \<times> nat"

definition syn_tuple_at :: "byte list \<Rightarrow> nat \<Rightarrow> nat \<Rightarrow> syn_tuple" where
  "syn_tuple_at payload off ihl =
     (let l4 = off + ihl
      in (dotted (py_slice (off + 12) (off + 16) payload),
          from_bytes_big (py_slice l4 (l4 + 2) payload),
          dotted (py_slice (off + 16) (off + 20) payload),
          from_bytes_big (py_slice (l4 + 2) (l4 + 4) payload),
          from_bytes_big (py_slice (l4 + 4) (l4 + 8) payload)))"

definition parse_syn_tuple :: "byte list \<Rightarrow> syn_tuple" where
  "parse_syn_tuple payload =
     (case ipv4_offsets payload of
        None \<Rightarrow> ([], 0, [], 0, 0)
      | Some (off, ihl) \<Rightarrow>
          (if payload ! (off + 9) \<noteq> 6 then ([], 0, [], 0, 0)
           else if length payload < off + ihl + 12 then ([], 0, [], 0, 0)
           else syn_tuple_at payload off ihl))"


section \<open>The checksum\<close>

text \<open>The \<open>for\<close> loop over the 16-bit words and the \<open>while s >> 16\<close> loop.\<close>

fun sum_words :: "nat \<Rightarrow> byte list \<Rightarrow> nat" where
  "sum_words s [] = s"
| "sum_words s [a] = s + from_bytes_big [a]"
| "sum_words s (a # b # bs) = sum_words (s + from_bytes_big [a, b]) bs"

lemma and_mask16: "(s :: nat) AND 0xFFFF = s mod 65536"
  using take_bit_eq_mask [of 16 s] by (simp add: take_bit_eq_mod mask_eq_exp_minus_1)

lemma drop16: "drop_bit 16 (s :: nat) = s div 65536"
  by (simp add: drop_bit_eq_div)

function fold_carry :: "nat \<Rightarrow> nat" where
  "fold_carry s =
     (if drop_bit 16 s \<noteq> 0 then fold_carry ((s AND 0xFFFF) + drop_bit 16 s) else s)"
  by pat_completeness auto
termination
proof (relation "measure id")
  fix s :: nat
  assume "drop_bit 16 s \<noteq> 0"
  then have "0 < s div 65536" by (simp add: drop16)
  moreover have "s = 65536 * (s div 65536) + s mod 65536" by simp
  ultimately have "s mod 65536 + s div 65536 < s" by linarith
  then show "((s AND 0xFFFF) + drop_bit 16 s, s) \<in> measure id"
    by (simp add: drop16 and_mask16)
qed simp

declare fold_carry.simps [simp del]

lemma fold_carry_small [simp, py_eval]: "s < 65536 \<Longrightarrow> fold_carry s = s"
  by (simp add: fold_carry.simps [of s] drop16)

lemma fold_carry_step [py_eval]:
  "65536 \<le> s \<Longrightarrow> fold_carry s = fold_carry (s mod 65536 + s div 65536)"
  by (subst fold_carry.simps) (simp add: drop16 and_mask16 div_eq_0_iff)

definition ones_checksum :: "byte list \<Rightarrow> nat" where
  "ones_checksum data =
     (let data = (if odd (length data) then data @ [0] else data);
          s = fold_carry (sum_words 0 data)
      in nat (NOT (int s) AND 0xFFFF))"


section \<open>Forging the RST\<close>

text \<open>
  \<open>socket.inet_aton\<close> on four-part decimal addresses; \<^term>\<open>None\<close> is the \<open>OSError\<close>. The other
  spellings the C library reads never reach it: every address packed below was printed by
  \<^const>\<open>dotted\<close>.
\<close>

definition inet_aton :: "string \<Rightarrow> byte list option" where
  "inet_aton s =
     (let ps = split_on CHR ''.'' s
      in if length ps = 4 \<and> list_all (\<lambda>p. p = str_nat (int_of_digits p) \<and> int_of_digits p < 256) ps
         then Some (map (\<lambda>p. word_of_nat (int_of_digits p)) ps) else None)"

text \<open>The \<open>!B\<close>, \<open>!H\<close> and \<open>!I\<close> codes of \<open>struct.pack\<close>; \<^term>\<open>None\<close> is \<open>struct.error\<close>.\<close>

definition pack_be :: "nat \<Rightarrow> nat \<Rightarrow> byte list option" where
  "pack_be k n = (if n < 256 ^ k then Some (to_bytes_big k n) else None)"

abbreviation pack_B :: "nat \<Rightarrow> byte list option" where "pack_B \<equiv> pack_be 1"
abbreviation pack_H :: "nat \<Rightarrow> byte list option" where "pack_H \<equiv> pack_be 2"
abbreviation pack_I :: "nat \<Rightarrow> byte list option" where "pack_I \<equiv> pack_be 4"

fun pack_all :: "byte list option list \<Rightarrow> byte list option" where
  "pack_all [] = Some []"
| "pack_all (p # ps) = do { x \<leftarrow> p; xs \<leftarrow> pack_all ps; Some (x @ xs) }"

definition build_rst_packet ::
  "string \<Rightarrow> nat \<Rightarrow> string \<Rightarrow> nat \<Rightarrow> nat \<Rightarrow> byte list option" where
  "build_rst_packet src_ip src_port dst_ip dst_port seq = do {
     ip_hdr \<leftarrow> pack_all [pack_B 0x45, pack_B 0, pack_H 40, pack_H 0, pack_H 0, pack_B 64,
                        pack_B 6, pack_H 0, inet_aton src_ip, inet_aton dst_ip];
     let doff_flags = (push_bit 12 5 OR 0x14 :: nat);
     tcp_no_cksum \<leftarrow> pack_all [pack_H src_port, pack_H dst_port, pack_I 0,
                               pack_I ((seq + 1) AND 0xFFFFFFFF), pack_H doff_flags,
                               pack_H 0, pack_H 0, pack_H 0];
     pseudo \<leftarrow> pack_all [inet_aton src_ip, inet_aton dst_ip,
                         pack_all [pack_B 0, pack_B 6, pack_H (length tcp_no_cksum)]];
     let cksum = ones_checksum (pseudo @ tcp_no_cksum);
     packed \<leftarrow> pack_H cksum;
     let tcp_hdr = take 16 tcp_no_cksum @ packed @ drop 18 tcp_no_cksum;
     Some (ip_hdr @ tcp_hdr)
   }"

text \<open>
  \<open>send_rst\<close>: the packet and the address given to \<open>sendto\<close>, or \<^term>\<open>None\<close> when nothing is sent
  (no raw socket, an unparseable packet). An error of \<open>sendto\<close> itself is swallowed by the source.
\<close>

definition send_rst :: "bool \<Rightarrow> byte list \<Rightarrow> (byte list \<times> string) option" where
  "send_rst rst_sock payload =
     (if \<not> rst_sock then None
      else (case parse_syn_tuple payload of
              (src_ip, src_port, dst_ip, dst_port, seq) \<Rightarrow>
                (if src_ip = [] \<or> dst_port = 0 then None
                 else map_option (\<lambda>pkt. (pkt, src_ip))
                        (build_rst_packet dst_ip dst_port src_ip src_port seq))))"


section \<open>Lemmas on the checksum\<close>

lemma fold_carry_less: "fold_carry s < 65536"
proof (induction s rule: fold_carry.induct)
  case (1 s)
  then show ?case
    by (cases "s < 65536") (simp_all add: fold_carry_step drop16 and_mask16 div_eq_0_iff)
qed

lemma carry_mod: "(s mod 65536 + s div 65536) mod 65535 = (s :: nat) mod 65535"
proof -
  let ?q = "s div 65536" and ?r = "s mod 65536"
  have "s = 65535 * ?q + (?r + ?q)"
    using mult_div_mod_eq [of 65536 s] by linarith
  then have "s mod 65535 = (65535 * ?q + (?r + ?q)) mod 65535" by (rule arg_cong)
  also have "\<dots> = (?r + ?q) mod 65535" by (rule mod_mult_self4)
  finally show ?thesis by (rule sym)
qed

lemma fold_carry_mod: "fold_carry s mod 65535 = s mod 65535"
proof (induction s rule: fold_carry.induct)
  case (1 s)
  then show ?case
    by (cases "s < 65536")
      (simp_all add: fold_carry_step drop16 and_mask16 div_eq_0_iff carry_mod)
qed

lemma fold_carry_pos: "0 < s \<Longrightarrow> 0 < fold_carry s"
proof (induction s rule: fold_carry.induct)
  case (1 s)
  show ?case
  proof (cases "s < 65536")
    case False
    then have "0 < s mod 65536 + s div 65536" by (simp add: div_greater_zero_iff)
    with 1 False show ?thesis
      by (simp add: fold_carry_step drop16 and_mask16 div_eq_0_iff)
  qed (use 1 in simp)
qed

lemma not_mask16: "s < 65536 \<Longrightarrow> nat (NOT (int s) AND 0xFFFF) = 65535 - s"
proof -
  assume s: "s < 65536"
  have "NOT (int s) AND 0xFFFF = (- int s - 1) mod 65536"
    using take_bit_eq_mask [of 16 "NOT (int s)"]
    by (simp add: take_bit_eq_mod mask_eq_exp_minus_1 not_int_def)
  also have "- int s - 1 = (65535 - int s) + (- 1) * 65536" by simp
  also have "\<dots> mod 65536 = (65535 - int s) mod 65536" by (rule mod_mult_self1)
  also have "\<dots> = 65535 - int s" using s by (intro mod_pos_pos_trivial) auto
  finally show ?thesis using s by simp
qed

definition pad_even :: "byte list \<Rightarrow> byte list" where
  "pad_even data = (if odd (length data) then data @ [0] else data)"

lemma ones_checksum_eq: "ones_checksum data = 65535 - fold_carry (sum_words 0 (pad_even data))"
  by (simp add: ones_checksum_def pad_even_def Let_def not_mask16 fold_carry_less)

lemma sum_words_acc: "sum_words s bs = s + sum_words 0 bs"
proof (induction bs arbitrary: s rule: induct_list012)
  case (3 a b bs)
  from 3(1) [of "s + from_bytes_big [a, b]"] 3(1) [of "from_bytes_big [a, b]"]
  show ?case by simp
qed simp_all

lemma sum_words_append:
  "even (length xs) \<Longrightarrow> sum_words s (xs @ ys) = sum_words s xs + sum_words 0 ys"
proof (induction s xs rule: sum_words.induct)
  case (1 s)
  show ?case by (simp add: sum_words_acc [of s ys])
qed auto


section \<open>Lemmas on addresses and the packet layout\<close>

lemma inet_aton_dotted: "length A = 4 \<Longrightarrow> inet_aton (dotted A) = Some A"
proof -
  assume A: "length A = 4"
  have sp: "split_on CHR ''.'' (dotted A) = map (\<lambda>b. str_nat (unat b)) A"
    unfolding dotted_def using A by (intro split_on_join) auto
  show ?thesis
    using A by (simp add: inet_aton_def sp list_all_iff unat_byte_less comp_def)
qed

lemma dotted_inet_aton:
  assumes "inet_aton s = Some A"
  shows "dotted A = s" and "length A = 4"
proof -
  let ?ps = "split_on CHR ''.'' s"
  from assms have ok: "length ?ps = 4"
      "\<And>p. p \<in> set ?ps \<Longrightarrow> str_nat (int_of_digits p) = p \<and> int_of_digits p < 256"
    and A: "A = map (\<lambda>p. word_of_nat (int_of_digits p)) ?ps"
    by (auto simp: inet_aton_def Let_def list_all_iff split: if_splits)
  then show "length A = 4" by simp
  have "map (\<lambda>b. str_nat (unat b)) A = ?ps"
    unfolding A by (simp add: map_idI ok(2) unat_of_nat)
  then show "dotted A = s" by (simp add: dotted_def join_split_on)
qed

lemma dotted_eq_Nil: "dotted A = [] \<longleftrightarrow> A = []"
  unfolding dotted_def by (cases A; cases "tl A") auto

definition rst_head :: "nat \<Rightarrow> nat \<Rightarrow> nat \<Rightarrow> byte list" where
  "rst_head sp dp seq =
     to_bytes_big 2 sp @ to_bytes_big 2 dp @ [0, 0, 0, 0] @
     to_bytes_big 4 ((seq + 1) mod 2 ^ 32) @ [0x50, 0x14, 0, 0]"

definition rst_layout :: "byte list \<Rightarrow> byte list \<Rightarrow> nat \<Rightarrow> nat \<Rightarrow> nat \<Rightarrow> nat \<Rightarrow> byte list" where
  "rst_layout A B sp dp seq c =
     [0x45, 0, 0, 40, 0, 0, 0, 0, 64, 6, 0, 0] @ A @ B @ rst_head sp dp seq @
     to_bytes_big 2 c @ [0, 0]"

lemma length_rst_head [simp]: "length (rst_head sp dp seq) = 16"
  by (simp add: rst_head_def)

lemma and_mask32: "(n :: nat) AND 0xFFFFFFFF = n mod 2 ^ 32"
  using take_bit_eq_mask [of 32 n] by (simp add: take_bit_eq_mod mask_eq_exp_minus_1)

lemma ones_checksum_less: "ones_checksum data < 65536"
  by (simp add: ones_checksum_eq)

lemma build_rst_packet_layout:
  assumes "inet_aton src = Some A" "inet_aton dst = Some B" "sp < 65536" "dp < 65536"
  shows "build_rst_packet src sp dst dp seq =
    Some (rst_layout A B sp dp seq
      (ones_checksum (A @ B @ [0, 6, 0, 20] @ rst_head sp dp seq @ [0, 0, 0, 0])))"
proof -
  let ?tcp = "rst_head sp dp seq @ [0, 0, 0, 0]"
  let ?ps = "A @ B @ [0, 6, 0, 20]"
  have ip: "pack_all [pack_B 0x45, pack_B 0, pack_H 40, pack_H 0, pack_H 0, pack_B 64, pack_B 6,
      pack_H 0, inet_aton src, inet_aton dst] =
      Some ([0x45, 0, 0, 40, 0, 0, 0, 0, 64, 6, 0, 0] @ A @ B)"
    using assms(1,2) by (simp add: pack_be_def to_bytes_big_numeral)
  have tcp: "pack_all [pack_H sp, pack_H dp, pack_I 0, pack_I ((seq + 1) AND 0xFFFFFFFF),
      pack_H (push_bit 12 5 OR 0x14), pack_H 0, pack_H 0, pack_H 0] = Some ?tcp"
    using assms(3,4)
    by (simp add: pack_be_def and_mask32 rst_head_def to_bytes_big_numeral)
  have pseudo: "pack_all [inet_aton src, inet_aton dst,
      pack_all [pack_B 0, pack_B 6, pack_H (length ?tcp)]] = Some ?ps"
    using assms(1,2) by (simp add: pack_be_def to_bytes_big_numeral)
  have ck: "pack_H (ones_checksum (?ps @ ?tcp)) = Some (to_bytes_big 2 (ones_checksum (?ps @ ?tcp)))"
    using ones_checksum_less by (simp add: pack_be_def)
  show ?thesis
    unfolding build_rst_packet_def Let_def
    by (simp only: ip tcp pseudo ck Option.bind.simps) (simp add: rst_layout_def)
qed

lemma build_rst_packet_SomeD:
  assumes "build_rst_packet src sp dst dp seq = Some pkt"
  obtains A B c where "inet_aton src = Some A" "inet_aton dst = Some B" "sp < 65536" "dp < 65536"
    "pkt = rst_layout A B sp dp seq c"
    "c = ones_checksum (A @ B @ [0, 6, 0, 20] @ rst_head sp dp seq @ [0, 0, 0, 0])"
proof -
  from assms obtain A B where AB: "inet_aton src = Some A" "inet_aton dst = Some B"
      "sp < 65536" "dp < 65536"
    by (auto simp: build_rst_packet_def Let_def pack_be_def split: bind_splits if_splits)
  from build_rst_packet_layout [OF this] assms AB that show thesis by fastforce
qed

lemma ipv4_offsets_SomeD:
  assumes "ipv4_offsets p = Some (off, ihl)"
  shows "off = ethernet_offset p" "20 \<le> ihl" "off + ihl \<le> length p"
  using assms by (auto simp: ipv4_offsets_def Let_def split: if_splits)

lemma parse_syn_tupleE:
  assumes "parse_syn_tuple p = (s, sp, d, dp, q)" and "s \<noteq> [] \<or> d \<noteq> [] \<or> dp \<noteq> 0"
  obtains off ihl where "ipv4_offsets p = Some (off, ihl)" "p ! (off + 9) = 6"
    "20 \<le> ihl" "off + ihl + 12 \<le> length p" "syn_tuple_at p off ihl = (s, sp, d, dp, q)"
  using assms ipv4_offsets_SomeD
  by (fastforce simp: parse_syn_tuple_def split: option.splits if_splits)

lemma syn_tuple_at_bounds:
  assumes "off + ihl + 12 \<le> length p" "20 \<le> ihl"
    and "syn_tuple_at p off ihl = (s, sp, d, dp, q)"
  shows "inet_aton s = Some (py_slice (off + 12) (off + 16) p)"
    and "inet_aton d = Some (py_slice (off + 16) (off + 20) p)"
    and "sp < 65536" and "dp < 65536" and "q < 2 ^ 32"
proof -
  have len: "length (py_slice (off + 12) (off + 16) p) = 4" "length (py_slice (off + 16) (off + 20) p) = 4"
    "length (py_slice (off + ihl) (off + ihl + 2) p) = 2"
    "length (py_slice (off + ihl + 2) (off + ihl + 4) p) = 2"
    "length (py_slice (off + ihl + 4) (off + ihl + 8) p) = 4"
    using assms(1,2) by simp_all
  from assms(3) have eqs: "s = dotted (py_slice (off + 12) (off + 16) p)"
    "d = dotted (py_slice (off + 16) (off + 20) p)"
    "sp = from_bytes_big (py_slice (off + ihl) (off + ihl + 2) p)"
    "dp = from_bytes_big (py_slice (off + ihl + 2) (off + ihl + 4) p)"
    "q = from_bytes_big (py_slice (off + ihl + 4) (off + ihl + 8) p)"
    by (simp_all add: syn_tuple_at_def Let_def)
  show "inet_aton s = Some (py_slice (off + 12) (off + 16) p)"
    "inet_aton d = Some (py_slice (off + 16) (off + 20) p)"
    unfolding eqs using len by (simp_all add: inet_aton_dotted)
  show "sp < 65536" "dp < 65536" "q < 2 ^ 32"
    using from_bytes_big_less [of "py_slice (off + ihl) (off + ihl + 2) p"]
      from_bytes_big_less [of "py_slice (off + ihl + 2) (off + ihl + 4) p"]
      from_bytes_big_less [of "py_slice (off + ihl + 4) (off + ihl + 8) p"]
    unfolding eqs len by simp_all
qed

text \<open>What the reader makes of the forged packet itself.\<close>

lemma ipv4_offsets_rst:
  assumes "length A = 4" "length B = 4"
  shows "ipv4_offsets (rst_layout A B sp dp seq c) = Some (0, 20)"
  using assms by (simp add: ipv4_offsets_def ethernet_offset_def rst_layout_def Let_def)

lemma length_rst_layout [simp]:
  "length A = 4 \<Longrightarrow> length B = 4 \<Longrightarrow> length (rst_layout A B sp dp seq c) = 40"
  by (simp add: rst_layout_def)

lemma rst_layout_slices:
  assumes "length A = 4" "length B = 4"
  shows "py_slice 12 16 (rst_layout A B sp dp seq c) = A"
    and "py_slice 16 20 (rst_layout A B sp dp seq c) = B"
    and "py_slice 20 22 (rst_layout A B sp dp seq c) = to_bytes_big 2 sp"
    and "py_slice 22 24 (rst_layout A B sp dp seq c) = to_bytes_big 2 dp"
    and "py_slice 24 28 (rst_layout A B sp dp seq c) = [0, 0, 0, 0]"
    and "py_slice 28 32 (rst_layout A B sp dp seq c) = to_bytes_big 4 ((seq + 1) mod 2 ^ 32)"
    and "py_slice 32 34 (rst_layout A B sp dp seq c) = [0x50, 0x14]"
    and "py_slice 12 20 (rst_layout A B sp dp seq c) = A @ B"
    and "drop 20 (rst_layout A B sp dp seq c) = rst_head sp dp seq @ to_bytes_big 2 c @ [0, 0]"
    and "rst_layout A B sp dp seq c ! 9 = 6"
  using assms by (simp_all add: rst_layout_def rst_head_def py_slice_def)

lemma parse_syn_tuple_rst:
  assumes "length A = 4" "length B = 4" "sp < 65536" "dp < 65536"
  shows "parse_syn_tuple (rst_layout A B sp dp seq c) = (dotted A, sp, dotted B, dp, 0)"
  using assms
  by (simp add: parse_syn_tuple_def ipv4_offsets_rst rst_layout_slices syn_tuple_at_def Let_def
      from_bytes_big_def [of "[0, 0, 0, 0]"])

lemma fold_carry_complement: "fold_carry (S + (65535 - fold_carry S)) = 65535"
proof -
  let ?t = "S + (65535 - fold_carry S)"
  have le: "fold_carry S \<le> 65535" using fold_carry_less [of S] by simp
  have "?t mod 65535 = (S mod 65535 + (65535 - fold_carry S)) mod 65535"
    by (simp add: mod_add_left_eq)
  also have "\<dots> = (fold_carry S mod 65535 + (65535 - fold_carry S)) mod 65535"
    by (simp add: fold_carry_mod)
  also have "\<dots> = (fold_carry S + (65535 - fold_carry S)) mod 65535" by (rule mod_add_left_eq)
  finally have "fold_carry ?t mod 65535 = 0" using le by (simp add: fold_carry_mod)
  moreover have "0 < ?t" using fold_carry_pos [of S] le by (cases "S = 0") auto
  then have "0 < fold_carry ?t" by (rule fold_carry_pos)
  moreover have "fold_carry ?t < 65536" by (rule fold_carry_less)
  ultimately show ?thesis by (auto simp: mod_eq_0_iff_dvd dest!: dvd_imp_le)
qed

lemma sum_words_two: "sum_words 0 (to_bytes_big 2 c @ [0, 0]) = c mod 65536"
proof -
  obtain a b where ab: "to_bytes_big 2 c = [a, b]"
    by (simp add: to_bytes_big_numeral)
  then have "from_bytes_big [a, b] = c mod 65536"
    using from_to_bytes_big [of 2 c] by simp
  with ab show ?thesis by (simp add: from_bytes_big_def [of "[0, 0]"])
qed


section \<open>Properties\<close>

text \<open>
  The forged RST passes the receiver's RFC 1071 test: the ones-complement checksum over the IPv4
  pseudo-header (the packet's own address fields, protocol 6, TCP length 20) followed by the TCP
  header with the checksum filled in is 0. A wrong checksum would make the kernel discard the RST
  and leave the denied \<open>connect()\<close> hanging.
\<close>

theorem forged_rst_checksum:
  assumes "build_rst_packet src_ip src_port dst_ip dst_port seq = Some pkt"
  shows "ones_checksum (py_slice 12 20 pkt @ [0, 6, 0, 20] @ drop 20 pkt) = 0"
proof -
  from assms obtain A B c where A: "inet_aton src_ip = Some A" and B: "inet_aton dst_ip = Some B"
    and pkt: "pkt = rst_layout A B src_port dst_port seq c"
    and c: "c = ones_checksum (A @ B @ [0, 6, 0, 20] @ rst_head src_port dst_port seq @ [0, 0, 0, 0])"
    by (rule build_rst_packet_SomeD)
  have len: "length A = 4" "length B = 4" using A B dotted_inet_aton(2) by auto
  let ?h = "A @ B @ [0, 6, 0, 20] @ rst_head src_port dst_port seq"
  have even: "even (length ?h)" using len by simp
  have z: "sum_words 0 (?h @ [0, 0, 0, 0]) = sum_words 0 ?h"
    by (subst sum_words_append [OF even]) (simp add: from_bytes_big_def)
  have cc: "c = 65535 - fold_carry (sum_words 0 ?h)"
    using z len c by (simp add: ones_checksum_eq pad_even_def)
  have "sum_words 0 (?h @ to_bytes_big 2 c @ [0, 0]) = sum_words 0 ?h + c"
    by (subst sum_words_append [OF even], subst sum_words_two) (simp add: cc)
  then have "fold_carry (sum_words 0 (?h @ to_bytes_big 2 c @ [0, 0])) = 65535"
    using fold_carry_complement [of "sum_words 0 ?h"] by (simp add: cc)
  then show ?thesis
    using len by (simp add: ones_checksum_eq pad_even_def pkt rst_layout_slices)
qed

text \<open>A 40-byte SYN from \<open>10.0.0.2:50000\<close> to \<open>93.184.216.34:443\<close>, for the witnesses.\<close>

definition example_syn :: "byte list" where
  "example_syn =
     [0x45, 0, 0, 40, 0, 1, 0, 0, 64, 6, 0, 0, 10, 0, 0, 2, 93, 184, 216, 34,
      195, 80, 1, 187, 0, 0, 1, 0, 0, 0, 0, 0, 0x50, 2, 0, 0, 0, 0, 0, 0]"

lemma parse_example_syn:
  "parse_syn_tuple example_syn = (''10.0.0.2'', 50000, ''93.184.216.34'', 443, 256)"
  by (simp add: example_syn_def parse_syn_tuple_def ipv4_offsets_def ethernet_offset_def Let_def
      syn_tuple_at_def py_slice_def dotted_def py_eval)

theorem forged_rst_checksum_witness:
  "\<exists>pkt. build_rst_packet ''93.184.216.34'' 443 ''10.0.0.2'' 50000 256 = Some pkt \<and>
     ones_checksum (py_slice 12 20 pkt @ [0, 6, 0, 20] @ drop 20 pkt) = 0"
proof -
  have "\<exists>pkt. build_rst_packet ''93.184.216.34'' 443 ''10.0.0.2'' 50000 256 = Some pkt"
    by (simp add: build_rst_packet_def pack_be_def inet_aton_def ones_checksum_def py_eval)
  then show ?thesis using forged_rst_checksum by blast
qed

text \<open>
  Whenever the queued packet parses as a TCP SYN with a destination port, \<open>send_rst\<close> sends (it
  never raises) one 40-byte packet to the workspace's own address, and that packet is the SYN's
  mirror image: source and destination swapped, flags RST+ACK, acknowledging the SYN's sequence
  number plus one modulo \<open>2 ^ 32\<close>.
\<close>

theorem forged_rst_mirrors_syn:
  assumes "parse_syn_tuple payload = (src_ip, src_port, dst_ip, dst_port, seq)"
    and "dst_port \<noteq> 0"
  shows "\<exists>pkt. send_rst True payload = Some (pkt, src_ip) \<and> length pkt = 40 \<and>
    parse_syn_tuple pkt = (dst_ip, dst_port, src_ip, src_port, 0) \<and>
    from_bytes_big (py_slice 28 32 pkt) = (seq + 1) mod 2 ^ 32 \<and>
    py_slice 32 34 pkt = [0x50, 0x14]"
proof -
  from assms obtain off ihl where at: "off + ihl + 12 \<le> length payload" "20 \<le> ihl"
      "syn_tuple_at payload off ihl = (src_ip, src_port, dst_ip, dst_port, seq)"
    by (auto elim: parse_syn_tupleE)
  let ?S = "py_slice (off + 12) (off + 16) payload" and ?D = "py_slice (off + 16) (off + 20) payload"
  note b = syn_tuple_at_bounds [OF at]
  have ips: "dotted ?S = src_ip" "dotted ?D = dst_ip" "length ?S = 4" "length ?D = 4"
    using b(1,2) dotted_inet_aton by blast+
  then have ne: "src_ip \<noteq> []" using dotted_eq_Nil [of ?S] by auto
  from build_rst_packet_layout [OF b(2) b(1) b(4) b(3), of seq] obtain c where
    bld: "build_rst_packet dst_ip dst_port src_ip src_port seq =
      Some (rst_layout ?D ?S dst_port src_port seq c)" by blast
  show ?thesis
    using bld ips ne assms b(3,4)
    by (simp add: send_rst_def rst_layout_slices parse_syn_tuple_rst)
qed

theorem forged_rst_mirrors_syn_witness:
  "\<exists>pkt. send_rst True example_syn = Some (pkt, ''10.0.0.2'') \<and> length pkt = 40 \<and>
    parse_syn_tuple pkt = (''93.184.216.34'', 443, ''10.0.0.2'', 50000, 0) \<and>
    from_bytes_big (py_slice 28 32 pkt) = 257 \<and> py_slice 32 34 pkt = [0x50, 0x14]"
  using forged_rst_mirrors_syn [OF parse_example_syn] by simp

text \<open>
  The two readers of a queued packet agree: when the TCP reader finds a connection, the
  destination reader returns the same destination address and port, and both ports fit 16 bits.
\<close>

theorem parse_dest_agrees_with_syn:
  assumes "parse_syn_tuple payload = (src_ip, src_port, dst_ip, dst_port, seq)"
    and "src_ip \<noteq> []"
  shows "parse_dest payload = (dst_ip, dst_port) \<and> src_port < 65536 \<and> dst_port < 65536"
proof -
  from assms obtain off ihl where o: "ipv4_offsets payload = Some (off, ihl)"
      "payload ! (off + 9) = 6" and at: "off + ihl + 12 \<le> length payload" "20 \<le> ihl"
      "syn_tuple_at payload off ihl = (src_ip, src_port, dst_ip, dst_port, seq)"
    by (auto elim: parse_syn_tupleE)
  have "parse_dest payload = (dst_ip, dst_port)"
    using o at by (auto simp: parse_dest_def syn_tuple_at_def Let_def)
  with syn_tuple_at_bounds [OF at] show ?thesis by simp
qed

theorem parse_dest_agrees_with_syn_witness:
  "parse_dest example_syn = (''93.184.216.34'', 443) \<and> (50000 :: nat) < 65536 \<and> (443 :: nat) < 65536"
  using parse_dest_agrees_with_syn [OF parse_example_syn] by simp

end
