(* ===== verification/Sidecar_State.thy ===== *)
theory Sidecar_State
  imports Prelude
begin

text \<open>
  \<open>klangksidecar/config.py\<close> and \<open>klangksidecar/state.py\<close>: the settings read from the environment
  at import, the duration tokens, and the in-process containers every module of the sidecar shares,
  gathered in one record. The kernel's netfilter state is not the sidecar's own: it is the record's
  last field, of an arbitrary type \<open>'k\<close>, changed only by running \<open>iptables\<close> (theory \<open>Rules\<close>).
\<close>

section \<open>Settings\<close>

record config =
  UPSTREAM :: "string \<times> nat"
  LISTEN_PORT :: int
  IPT :: string
  DEBUG :: bool
  MARK :: int
  SWEEP_INTERVAL :: real
  MIN_TTL :: real
  QUEUE_NUM :: int
  CONSENT_URL :: string
  EGRESS_MODE :: string
  HOLD_TIMEOUT :: real
  VERDICT_CACHE_TTL :: real
  ACTIVITY_GATE_S :: real
  CONSENT_REJECT_TTL :: real
  RST_DEBUG :: bool

text \<open>\<open>os.environ.get(name, default)\<close>\<close>

definition environ_get :: "(string \<rightharpoonup> string) \<Rightarrow> string \<Rightarrow> string \<Rightarrow> string" where
  "environ_get env name d = (case env name of None \<Rightarrow> d | Some v \<Rightarrow> v)"

text \<open>
  The module body of \<open>config.py\<close>. The conversions \<open>int()\<close> and \<open>float()\<close> of a string are the
  arguments \<open>to_int\<close> and \<open>to_float\<close>, with \<^term>\<open>None\<close> for the \<open>ValueError\<close> that aborts the import.
\<close>

definition config_from_environ ::
  "(string \<Rightarrow> int option) \<Rightarrow> (string \<Rightarrow> real option) \<Rightarrow> (string \<rightharpoonup> string) \<Rightarrow> config option" where
  "config_from_environ to_int to_float env = do {
     let upstream = (environ_get env ''KLANGKNETWORK_EGRESS_UPSTREAM'' ''8.8.8.8'', 53);
     listen_port \<leftarrow> to_int (environ_get env ''KLANGKNETWORK_EGRESS_LISTEN_PORT'' ''15353'');
     let ipt = environ_get env ''KLANGKNETWORK_IPTABLES'' ''iptables'';
     let debug = (environ_get env ''KLANGKNETWORK_EGRESS_DEBUG'' [] \<noteq> []);
     mark \<leftarrow> to_int (environ_get env ''KLANGKNETWORK_EGRESS_MARK'' ''75'');
     sweep \<leftarrow> to_float (environ_get env ''KLANGKNETWORK_EGRESS_SWEEP_INTERVAL'' ''5'');
     min_ttl \<leftarrow> to_float (environ_get env ''KLANGKNETWORK_EGRESS_MIN_TTL'' ''30'');
     queue \<leftarrow> to_int (environ_get env ''KLANGKNETWORK_EGRESS_NFQUEUE_NUM'' ''5139'');
     let consent_url = environ_get env ''KLANGKNETWORK_EGRESS_CONSENT_URL'' [];
     let mode = environ_get env ''KLANGKNETWORK_EGRESS_MODE'' ''static'';
     hold \<leftarrow> to_float (environ_get env ''KLANGKNETWORK_EGRESS_HOLD_TIMEOUT'' ''120'');
     cache \<leftarrow> to_float (environ_get env ''KLANGKNETWORK_EGRESS_VERDICT_CACHE_TTL'' ''120'');
     gate \<leftarrow> to_float (environ_get env ''KLANGKNETWORK_EGRESS_ACTIVITY_GATE'' ''60'');
     reject \<leftarrow> to_float (environ_get env ''KLANGKNETWORK_EGRESS_REJECT_TTL'' ''10'');
     let rst_debug = (environ_get env ''KLANGKNETWORK_EGRESS_DEBUG_RST'' [] = ''1'');
     Some \<lparr>UPSTREAM = upstream, LISTEN_PORT = listen_port, IPT = ipt, DEBUG = debug, MARK = mark,
       SWEEP_INTERVAL = sweep, MIN_TTL = min_ttl, QUEUE_NUM = queue, CONSENT_URL = consent_url,
       EGRESS_MODE = mode, HOLD_TIMEOUT = hold, VERDICT_CACHE_TTL = cache,
       ACTIVITY_GATE_S = gate, CONSENT_REJECT_TTL = reject, RST_DEBUG = rst_debug\<rparr>
   }"

definition RESOLVING_MODES :: "string set" where
  "RESOLVING_MODES = {''interactive'', ''allow''}"

definition DURATION_SECONDS :: "(string, real) dict" where
  "DURATION_SECONDS =
     [(''5s'', 5), (''5m'', 300), (''15m'', 900), (''1h'', 3600), (''1d'', 86400),
      (''1w'', 604800)]"

definition DURATION_FOREVER :: real where
  "DURATION_FOREVER = 365 * 86400"

definition duration_ttl :: "string \<Rightarrow> real option" where
  "duration_ttl duration =
     (case map_of DURATION_SECONDS duration of
        Some secs \<Rightarrow> Some secs
      | None \<Rightarrow> if duration = ''tilrestart'' \<or> duration = ''forever'' then Some DURATION_FOREVER
                else None)"

lemma duration_ttl_once [simp]: "duration_ttl ''once'' = None"
  by (simp add: duration_ttl_def DURATION_SECONDS_def)

lemma duration_ttl_pos: "duration_ttl d = Some ttl \<Longrightarrow> 0 < ttl"
  by (auto simp: duration_ttl_def DURATION_SECONDS_def DURATION_FOREVER_def split: if_splits)


section \<open>State\<close>

datatype host_mode = EXACT | INCLUSIVE | SUBDOMAINS

text \<open>A spec is \<open>(host, port, mode)\<close>, a session entry adds its expiry; a \<^term>\<open>None\<close> port is all
  ports. A flow is \<open>(src_ip, src_port, dst_ip, dst_port)\<close>.\<close>

type_synonym spec = "string \<times> nat option \<times> host_mode"
type_synonym session_entry = "string \<times> nat option \<times> host_mode \<times> real"
type_synonym flow = "string \<times> nat \<times> string \<times> nat"

datatype verdict = Allow | Deny

text \<open>
  A \<open>LEARNED\<close> record, its keys prefixed by \<open>rec_\<close>. \<open>rec_rule_expire\<close> is \<^term>\<open>None\<close> when the dictionary has no such key (a record
  made by \<open>record_hosts\<close>); \<open>rec_ports\<close> is a Python set, kept as a list without repetition.
\<close>

record learned =
  rec_expire :: real
  rec_rule_expire :: "real option"
  rec_ports :: "nat option list"
  rec_host :: "string option"

record 'k sidecar =
  SESSION_HOST_ALLOWS :: "session_entry list"
  SESSION_HOST_DENIES :: "session_entry list"
  LEARNED :: "(string, learned) dict"
  VERDICT_CACHE :: "(flow, verdict \<times> real) dict"
  INFLIGHT :: "flow set"
  REJECTED :: "(string \<times> nat \<times> nat, real) dict"
  kernel :: 'k

text \<open>Dropping the cached verdicts of a revoked host's addresses.\<close>

definition clear_verdict_cache :: "string list \<Rightarrow> 'k sidecar \<Rightarrow> 'k sidecar" where
  "clear_verdict_cache ips s =
     (if ips \<noteq> []
      then s\<lparr>VERDICT_CACHE := filter (\<lambda>((_, _, dst, _), _). dst \<notin> set ips) (VERDICT_CACHE s)\<rparr>
      else s)"

text \<open>The containers at import time, over a given kernel state.\<close>

definition initial_sidecar :: "'k \<Rightarrow> 'k sidecar" where
  "initial_sidecar k =
     \<lparr>SESSION_HOST_ALLOWS = [], SESSION_HOST_DENIES = [], LEARNED = [], VERDICT_CACHE = [],
      INFLIGHT = {}, REJECTED = [], kernel = k\<rparr>"

lemma clear_verdict_cache_drops:
  "ip \<in> set ips \<Longrightarrow> ((a, b, ip, p), v) \<notin> set (VERDICT_CACHE (clear_verdict_cache ips s))"
  by (auto simp: clear_verdict_cache_def)

lemma clear_verdict_cache_subset:
  "set (VERDICT_CACHE (clear_verdict_cache ips s)) \<subseteq> set (VERDICT_CACHE s)"
  by (auto simp: clear_verdict_cache_def)


text \<open>The settings of an empty environment, for the examples of the component theories.\<close>

definition default_config :: config where
  "default_config =
     \<lparr>UPSTREAM = (''8.8.8.8'', 53), LISTEN_PORT = 15353, IPT = ''iptables'', DEBUG = False,
      MARK = 75, SWEEP_INTERVAL = 5, MIN_TTL = 30, QUEUE_NUM = 5139, CONSENT_URL = [],
      EGRESS_MODE = ''static'', HOLD_TIMEOUT = 120, VERDICT_CACHE_TTL = 120, ACTIVITY_GATE_S = 60,
      CONSENT_REJECT_TTL = 10, RST_DEBUG = False\<rparr>"

end
