(* ===== verification/Allowlist.thy ===== *)
theory Allowlist
  imports Sidecar_State
begin

text \<open>
  \<open>klangksidecar/allowlist.py\<close>: the allow/deny spec grammar, the host matcher both gates share, and
  the in-session memory of consent verdicts. A function that reads \<open>time.time()\<close> takes the reading
  as an argument, one argument per reading, in the order the source makes them. The two session
  lists are mirror images; the locale \<open>session_memory\<close> states what either promises its clients.
\<close>

section \<open>The spec grammar\<close>

definition split_spec_port :: "string \<Rightarrow> string \<times> nat option" where
  "split_spec_port spec =
     (if CHR '':'' \<notin> set spec then (spec, None)
      else (case rsplit1 CHR '':'' spec of
              (host_part, port_part) \<Rightarrow>
                (if isascii port_part \<and> isdigit port_part \<and> length port_part \<le> 5
                 then (host_part, Some (int_of_digits port_part))
                 else (spec, None))))"

definition spec_scope :: "string \<Rightarrow> string \<times> host_mode" where
  "spec_scope s =
     (if startswith s ''*.'' then (drop 2 s, SUBDOMAINS)
      else if startswith s ''.'' then (drop 1 s, INCLUSIVE)
      else (s, EXACT))"

definition parse_one_spec :: "string \<Rightarrow> spec option" where
  "parse_one_spec spec =
     (let spec = strip spec
      in if spec = [] \<or> CHR ''/'' \<in> set spec then None
         else (case split_spec_port spec of
                 (spec, port) \<Rightarrow>
                   (case spec_scope (lower spec) of
                      (s, mode) \<Rightarrow> if s = [] then None else Some (s, port, mode))))"

definition parse_specs :: "(string \<rightharpoonup> string) \<Rightarrow> string \<Rightarrow> spec list" where
  "parse_specs env env_var =
     List.map_filter parse_one_spec (split_on CHR '','' (environ_get env env_var []))"

definition SPECS :: "(string \<rightharpoonup> string) \<Rightarrow> spec list" where
  "SPECS env = parse_specs env ''KLANGKNETWORK_EGRESS_ALLOW''"

definition REJECT_SPECS :: "(string \<rightharpoonup> string) \<Rightarrow> spec list" where
  "REJECT_SPECS env = parse_specs env ''KLANGKNETWORK_EGRESS_REJECT''"

definition host_matches :: "string \<Rightarrow> string \<Rightarrow> host_mode \<Rightarrow> bool" where
  "host_matches qname host mode =
     (case mode of
        SUBDOMAINS \<Rightarrow> endswith qname (CHR ''.'' # host)
      | INCLUSIVE \<Rightarrow> qname = host \<or> endswith qname (CHR ''.'' # host)
      | EXACT \<Rightarrow> qname = host)"


section \<open>The gates over the specs and the session lists\<close>

abbreviation unexpired :: "real \<Rightarrow> session_entry \<Rightarrow> bool" where
  "unexpired now e \<equiv> (case e of (h, p, m, expiry) \<Rightarrow> now < expiry)"

definition prune_session_allows :: "real \<Rightarrow> 'k sidecar \<Rightarrow> 'k sidecar" where
  "prune_session_allows now s =
     s\<lparr>SESSION_HOST_ALLOWS := filter (unexpired now) (SESSION_HOST_ALLOWS s)\<rparr>"

text \<open>The loop of \<open>ports_for\<close>: \<^term>\<open>None\<close> (the Python \<open>None\<close>) allows every port.\<close>

fun ports_loop :: "string \<Rightarrow> nat list \<Rightarrow> spec list \<Rightarrow> nat list option" where
  "ports_loop qname ps [] = Some ps"
| "ports_loop qname ps ((host, port, mode) # rest) =
     (if \<not> host_matches qname host mode then ports_loop qname ps rest
      else (case port of None \<Rightarrow> None | Some p \<Rightarrow> ports_loop qname (List.insert p ps) rest))"

definition ports_for ::
  "spec list \<Rightarrow> real \<Rightarrow> string \<Rightarrow> 'k sidecar \<Rightarrow> nat list option \<times> 'k sidecar" where
  "ports_for specs now qname s =
     (let s = prune_session_allows now s;
          session = map (\<lambda>(h, p, m, expiry). (h, p, m)) (SESSION_HOST_ALLOWS s)
      in (ports_loop qname [] (specs @ session), s))"

definition rejected_for :: "spec list \<Rightarrow> string \<Rightarrow> bool" where
  "rejected_for reject_specs qname =
     list_ex (\<lambda>(host, port, mode). host_matches qname host mode) reject_specs"

text \<open>The shared bodies of the allow and the deny list.\<close>

fun refresh_or_append :: "string \<Rightarrow> nat \<Rightarrow> real \<Rightarrow> session_entry list \<Rightarrow> session_entry list" where
  "refresh_or_append host port expiry [] = [(host, Some port, EXACT, expiry)]"
| "refresh_or_append host port expiry ((h, p, mode, e) # rest) =
     (if (h, p, mode) = (host, Some port, EXACT) then (h, p, mode, max e expiry) # rest
      else (h, p, mode, e) # refresh_or_append host port expiry rest)"

definition add_session_entry ::
  "real \<Rightarrow> session_entry list \<Rightarrow> string \<Rightarrow> nat \<Rightarrow> real \<Rightarrow> session_entry list" where
  "add_session_entry now lst host port ttl = refresh_or_append host port (now + ttl) lst"

definition entry_remaining :: "session_entry \<Rightarrow> string \<Rightarrow> nat \<Rightarrow> real \<Rightarrow> real option" where
  "entry_remaining entry host port now =
     (case entry of (h, p, mode, expiry) \<Rightarrow>
        (if expiry \<le> now then None
         else if \<not> host_matches host h mode then None
         else if p \<noteq> Some port \<and> p \<noteq> None then None
         else Some (expiry - now)))"

definition session_entry_ttl ::
  "real \<Rightarrow> session_entry list \<Rightarrow> string \<Rightarrow> nat \<Rightarrow> real option" where
  "session_entry_ttl now lst host port =
     (if host = [] then None
      else max_default (List.map_filter (\<lambda>e. entry_remaining e host port now) lst))"

definition add_session_host ::
  "real \<Rightarrow> real \<Rightarrow> string \<Rightarrow> nat \<Rightarrow> real \<Rightarrow> 'k sidecar \<Rightarrow> 'k sidecar" where
  "add_session_host t1 t2 host port ttl s =
     (let s = prune_session_allows t1 s
      in s\<lparr>SESSION_HOST_ALLOWS :=
             add_session_entry t2 (SESSION_HOST_ALLOWS s) host port ttl\<rparr>)"

definition session_host_allows_ttl ::
  "real \<Rightarrow> real \<Rightarrow> string \<Rightarrow> nat \<Rightarrow> 'k sidecar \<Rightarrow> real option \<times> 'k sidecar" where
  "session_host_allows_ttl t1 t2 host port s =
     (if host = [] then (None, s)
      else (let s = prune_session_allows t1 s
            in (session_entry_ttl t2 (SESSION_HOST_ALLOWS s) host port, s)))"

definition matches_static_spec :: "spec list \<Rightarrow> string \<Rightarrow> bool" where
  "matches_static_spec specs qname =
     list_ex (\<lambda>(host, port, mode). host_matches qname host mode) specs"

definition min_session_allow_ttl :: "string \<Rightarrow> real \<Rightarrow> 'k sidecar \<Rightarrow> real option" where
  "min_session_allow_ttl qname now s =
     min_default
       (map (\<lambda>(host, port, mode, expiry). expiry - now)
         (filter (\<lambda>(host, port, mode, expiry). now < expiry \<and> host_matches qname host mode)
           (SESSION_HOST_ALLOWS s)))"

definition session_allow_rule_cap ::
  "spec list \<Rightarrow> real \<Rightarrow> real \<Rightarrow> string \<Rightarrow> 'k sidecar \<Rightarrow> real option \<times> 'k sidecar" where
  "session_allow_rule_cap specs t1 t2 qname s =
     (if matches_static_spec specs qname then (None, s)
      else (let s = prune_session_allows t1 s in (min_session_allow_ttl qname t2 s, s)))"

definition prune_session_denies :: "real \<Rightarrow> 'k sidecar \<Rightarrow> 'k sidecar" where
  "prune_session_denies now s =
     s\<lparr>SESSION_HOST_DENIES := filter (unexpired now) (SESSION_HOST_DENIES s)\<rparr>"

definition add_session_deny ::
  "real \<Rightarrow> real \<Rightarrow> string \<Rightarrow> nat \<Rightarrow> real \<Rightarrow> 'k sidecar \<Rightarrow> 'k sidecar" where
  "add_session_deny t1 t2 host port ttl s =
     (let s = prune_session_denies t1 s
      in s\<lparr>SESSION_HOST_DENIES :=
             add_session_entry t2 (SESSION_HOST_DENIES s) host port ttl\<rparr>)"

definition session_host_denies_ttl ::
  "real \<Rightarrow> real \<Rightarrow> string \<Rightarrow> nat \<Rightarrow> 'k sidecar \<Rightarrow> real option \<times> 'k sidecar" where
  "session_host_denies_ttl t1 t2 host port s =
     (if host = [] then (None, s)
      else (let s = prune_session_denies t1 s
            in (session_entry_ttl t2 (SESSION_HOST_DENIES s) host port, s)))"

definition drop_session_hosts :: "string \<Rightarrow> 'k sidecar \<Rightarrow> 'k sidecar" where
  "drop_session_hosts host s =
     (let hl = lower host
      in s\<lparr>SESSION_HOST_ALLOWS :=
             filter (\<lambda>(h, p, m, expiry). lower h \<noteq> hl) (SESSION_HOST_ALLOWS s)\<rparr>)"

definition drop_session_denies :: "string \<Rightarrow> 'k sidecar \<Rightarrow> 'k sidecar" where
  "drop_session_denies host s =
     (let hl = lower host
      in s\<lparr>SESSION_HOST_DENIES :=
             filter (\<lambda>(h, p, m, expiry). lower h \<noteq> hl) (SESSION_HOST_DENIES s)\<rparr>)"


section \<open>The session lists as one interface\<close>

text \<open>
  What the consumer and the revoke path rely on, of the allow list and of the deny list alike: how
  each operation changes the entries, and that a lookup reads the pruned entries. \<open>wf_session\<close> is
  the invariant: entries are exact, carry a port, and no \<open>host:port\<close> has two.
\<close>

definition wf_session :: "session_entry list \<Rightarrow> bool" where
  "wf_session lst \<longleftrightarrow>
     (\<forall>(h, p, m, x) \<in> set lst. m = EXACT \<and> p \<noteq> None) \<and>
     distinct (map (\<lambda>(h, p, m, x). (h, p)) lst)"

lemma wf_sessionD: "wf_session lst \<Longrightarrow> (h, p, m, x) \<in> set lst \<Longrightarrow> m = EXACT \<and> p \<noteq> None"
  by (auto simp: wf_session_def)

lemma wf_session_unique:
  "wf_session lst \<Longrightarrow> (h, p, m, x) \<in> set lst \<Longrightarrow> (h, p, m', y) \<in> set lst \<Longrightarrow> x = y"
  unfolding wf_session_def distinct_map inj_on_def by fastforce

lemma entry_remaining_wf:
  assumes "wf_session lst" "e \<in> set lst"
  shows "entry_remaining e h p t \<noteq> None \<longleftrightarrow> (\<exists>x. e = (h, Some p, EXACT, x) \<and> t < x)"
proof -
  obtain h' p' m x where e: "e = (h', p', m, x)" by (cases e)
  with wf_sessionD assms have "m = EXACT" "p' \<noteq> None" by blast+
  with e show ?thesis by (auto simp: entry_remaining_def host_matches_def)
qed

lemma wf_session_filter: "wf_session lst \<Longrightarrow> wf_session (filter P lst)"
  by (auto simp: wf_session_def distinct_map_filter)

lemma refresh_or_append_keys:
  "set (map (\<lambda>(h, p, m, x). (h, p)) (refresh_or_append host port expiry lst)) =
     insert (host, Some port) (set (map (\<lambda>(h, p, m, x). (h, p)) lst))"
  by (induction host port expiry lst rule: refresh_or_append.induct) auto

lemma wf_session_refresh:
  "wf_session lst \<Longrightarrow> wf_session (refresh_or_append host port expiry lst)"
proof (induction host port expiry lst rule: refresh_or_append.induct)
  case (2 host port expiry h p mode e rest)
  show ?case
  proof (cases "(h, p, mode) = (host, Some port, EXACT)")
    case False
    have "wf_session rest" using 2(2) by (auto simp: wf_session_def)
    with 2(1) False have IH: "wf_session (refresh_or_append host port expiry rest)" by simp
    moreover have "(h, p) \<noteq> (host, Some port)" using False 2(2) by (auto simp: wf_session_def)
    ultimately show ?thesis
      using False 2(2) refresh_or_append_keys [of host port expiry rest]
      by (auto simp: wf_session_def)
  qed (use 2(2) in \<open>auto simp: wf_session_def\<close>)
qed (simp add: wf_session_def)

lemma refresh_or_append_covers:
  "\<exists>x \<ge> expiry. (host, Some port, EXACT, x) \<in> set (refresh_or_append host port expiry lst)"
  by (induction host port expiry lst rule: refresh_or_append.induct) (auto intro: max.cobounded2)

lemma refresh_or_append_keeps:
  "(h, p, m, x) \<in> set lst \<Longrightarrow>
     \<exists>y \<ge> x. (h, p, m, y) \<in> set (refresh_or_append host port expiry lst)"
proof (induction host port expiry lst rule: refresh_or_append.induct)
  case (2 host port expiry h' p' mode e rest)
  then show ?case
    by (cases "(h', p', mode) = (host, Some port, EXACT)") (auto intro: max.cobounded1)
qed simp

lemma refresh_or_append_origin:
  "(h, p, m, y) \<in> set (refresh_or_append host port expiry lst) \<Longrightarrow>
     (h, p, m, y) \<in> set lst \<or> (h, p, m) = (host, Some port, EXACT)"
  by (induction host port expiry lst rule: refresh_or_append.induct) (auto split: if_splits)

lemma session_entry_ttl_Some_iff:
  "(\<exists>r. session_entry_ttl now lst host port = Some r) \<longleftrightarrow>
     host \<noteq> [] \<and> (\<exists>e \<in> set lst. entry_remaining e host port now \<noteq> None)"
proof -
  have "List.map_filter (\<lambda>e. entry_remaining e host port now) lst \<noteq> [] \<longleftrightarrow>
      (\<exists>e \<in> set lst. entry_remaining e host port now \<noteq> None)"
    by (auto simp: map_filter_def filter_empty_conv)
  moreover have "(\<exists>m. max_default xs = Some m) \<longleftrightarrow> xs \<noteq> []" for xs
    using max_default_None [of xs] by (cases "max_default xs") auto
  ultimately show ?thesis by (simp add: session_entry_ttl_def)
qed

lemma session_entry_ttl_ge:
  assumes "e \<in> set lst" "entry_remaining e host port now = Some r" "host \<noteq> []"
  shows "\<exists>m \<ge> r. session_entry_ttl now lst host port = Some m"
proof -
  have "r \<in> set (List.map_filter (\<lambda>e. entry_remaining e host port now) lst)"
    using assms(1,2) by (force simp: map_filter_def)
  from max_default_ge [OF this] show ?thesis using assms(3) by (auto simp: session_entry_ttl_def)
qed

locale session_memory =
  fixes entries :: "'s \<Rightarrow> session_entry list"
    and prune :: "real \<Rightarrow> 's \<Rightarrow> 's"
    and add :: "real \<Rightarrow> real \<Rightarrow> string \<Rightarrow> nat \<Rightarrow> real \<Rightarrow> 's \<Rightarrow> 's"
    and ttl_of :: "real \<Rightarrow> real \<Rightarrow> string \<Rightarrow> nat \<Rightarrow> 's \<Rightarrow> real option \<times> 's"
    and drop_host :: "string \<Rightarrow> 's \<Rightarrow> 's"
  assumes entries_prune: "entries (prune now s) = filter (unexpired now) (entries s)"
    and entries_add: "entries (add t1 t2 h p ttl s) =
      refresh_or_append h p (t2 + ttl) (filter (unexpired t1) (entries s))"
    and fst_ttl_of: "fst (ttl_of t1 t2 h p s) =
      session_entry_ttl t2 (filter (unexpired t1) (entries s)) h p"
    and entries_ttl_of: "set (entries (snd (ttl_of t1 t2 h p s))) \<subseteq> set (entries s)"
    and entries_drop: "entries (drop_host h s) =
      filter (\<lambda>(h', p, m, x). lower h' \<noteq> lower h) (entries s)"
begin

lemma wf_prune: "wf_session (entries s) \<Longrightarrow> wf_session (entries (prune now s))"
  by (simp add: entries_prune wf_session_filter)

lemma wf_add: "wf_session (entries s) \<Longrightarrow> wf_session (entries (add t1 t2 h p ttl s))"
  by (simp add: entries_add wf_session_filter wf_session_refresh)

lemma wf_drop: "wf_session (entries s) \<Longrightarrow> wf_session (entries (drop_host h s))"
  by (simp add: entries_drop wf_session_filter)

text \<open>An added verdict covers its \<open>host:port\<close> for at least its window.\<close>

lemma add_covers:
  assumes "h \<noteq> []" "t3 < t2 + ttl" "t4 < t2 + ttl"
  shows "\<exists>r. fst (ttl_of t3 t4 h p (add t1 t2 h p ttl s)) = Some r \<and> t2 + ttl - t4 \<le> r"
proof -
  obtain x where x: "t2 + ttl \<le> x" "(h, Some p, EXACT, x) \<in> set (entries (add t1 t2 h p ttl s))"
    using refresh_or_append_covers by (metis entries_add)
  then have mem: "(h, Some p, EXACT, x) \<in> set (filter (unexpired t3) (entries (add t1 t2 h p ttl s)))"
    using assms(2) by simp
  have "entry_remaining (h, Some p, EXACT, x) h p t4 = Some (x - t4)"
    using x(1) assms(3) by (simp add: entry_remaining_def host_matches_def)
  from session_entry_ttl_ge [OF mem this assms(1)] x(1) show ?thesis
    by (auto simp: fst_ttl_of)
qed

text \<open>Coverage of anything else is neither created nor lost by an add (time does not run back).\<close>

lemma add_frame:
  assumes "(h', p') \<noteq> (h, p)" "wf_session (entries s)" "t1 \<le> t3"
  shows "fst (ttl_of t3 t4 h' p' (add t1 t2 h p ttl s)) = None \<longleftrightarrow>
    fst (ttl_of t3 t4 h' p' s) = None"
proof -
  let ?old = "filter (unexpired t3) (entries s)"
  let ?new = "filter (unexpired t3) (entries (add t1 t2 h p ttl s))"
  have wf: "wf_session ?old" "wf_session ?new"
    using assms(2) by (simp_all add: wf_session_filter wf_add)
  have same: "(h', Some p', EXACT, x) \<in> set ?new \<longleftrightarrow> (h', Some p', EXACT, x) \<in> set ?old" for x
  proof
    assume "(h', Some p', EXACT, x) \<in> set ?new"
    then show "(h', Some p', EXACT, x) \<in> set ?old"
      using refresh_or_append_origin assms(1) by (fastforce simp: entries_add)
  next
    assume old: "(h', Some p', EXACT, x) \<in> set ?old"
    then have "(h', Some p', EXACT, x) \<in> set (filter (unexpired t1) (entries s))"
      using assms(3) by auto
    from refresh_or_append_keeps [OF this, of h p "t2 + ttl"] obtain y where
      y: "x \<le> y" "(h', Some p', EXACT, y) \<in> set (entries (add t1 t2 h p ttl s))"
      by (auto simp: entries_add)
    then have "(h', Some p', EXACT, y) \<in> set (entries s)"
      using refresh_or_append_origin assms(1) by (fastforce simp: entries_add)
    then have "y = x"
      using old wf_session_unique [OF assms(2)] by fastforce
    with y old show "(h', Some p', EXACT, x) \<in> set ?new" by auto
  qed
  have ex: "(\<exists>e \<in> set ?new. entry_remaining e h' p' t4 \<noteq> None) \<longleftrightarrow>
      (\<exists>e \<in> set ?old. entry_remaining e h' p' t4 \<noteq> None)"
    using entry_remaining_wf [OF wf(1)] entry_remaining_wf [OF wf(2)] same by metis
  show ?thesis
    using session_entry_ttl_Some_iff [of t4 ?new h' p'] session_entry_ttl_Some_iff [of t4 ?old h' p'] ex
    by (simp add: fst_ttl_of) (metis not_None_eq)
qed

text \<open>A revoked host is not covered any more, on any port and at any time.\<close>

lemma drop_uncovers:
  assumes "wf_session (entries s)" "lower h' = lower h"
  shows "fst (ttl_of t1 t2 h' p (drop_host h s)) = None"
proof -
  let ?l = "filter (unexpired t1) (entries (drop_host h s))"
  have wf: "wf_session ?l" using assms(1) by (simp add: wf_session_filter wf_drop)
  have "entry_remaining e h' p t2 = None" if "e \<in> set ?l" for e
    using entry_remaining_wf [OF wf that, of h' p t2] that assms(2) by (auto simp: entries_drop)
  then show ?thesis
    using session_entry_ttl_Some_iff [of t2 ?l h' p] by (auto simp: fst_ttl_of)
qed

end

interpretation session_allows: session_memory SESSION_HOST_ALLOWS prune_session_allows
  add_session_host session_host_allows_ttl drop_session_hosts
  by unfold_locales
    (auto simp: prune_session_allows_def add_session_host_def add_session_entry_def
      session_host_allows_ttl_def drop_session_hosts_def session_entry_ttl_def Let_def)

interpretation session_denies: session_memory SESSION_HOST_DENIES prune_session_denies
  add_session_deny session_host_denies_ttl drop_session_denies
  by unfold_locales
    (auto simp: prune_session_denies_def add_session_deny_def add_session_entry_def
      session_host_denies_ttl_def drop_session_denies_def session_entry_ttl_def Let_def)



section \<open>Properties\<close>

abbreviation labels :: "string \<Rightarrow> string list" where
  "labels name \<equiv> split_on CHR ''.'' name"

text \<open>
  The host matcher compares whole labels. \<open>EXACT\<close> is equality of the label lists, \<open>INCLUSIVE\<close>
  admits any labels in front, \<open>SUBDOMAINS\<close> at least one; so \<open>evilexample.com\<close> never matches
  \<open>example.com\<close>.
\<close>

theorem host_matches_by_labels:
  "(host_matches qname host EXACT = (labels qname = labels host)) \<and>
   (host_matches qname host INCLUSIVE = (\<exists>ls. labels qname = ls @ labels host)) \<and>
   (host_matches qname host SUBDOMAINS = (\<exists>ls. ls \<noteq> [] \<and> labels qname = ls @ labels host))"
  unfolding host_matches_def endswith_sep_iff_labels
  by (auto simp: split_on_inject)

text \<open>The specs as the configuration writes them.\<close>

definition render_spec :: "spec \<Rightarrow> string" where
  "render_spec spec =
     (case spec of (host, port, mode) \<Rightarrow>
       (case mode of EXACT \<Rightarrow> [] | INCLUSIVE \<Rightarrow> ''.'' | SUBDOMAINS \<Rightarrow> ''*.'') @ host @
       (case port of None \<Rightarrow> [] | Some p \<Rightarrow> CHR '':'' # str_nat p))"

definition plain_host :: "string \<Rightarrow> bool" where
  "plain_host host \<longleftrightarrow>
     host \<noteq> [] \<and> lower host = host \<and> hd host \<noteq> CHR ''.'' \<and> \<not> startswith host ''*.'' \<and>
     list_all (\<lambda>c. \<not> isspace_char c \<and> c \<noteq> CHR ''/'' \<and> c \<noteq> CHR '':'') host"

lemma split_spec_port_no_port: "CHR '':'' \<notin> set s \<Longrightarrow> split_spec_port s = (s, None)"
  by (simp add: split_spec_port_def)

lemma split_spec_port_port:
  assumes "p < 100000"
  shows "split_spec_port (s @ CHR '':'' # str_nat p) = (s, Some p)"
proof -
  have "isascii (str_nat p) \<and> isdigit (str_nat p)"
    using str_nat_digits by (auto simp: isascii_isdigit_iff list_all_iff)
  moreover have "length (str_nat p) \<le> 5" using length_str_nat [of p 4] assms by simp
  ultimately show ?thesis by (simp add: split_spec_port_def rsplit1_snoc)
qed

lemma spec_scope_render:
  assumes "plain_host host"
  shows "spec_scope ((case mode of EXACT \<Rightarrow> [] | INCLUSIVE \<Rightarrow> ''.'' | SUBDOMAINS \<Rightarrow> ''*.'') @ host) =
    (host, mode)"
proof -
  have "\<not> startswith host ''*.''" "\<not> startswith host ''.''" "\<not> startswith (CHR ''.'' # host) ''*.''"
    using assms by (auto simp: plain_host_def startswith_iff)
  then show ?thesis
    by (cases mode) (simp_all add: spec_scope_def startswith_def)
qed

lemma ascii_digit_not_space: "ascii_digit c \<Longrightarrow> \<not> isspace_char c"
  by (auto simp: ascii_digit_def isspace_char_def Let_def)

text \<open>
  Reading back a written spec: for a lower-case host without separators and a port of at most
  five digits, \<open>_parse_one_spec\<close> of the written form (with any white space around it) is the spec.
\<close>

theorem parse_one_spec_render:
  assumes "plain_host host" "\<forall>p. port = Some p \<longrightarrow> p < 100000"
    "list_all isspace_char before" "list_all isspace_char after"
  shows "parse_one_spec (before @ render_spec (host, port, mode) @ after) = Some (host, port, mode)"
proof -
  let ?pre = "case mode of EXACT \<Rightarrow> [] | INCLUSIVE \<Rightarrow> ''.'' | SUBDOMAINS \<Rightarrow> ''*.''"
  let ?r = "render_spec (host, port, mode)"
  have pre: "list_all (\<lambda>c. \<not> isspace_char c \<and> c \<noteq> CHR ''/'' \<and> c \<noteq> CHR '':'') ?pre"
    "lower ?pre = ?pre"
    by (cases mode; simp add: isspace_char_def lower_def lower_char_def)+
  have host: "list_all (\<lambda>c. \<not> isspace_char c \<and> c \<noteq> CHR ''/'' \<and> c \<noteq> CHR '':'') host"
    "lower host = host" "host \<noteq> []"
    using assms(1) by (auto simp: plain_host_def)
  have "list_all (\<lambda>c. \<not> isspace_char c \<and> c \<noteq> CHR ''/'') (str_nat p)" for p
    unfolding list_all_iff
    using ascii_digit_not_space ascii_digit_not_char(3) str_nat_digits [of _ p] by blast
  moreover have "list_all (\<lambda>c. \<not> isspace_char c \<and> c \<noteq> CHR ''/'') (?pre @ host)"
    using pre(1) host(1) unfolding list_all_iff set_append by blast
  moreover have "\<not> isspace_char CHR '':''" by (simp add: isspace_char_def)
  ultimately have clean: "list_all (\<lambda>c. \<not> isspace_char c \<and> c \<noteq> CHR ''/'') ?r"
    by (cases port) (simp_all add: render_spec_def)
  have "?r \<noteq> []" using host(3) by (simp add: render_spec_def)
  then have stripped: "strip (before @ ?r @ after) = ?r"
    using strip_surrounded [of ?r before after] clean assms(3,4) by (auto simp: list_all_iff)
  have "CHR '':'' \<notin> set (?pre @ host)" using pre(1) host(1) by (auto simp: list_all_iff)
  then have "split_spec_port ?r = (?pre @ host, port)"
    using assms(2) split_spec_port_port [of _ "?pre @ host"]
    by (cases port) (auto simp: render_spec_def split_spec_port_no_port)
  moreover have "spec_scope (lower (?pre @ host)) = (host, mode)"
    using spec_scope_render [OF assms(1), of mode] pre(2) host(2) by simp
  moreover have "?r \<noteq> []" "CHR ''/'' \<notin> set ?r"
    using clean host(3) by (auto simp: list_all_iff render_spec_def)
  ultimately show ?thesis
    using host(3) by (simp add: parse_one_spec_def stripped Let_def)
qed

theorem parse_one_spec_render_witness:
  "parse_one_spec '' *.a.org:443 '' = Some (''a.org'', Some 443, SUBDOMAINS)"
proof -
  have "render_spec (''a.org'', Some 443, SUBDOMAINS) = ''*.a.org:443''"
    by (simp add: render_spec_def py_eval)
  moreover have "plain_host ''a.org''"
    by (simp add: plain_host_def lower_def lower_char_def startswith_def isspace_char_def)
  ultimately show ?thesis
    using parse_one_spec_render [of "''a.org''" "Some 443" "'' ''" "'' ''" SUBDOMAINS]
    by (simp add: isspace_char_def)
qed


lemma ports_loop_None:
  "ports_loop q ps specs = None \<longleftrightarrow> (\<exists>(h, p, m) \<in> set specs. host_matches q h m \<and> p = None)"
  by (induction q ps specs rule: ports_loop.induct) (auto split: option.splits)

lemma ports_loop_Some:
  "ports_loop q ps specs = Some r \<Longrightarrow>
     set r = set ps \<union> {p. \<exists>h m. (h, Some p, m) \<in> set specs \<and> host_matches q h m}"
  by (induction q ps specs rule: ports_loop.induct) (auto split: if_splits option.splits)

text \<open>The specs in force: the static ones and the session allows that have not expired.\<close>

definition in_force :: "spec list \<Rightarrow> real \<Rightarrow> 'k sidecar \<Rightarrow> spec set" where
  "in_force specs now s =
     set specs \<union> {(h, p, m). \<exists>x. (h, p, m, x) \<in> set (SESSION_HOST_ALLOWS s) \<and> now < x}"

lemma in_force_eq:
  "in_force specs now s = set (specs @ map (\<lambda>(h, p, m, x). (h, p, m))
     (SESSION_HOST_ALLOWS (prune_session_allows now s)))"
  by (force simp: in_force_def prune_session_allows_def)

text \<open>
  The DNS gate. \<open>ports_for\<close> answers "all ports" exactly when a port-less spec in force matches
  the name, and otherwise exactly the ports of the matching specs in force, so an empty answer means
  that no spec in force matches; an expired session allow never counts.
\<close>

theorem ports_for_spec:
  "(fst (ports_for specs now q s) = None \<longleftrightarrow>
      (\<exists>h m. (h, None, m) \<in> in_force specs now s \<and> host_matches q h m)) \<and>
   (\<forall>ps. fst (ports_for specs now q s) = Some ps \<longrightarrow>
      set ps = {p. \<exists>h m. (h, Some p, m) \<in> in_force specs now s \<and> host_matches q h m})"
proof -
  let ?specs = "specs @ map (\<lambda>(h, p, m, x). (h, p, m)) (SESSION_HOST_ALLOWS (prune_session_allows now s))"
  have r: "fst (ports_for specs now q s) = ports_loop q [] ?specs"
    by (simp add: ports_for_def Let_def)
  have "ports_loop q [] ?specs = None \<longleftrightarrow>
      (\<exists>h m. (h, None, m) \<in> in_force specs now s \<and> host_matches q h m)"
    unfolding ports_loop_None in_force_eq by blast
  moreover have "set ps = {p. \<exists>h m. (h, Some p, m) \<in> in_force specs now s \<and> host_matches q h m}"
    if "ports_loop q [] ?specs = Some ps" for ps
    using ports_loop_Some [OF that] unfolding in_force_eq by simp
  ultimately show ?thesis unfolding r by blast
qed

theorem ports_for_spec_witness:
  "fst (ports_for [(''a.org'', Some 443, INCLUSIVE)] 0 ''x.a.org'' (initial_sidecar ())) = Some [443] \<and>
   {443} = {p. \<exists>h m. (h, Some p, m) \<in> in_force [(''a.org'', Some 443, INCLUSIVE)] 0 (initial_sidecar ()) \<and>
     host_matches ''x.a.org'' h m}"
proof
  show e: "fst (ports_for [(''a.org'', Some 443, INCLUSIVE)] 0 ''x.a.org'' (initial_sidecar ())) = Some [443]"
    by (simp add: ports_for_def Let_def prune_session_allows_def initial_sidecar_def host_matches_def
        endswith_def)
  show "{443} = {p. \<exists>h m. (h, Some p, m) \<in> in_force [(''a.org'', Some 443, INCLUSIVE)] 0 (initial_sidecar ()) \<and>
      host_matches ''x.a.org'' h m}"
    using ports_for_spec [of "[(''a.org'', Some 443, INCLUSIVE)]" 0 "''x.a.org''" "initial_sidecar ()",
        THEN conjunct2, THEN spec [of _ "[443]"], THEN mp, OF e]
    by (simp only: list.set)
qed

text \<open>
  The consent memory. A remembered allow answers for its \<open>host:port\<close> for at least the rest of its
  window, and changes the answer for no other \<open>host:port\<close>.
\<close>

theorem session_allow_remembered:
  assumes "wf_session (SESSION_HOST_ALLOWS s)" "h \<noteq> []" "t1 \<le> t3" "t3 < t2 + ttl" "t4 < t2 + ttl"
  shows "(\<exists>r. fst (session_host_allows_ttl t3 t4 h p (add_session_host t1 t2 h p ttl s)) = Some r \<and>
      t2 + ttl - t4 \<le> r) \<and>
    (\<forall>h' p'. (h', p') \<noteq> (h, p) \<longrightarrow>
      (fst (session_host_allows_ttl t3 t4 h' p' (add_session_host t1 t2 h p ttl s)) = None \<longleftrightarrow>
       fst (session_host_allows_ttl t3 t4 h' p' s) = None))"
  using session_allows.add_covers [OF assms(2,4,5)] session_allows.add_frame [OF _ assms(1,3)]
  by blast

theorem session_allow_remembered_witness:
  "\<exists>r. fst (session_host_allows_ttl 3 3 ''a.org'' 443
     (add_session_host 1 1 ''a.org'' 443 300 (initial_sidecar ()))) = Some r \<and> 298 \<le> r"
  using session_allow_remembered [of "initial_sidecar ()" "''a.org''" 1 3 1 300 3 443]
  by (simp add: wf_session_def initial_sidecar_def)

text \<open>
  Revocation. After \<open>drop_session_hosts\<close> (\<open>drop_session_denies\<close>) no allow (deny) is remembered
  for the host on any port, whatever the case it was written in.
\<close>

theorem session_revoked:
  assumes "wf_session (SESSION_HOST_ALLOWS s)" "wf_session (SESSION_HOST_DENIES s)"
    "lower h' = lower h"
  shows "fst (session_host_allows_ttl t1 t2 h' p (drop_session_hosts h s)) = None \<and>
    fst (session_host_denies_ttl t1 t2 h' p (drop_session_denies h s)) = None"
  using session_allows.drop_uncovers [OF assms(1,3)] session_denies.drop_uncovers [OF assms(2,3)]
  by blast

theorem session_revoked_witness:
  "fst (session_host_allows_ttl 2 2 ''a.org'' 443 (drop_session_hosts ''A.org''
     (add_session_host 1 1 ''a.org'' 443 300 (initial_sidecar ())))) = None"
proof -
  let ?s = "add_session_host 1 1 ''a.org'' 443 300 (initial_sidecar ())"
  have "wf_session (SESSION_HOST_ALLOWS ?s)" "wf_session (SESSION_HOST_DENIES ?s)"
    by (simp_all add: wf_session_def initial_sidecar_def add_session_host_def prune_session_allows_def
        add_session_entry_def Let_def)
  then show ?thesis
    using session_revoked [of ?s "''a.org''" "''A.org''"]
    by (simp add: lower_def lower_char_def char_of_def bit_0)
qed

text \<open>
  The cap on a learned rule (#2465): \<open>session_allow_rule_cap\<close> is absent when a static spec
  matches, and otherwise at most what is left of every unexpired session allow that matches.
\<close>

theorem session_allow_rule_cap_bound:
  "(matches_static_spec specs q \<longrightarrow> fst (session_allow_rule_cap specs t1 t2 q s) = None) \<and>
   (\<forall>c. fst (session_allow_rule_cap specs t1 t2 q s) = Some c \<longrightarrow>
      0 < c \<and>
      (\<forall>h p m x. (h, p, m, x) \<in> set (SESSION_HOST_ALLOWS s) \<and> t1 < x \<and> t2 < x \<and> host_matches q h m
         \<longrightarrow> c \<le> x - t2)) \<and>
   (\<not> matches_static_spec specs q \<and> fst (session_allow_rule_cap specs t1 t2 q s) = None \<longrightarrow>
      \<not> (\<exists>h p m x. (h, p, m, x) \<in> set (SESSION_HOST_ALLOWS s) \<and> t1 < x \<and> t2 < x \<and> host_matches q h m))"
proof -
  let ?l = "map (\<lambda>(host, port, mode, x). x - t2)
    (filter (\<lambda>(host, port, mode, x). t2 < x \<and> host_matches q host mode)
      (filter (unexpired t1) (SESSION_HOST_ALLOWS s)))"
  have r: "fst (session_allow_rule_cap specs t1 t2 q s) =
      (if matches_static_spec specs q then None else min_default ?l)"
    by (simp add: session_allow_rule_cap_def min_session_allow_ttl_def prune_session_allows_def Let_def)
  have mem: "x - t2 \<in> set ?l" if "(h, p, m, x) \<in> set (SESSION_HOST_ALLOWS s)" "t1 < x" "t2 < x"
    "host_matches q h m" for h p m x
    using that by force
  have pos: "0 < c" if "c \<in> set ?l" for c using that by auto
  show ?thesis
    unfolding r using min_default_SomeD [of ?l] mem pos min_default_None [of ?l]
    by (metis (no_types, lifting) empty_iff empty_set option.distinct(1))
qed

theorem session_allow_rule_cap_bound_witness:
  "\<forall>c. fst (session_allow_rule_cap [] 2 2 ''a.org''
     (add_session_host 1 1 ''a.org'' 443 5 (initial_sidecar ()))) = Some c \<longrightarrow> c \<le> 4"
proof -
  let ?s = "add_session_host 1 1 ''a.org'' 443 5 (initial_sidecar ())"
  have "(''a.org'', Some 443, EXACT, 6) \<in> set (SESSION_HOST_ALLOWS ?s)"
    by (simp add: initial_sidecar_def add_session_host_def prune_session_allows_def
        add_session_entry_def Let_def)
  then show ?thesis
    using session_allow_rule_cap_bound [of "[]" "''a.org''" 2 2 ?s]
    by (fastforce simp: host_matches_def)
qed

end
