(* ===== verification/Rules.thy ===== *)
theory Rules
  imports Sidecar_State
begin

text \<open>
  \<open>klangksidecar/rules.py\<close>: the learned-address table, the ACCEPT and REJECT rules it keeps in the
  OUTPUT chain, their expiry and their revocation.

  \<open>iptables\<close> is a program outside the sources. It is the argument \<open>run\<close> of the definitions, a
  function from the argument vector and the kernel state to the completed process (\<^term>\<open>None\<close> when
  \<open>subprocess.run\<close> raises) and the kernel state after it. What the sidecar relies on is the locale
  \<open>iptables\<close>. The functions whose body is one \<open>with LOCK\<close> block are atomic, so they are single
  steps on the sidecar state; the ones that only fork \<open>iptables\<close> act on the kernel state alone.
  \<^term>\<open>None\<close> as a result is an exception that leaves the function. A Python set of ports is a list
  without repetition; the order in which a set is iterated is the list's.
\<close>

section \<open>Running iptables\<close>

datatype completed = Completed (returncode: int) (stdout: string)

type_synonym 'k runner = "string list \<Rightarrow> 'k \<Rightarrow> completed option \<times> 'k"

definition rule_args :: "string \<Rightarrow> nat option \<Rightarrow> string list" where
  "rule_args ip port =
     [''-d'', ip] @
     (case port of None \<Rightarrow> [] | Some p \<Rightarrow> [''-p'', ''tcp'', ''--dport'', str_nat p]) @
     [''-j'', ''ACCEPT'']"

definition rule_exists ::
  "config \<Rightarrow> 'k runner \<Rightarrow> string \<Rightarrow> nat option \<Rightarrow> 'k \<Rightarrow> bool option \<times> 'k" where
  "rule_exists cfg run ip port k =
     (case run ([IPT cfg, ''-C'', ''OUTPUT''] @ rule_args ip port) k of
        (r, k) \<Rightarrow> (map_option (\<lambda>c. returncode c = 0) r, k))"

definition install ::
  "config \<Rightarrow> 'k runner \<Rightarrow> string \<Rightarrow> nat option \<Rightarrow> 'k \<Rightarrow> unit option \<times> 'k" where
  "install cfg run ip port k =
     (case rule_exists cfg run ip port k of
        (None, k) \<Rightarrow> (None, k)
      | (Some True, k) \<Rightarrow> (Some (), k)
      | (Some False, k) \<Rightarrow>
          (case run ([IPT cfg, ''-I'', ''OUTPUT'', ''1''] @ rule_args ip port) k of
             (r, k) \<Rightarrow> (map_option (\<lambda>_. ()) r, k)))"

definition remove ::
  "config \<Rightarrow> 'k runner \<Rightarrow> string \<Rightarrow> nat option \<Rightarrow> 'k \<Rightarrow> unit option \<times> 'k" where
  "remove cfg run ip port k =
     (case run ([IPT cfg, ''-D'', ''OUTPUT''] @ rule_args ip port) k of
        (r, k) \<Rightarrow> (map_option (\<lambda>_. ()) r, k))"

definition reject_rule_args :: "string \<Rightarrow> nat \<Rightarrow> nat \<Rightarrow> string list" where
  "reject_rule_args ip port sport =
     [''-d'', ip, ''-p'', ''tcp'', ''--dport'', str_nat port] @
     (if sport \<noteq> 0 then [''--sport'', str_nat sport] else []) @
     [''-j'', ''REJECT'', ''--reject-with'', ''tcp-reset'']"

definition reject_rule_exists ::
  "config \<Rightarrow> 'k runner \<Rightarrow> string \<Rightarrow> nat \<Rightarrow> nat \<Rightarrow> 'k \<Rightarrow> bool option \<times> 'k" where
  "reject_rule_exists cfg run ip port sport k =
     (case run ([IPT cfg, ''-C'', ''OUTPUT''] @ reject_rule_args ip port sport) k of
        (r, k) \<Rightarrow> (map_option (\<lambda>c. returncode c = 0) r, k))"

definition install_reject ::
  "config \<Rightarrow> 'k runner \<Rightarrow> string \<Rightarrow> nat \<Rightarrow> nat \<Rightarrow> 'k \<Rightarrow> unit option \<times> 'k" where
  "install_reject cfg run ip port sport k =
     (case reject_rule_exists cfg run ip port sport k of
        (None, k) \<Rightarrow> (None, k)
      | (Some True, k) \<Rightarrow> (Some (), k)
      | (Some False, k) \<Rightarrow>
          (case run ([IPT cfg, ''-I'', ''OUTPUT'', ''1''] @ reject_rule_args ip port sport) k of
             (r, k) \<Rightarrow> (map_option (\<lambda>_. ()) r, k)))"

definition remove_reject ::
  "config \<Rightarrow> 'k runner \<Rightarrow> string \<times> nat \<times> nat \<Rightarrow> 'k \<Rightarrow> unit option \<times> 'k" where
  "remove_reject cfg run key k =
     (case key of (ip, port, sport) \<Rightarrow>
        (case run ([IPT cfg, ''-D'', ''OUTPUT''] @ reject_rule_args ip port sport) k of
           (r, k) \<Rightarrow> (map_option (\<lambda>_. ()) r, k)))"


section \<open>Allow and reject\<close>

definition floored_expire :: "config \<Rightarrow> real \<Rightarrow> real \<Rightarrow> bool \<Rightarrow> real" where
  "floored_expire cfg now ttl floored = now + (if floored then max ttl (MIN_TTL cfg) else ttl)"

definition record_allow :: "string \<Rightarrow> nat option \<Rightarrow> real \<Rightarrow> 'k sidecar \<Rightarrow> 'k sidecar" where
  "record_allow ip port expire s =
     (case map_of (LEARNED s) ip of
        None \<Rightarrow>
          s\<lparr>LEARNED := AList.update ip
              \<lparr>rec_expire = expire, rec_rule_expire = Some expire, rec_ports = [port],
               rec_host = None\<rparr> (LEARNED s)\<rparr>
      | Some r \<Rightarrow>
          s\<lparr>LEARNED := AList.update ip
              (r\<lparr>rec_expire := max (rec_expire r) expire,
                 rec_rule_expire :=
                   Some (max (case rec_rule_expire r of None \<Rightarrow> 0 | Some e \<Rightarrow> e) expire),
                 rec_ports := List.insert port (rec_ports r)\<rparr>) (LEARNED s)\<rparr>)"

text \<open>One turn of the loops that discard a REJECT: the delete is best-effort, the record goes.\<close>

definition discard_reject ::
  "config \<Rightarrow> 'k runner \<Rightarrow> string \<times> nat \<times> nat \<Rightarrow> 'k sidecar \<Rightarrow> 'k sidecar" where
  "discard_reject cfg run key s =
     s\<lparr>kernel := snd (remove_reject cfg run key (kernel s)),
       REJECTED := AList.delete key (REJECTED s)\<rparr>"

definition supersede_port_denies ::
  "config \<Rightarrow> 'k runner \<Rightarrow> string \<Rightarrow> 'k sidecar \<Rightarrow> 'k sidecar" where
  "supersede_port_denies cfg run ip s =
     fold (discard_reject cfg run) (filter (\<lambda>key. fst key = ip) (map fst (REJECTED s))) s"

definition allow ::
  "config \<Rightarrow> 'k runner \<Rightarrow> real \<Rightarrow> string \<Rightarrow> nat option \<Rightarrow> real \<Rightarrow> bool \<Rightarrow> 'k sidecar \<Rightarrow>
     unit option \<times> 'k sidecar" where
  "allow cfg run now ip port ttl floored s =
     (let expire = floored_expire cfg now ttl floored
      in case install cfg run ip port (kernel s) of
           (None, k) \<Rightarrow> (None, s\<lparr>kernel := k\<rparr>)
         | (Some _, k) \<Rightarrow>
             (let s = record_allow ip port expire (s\<lparr>kernel := k\<rparr>)
              in (Some (), if port = None then supersede_port_denies cfg run ip s else s)))"

definition reject ::
  "config \<Rightarrow> 'k runner \<Rightarrow> real \<Rightarrow> string \<Rightarrow> nat \<Rightarrow> real \<Rightarrow> nat \<Rightarrow> 'k sidecar \<Rightarrow>
     unit option \<times> 'k sidecar" where
  "reject cfg run now ip port ttl sport s =
     (let expire = now + ttl
      in case install_reject cfg run ip port sport (kernel s) of
           (None, k) \<Rightarrow> (None, s\<lparr>kernel := k\<rparr>)
         | (Some _, k) \<Rightarrow>
             (Some (), s\<lparr>kernel := k, REJECTED := AList.update (ip, port, sport)
                (max (case map_of (REJECTED s) (ip, port, sport) of None \<Rightarrow> 0 | Some e \<Rightarrow> e) expire)
                (REJECTED s)\<rparr>))"


section \<open>Revocation\<close>

definition drop_targets :: "string \<Rightarrow> 'k sidecar \<Rightarrow> string list" where
  "drop_targets host s =
     (let host_l = lower host;
          ips = map fst (filter (\<lambda>(ip, r).
                  lower (case rec_host r of None \<Rightarrow> [] | Some h \<Rightarrow> h) = host_l) (LEARNED s))
      in remdups (ips @ [host_l, host]))"

text \<open>The loop that removes every rule of an address; each delete is best-effort.\<close>

definition remove_ports ::
  "config \<Rightarrow> 'k runner \<Rightarrow> string \<Rightarrow> nat option list \<Rightarrow> 'k \<Rightarrow> 'k" where
  "remove_ports cfg run ip ports k = fold (\<lambda>port k. snd (remove cfg run ip port k)) ports k"

definition remove_learned_ports ::
  "config \<Rightarrow> 'k runner \<Rightarrow> string \<Rightarrow> 'k sidecar \<Rightarrow> 'k sidecar" where
  "remove_learned_ports cfg run ip s =
     (case map_of (LEARNED s) ip of
        None \<Rightarrow> s
      | Some r \<Rightarrow> s\<lparr>kernel := remove_ports cfg run ip (rec_ports r) (kernel s)\<rparr>)"

text \<open>The body of the loop of \<open>_drop_learned_rules\<close>.\<close>

definition forget_learned :: "config \<Rightarrow> 'k runner \<Rightarrow> string \<Rightarrow> 'k sidecar \<Rightarrow> 'k sidecar" where
  "forget_learned cfg run ip s =
     (let s = remove_learned_ports cfg run ip s
      in s\<lparr>LEARNED := AList.delete ip (LEARNED s)\<rparr>)"

definition drop_learned_rules ::
  "config \<Rightarrow> 'k runner \<Rightarrow> string list \<Rightarrow> 'k sidecar \<Rightarrow> 'k sidecar" where
  "drop_learned_rules cfg run targets s =
     fold (forget_learned cfg run) (filter (\<lambda>i. i \<in> fst ` set (LEARNED s)) targets) s"

definition drop_reject_rules ::
  "config \<Rightarrow> 'k runner \<Rightarrow> string list \<Rightarrow> 'k sidecar \<Rightarrow> 'k sidecar" where
  "drop_reject_rules cfg run targets s =
     fold (discard_reject cfg run)
       (filter (\<lambda>key. fst key \<in> set targets) (map fst (REJECTED s))) s"

definition drop_for_host ::
  "config \<Rightarrow> 'k runner \<Rightarrow> string \<Rightarrow> string \<Rightarrow> 'k sidecar \<Rightarrow> string list \<times> 'k sidecar" where
  "drop_for_host cfg run host decision s =
     (let targets = drop_targets host s
      in (targets,
          if decision = ''allowed'' then drop_learned_rules cfg run targets s
          else if decision = ''denied'' then drop_reject_rules cfg run targets s
          else s))"


section \<open>The TTL sweep\<close>

definition sweep_learned_rules ::
  "config \<Rightarrow> 'k runner \<Rightarrow> string \<Rightarrow> learned \<Rightarrow> real \<Rightarrow> 'k \<Rightarrow> nat option list option \<times> 'k" where
  "sweep_learned_rules cfg run ip r now k =
     (let rule_expire = (case rec_rule_expire r of None \<Rightarrow> rec_expire r | Some e \<Rightarrow> e)
      in if \<not> (rec_ports r \<noteq> [] \<and> rule_expire \<le> now) then (None, k)
         else (Some (rec_ports r), remove_ports cfg run ip (rec_ports r) k))"

type_synonym swept = "(string \<times> nat option list) list"

definition sweep_learned_record ::
  "config \<Rightarrow> 'k runner \<Rightarrow> real \<Rightarrow> string \<times> learned \<Rightarrow> swept \<times> 'k sidecar \<Rightarrow> swept \<times> 'k sidecar" where
  "sweep_learned_record cfg run now item acc =
     (case (item, acc) of ((ip, r), (expired, s)) \<Rightarrow>
       (case sweep_learned_rules cfg run ip r now (kernel s) of (ports, k) \<Rightarrow>
         (let s = s\<lparr>kernel := k\<rparr>;
              (expired, r, s) =
                (case ports of
                   None \<Rightarrow> (expired, r, s)
                 | Some ps \<Rightarrow>
                     (let r = r\<lparr>rec_ports := []\<rparr>
                      in (expired @ [(ip, ps)], r, s\<lparr>LEARNED := AList.update ip r (LEARNED s)\<rparr>)))
          in (expired,
              if rec_expire r \<le> now \<and> rec_ports r = []
              then s\<lparr>LEARNED := AList.delete ip (LEARNED s)\<rparr>
              else s))))"

definition sweep_rejected :: "config \<Rightarrow> 'k runner \<Rightarrow> real \<Rightarrow> 'k sidecar \<Rightarrow> 'k sidecar" where
  "sweep_rejected cfg run now s =
     fold (discard_reject cfg run)
       (map fst (filter (\<lambda>(key, expiry). expiry \<le> now) (REJECTED s))) s"

definition sweep_once ::
  "config \<Rightarrow> 'k runner \<Rightarrow> real \<Rightarrow> 'k sidecar \<Rightarrow> swept \<times> 'k sidecar" where
  "sweep_once cfg run now s =
     (case fold (sweep_learned_record cfg run now) (LEARNED s) ([], s) of
        (expired, s) \<Rightarrow> (expired, sweep_rejected cfg run now s))"


section \<open>Learning\<close>

fun learn_ports ::
  "config \<Rightarrow> 'k runner \<Rightarrow> (nat \<Rightarrow> real) \<Rightarrow> string \<Rightarrow> nat option list \<Rightarrow> real \<Rightarrow> bool \<Rightarrow> 'k sidecar \<Rightarrow>
     unit option \<times> 'k sidecar" where
  "learn_ports cfg run clk ip [] ttl floored s = (Some (), s)"
| "learn_ports cfg run clk ip (port # ports) ttl floored s =
     (case allow cfg run (clk 0) ip port ttl floored s of
        (None, s) \<Rightarrow> (None, s)
      | (Some _, s) \<Rightarrow> learn_ports cfg run (\<lambda>n. clk (Suc n)) ip ports ttl floored s)"

text \<open>\<open>learn_all\<close>; \<open>clk n\<close> is the clock reading of its \<open>n\<close>-th \<open>allow\<close> call.\<close>

fun learn_all ::
  "config \<Rightarrow> 'k runner \<Rightarrow> (nat \<Rightarrow> real) \<Rightarrow> (string \<times> real) list \<Rightarrow> nat option list \<Rightarrow> real option \<Rightarrow>
     'k sidecar \<Rightarrow> unit option \<times> 'k sidecar" where
  "learn_all cfg run clk [] ports cap s = (Some (), s)"
| "learn_all cfg run clk ((ip, ttl) # recs) ports cap s =
     (let rule_ttl = (case cap of None \<Rightarrow> ttl | Some c \<Rightarrow> min ttl c)
      in case learn_ports cfg run clk ip ports rule_ttl (cap = None) s of
           (None, s) \<Rightarrow> (None, s)
         | (Some _, s) \<Rightarrow> learn_all cfg run (\<lambda>n. clk (length ports + n)) recs ports cap s)"

definition record_host ::
  "config \<Rightarrow> real \<Rightarrow> string \<Rightarrow> string \<times> real \<Rightarrow> 'k sidecar \<Rightarrow> 'k sidecar" where
  "record_host cfg now host item s =
     (case item of (ip, ttl) \<Rightarrow>
       (let expire = now + max ttl (MIN_TTL cfg)
        in case map_of (LEARNED s) ip of
             None \<Rightarrow>
               s\<lparr>LEARNED := AList.update ip
                   \<lparr>rec_expire = expire, rec_rule_expire = None, rec_ports = [],
                    rec_host = Some host\<rparr> (LEARNED s)\<rparr>
           | Some r \<Rightarrow>
               s\<lparr>LEARNED := AList.update ip
                   (r\<lparr>rec_expire := max (rec_expire r) expire, rec_host := Some host\<rparr>)
                   (LEARNED s)\<rparr>))"

definition record_hosts ::
  "config \<Rightarrow> real \<Rightarrow> (string \<times> real) list \<Rightarrow> string \<Rightarrow> 'k sidecar \<Rightarrow> 'k sidecar" where
  "record_hosts cfg now recs host s = fold (record_host cfg now host) recs s"

definition host_for :: "string \<Rightarrow> 'k sidecar \<Rightarrow> string" where
  "host_for ip s =
     (case map_of (LEARNED s) ip of
        None \<Rightarrow> ip
      | Some r \<Rightarrow> (case rec_host r of None \<Rightarrow> ip | Some h \<Rightarrow> if h = [] then ip else h))"


section \<open>Egress accounting\<close>

definition ACCT_COMMENT :: string where
  "ACCT_COMMENT = ''klangk-acct''"

definition acct_match :: "config \<Rightarrow> string option \<Rightarrow> string list" where
  "acct_match cfg exclude_ip =
     [''-m'', ''mark'', ''!'', ''--mark'', str_int (MARK cfg)] @
     (case exclude_ip of
        None \<Rightarrow> []
      | Some ip \<Rightarrow> if ip = [] then [] else [''!'', ''-d'', ip]) @
     [''-m'', ''comment'', ''--comment'', ACCT_COMMENT, ''-j'', ''ACCEPT'']"

definition install_acct :: "config \<Rightarrow> 'k runner \<Rightarrow> string option \<Rightarrow> 'k \<Rightarrow> 'k" where
  "install_acct cfg run exclude_ip k =
     (case run ([IPT cfg, ''-t'', ''mangle'', ''-C'', ''OUTPUT''] @ acct_match cfg exclude_ip) k of
        (None, k) \<Rightarrow> k
      | (Some check, k) \<Rightarrow>
          (if returncode check = 0 then k
           else snd (run ([IPT cfg, ''-t'', ''mangle'', ''-A'', ''OUTPUT''] @ acct_match cfg exclude_ip)
                      k)))"

text \<open>\<open>to_int\<close> is \<open>int()\<close> of a string, \<^term>\<open>None\<close> for \<open>ValueError\<close>.\<close>

definition acct_bytes_from_output :: "(string \<Rightarrow> int option) \<Rightarrow> string \<Rightarrow> int" where
  "acct_bytes_from_output to_int out =
     (case find (substring_of ACCT_COMMENT) (splitlines out) of
        None \<Rightarrow> 0
      | Some line \<Rightarrow>
          (case split_ws line of
             _ # bytes # _ \<Rightarrow> (case to_int bytes of Some n \<Rightarrow> n | None \<Rightarrow> 0)
           | _ \<Rightarrow> 0))"

definition acct_bytes :: "config \<Rightarrow> (string \<Rightarrow> int option) \<Rightarrow> 'k runner \<Rightarrow> 'k \<Rightarrow> int \<times> 'k" where
  "acct_bytes cfg to_int run k =
     (case run [IPT cfg, ''-t'', ''mangle'', ''-L'', ''OUTPUT'', ''-v'', ''-x'', ''-n''] k of
        (None, k) \<Rightarrow> (0, k)
      | (Some out, k) \<Rightarrow>
          (if returncode out \<noteq> 0 then (0, k)
           else (acct_bytes_from_output to_int (stdout out), k)))"


section \<open>Rules and records\<close>

text \<open>The rules the two tables account for.\<close>

definition accept_rules :: "(string, learned) dict \<Rightarrow> string list set" where
  "accept_rules l = {rule_args ip p | ip r p. (ip, r) \<in> set l \<and> p \<in> set (rec_ports r)}"

definition reject_rules :: "(string \<times> nat \<times> nat, real) dict \<Rightarrow> string list set" where
  "reject_rules d = {reject_rule_args ip p sp | ip p sp. (ip, p, sp) \<in> fst ` set d}"

definition learnable :: "string list \<Rightarrow> bool" where
  "learnable rule \<longleftrightarrow>
     (\<exists>ip p. rule = rule_args ip p) \<or> (\<exists>ip p sp. rule = reject_rule_args ip p sp)"

text \<open>
  The invariant of the rule manager: the chain is the start-up rules, untouched, below distinct
  rules that the tables record. So no rule the sidecar opened is beyond the reach of a sweep or a
  revocation.
\<close>

definition stacked :: "string list list \<Rightarrow> string list set \<Rightarrow> string list list \<Rightarrow> bool" where
  "stacked base rules ch \<longleftrightarrow> (\<exists>front. ch = front @ base \<and> distinct front \<and> set front \<subseteq> rules)"

definition accounted ::
  "('k \<Rightarrow> string list list) \<Rightarrow> string list list \<Rightarrow> 'k sidecar \<Rightarrow> bool" where
  "accounted chain base s \<longleftrightarrow>
     dict_ok (LEARNED s) \<and> dict_ok (REJECTED s) \<and>
     stacked base (accept_rules (LEARNED s) \<union> reject_rules (REJECTED s)) (chain (kernel s))"

lemma rule_args_inject [simp]: "rule_args ip p = rule_args ip' p' \<longleftrightarrow> ip = ip' \<and> p = p'"
  by (auto simp: rule_args_def split: option.splits)

lemma reject_rule_args_inject [simp]:
  "reject_rule_args ip p sp = reject_rule_args ip' p' sp' \<longleftrightarrow> ip = ip' \<and> p = p' \<and> sp = sp'"
  by (auto simp: reject_rule_args_def split: if_splits)

lemma rule_args_not_reject [simp]:
  "rule_args ip p \<noteq> reject_rule_args ip' p' sp" "reject_rule_args ip' p' sp \<noteq> rule_args ip p"
  by (auto simp: rule_args_def reject_rule_args_def split: option.splits)

lemma rule_args_in_range [simp]: "rule_args ip p \<in> range (rule_args ip') \<longleftrightarrow> ip = ip'"
  by auto

lemma learnable_rule [simp]: "learnable (rule_args ip p)" "learnable (reject_rule_args ip q sp)"
  by (auto simp: learnable_def)

lemma accept_rules_delete:
  "accept_rules (AList.delete ip l) = accept_rules l - range (rule_args ip)"
  by (fastforce simp: accept_rules_def set_dict_delete)

lemma accept_rules_update:
  "dict_ok l \<Longrightarrow>
     accept_rules (AList.update ip r l) =
       (accept_rules l - range (rule_args ip)) \<union> rule_args ip ` set (rec_ports r)"
  by (fastforce simp: accept_rules_def set_dict_update)

lemma accept_rules_lookup:
  "dict_ok l \<Longrightarrow> map_of l ip = Some r \<Longrightarrow>
     rule_args ip p \<in> accept_rules l \<longleftrightarrow> p \<in> set (rec_ports r)"
  by (auto simp: accept_rules_def map_of_eq_Some_iff dest: eq_key_imp_eq_value)

lemma accept_rules_absent:
  "map_of l ip = None \<Longrightarrow> rule_args ip p \<notin> accept_rules l"
  by (auto simp: accept_rules_def map_of_eq_None_iff rev_image_eqI)

lemma reject_rules_delete:
  "reject_rules (AList.delete (ip, p, sp) d) = reject_rules d - {reject_rule_args ip p sp}"
  by (force simp: reject_rules_def set_dict_delete)

lemma reject_rules_update:
  "reject_rules (AList.update (ip, p, sp) e d) = insert (reject_rule_args ip p sp) (reject_rules d)"
  by (auto simp: reject_rules_def dom_update)

lemma reject_rule_in_reject_rules:
  "reject_rule_args ip p sp \<in> reject_rules d \<longleftrightarrow> (ip, p, sp) \<in> fst ` set d"
  by (force simp: reject_rules_def)

lemma rules_disjoint [simp]:
  "rule_args ip p \<notin> reject_rules d" "reject_rule_args ip q sp \<notin> accept_rules l"
  by (auto simp: reject_rules_def accept_rules_def)

lemma record_allow_frame [simp]:
  "REJECTED (record_allow ip p e s) = REJECTED s" "kernel (record_allow ip p e s) = kernel s"
  "dict_ok (LEARNED s) \<Longrightarrow> dict_ok (LEARNED (record_allow ip p e s))"
  by (simp_all add: record_allow_def split: option.splits)

lemma record_host_frame [simp]:
  "REJECTED (record_host cfg now host item s) = REJECTED s"
  "kernel (record_host cfg now host item s) = kernel s"
  "dict_ok (LEARNED s) \<Longrightarrow> dict_ok (LEARNED (record_host cfg now host item s))"
  by (simp_all add: record_host_def Let_def split: option.splits prod.splits)

lemma stacked_mono: "stacked base R ch \<Longrightarrow> R \<subseteq> R' \<Longrightarrow> stacked base R' ch"
  unfolding stacked_def by blast

lemma stacked_insert:
  "stacked base R ch \<Longrightarrow> rule \<notin> set ch \<Longrightarrow> stacked base (insert rule R) (rule # ch)"
  unfolding stacked_def by (metis Un_iff append_Cons distinct.simps(2) insert_mono list.simps(15) set_append)

lemma stacked_remove1:
  assumes "stacked base R ch" "\<forall>r\<in>set base. \<not> learnable r" "learnable rule"
  shows "stacked base (R - {rule}) (remove1 rule ch)"
proof -
  obtain front where f: "ch = front @ base" "distinct front" "set front \<subseteq> R"
    using assms(1) by (auto simp: stacked_def)
  have "rule \<notin> set base" using assms(2,3) by blast
  then have "remove1 rule ch = remove1 rule front @ base"
    using f(1) by (simp add: remove1_append remove1_idem)
  moreover have "set (remove1 rule front) \<subseteq> R - {rule}"
    using f(2,3) by auto
  ultimately show ?thesis
    using f(2) unfolding stacked_def by (metis distinct_remove1)
qed

lemma stacked_learnable:
  "stacked base R ch \<Longrightarrow> \<forall>r\<in>set base. \<not> learnable r \<Longrightarrow> learnable rule \<Longrightarrow> rule \<in> set ch \<Longrightarrow>
     rule \<in> R"
  unfolding stacked_def by auto


text \<open>
  The sweep as a filter. \<open>swept_record\<close> is what a sweep at \<open>now\<close> leaves of a learned address: it
  forgets the rules whose own lifetime is over, and the address once nothing of it is live.
\<close>

definition rule_lifetime :: "learned \<Rightarrow> real" where
  "rule_lifetime r = (case rec_rule_expire r of None \<Rightarrow> rec_expire r | Some e \<Rightarrow> e)"

definition swept_ports :: "real \<Rightarrow> learned \<Rightarrow> learned" where
  "swept_ports now r = (if rule_lifetime r \<le> now then r\<lparr>rec_ports := []\<rparr> else r)"

definition swept_record :: "real \<Rightarrow> string \<times> learned \<Rightarrow> (string \<times> learned) option" where
  "swept_record now item =
     (let r = swept_ports now (snd item)
      in if rec_expire r \<le> now \<and> rec_ports r = [] then None else Some (fst item, r))"

lemma swept_ports_expire [simp]: "rec_expire (swept_ports now r) = rec_expire r"
  by (simp add: swept_ports_def)

lemma update_middle:
  "k \<notin> fst ` set a \<Longrightarrow> AList.update k v (a @ (k, w) # b) = a @ (k, v) # b"
  by (induction a) auto

lemma delete_middle:
  "k \<notin> fst ` set a \<Longrightarrow> k \<notin> fst ` set b \<Longrightarrow> AList.delete k (a @ (k, w) # b) = a @ b"
proof -
  assume "k \<notin> fst ` set a" "k \<notin> fst ` set b"
  then have "AList.delete k a = a" "AList.delete k b = b" by (simp_all add: delete_idem)
  then show ?thesis by (simp add: AList.delete_eq)
qed

lemma sweep_learned_record_step:
  assumes "LEARNED s = a @ (ip, r) # b" "dict_ok (LEARNED s)"
  shows "LEARNED (snd (sweep_learned_record cfg run now (ip, r) (ex, s))) =
      a @ (case swept_record now (ip, r) of None \<Rightarrow> [] | Some x \<Rightarrow> [x]) @ b"
    and "REJECTED (snd (sweep_learned_record cfg run now (ip, r) (ex, s))) = REJECTED s"
    and "kernel (snd (sweep_learned_record cfg run now (ip, r) (ex, s))) =
      (if rule_lifetime r \<le> now then remove_ports cfg run ip (rec_ports r) (kernel s) else kernel s)"
proof -
  have fresh: "ip \<notin> fst ` set a" "ip \<notin> fst ` set b" using assms by auto
  note defs = sweep_learned_record_def sweep_learned_rules_def swept_record_def swept_ports_def
    Let_def assms(1) update_middle [OF fresh(1)] delete_middle [OF fresh]
  have lt: "(case rec_rule_expire r of None \<Rightarrow> rec_expire r | Some e \<Rightarrow> e) = rule_lifetime r"
    by (simp add: rule_lifetime_def)
  have nil: "r\<lparr>rec_ports := []\<rparr> = r" if "rec_ports r = []" using that by simp
  show "LEARNED (snd (sweep_learned_record cfg run now (ip, r) (ex, s))) =
      a @ (case swept_record now (ip, r) of None \<Rightarrow> [] | Some x \<Rightarrow> [x]) @ b"
    using nil by (auto simp: defs lt)
  show "REJECTED (snd (sweep_learned_record cfg run now (ip, r) (ex, s))) = REJECTED s"
    by (simp add: defs)
  show "kernel (snd (sweep_learned_record cfg run now (ip, r) (ex, s))) =
      (if rule_lifetime r \<le> now then remove_ports cfg run ip (rec_ports r) (kernel s) else kernel s)"
    by (auto simp: defs lt remove_ports_def)
qed

lemma swept_record_dict_ok:
  "dict_ok (a @ (ip, r) # b) \<Longrightarrow>
     dict_ok (a @ (case swept_record now (ip, r) of None \<Rightarrow> [] | Some x \<Rightarrow> [x]) @ b)"
  by (auto simp: swept_record_def Let_def)

lemma map_filter_Cons:
  "List.map_filter f (x # xs) = (case f x of None \<Rightarrow> [] | Some y \<Rightarrow> [y]) @ List.map_filter f xs"
  by (simp add: List.map_filter_simps split: option.splits)

lemma sweep_learned_fold:
  assumes "LEARNED s = a @ xs" "dict_ok (LEARNED s)"
  shows "LEARNED (snd (fold (sweep_learned_record cfg run now) xs (ex, s))) =
      a @ List.map_filter (swept_record now) xs \<and>
    REJECTED (snd (fold (sweep_learned_record cfg run now) xs (ex, s))) = REJECTED s"
  using assms
proof (induction xs arbitrary: a ex s)
  case (Cons x xs)
  obtain ip r where x: "x = (ip, r)" by (cases x)
  obtain ex' s' where st: "sweep_learned_record cfg run now x (ex, s) = (ex', s')" by fastforce
  have l: "LEARNED s = a @ (ip, r) # xs" using Cons.prems(1) x by simp
  from sweep_learned_record_step [OF l Cons.prems(2), of cfg run now ex]
  have s': "LEARNED s' = (a @ (case swept_record now x of None \<Rightarrow> [] | Some y \<Rightarrow> [y])) @ xs"
      "REJECTED s' = REJECTED s"
    using st x by simp_all
  have "dict_ok (LEARNED s')"
    using swept_record_dict_ok Cons.prems(2) unfolding s'(1) l x append_assoc by blast
  from Cons.IH [OF s'(1) this, of ex'] show ?case
    by (simp add: st s'(2) map_filter_Cons split: option.splits)
qed (simp add: List.map_filter_simps)

lemma discard_rejects_tables:
  "REJECTED (fold (discard_reject cfg run) keys s) = filter (\<lambda>(k, e). k \<notin> set keys) (REJECTED s) \<and>
   LEARNED (fold (discard_reject cfg run) keys s) = LEARNED s"
proof (induction keys arbitrary: s)
  case (Cons key keys)
  have "LEARNED (discard_reject cfg run key s) = LEARNED s"
    "REJECTED (discard_reject cfg run key s) = filter (\<lambda>(k, e). key \<noteq> k) (REJECTED s)"
    by (simp_all add: discard_reject_def AList.delete_eq)
  with Cons.IH [of "discard_reject cfg run key s"] show ?case
    by (auto simp: case_prod_unfold intro: filter_cong)
qed (simp add: case_prod_unfold)

lemma sweep_rejected_tables:
  assumes "dict_ok (REJECTED s)"
  shows "REJECTED (sweep_rejected cfg run now s) = filter (\<lambda>(k, e). now < e) (REJECTED s)"
    and "LEARNED (sweep_rejected cfg run now s) = LEARNED s"
proof -
  let ?gone = "set (map fst (filter (\<lambda>(key, e). e \<le> now) (REJECTED s)))"
  have gone: "k \<notin> ?gone \<longleftrightarrow> now < e"
    if "(k, e) \<in> set (REJECTED s)" for k e
    using that assms by (force dest: eq_key_imp_eq_value)
  have "filter (\<lambda>(k, e). k \<notin> ?gone) (REJECTED s) = filter (\<lambda>(k, e). now < e) (REJECTED s)"
  proof (rule filter_cong [OF refl])
    fix x assume mem: "x \<in> set (REJECTED s)"
    obtain k e where x: "x = (k, e)" by fastforce
    show "(case x of (k, e) \<Rightarrow> k \<notin> ?gone) = (case x of (k, e) \<Rightarrow> now < e)"
      using gone [of k e] mem unfolding x by (simp only: prod.case)
  qed
  then show "REJECTED (sweep_rejected cfg run now s) = filter (\<lambda>(k, e). now < e) (REJECTED s)"
    by (simp only: sweep_rejected_def discard_rejects_tables)
qed (simp add: sweep_rejected_def discard_rejects_tables)

lemma sweep_once_reference:
  assumes "dict_ok (LEARNED s)" "dict_ok (REJECTED s)"
  shows "LEARNED (snd (sweep_once cfg run now s)) = List.map_filter (swept_record now) (LEARNED s)"
    and "REJECTED (snd (sweep_once cfg run now s)) = filter (\<lambda>(k, e). now < e) (REJECTED s)"
  using sweep_learned_fold [of s "[]" "LEARNED s" cfg run now "[]"] assms
  by (simp_all add: sweep_once_def case_prod_unfold sweep_rejected_tables)

section \<open>What the sidecar relies on of iptables\<close>

text \<open>
  The documented behaviour of the three commands on the OUTPUT chain (\<open>chain k\<close>, top first): \<open>-C\<close>
  exits with 0 exactly when the rule is present and changes nothing, \<open>-I OUTPUT 1\<close> prepends the
  rule or fails, \<open>-D\<close> removes the first occurrence if there is one.
\<close>

locale iptables =
  fixes cfg :: config
    and run :: "'k runner"
    and chain :: "'k \<Rightarrow> string list list"
  assumes check_rule: "run (IPT cfg # ''-C'' # ''OUTPUT'' # rule) k = (r, k') \<Longrightarrow>
      chain k' = chain k \<and> (\<forall>c. r = Some c \<longrightarrow> (returncode c = 0 \<longleftrightarrow> rule \<in> set (chain k)))"
    and insert_rule: "run (IPT cfg # ''-I'' # ''OUTPUT'' # ''1'' # rule) k = (r, k') \<Longrightarrow>
      chain k' = chain k \<or> r \<noteq> None \<and> chain k' = rule # chain k"
    and delete_rule: "run (IPT cfg # ''-D'' # ''OUTPUT'' # rule) k = (r, k') \<Longrightarrow>
      chain k' = remove1 rule (chain k)"
begin

lemma chain_install:
  assumes "install cfg run ip p k = (r, k')"
  shows "chain k' = chain k \<or>
    r \<noteq> None \<and> rule_args ip p \<notin> set (chain k) \<and> chain k' = rule_args ip p # chain k"
proof -
  obtain b k1 where b: "rule_exists cfg run ip p k = (b, k1)" by fastforce
  then have c: "chain k1 = chain k" "\<forall>x. b = Some x \<longrightarrow> (x \<longleftrightarrow> rule_args ip p \<in> set (chain k))"
    using check_rule by (auto simp: rule_exists_def split: prod.splits)
  show ?thesis
  proof (cases "b = Some False")
    case True
    obtain r2 k2 where i: "run (IPT cfg # ''-I'' # ''OUTPUT'' # ''1'' # rule_args ip p) k1 = (r2, k2)"
      by fastforce
    with True assms b have "k' = k2" "r = None \<longleftrightarrow> r2 = None" by (auto simp: install_def)
    with insert_rule [OF i] True c show ?thesis by auto
  next
    case False
    then show ?thesis using assms b c(1)
      by (cases b) (auto simp: install_def split: bool.splits)
  qed
qed

lemma chain_install_reject:
  assumes "install_reject cfg run ip p sp k = (r, k')"
  shows "chain k' = chain k \<or> r \<noteq> None \<and> reject_rule_args ip p sp \<notin> set (chain k) \<and>
    chain k' = reject_rule_args ip p sp # chain k"
proof -
  obtain b k1 where b: "reject_rule_exists cfg run ip p sp k = (b, k1)" by fastforce
  then have c: "chain k1 = chain k"
      "\<forall>x. b = Some x \<longrightarrow> (x \<longleftrightarrow> reject_rule_args ip p sp \<in> set (chain k))"
    using check_rule by (auto simp: reject_rule_exists_def split: prod.splits)
  show ?thesis
  proof (cases "b = Some False")
    case True
    obtain r2 k2 where
      i: "run (IPT cfg # ''-I'' # ''OUTPUT'' # ''1'' # reject_rule_args ip p sp) k1 = (r2, k2)"
      by fastforce
    with True assms b have "k' = k2" "r = None \<longleftrightarrow> r2 = None" by (auto simp: install_reject_def)
    with insert_rule [OF i] True c show ?thesis by auto
  next
    case False
    then show ?thesis using assms b c(1)
      by (cases b) (auto simp: install_reject_def split: bool.splits)
  qed
qed

lemma chain_remove: "chain (snd (remove cfg run ip p k)) = remove1 (rule_args ip p) (chain k)"
  using delete_rule by (simp add: remove_def split: prod.splits)

lemma chain_remove_reject:
  "chain (snd (remove_reject cfg run (ip, p, sp) k)) = remove1 (reject_rule_args ip p sp) (chain k)"
  using delete_rule by (simp add: remove_reject_def split: prod.splits)

lemma stacked_remove_ports:
  assumes "\<forall>r\<in>set base. \<not> learnable r" "stacked base R (chain k)"
  shows "stacked base (R - rule_args ip ` set ports) (chain (remove_ports cfg run ip ports k))"
  using assms(2) unfolding remove_ports_def
proof (induction ports arbitrary: k R)
  case (Cons p ports)
  from stacked_remove1 [OF Cons.prems assms(1), of "rule_args ip p"]
  have "stacked base (R - {rule_args ip p}) (chain (snd (remove cfg run ip p k)))"
    by (simp add: chain_remove)
  from Cons.IH [OF this] show ?case by (auto simp: set_diff_eq)
qed simp

lemma accounted_discard_reject:
  assumes "\<forall>r\<in>set base. \<not> learnable r" "accounted chain base s"
  shows "accounted chain base (discard_reject cfg run key s)"
proof -
  obtain ip p sp where key: "key = (ip, p, sp)" by (cases key)
  have "stacked base (accept_rules (LEARNED s) \<union> reject_rules (REJECTED s) - {reject_rule_args ip p sp})
      (chain (snd (remove_reject cfg run key (kernel s))))"
    unfolding key chain_remove_reject
    by (rule stacked_remove1) (use assms in \<open>auto simp: accounted_def\<close>)
  then show ?thesis using assms(2)
    by (auto simp: accounted_def discard_reject_def key reject_rules_delete Un_Diff
        elim: stacked_mono)
qed

lemma accounted_discard_rejects:
  assumes "\<forall>r\<in>set base. \<not> learnable r" "accounted chain base s"
  shows "accounted chain base (fold (discard_reject cfg run) keys s)"
  using assms(2)
  by (induction keys arbitrary: s) (auto intro: accounted_discard_reject [OF assms(1)])


lemma discard_rejects_keep_accepts:
  "rule_args ip p \<in> set (chain (kernel (fold (discard_reject cfg run) keys s))) \<longleftrightarrow>
     rule_args ip p \<in> set (chain (kernel s))"
proof (induction keys arbitrary: s)
  case (Cons key keys)
  obtain ip' q sp where key: "key = (ip', q, sp)" by (cases key)
  have "rule_args ip p \<in> set (chain (kernel (discard_reject cfg run key s))) \<longleftrightarrow>
      rule_args ip p \<in> set (chain (kernel s))"
    by (simp add: discard_reject_def key chain_remove_reject in_set_remove1)
  with Cons.IH show ?case by simp
qed simp

text \<open>Every operation keeps the chain accounted for.\<close>

lemma accounted_record_allow:
  assumes "accounted chain base s" "chain k' = chain (kernel s) \<or>
    rule_args ip p \<notin> set (chain (kernel s)) \<and> chain k' = rule_args ip p # chain (kernel s)"
  shows "accounted chain base (record_allow ip p e (s\<lparr>kernel := k'\<rparr>))"
proof -
  let ?R = "accept_rules (LEARNED s) \<union> reject_rules (REJECTED s)"
  have ok: "dict_ok (LEARNED s)" "stacked base ?R (chain (kernel s))"
    using assms(1) by (auto simp: accounted_def)
  have "stacked base (insert (rule_args ip p) ?R) (chain k')"
    using assms(2) stacked_insert [OF ok(2)] stacked_mono [OF ok(2)] by (metis subset_insertI)
  moreover have "insert (rule_args ip p) ?R \<subseteq>
      accept_rules (LEARNED (record_allow ip p e (s\<lparr>kernel := k'\<rparr>))) \<union> reject_rules (REJECTED s)"
  proof (cases "map_of (LEARNED s) ip")
    case None
    with accept_rules_absent [OF None] show ?thesis
      by (auto simp: record_allow_def accept_rules_update ok)
  next
    case (Some r)
    with accept_rules_lookup [OF ok(1) Some] show ?thesis
      by (auto simp: record_allow_def accept_rules_update ok)
  qed
  ultimately have "stacked base (accept_rules (LEARNED (record_allow ip p e (s\<lparr>kernel := k'\<rparr>))) \<union>
      reject_rules (REJECTED s)) (chain k')"
    by (rule stacked_mono)
  with assms(1) show ?thesis by (simp add: accounted_def)
qed

lemma accounted_allow:
  assumes "\<forall>r\<in>set base. \<not> learnable r" "accounted chain base s"
  shows "accounted chain base (snd (allow cfg run now ip p ttl fl s))"
proof -
  obtain r k' where i: "install cfg run ip p (kernel s) = (r, k')" by fastforce
  note c = chain_install [OF i]
  show ?thesis
  proof (cases r)
    case None
    then have "chain k' = chain (kernel s)" using c by simp
    with None i assms show ?thesis by (simp add: allow_def accounted_def)
  next
    case (Some u)
    have "accounted chain base (record_allow ip p e (s\<lparr>kernel := k'\<rparr>))" for e
      using accounted_record_allow [OF assms(2)] c by blast
    with Some i accounted_discard_rejects [OF assms(1)] show ?thesis
      by (auto simp: allow_def Let_def supersede_port_denies_def)
  qed
qed

lemma accounted_reject:
  assumes "accounted chain base s"
  shows "accounted chain base (snd (reject cfg run now ip p ttl sp s))"
proof -
  let ?R = "accept_rules (LEARNED s) \<union> reject_rules (REJECTED s)"
  obtain r k' where i: "install_reject cfg run ip p sp (kernel s) = (r, k')" by fastforce
  note c = chain_install_reject [OF i]
  have ok: "dict_ok (REJECTED s)" "stacked base ?R (chain (kernel s))"
    using assms(1) by (auto simp: accounted_def)
  have "stacked base (insert (reject_rule_args ip p sp) ?R) (chain k')"
    using c stacked_insert [OF ok(2)] stacked_mono [OF ok(2)] by (metis subset_insertI)
  then show ?thesis
    using i c assms by (cases r) (auto simp: reject_def accounted_def reject_rules_update)
qed

lemma accounted_learn_ports:
  assumes "\<forall>r\<in>set base. \<not> learnable r" "accounted chain base s"
  shows "accounted chain base (snd (learn_ports cfg run clk ip ports ttl fl s))"
  using assms(2)
proof (induction ports arbitrary: clk s)
  case (Cons p ports)
  obtain r s1 where a: "allow cfg run (clk 0) ip p ttl fl s = (r, s1)" by fastforce
  with accounted_allow [OF assms(1) Cons.prems] have "accounted chain base s1" by (metis snd_conv)
  with Cons.IH a show ?case by (cases r) auto
qed simp

lemma accounted_learn_all:
  assumes "\<forall>r\<in>set base. \<not> learnable r" "accounted chain base s"
  shows "accounted chain base (snd (learn_all cfg run clk recs ports cap s))"
  using assms(2)
proof (induction recs arbitrary: clk s)
  case (Cons a recs)
  obtain ip ttl where a: "a = (ip, ttl)" by (cases a)
  let ?t = "case cap of None \<Rightarrow> ttl | Some c \<Rightarrow> min ttl c"
  obtain r s1 where l: "learn_ports cfg run clk ip ports ?t (cap = None) s = (r, s1)" by fastforce
  with accounted_learn_ports [OF assms(1) Cons.prems] have "accounted chain base s1"
    by (metis snd_conv)
  with Cons.IH a l show ?case by (cases r) (auto simp: Let_def)
qed simp

lemma accounted_record_host:
  assumes "accounted chain base s"
  shows "accounted chain base (record_host cfg now host item s)"
proof -
  obtain ip ttl where item: "item = (ip, ttl)" by (cases item)
  have ok: "dict_ok (LEARNED s)" using assms by (simp add: accounted_def)
  have "accept_rules (LEARNED s) \<subseteq> accept_rules (LEARNED (record_host cfg now host item s))"
  proof (cases "map_of (LEARNED s) ip")
    case None
    with accept_rules_absent [OF None] show ?thesis
      by (auto simp: record_host_def item accept_rules_update ok)
  next
    case (Some r)
    with accept_rules_lookup [OF ok Some] show ?thesis
      by (auto simp: record_host_def item accept_rules_update ok)
  qed
  then have "accept_rules (LEARNED s) \<union> reject_rules (REJECTED s) \<subseteq>
      accept_rules (LEARNED (record_host cfg now host item s)) \<union> reject_rules (REJECTED s)"
    by blast
  with assms show ?thesis by (auto simp: accounted_def elim: stacked_mono)
qed

lemma accounted_record_hosts:
  "accounted chain base s \<Longrightarrow> accounted chain base (record_hosts cfg now recs host s)"
  unfolding record_hosts_def
  by (induction recs arbitrary: s) (auto intro: accounted_record_host)


lemma accounted_sweep_record:
  assumes "\<forall>r\<in>set base. \<not> learnable r" "accounted chain base s" "LEARNED s = a @ (ip, r) # b"
  shows "accounted chain base (snd (sweep_learned_record cfg run now (ip, r) (ex, s)))"
proof -
  have ok: "dict_ok (LEARNED s)" "dict_ok (REJECTED s)"
      "stacked base (accept_rules (LEARNED s) \<union> reject_rules (REJECTED s)) (chain (kernel s))"
    using assms(2) by (auto simp: accounted_def)
  let ?L = "a @ (case swept_record now (ip, r) of None \<Rightarrow> [] | Some x \<Rightarrow> [x]) @ b"
  let ?k = "if rule_lifetime r \<le> now then remove_ports cfg run ip (rec_ports r) (kernel s) else kernel s"
  have "stacked base (accept_rules ?L \<union> reject_rules (REJECTED s)) (chain ?k)"
  proof (cases "rule_lifetime r \<le> now")
    case True
    have sub: "accept_rules (LEARNED s) - rule_args ip ` set (rec_ports r) \<subseteq> accept_rules ?L"
      unfolding assms(3) accept_rules_def by auto
    have "stacked base (accept_rules (LEARNED s) \<union> reject_rules (REJECTED s) -
        rule_args ip ` set (rec_ports r)) (chain ?k)"
      using stacked_remove_ports [OF assms(1) ok(3)] True by simp
    then show ?thesis by (rule stacked_mono) (use sub in blast)
  next
    case False
    then have "accept_rules (LEARNED s) \<subseteq> accept_rules ?L"
      unfolding assms(3) accept_rules_def swept_record_def swept_ports_def by fastforce
    with False ok(3) show ?thesis by (auto elim!: stacked_mono)
  qed
  with sweep_learned_record_step [OF assms(3) ok(1)] ok(2)
    swept_record_dict_ok [OF ok(1) [unfolded assms(3)]] show ?thesis
    by (simp only: accounted_def)
qed

lemma accounted_sweep_fold:
  assumes "\<forall>r\<in>set base. \<not> learnable r"
  shows "accounted chain base s \<Longrightarrow> LEARNED s = a @ xs \<Longrightarrow>
    accounted chain base (snd (fold (sweep_learned_record cfg run now) xs (ex, s)))"
proof (induction xs arbitrary: a ex s)
  case (Cons x xs)
  obtain ip r where x: "x = (ip, r)" by (cases x)
  obtain ex' s' where st: "sweep_learned_record cfg run now x (ex, s) = (ex', s')" by fastforce
  have l: "LEARNED s = a @ (ip, r) # xs" using Cons.prems(2) x by simp
  have "dict_ok (LEARNED s)" using Cons.prems(1) by (simp add: accounted_def)
  from sweep_learned_record_step(1) [OF l this, of cfg run now ex]
  have "LEARNED s' = (a @ (case swept_record now x of None \<Rightarrow> [] | Some y \<Rightarrow> [y])) @ xs"
    using st x by simp
  moreover have "accounted chain base s'"
    using accounted_sweep_record [OF assms Cons.prems(1) l, of now ex] st x by simp
  ultimately show ?case using Cons.IH [of s' _ ex'] st by simp
qed simp

lemma accounted_sweep_once:
  assumes "\<forall>r\<in>set base. \<not> learnable r" "accounted chain base s"
  shows "accounted chain base (snd (sweep_once cfg run now s))"
  using accounted_sweep_fold [OF assms, of "[]" "LEARNED s" now "[]"]
    accounted_discard_rejects [OF assms(1)]
  by (simp add: sweep_once_def case_prod_unfold sweep_rejected_def)

lemma accounted_forget_learned:
  assumes "\<forall>r\<in>set base. \<not> learnable r" "accounted chain base s"
  shows "accounted chain base (forget_learned cfg run ip s)"
proof -
  have ok: "dict_ok (LEARNED s)" "dict_ok (REJECTED s)"
      "stacked base (accept_rules (LEARNED s) \<union> reject_rules (REJECTED s)) (chain (kernel s))"
    using assms(2) by (auto simp: accounted_def)
  show ?thesis
  proof (cases "map_of (LEARNED s) ip")
    case None
    then have "AList.delete ip (LEARNED s) = LEARNED s"
      by (simp add: delete_idem map_of_eq_None_iff)
    with None assms(2) show ?thesis
      by (simp add: forget_learned_def remove_learned_ports_def Let_def)
  next
    case (Some r)
    have "accept_rules (LEARNED s) \<union> reject_rules (REJECTED s) - rule_args ip ` set (rec_ports r)
        \<subseteq> accept_rules (AList.delete ip (LEARNED s)) \<union> reject_rules (REJECTED s)"
      using accept_rules_lookup [OF ok(1) Some] by (auto simp: accept_rules_delete)
    with stacked_remove_ports [OF assms(1) ok(3), of ip "rec_ports r"] ok(1,2) show ?thesis
      by (auto simp: accounted_def forget_learned_def remove_learned_ports_def Let_def Some
          elim: stacked_mono)
  qed
qed

lemma accounted_drop_for_host:
  assumes "\<forall>r\<in>set base. \<not> learnable r" "accounted chain base s"
  shows "accounted chain base (snd (drop_for_host cfg run host decision s))"
proof -
  have "accounted chain base (fold (forget_learned cfg run) ips s)" for ips
    using assms(2)
    by (induction ips arbitrary: s) (auto intro: accounted_forget_learned [OF assms(1)])
  then show ?thesis
    using accounted_discard_rejects [OF assms] assms(2)
    by (simp add: drop_for_host_def Let_def drop_learned_rules_def drop_reject_rules_def)
qed

end

text \<open>
  With a working \<open>iptables\<close> the insert succeeds, so an allow opens the address.
\<close>

locale working_iptables = iptables +
  assumes check_works: "fst (run (IPT cfg # ''-C'' # ''OUTPUT'' # rule) k) \<noteq> None"
    and insert_works: "fst (run (IPT cfg # ''-I'' # ''OUTPUT'' # ''1'' # rule) k) \<noteq> None"
      "chain (snd (run (IPT cfg # ''-I'' # ''OUTPUT'' # ''1'' # rule) k)) = rule # chain k"
begin

lemma install_works:
  "\<exists>k'. install cfg run ip p k = (Some (), k') \<and> rule_args ip p \<in> set (chain k')"
proof -
  obtain c k1 where c: "run (IPT cfg # ''-C'' # ''OUTPUT'' # rule_args ip p) k = (Some c, k1)"
    using check_works by (metis not_None_eq prod.collapse)
  note ck = check_rule [OF c]
  obtain c2 k2 where i: "run (IPT cfg # ''-I'' # ''OUTPUT'' # ''1'' # rule_args ip p) k1 = (Some c2, k2)"
    using insert_works(1) by (metis not_None_eq prod.collapse)
  show ?thesis
  proof (cases "returncode c = 0")
    case True
    with c ck show ?thesis by (simp add: install_def rule_exists_def)
  next
    case False
    with c i insert_works(2) [of "rule_args ip p" k1] show ?thesis
      by (simp add: install_def rule_exists_def)
  qed
qed

end


section \<open>A concrete chain\<close>

text \<open>
  The smallest kernel that meets the laws: the filter OUTPUT chain as the list of its rules.
\<close>

definition chain_run :: "string list list runner" where
  "chain_run args ch =
     (if py_slice 1 3 args = [''-C'', ''OUTPUT'']
      then (Some (Completed (if drop 3 args \<in> set ch then 0 else 1) []), ch)
      else if py_slice 1 4 args = [''-I'', ''OUTPUT'', ''1'']
      then (Some (Completed 0 []), drop 4 args # ch)
      else if py_slice 1 3 args = [''-D'', ''OUTPUT'']
      then (Some (Completed (if drop 3 args \<in> set ch then 0 else 1) []), remove1 (drop 3 args) ch)
      else (Some (Completed 2 []), ch))"

interpretation chain_iptables: working_iptables cfg chain_run "\<lambda>ch. ch"
  by unfold_locales (auto simp: chain_run_def py_slice_def numeral_eq_Suc)


section \<open>Properties\<close>

text \<open>A small state for the witnesses: one learned address, one rejected flow, one start-up rule.\<close>

definition example_base :: "string list list" where
  "example_base = [[''-o'', ''lo'', ''-j'', ''ACCEPT'']]"

definition example_rules :: "string list list sidecar" where
  "example_rules =
     (initial_sidecar
        ([rule_args ''1.2.3.4'' None, reject_rule_args ''5.6.7.8'' 443 0] @ example_base))
     \<lparr>LEARNED := [(''1.2.3.4'', \<lparr>rec_expire = 100, rec_rule_expire = Some 10, rec_ports = [None],
        rec_host = Some ''a.org''\<rparr>)],
      REJECTED := [((''5.6.7.8'', 443, 0), 20)]\<rparr>"

lemma example_base_ok: "\<forall>r\<in>set example_base. \<not> learnable r"
  by (auto simp: example_base_def learnable_def rule_args_def reject_rule_args_def)

lemma example_learned:
  "LEARNED example_rules = [(''1.2.3.4'', \<lparr>rec_expire = 100, rec_rule_expire = Some 10,
     rec_ports = [None], rec_host = Some ''a.org''\<rparr>)]"
  by (simp add: example_rules_def)

lemma example_accounted: "accounted (\<lambda>ch. ch) example_base example_rules"
  unfolding accounted_def stacked_def
  by (auto simp: example_rules_def initial_sidecar_def accept_rules_def reject_rules_def
      intro!: exI [of _ "[rule_args ''1.2.3.4'' None, reject_rule_args ''5.6.7.8'' 443 0]"])

lemma swept_record_SomeD:
  assumes "swept_record now (ip', r') = Some (ip, r)" "p \<in> set (rec_ports r)"
  shows "ip' = ip \<and> r' = r \<and> now < rule_lifetime r"
  using assms by (auto simp: swept_record_def swept_ports_def Let_def split: if_splits)

lemma set_map_filter: "y \<in> set (List.map_filter f xs) \<longleftrightarrow> (\<exists>x\<in>set xs. f x = Some y)"
  by (force simp: map_filter_def)

lemma forget_learned_tables:
  "LEARNED (fold (forget_learned cfg run) ips s) = filter (\<lambda>(ip, r). ip \<notin> set ips) (LEARNED s)"
proof (induction ips arbitrary: s)
  case (Cons ip ips)
  have "LEARNED (forget_learned cfg run ip s) = filter (\<lambda>(k, r). ip \<noteq> k) (LEARNED s)"
    by (simp add: forget_learned_def remove_learned_ports_def Let_def AList.delete_eq
        split: option.splits)
  with Cons.IH [of "forget_learned cfg run ip s"] show ?case
    by (auto simp: case_prod_unfold intro: filter_cong)
qed (simp add: case_prod_unfold)

text \<open>
  A sweep at time \<open>now\<close> leaves in the OUTPUT chain no ACCEPT whose rule lifetime (\<open>rule_expire\<close>,
  or the record's expiry when it has none) is over and no REJECT whose window is over, and the
  start-up rules below them stay as they were.
\<close>

theorem sweep_expires_rules:
  assumes "iptables cfg run chain" "\<forall>r\<in>set base. \<not> learnable r" "accounted chain base s"
    "sweep_once cfg run now s = (swept, s')"
  shows "(rule_args ip p \<in> set (chain (kernel s')) \<longrightarrow>
       (\<exists>r. map_of (LEARNED s) ip = Some r \<and> p \<in> set (rec_ports r) \<and> now < rule_lifetime r)) \<and>
    (reject_rule_args ip q sp \<in> set (chain (kernel s')) \<longrightarrow>
       (\<exists>e. map_of (REJECTED s) (ip, q, sp) = Some e \<and> now < e)) \<and>
    (\<exists>front. chain (kernel s') = front @ base)"
proof (intro conjI)
  have acc: "accounted chain base s'"
    using iptables.accounted_sweep_once [OF assms(1-3), of now] assms(4) by simp
  have ok: "dict_ok (LEARNED s)" "dict_ok (REJECTED s)" using assms(3) by (auto simp: accounted_def)
  note tables = sweep_once_reference [OF ok, of cfg run now, unfolded assms(4) snd_conv]
  have st: "stacked base (accept_rules (LEARNED s') \<union> reject_rules (REJECTED s')) (chain (kernel s'))"
    using acc by (simp add: accounted_def)
  note recorded = stacked_learnable [OF st assms(2)]
  show "rule_args ip p \<in> set (chain (kernel s')) \<longrightarrow>
      (\<exists>r. map_of (LEARNED s) ip = Some r \<and> p \<in> set (rec_ports r) \<and> now < rule_lifetime r)"
    using recorded [of "rule_args ip p"] ok(1)
    by (auto simp: accept_rules_def tables set_map_filter map_of_eq_Some_iff
        dest!: swept_record_SomeD)
  show "reject_rule_args ip q sp \<in> set (chain (kernel s')) \<longrightarrow>
      (\<exists>e. map_of (REJECTED s) (ip, q, sp) = Some e \<and> now < e)"
    using recorded [of "reject_rule_args ip q sp"] ok(2)
    by (fastforce simp: reject_rules_def tables map_of_eq_Some_iff)
  show "\<exists>front. chain (kernel s') = front @ base"
    using st by (auto simp: stacked_def)
qed

theorem sweep_expires_rules_witness:
  "rule_args ''1.2.3.4'' None \<notin>
     set (kernel (snd (sweep_once default_config chain_run 15 example_rules))) \<and>
   (\<exists>front. kernel (snd (sweep_once default_config chain_run 15 example_rules)) =
     front @ example_base)"
  using sweep_expires_rules [OF chain_iptables.iptables_axioms example_base_ok example_accounted
      prod.collapse [symmetric], of "''1.2.3.4''" None default_config 15]
  by (simp add: example_rules_def initial_sidecar_def rule_lifetime_def)

lemma revoke_closes:
  assumes "iptables cfg run chain" "\<forall>r\<in>set base. \<not> learnable r" "accounted chain base s"
    "drop_for_host cfg run host ''allowed'' s = (targets, s')"
  shows "{ip. \<exists>r h. map_of (LEARNED s) ip = Some r \<and> rec_host r = Some h \<and> lower h = lower host}
      \<union> {host, lower host} \<subseteq> set targets \<and>
    (\<forall>ip \<in> set targets. \<forall>p. rule_args ip p \<notin> set (chain (kernel s')) \<and>
      map_of (LEARNED s') ip = None)"
proof (intro conjI ballI allI)
  have ok: "dict_ok (LEARNED s)" using assms(3) by (simp add: accounted_def)
  have tg: "targets = drop_targets host s"
    and s': "s' = drop_learned_rules cfg run targets s"
    using assms(4) by (auto simp: drop_for_host_def Let_def)
  show "{ip. \<exists>r h. map_of (LEARNED s) ip = Some r \<and> rec_host r = Some h \<and> lower h = lower host}
      \<union> {host, lower host} \<subseteq> set targets"
    unfolding tg drop_targets_def Let_def using ok by (force simp: map_of_eq_Some_iff)
  fix ip p assume "ip \<in> set targets"
  then have gone: "ip \<notin> fst ` set (LEARNED s')"
    by (force simp: s' drop_learned_rules_def forget_learned_tables)
  then show none: "map_of (LEARNED s') ip = None" by (simp add: map_of_eq_None_iff)
  have "accounted chain base s'"
    using iptables.accounted_drop_for_host [OF assms(1-3), of host "''allowed''"] assms(4) by simp
  then have "rule_args ip p \<in> accept_rules (LEARNED s')" if "rule_args ip p \<in> set (chain (kernel s'))"
    using that stacked_learnable [OF _ assms(2)] by (force simp: accounted_def)
  with accept_rules_absent [OF none] show "rule_args ip p \<notin> set (chain (kernel s'))" by blast
qed


text \<open>
  Revoking an allow: \<open>drop_for_host(host, "allowed")\<close> returns every address recorded under the
  host's name (in any case) and the host itself, and no ACCEPT for any of them is left.
\<close>

theorem revoke_closes_host:
  assumes "iptables cfg run chain" "\<forall>r\<in>set base. \<not> learnable r" "accounted chain base s"
    "drop_for_host cfg run host ''allowed'' s = (targets, s')"
  shows "{ip. \<exists>r h. map_of (LEARNED s) ip = Some r \<and> rec_host r = Some h \<and> lower h = lower host}
      \<union> {host, lower host} \<subseteq> set targets \<and>
    (\<forall>ip \<in> set targets. \<forall>p. rule_args ip p \<notin> set (chain (kernel s')) \<and>
      map_of (LEARNED s') ip = None)"
  using revoke_closes [OF assms] .

theorem revoke_closes_host_witness:
  "rule_args ''1.2.3.4'' None \<notin>
     set (kernel (snd (drop_for_host default_config chain_run ''A.org'' ''allowed'' example_rules)))"
proof -
  let ?d = "drop_for_host default_config chain_run ''A.org'' ''allowed'' example_rules"
  have "''1.2.3.4'' \<in> set (fst ?d)"
    by (simp add: drop_for_host_def drop_targets_def Let_def example_rules_def lower_def
        lower_char_def char_of_def bit_0)
  with revoke_closes_host [OF chain_iptables.iptables_axioms example_base_ok example_accounted,
      of default_config "''A.org''" "fst ?d" "snd ?d"]
  show ?thesis by simp
qed


lemma map_of_record_allow:
  "\<exists>r. map_of (LEARNED (record_allow ip p e s)) ip = Some r \<and> p \<in> set (rec_ports r) \<and>
     e \<le> rule_lifetime r \<and>
     (\<forall>r0 e0. map_of (LEARNED s) ip = Some r0 \<longrightarrow>
        rec_expire r0 \<le> rec_expire r \<and> rec_host r = rec_host r0 \<and>
        (rec_rule_expire r0 = Some e0 \<longrightarrow> e0 \<le> rule_lifetime r))"
  by (auto simp: record_allow_def dict_simps rule_lifetime_def split: option.splits)

text \<open>
  With a working \<open>iptables\<close>, \<open>allow\<close> returns, the ACCEPT for the address is in the chain, and the
  address is recorded: its rule lives at least until the (floored) expiry, no lifetime moves back,
  the name is kept, and an all-ports allow leaves no REJECT record of the address.
\<close>

theorem allow_opens_address:
  assumes "working_iptables cfg run chain" "allow cfg run now ip p ttl fl s = (res, s')"
  shows "res = Some () \<and> rule_args ip p \<in> set (chain (kernel s')) \<and>
    (\<exists>r. map_of (LEARNED s') ip = Some r \<and> p \<in> set (rec_ports r) \<and>
       now + ttl \<le> rule_lifetime r \<and> (fl \<longrightarrow> now + MIN_TTL cfg \<le> rule_lifetime r) \<and>
       (\<forall>r0 e0. map_of (LEARNED s) ip = Some r0 \<longrightarrow>
          rec_expire r0 \<le> rec_expire r \<and> rec_host r = rec_host r0 \<and>
          (rec_rule_expire r0 = Some e0 \<longrightarrow> e0 \<le> rule_lifetime r))) \<and>
    (p = None \<longrightarrow> (\<forall>q sp e. ((ip, q, sp), e) \<notin> set (REJECTED s')))"
proof -
  have ipt: "iptables cfg run chain" using assms(1) by (simp add: working_iptables_def)
  obtain k' where k': "install cfg run ip p (kernel s) = (Some (), k')"
    "rule_args ip p \<in> set (chain k')"
    using working_iptables.install_works [OF assms(1)] by blast
  let ?e = "floored_expire cfg now ttl fl"
  let ?s1 = "record_allow ip p ?e (s\<lparr>kernel := k'\<rparr>)"
  have s': "res = Some ()" "s' = (if p = None then supersede_port_denies cfg run ip ?s1 else ?s1)"
    using assms(2) k'(1) by (auto simp: allow_def Let_def)
  have "LEARNED s' = LEARNED ?s1"
    by (simp add: s'(2) supersede_port_denies_def discard_rejects_tables)
  moreover have "now + ttl \<le> ?e" "fl \<longrightarrow> now + MIN_TTL cfg \<le> ?e"
    by (auto simp: floored_expire_def)
  moreover have "rule_args ip p \<in> set (chain (kernel s'))"
    using k'(2) iptables.discard_rejects_keep_accepts [OF ipt]
    by (auto simp: s'(2) supersede_port_denies_def)
  moreover have "p = None \<longrightarrow> (\<forall>q sp e. ((ip, q, sp), e) \<notin> set (REJECTED s'))"
    by (auto simp: s'(2) supersede_port_denies_def discard_rejects_tables rev_image_eqI)
  ultimately show ?thesis
    using s'(1) map_of_record_allow [of ip p ?e "s\<lparr>kernel := k'\<rparr>"] by fastforce
qed

theorem allow_opens_address_witness:
  "rule_args ''9.9.9.9'' (Some 443) \<in>
     set (kernel (snd (allow default_config chain_run 5 ''9.9.9.9'' (Some 443) 5 False example_rules)))"
  using allow_opens_address [OF chain_iptables.working_iptables_axioms prod.collapse [symmetric],
      of default_config 5 "''9.9.9.9''" "Some 443" 5 False example_rules]
  by simp

lemma record_host_step:
  assumes "map_of (LEARNED s) ip = Some r"
  shows "\<exists>r'. map_of (LEARNED (record_host cfg now host item s)) ip = Some r' \<and>
    rec_ports r' = rec_ports r \<and> rec_rule_expire r' = rec_rule_expire r \<and>
    rec_expire r \<le> rec_expire r' \<and> (rec_host r' = rec_host r \<or> rec_host r' = Some host)"
  using assms by (auto simp: record_host_def dict_simps Let_def split: option.splits prod.splits)

lemma record_hosts_step:
  "map_of (LEARNED s) ip = Some r \<Longrightarrow>
     \<exists>r'. map_of (LEARNED (record_hosts cfg now recs host s)) ip = Some r' \<and>
       rec_ports r' = rec_ports r \<and> rec_rule_expire r' = rec_rule_expire r \<and>
       rec_expire r \<le> rec_expire r' \<and> (rec_host r' = rec_host r \<or> rec_host r' = Some host)"
proof (induction recs arbitrary: s r)
  case (Cons x recs)
  from record_host_step [OF Cons.prems, of cfg now host x] obtain r1 where
    r1: "map_of (LEARNED (record_host cfg now host x s)) ip = Some r1" "rec_ports r1 = rec_ports r"
      "rec_rule_expire r1 = rec_rule_expire r" "rec_expire r \<le> rec_expire r1"
      "rec_host r1 = rec_host r \<or> rec_host r1 = Some host"
    by blast
  from Cons.IH [OF r1(1)] r1(2-) show ?case
    by (auto simp: record_hosts_def intro: order_trans)
qed (simp add: record_hosts_def)

lemma record_host_accept_rules:
  assumes "dict_ok (LEARNED s)"
  shows "accept_rules (LEARNED (record_host cfg now host item s)) = accept_rules (LEARNED s)"
proof -
  obtain ip ttl where item: "item = (ip, ttl)" by (cases item)
  show ?thesis
  proof (cases "map_of (LEARNED s) ip")
    case None
    with accept_rules_absent [OF None] show ?thesis
      by (auto simp: record_host_def item accept_rules_update assms)
  next
    case (Some r)
    with accept_rules_lookup [OF assms Some] show ?thesis
      by (auto simp: record_host_def item accept_rules_update assms)
  qed
qed

lemma record_hosts_accept_rules:
  "dict_ok (LEARNED s) \<Longrightarrow>
     accept_rules (LEARNED (record_hosts cfg now recs host s)) = accept_rules (LEARNED s)"
  unfolding record_hosts_def
  by (induction recs arbitrary: s) (simp_all add: record_host_accept_rules)

lemma record_hosts_kernel [simp]: "kernel (record_hosts cfg now recs host s) = kernel s"
  unfolding record_hosts_def by (induction recs arbitrary: s) simp_all

lemma record_hosts_named:
  "ip \<in> fst ` set recs \<Longrightarrow>
     \<exists>r. map_of (LEARNED (record_hosts cfg now recs host s)) ip = Some r \<and> rec_host r = Some host"
proof (induction recs arbitrary: s)
  case (Cons x recs)
  show ?case
  proof (cases "ip \<in> fst ` set recs")
    case False
    then have x: "fst x = ip" using Cons.prems by auto
    have "\<exists>r. map_of (LEARNED (record_host cfg now host x s)) ip = Some r \<and> rec_host r = Some host"
      using x by (auto simp: record_host_def dict_simps Let_def split: option.splits prod.splits)
    then show ?thesis
      using record_hosts_step [of "record_host cfg now host x s" ip _ cfg now recs host]
      by (fastforce simp: record_hosts_def)
  qed (use Cons.IH in \<open>simp add: record_hosts_def\<close>)
qed simp

text \<open>
  Resolving a name again never touches the rules (#2408): \<open>record_hosts\<close> changes nothing in the
  kernel, keeps the ports and the rule lifetime of every known address, moves record expiries only
  forward, and afterwards \<open>host_for\<close> names the resolved addresses.
\<close>

theorem record_hosts_keeps_rules:
  "kernel (record_hosts cfg now recs host s) = kernel s \<and>
   (\<forall>ip r. map_of (LEARNED s) ip = Some r \<longrightarrow>
      (\<exists>r'. map_of (LEARNED (record_hosts cfg now recs host s)) ip = Some r' \<and>
         rec_ports r' = rec_ports r \<and> rec_rule_expire r' = rec_rule_expire r \<and>
         rec_expire r \<le> rec_expire r')) \<and>
   (\<forall>ip. ip \<in> fst ` set recs \<and> host \<noteq> [] \<longrightarrow>
      host_for ip (record_hosts cfg now recs host s) = host)"
proof (intro conjI allI impI)
  fix ip r assume "map_of (LEARNED s) ip = Some r"
  from record_hosts_step [OF this] show
    "\<exists>r'. map_of (LEARNED (record_hosts cfg now recs host s)) ip = Some r' \<and>
       rec_ports r' = rec_ports r \<and> rec_rule_expire r' = rec_rule_expire r \<and>
       rec_expire r \<le> rec_expire r'" by blast
next
  fix ip assume "ip \<in> fst ` set recs \<and> host \<noteq> []"
  then show "host_for ip (record_hosts cfg now recs host s) = host"
    using record_hosts_named [of ip recs cfg now host s] by (auto simp: host_for_def)
qed simp

theorem record_hosts_keeps_rules_witness:
  "host_for ''1.2.3.4'' (record_hosts default_config 50 [(''1.2.3.4'', 600)] ''b.org'' example_rules)
     = ''b.org'' \<and>
   (\<exists>r. map_of (LEARNED (record_hosts default_config 50 [(''1.2.3.4'', 600)] ''b.org'' example_rules))
       ''1.2.3.4'' = Some r \<and> rec_rule_expire r = Some 10)"
proof -
  have "map_of (LEARNED example_rules) ''1.2.3.4'' = Some \<lparr>rec_expire = 100,
      rec_rule_expire = Some 10, rec_ports = [None], rec_host = Some ''a.org''\<rparr>"
    by (simp add: example_learned)
  with record_hosts_keeps_rules [of default_config 50 "[(''1.2.3.4'', 600)]" "''b.org''" example_rules]
  show ?thesis by fastforce
qed

text \<open>The latest expiry any rule of the table may have.\<close>

definition rules_until :: "real \<Rightarrow> (string, learned) dict \<Rightarrow> bool" where
  "rules_until t l \<longleftrightarrow> (\<forall>(ip, r) \<in> set l. \<forall>e. rec_rule_expire r = Some e \<longrightarrow> e \<le> t)"

lemma rules_until_allow:
  assumes "rules_until t (LEARNED s)" "dict_ok (LEARNED s)" "0 \<le> t" "now + ttl \<le> t"
  shows "rules_until t (LEARNED (snd (allow cfg run now ip p ttl False s))) \<and>
    dict_ok (LEARNED (snd (allow cfg run now ip p ttl False s)))"
proof -
  have rec: "rules_until t (LEARNED (record_allow ip p (now + ttl) s'))"
    if "LEARNED s' = LEARNED s" for s' :: "'a sidecar"
  proof (cases "map_of (LEARNED s) ip")
    case None
    with assms that show ?thesis
      by (auto simp: record_allow_def rules_until_def set_dict_update)
  next
    case (Some r)
    then have "(ip, r) \<in> set (LEARNED s)" by (simp add: map_of_SomeD)
    with Some assms that show ?thesis
      by (auto simp: record_allow_def rules_until_def set_dict_update split: option.splits)
  qed
  obtain res k where i: "install cfg run ip p (kernel s) = (res, k)" by fastforce
  show ?thesis
    using assms(1,2) rec i
    by (cases res)
      (auto simp: allow_def Let_def floored_expire_def supersede_port_denies_def discard_rejects_tables)
qed

lemma rules_until_learn_ports:
  "rules_until t (LEARNED s) \<Longrightarrow> dict_ok (LEARNED s) \<Longrightarrow> 0 \<le> t \<Longrightarrow> \<forall>n. clk n + ttl \<le> t \<Longrightarrow>
     rules_until t (LEARNED (snd (learn_ports cfg run clk ip ports ttl False s))) \<and>
     dict_ok (LEARNED (snd (learn_ports cfg run clk ip ports ttl False s)))"
proof (induction ports arbitrary: clk s)
  case (Cons p ports)
  obtain res s1 where a: "allow cfg run (clk 0) ip p ttl False s = (res, s1)" by fastforce
  have "rules_until t (LEARNED s1) \<and> dict_ok (LEARNED s1)"
    using rules_until_allow [OF Cons.prems(1-3), of "clk 0" ttl cfg run ip p] Cons.prems(4) a by simp
  with Cons.IH [of s1 "\<lambda>n. clk (Suc n)"] Cons.prems(3,4) a show ?case by (cases res) auto
qed simp

text \<open>
  A DNS answer learned under a timed session allow opens no rule beyond the allow (#2465): when no
  clock reading of \<open>learn_all\<close> is after \<open>t0\<close> and the cap is \<open>c\<close>, no rule expiry ends up after
  \<open>t0 + c\<close> that was not there before, whatever the TTLs of the answer.
\<close>

theorem learn_all_capped:
  assumes "rules_until (t0 + c) (LEARNED s)" "dict_ok (LEARNED s)" "0 \<le> t0 + c" "\<forall>n. clk n \<le> t0"
  shows "rules_until (t0 + c) (LEARNED (snd (learn_all cfg run clk recs ports (Some c) s)))"
  using assms
proof (induction recs arbitrary: clk s)
  case (Cons x recs)
  obtain ip ttl where x: "x = (ip, ttl)" by (cases x)
  obtain res s1 where l: "learn_ports cfg run clk ip ports (min ttl c) False s = (res, s1)"
    by fastforce
  have "\<forall>n. clk n + min ttl c \<le> t0 + c"
    using Cons.prems(4) by (meson add_mono min.cobounded2)
  then have "rules_until (t0 + c) (LEARNED s1) \<and> dict_ok (LEARNED s1)"
    using rules_until_learn_ports [OF Cons.prems(1-3)] l by (metis snd_conv)
  with Cons.IH [of s1 "\<lambda>n. clk (length ports + n)"] Cons.prems(3,4) l x show ?case
    by (cases res) (auto simp: Let_def)
qed simp

theorem learn_all_capped_witness:
  "rules_until 25 (LEARNED (snd (learn_all default_config chain_run (\<lambda>n. 20) [(''9.9.9.9'', 600)]
     [Some 443] (Some 5) example_rules)))"
proof -
  have "rules_until (20 + 5) (LEARNED example_rules)" "dict_ok (LEARNED example_rules)"
    by (simp_all add: rules_until_def example_learned)
  from learn_all_capped [OF this, of "\<lambda>n. 20" default_config chain_run "[(''9.9.9.9'', 600)]"
      "[Some 443]"] show ?thesis
    by (simp only: order_refl) simp
qed

lemma drop_for_host_misses:
  assumes "map_of (LEARNED s) ip = Some r" "dict_ok (LEARNED s)"
    "lower (case rec_host r of None \<Rightarrow> [] | Some h \<Rightarrow> h) \<noteq> lower host" "ip \<noteq> host" "ip \<noteq> lower host"
  shows "ip \<notin> set (fst (drop_for_host cfg run host ''allowed'' s)) \<and>
    map_of (LEARNED (snd (drop_for_host cfg run host ''allowed'' s))) ip = Some r"
proof -
  have "r' = r" if "(ip, r') \<in> set (LEARNED s)" for r'
    using that assms(1,2) by (simp add: map_of_eq_Some_iff eq_key_imp_eq_value)
  then have not: "ip \<notin> set (drop_targets host s)"
    using assms(3-5) by (auto simp: drop_targets_def Let_def)
  then show ?thesis
    using assms(1,2)
    by (simp add: drop_for_host_def Let_def drop_learned_rules_def forget_learned_tables
        map_of_dict_filter)
qed

text \<open>
  A revocation goes by the last name an address resolved to. An address that was allowed under the
  name \<open>host\<close> and has since resolved to another name is not a target of \<open>drop_for_host(host)\<close>: its
  record stays, although the call reports the host as dropped.
\<close>

theorem revoke_misses_renamed_address:
  assumes "map_of (LEARNED s) ip = Some r" "rec_host r = Some other" "dict_ok (LEARNED s)"
    "lower other \<noteq> lower host" "ip \<noteq> host" "ip \<noteq> lower host"
  shows "ip \<notin> set (fst (drop_for_host cfg run host ''allowed'' s)) \<and>
    map_of (LEARNED (snd (drop_for_host cfg run host ''allowed'' s))) ip = Some r"
  using drop_for_host_misses [OF assms(1,3) _ assms(5,6)] assms(2,4) by simp

theorem revoke_misses_renamed_address_witness:
  "map_of (LEARNED (snd (drop_for_host default_config chain_run ''a.org'' ''allowed''
     (record_hosts default_config 5 [(''1.2.3.4'', 600)] ''b.org'' example_rules)))) ''1.2.3.4'' \<noteq> None"
proof -
  let ?s = "record_hosts default_config 5 [(''1.2.3.4'', 600)] ''b.org'' example_rules"
  obtain r where "map_of (LEARNED ?s) ''1.2.3.4'' = Some r" "rec_host r = Some ''b.org''"
    using record_hosts_named [of "''1.2.3.4''" "[(''1.2.3.4'', 600)]" default_config 5 "''b.org''"
        example_rules] by auto
  moreover have "dict_ok (LEARNED ?s)"
    by (simp add: record_hosts_def example_rules_def)
  ultimately show ?thesis
    using revoke_misses_renamed_address [of ?s "''1.2.3.4''" r "''b.org''" "''a.org''"]
    by (simp add: lower_def lower_char_def)
qed

end
