(* ===== verification/Nfqueue.thy ===== *)
theory Nfqueue
  imports Packets Allowlist Rules
begin

text \<open>
  \<open>klangksidecar/nfqueue.py\<close>: what happens to a queued SYN. The packet object, the raw socket, the
  executor and the task loop are effects, returned in the order the code performs them; the executor
  jobs (\<open>rules.allow\<close>, \<open>rules.reject\<close>) are values that \<open>run_job\<close> carries out. The consent client is
  seen through what the consumer asks of it: whether there is one and whether it is connected
  (\<^typ>\<open>bool option\<close>), and the answer its \<open>request\<close> gives, with \<^term>\<open>None\<close> for an exception.
  \<open>clk n\<close> is the clock at the \<open>n\<close>-th place of the function that reads it.
\<close>

section \<open>Effects\<close>

datatype job =
    JobAllow string "nat option" real bool
  | JobReject string nat real nat

datatype effect =
    PktAccept
  | PktDrop
  | PktRetain
  | SendRst "byte list \<times> string"
  | Submit job
  | CreateTask
  | BumpActivity

text \<open>An executor worker takes a job; an exception ends the job and nothing else.\<close>

fun run_job :: "config \<Rightarrow> 'k runner \<Rightarrow> real \<Rightarrow> job \<Rightarrow> 'k sidecar \<Rightarrow> 'k sidecar" where
  "run_job cfg run now (JobAllow ip port ttl floored) s = snd (allow cfg run now ip port ttl floored s)"
| "run_job cfg run now (JobReject ip port ttl sport) s = snd (reject cfg run now ip port ttl sport s)"

definition rst_effects :: "bool \<Rightarrow> byte list \<Rightarrow> effect list" where
  "rst_effects sock payload =
     (case send_rst sock payload of None \<Rightarrow> [] | Some datagram \<Rightarrow> [SendRst datagram])"


section \<open>Classifying a queued packet\<close>

definition classify_packet :: "byte list \<Rightarrow> flow option" where
  "classify_packet payload =
     (case parse_syn_tuple payload of
        (src_ip, src_port, tdst, tport, _) \<Rightarrow>
          (if tport \<noteq> 0 then Some (src_ip, src_port, tdst, tport)
           else (case parse_dest payload of
                   (dst, port) \<Rightarrow> if dst = [] then None else Some (src_ip, src_port, dst, port))))"

definition bump_activity_effects :: "bool option \<Rightarrow> effect list" where
  "bump_activity_effects client = (if client \<noteq> None then [BumpActivity] else [])"

definition cached_verdict_for :: "flow \<Rightarrow> real \<Rightarrow> 'k sidecar \<Rightarrow> (verdict \<times> real) option" where
  "cached_verdict_for flow now s =
     (case map_of (VERDICT_CACHE s) flow of
        None \<Rightarrow> None
      | Some cached \<Rightarrow> if now < snd cached then Some cached else None)"

definition apply_cached_verdict :: "bool \<Rightarrow> verdict \<times> real \<Rightarrow> byte list \<Rightarrow> nat \<Rightarrow> effect list" where
  "apply_cached_verdict sock cached payload port =
     (if fst cached = Allow then [PktAccept]
      else (if port \<noteq> 0 then rst_effects sock payload else []) @ [PktDrop])"

definition verdict_fast_path ::
  "bool \<Rightarrow> byte list \<Rightarrow> flow \<Rightarrow> nat \<Rightarrow> real \<Rightarrow> 'k sidecar \<Rightarrow> effect list option" where
  "verdict_fast_path sock payload flow port now s =
     (case cached_verdict_for flow now s of
        Some cached \<Rightarrow> Some (apply_cached_verdict sock cached payload port)
      | None \<Rightarrow> if flow \<in> INFLIGHT s then Some [PktDrop] else None)"

definition fail_fast_no_consent ::
  "config \<Rightarrow> bool \<Rightarrow> byte list \<Rightarrow> string \<Rightarrow> nat \<Rightarrow> effect list" where
  "fail_fast_no_consent cfg sock payload dst port =
     (if port \<noteq> 0
      then rst_effects sock payload @ [Submit (JobReject dst port (CONSENT_REJECT_TTL cfg) 0)]
      else []) @ [PktDrop]"

definition allow_session_host ::
  "config \<Rightarrow> flow \<Rightarrow> string \<Rightarrow> nat \<Rightarrow> real \<Rightarrow> real \<Rightarrow> 'k sidecar \<Rightarrow> effect list \<times> 'k sidecar" where
  "allow_session_host cfg flow dst port now remaining s =
     ([Submit (JobAllow dst (Some port) remaining False), PktAccept],
      s\<lparr>VERDICT_CACHE := AList.update flow (Allow, now + VERDICT_CACHE_TTL cfg) (VERDICT_CACHE s)\<rparr>)"

definition deny_session_host ::
  "config \<Rightarrow> bool \<Rightarrow> flow \<Rightarrow> byte list \<Rightarrow> string \<Rightarrow> nat \<Rightarrow> real \<Rightarrow> real \<Rightarrow> 'k sidecar \<Rightarrow>
     effect list \<times> 'k sidecar" where
  "deny_session_host cfg sock flow payload dst port now deny_remaining s =
     ((if port \<noteq> 0 then rst_effects sock payload @ [Submit (JobReject dst port deny_remaining 0)] else [])
        @ [PktDrop],
      s\<lparr>VERDICT_CACHE := AList.update flow (Deny, now + VERDICT_CACHE_TTL cfg) (VERDICT_CACHE s)\<rparr>)"

text \<open>The allow gate, then the deny gate; \<^term>\<open>None\<close> when neither handles the SYN.\<close>

definition session_gate_holds ::
  "config \<Rightarrow> bool \<Rightarrow> (nat \<Rightarrow> real) \<Rightarrow> flow \<Rightarrow> byte list \<Rightarrow> string \<Rightarrow> nat \<Rightarrow> string \<Rightarrow> real \<Rightarrow>
     'k sidecar \<Rightarrow> effect list option \<times> 'k sidecar" where
  "session_gate_holds cfg sock clk flow payload dst port host now s =
     (case (if port \<noteq> 0 then session_host_allows_ttl (clk 0) (clk 1) host port s else (None, s)) of
        (Some remaining, s) \<Rightarrow>
          (case allow_session_host cfg flow dst port now remaining s of (eff, s) \<Rightarrow> (Some eff, s))
      | (None, s) \<Rightarrow>
          (case (if port \<noteq> 0 then session_host_denies_ttl (clk 2) (clk 3) host port s else (None, s)) of
             (Some deny_remaining, s) \<Rightarrow>
               (case deny_session_host cfg sock flow payload dst port now deny_remaining s of
                  (eff, s) \<Rightarrow> (Some eff, s))
           | (None, s) \<Rightarrow> (None, s)))"

definition dispatch_verdict :: "flow \<Rightarrow> 'k sidecar \<Rightarrow> effect list \<times> 'k sidecar" where
  "dispatch_verdict flow s = ([PktRetain, CreateTask], s\<lparr>INFLIGHT := insert flow (INFLIGHT s)\<rparr>)"

text \<open>The part of \<open>cb\<close> below the connection test.\<close>

definition route_flow ::
  "config \<Rightarrow> bool \<Rightarrow> (nat \<Rightarrow> real) \<Rightarrow> byte list \<Rightarrow> flow \<Rightarrow> 'k sidecar \<Rightarrow> effect list \<times> 'k sidecar" where
  "route_flow cfg sock clk payload flow s =
     (case flow of (src_ip, src_port, dst, port) \<Rightarrow>
       (let now = clk 0
        in case verdict_fast_path sock payload flow port now s of
             Some eff \<Rightarrow> (eff, s)
           | None \<Rightarrow>
               (let host = host_for dst s
                in case session_gate_holds cfg sock (\<lambda>n. clk (Suc n)) flow payload dst port host now s of
                     (Some eff, s) \<Rightarrow> (eff, s)
                   | (None, s) \<Rightarrow> dispatch_verdict flow s)))"

definition cb ::
  "config \<Rightarrow> bool \<Rightarrow> (nat \<Rightarrow> real) \<Rightarrow> bool option \<Rightarrow> byte list \<Rightarrow> 'k sidecar \<Rightarrow>
     effect list \<times> 'k sidecar" where
  "cb cfg sock clk client payload s =
     (let bump = bump_activity_effects client
      in case (classify_packet payload, client) of
           (Some (src_ip, src_port, dst, port), Some up) \<Rightarrow>
             (if \<not> up then (bump @ fail_fast_no_consent cfg sock payload dst port, s)
              else (case route_flow cfg sock clk payload (src_ip, src_port, dst, port) s of
                      (eff, s) \<Rightarrow> (bump @ eff, s)))
         | _ \<Rightarrow> (bump @ [PktDrop], s))"


section \<open>Applying a verdict\<close>

definition remember_session_verdict ::
  "real \<Rightarrow> real \<Rightarrow> verdict \<Rightarrow> string \<Rightarrow> nat \<Rightarrow> real option \<Rightarrow> 'k sidecar \<Rightarrow> 'k sidecar" where
  "remember_session_verdict t1 t2 decision host port ttl s =
     (case ttl of
        None \<Rightarrow> s
      | Some ttl \<Rightarrow>
          (if port = 0 then s
           else (case decision of
                   Allow \<Rightarrow> add_session_host t1 t2 host port ttl s
                 | Deny \<Rightarrow> add_session_deny t1 t2 host port ttl s)))"

definition apply_allow_verdict :: "string \<Rightarrow> real option \<Rightarrow> effect list" where
  "apply_allow_verdict dst ttl =
     (case ttl of None \<Rightarrow> [] | Some t \<Rightarrow> [Submit (JobAllow dst None t False)]) @ [PktAccept]"

definition deny_reject_args :: "config \<Rightarrow> flow \<Rightarrow> real option \<Rightarrow> real \<times> nat" where
  "deny_reject_args cfg flow ttl =
     (case ttl of
        Some t \<Rightarrow> (t, 0)
      | None \<Rightarrow> (CONSENT_REJECT_TTL cfg, fst (snd flow)))"

definition apply_deny_verdict ::
  "config \<Rightarrow> bool \<Rightarrow> byte list \<Rightarrow> flow \<Rightarrow> string \<Rightarrow> nat \<Rightarrow> real option \<Rightarrow> effect list" where
  "apply_deny_verdict cfg sock payload flow dst port ttl =
     (if port \<noteq> 0
      then rst_effects sock payload @
        (case deny_reject_args cfg flow ttl of
           (reject_ttl, sport) \<Rightarrow> [Submit (JobReject dst port reject_ttl sport)])
      else []) @ [PktDrop]"

definition apply_verdict ::
  "config \<Rightarrow> bool \<Rightarrow> byte list \<Rightarrow> flow \<Rightarrow> string \<Rightarrow> nat \<Rightarrow> verdict \<Rightarrow> real option \<Rightarrow> effect list" where
  "apply_verdict cfg sock payload flow dst port decision ttl =
     (if decision = Allow then apply_allow_verdict dst ttl
      else apply_deny_verdict cfg sock payload flow dst port ttl)"

text \<open>
  \<open>decide_and_verdict\<close> after its first await, up to the next: the cache and the session memory are
  written before any executor job runs. The effects are those of \<open>apply_verdict\<close>; the flow leaves
  \<open>INFLIGHT\<close> once they are done.
\<close>

definition decided :: "(verdict \<times> string) option \<Rightarrow> verdict \<times> string" where
  "decided response = (case response of None \<Rightarrow> (Deny, ''once'') | Some d \<Rightarrow> d)"

definition record_verdict ::
  "config \<Rightarrow> (nat \<Rightarrow> real) \<Rightarrow> flow \<Rightarrow> nat \<Rightarrow> string \<Rightarrow> (verdict \<times> string) option \<Rightarrow> 'k sidecar \<Rightarrow>
     'k sidecar" where
  "record_verdict cfg clk flow port host response s =
     (case decided response of (decision, duration) \<Rightarrow>
       (let now = clk 0;
            s = (if 4096 < length (VERDICT_CACHE s) then s\<lparr>VERDICT_CACHE := []\<rparr> else s);
            s = s\<lparr>VERDICT_CACHE :=
                    AList.update flow (decision, now + VERDICT_CACHE_TTL cfg) (VERDICT_CACHE s)\<rparr>;
            ttl = duration_ttl duration
        in remember_session_verdict (clk 1) (clk 2) decision host port ttl s))"

definition verdict_effects ::
  "config \<Rightarrow> bool \<Rightarrow> byte list \<Rightarrow> flow \<Rightarrow> string \<Rightarrow> nat \<Rightarrow> (verdict \<times> string) option \<Rightarrow> effect list" where
  "verdict_effects cfg sock payload flow dst port response =
     (case decided response of (decision, duration) \<Rightarrow>
        apply_verdict cfg sock payload flow dst port decision (duration_ttl duration))"

definition discard_inflight :: "flow \<Rightarrow> 'k sidecar \<Rightarrow> 'k sidecar" where
  "discard_inflight flow s = s\<lparr>INFLIGHT := INFLIGHT s - {flow}\<rparr>"

definition submitted :: "effect list \<Rightarrow> job list" where
  "submitted effs = List.map_filter (\<lambda>e. case e of Submit j \<Rightarrow> Some j | _ \<Rightarrow> None) effs"

text \<open>The whole coroutine, its awaited jobs run in place (\<open>clk 3\<close> is the time the job starts).\<close>

definition decide_and_verdict ::
  "config \<Rightarrow> 'k runner \<Rightarrow> bool \<Rightarrow> (nat \<Rightarrow> real) \<Rightarrow> byte list \<Rightarrow> flow \<Rightarrow> string \<Rightarrow> nat \<Rightarrow> string \<Rightarrow>
     (verdict \<times> string) option \<Rightarrow> 'k sidecar \<Rightarrow> effect list \<times> 'k sidecar" where
  "decide_and_verdict cfg run sock clk payload flow dst port host response s =
     (let s = record_verdict cfg clk flow port host response s;
          eff = verdict_effects cfg sock payload flow dst port response;
          s = fold (run_job cfg run (clk 3)) (submitted eff) s
      in (eff, discard_inflight flow s))"



section \<open>Lemmas on the stages\<close>

definition disposal :: "effect \<Rightarrow> bool" where
  "disposal e \<longleftrightarrow> e = PktAccept \<or> e = PktDrop \<or> e = PktRetain"

lemma rst_effects_quiet [simp]:
  "filter disposal (rst_effects sock payload) = []" "PktAccept \<notin> set (rst_effects sock payload)"
  "CreateTask \<notin> set (rst_effects sock payload)" "Submit j \<notin> set (rst_effects sock payload)"
  "submitted (rst_effects sock payload @ effs) = submitted effs"
  by (auto simp: rst_effects_def disposal_def submitted_def map_filter_simps split: option.splits)

lemma submitted_simps [simp]:
  "submitted [] = []" "submitted (Submit j # effs) = j # submitted effs"
  "submitted (PktAccept # effs) = submitted effs" "submitted (PktDrop # effs) = submitted effs"
  by (simp_all add: submitted_def map_filter_simps)

lemma disposal_simps [simp]:
  "disposal PktAccept" "disposal PktDrop" "disposal PktRetain" "\<not> disposal (Submit j)"
  "\<not> disposal CreateTask" "\<not> disposal BumpActivity"
  by (simp_all add: disposal_def)

lemmas gate_defs = session_gate_holds_def allow_session_host_def deny_session_host_def

lemmas route_defs = route_flow_def verdict_fast_path_def apply_cached_verdict_def dispatch_verdict_def

lemma session_allows_ttl_frame [simp]:
  "VERDICT_CACHE (snd (session_host_allows_ttl t1 t2 h p s)) = VERDICT_CACHE s"
  "INFLIGHT (snd (session_host_allows_ttl t1 t2 h p s)) = INFLIGHT s"
  "SESSION_HOST_DENIES (snd (session_host_allows_ttl t1 t2 h p s)) = SESSION_HOST_DENIES s"
  "LEARNED (snd (session_host_allows_ttl t1 t2 h p s)) = LEARNED s"
  "REJECTED (snd (session_host_allows_ttl t1 t2 h p s)) = REJECTED s"
  "kernel (snd (session_host_allows_ttl t1 t2 h p s)) = kernel s"
  by (simp_all add: session_host_allows_ttl_def prune_session_allows_def Let_def)

lemma session_denies_ttl_frame [simp]:
  "VERDICT_CACHE (snd (session_host_denies_ttl t1 t2 h p s)) = VERDICT_CACHE s"
  "INFLIGHT (snd (session_host_denies_ttl t1 t2 h p s)) = INFLIGHT s"
  "SESSION_HOST_ALLOWS (snd (session_host_denies_ttl t1 t2 h p s)) = SESSION_HOST_ALLOWS s"
  "LEARNED (snd (session_host_denies_ttl t1 t2 h p s)) = LEARNED s"
  "REJECTED (snd (session_host_denies_ttl t1 t2 h p s)) = REJECTED s"
  "kernel (snd (session_host_denies_ttl t1 t2 h p s)) = kernel s"
  by (simp_all add: session_host_denies_ttl_def prune_session_denies_def Let_def)

text \<open>The session gate by cases.\<close>

lemma session_gateE:
  obtains (Allowed) remaining where "port \<noteq> 0"
      "fst (session_host_allows_ttl (clk 0) (clk 1) host port s) = Some remaining"
      "session_gate_holds cfg sock clk flow payload dst port host now s =
        (Some [Submit (JobAllow dst (Some port) remaining False), PktAccept],
         (snd (session_host_allows_ttl (clk 0) (clk 1) host port s))
           \<lparr>VERDICT_CACHE := AList.update flow (Allow, now + VERDICT_CACHE_TTL cfg) (VERDICT_CACHE s)\<rparr>)"
  | (Denied) remaining s' where "port \<noteq> 0"
      "fst (session_host_allows_ttl (clk 0) (clk 1) host port s) = None"
      "s' = snd (session_host_allows_ttl (clk 0) (clk 1) host port s)"
      "fst (session_host_denies_ttl (clk 2) (clk 3) host port s') = Some remaining"
      "session_gate_holds cfg sock clk flow payload dst port host now s =
        (Some (rst_effects sock payload @ [Submit (JobReject dst port remaining 0), PktDrop]),
         (snd (session_host_denies_ttl (clk 2) (clk 3) host port s'))
           \<lparr>VERDICT_CACHE := AList.update flow (Deny, now + VERDICT_CACHE_TTL cfg) (VERDICT_CACHE s)\<rparr>)"
  | (Open) s' where
      "port \<noteq> 0 \<longrightarrow> fst (session_host_allows_ttl (clk 0) (clk 1) host port s) = None"
      "session_gate_holds cfg sock clk flow payload dst port host now s = (None, s')"
      "INFLIGHT s' = INFLIGHT s" "VERDICT_CACHE s' = VERDICT_CACHE s"
proof (cases "port = 0")
  case True
  then show thesis by (intro Open [of s]) (simp_all add: gate_defs)
next
  case False
  obtain a s1 where a: "session_host_allows_ttl (clk 0) (clk 1) host port s = (a, s1)" by fastforce
  note s1 = session_allows_ttl_frame(1,2) [of "clk 0" "clk 1" host port s, unfolded a snd_conv]
  obtain d s2 where d: "session_host_denies_ttl (clk 2) (clk 3) host port s1 = (d, s2)" by fastforce
  note s2 = session_denies_ttl_frame(1,2) [of "clk 2" "clk 3" host port s1, unfolded d snd_conv s1]
  show thesis
  proof (cases a)
    case (Some r)
    with False a s1 show thesis by (intro Allowed [of r]) (simp_all add: gate_defs)
  next
    case None
    show thesis
    proof (cases d)
      case (Some r)
      with False None a d s2 show thesis by (intro Denied [of s1 r]) (simp_all add: gate_defs)
    next
      case None': None
      with False None a d s2 show thesis by (intro Open [of s2]) (simp_all add: gate_defs)
    qed
  qed
qed


text \<open>The routing of a parsed SYN on a live connection, by cases.\<close>

lemma route_flowE:
  obtains (Cached) v e where "map_of (VERDICT_CACHE s) (src_ip, src_port, dst, port) = Some (v, e)" "clk 0 < e"
      "route_flow cfg sock clk payload (src_ip, src_port, dst, port) s = (apply_cached_verdict sock (v, e) payload port, s)"
  | (Held) "cached_verdict_for (src_ip, src_port, dst, port) (clk 0) s = None" "(src_ip, src_port, dst, port) \<in> INFLIGHT s"
      "route_flow cfg sock clk payload (src_ip, src_port, dst, port) s = ([PktDrop], s)"
  | (Gated) eff s' where "cached_verdict_for (src_ip, src_port, dst, port) (clk 0) s = None" "(src_ip, src_port, dst, port) \<notin> INFLIGHT s"
      "session_gate_holds cfg sock (\<lambda>n. clk (Suc n)) (src_ip, src_port, dst, port) payload dst port (host_for dst s) (clk 0) s
        = (Some eff, s')"
      "route_flow cfg sock clk payload (src_ip, src_port, dst, port) s = (eff, s')"
  | (Prompted) s' where "cached_verdict_for (src_ip, src_port, dst, port) (clk 0) s = None" "(src_ip, src_port, dst, port) \<notin> INFLIGHT s"
      "session_gate_holds cfg sock (\<lambda>n. clk (Suc n)) (src_ip, src_port, dst, port) payload dst port (host_for dst s) (clk 0) s
        = (None, s')"
      "route_flow cfg sock clk payload (src_ip, src_port, dst, port) s = ([PktRetain, CreateTask], s'\<lparr>INFLIGHT := insert (src_ip, src_port, dst, port) (INFLIGHT s')\<rparr>)"
proof (cases "cached_verdict_for (src_ip, src_port, dst, port) (clk 0) s")
  case (Some c)
  then obtain v e where "c = (v, e)" "map_of (VERDICT_CACHE s) (src_ip, src_port, dst, port) = Some (v, e)" "clk 0 < e"
    by (cases c) (auto simp: cached_verdict_for_def split: option.splits if_splits)
  with Some show thesis by (intro Cached) (auto simp: route_defs Let_def)
next
  case None
  obtain g s' where g: "session_gate_holds cfg sock (\<lambda>n. clk (Suc n)) (src_ip, src_port, dst, port) payload dst port
      (host_for dst s) (clk 0) s = (g, s')" by fastforce
  consider "(src_ip, src_port, dst, port) \<in> INFLIGHT s" | eff where "(src_ip, src_port, dst, port) \<notin> INFLIGHT s" "g = Some eff"
    | "(src_ip, src_port, dst, port) \<notin> INFLIGHT s" "g = None" by (cases g) auto
  then show thesis
    by cases (use None g in \<open>auto simp: route_defs Let_def intro: Held Gated Prompted\<close>)
qed



section \<open>Properties\<close>

lemma cb_cases:
  obtains (Unroutable) "classify_packet payload = None \<or> client = None"
      "cb cfg sock clk client payload s = (bump_activity_effects client @ [PktDrop], s)"
  | (Down) src_ip src_port dst port where
      "classify_packet payload = Some (src_ip, src_port, dst, port)" "client = Some False"
      "cb cfg sock clk client payload s =
        (BumpActivity # fail_fast_no_consent cfg sock payload dst port, s)"
  | (Up) src_ip src_port dst port where
      "classify_packet payload = Some (src_ip, src_port, dst, port)" "client = Some True"
      "cb cfg sock clk client payload s =
        (BumpActivity # fst (route_flow cfg sock clk payload (src_ip, src_port, dst, port) s),
         snd (route_flow cfg sock clk payload (src_ip, src_port, dst, port) s))"
proof -
  consider "classify_packet payload = None \<or> client = None"
    | a b c d up where "classify_packet payload = Some (a, b, c, d)" "client = Some up"
    by (cases "classify_packet payload"; cases client) auto
  then show thesis
  proof cases
    case 1
    then show thesis
      by (intro Unroutable) (auto simp: cb_def Let_def split: option.splits)
  next
    case 2
    show thesis
    proof (cases up)
      case True
      with 2 show thesis
        by (intro Up [OF 2(1)]) (simp_all add: cb_def bump_activity_effects_def case_prod_unfold)
    next
      case False
      with 2 show thesis
        by (intro Down [OF 2(1)]) (simp_all add: cb_def bump_activity_effects_def)
    qed
  qed
qed

text \<open>
  (C1) No SYN passes the queue without a consent that is in force: if \<open>cb\<close> accepts a packet then the
  consent channel is up and either this connection's cached verdict is an unexpired allow, or no
  verdict is cached for it and an unexpired session allow covers the destination's name and port.
\<close>

theorem cb_accepts_only_allowed:
  assumes "PktAccept \<in> set (fst (cb cfg sock clk client payload s))"
  shows "client = Some True \<and> (\<exists>src_ip src_port dst port.
    classify_packet payload = Some (src_ip, src_port, dst, port) \<and>
    ((\<exists>e. map_of (VERDICT_CACHE s) (src_ip, src_port, dst, port) = Some (Allow, e) \<and> clk 0 < e) \<or>
     (cached_verdict_for (src_ip, src_port, dst, port) (clk 0) s = None \<and> port \<noteq> 0 \<and>
      fst (session_host_allows_ttl (clk 1) (clk 2) (host_for dst s) port s) \<noteq> None)))"
proof (cases rule: cb_cases [of payload client cfg sock clk s])
  case Unroutable
  then show ?thesis using assms by (auto simp: bump_activity_effects_def split: if_splits)
next
  case Down
  then show ?thesis using assms by (auto simp: fail_fast_no_consent_def split: if_splits)
next
  case (Up src_ip src_port dst port)
  have acc: "PktAccept \<in> set (fst (route_flow cfg sock clk payload (src_ip, src_port, dst, port) s))"
    using assms Up(3) by auto
  show ?thesis
  proof (cases rule: route_flowE [of s src_ip src_port dst port clk cfg sock payload])
    case (Cached v e)
    with acc have "v = Allow" by (auto simp: apply_cached_verdict_def split: if_splits)
    with Cached Up show ?thesis by auto
  next
    case (Gated eff s')
    show ?thesis
    proof (cases rule: session_gateE [of port "\<lambda>n. clk (Suc n)" "host_for dst s" s cfg sock
          "(src_ip, src_port, dst, port)" payload dst "clk 0"])
      case (Allowed r)
      with Gated Up show ?thesis by (simp add: numeral_2_eq_2)
    qed (use Gated acc in auto)
  qed (use acc in auto)
qed

text \<open>
  Every queued packet gets exactly one disposition: it is accepted, dropped or retained once,
  on every path of \<open>cb\<close>; and a verdict on a retained packet disposes of it exactly once, by accept or
  drop.
\<close>

theorem packet_disposed_once:
  "length (filter disposal (fst (cb cfg sock clk client payload s))) = 1 \<and>
   (\<exists>d. filter disposal (verdict_effects cfg sock payload flow dst port response) = [d] \<and>
     d \<noteq> PktRetain \<and> (d = PktAccept \<longleftrightarrow> fst (decided response) = Allow))"
proof
  show "length (filter disposal (fst (cb cfg sock clk client payload s))) = 1"
  proof (cases rule: cb_cases [of payload client cfg sock clk s])
    case (Up src_ip src_port dst port)
    have "length (filter disposal (fst (route_flow cfg sock clk payload (src_ip, src_port, dst, port) s))) = 1"
    proof (cases rule: route_flowE [of s src_ip src_port dst port clk cfg sock payload])
      case (Gated eff s')
      then show ?thesis
        by (cases rule: session_gateE [of port "\<lambda>n. clk (Suc n)" "host_for dst s" s cfg sock
              "(src_ip, src_port, dst, port)" payload dst "clk 0"]) auto
    qed (auto simp: apply_cached_verdict_def)
    then show ?thesis by (simp add: Up(3))
  qed (auto simp: bump_activity_effects_def fail_fast_no_consent_def)
next
  obtain v d where d: "decided response = (v, d)" by fastforce
  show "\<exists>d. filter disposal (verdict_effects cfg sock payload flow dst port response) = [d] \<and>
     d \<noteq> PktRetain \<and> (d = PktAccept \<longleftrightarrow> fst (decided response) = Allow)"
    by (cases v) (auto simp: verdict_effects_def d apply_verdict_def apply_allow_verdict_def
        apply_deny_verdict_def split: option.splits prod.splits)
qed


lemma classify_example_syn:
  "classify_packet example_syn = Some (''10.0.0.2'', 50000, ''93.184.216.34'', 443)"
  by (simp add: classify_packet_def parse_example_syn)

abbreviation example_flow :: flow where
  "example_flow \<equiv> (''10.0.0.2'', 50000, ''93.184.216.34'', 443)"

text \<open>A state in which the example connection has been allowed.\<close>

definition example_allowed :: "string list list sidecar" where
  "example_allowed = (initial_sidecar [])\<lparr>VERDICT_CACHE := [(example_flow, (Allow, 100))]\<rparr>"

lemma cb_example_allowed:
  "fst (cb default_config True (\<lambda>n. 5) (Some True) example_syn example_allowed) =
     [BumpActivity, PktAccept]"
  by (simp add: cb_def classify_example_syn route_defs bump_activity_effects_def cached_verdict_for_def
      example_allowed_def Let_def)

theorem cb_accepts_only_allowed_witness:
  "\<exists>e. map_of (VERDICT_CACHE example_allowed) example_flow = Some (Allow, e) \<and> 5 < e \<or>
     fst (session_host_allows_ttl 5 5 ''93.184.216.34'' 443 example_allowed) \<noteq> None"
proof -
  have "PktAccept \<in> set (fst (cb default_config True (\<lambda>n. 5) (Some True) example_syn example_allowed))"
    by (simp add: cb_example_allowed)
  from cb_accepts_only_allowed [OF this] show ?thesis
    by (simp add: classify_example_syn host_for_def example_allowed_def initial_sidecar_def)
qed



lemma cb_held_no_task:
  assumes "classify_packet payload = Some flow" "flow \<in> INFLIGHT s"
  shows "CreateTask \<notin> set (fst (cb cfg sock clk client payload s))"
proof (cases rule: cb_cases [of payload client cfg sock clk s])
  case (Up a b c d)
  have "CreateTask \<notin> set (fst (route_flow cfg sock clk payload (a, b, c, d) s))"
    by (cases rule: route_flowE [of s a b c d clk cfg sock payload])
      (use assms Up(1) in \<open>auto simp: apply_cached_verdict_def\<close>)
  with Up(3) show ?thesis by simp
qed (auto simp: bump_activity_effects_def fail_fast_no_consent_def)

lemma route_flow_prompts:
  assumes "CreateTask \<in> set (fst (route_flow cfg sock clk payload (src_ip, src_port, dst, port) s))"
  shows "cached_verdict_for (src_ip, src_port, dst, port) (clk 0) s = None \<and>
    (src_ip, src_port, dst, port) \<notin> INFLIGHT s \<and>
    (port \<noteq> 0 \<longrightarrow> fst (session_host_allows_ttl (clk 1) (clk 2) (host_for dst s) port s) = None) \<and>
    INFLIGHT (snd (route_flow cfg sock clk payload (src_ip, src_port, dst, port) s)) =
      insert (src_ip, src_port, dst, port) (INFLIGHT s)"
proof (cases rule: route_flowE [of s src_ip src_port dst port clk cfg sock payload])
  case (Prompted s1)
  have two: "clk 2 = clk (Suc (Suc 0))" by (simp add: numeral_2_eq_2)
  show ?thesis
  proof (cases rule: session_gateE [of port "\<lambda>n. clk (Suc n)" "host_for dst s" s cfg sock
        "(src_ip, src_port, dst, port)" payload dst "clk 0"])
    case (Open s2)
    with Prompted two show ?thesis by simp
  qed (use Prompted in auto)
next
  case (Gated eff1 s1)
  have "CreateTask \<notin> set eff1"
    by (cases rule: session_gateE [of port "\<lambda>n. clk (Suc n)" "host_for dst s" s cfg sock
          "(src_ip, src_port, dst, port)" payload dst "clk 0"]) (use Gated(3) in auto)
  with assms Gated(4) show ?thesis by simp
qed (use assms in \<open>auto simp: apply_cached_verdict_def split: if_splits\<close>)

text \<open>
  At most one prompt per connection. \<open>cb\<close> starts a consent task only for a connection that has
  no valid cached verdict, is not already held and is covered by no session allow; it holds the
  connection from then on, so that further SYNs of it start no task while it is held.
\<close>

theorem cb_prompts_once:
  assumes "CreateTask \<in> set (fst (cb cfg sock clk client payload s))"
    and "cb cfg sock clk client payload s = (eff, s')"
  shows "\<exists>src_ip src_port dst port.
    classify_packet payload = Some (src_ip, src_port, dst, port) \<and>
    cached_verdict_for (src_ip, src_port, dst, port) (clk 0) s = None \<and>
    (src_ip, src_port, dst, port) \<notin> INFLIGHT s \<and>
    (port \<noteq> 0 \<longrightarrow> fst (session_host_allows_ttl (clk 1) (clk 2) (host_for dst s) port s) = None) \<and>
    INFLIGHT s' = insert (src_ip, src_port, dst, port) (INFLIGHT s) \<and>
    (\<forall>s2 sock2 clk2 client2. (src_ip, src_port, dst, port) \<in> INFLIGHT s2 \<longrightarrow>
       CreateTask \<notin> set (fst (cb cfg sock2 clk2 client2 payload (s2 :: 'k sidecar))))"
proof (cases rule: cb_cases [of payload client cfg sock clk s])
  case (Up src_ip src_port dst port)
  have "CreateTask \<in> set (fst (route_flow cfg sock clk payload (src_ip, src_port, dst, port) s))"
    using assms(1) Up(3) by auto
  note p = route_flow_prompts [OF this]
  have "INFLIGHT s' = insert (src_ip, src_port, dst, port) (INFLIGHT s)"
    using assms(2) Up(3) p by simp
  with Up(1) p cb_held_no_task [OF Up(1)] show ?thesis by blast
qed (use assms(1) in \<open>auto simp: bump_activity_effects_def fail_fast_no_consent_def split: if_splits\<close>)

theorem cb_prompts_once_witness:
  "INFLIGHT (snd (cb default_config True (\<lambda>n. 5) (Some True) example_syn (initial_sidecar ()))) =
     {example_flow}"
proof -
  have "CreateTask \<in> set (fst (cb default_config True (\<lambda>n. 5) (Some True) example_syn (initial_sidecar ())))"
    by (simp add: cb_def classify_example_syn route_defs gate_defs cached_verdict_for_def
        session_host_allows_ttl_def session_host_denies_ttl_def prune_session_allows_def
        prune_session_denies_def session_entry_ttl_def initial_sidecar_def host_for_def
        map_filter_simps Let_def)
  moreover have "INFLIGHT (initial_sidecar ()) = {}" by (simp add: initial_sidecar_def)
  ultimately show ?thesis
    using cb_prompts_once [OF _ prod.collapse [symmetric], of default_config True "\<lambda>n. 5" "Some True"
        example_syn "initial_sidecar ()"] by (auto simp: classify_example_syn)
qed


lemma job_frame [simp]:
  "VERDICT_CACHE (run_job cfg run now j s) = VERDICT_CACHE s"
  "SESSION_HOST_ALLOWS (run_job cfg run now j s) = SESSION_HOST_ALLOWS s"
  "SESSION_HOST_DENIES (run_job cfg run now j s) = SESSION_HOST_DENIES s"
  "INFLIGHT (run_job cfg run now j s) = INFLIGHT s"
proof -
  have d: "VERDICT_CACHE (fold (discard_reject cfg run) keys s) = VERDICT_CACHE s"
    "SESSION_HOST_ALLOWS (fold (discard_reject cfg run) keys s) = SESSION_HOST_ALLOWS s"
    "SESSION_HOST_DENIES (fold (discard_reject cfg run) keys s) = SESSION_HOST_DENIES s"
    "INFLIGHT (fold (discard_reject cfg run) keys s) = INFLIGHT s" for keys and s :: "'a sidecar"
    by (induction keys arbitrary: s) (simp_all add: discard_reject_def)
  have r: "VERDICT_CACHE (record_allow ip p e s) = VERDICT_CACHE s"
    "SESSION_HOST_ALLOWS (record_allow ip p e s) = SESSION_HOST_ALLOWS s"
    "SESSION_HOST_DENIES (record_allow ip p e s) = SESSION_HOST_DENIES s"
    "INFLIGHT (record_allow ip p e s) = INFLIGHT s" for ip p e and s :: "'a sidecar"
    by (simp_all add: record_allow_def split: option.splits)
  show "VERDICT_CACHE (run_job cfg run now j s) = VERDICT_CACHE s"
    "SESSION_HOST_ALLOWS (run_job cfg run now j s) = SESSION_HOST_ALLOWS s"
    "SESSION_HOST_DENIES (run_job cfg run now j s) = SESSION_HOST_DENIES s"
    "INFLIGHT (run_job cfg run now j s) = INFLIGHT s"
    by (cases j; simp add: allow_def reject_def supersede_port_denies_def d r Let_def
        split: prod.splits option.splits)+
qed

lemma jobs_frame [simp]:
  "VERDICT_CACHE (fold (run_job cfg run now) js s) = VERDICT_CACHE s"
  "SESSION_HOST_ALLOWS (fold (run_job cfg run now) js s) = SESSION_HOST_ALLOWS s"
  "SESSION_HOST_DENIES (fold (run_job cfg run now) js s) = SESSION_HOST_DENIES s"
  "INFLIGHT (fold (run_job cfg run now) js s) = INFLIGHT s"
  by (induction js arbitrary: s) simp_all

lemma remember_frame [simp]:
  "VERDICT_CACHE (remember_session_verdict t1 t2 v h p ttl s) = VERDICT_CACHE s"
  "INFLIGHT (remember_session_verdict t1 t2 v h p ttl s) = INFLIGHT s"
  by (simp_all add: remember_session_verdict_def add_session_host_def add_session_deny_def
      prune_session_allows_def prune_session_denies_def Let_def split: option.splits verdict.splits)

lemma record_verdict_cache:
  "map_of (VERDICT_CACHE (record_verdict cfg clk flow port host response s)) flow =
     Some (fst (decided response), clk 0 + VERDICT_CACHE_TTL cfg)"
  by (simp add: record_verdict_def Let_def dict_simps case_prod_unfold)

text \<open>
  A decided connection is decided once. After \<open>decide_and_verdict\<close>, until the cached verdict
  lapses, a retransmitted SYN of the connection gets the same answer inline: it is accepted exactly
  when the verdict was an allow and dropped otherwise (a failed request counts as a deny), no task is
  started, and the connection is no longer held.
\<close>

theorem retransmit_reuses_verdict:
  assumes "classify_packet payload = Some (src_ip, src_port, dst, port)"
    "decide_and_verdict cfg run sock clk payload (src_ip, src_port, dst, port) dst port host response s
       = (eff, s')"
    "clk' 0 < clk 0 + VERDICT_CACHE_TTL cfg"
    "cb cfg sock clk' (Some True) payload s' = (eff', s'')"
  shows "s'' = s' \<and> (src_ip, src_port, dst, port) \<notin> INFLIGHT s' \<and> CreateTask \<notin> set eff' \<and>
    (PktAccept \<in> set eff' \<longleftrightarrow> fst (decided response) = Allow) \<and>
    (PktAccept \<in> set eff \<longleftrightarrow> fst (decided response) = Allow) \<and>
    (PktDrop \<in> set eff' \<longleftrightarrow> fst (decided response) = Deny)"
proof -
  let ?flow = "(src_ip, src_port, dst, port)"
  obtain v d where vd: "decided response = (v, d)" by fastforce
  have s': "map_of (VERDICT_CACHE s') ?flow = Some (v, clk 0 + VERDICT_CACHE_TTL cfg)"
    "?flow \<notin> INFLIGHT s'"
    using assms(2) record_verdict_cache [of cfg clk ?flow port host response s] vd
    by (auto simp: decide_and_verdict_def discard_inflight_def Let_def)
  have quiet: "PktDrop \<notin> set (rst_effects sock payload)"
    by (simp add: rst_effects_def split: option.splits)
  have "eff' = BumpActivity # apply_cached_verdict sock (v, clk 0 + VERDICT_CACHE_TTL cfg) payload port"
    "s'' = s'"
    using assms(1,3,4) s' by (auto simp: cb_def bump_activity_effects_def route_defs
        cached_verdict_for_def Let_def)
  moreover have "PktAccept \<in> set eff \<longleftrightarrow> v = Allow"
    using assms(2) vd by (cases v) (auto simp: decide_and_verdict_def verdict_effects_def
        apply_verdict_def apply_allow_verdict_def apply_deny_verdict_def Let_def split: if_splits
        prod.splits)
  ultimately show ?thesis
    using s'(2) vd quiet by (cases v) (auto simp: apply_cached_verdict_def)
qed

theorem retransmit_reuses_verdict_witness:
  "PktAccept \<in> set (fst (cb default_config True (\<lambda>n. 9) (Some True) example_syn
     (snd (decide_and_verdict default_config chain_run True (\<lambda>n. 5) example_syn example_flow
       ''93.184.216.34'' 443 ''a.org'' (Some (Allow, ''once'')) (initial_sidecar [])))))"
proof -
  have "(9 :: real) < 5 + VERDICT_CACHE_TTL default_config" by (simp add: default_config_def)
  from retransmit_reuses_verdict [OF classify_example_syn prod.collapse [symmetric],
      where clk = "\<lambda>n. 5" and clk' = "\<lambda>n. 9", OF this prod.collapse [symmetric], of True chain_run
      "''a.org''" "Some (Allow, ''once'')" "initial_sidecar []"]
  show ?thesis by (simp add: decided_def)
qed

text \<open>
  A timed allow is an allow for the name. Once a verdict with a duration has been given for
  \<open>host:port\<close>, every SYN to that port of any address that is known under the name is accepted without
  a prompt for the rest of the window, unless that very connection has a cached verdict or is held.
\<close>

theorem timed_allow_covers_name:
  assumes "duration_ttl duration = Some ttl" "port \<noteq> 0" "host \<noteq> []"
    "s' = snd (decide_and_verdict cfg run sock clk payload flow dst port host (Some (Allow, duration)) s)"
    "classify_packet payload' = Some (src_ip, src_port, dst', port)" "host_for dst' s' = host"
    "cached_verdict_for (src_ip, src_port, dst', port) (clk' 0) s' = None"
    "(src_ip, src_port, dst', port) \<notin> INFLIGHT s'"
    "clk' 1 < clk 2 + ttl" "clk' 2 < clk 2 + ttl"
  shows "\<exists>remaining \<ge> clk 2 + ttl - clk' 2.
    fst (cb cfg sock clk' (Some True) payload' s') =
      [BumpActivity, Submit (JobAllow dst' (Some port) remaining False), PktAccept]"
proof -
  let ?flow = "(src_ip, src_port, dst', port)"
  have mem: "SESSION_HOST_ALLOWS s' = SESSION_HOST_ALLOWS (add_session_host (clk 1) (clk 2) host port ttl s)"
    using assms(1,2) unfolding assms(4)
    by (simp add: decide_and_verdict_def discard_inflight_def record_verdict_def decided_def
        remember_session_verdict_def add_session_host_def prune_session_allows_def Let_def)
  obtain r where r: "fst (session_host_allows_ttl (clk' 1) (clk' 2) host port s') = Some r"
      "clk 2 + ttl - clk' 2 \<le> r"
    using session_allows.add_covers [OF assms(3,9,10), of port "clk 1" s] mem
    unfolding session_allows.fst_ttl_of by auto
  have "\<exists>s2. session_gate_holds cfg sock (\<lambda>n. clk' (Suc n)) ?flow payload' dst' port host (clk' 0) s' =
      (Some [Submit (JobAllow dst' (Some port) r False), PktAccept], s2)"
    using r(1) assms(2)
    by (cases "session_host_allows_ttl (clk' (Suc 0)) (clk' 2) host port s'")
      (simp add: gate_defs numeral_2_eq_2)
  with assms(5-8) have
    "fst (cb cfg sock clk' (Some True) payload' s') =
      [BumpActivity, Submit (JobAllow dst' (Some port) r False), PktAccept]"
    by (auto simp: cb_def bump_activity_effects_def route_defs Let_def)
  with r(2) show ?thesis by blast
qed


text \<open>Another connection to the same address, from another source port.\<close>

definition example_syn2 :: "byte list" where
  "example_syn2 = example_syn[21 := 81]"

lemma classify_example_syn2:
  "classify_packet example_syn2 = Some (''10.0.0.2'', 50001, ''93.184.216.34'', 443)"
  by (simp add: classify_packet_def example_syn2_def example_syn_def parse_syn_tuple_def
      ipv4_offsets_def ethernet_offset_def Let_def syn_tuple_at_def py_slice_def dotted_def py_eval)

theorem timed_allow_covers_name_witness:
  "PktAccept \<in> set (fst (cb default_config True (\<lambda>n. 9) (Some True) example_syn2
     (snd (decide_and_verdict default_config chain_run True (\<lambda>n. 5) example_syn example_flow
       ''93.184.216.34'' 443 ''93.184.216.34'' (Some (Allow, ''5m'')) (initial_sidecar [])))))"
proof -
  let ?s = "snd (decide_and_verdict default_config chain_run True (\<lambda>n. 5) example_syn example_flow
    ''93.184.216.34'' 443 ''93.184.216.34'' (Some (Allow, ''5m'')) (initial_sidecar []))"
  have ttl: "duration_ttl ''5m'' = Some 300" by (simp add: duration_ttl_def DURATION_SECONDS_def)
  have cache: "VERDICT_CACHE ?s = [(example_flow, (Allow, 125))]" "INFLIGHT ?s = {}"
    by (simp_all add: decide_and_verdict_def discard_inflight_def record_verdict_def decided_def
        initial_sidecar_def default_config_def Let_def)
  have host: "host_for ''93.184.216.34'' ?s = ''93.184.216.34''"
    by (simp add: decide_and_verdict_def discard_inflight_def record_verdict_def decided_def ttl
        remember_session_verdict_def add_session_host_def prune_session_allows_def
        verdict_effects_def apply_verdict_def apply_allow_verdict_def allow_def install_def
        rule_exists_def chain_run_def py_slice_def rule_args_def record_allow_def
        supersede_port_denies_def initial_sidecar_def host_for_def Let_def)
  show ?thesis
    using timed_allow_covers_name [OF ttl _ _ refl classify_example_syn2 host, where clk' = "\<lambda>n. 9"]
      cache by (force simp: cached_verdict_for_def)
qed

text \<open>
  A one-time deny stays with its connection (#2463). The REJECT that a deny leaves behind is
  scoped to the denied connection's source port, for the short window, exactly when the verdict has no
  duration; a timed deny is scoped to the destination for the verdict's window. A verdict without a
  duration (and a failed request) remembers nothing about the name.
\<close>

theorem once_stays_with_connection:
  assumes "port \<noteq> 0" "decided response = (v, d)"
  shows "(v = Deny \<longrightarrow>
      submitted (verdict_effects cfg sock payload (src_ip, src_port, dst, port) dst port response) =
        [case duration_ttl d of
           None \<Rightarrow> JobReject dst port (CONSENT_REJECT_TTL cfg) src_port
         | Some ttl \<Rightarrow> JobReject dst port ttl 0]) \<and>
    (v = Allow \<and> duration_ttl d = None \<longrightarrow>
      submitted (verdict_effects cfg sock payload (src_ip, src_port, dst, port) dst port response) = []) \<and>
    (duration_ttl d = None \<longrightarrow>
      SESSION_HOST_ALLOWS (record_verdict cfg clk flow port host response s) = SESSION_HOST_ALLOWS s \<and>
      SESSION_HOST_DENIES (record_verdict cfg clk flow port host response s) = SESSION_HOST_DENIES s)"
  using assms
  by (cases v) (auto simp: verdict_effects_def apply_verdict_def apply_deny_verdict_def
      apply_allow_verdict_def deny_reject_args_def record_verdict_def remember_session_verdict_def
      Let_def split: option.splits)

theorem once_stays_with_connection_witness:
  "submitted (verdict_effects default_config True example_syn example_flow ''93.184.216.34'' 443 None) =
     [JobReject ''93.184.216.34'' 443 10 50000]"
  using once_stays_with_connection [of 443 None Deny "''once''" default_config True example_syn
      "''10.0.0.2''" 50000 "''93.184.216.34''" "\<lambda>n. 5" example_flow "''a.org''" "initial_sidecar ()"]
  by (simp add: decided_def default_config_def)

end
