(* ===== verification/Resolve.thy ===== *)
theory Resolve
  imports Allowlist Rules
begin

text \<open>
  \<open>klangksidecar/resolve.py\<close>: the DNS side of the gate. dnspython is a third-party package: parsing a
  wire is the argument \<open>from_wire\<close> (\<^term>\<open>None\<close> for an exception), its result the two parts of a
  message the code reads, and printing the NXDOMAIN reply is the argument \<open>nx_wire\<close>. What the upstream
  answers to a forwarded query is an argument too (\<^term>\<open>None\<close> for a failure or a time-out), and the
  replies, the forwards and the idle-timer signals are effects in the order they happen.
\<close>

section \<open>Wire helpers\<close>

record rrset =
  rdtype :: nat
  rr_ttl :: int
  rr_addresses :: "string list"

record dns_message =
  question :: "string list"
  answer :: "rrset list"

type_synonym wire = "byte list"

definition rdatatype_A :: nat where
  "rdatatype_A = 1"

definition rstrip_dots :: "string \<Rightarrow> string" where
  "rstrip_dots s = rev (dropWhile (\<lambda>c. c = CHR ''.'') (rev s))"

definition query_name :: "(wire \<Rightarrow> dns_message option) \<Rightarrow> wire \<Rightarrow> string option" where
  "query_name from_wire wire =
     map_option (\<lambda>msg. case question msg of [] \<Rightarrow> [] | name # _ \<Rightarrow> lower (rstrip_dots name))
       (from_wire wire)"

definition a_records_with_ttl ::
  "(wire \<Rightarrow> dns_message option) \<Rightarrow> wire \<Rightarrow> (string \<times> real) list option" where
  "a_records_with_ttl from_wire wire =
     map_option (\<lambda>msg.
       concat (map (\<lambda>rrset. if rdtype rrset = rdatatype_A
                            then map (\<lambda>address. (address, real_of_int (rr_ttl rrset))) (rr_addresses rrset)
                            else []) (answer msg)))
       (from_wire wire)"

definition nxdomain_for ::
  "(wire \<Rightarrow> dns_message option) \<Rightarrow> (dns_message \<Rightarrow> wire option) \<Rightarrow> wire \<Rightarrow> wire option" where
  "nxdomain_for from_wire nx_wire wire = do { query \<leftarrow> from_wire wire; nx_wire query }"

definition a_records_or_none :: "(wire \<Rightarrow> dns_message option) \<Rightarrow> wire \<Rightarrow> (string \<times> real) list" where
  "a_records_or_none from_wire resp =
     (case a_records_with_ttl from_wire resp of None \<Rightarrow> [] | Some recs \<Rightarrow> recs)"


section \<open>Routing a query\<close>

datatype dns_effect =
    Bump
  | Forward wire
  | Reply wire

definition respond_allowed ::
  "config \<Rightarrow> spec list \<Rightarrow> 'k runner \<Rightarrow> (wire \<Rightarrow> dns_message option) \<Rightarrow> (nat \<Rightarrow> real) \<Rightarrow> wire \<Rightarrow>
     string \<Rightarrow> nat option list \<Rightarrow> 'k sidecar \<Rightarrow> dns_effect list \<times> 'k sidecar" where
  "respond_allowed cfg specs run from_wire clk resp qname ports s =
     (let recs = a_records_or_none from_wire resp
      in if recs = [] then ([Reply resp], s)
         else (case session_allow_rule_cap specs (clk 0) (clk 1) qname s of
                 (cap, s) \<Rightarrow>
                   (case learn_all cfg run (\<lambda>n. clk (2 + n)) recs ports cap s of
                      (None, s) \<Rightarrow> ([], s)
                    | (Some _, s) \<Rightarrow> ([Reply resp], s))))"

definition decision :: "string \<Rightarrow> nat list option \<Rightarrow> bool \<times> nat option list" where
  "decision qname ports =
     (if qname = [] \<or> ports = Some [] then (True, [])
      else (False, case ports of None \<Rightarrow> [None] | Some ps \<Rightarrow> map Some ps))"

definition forward_and_learn ::
  "config \<Rightarrow> spec list \<Rightarrow> 'k runner \<Rightarrow> (wire \<Rightarrow> dns_message option) \<Rightarrow> (nat \<Rightarrow> real) \<Rightarrow> wire option \<Rightarrow>
     wire \<Rightarrow> string \<Rightarrow> nat option list \<Rightarrow> 'k sidecar \<Rightarrow> dns_effect list \<times> 'k sidecar" where
  "forward_and_learn cfg specs run from_wire clk upstream data qname port_set s =
     (case upstream of
        None \<Rightarrow> ([Forward data], s)
      | Some resp \<Rightarrow>
          (case respond_allowed cfg specs run from_wire clk resp qname port_set s of
             (eff, s) \<Rightarrow> (Forward data # eff, s)))"

definition respond_recorded ::
  "config \<Rightarrow> (wire \<Rightarrow> dns_message option) \<Rightarrow> real \<Rightarrow> wire \<Rightarrow> string \<Rightarrow> 'k sidecar \<Rightarrow>
     dns_effect list \<times> 'k sidecar" where
  "respond_recorded cfg from_wire now resp qname s =
     (let recs = a_records_or_none from_wire resp
      in ([Reply resp], if recs = [] then s else record_hosts cfg now recs qname s))"

definition forward_and_record ::
  "config \<Rightarrow> (wire \<Rightarrow> dns_message option) \<Rightarrow> real \<Rightarrow> wire option \<Rightarrow> wire \<Rightarrow> string \<Rightarrow> 'k sidecar \<Rightarrow>
     dns_effect list \<times> 'k sidecar" where
  "forward_and_record cfg from_wire now upstream data qname s =
     (case upstream of
        None \<Rightarrow> ([Forward data], s)
      | Some resp \<Rightarrow>
          (case respond_recorded cfg from_wire now resp qname s of
             (eff, s) \<Rightarrow> (Forward data # eff, s)))"

definition send_nxdomain ::
  "(wire \<Rightarrow> dns_message option) \<Rightarrow> (dns_message \<Rightarrow> wire option) \<Rightarrow> wire \<Rightarrow> dns_effect list" where
  "send_nxdomain from_wire nx_wire data =
     (case nxdomain_for from_wire nx_wire data of None \<Rightarrow> [] | Some resp \<Rightarrow> [Reply resp])"

text \<open>\<open>client\<close> says whether there is a consent client.\<close>

definition send_denied ::
  "config \<Rightarrow> (wire \<Rightarrow> dns_message option) \<Rightarrow> (dns_message \<Rightarrow> wire option) \<Rightarrow> real \<Rightarrow> bool \<Rightarrow>
     wire option \<Rightarrow> wire \<Rightarrow> string \<Rightarrow> 'k sidecar \<Rightarrow> dns_effect list \<times> 'k sidecar" where
  "send_denied cfg from_wire nx_wire now client upstream data qname s =
     (if client \<and> EGRESS_MODE cfg \<in> RESOLVING_MODES
      then forward_and_record cfg from_wire now upstream data qname s
      else (send_nxdomain from_wire nx_wire data, s))"

definition handle_rejected ::
  "spec list \<Rightarrow> (wire \<Rightarrow> dns_message option) \<Rightarrow> (dns_message \<Rightarrow> wire option) \<Rightarrow> wire \<Rightarrow> string \<Rightarrow>
     dns_effect list option" where
  "handle_rejected reject_specs from_wire nx_wire data qname =
     (if \<not> rejected_for reject_specs qname then None
      else Some (send_nxdomain from_wire nx_wire data))"

definition handle_packet ::
  "config \<Rightarrow> spec list \<Rightarrow> spec list \<Rightarrow> 'k runner \<Rightarrow> (wire \<Rightarrow> dns_message option) \<Rightarrow>
     (dns_message \<Rightarrow> wire option) \<Rightarrow> (nat \<Rightarrow> real) \<Rightarrow> bool \<Rightarrow> wire option \<Rightarrow> wire \<Rightarrow> 'k sidecar \<Rightarrow>
     dns_effect list \<times> 'k sidecar" where
  "handle_packet cfg specs reject_specs run from_wire nx_wire clk client upstream data s =
     (case query_name from_wire data of
        None \<Rightarrow> ([], s)
      | Some qname \<Rightarrow>
          (let bump = (if client then [Bump] else [])
           in case handle_rejected reject_specs from_wire nx_wire data qname of
                Some eff \<Rightarrow> (bump @ eff, s)
              | None \<Rightarrow>
                  (case ports_for specs (clk 0) qname s of (ports, s) \<Rightarrow>
                    (case decision qname ports of (deny, port_set) \<Rightarrow>
                      (case (if deny
                             then send_denied cfg from_wire nx_wire (clk 1) client upstream data qname s
                             else forward_and_learn cfg specs run from_wire (\<lambda>n. clk (1 + n)) upstream
                                    data qname port_set s) of
                         (eff, s) \<Rightarrow> (bump @ eff, s))))))"


section \<open>Lemmas\<close>

lemma accept_rules_allow:
  assumes "dict_ok (LEARNED s)"
  shows "accept_rules (LEARNED (snd (allow cfg run now ip p ttl fl s))) \<subseteq>
      insert (rule_args ip p) (accept_rules (LEARNED s)) \<and>
    dict_ok (LEARNED (snd (allow cfg run now ip p ttl fl s)))"
proof -
  have rec: "accept_rules (LEARNED (record_allow ip p e s')) \<subseteq>
      insert (rule_args ip p) (accept_rules (LEARNED s))"
    if "LEARNED s' = LEARNED s" for e and s' :: "'a sidecar"
  proof (cases "map_of (LEARNED s) ip")
    case None
    with that assms show ?thesis by (auto simp: record_allow_def accept_rules_update)
  next
    case (Some r)
    with that assms accept_rules_lookup [OF assms Some] show ?thesis
      by (auto simp: record_allow_def accept_rules_update)
  qed
  obtain res k where i: "install cfg run ip p (kernel s) = (res, k)" by fastforce
  show ?thesis
    using rec [of "s\<lparr>kernel := k\<rparr>"] i assms
    by (cases res) (auto simp: allow_def Let_def supersede_port_denies_def discard_rejects_tables)
qed

lemma accept_rules_learn_ports:
  assumes "dict_ok (LEARNED s)"
  shows "accept_rules (LEARNED (snd (learn_ports cfg run clk ip ports ttl fl s))) \<subseteq>
      rule_args ip ` set ports \<union> accept_rules (LEARNED s) \<and>
    dict_ok (LEARNED (snd (learn_ports cfg run clk ip ports ttl fl s)))"
  using assms
proof (induction ports arbitrary: clk s)
  case (Cons p ports)
  obtain res s1 where a: "allow cfg run (clk 0) ip p ttl fl s = (res, s1)" by fastforce
  have "accept_rules (LEARNED s1) \<subseteq> insert (rule_args ip p) (accept_rules (LEARNED s))"
    "dict_ok (LEARNED s1)"
    using accept_rules_allow [OF Cons.prems, of cfg run "clk 0" ip p ttl fl] a by simp_all
  with Cons.IH [of s1 "\<lambda>n. clk (Suc n)"] a show ?case by (cases res) auto
qed simp

lemma accept_rules_learn_all:
  assumes "dict_ok (LEARNED s)"
  shows "accept_rules (LEARNED (snd (learn_all cfg run clk recs ports cap s))) \<subseteq>
      {rule_args ip p | ip p. ip \<in> fst ` set recs \<and> p \<in> set ports} \<union> accept_rules (LEARNED s)"
  using assms
proof (induction recs arbitrary: clk s)
  case (Cons x recs)
  obtain ip ttl where x: "x = (ip, ttl)" by (cases x)
  let ?t = "case cap of None \<Rightarrow> ttl | Some c \<Rightarrow> min ttl c"
  obtain res s1 where l: "learn_ports cfg run clk ip ports ?t (cap = None) s = (res, s1)" by fastforce
  have s1: "accept_rules (LEARNED s1) \<subseteq> rule_args ip ` set ports \<union> accept_rules (LEARNED s)"
    "dict_ok (LEARNED s1)"
    using accept_rules_learn_ports [OF Cons.prems, of cfg run clk ip ports ?t "cap = None"] l by simp_all
  define R where "R xs = {rule_args ip p | ip p. ip \<in> fst ` set xs \<and> p \<in> set ports}"
    for xs :: "(string \<times> real) list"
  have R: "rule_args ip ` set ports \<subseteq> R (x # recs)" "R recs \<subseteq> R (x # recs)"
    by (auto simp: R_def x)
  note IH = Cons.IH [OF s1(2), folded R_def, of "\<lambda>n. clk (length ports + n)"]
  show ?case unfolding R_def [symmetric]
  proof (cases res)
    case None
    then show "accept_rules (LEARNED (snd (learn_all cfg run clk (x # recs) ports cap s))) \<subseteq>
        R (x # recs) \<union> accept_rules (LEARNED s)"
      using s1(1) R(1) l x by (simp add: Let_def) blast
  next
    case (Some u)
    then have "accept_rules (LEARNED (snd (learn_all cfg run clk (x # recs) ports cap s))) \<subseteq>
        R recs \<union> accept_rules (LEARNED s1)"
      using IH l x by (simp add: Let_def)
    also have "\<dots> \<subseteq> R (x # recs) \<union> accept_rules (LEARNED s)" using s1(1) R by blast
    finally show "accept_rules (LEARNED (snd (learn_all cfg run clk (x # recs) ports cap s))) \<subseteq>
        R (x # recs) \<union> accept_rules (LEARNED s)" .
  qed
qed simp


lemma session_allow_rule_cap_frame [simp]:
  "LEARNED (snd (session_allow_rule_cap specs t1 t2 q s)) = LEARNED s"
  "kernel (snd (session_allow_rule_cap specs t1 t2 q s)) = kernel s"
  by (simp_all add: session_allow_rule_cap_def prune_session_allows_def Let_def)

lemma ports_for_frame [simp]:
  "LEARNED (snd (ports_for specs t q s)) = LEARNED s" "kernel (snd (ports_for specs t q s)) = kernel s"
  by (simp_all add: ports_for_def prune_session_allows_def Let_def)

lemma respond_allowed_rules:
  assumes "dict_ok (LEARNED s)"
  shows "accept_rules (LEARNED (snd (respond_allowed cfg specs run from_wire clk resp q ports s))) \<subseteq>
    {rule_args ip p | ip p. p \<in> set ports} \<union> accept_rules (LEARNED s)"
proof -
  let ?cap = "session_allow_rule_cap specs (clk 0) (clk 1) q s"
  have "dict_ok (LEARNED (snd ?cap))" using assms by simp
  from accept_rules_learn_all [OF this, of cfg run "\<lambda>n. clk (2 + n)"
      "a_records_or_none from_wire resp" ports "fst ?cap"]
  show ?thesis
    by (auto simp: respond_allowed_def Let_def case_prod_unfold split: option.splits)
qed

lemma decision_allow:
  "decision q ports = (False, port_set) \<Longrightarrow>
     q \<noteq> [] \<and> (None \<in> set port_set \<longleftrightarrow> ports = None) \<and>
     (\<forall>n. Some n \<in> set port_set \<longleftrightarrow> (\<exists>ps. ports = Some ps \<and> n \<in> set ps))"
  by (cases ports) (auto simp: decision_def split: if_splits)


section \<open>Properties\<close>

definition off_list :: "spec list \<Rightarrow> real \<Rightarrow> string \<Rightarrow> 'k sidecar \<Rightarrow> bool" where
  "off_list specs now q s \<longleftrightarrow> q = [] \<or> fst (ports_for specs now q s) = Some []"

text \<open>
  No resolution oracle (#3041, #2367). A query for a name on the reject list never reaches the
  upstream, in any mode; a query for a name off the allow list does not either unless there is a
  consent client and the mode is one that resolves. In all these cases the tables and the kernel are
  left alone, whatever the upstream would have answered.
\<close>

theorem unresolved_never_forwarded:
  assumes "query_name from_wire data = Some q"
    "rejected_for reject_specs q \<or>
     (off_list specs (clk 0) q s \<and> \<not> (client \<and> EGRESS_MODE cfg \<in> RESOLVING_MODES))"
    "handle_packet cfg specs reject_specs run from_wire nx_wire clk client upstream data s = (eff, s')"
  shows "(\<forall>w. Forward w \<notin> set eff) \<and> LEARNED s' = LEARNED s \<and> kernel s' = kernel s"
proof -
  have nx: "Forward w \<notin> set (send_nxdomain from_wire nx_wire data)" for w
    by (simp add: send_nxdomain_def split: option.splits)
  show ?thesis
  proof (cases "rejected_for reject_specs q")
    case True
    with assms(1,3) nx show ?thesis by (auto simp: handle_packet_def handle_rejected_def Let_def)
  next
    case False
    obtain ps s1 where pf: "ports_for specs (clk 0) q s = (ps, s1)" by fastforce
    note frame = ports_for_frame [of specs "clk 0" q s, unfolded pf snd_conv]
    have "decision q ps = (True, [])"
      using assms(2) False pf by (auto simp: off_list_def decision_def)
    with assms False pf nx frame show ?thesis
      by (auto simp: handle_packet_def handle_rejected_def send_denied_def Let_def)
  qed
qed

text \<open>
  DNS opens only what the lists in force allow. A query adds to the recorded ACCEPT rules at most
  rules for ports that a static spec or an unexpired session allow matching the queried name permits:
  an all-ports rule only for a port-less spec, a port rule only for that port.
\<close>

theorem dns_opens_only_allowed_ports:
  assumes "query_name from_wire data = Some q" "dict_ok (LEARNED s)"
    "handle_packet cfg specs reject_specs run from_wire nx_wire clk client upstream data s = (eff, s')"
    "rule_args ip p \<in> accept_rules (LEARNED s')" "rule_args ip p \<notin> accept_rules (LEARNED s)"
  shows "\<not> rejected_for reject_specs q \<and>
    (\<exists>h m. (h, p, m) \<in> in_force specs (clk 0) s \<and> host_matches q h m)"
proof -
  have rej: "\<not> rejected_for reject_specs q"
  proof
    assume "rejected_for reject_specs q"
    then have "LEARNED s' = LEARNED s"
      using assms(1,3) by (auto simp: handle_packet_def handle_rejected_def Let_def)
    with assms(4,5) show False by simp
  qed
  obtain ps s1 where pf: "ports_for specs (clk 0) q s = (ps, s1)" by fastforce
  note frame = ports_for_frame [of specs "clk 0" q s, unfolded pf snd_conv]
  obtain deny port_set where d: "decision q ps = (deny, port_set)" by fastforce
  have "\<not> deny"
  proof
    assume deny
    have s': "s' = snd (send_denied cfg from_wire nx_wire (clk 1) client upstream data q s1)"
      using assms(1,3) rej pf d \<open>deny\<close>
      by (auto simp: handle_packet_def handle_rejected_def Let_def case_prod_unfold)
    have "accept_rules (LEARNED (record_hosts cfg now recs h s1)) = accept_rules (LEARNED s1)" for now recs h
      using record_hosts_accept_rules frame assms(2) by metis
    then have "accept_rules (LEARNED s') = accept_rules (LEARNED s)"
      unfolding s' by (simp add: send_denied_def forward_and_record_def respond_recorded_def frame Let_def
          split: option.splits)
    with assms(4,5) show False by simp
  qed
  then have s': "s' = snd (forward_and_learn cfg specs run from_wire (\<lambda>n. clk (1 + n)) upstream data q
      port_set s1)"
    using assms(1,3) rej pf d
    by (auto simp: handle_packet_def handle_rejected_def Let_def case_prod_unfold)
  have "accept_rules (LEARNED s') \<subseteq> {rule_args ip p | ip p. p \<in> set port_set} \<union> accept_rules (LEARNED s)"
    unfolding s' using respond_allowed_rules [of s1 cfg specs run from_wire "\<lambda>n. clk (1 + n)"] assms(2) frame
    by (auto simp: forward_and_learn_def case_prod_unfold split: option.splits)
  then have "p \<in> set port_set" using assms(4,5) by auto
  with decision_allow [of q ps port_set] d \<open>\<not> deny\<close> ports_for_spec [of specs "clk 0" q s] pf
  have "\<exists>h m. (h, p, m) \<in> in_force specs (clk 0) s \<and> host_matches q h m"
    by (cases p) auto
  with rej show ?thesis by blast
qed


text \<open>A parser for the witnesses: the queries and the one answer they use.\<close>

definition example_from_wire :: "wire \<Rightarrow> dns_message option" where
  "example_from_wire w =
     (if w = [1] then Some \<lparr>question = [''A.org.''], answer = []\<rparr>
      else if w = [2] then
        Some \<lparr>question = [''A.org.''],
          answer = [\<lparr>rdtype = 1, rr_ttl = 600, rr_addresses = [''9.9.9.9'']\<rparr>]\<rparr>
      else None)"

lemma example_query: "query_name example_from_wire [1] = Some ''a.org''"
  by (simp add: query_name_def example_from_wire_def rstrip_dots_def lower_def lower_char_def char_of_def
      bit_0)

theorem unresolved_never_forwarded_witness:
  "\<forall>w. Forward w \<notin> set (fst (handle_packet default_config [] [] chain_run example_from_wire
     (\<lambda>_. Some [3]) (\<lambda>n. 5) True (Some [2]) [1] (initial_sidecar [])))"
proof -
  have "off_list [] 5 ''a.org'' (initial_sidecar [])"
    "EGRESS_MODE default_config \<notin> RESOLVING_MODES"
    by (simp_all add: off_list_def ports_for_def prune_session_allows_def initial_sidecar_def
        default_config_def RESOLVING_MODES_def Let_def)
  with unresolved_never_forwarded [OF example_query _ prod.collapse [symmetric], of "[]" "[]" "\<lambda>n. 5"
      "initial_sidecar []" True default_config chain_run "\<lambda>_. Some [3]" "Some [2]"]
  show ?thesis by blast
qed

theorem dns_opens_only_allowed_ports_witness:
  "\<exists>h m. (h, Some 443, m) \<in> in_force [(''a.org'', Some 443, EXACT)] 5 (initial_sidecar ([] :: string list list)) \<and>
     host_matches ''a.org'' h m"
proof -
  let ?r = "handle_packet default_config [(''a.org'', Some 443, EXACT)] [] chain_run example_from_wire
    (\<lambda>_. Some [3]) (\<lambda>n. 5) True (Some [2]) [1] (initial_sidecar [])"
  have "rule_args ''9.9.9.9'' (Some 443) \<in> accept_rules (LEARNED (snd ?r))"
    by (simp add: handle_packet_def example_query handle_rejected_def rejected_for_def ports_for_def
        prune_session_allows_def initial_sidecar_def host_matches_def decision_def
        forward_and_learn_def respond_allowed_def a_records_or_none_def a_records_with_ttl_def
        example_from_wire_def rdatatype_A_def session_allow_rule_cap_def matches_static_spec_def
        allow_def install_def rule_exists_def chain_run_def py_slice_def rule_args_def record_allow_def
        accept_rules_def Let_def)
  moreover have "rule_args ''9.9.9.9'' (Some 443) \<notin> accept_rules (LEARNED (initial_sidecar ([] :: string list list)))"
    "dict_ok (LEARNED (initial_sidecar ([] :: string list list)))"
    by (simp_all add: initial_sidecar_def accept_rules_def)
  ultimately show ?thesis
    using dns_opens_only_allowed_ports [OF example_query _ prod.collapse [symmetric],
        of "initial_sidecar []" "''9.9.9.9''" "Some 443" default_config "[(''a.org'', Some 443, EXACT)]"
        "[]" chain_run "\<lambda>_. Some [3]" "\<lambda>n. 5" True "Some [2]"] by blast
qed

text \<open>
  What the DNS path learns is out of reach of a revocation by name. An address that \<open>learn_all\<close>
  records for the first time (a name that is allow-listed or session-allowed never goes through
  \<open>record_hosts\<close>) carries no name, so \<open>drop_for_host\<close> of any host other than the address itself leaves
  its record and its rule; the documentation of \<open>drop_for_host\<close> says that every resolved name is
  recorded, allow-listed or not.
\<close>

theorem revoke_misses_learned_address:
  assumes "map_of (LEARNED s) ip = None" "dict_ok (LEARNED s)" "working_iptables cfg run chain"
    "snd (learn_all cfg run clk [(ip, ttl)] [p] cap s) = s'"
    "host \<noteq> []" "ip \<noteq> host" "ip \<noteq> lower host"
  shows "ip \<notin> set (fst (drop_for_host cfg run host ''allowed'' s')) \<and>
    (\<exists>r. map_of (LEARNED (snd (drop_for_host cfg run host ''allowed'' s'))) ip = Some r \<and>
       p \<in> set (rec_ports r))"
proof -
  obtain k where k: "install cfg run ip p (kernel s) = (Some (), k)"
    using working_iptables.install_works [OF assms(3)] by blast
  define s1 where "s1 = snd (allow cfg run (clk 0) ip p (case cap of None \<Rightarrow> ttl | Some c \<Rightarrow> min ttl c)
    (cap = None) s)"
  have s': "s' = s1"
    unfolding assms(4) [symmetric] s1_def by (simp add: allow_def k Let_def)
  obtain r where r: "map_of (LEARNED s1) ip = Some r" "rec_host r = None" "rec_ports r = [p]"
    unfolding s1_def
    using assms(1) k by (cases p) (auto simp: allow_def Let_def record_allow_def
        supersede_port_denies_def discard_rejects_tables dict_simps)
  have ok: "dict_ok (LEARNED s1)"
    unfolding s1_def using accept_rules_allow [OF assms(2)] by blast
  have "lower (case rec_host r of None \<Rightarrow> [] | Some h \<Rightarrow> h) \<noteq> lower host"
    using r(2) assms(5) by (simp add: lower_def)
  from drop_for_host_misses [OF r(1) ok this assms(6,7)] r(3) show ?thesis
    unfolding s' by auto
qed

theorem revoke_misses_learned_address_witness:
  "''9.9.9.9'' \<notin> set (fst (drop_for_host default_config chain_run ''a.org'' ''allowed''
     (snd (learn_all default_config chain_run (\<lambda>n. 5) [(''9.9.9.9'', 600)] [Some 443] (Some 60)
       (initial_sidecar [])))))"
proof -
  have "map_of (LEARNED (initial_sidecar ([] :: string list list))) ''9.9.9.9'' = None" "dict_ok (LEARNED (initial_sidecar ([] :: string list list)))"
    "''a.org'' \<noteq> []" "''9.9.9.9'' \<noteq> ''a.org''" "''9.9.9.9'' \<noteq> lower ''a.org''"
    by (simp_all add: initial_sidecar_def lower_def lower_char_def)
  from revoke_misses_learned_address [OF this(1,2) chain_iptables.working_iptables_axioms refl this(3-5)]
  show ?thesis by blast
qed

end
