(* ===== verification/Consent_Client.thy ===== *)
theory Consent_Client
  imports Allowlist Rules
begin

text \<open>
  \<open>klangksidecar/consent.py\<close>: the sidecar's end of the consent channel. A frame is a decoded JSON
  value. A future is what its owner can observe of it; the coroutine \<open>request\<close> is split at its
  awaits into a start, and an end that is one of: the verdict frame, the time-out, the disconnect.
  The web socket is the flag that one is open, sends are effects, and \<open>uuid4\<close>, the jitter and the
  clock are arguments. A verdict duration that is not a JSON string counts as an unknown token; that
  \<open>duration_ttl\<close> raises for an array or an object is not modelled (klangkd sends strings only).
\<close>

section \<open>Frames\<close>

datatype json =
    JNull
  | JBool bool
  | JNum real
  | JStr string
  | JArr "json list"
  | JObj "(string \<times> json) list"

fun truthy :: "json \<Rightarrow> bool" where
  "truthy JNull = False"
| "truthy (JBool b) = b"
| "truthy (JNum n) = (n \<noteq> 0)"
| "truthy (JStr s) = (s \<noteq> [])"
| "truthy (JArr xs) = (xs \<noteq> [])"
| "truthy (JObj xs) = (xs \<noteq> [])"

definition jget :: "(string \<times> json) list \<Rightarrow> string \<Rightarrow> json" where
  "jget msg key = (case map_of msg key of None \<Rightarrow> JNull | Some v \<Rightarrow> v)"

definition jitter_gate :: "config \<Rightarrow> real \<Rightarrow> real" where
  "jitter_gate cfg u = ACTIVITY_GATE_S cfg * u"

definition ws_url :: "string \<Rightarrow> string" where
  "ws_url consent_url =
     (if startswith consent_url ''https://''
      then (let host = takeWhile (\<lambda>c. c \<noteq> CHR ''/'') (drop 8 consent_url)
            in ''wss://'' @ host @ ''/ws/egress-sidecar'')
      else if startswith consent_url ''http://''
      then (let host = takeWhile (\<lambda>c. c \<noteq> CHR ''/'') (drop 7 consent_url)
            in ''ws://'' @ host @ ''/ws/egress-sidecar'')
      else consent_url)"

definition verdict_result :: "(string \<times> json) list \<Rightarrow> verdict \<times> string" where
  "verdict_result msg =
     (let decision = jget msg ''decision'';
          token = (if decision = JStr ''allow'' then Allow else Deny);
          duration = jget msg ''duration''
      in (token, if truthy duration then (case duration of JStr d \<Rightarrow> d | _ \<Rightarrow> ''unknown'') else ''once''))"


section \<open>The client\<close>

datatype future = Waiting | Done "verdict \<times> string" | Cancelled

record client =
  ws_open :: bool
  is_connected :: bool
  pending :: "(string, future) dict"
  results :: "(string, verdict \<times> string) dict"
  last_activity_send :: real

text \<open>\<open>results\<close> is what the futures popped from \<open>_pending\<close> were resolved to, by request id.\<close>

definition init_client :: client where
  "init_client =
     \<lparr>ws_open = False, is_connected = False, pending = [], results = [], last_activity_send = 0\<rparr>"

datatype frame =
    Egress string string nat
  | Activity
  | DropAck string bool

text \<open>Resolving a popped future: \<open>if fut is not None and not fut.done(): fut.set_result(v)\<close>.\<close>

definition resolve_future ::
  "string \<Rightarrow> future option \<Rightarrow> verdict \<times> string \<Rightarrow> client \<Rightarrow> client" where
  "resolve_future lid fut v c =
     (if fut = Some Waiting then c\<lparr>results := AList.update lid v (results c)\<rparr> else c)"

definition apply_verdict_frame :: "(string \<times> json) list \<Rightarrow> client \<Rightarrow> client" where
  "apply_verdict_frame msg c =
     (case jget msg ''id'' of
        JStr vid \<Rightarrow>
          (let fut = map_of (pending c) vid;
               c = c\<lparr>pending := AList.delete vid (pending c)\<rparr>
           in resolve_future vid fut (verdict_result msg) c)
      | _ \<Rightarrow> c)"

definition fail_close_one :: "string \<Rightarrow> client \<Rightarrow> client" where
  "fail_close_one lid c =
     (let fut = map_of (pending c) lid;
          c = c\<lparr>pending := AList.delete lid (pending c)\<rparr>
      in resolve_future lid fut (Deny, ''once'') c)"

definition fail_close_pending :: "client \<times> 'k sidecar \<Rightarrow> client \<times> 'k sidecar" where
  "fail_close_pending cs =
     (case cs of (c, s) \<Rightarrow>
        (fold fail_close_one (map fst (pending c)) c, s\<lparr>VERDICT_CACHE := []\<rparr>))"

text \<open>The body of the \<open>async with\<close> up to the receive loop, and the \<open>finally\<close> of \<open>_try_connect\<close>.\<close>

definition on_connect :: "client \<Rightarrow> client" where
  "on_connect c = c\<lparr>ws_open := True, is_connected := True\<rparr>"

definition on_disconnect :: "client \<times> 'k sidecar \<Rightarrow> client \<times> 'k sidecar" where
  "on_disconnect cs =
     (case cs of (c, s) \<Rightarrow> fail_close_pending (c\<lparr>ws_open := False, is_connected := False\<rparr>, s))"

text \<open>One turn of the reconnect loop of \<open>run\<close>: how long it sleeps, and the backoff after it.\<close>

definition backoff_step :: "bool \<Rightarrow> real \<Rightarrow> real \<times> real" where
  "backoff_step established backoff =
     (let backoff = (if established then 1 else backoff) in (backoff, min (backoff * 2) 15))"

definition drop_session_rules :: "string \<Rightarrow> string \<Rightarrow> 'k sidecar \<Rightarrow> 'k sidecar" where
  "drop_session_rules host decision s =
     (if decision = ''allowed'' then drop_session_hosts host s
      else if decision = ''denied'' then drop_session_denies host s else s)"

definition drop_host_rules ::
  "config \<Rightarrow> 'k runner \<Rightarrow> json \<Rightarrow> json \<Rightarrow> 'k sidecar \<Rightarrow> bool \<times> 'k sidecar" where
  "drop_host_rules cfg run host decision s =
     (case (host, decision) of
        (JStr h, JStr d) \<Rightarrow>
          (if d = ''allowed'' \<or> d = ''denied''
           then (let s = drop_session_rules h d s
                 in case drop_for_host cfg run h d s of
                      (ips, s) \<Rightarrow> (True, clear_verdict_cache ips s))
           else (False, s))
      | _ \<Rightarrow> (False, s))"

definition send_drop_ack :: "json \<Rightarrow> bool \<Rightarrow> client \<Rightarrow> frame list" where
  "send_drop_ack ack_id ok c =
     (case ack_id of JStr i \<Rightarrow> if ws_open c then [DropAck i ok] else [] | _ \<Rightarrow> [])"

definition handle_drop_rule ::
  "config \<Rightarrow> 'k runner \<Rightarrow> (string \<times> json) list \<Rightarrow> client \<times> 'k sidecar \<Rightarrow>
     frame list \<times> client \<times> 'k sidecar" where
  "handle_drop_rule cfg run msg cs =
     (case cs of (c, s) \<Rightarrow>
       (case drop_host_rules cfg run (jget msg ''host'') (jget msg ''decision'') s of
          (ok, s) \<Rightarrow> (send_drop_ack (jget msg ''id'') ok c, c, s)))"

text \<open>\<open>_dispatch\<close>; \<^term>\<open>None\<close> is a frame that \<open>json.loads\<close> rejects.\<close>

definition dispatch ::
  "config \<Rightarrow> 'k runner \<Rightarrow> json option \<Rightarrow> client \<times> 'k sidecar \<Rightarrow> frame list \<times> client \<times> 'k sidecar" where
  "dispatch cfg run raw cs =
     (case raw of
        Some (JObj msg) \<Rightarrow>
          (if jget msg ''type'' = JStr ''verdict''
           then ([], apply_verdict_frame msg (fst cs), snd cs)
           else if jget msg ''type'' = JStr ''drop_rule'' then handle_drop_rule cfg run msg cs
           else ([], cs))
      | _ \<Rightarrow> ([], cs))"

text \<open>
  \<open>request\<close> up to its second await: \<open>sent\<close> says whether the send raised. The first component is the
  pair it returns at once, \<^term>\<open>None\<close> when it goes on to wait for the future.
\<close>

definition request ::
  "string \<Rightarrow> bool \<Rightarrow> string \<Rightarrow> nat \<Rightarrow> client \<Rightarrow> (verdict \<times> string) option \<times> frame list \<times> client" where
  "request lid sent dst dport c =
     (if \<not> is_connected c \<or> \<not> ws_open c then (Some (Deny, ''once''), [], c)
      else (let c = c\<lparr>pending := AList.update lid Waiting (pending c)\<rparr>
            in if \<not> sent then (Some (Deny, ''once''), [], c\<lparr>pending := AList.delete lid (pending c)\<rparr>)
               else (None, [Egress lid dst dport], c)))"

text \<open>The ends of the wait: \<open>wait_for\<close> expires, or the future has a result.\<close>

definition request_timeout :: "string \<Rightarrow> client \<Rightarrow> (verdict \<times> string) \<times> client" where
  "request_timeout lid c = ((Deny, ''once''), c\<lparr>pending := AList.delete lid (pending c)\<rparr>)"

definition request_result :: "string \<Rightarrow> client \<Rightarrow> (verdict \<times> string) option" where
  "request_result lid c = map_of (results c) lid"

definition bump_activity :: "config \<Rightarrow> real \<Rightarrow> real \<Rightarrow> client \<Rightarrow> frame list \<times> client" where
  "bump_activity cfg now u c =
     (if \<not> is_connected c \<or> \<not> ws_open c then ([], c)
      else if now - last_activity_send c < jitter_gate cfg u then ([], c)
      else ([Activity], c\<lparr>last_activity_send := now\<rparr>))"


section \<open>The byte sampler\<close>

text \<open>\<^term>\<open>None\<close> is a reader that raised or returned something \<open>int()\<close> rejects.\<close>

definition safe_bytes :: "int option \<Rightarrow> int" where
  "safe_bytes n = (case n of None \<Rightarrow> 0 | Some n \<Rightarrow> n)"

definition activity_delta :: "int option \<Rightarrow> int \<Rightarrow> bool \<times> int" where
  "activity_delta get_bytes prev = (let cur = safe_bytes get_bytes in (prev < cur, cur))"



section \<open>Properties\<close>

lemma fail_close_one_pending [simp]: "pending (fail_close_one lid c) = AList.delete lid (pending c)"
  by (simp add: fail_close_one_def resolve_future_def Let_def)

lemma fail_close_one_flags [simp]:
  "is_connected (fail_close_one lid c) = is_connected c" "ws_open (fail_close_one lid c) = ws_open c"
  by (simp_all add: fail_close_one_def resolve_future_def Let_def)

lemma fail_close_one_result:
  "map_of (results (fail_close_one lid c)) i =
     (if i = lid \<and> map_of (pending c) lid = Some Waiting then Some (Deny, ''once'')
      else map_of (results c) i)"
  by (simp add: fail_close_one_def resolve_future_def dict_simps Let_def)

lemma fail_close_fold:
  "pending (fold fail_close_one lids c) = filter (\<lambda>(i, f). i \<notin> set lids) (pending c) \<and>
   is_connected (fold fail_close_one lids c) = is_connected c \<and>
   ws_open (fold fail_close_one lids c) = ws_open c \<and>
   map_of (results (fold fail_close_one lids c)) i =
     (if i \<in> set lids \<and> map_of (pending c) i = Some Waiting then Some (Deny, ''once'')
      else map_of (results c) i)"
proof (induction lids arbitrary: c)
  case (Cons lid lids)
  have "filter (\<lambda>(i, f). i \<notin> set lids) (AList.delete lid (pending c)) =
      filter (\<lambda>(i, f). i \<notin> set (lid # lids)) (pending c)"
    by (auto simp: AList.delete_eq case_prod_unfold intro: filter_cong)
  with Cons.IH [of "fail_close_one lid c"] show ?case
    by (auto simp: fail_close_one_result dict_simps)
qed (simp add: case_prod_unfold)

text \<open>
  A lost connection fails closed. After the \<open>finally\<close> of \<open>_try_connect\<close> the client is
  disconnected, no request is pending, every request that was waiting has the answer deny-once, no
  other answer changed, and no cached verdict is left to be trusted; and a request on a disconnected
  client returns deny-once at once without sending anything.
\<close>

theorem disconnect_fails_closed:
  assumes "on_disconnect (c, s) = (c', s')"
  shows "\<not> is_connected c' \<and> pending c' = [] \<and> VERDICT_CACHE s' = [] \<and>
    (\<forall>lid. request_result lid c' =
       (if map_of (pending c) lid = Some Waiting then Some (Deny, ''once'') else request_result lid c)) \<and>
    request lid0 sent dst dport c' = (Some (Deny, ''once''), [], c')"
proof -
  let ?c = "c\<lparr>ws_open := False, is_connected := False\<rparr>"
  have c': "c' = fold fail_close_one (map fst (pending c)) ?c" "s' = s\<lparr>VERDICT_CACHE := []\<rparr>"
    using assms by (auto simp: on_disconnect_def fail_close_pending_def)
  have "pending c' = []"
    using fail_close_fold [of "map fst (pending c)" ?c] by (auto simp: c' filter_empty_conv rev_image_eqI)
  moreover have "request_result lid c' =
      (if map_of (pending c) lid = Some Waiting then Some (Deny, ''once'') else request_result lid c)" for lid
  proof -
    have "map_of (pending c) lid = Some Waiting \<Longrightarrow> lid \<in> set (map fst (pending c))"
      by (force dest: map_of_SomeD)
    then show ?thesis
      using fail_close_fold [of "map fst (pending c)" ?c lid] by (auto simp: c' request_result_def)
  qed
  moreover have "\<not> is_connected c'"
    using fail_close_fold [of "map fst (pending c)" ?c] by (simp add: c')
  ultimately show ?thesis by (simp add: c' request_def)
qed

definition example_client :: client where
  "example_client = (on_connect init_client)\<lparr>pending := [(''ab12'', Waiting)]\<rparr>"

theorem disconnect_fails_closed_witness:
  "request_result ''ab12'' (fst (on_disconnect (example_client, initial_sidecar ()))) =
     Some (Deny, ''once'')"
  using disconnect_fails_closed [OF prod.collapse [symmetric], of example_client "initial_sidecar ()"]
  by (simp add: example_client_def)

text \<open>
  Only an allow verdict allows. If handling a frame gives a request the answer allow, the frame is
  a verdict for that request's id whose decision is the string "allow", and the request was waiting;
  any other decision answers deny. After it the id is not pending, so a second verdict for the same id
  changes nothing.
\<close>

theorem allow_needs_verdict_frame:
  assumes "dispatch cfg run raw (c, s) = (frames, c', s')"
    "request_result lid c' = Some (Allow, d)" "request_result lid c \<noteq> Some (Allow, d)"
  shows "\<exists>msg. raw = Some (JObj msg) \<and> jget msg ''type'' = JStr ''verdict'' \<and>
    jget msg ''id'' = JStr lid \<and> jget msg ''decision'' = JStr ''allow'' \<and>
    map_of (pending c) lid = Some Waiting \<and> map_of (pending c') lid = None \<and>
    fst (snd (dispatch cfg run raw (c', s'))) = c'"
proof -
  have changed: "results c' \<noteq> results c" using assms(2,3) by (auto simp: request_result_def)
  then obtain msg where raw: "raw = Some (JObj msg)" and ty: "jget msg ''type'' = JStr ''verdict''"
    and c': "c' = apply_verdict_frame msg c"
    using assms(1) by (auto simp: dispatch_def handle_drop_rule_def case_prod_unfold
        split: option.splits json.splits if_splits)
  obtain vid where vid: "jget msg ''id'' = JStr vid" and w: "map_of (pending c) vid = Some Waiting"
    using changed by (auto simp: c' apply_verdict_frame_def resolve_future_def Let_def
        split: json.splits if_splits)
  have res: "results c' = AList.update vid (verdict_result msg) (results c)"
    "pending c' = AList.delete vid (pending c)"
    using vid w by (simp_all add: c' apply_verdict_frame_def resolve_future_def)
  have "lid = vid" using assms(2,3) by (auto simp: request_result_def res dict_simps split: if_splits)
  moreover have "verdict_result msg = (Allow, d)"
    using assms(2) \<open>lid = vid\<close> by (simp add: request_result_def res dict_simps)
  moreover have "map_of (pending c') vid = None" by (simp add: res dict_simps)
  moreover have "apply_verdict_frame msg c' = c'"
    using vid by (simp add: apply_verdict_frame_def resolve_future_def res(2) delete_idem dict_simps)
  ultimately show ?thesis
    using raw ty vid w by (auto simp: verdict_result_def dispatch_def Let_def split: if_splits)
qed

theorem allow_needs_verdict_frame_witness:
  "map_of (pending (fst (snd (dispatch default_config chain_run (Some (JObj [(''type'', JStr ''verdict''),
     (''id'', JStr ''ab12''), (''decision'', JStr ''allow''), (''duration'', JStr ''5m'')]))
     (example_client, initial_sidecar []))))) ''ab12'' = None"
proof -
  let ?d = "dispatch default_config chain_run (Some (JObj [(''type'', JStr ''verdict''),
     (''id'', JStr ''ab12''), (''decision'', JStr ''allow''), (''duration'', JStr ''5m'')]))
     (example_client, initial_sidecar [])"
  have "request_result ''ab12'' (fst (snd ?d)) = Some (Allow, ''5m'')"
    "request_result ''ab12'' example_client \<noteq> Some (Allow, ''5m'')"
    by (simp_all add: dispatch_def jget_def apply_verdict_frame_def resolve_future_def
        example_client_def on_connect_def init_client_def verdict_result_def request_result_def)
  from allow_needs_verdict_frame [OF _ this, of default_config chain_run _ _ "fst ?d" "snd (snd ?d)"]
  show ?thesis by (metis prod.collapse)
qed


lemma drop_session_hosts_frame [simp]:
  "LEARNED (drop_session_hosts h s) = LEARNED s" "REJECTED (drop_session_hosts h s) = REJECTED s"
  "kernel (drop_session_hosts h s) = kernel s"
  "SESSION_HOST_DENIES (drop_session_hosts h s) = SESSION_HOST_DENIES s"
  by (simp_all add: drop_session_hosts_def Let_def)

lemma clear_verdict_cache_frame [simp]:
  "LEARNED (clear_verdict_cache ips s) = LEARNED s" "REJECTED (clear_verdict_cache ips s) = REJECTED s"
  "kernel (clear_verdict_cache ips s) = kernel s"
  "SESSION_HOST_ALLOWS (clear_verdict_cache ips s) = SESSION_HOST_ALLOWS s"
  by (simp_all add: clear_verdict_cache_def)

lemma drop_learned_rules_session [simp]:
  "SESSION_HOST_ALLOWS (drop_learned_rules cfg run targets s) = SESSION_HOST_ALLOWS s"
proof -
  have "SESSION_HOST_ALLOWS (fold (forget_learned cfg run) ips s) = SESSION_HOST_ALLOWS s" for ips
    by (induction ips arbitrary: s)
      (simp_all add: forget_learned_def remove_learned_ports_def Let_def split: option.splits)
  then show ?thesis by (simp add: drop_learned_rules_def)
qed

lemma fst_session_ttl_cong:
  "SESSION_HOST_ALLOWS s = SESSION_HOST_ALLOWS s' \<Longrightarrow>
     fst (session_host_allows_ttl t1 t2 h p s) = fst (session_host_allows_ttl t1 t2 h p s')"
  by (simp add: session_allows.fst_ttl_of)

text \<open>
  A revocation frame closes every gate of the host. After \<open>handle_drop_rule\<close> for an allow, no
  session allow covers the host (in any case) on any port, no address that was recorded under its name
  (nor the host itself) has an ACCEPT in the chain or a cached verdict, the chain is still accounted
  for, and the acknowledgement says so.
\<close>

theorem drop_rule_closes_gates:
  assumes "iptables cfg run chain" "\<forall>r\<in>set base. \<not> learnable r" "accounted chain base s"
    "wf_session (SESSION_HOST_ALLOWS s)"
    "jget msg ''host'' = JStr h" "jget msg ''decision'' = JStr ''allowed''" "jget msg ''id'' = JStr i"
    "handle_drop_rule cfg run msg (c, s) = (frames, c', s')"
  shows "(lower h' = lower h \<longrightarrow> fst (session_host_allows_ttl t1 t2 h' p s') = None) \<and>
    (\<forall>ip r n. map_of (LEARNED s) ip = Some r \<and> rec_host r = Some n \<and> lower n = lower h \<or> ip = h \<longrightarrow>
       (\<forall>q. rule_args ip q \<notin> set (chain (kernel s'))) \<and>
       (\<forall>a b d v. ((a, b, ip, d), v) \<notin> set (VERDICT_CACHE s'))) \<and>
    accounted chain base s' \<and> c' = c \<and> (ws_open c \<longrightarrow> frames = [DropAck i True])"
proof -
  define s1 where "s1 = drop_session_hosts h s"
  obtain ips s2 where d: "drop_for_host cfg run h ''allowed'' s1 = (ips, s2)" by fastforce
  have s': "s' = clear_verdict_cache ips s2" "c' = c" "frames = send_drop_ack (JStr i) True c"
    using assms(5-8) d by (auto simp: handle_drop_rule_def drop_host_rules_def drop_session_rules_def
        s1_def Let_def)
  have acc1: "accounted chain base s1" using assms(3) by (simp add: s1_def accounted_def)
  note closed = revoke_closes [OF assms(1,2) acc1 d]
  have "accounted chain base s2"
    using iptables.accounted_drop_for_host [OF assms(1,2) acc1, of h "''allowed''"] d by simp
  then have acc: "accounted chain base s'" by (simp add: s' accounted_def)
  have "SESSION_HOST_ALLOWS s' = SESSION_HOST_ALLOWS (drop_session_hosts h s)"
    using d by (auto simp: s' s1_def drop_for_host_def Let_def)
  from fst_session_ttl_cong [OF this]
  have gate: "lower h' = lower h \<Longrightarrow> fst (session_host_allows_ttl t1 t2 h' p s') = None"
    by (simp add: session_allows.drop_uncovers [OF assms(4)])
  have mem: "ip \<in> set ips" if "map_of (LEARNED s) ip = Some r \<and> rec_host r = Some n \<and> lower n = lower h \<or> ip = h"
    for ip r n
    using that closed by (auto simp: s1_def)
  have "(\<forall>q. rule_args ip q \<notin> set (chain (kernel s'))) \<and> (\<forall>a b d v. ((a, b, ip, d), v) \<notin> set (VERDICT_CACHE s'))"
    if hit: "map_of (LEARNED s) ip = Some r \<and> rec_host r = Some n \<and> lower n = lower h \<or> ip = h" for ip r n
    using closed mem [OF hit] clear_verdict_cache_drops [OF mem [OF hit], where s = s2] by (auto simp: s')
  with gate acc s'(2,3) show ?thesis by (auto simp: send_drop_ack_def)
qed

theorem drop_rule_closes_gates_witness:
  "rule_args ''1.2.3.4'' None \<notin> set (kernel (snd (snd (handle_drop_rule default_config chain_run
     [(''host'', JStr ''a.org''), (''decision'', JStr ''allowed''), (''id'', JStr ''x'')]
     (example_client, example_rules)))))"
proof -
  let ?m = "[(''host'', JStr ''a.org''), (''decision'', JStr ''allowed''), (''id'', JStr ''x'')]"
  have m: "jget ?m ''host'' = JStr ''a.org''" "jget ?m ''decision'' = JStr ''allowed''"
    "jget ?m ''id'' = JStr ''x''"
    by (simp_all add: jget_def)
  have "wf_session (SESSION_HOST_ALLOWS example_rules)"
    by (simp add: example_rules_def initial_sidecar_def wf_session_def)
  note t = drop_rule_closes_gates [OF chain_iptables.iptables_axioms example_base_ok example_accounted this m]
  obtain fr c' s' where "handle_drop_rule default_config chain_run ?m (example_client, example_rules) =
      (fr, c', s')"
    by (metis prod.collapse)
  with t [OF this] show ?thesis by (simp add: example_learned)
qed

text \<open>The times at which activity frames go out, for a sequence of calls (time, jitter).\<close>

fun activity_sends :: "config \<Rightarrow> client \<Rightarrow> (real \<times> real) list \<Rightarrow> real list" where
  "activity_sends cfg c [] = []"
| "activity_sends cfg c ((now, u) # calls) =
     (case bump_activity cfg now u c of
        (frames, c) \<Rightarrow> (if frames = [] then [] else [now]) @ activity_sends cfg c calls)"

lemma activity_sends_step:
  assumes "\<forall>(now, u) \<in> set calls. 1 / 2 \<le> u" "0 \<le> ACTIVITY_GATE_S cfg"
  shows "sorted_wrt (\<lambda>a b. ACTIVITY_GATE_S cfg / 2 \<le> b - a) (last_activity_send c # activity_sends cfg c calls)"
  using assms(1)
proof (induction calls arbitrary: c)
  case (Cons x calls)
  obtain now u where x: "x = (now, u)" by (cases x)
  have u: "ACTIVITY_GATE_S cfg / 2 \<le> jitter_gate cfg u"
    using Cons.prems assms(2) x mult_left_mono [of "1 / 2" u "ACTIVITY_GATE_S cfg"]
    by (simp add: jitter_gate_def)
  show ?case
  proof (cases "\<not> is_connected c \<or> \<not> ws_open c \<or> now - last_activity_send c < jitter_gate cfg u")
    case True
    then have "bump_activity cfg now u c = ([], c)" by (auto simp: bump_activity_def)
    with Cons x show ?thesis by simp
  next
    case False
    then have b: "bump_activity cfg now u c = ([Activity], c\<lparr>last_activity_send := now\<rparr>)"
      by (auto simp: bump_activity_def)
    have "ACTIVITY_GATE_S cfg / 2 \<le> now - last_activity_send c" using False u by linarith
    moreover have "sorted_wrt (\<lambda>a b. ACTIVITY_GATE_S cfg / 2 \<le> b - a)
        (now # activity_sends cfg (c\<lparr>last_activity_send := now\<rparr>) calls)"
      using Cons.IH [of "c\<lparr>last_activity_send := now\<rparr>"] Cons.prems by simp
    ultimately show ?thesis using assms(2) by (fastforce simp: x b)
  qed
qed simp

text \<open>
  The activity signal is flood-gated: whatever the workload does, any two activity frames are at
  least half the configured gate apart.
\<close>

theorem activity_rate_bounded:
  assumes "\<forall>(now, u) \<in> set calls. 1 / 2 \<le> u" "0 \<le> ACTIVITY_GATE_S cfg"
  shows "sorted_wrt (\<lambda>a b. ACTIVITY_GATE_S cfg / 2 \<le> b - a) (activity_sends cfg c calls)"
  using activity_sends_step [OF assms, of c] by simp

theorem activity_rate_bounded_witness:
  "sorted_wrt (\<lambda>a b. 30 \<le> b - (a :: real))
     (activity_sends default_config (on_connect init_client) [(60, 1), (70, 1/2), (95, 1/2)])"
  using activity_rate_bounded [of "[(60, 1), (70, 1/2), (95, 1/2)]" default_config "on_connect init_client"]
  by (simp add: default_config_def)

text \<open>The reconnect backoff stays between one and fifteen seconds, and a connection that was
  established resets it.\<close>

theorem backoff_bounded:
  assumes "1 \<le> b" "b \<le> 15" "backoff_step established b = (slept, b')"
  shows "1 \<le> slept \<and> slept \<le> 15 \<and> 1 \<le> b' \<and> b' \<le> 15 \<and> (established \<longrightarrow> slept = 1) \<and>
    (\<not> established \<longrightarrow> slept = b)"
  using assms by (auto simp: backoff_step_def Let_def)

theorem backoff_bounded_witness: "snd (backoff_step False 8) \<le> 15 \<and> fst (backoff_step True 8) = 1"
  using backoff_bounded [of 8 False, OF _ _ prod.collapse [symmetric]]
    backoff_bounded [of 8 True, OF _ _ prod.collapse [symmetric]] by simp

end
