(* ===== verification/Netfilter.thy ===== *)
theory Netfilter
  imports Allowlist
begin

text \<open>
  \<open>klangk/netfilter.py\<close>: the validators that guard a workspace's allow and reject lists on the
  server, and the detection of the host's resolvers. The standard library's \<open>ipaddress\<close> parser is
  written out as far as the validators use it (what \<open>IPv4Network(s, strict=False)\<close> accepts, and its
  prefix length); a resolver file is the list of its lines, \<^term>\<open>None\<close> when it cannot be read.
\<close>

section \<open>IPv4 literals\<close>

definition parse_octet :: "string \<Rightarrow> nat option" where
  "parse_octet s =
     (if s = [] \<or> \<not> (isascii s \<and> isdigit s) \<or> 3 < length s \<or> (s \<noteq> ''0'' \<and> hd s = CHR ''0'')
         \<or> 255 < int_of_digits s
      then None else Some (int_of_digits s))"

definition ip_int_from_string :: "string \<Rightarrow> nat option" where
  "ip_int_from_string s =
     (case map parse_octet (split_on CHR ''.'' s) of
        [Some a, Some b, Some c, Some d] \<Rightarrow> Some (((a * 256 + b) * 256 + c) * 256 + d)
      | _ \<Rightarrow> None)"

definition prefix_from_prefix_string :: "string \<Rightarrow> nat option" where
  "prefix_from_prefix_string s =
     (if isascii s \<and> isdigit s \<and> int_of_digits s \<le> 32 then Some (int_of_digits s) else None)"

text \<open>The prefix lengths whose mask is the given number; at most one.\<close>

definition prefix_from_ip_int :: "nat \<Rightarrow> nat option" where
  "prefix_from_ip_int n = find (\<lambda>p. n = 2 ^ 32 - 2 ^ (32 - p)) [0..<33]"

definition make_netmask :: "string \<Rightarrow> nat option" where
  "make_netmask arg =
     (case prefix_from_prefix_string arg of
        Some p \<Rightarrow> Some p
      | None \<Rightarrow>
          (case ip_int_from_string arg of
             None \<Rightarrow> None
           | Some n \<Rightarrow>
               (case prefix_from_ip_int n of
                  Some p \<Rightarrow> Some p
                | None \<Rightarrow> prefix_from_ip_int (2 ^ 32 - 1 - n))))"

definition IPv4Network_prefixlen :: "string \<Rightarrow> nat option" where
  "IPv4Network_prefixlen s =
     (case split_on CHR ''/'' s of
        [ip] \<Rightarrow> map_option (\<lambda>_. 32) (ip_int_from_string ip)
      | [ip, netmask] \<Rightarrow> do { _ \<leftarrow> ip_int_from_string ip; make_netmask netmask }
      | _ \<Rightarrow> None)"

definition is_ipv4 :: "string \<Rightarrow> bool" where
  "is_ipv4 s \<longleftrightarrow> CHR ''/'' \<notin> set s \<and> ip_int_from_string s \<noteq> None"


section \<open>Domain specs\<close>

definition alnum_char :: "char \<Rightarrow> bool" where
  "alnum_char c \<longleftrightarrow>
     (let n = (of_char c :: nat)
      in (48 \<le> n \<and> n \<le> 57) \<or> (65 \<le> n \<and> n \<le> 90) \<or> (97 \<le> n \<and> n \<le> 122))"

definition domain_char :: "char \<Rightarrow> bool" where
  "domain_char c \<longleftrightarrow> alnum_char c \<or> c = CHR ''.'' \<or> c = CHR ''-''"

text \<open>
  \<open>_DOMAIN_RE.match\<close>: no host character is a colon, so the host is what stands before the first one.
  (The newline that \<open>$\<close> tolerates cannot occur: the caller has refused white space.)
\<close>

definition host_grammar :: "string \<Rightarrow> bool" where
  "host_grammar h \<longleftrightarrow> h \<noteq> [] \<and> alnum_char (hd h) \<and> alnum_char (last h) \<and> list_all domain_char h"

definition DOMAIN_RE_match :: "string \<Rightarrow> bool" where
  "DOMAIN_RE_match s \<longleftrightarrow>
     (let host = takeWhile (\<lambda>c. c \<noteq> CHR '':'') s; rest = dropWhile (\<lambda>c. c \<noteq> CHR '':'') s
      in host_grammar host \<and>
         (rest = [] \<or> (1 \<le> length (tl rest) \<and> length (tl rest) \<le> 5 \<and> list_all ascii_digit (tl rest))))"

definition has_no_whitespace :: "string \<Rightarrow> bool" where
  "has_no_whitespace spec \<longleftrightarrow> \<not> list_ex isspace_char spec"

definition is_port_digits :: "string \<Rightarrow> bool" where
  "is_port_digits s \<longleftrightarrow> s \<noteq> [] \<and> isascii s \<and> isdigit s \<and> length s \<le> 5"

definition valid_spec_port :: "string \<Rightarrow> bool" where
  "valid_spec_port spec =
     (if CHR '':'' \<notin> set spec then True
      else (let port_str = snd (rsplit1 CHR '':'' spec)
            in \<not> (is_port_digits port_str \<and> 65535 < int_of_digits port_str)))"

definition valid_host_port :: "string \<Rightarrow> bool" where
  "valid_host_port host \<longleftrightarrow> DOMAIN_RE_match host \<and> valid_spec_port host"

definition strip_host_sigil :: "string \<Rightarrow> string" where
  "strip_host_sigil spec =
     (if startswith spec ''*.'' then drop 2 spec
      else if startswith spec ''.'' then drop 1 spec
      else spec)"

definition valid_cidr_port_suffix :: "string \<Rightarrow> (string \<times> string option) option" where
  "valid_cidr_port_suffix spec =
     (if CHR '':'' \<notin> set spec then Some (spec, None)
      else (case rsplit1 CHR '':'' spec of
              (cidr, port) \<Rightarrow>
                (if \<not> is_port_digits port \<or> 65535 < int_of_digits port then None
                 else Some (cidr, Some port))))"

definition valid_cidr_spec :: "string \<Rightarrow> bool" where
  "valid_cidr_spec spec =
     (case valid_cidr_port_suffix spec of
        None \<Rightarrow> False
      | Some (cidr, _) \<Rightarrow> IPv4Network_prefixlen cidr \<noteq> None)"

definition valid_domain_spec :: "string \<Rightarrow> bool" where
  "valid_domain_spec spec =
     (if spec = [] \<or> \<not> has_no_whitespace spec then False
      else if CHR ''/'' \<in> set spec then valid_cidr_spec spec
      else (let host = strip_host_sigil spec
            in if host = [] then False else valid_host_port host))"

text \<open>The lists \<open>out\<close> and \<open>invalid\<close> and the set \<open>seen\<close> that the loop fills.\<close>

definition add_valid_spec ::
  "string \<Rightarrow> string list \<times> string list \<Rightarrow> string list \<times> string list" where
  "add_valid_spec raw acc =
     (case acc of (out, invalid) \<Rightarrow>
       (let spec = strip raw
        in if spec = [] then (out, invalid)
           else if \<not> valid_domain_spec spec then (out, invalid @ [raw])
           else if spec \<notin> set out then (out @ [spec], invalid)
           else (out, invalid)))"

text \<open>\<open>Inl\<close> are the entries the \<open>ValueError\<close> names.\<close>

definition parse_allowed_domains :: "string list \<Rightarrow> string list + string list" where
  "parse_allowed_domains values =
     (case fold add_valid_spec values ([], []) of
        (out, invalid) \<Rightarrow> if invalid \<noteq> [] then Inl invalid else Inr out)"

text \<open>The specs that are logged as matching all of IPv4.\<close>

definition warn_allow_all_cidrs :: "string list \<Rightarrow> string list" where
  "warn_allow_all_cidrs specs =
     filter (\<lambda>spec. CHR ''/'' \<in> set spec \<and>
         IPv4Network_prefixlen (if CHR '':'' \<in> set spec then fst (rsplit1 CHR '':'' spec) else spec) = Some 0)
       specs"


section \<open>Host resolvers\<close>

definition nameserver_line_ip :: "string \<Rightarrow> string option" where
  "nameserver_line_ip line =
     (case split_ws line of
        kw # ip # _ \<Rightarrow> if kw = ''nameserver'' \<and> is_ipv4 ip then Some ip else None
      | _ \<Rightarrow> None)"

definition nameservers :: "string list option \<Rightarrow> string list" where
  "nameservers file = (case file of None \<Rightarrow> [] | Some lines \<Rightarrow> List.map_filter nameserver_line_ip lines)"

definition resolved_stub_upstream :: "string list option \<Rightarrow> string list \<Rightarrow> string list" where
  "resolved_stub_upstream resolved_file primary =
     (if \<not> list_ex (\<lambda>ns. ns = ''127.0.0.53'') primary then [] else nameservers resolved_file)"

text \<open>\<open>list(dict.fromkeys(xs))\<close>: the first occurrences, in order.\<close>

definition dict_fromkeys :: "string list \<Rightarrow> string list" where
  "dict_fromkeys xs = rev (remdups (rev xs))"

definition non_loopback_resolvers :: "string list \<Rightarrow> string list" where
  "non_loopback_resolvers primary = dict_fromkeys (filter (\<lambda>ns. \<not> startswith ns ''127.'') primary)"

definition detect_host_resolvers :: "string list option \<Rightarrow> string list option \<Rightarrow> string list" where
  "detect_host_resolvers resolv_conf resolved_file =
     (let primary = nameservers resolv_conf;
          upstream = resolved_stub_upstream resolved_file primary
      in if upstream \<noteq> [] then dict_fromkeys upstream else non_loopback_resolvers primary)"



section \<open>Lemmas\<close>

lemma of_char_lower:
  "(of_char c :: nat) < 128 \<Longrightarrow>
     (of_char (lower_char c) :: nat) =
       (if 65 \<le> (of_char c :: nat) \<and> (of_char c :: nat) \<le> 90 then of_char c + 32 else of_char c)"
  by (auto simp: lower_char_def Let_def)

lemma domain_char_lower:
  assumes "domain_char c"
  shows "\<not> isspace_char (lower_char c)" "lower_char c \<noteq> CHR ''/''" "lower_char c \<noteq> CHR '':''"
    "lower_char c \<noteq> CHR '',''" "c \<noteq> CHR '':''" "c \<noteq> CHR '',''" "c \<noteq> CHR ''/''"
proof -
  have small: "(of_char c :: nat) < 128" and
    code: "(of_char c :: nat) = 46 \<or> (of_char c :: nat) = 45 \<or> alnum_char c"
    using assms by (auto simp: domain_char_def alnum_char_def Let_def)
  note l = of_char_lower [OF small]
  show "\<not> isspace_char (lower_char c)"
    using code by (auto simp: isspace_char_def l alnum_char_def Let_def)
  have "(of_char (lower_char c) :: nat) \<noteq> 47" "(of_char (lower_char c) :: nat) \<noteq> 58"
    "(of_char (lower_char c) :: nat) \<noteq> 44" "(of_char c :: nat) \<noteq> 58" "(of_char c :: nat) \<noteq> 44"
    "(of_char c :: nat) \<noteq> 47"
    using code by (auto simp: l alnum_char_def Let_def)
  then show "lower_char c \<noteq> CHR ''/''" "lower_char c \<noteq> CHR '':''" "lower_char c \<noteq> CHR '',''"
    "c \<noteq> CHR '':''" "c \<noteq> CHR '',''" "c \<noteq> CHR ''/''" by auto
qed

lemma alnum_char_lower:
  assumes "alnum_char c"
  shows "lower_char c \<noteq> CHR ''.''" "lower_char c \<noteq> CHR ''*''" "c \<noteq> CHR ''.''" "c \<noteq> CHR ''*''"
proof -
  have small: "(of_char c :: nat) < 128" using assms by (auto simp: alnum_char_def Let_def)
  note l = of_char_lower [OF small]
  have "(of_char (lower_char c) :: nat) \<noteq> 46" "(of_char (lower_char c) :: nat) \<noteq> 42"
    "(of_char c :: nat) \<noteq> 46" "(of_char c :: nat) \<noteq> 42"
    using assms by (auto simp: l alnum_char_def Let_def)
  then show "lower_char c \<noteq> CHR ''.''" "lower_char c \<noteq> CHR ''*''" "c \<noteq> CHR ''.''" "c \<noteq> CHR ''*''" by auto
qed

lemma plain_host_lower:
  assumes "host_grammar h"
  shows "plain_host (lower h)"
proof -
  have h: "h \<noteq> []" "alnum_char (hd h)" "list_all domain_char h"
    using assms by (auto simp: host_grammar_def)
  then obtain c h' where c: "h = c # h'" "alnum_char c" by (cases h) auto
  have "list_all (\<lambda>x. \<not> isspace_char x \<and> x \<noteq> CHR ''/'' \<and> x \<noteq> CHR '':'') (lower h)"
    using h(3) domain_char_lower by (auto simp: lower_def list_all_iff)
  with c alnum_char_lower [OF c(2)] show ?thesis
    by (auto simp: plain_host_def lower_def startswith_iff)
qed

text \<open>What the host grammar accepts: a host and possibly a port.\<close>

lemma valid_host_portE:
  assumes "valid_host_port s"
  obtains (NoPort) "host_grammar s"
  | (Port) h ds where "s = h @ CHR '':'' # ds" "host_grammar h" "ds \<noteq> []" "length ds \<le> 5"
      "list_all ascii_digit ds" "int_of_digits ds \<le> 65535"
proof -
  let ?h = "takeWhile (\<lambda>c. c \<noteq> CHR '':'') s" and ?r = "dropWhile (\<lambda>c. c \<noteq> CHR '':'') s"
  have s: "s = ?h @ ?r" by simp
  have re: "host_grammar ?h" "?r = [] \<or> (1 \<le> length (tl ?r) \<and> length (tl ?r) \<le> 5 \<and> list_all ascii_digit (tl ?r))"
    using assms by (auto simp: valid_host_port_def DOMAIN_RE_match_def Let_def)
  show thesis
  proof (cases ?r)
    case Nil
    with s re(1) show thesis by (intro NoPort) simp
  next
    case (Cons c ds)
    then have c: "c = CHR '':''" by (simp add: dropWhile_eq_Cons_conv)
    have ds: "ds \<noteq> []" "length ds \<le> 5" "list_all ascii_digit ds" using re(2) Cons by auto
    have s': "s = ?h @ CHR '':'' # ds" using s Cons c by simp
    have "CHR '':'' \<notin> set ds" using ds(3) ascii_digit_not_char(2) by (auto simp: list_all_iff)
    from rsplit1_snoc [OF this, of ?h] have "rsplit1 CHR '':'' s = (?h, ds)"
      by (simp only: s' [symmetric])
    moreover have "is_port_digits ds"
      using ds isascii_isdigit_iff by (auto simp: is_port_digits_def)
    moreover have "CHR '':'' \<in> set s" by (subst s') simp
    ultimately have "int_of_digits ds \<le> 65535"
      using assms by (auto simp: valid_host_port_def valid_spec_port_def Let_def)
    with s' re(1) ds show thesis by (intro Port)
  qed
qed

lemma sigil_cases:
  obtains mode where "spec = (case mode of EXACT \<Rightarrow> [] | INCLUSIVE \<Rightarrow> ''.'' | SUBDOMAINS \<Rightarrow> ''*.'') @ strip_host_sigil spec"
proof -
  consider "startswith spec ''*.''" | "\<not> startswith spec ''*.''" "startswith spec ''.''"
    | "\<not> startswith spec ''*.''" "\<not> startswith spec ''.''" by blast
  then show thesis
  proof cases
    case 1
    then obtain t where "spec = ''*.'' @ t" by (auto simp: startswith_iff)
    with 1 show thesis by (intro that [of SUBDOMAINS]) (simp add: strip_host_sigil_def)
  next
    case 2
    then obtain t where "spec = ''.'' @ t" by (auto simp: startswith_iff)
    with 2 show thesis by (intro that [of INCLUSIVE]) (simp add: strip_host_sigil_def)
  next
    case 3
    then show thesis by (intro that [of EXACT]) (simp add: strip_host_sigil_def)
  qed
qed

lemma parse_one_spec_valid:
  assumes "valid_domain_spec spec" "CHR ''/'' \<notin> set spec"
  obtains h port mode where "host_grammar h" "\<forall>p. port = Some p \<longrightarrow> p \<le> 65535"
    "parse_one_spec spec = Some (lower h, port, mode)"
    "spec = (case mode of EXACT \<Rightarrow> [] | INCLUSIVE \<Rightarrow> ''.'' | SUBDOMAINS \<Rightarrow> ''*.'') @ strip_host_sigil spec"
    "takeWhile (\<lambda>c. c \<noteq> CHR '':'') (strip_host_sigil spec) = h"
proof -
  have v: "spec \<noteq> []" "has_no_whitespace spec" "valid_host_port (strip_host_sigil spec)"
    using assms by (auto simp: valid_domain_spec_def Let_def split: if_splits)
  obtain mode where m: "spec = (case mode of EXACT \<Rightarrow> [] | INCLUSIVE \<Rightarrow> ''.'' | SUBDOMAINS \<Rightarrow> ''*.'') @
      strip_host_sigil spec"
    by (rule sigil_cases)
  define sig where "sig = (case mode of EXACT \<Rightarrow> [] | INCLUSIVE \<Rightarrow> ''.'' | SUBDOMAINS \<Rightarrow> ''*.'')"
  have sig: "CHR '':'' \<notin> set sig" "lower sig = sig"
    by (cases mode; simp add: sig_def lower_def lower_char_def)+
  have st: "strip spec = spec"
    using v(2) by (intro strip_no_space) (auto simp: has_no_whitespace_def list_ex_iff list_all_iff)
  have no_colon: "CHR '':'' \<notin> set h" if "host_grammar h" for h
    using that domain_char_lower(5) by (auto simp: host_grammar_def list_all_iff)
  have scope: "spec_scope (lower (sig @ h)) = (lower h, mode)" "lower h \<noteq> []" if "host_grammar h" for h
    using spec_scope_render [OF plain_host_lower [OF that], of mode] sig(2) that
    by (simp_all add: sig_def host_grammar_def)
  have parse: "parse_one_spec spec = Some (lower h, port, mode)"
    if "host_grammar h" "split_spec_port spec = (sig @ h, port)" for h port
    using scope [OF that(1)] that(2) v(1) assms(2) by (simp add: parse_one_spec_def st Let_def)
  show thesis
  proof (cases rule: valid_host_portE [OF v(3)])
    case 1
    then have "split_spec_port spec = (sig @ strip_host_sigil spec, None)"
      using m sig(1) no_colon by (metis Un_iff set_append sig_def split_spec_port_no_port)
    moreover have "takeWhile (\<lambda>c. c \<noteq> CHR '':'') (strip_host_sigil spec) = strip_host_sigil spec"
      using no_colon [OF 1] by (auto simp: takeWhile_eq_all_conv)
    ultimately show thesis using 1 parse m that by blast
  next
    case (2 h ds)
    have "CHR '':'' \<notin> set ds" using 2(5) ascii_digit_not_char(2) by (auto simp: list_all_iff)
    moreover have eq: "spec = (sig @ h) @ CHR '':'' # ds" using m 2(1) by (simp add: sig_def)
    moreover have "isascii ds \<and> isdigit ds" using 2(3,5) by (simp add: isascii_isdigit_iff)
    ultimately have "split_spec_port spec = (sig @ h, Some (int_of_digits ds))"
      using 2(4) rsplit1_snoc [of "CHR '':''" ds "sig @ h"] by (simp add: split_spec_port_def)
    moreover have "takeWhile (\<lambda>c. c \<noteq> CHR '':'') (strip_host_sigil spec) = h"
      unfolding 2(1) using no_colon [OF 2(2)] by (subst takeWhile_append2) auto
    ultimately show thesis using 2(2,6) parse m that by blast
  qed
qed


section \<open>Properties\<close>

text \<open>
  The server and the sidecar read a host spec the same way. Every host spec the server accepts is
  understood by the sidecar's parser: same scope sigil, the host in lower case, and a port that fits
  in sixteen bits.
\<close>

theorem accepted_spec_understood:
  assumes "valid_domain_spec spec" "CHR ''/'' \<notin> set spec"
  shows "\<exists>h port mode. parse_one_spec spec = Some (lower h, port, mode) \<and> h \<noteq> [] \<and>
    (\<forall>p. port = Some p \<longrightarrow> p \<le> 65535) \<and>
    h = takeWhile (\<lambda>c. c \<noteq> CHR '':'') (strip_host_sigil spec) \<and>
    (mode = SUBDOMAINS \<longleftrightarrow> startswith spec ''*.'') \<and> (mode = INCLUSIVE \<longleftrightarrow> startswith spec ''.'')"
proof -
  from parse_one_spec_valid [OF assms] obtain h port mode where
    h: "host_grammar h" "\<forall>p. port = Some p \<longrightarrow> p \<le> 65535"
      "parse_one_spec spec = Some (lower h, port, mode)"
      "spec = (case mode of EXACT \<Rightarrow> [] | INCLUSIVE \<Rightarrow> ''.'' | SUBDOMAINS \<Rightarrow> ''*.'') @ strip_host_sigil spec"
      "takeWhile (\<lambda>c. c \<noteq> CHR '':'') (strip_host_sigil spec) = h" by blast
  obtain c h' where c: "h = c # h'" "alnum_char c" using h(1) by (cases h) (auto simp: host_grammar_def)
  then obtain rest where rest: "strip_host_sigil spec = c # rest"
    using h(5) by (cases "strip_host_sigil spec") (auto split: if_splits)
  define body where "body = strip_host_sigil spec"
  have "spec = (case mode of EXACT \<Rightarrow> [] | INCLUSIVE \<Rightarrow> ''.'' | SUBDOMAINS \<Rightarrow> ''*.'') @ body"
    "body = c # rest" using h(4) rest by (simp_all add: body_def)
  then have "(mode = SUBDOMAINS \<longleftrightarrow> startswith spec ''*.'') \<and> (mode = INCLUSIVE \<longleftrightarrow> startswith spec ''.'')"
    using alnum_char_lower(3,4) [OF c(2)] by (cases mode) (auto simp: startswith_def)
  with h(2,3,5) c(1) show ?thesis
    by (intro exI [of _ h] exI [of _ port] exI [of _ mode]) simp
qed

theorem accepted_spec_understood_witness:
  "\<exists>h port mode. parse_one_spec ''*.A.org:443'' = Some (lower h, port, mode) \<and> mode = SUBDOMAINS"
proof -
  have "valid_domain_spec ''*.A.org:443''"
    by (simp add: valid_domain_spec_def has_no_whitespace_def strip_host_sigil_def valid_host_port_def
        DOMAIN_RE_match_def host_grammar_def domain_char_def alnum_char_def valid_spec_port_def
        is_port_digits_def py_str_simps int_of_digits_def Let_def)
  from accepted_spec_understood [OF this] show ?thesis by (auto simp: startswith_def)
qed

definition bad_entry :: "string \<Rightarrow> bool" where
  "bad_entry raw \<longleftrightarrow> strip raw \<noteq> [] \<and> \<not> valid_domain_spec (strip raw)"

lemma fold_add_valid_spec:
  assumes "distinct out"
  shows "snd (fold add_valid_spec vs (out, invalid)) = invalid @ filter bad_entry vs \<and>
    distinct (fst (fold add_valid_spec vs (out, invalid))) \<and>
    set (fst (fold add_valid_spec vs (out, invalid))) =
      set out \<union> {spec \<in> strip ` set vs. valid_domain_spec spec}"
  using assms
proof (induction vs arbitrary: out invalid)
  case (Cons raw vs)
  have nv: "\<not> valid_domain_spec []" by (simp add: valid_domain_spec_def)
  consider "strip raw = []" | "bad_entry raw" "strip raw \<noteq> []" "\<not> valid_domain_spec (strip raw)"
    | "valid_domain_spec (strip raw)" "strip raw \<noteq> []" "strip raw \<in> set out"
    | "valid_domain_spec (strip raw)" "strip raw \<noteq> []" "strip raw \<notin> set out"
    by (auto simp: bad_entry_def)
  then show ?case
  proof cases
    case 1
    with Cons nv show ?thesis by (auto simp: add_valid_spec_def bad_entry_def)
  next
    case 2
    with Cons.IH [of out "invalid @ [raw]"] Cons.prems show ?thesis
      by (auto simp: add_valid_spec_def bad_entry_def)
  next
    case 3
    with Cons show ?thesis by (auto simp: add_valid_spec_def bad_entry_def)
  next
    case 4
    with Cons.IH [of "out @ [strip raw]" invalid] Cons.prems show ?thesis
      by (auto simp: add_valid_spec_def bad_entry_def)
  qed
qed simp

lemma strip_valid: "valid_domain_spec spec \<Longrightarrow> strip spec = spec \<and> spec \<noteq> []"
  by (auto simp: valid_domain_spec_def has_no_whitespace_def list_ex_iff list_all_iff split: if_splits
      intro: strip_no_space)

lemma fold_add_valid_id:
  assumes "distinct (out @ specs)" "\<forall>spec\<in>set specs. valid_domain_spec spec"
  shows "fold add_valid_spec specs (out, invalid) = (out @ specs, invalid)"
  using assms
proof (induction specs arbitrary: out)
  case (Cons spec specs)
  have "add_valid_spec spec (out, invalid) = (out @ [spec], invalid)"
    using Cons.prems strip_valid [of spec] by (auto simp: add_valid_spec_def)
  with Cons.IH [of "out @ [spec]"] Cons.prems show ?case by simp
qed simp

lemma parse_allowed_domains_valid:
  "parse_allowed_domains vs = Inr specs \<Longrightarrow> \<forall>spec \<in> set specs. valid_domain_spec spec"
  using fold_add_valid_spec [of "[]" vs "[]"]
  by (auto simp: parse_allowed_domains_def split: prod.splits if_splits)

text \<open>
  \<open>parse_allowed_domains\<close> refuses exactly the entries that are neither blank nor valid, all of
  them at once and in order; otherwise its result is the set of the stripped entries without
  repetition, every one valid, and parsing the result again gives the result.
\<close>

theorem parse_allowed_domains_spec:
  "(\<forall>bad. parse_allowed_domains vs = Inl bad \<longrightarrow> bad = filter bad_entry vs \<and> bad \<noteq> []) \<and>
   (\<forall>out. parse_allowed_domains vs = Inr out \<longrightarrow>
      filter bad_entry vs = [] \<and> distinct out \<and> (\<forall>spec \<in> set out. valid_domain_spec spec) \<and>
      set out = {spec \<in> strip ` set vs. spec \<noteq> []} \<and> parse_allowed_domains out = Inr out)"
proof -
  obtain out invalid where f: "fold add_valid_spec vs ([], []) = (out, invalid)" by fastforce
  have i: "invalid = filter bad_entry vs" and d: "distinct out"
    and s: "set out = {spec \<in> strip ` set vs. valid_domain_spec spec}"
    using fold_add_valid_spec [of "[]" vs "[]"] f by simp_all
  have "set out = {spec \<in> strip ` set vs. spec \<noteq> []} \<and> parse_allowed_domains out = Inr out"
    if "invalid = []"
  proof
    show "set out = {spec \<in> strip ` set vs. spec \<noteq> []}"
      using that i s strip_valid by (auto simp: bad_entry_def filter_empty_conv)
    show "parse_allowed_domains out = Inr out"
      using fold_add_valid_id [of "[]" out "[]"] d s by (simp add: parse_allowed_domains_def)
  qed
  then show ?thesis using f i d s by (auto simp: parse_allowed_domains_def)
qed

theorem parse_allowed_domains_spec_witness:
  "parse_allowed_domains ['' a.org '', ''a b'', [], ''a.org''] = Inl [''a b'']"
proof -
  have "valid_domain_spec ''a.org''"
    by (simp add: valid_domain_spec_def has_no_whitespace_def strip_host_sigil_def valid_host_port_def
        DOMAIN_RE_match_def host_grammar_def domain_char_def alnum_char_def valid_spec_port_def
        py_str_simps Let_def)
  then have f: "filter bad_entry ['' a.org '', ''a b'', [], ''a.org''] = [''a b'']"
    by (simp add: bad_entry_def valid_domain_spec_def has_no_whitespace_def strip_def isspace_char_def)
  show ?thesis
  proof (cases "parse_allowed_domains ['' a.org '', ''a b'', [], ''a.org'']")
    case (Inl bad)
    then have "bad = [''a b'']"
      using parse_allowed_domains_spec [of "['' a.org '', ''a b'', [], ''a.org'']"] unfolding f by simp
    with Inl show ?thesis by simp
  next
    case (Inr out)
    then have "filter bad_entry ['' a.org '', ''a b'', [], ''a.org''] = []"
      using parse_allowed_domains_spec [of "['' a.org '', ''a b'', [], ''a.org'']"] by blast
    with f show ?thesis by simp
  qed
qed

lemma set_split_on: "set s \<subseteq> insert c (\<Union> (set ` set (split_on c s)))"
proof (induction s)
  case (Cons x xs)
  then show ?case by (cases "split_on c xs") (auto split: if_splits)
qed simp

lemma ip_int_chars:
  assumes "ip_int_from_string s = Some n" "x \<in> set s"
  shows "ascii_digit x \<or> x = CHR ''.''"
proof -
  have "\<forall>p \<in> set (split_on CHR ''.'' s). parse_octet p \<noteq> None"
    using assms(1) by (auto simp: ip_int_from_string_def split: list.splits option.splits)
  then have "\<forall>p \<in> set (split_on CHR ''.'' s). list_all ascii_digit p"
    using isascii_isdigit_iff by (auto simp: parse_octet_def split: if_splits)
  with set_split_on [of s "CHR ''.''"] assms(2) show ?thesis by (force simp: list_all_iff)
qed

lemma comma_codes: "\<not> ascii_digit CHR '',''" "\<not> domain_char CHR '',''"
  by (simp_all add: ascii_digit_def domain_char_def alnum_char_def)

lemma make_netmask_no_comma: "make_netmask s \<noteq> None \<Longrightarrow> CHR '','' \<notin> set s"
proof
  assume m: "make_netmask s \<noteq> None" and c: "CHR '','' \<in> set s"
  have "\<not> (isascii s \<and> isdigit s)"
    using c comma_codes(1) isascii_isdigit_iff by (auto simp: list_all_iff)
  then obtain n where "ip_int_from_string s = Some n"
    using m by (auto simp: make_netmask_def prefix_from_prefix_string_def split: option.splits)
  from ip_int_chars [OF this c] comma_codes show False by simp
qed

lemma cidr_no_comma: "IPv4Network_prefixlen s \<noteq> None \<Longrightarrow> CHR '','' \<notin> set s"
proof
  assume n: "IPv4Network_prefixlen s \<noteq> None" and c: "CHR '','' \<in> set s"
  have "\<forall>p \<in> set (split_on CHR ''/'' s). ip_int_from_string p \<noteq> None \<or> make_netmask p \<noteq> None"
    using n by (auto simp: IPv4Network_prefixlen_def bind_eq_Some_conv split: list.splits)
  moreover obtain p where p: "p \<in> set (split_on CHR ''/'' s)" "CHR '','' \<in> set p"
    using set_split_on [of s "CHR ''/''"] c by auto
  moreover have "ip_int_from_string p = None"
    using ip_int_chars [of p _ "CHR '',''"] p(2) comma_codes(1) by (cases "ip_int_from_string p") auto
  ultimately show False using make_netmask_no_comma [of p] by blast
qed

lemma valid_spec_no_comma:
  assumes "valid_domain_spec spec"
  shows "CHR '','' \<notin> set spec"
proof (cases "CHR ''/'' \<in> set spec")
  case True
  then have v: "valid_cidr_spec spec" using assms by (auto simp: valid_domain_spec_def split: if_splits)
  show ?thesis
  proof (cases "CHR '':'' \<in> set spec")
    case True
    then obtain p q where s: "spec = p @ CHR '':'' # q" "rsplit1 CHR '':'' spec = (p, q)"
      by (rule rsplit1_decomp)
    have "CHR '','' \<notin> set p" "is_port_digits q"
      using v s True cidr_no_comma by (auto simp: valid_cidr_spec_def valid_cidr_port_suffix_def
          split: if_splits)
    moreover have "CHR '','' \<notin> set q"
      using \<open>is_port_digits q\<close> comma_codes(1) isascii_isdigit_iff
      by (auto simp: is_port_digits_def list_all_iff)
    ultimately show ?thesis by (simp add: s)
  qed (use v cidr_no_comma in \<open>auto simp: valid_cidr_spec_def valid_cidr_port_suffix_def\<close>)
next
  case False
  obtain mode where m: "spec = (case mode of EXACT \<Rightarrow> [] | INCLUSIVE \<Rightarrow> ''.'' | SUBDOMAINS \<Rightarrow> ''*.'') @
      strip_host_sigil spec"
    by (rule sigil_cases)
  have "valid_host_port (strip_host_sigil spec)"
    using assms False by (auto simp: valid_domain_spec_def Let_def split: if_splits)
  then have "CHR '','' \<notin> set (strip_host_sigil spec)"
    by (cases rule: valid_host_portE) (use comma_codes in \<open>auto simp: host_grammar_def list_all_iff\<close>)
  moreover have "CHR '','' \<notin> set (case mode of EXACT \<Rightarrow> [] | INCLUSIVE \<Rightarrow> ''.'' | SUBDOMAINS \<Rightarrow> ''*.'')"
    by (cases mode) auto
  ultimately show ?thesis by (subst m) simp
qed

text \<open>
  The list the server stores is the list the sidecar enforces. A validated list, joined by commas
  into the variable the sidecar reads at start, is read back as exactly the host specs of the list, in
  order and each understood; the CIDR specs are left to the entrypoint.
\<close>

theorem stored_list_enforced:
  assumes "parse_allowed_domains vs = Inr specs"
    "env ''KLANGKNETWORK_EGRESS_ALLOW'' = Some (join_with CHR '','' specs)"
  shows "SPECS env = map (\<lambda>spec. the (parse_one_spec spec)) (filter (\<lambda>spec. CHR ''/'' \<notin> set spec) specs) \<and>
    (\<forall>spec \<in> set specs. CHR ''/'' \<notin> set spec \<longleftrightarrow> parse_one_spec spec \<noteq> None)"
proof -
  have valid: "\<forall>spec \<in> set specs. valid_domain_spec spec"
    using assms(1) parse_allowed_domains_valid by blast
  have under: "(CHR ''/'' \<notin> set spec) = (parse_one_spec spec \<noteq> None)" if "spec \<in> set specs" for spec
  proof (cases "CHR ''/'' \<in> set spec")
    case True
    then show ?thesis using valid that strip_valid by (simp add: parse_one_spec_def)
  next
    case False
    have v: "valid_domain_spec spec" using valid that by blast
    from parse_one_spec_valid [OF v False] False show ?thesis by (metis not_None_eq)
  qed
  have "split_on CHR '','' (join_with CHR '','' specs) = (if specs = [] then [[]] else specs)"
    using split_on_join [of specs "CHR '',''"] valid valid_spec_no_comma by auto
  moreover have "parse_one_spec [] = None" by (simp add: parse_one_spec_def strip_def)
  ultimately have "SPECS env = List.map_filter parse_one_spec specs"
    using assms(2) by (simp add: SPECS_def parse_specs_def environ_get_def List.map_filter_simps)
  also have "\<dots> = map (\<lambda>spec. the (parse_one_spec spec)) (filter (\<lambda>spec. CHR ''/'' \<notin> set spec) specs)"
    using under by (auto simp: map_filter_def comp_def intro!: arg_cong [where f = "map _"] filter_cong)
  finally show ?thesis using under by blast
qed

lemma valid_plain_example: "valid_domain_spec ''a.org''"
  by (simp add: valid_domain_spec_def has_no_whitespace_def strip_host_sigil_def valid_host_port_def
      DOMAIN_RE_match_def host_grammar_def domain_char_def alnum_char_def valid_spec_port_def
      py_str_simps Let_def)

lemma octets_example:
  "ip_int_from_string ''10.0.0.0'' = Some 167772160" "ip_int_from_string ''0.0.0.255'' = Some 255"
  by (simp_all add: ip_int_from_string_def parse_octet_def py_str_simps int_of_digits_def)

lemma cidr_example: "valid_domain_spec ''10.0.0.0/8''"
  by (simp add: valid_domain_spec_def has_no_whitespace_def isspace_char_def valid_cidr_spec_def
      valid_cidr_port_suffix_def IPv4Network_prefixlen_def octets_example make_netmask_def
      prefix_from_prefix_string_def py_str_simps int_of_digits_def)

theorem stored_list_enforced_witness:
  "SPECS [''KLANGKNETWORK_EGRESS_ALLOW'' \<mapsto> ''a.org,10.0.0.0/8''] = [(''a.org'', None, EXACT)]"
proof -
  have "strip ''a.org'' = ''a.org''" "strip ''10.0.0.0/8'' = ''10.0.0.0/8''"
    using strip_valid valid_plain_example cidr_example by blast+
  then have "parse_allowed_domains [''a.org'', ''10.0.0.0/8''] = Inr [''a.org'', ''10.0.0.0/8'']"
    by (simp add: parse_allowed_domains_def add_valid_spec_def valid_plain_example cidr_example)
  from stored_list_enforced [OF this, of "[''KLANGKNETWORK_EGRESS_ALLOW'' \<mapsto> ''a.org,10.0.0.0/8'']"]
  show ?thesis
    by (simp add: parse_one_spec_def split_spec_port_def spec_scope_def py_str_simps Let_def)
qed

text \<open>
  Forms beyond the documented grammar. The documentation of the CIDR validator names prefix lengths
  only and says that other prefixes are rejected, and the port grammar is given as 1 to 65535; the
  code also accepts a dotted mask after the slash, read as a netmask or, failing that, as a host mask
  (here one of length 24), and port 0.
\<close>

theorem undocumented_forms_accepted:
  "valid_domain_spec ''10.0.0.0/0.0.0.255'' \<and>
   IPv4Network_prefixlen ''10.0.0.0/0.0.0.255'' = Some 24 \<and>
   valid_domain_spec ''a.org:0'' \<and> valid_domain_spec ''10.0.0.0/8:0''"
proof -
  have u: "[0..<33] = 0 # 1 # [2..<33]" by (simp add: upt_conv_Cons numeral_2_eq_2)
  have "find (\<lambda>p. 255 = 2 ^ 32 - (2 :: nat) ^ (32 - p)) [0..<33] = None"
    unfolding u by (simp add: upt_rec_numeral)
  moreover have "find (\<lambda>p. 4294967040 = 2 ^ 32 - (2 :: nat) ^ (32 - p)) [0..<33] = Some 24"
    unfolding u by (simp add: upt_rec_numeral)
  ultimately have m: "make_netmask ''0.0.0.255'' = Some 24"
    by (simp add: make_netmask_def prefix_from_prefix_string_def prefix_from_ip_int_def octets_example
        py_str_simps)
  then have n: "IPv4Network_prefixlen ''10.0.0.0/0.0.0.255'' = Some 24"
    by (simp add: IPv4Network_prefixlen_def octets_example)
  then show ?thesis
    by (simp add: valid_domain_spec_def has_no_whitespace_def strip_host_sigil_def valid_host_port_def
        DOMAIN_RE_match_def host_grammar_def domain_char_def alnum_char_def valid_spec_port_def
        is_port_digits_def valid_cidr_spec_def valid_cidr_port_suffix_def IPv4Network_prefixlen_def
        octets_example make_netmask_def prefix_from_prefix_string_def py_str_simps int_of_digits_def
        Let_def)
qed

lemma dict_fromkeys_set [simp]: "set (dict_fromkeys xs) = set xs" "distinct (dict_fromkeys xs)"
  by (simp_all add: dict_fromkeys_def)

lemma nameservers_ipv4: "ns \<in> set (nameservers file) \<Longrightarrow> is_ipv4 ns"
  by (auto simp: nameservers_def map_filter_def nameserver_line_ip_def
      split: option.splits list.splits if_splits)

text \<open>
  The resolvers handed to the sidecar are distinct IPv4 literals, and none is a loopback stub
  unless the systemd-resolved file names it: without the 127.0.0.53 stub the result is the host's
  non-loopback nameservers.
\<close>

theorem resolvers_usable:
  "distinct (detect_host_resolvers resolv_conf resolved_file) \<and>
   (\<forall>ns \<in> set (detect_host_resolvers resolv_conf resolved_file). is_ipv4 ns \<and>
      (startswith ns ''127.'' \<longrightarrow> ns \<in> set (nameservers resolved_file))) \<and>
   (''127.0.0.53'' \<notin> set (nameservers resolv_conf) \<longrightarrow>
      set (detect_host_resolvers resolv_conf resolved_file) =
        {ns \<in> set (nameservers resolv_conf). \<not> startswith ns ''127.''})"
  using nameservers_ipv4
  by (auto simp: detect_host_resolvers_def resolved_stub_upstream_def non_loopback_resolvers_def
      list_ex_iff Let_def split: if_splits)

theorem resolvers_usable_witness:
  "set (detect_host_resolvers (Some [''nameserver 10.0.0.0'', ''nameserver 127.0.0.1'']) None) =
     {''10.0.0.0''}"
proof -
  have "ip_int_from_string ''127.0.0.1'' = Some 2130706433"
    by (simp add: ip_int_from_string_def parse_octet_def py_str_simps int_of_digits_def)
  then have n: "nameservers (Some [''nameserver 10.0.0.0'', ''nameserver 127.0.0.1'']) =
      [''10.0.0.0'', ''127.0.0.1'']"
    by (simp add: nameservers_def map_filter_simps nameserver_line_ip_def split_ws_def isspace_char_def
        is_ipv4_def octets_example)
  have "''127.0.0.53'' \<notin> set (nameservers (Some [''nameserver 10.0.0.0'', ''nameserver 127.0.0.1'']))"
    by (simp add: n)
  from resolvers_usable [of "Some [''nameserver 10.0.0.0'', ''nameserver 127.0.0.1'']" None,
      THEN conjunct2, THEN conjunct2, THEN mp, OF this]
  show ?thesis unfolding n set_filter [symmetric] by (simp add: startswith_def)
qed

end
