(* ===== verification/Deciders.thy ===== *)
theory Deciders
  imports Prelude
begin

text \<open>
  \<open>klangk/consent/deciders.py\<close>: the registry of live consent deciders. Sockets and expiry tasks are
  numbers; the tasks that have been created and neither cancelled nor finished are part of the state,
  so that a leaked task is visible. Closing a socket is an effect. The clock, the timeout setting and
  whether a send on a socket succeeds are arguments.
\<close>

section \<open>State\<close>

record decider =
  d_ws :: string
  d_seen :: real
  d_email :: "string option"
  d_sock :: nat
  d_jti :: "string option"
  d_user_id :: "string option"
  d_exp :: "real option"
  d_expiry_task :: "nat option"

record registry =
  deciders :: "(string, decider) dict"
  live_tasks :: "nat set"
  next_task :: nat

definition init_registry :: registry where
  "init_registry = \<lparr>deciders = [], live_tasks = {}, next_task = 0\<rparr>"

datatype close = Close nat nat string

section \<open>Operations\<close>

definition entry_matches :: "decider \<Rightarrow> string \<Rightarrow> real \<Rightarrow> real \<Rightarrow> bool" where
  "entry_matches entry workspace_id now cutoff \<longleftrightarrow>
     d_ws entry = workspace_id \<and> now - d_seen entry \<le> cutoff"

text \<open>\<open>entry["expiry_task"] and entry["expiry_task"].cancel()\<close>\<close>

definition cancel_expiry :: "decider \<Rightarrow> registry \<Rightarrow> registry" where
  "cancel_expiry entry r =
     (case d_expiry_task entry of None \<Rightarrow> r | Some t \<Rightarrow> r\<lparr>live_tasks := live_tasks r - {t}\<rparr>)"

definition arm_expiry :: "string \<Rightarrow> registry \<Rightarrow> registry" where
  "arm_expiry decider_id r =
     (case map_of (deciders r) decider_id of
        None \<Rightarrow> r
      | Some entry \<Rightarrow>
          (let r = cancel_expiry entry r
           in if d_exp entry \<noteq> None
              then r\<lparr>deciders := AList.update decider_id (entry\<lparr>d_expiry_task := Some (next_task r)\<rparr>) (deciders r),
                     live_tasks := insert (next_task r) (live_tasks r),
                     next_task := Suc (next_task r)\<rparr>
              else r))"

definition register ::
  "real \<Rightarrow> string \<Rightarrow> string \<Rightarrow> string option \<Rightarrow> nat \<Rightarrow> string option \<Rightarrow> string option \<Rightarrow> real option \<Rightarrow>
     registry \<Rightarrow> registry" where
  "register now decider_id workspace_id email sock jti uid expiry r =
     arm_expiry decider_id
       (r\<lparr>deciders := AList.update decider_id
            \<lparr>d_ws = workspace_id, d_seen = now, d_email = email, d_sock = sock, d_jti = jti,
             d_user_id = uid, d_exp = expiry, d_expiry_task = None\<rparr> (deciders r)\<rparr>)"

text \<open>\<open>_expire_when_due\<close> once its sleep is over: the task \<open>t\<close> closes the socket and ends.\<close>

definition expiry_fires :: "nat \<Rightarrow> decider \<Rightarrow> registry \<Rightarrow> close list \<times> registry" where
  "expiry_fires t entry r =
     ([Close (d_sock entry) 4002 ''Token expired''], r\<lparr>live_tasks := live_tasks r - {t}\<rparr>)"

definition drop_decider :: "string \<Rightarrow> registry \<Rightarrow> bool \<times> registry" where
  "drop_decider decider_id r =
     (case map_of (deciders r) decider_id of
        None \<Rightarrow> (False, r)
      | Some entry \<Rightarrow> (True, cancel_expiry entry (r\<lparr>deciders := AList.delete decider_id (deciders r)\<rparr>)))"

definition deregister :: "string \<Rightarrow> registry \<Rightarrow> registry" where
  "deregister decider_id r = snd (drop_decider decider_id r)"

definition touch :: "real \<Rightarrow> string \<Rightarrow> registry \<Rightarrow> registry" where
  "touch now decider_id r =
     (case map_of (deciders r) decider_id of
        None \<Rightarrow> r
      | Some entry \<Rightarrow> r\<lparr>deciders := AList.update decider_id (entry\<lparr>d_seen := now\<rparr>) (deciders r)\<rparr>)"

definition has_decider :: "real \<Rightarrow> real \<Rightarrow> string \<Rightarrow> registry \<Rightarrow> bool" where
  "has_decider now cutoff workspace_id r =
     list_ex (\<lambda>(did, entry). d_ws entry = workspace_id \<and> now - d_seen entry \<le> cutoff) (deciders r)"

definition deciders_for :: "real \<Rightarrow> real \<Rightarrow> string \<Rightarrow> registry \<Rightarrow> string list" where
  "deciders_for now cutoff workspace_id r =
     map fst (filter (\<lambda>(did, entry). d_ws entry = workspace_id \<and> now - d_seen entry \<le> cutoff) (deciders r))"

definition drop_all :: "string list \<Rightarrow> registry \<Rightarrow> registry" where
  "drop_all dids r = fold (\<lambda>did r. snd (drop_decider did r)) dids r"

text \<open>\<open>send_ok\<close> says for a socket whether \<open>send_json\<close> enqueues or raises one of \<open>WS_ERRORS\<close>.\<close>

definition broadcast ::
  "real \<Rightarrow> real \<Rightarrow> (nat \<Rightarrow> bool) \<Rightarrow> string \<Rightarrow> registry \<Rightarrow> nat \<times> nat list \<times> registry" where
  "broadcast now cutoff send_ok workspace_id r =
     (let live = filter (\<lambda>(did, entry). entry_matches entry workspace_id now cutoff) (deciders r);
          sent = filter (\<lambda>(did, entry). send_ok (d_sock entry)) live;
          dead = map fst (filter (\<lambda>(did, entry). \<not> send_ok (d_sock entry)) live)
      in (length sent, map (\<lambda>(did, entry). d_sock entry) sent, drop_all dead r))"

definition close_and_drop ::
  "(string \<times> decider) list \<Rightarrow> nat \<Rightarrow> string \<Rightarrow> registry \<Rightarrow> nat \<times> close list \<times> registry" where
  "close_and_drop victims code reason r =
     (length victims, map (\<lambda>(did, entry). Close (d_sock entry) code reason) victims,
      drop_all (map fst victims) r)"

definition disconnect_by_jti ::
  "string \<Rightarrow> nat \<Rightarrow> string \<Rightarrow> registry \<Rightarrow> nat \<times> close list \<times> registry" where
  "disconnect_by_jti jti code reason r =
     close_and_drop (filter (\<lambda>(did, entry). d_jti entry = Some jti) (deciders r)) code reason r"

definition disconnect_by_user ::
  "string \<Rightarrow> nat \<Rightarrow> string \<Rightarrow> registry \<Rightarrow> nat \<times> close list \<times> registry" where
  "disconnect_by_user uid code reason r =
     close_and_drop (filter (\<lambda>(did, entry). d_user_id entry = Some uid) (deciders r)) code reason r"

text \<open>One turn of the loop of \<open>reattach_jti\<close>, for the entry under \<open>did\<close>.\<close>

definition reattach_one ::
  "string \<Rightarrow> string \<Rightarrow> real option \<Rightarrow> string \<Rightarrow> nat \<times> registry \<Rightarrow> nat \<times> registry" where
  "reattach_one old_jti new_jti new_exp did mr =
     (case mr of (moved, r) \<Rightarrow>
       (case map_of (deciders r) did of
          None \<Rightarrow> (moved, r)
        | Some entry \<Rightarrow>
            (if d_jti entry = Some old_jti
             then (Suc moved,
                   arm_expiry did (r\<lparr>deciders := AList.update did
                     (entry\<lparr>d_jti := Some new_jti, d_exp := new_exp\<rparr>) (deciders r)\<rparr>))
             else (moved, r))))"

definition reattach_jti ::
  "string \<Rightarrow> string \<Rightarrow> real option \<Rightarrow> registry \<Rightarrow> nat \<times> registry" where
  "reattach_jti old_jti new_jti new_exp r =
     fold (reattach_one old_jti new_jti new_exp) (map fst (deciders r)) (0, r)"

definition stop :: "registry \<Rightarrow> registry" where
  "stop r = drop_all (map fst (deciders r)) r"

text \<open>One turn of \<open>_reap_loop\<close> after its sleep, and how long it sleeps.\<close>

definition reap_interval :: "real \<Rightarrow> real" where
  "reap_interval timeout = max (timeout / 2) (1 / 20)"

definition reap :: "real \<Rightarrow> real \<Rightarrow> registry \<Rightarrow> registry" where
  "reap now timeout r =
     drop_all (map fst (filter (\<lambda>(did, entry). timeout < now - d_seen entry) (deciders r))) r"


section \<open>Lemmas\<close>

lemma cancel_expiry_deciders [simp]: "deciders (cancel_expiry e r) = deciders r"
  and cancel_expiry_next [simp]: "next_task (cancel_expiry e r) = next_task r"
  by (simp_all add: cancel_expiry_def split: option.splits)

lemma drop_decider_deciders: "deciders (snd (drop_decider did r)) = AList.delete did (deciders r)"
  by (simp add: drop_decider_def delete_idem map_of_eq_None_iff split: option.splits)

lemma drop_all_deciders: "deciders (drop_all dids r) = filter (\<lambda>(d, e). d \<notin> set dids) (deciders r)"
  unfolding drop_all_def
proof (induction dids arbitrary: r)
  case (Cons did dids)
  then show ?case
    by (auto simp: drop_decider_deciders AList.delete_eq case_prod_unfold intro: filter_cong)
qed (simp add: case_prod_unfold)

text \<open>Dropping the entries that satisfy a test leaves the others (ids are unique).\<close>

lemma drop_selected:
  assumes "dict_ok (deciders r)"
  shows "deciders (drop_all (map fst (filter (\<lambda>(d, e). P e) (deciders r))) r) =
    filter (\<lambda>(d, e). \<not> P e) (deciders r)"
proof -
  have "d \<in> set (map fst (filter (\<lambda>(d, e). P e) (deciders r))) \<longleftrightarrow> P e" if "(d, e) \<in> set (deciders r)" for d e
    using that assms by (force dest: eq_key_imp_eq_value)
  then show ?thesis
    unfolding drop_all_deciders by (intro filter_cong) auto
qed

text \<open>No task leaks: every live expiry task is the task of a registered decider.\<close>

definition task_owned :: "(string, decider) dict \<Rightarrow> nat \<Rightarrow> bool" where
  "task_owned ds t \<longleftrightarrow> (\<exists>d e. map_of ds d = Some e \<and> d_expiry_task e = Some t)"

definition tasks_owned :: "registry \<Rightarrow> bool" where
  "tasks_owned r \<longleftrightarrow> dict_ok (deciders r) \<and> (\<forall>t \<in> live_tasks r. task_owned (deciders r) t)"

lemma task_owned_delete:
  assumes "task_owned ds t" "map_of ds did = Some entry" "d_expiry_task entry \<noteq> Some t"
  shows "task_owned (AList.delete did ds) t"
proof -
  obtain d e where de: "map_of ds d = Some e" "d_expiry_task e = Some t"
    using assms(1) unfolding task_owned_def by blast
  with assms(2,3) have "map_of (AList.delete did ds) d = Some e" by (auto simp: dict_simps)
  with de(2) show ?thesis unfolding task_owned_def by blast
qed

lemma task_owned_update:
  assumes "task_owned ds t"
    "\<And>e. map_of ds did = Some e \<Longrightarrow> d_expiry_task e = Some t \<Longrightarrow> d_expiry_task entry' = Some t"
  shows "task_owned (AList.update did entry' ds) t"
proof -
  obtain d e where de: "map_of ds d = Some e" "d_expiry_task e = Some t"
    using assms(1) unfolding task_owned_def by blast
  then have "map_of (AList.update did entry' ds) d = Some (if d = did then entry' else e)"
    by (simp add: dict_simps)
  moreover have "d_expiry_task (if d = did then entry' else e) = Some t"
    using de assms(2) [of e] by (cases "d = did") simp_all
  ultimately show ?thesis unfolding task_owned_def by blast
qed

lemma task_owned_new: "d_expiry_task e = Some t \<Longrightarrow> task_owned (AList.update did e ds) t"
  unfolding task_owned_def by (intro exI [of _ did] exI [of _ e]) (simp add: dict_simps)

lemma cancel_expiry_live:
  "t \<in> live_tasks (cancel_expiry e r) \<longleftrightarrow> t \<in> live_tasks r \<and> d_expiry_task e \<noteq> Some t"
  by (auto simp: cancel_expiry_def split: option.splits)

lemma tasks_owned_drop:
  assumes "tasks_owned r"
  shows "tasks_owned (snd (drop_decider did r))"
proof (cases "map_of (deciders r) did")
  case None
  with assms show ?thesis by (simp add: drop_decider_def)
next
  case (Some entry)
  then show ?thesis
    using assms task_owned_delete [OF _ Some]
    by (simp add: drop_decider_def tasks_owned_def cancel_expiry_live del: map_of_eq_Some_iff)
qed

lemma tasks_owned_drop_all: "tasks_owned r \<Longrightarrow> tasks_owned (drop_all dids r)"
  unfolding drop_all_def by (induction dids arbitrary: r) (simp_all add: tasks_owned_drop)

lemma tasks_owned_arm:
  assumes "tasks_owned r"
  shows "tasks_owned (arm_expiry did r)"
proof (cases "map_of (deciders r) did")
  case None
  with assms show ?thesis by (simp add: arm_expiry_def)
next
  case (Some entry)
  have kept: "task_owned (AList.update did e' (deciders r)) t"
    if "t \<in> live_tasks (cancel_expiry entry r)" for t e'
    using that assms Some task_owned_update [of "deciders r" t did e']
    by (auto simp: tasks_owned_def cancel_expiry_live simp del: map_of_eq_Some_iff)
  with Some assms show ?thesis
    by (auto simp: arm_expiry_def tasks_owned_def Let_def cancel_expiry_live task_owned_new
        simp del: map_of_eq_Some_iff)
qed

lemma tasks_owned_update:
  assumes "tasks_owned r" "map_of (deciders r) did = Some entry" "d_expiry_task entry' = d_expiry_task entry"
  shows "tasks_owned (r\<lparr>deciders := AList.update did entry' (deciders r)\<rparr>)"
  using assms task_owned_update [of "deciders r" _ did entry']
  by (simp add: tasks_owned_def del: map_of_eq_Some_iff)

lemma tasks_owned_insert:
  assumes "tasks_owned r" "map_of (deciders r) did = None"
  shows "tasks_owned (r\<lparr>deciders := AList.update did entry (deciders r)\<rparr>)"
  using assms task_owned_update [of "deciders r" _ did entry]
  by (simp add: tasks_owned_def del: map_of_eq_Some_iff)

lemma tasks_owned_reattach:
  assumes "tasks_owned r"
  shows "tasks_owned (snd (reattach_jti old new ex r))"
proof -
  have "tasks_owned (snd (fold (reattach_one old new ex) dids (m, r)))" for dids m
    using assms
  proof (induction dids arbitrary: m r)
    case (Cons did dids)
    have "tasks_owned (snd (reattach_one old new ex did (m, r)))"
      using Cons.prems tasks_owned_arm tasks_owned_update [OF Cons.prems]
      by (simp add: reattach_one_def split: option.splits)
    with Cons.IH [of "snd (reattach_one old new ex did (m, r))" "fst (reattach_one old new ex did (m, r))"]
    show ?case by simp
  qed simp
  then show ?thesis by (simp add: reattach_jti_def)
qed


section \<open>Properties\<close>

text \<open>
  No expiry task outlives its registration. Starting from an empty registry, the live expiry
  tasks always belong to registered deciders: every operation keeps that, a registration provided
  its id is new; in particular \<open>stop\<close> leaves none.
\<close>

theorem expiry_tasks_never_leak:
  assumes "tasks_owned r"
  shows "tasks_owned (deregister did r) \<and> tasks_owned (touch now did r) \<and>
    tasks_owned (snd (snd (broadcast now cutoff send_ok ws r))) \<and>
    tasks_owned (snd (snd (disconnect_by_jti jti code reason r))) \<and>
    tasks_owned (snd (snd (disconnect_by_user uid code reason r))) \<and>
    tasks_owned (snd (reattach_jti old new ex r)) \<and> tasks_owned (reap now cutoff r) \<and>
    (map_of (deciders r) did = None \<longrightarrow>
       tasks_owned (register now did ws email sock tok usr ex r)) \<and>
    live_tasks (stop r) = {} \<and> deciders (stop r) = []"
proof -
  have "tasks_owned (touch now did r)"
    using tasks_owned_update [OF assms] assms by (simp add: touch_def split: option.splits)
  moreover have "tasks_owned (register now did ws email sock tok usr ex r)"
    if "map_of (deciders r) did = None"
    using tasks_owned_insert [OF assms that] by (simp add: register_def tasks_owned_arm)
  moreover have st: "deciders (stop r) = []"
    by (auto simp: stop_def drop_all_deciders filter_empty_conv rev_image_eqI)
  moreover have "live_tasks (stop r) = {}"
    using tasks_owned_drop_all [OF assms, of "map fst (deciders r)"] st
    by (auto simp: stop_def tasks_owned_def task_owned_def)
  ultimately show ?thesis
    using assms tasks_owned_drop tasks_owned_drop_all tasks_owned_reattach
    by (simp add: deregister_def broadcast_def disconnect_by_jti_def disconnect_by_user_def
        close_and_drop_def reap_def Let_def)
qed

definition example_registry :: registry where
  "example_registry =
     register 10 ''d2'' ''w1'' None 2 (Some ''j2'') (Some ''u1'') (Some 99)
       (register 5 ''d1'' ''w1'' None 1 (Some ''j1'') (Some ''u1'') (Some 50) init_registry)"

lemmas registry_eval = example_registry_def register_def arm_expiry_def cancel_expiry_def init_registry_def

lemma example_tasks_owned: "tasks_owned example_registry"
  unfolding example_registry_def register_def
  by (intro tasks_owned_arm tasks_owned_insert)
    (simp_all add: tasks_owned_def init_registry_def arm_expiry_def cancel_expiry_def)

theorem expiry_tasks_never_leak_witness:
  "live_tasks (stop example_registry) = {} \<and> tasks_owned (reap 100 30 example_registry)"
  using expiry_tasks_never_leak [OF example_tasks_owned] by blast

end
