(* ===== verification/Audit_Hmac.thy ===== *)
theory Audit_Hmac
  imports Prelude
begin

text \<open>
  \<open>klangk/model/audit_hmac.py\<close>: the integrity tag of audit rows. A row is the lookup of its columns,
  each value already in the text form \<open>str\<close> gives it (\<open>None\<close> for SQL NULL). The keyed hash itself
  (\<open>hmac\<close>/\<open>hashlib\<close>) is the parameter \<open>sha256_hmac\<close> of the settings the tag functions take.
\<close>

section \<open>Definitions\<close>

text \<open>\<open>str.encode()\<close> on the modelled range of code points.\<close>

definition utf8_char :: "char \<Rightarrow> byte list" where
  "utf8_char c =
     (let n = (of_char c :: nat)
      in if n < 128 then [of_nat n] else [of_nat (192 + n div 64), of_nat (128 + n mod 64)])"

definition encode :: "string \<Rightarrow> byte list" where
  "encode s = concat (map utf8_char s)"

record audit_settings =
  audit_hmac_key :: "string option"
  sha256_hmac :: "byte list \<Rightarrow> byte list \<Rightarrow> string"

definition resolve_audit_hmac_key :: "audit_settings \<Rightarrow> byte list option" where
  "resolve_audit_hmac_key settings =
     (case audit_hmac_key settings of
        None \<Rightarrow> None
      | Some explicit \<Rightarrow> (if explicit = [] then None else Some (encode explicit)))"

definition column_part :: "(string \<Rightarrow> string option) \<Rightarrow> string \<Rightarrow> string" where
  "column_part row col =
     (case row col of
        None \<Rightarrow> col @ ''=n''
      | Some sv \<Rightarrow> col @ ''='' @ str_nat (length sv) @ '':'' @ sv)"

definition canonical_pairs :: "string \<Rightarrow> (string \<Rightarrow> string option) \<Rightarrow> string list \<Rightarrow> byte list" where
  "canonical_pairs table row columns =
     encode (join_with (CHR 0x00) (table # map (column_part row) columns))"

definition CE_HMAC_COLUMNS :: "string list" where
  "CE_HMAC_COLUMNS =
     [''id'', ''workspace_id'', ''event'', ''actor_type'', ''actor_id'', ''cause'', ''container_id'',
      ''container_role'', ''network_namespace'', ''created_at'']"

definition compute_container_event_hmac ::
  "audit_settings \<Rightarrow> (string \<Rightarrow> string option) \<Rightarrow> string option" where
  "compute_container_event_hmac settings row =
     (case resolve_audit_hmac_key settings of
        None \<Rightarrow> None
      | Some key \<Rightarrow>
          Some (sha256_hmac settings key (canonical_pairs ''container_events'' row CE_HMAC_COLUMNS)))"

definition AE_HMAC_COLUMNS :: "string list" where
  "AE_HMAC_COLUMNS =
     [''id'', ''event'', ''actor_id'', ''actor_email'', ''target_type'', ''target_id'', ''detail'',
      ''source_ip'', ''user_agent'', ''created_at'']"

definition compute_audit_event_hmac ::
  "audit_settings \<Rightarrow> (string \<Rightarrow> string option) \<Rightarrow> string option" where
  "compute_audit_event_hmac settings row =
     (case resolve_audit_hmac_key settings of
        None \<Rightarrow> None
      | Some key \<Rightarrow>
          Some (sha256_hmac settings key (canonical_pairs ''audit_events'' row AE_HMAC_COLUMNS)))"

definition EC_HMAC_COLUMNS :: "string list" where
  "EC_HMAC_COLUMNS =
     [''id'', ''workspace_id'', ''dest_host'', ''dest_port'', ''pid'', ''process_name'', ''decision'',
      ''duration'', ''requested_at'', ''decided_at'', ''decided_by'', ''revoked_at'', ''revoked_by'']"

definition compute_egress_consent_hmac ::
  "audit_settings \<Rightarrow> (string \<Rightarrow> string option) \<Rightarrow> string option" where
  "compute_egress_consent_hmac settings row =
     (case resolve_audit_hmac_key settings of
        None \<Rightarrow> None
      | Some key \<Rightarrow>
          Some (sha256_hmac settings key (canonical_pairs ''egress_consent'' row EC_HMAC_COLUMNS)))"


section \<open>The serialization is injective\<close>

lemma utf8_char_inject:
  assumes "utf8_char c @ x = utf8_char d @ y"
  shows "c = d \<and> x = y"
proof -
  have lt: "(of_char c :: nat) < 256" "(of_char d :: nat) < 256" by simp_all
  have eq: "m = n" if "(of_nat m :: byte) = of_nat n" "m < 256" "n < 256" for m n
    using arg_cong [OF that(1), of unat] that(2,3) by (simp add: unat_of_nat)
  have "(of_char c :: nat) = of_char d \<and> x = y"
  proof (cases "(of_char c :: nat) < 128"; cases "(of_char d :: nat) < 128")
    assume "(of_char c :: nat) < 128" "(of_char d :: nat) < 128"
    then show ?thesis using assms lt by (auto simp: utf8_char_def dest: eq)
  next
    assume "(of_char c :: nat) < 128" "\<not> (of_char d :: nat) < 128"
    then have "(of_nat (of_char c) :: byte) = of_nat (192 + of_char d div 64)"
      using assms by (simp add: utf8_char_def Let_def)
    from eq [OF this] lt \<open>of_char c < 128\<close> show ?thesis by linarith
  next
    assume "\<not> (of_char c :: nat) < 128" "(of_char d :: nat) < 128"
    then have "(of_nat (192 + of_char c div 64) :: byte) = of_nat (of_char d)"
      using assms by (simp add: utf8_char_def Let_def)
    from eq [OF this] lt \<open>of_char d < 128\<close> show ?thesis by linarith
  next
    assume "\<not> (of_char c :: nat) < 128" "\<not> (of_char d :: nat) < 128"
    then have "(of_nat (192 + of_char c div 64) :: byte) = of_nat (192 + of_char d div 64)"
      "(of_nat (128 + of_char c mod 64) :: byte) = of_nat (128 + of_char d mod 64)" and xy: "x = y"
      using assms by (simp_all add: utf8_char_def Let_def)
    moreover have "(of_char c :: nat) div 64 < 4" "(of_char d :: nat) div 64 < 4"
      "(of_char c :: nat) mod 64 < 64" "(of_char d :: nat) mod 64 < 64"
      using lt by (simp_all add: less_mult_imp_div_less)
    ultimately have "192 + (of_char c :: nat) div 64 = 192 + of_char d div 64"
      "128 + (of_char c :: nat) mod 64 = 128 + of_char d mod 64"
      by (intro eq; linarith)+
    then have "(of_char c :: nat) div 64 = of_char d div 64" "(of_char c :: nat) mod 64 = of_char d mod 64"
      by simp_all
    then have "(of_char c :: nat) = of_char d" by (metis div_mult_mod_eq)
    with xy show ?thesis by simp
  qed
  then show ?thesis by simp
qed

lemma utf8_char_not_Nil [simp]: "utf8_char c \<noteq> []"
  by (simp add: utf8_char_def Let_def)

lemma encode_inject: "encode s = encode t \<Longrightarrow> s = t"
  unfolding encode_def
proof (induction s arbitrary: t)
  case Nil
  then show ?case by (cases t) simp_all
next
  case (Cons c s)
  then obtain d t' where t: "t = d # t'" by (cases t) simp_all
  with Cons.prems have "c = d \<and> concat (map utf8_char s) = concat (map utf8_char t')"
    by (intro utf8_char_inject) simp
  with Cons.IH t show ?case by simp
qed

text \<open>What follows \<open>col=\<close>: the bare marker or a length-prefixed text, then the rest of the payload.\<close>

definition value_part :: "string option \<Rightarrow> string" where
  "value_part v = (case v of None \<Rightarrow> ''n'' | Some sv \<Rightarrow> str_nat (length sv) @ '':'' @ sv)"

lemma column_part_value: "column_part row col = col @ ''='' @ value_part (row col)"
  by (simp add: column_part_def value_part_def split: option.splits)

lemma sep_split_unique:
  assumes "p @ c # x = q @ c # y" "c \<notin> set p" "c \<notin> set q"
  shows "p = q \<and> x = y"
  using assms
proof (induction p arbitrary: q)
  case Nil
  then show ?case by (cases q) auto
next
  case (Cons d p)
  then show ?case by (cases q) auto
qed

lemma join_with_concat: "join_with s (p # ps) = p @ concat (map ((#) s) ps)"
proof (induction ps arbitrary: p)
  case (Cons q ps)
  then show ?case by simp
qed simp

lemma value_part_inject:
  assumes "value_part v @ x = value_part w @ y"
  shows "v = w \<and> x = y"
proof (cases v; cases w)
  fix sv sw
  assume vw: "v = Some sv" "w = Some sw"
  then have "str_nat (length sv) @ CHR '':'' # (sv @ x) = str_nat (length sw) @ CHR '':'' # (sw @ y)"
    using assms by (simp add: value_part_def)
  then have "str_nat (length sv) = str_nat (length sw) \<and> sv @ x = sw @ y"
    by (rule sep_split_unique) simp_all
  then show ?thesis using vw by auto
next
  fix sw
  assume "v = None" "w = Some sw"
  then have "hd (str_nat (length sw)) = CHR ''n''"
    using assms by (cases "str_nat (length sw)") (simp_all add: value_part_def)
  moreover have "ascii_digit (hd (str_nat (length sw)))"
    by (rule str_nat_digits [of _ "length sw"]) simp
  ultimately show ?thesis by (simp add: ascii_digit_def)
next
  fix sv
  assume "v = Some sv" "w = None"
  then have "hd (str_nat (length sv)) = CHR ''n''"
    using assms by (cases "str_nat (length sv)") (simp_all add: value_part_def)
  moreover have "ascii_digit (hd (str_nat (length sv)))"
    by (rule str_nat_digits [of _ "length sv"]) simp
  ultimately show ?thesis by (simp add: ascii_digit_def)
qed (use assms in \<open>simp_all add: value_part_def\<close>)

lemma join_columns_inject:
  assumes "join_with s (p # map (column_part row) cols) = join_with s (p # map (column_part row') cols)"
  shows "\<forall>col \<in> set cols. row col = row' col"
  using assms
proof (induction cols arbitrary: p)
  case (Cons col cols)
  have "join_with s (column_part row col # map (column_part row) cols) =
      join_with s (column_part row' col # map (column_part row') cols)"
    using Cons.prems by simp
  then have "value_part (row col) @ concat (map (\<lambda>c. s # column_part row c) cols) =
      value_part (row' col) @ concat (map (\<lambda>c. s # column_part row' c) cols)"
    by (simp add: join_with_concat column_part_value o_def)
  from value_part_inject [OF this] have eq: "row col = row' col"
    and rest: "concat (map (\<lambda>c. s # column_part row c) cols) = concat (map (\<lambda>c. s # column_part row' c) cols)"
    by simp_all
  from rest have "join_with s ([] # map (column_part row) cols) = join_with s ([] # map (column_part row') cols)"
    by (simp add: join_with_concat o_def)
  from Cons.IH [OF this] eq show ?case by simp
qed simp

section \<open>Properties\<close>

text \<open>
  (C37) The payload under an audit tag determines every column it covers, the NULLs included, whatever
  the values contain: two payloads of one table that are equal agree on every column, and the payloads
  of two tables whose names have no NUL differ unless the names are equal.
\<close>

theorem audit_payload_injective:
  assumes "canonical_pairs table row (c # columns) = canonical_pairs table' row' (c # columns)"
    and "CHR 0x00 \<notin> set table" "CHR 0x00 \<notin> set table'"
  shows "table = table' \<and> (\<forall>col \<in> set (c # columns). row col = row' col)"
proof -
  have eq: "join_with (CHR 0x00) (table # map (column_part row) (c # columns)) =
      join_with (CHR 0x00) (table' # map (column_part row') (c # columns))"
    using assms(1) unfolding canonical_pairs_def by (rule encode_inject)
  then have "table = table'"
    using sep_split_unique [of table "CHR 0x00" _ table'] assms(2,3) by simp
  with eq join_columns_inject show ?thesis by metis
qed

definition example_audit_row :: "string \<Rightarrow> string \<Rightarrow> string option" where
  "example_audit_row host = [''id'' \<mapsto> ''r1'', ''dest_host'' \<mapsto> host]"

theorem audit_payload_injective_witness:
  "canonical_pairs ''egress_consent'' (example_audit_row ''a'') [''id'', ''pid'', ''dest_host''] =
     canonical_pairs ''egress_consent'' ((example_audit_row ''a'')(''event'' \<mapsto> ''x'')) [''id'', ''pid'', ''dest_host''] \<and>
   map (example_audit_row ''a'') [''id'', ''pid'', ''dest_host''] =
     map ((example_audit_row ''a'')(''event'' \<mapsto> ''x'')) [''id'', ''pid'', ''dest_host'']"
proof -
  have "canonical_pairs ''egress_consent'' (example_audit_row ''a'') [''id'', ''pid'', ''dest_host''] =
     canonical_pairs ''egress_consent'' ((example_audit_row ''a'')(''event'' \<mapsto> ''x'')) [''id'', ''pid'', ''dest_host'']"
    by (simp add: canonical_pairs_def column_part_def)
  with audit_payload_injective [OF this] show ?thesis by (simp del: fun_upd_apply)
qed

end
