(* ===== verification/Consent_Table.thy ===== *)
theory Consent_Table
  imports Audit_Hmac "HOL-Library.Product_Lexorder"
begin

text \<open>
  \<open>klangk/model/egress_consent.py\<close>: the \<open>egress_consent\<close> table. A table is the list of its rows in
  insertion order; every operation is one committed transaction on it (a transaction that raises
  leaves the table as it was, see the coordinator). SQL statements are written out: \<open>UPDATE ... WHERE\<close>
  is a map over the rows, \<open>INSERT OR IGNORE\<close> tests the primary key and the three partial unique
  indexes of \<open>init_egress_consent_table\<close>, and \<open>ORDER BY\<close> is a stable sort (rows with equal keys come in
  insertion order) with NULL first in ascending and last in descending order. The clock and the uuid
  of a new row are arguments.
\<close>

section \<open>Rows\<close>

abbreviation "DECISION_PENDING \<equiv> ''pending''"
abbreviation "DECISION_ALLOWED \<equiv> ''allowed''"
abbreviation "DECISION_DENIED \<equiv> ''denied''"
abbreviation "DECISION_EXPIRED \<equiv> ''expired''"
abbreviation "DECISION_REVOKED \<equiv> ''revoked''"

abbreviation "DURATION_ONCE \<equiv> ''once''"
abbreviation "DURATION_TILRESTART \<equiv> ''tilrestart''"
abbreviation "DURATION_FOREVER \<equiv> ''forever''"
abbreviation "DURATION_DEFAULT \<equiv> DURATION_TILRESTART"

definition DURATIONS :: "string list" where
  "DURATIONS = [DURATION_ONCE, ''5s'', ''5m'', ''15m'', ''1h'', ''1d'', ''1w'', DURATION_TILRESTART,
     DURATION_FOREVER]"

record ec_row =
  ec_id :: string
  ec_ws :: string
  ec_host :: string
  ec_port :: "int option"
  ec_pid :: "int option"
  ec_process :: "string option"
  ec_decision :: string
  ec_duration :: "string option"
  ec_requested_at :: real
  ec_decided_at :: "real option"
  ec_decided_by :: "string option"
  ec_revoked_at :: "real option"
  ec_revoked_by :: "string option"
  ec_hmac :: "string option"

type_synonym ec_table = "ec_row list"

record consent_settings =
  audit :: audit_settings
  float_str :: "real \<Rightarrow> string"
  egress_consent_retention_days :: int
  egress_consent_row_cap :: int

text \<open>\<open>row.get(col)\<close> in the text form the tag is computed over (\<open>fs\<close> is \<open>str\<close> on floats).\<close>

definition row_column :: "(real \<Rightarrow> string) \<Rightarrow> ec_row \<Rightarrow> string \<Rightarrow> string option" where
  "row_column fs r col =
     (case map_of
        [(''id'', Some (ec_id r)), (''workspace_id'', Some (ec_ws r)), (''dest_host'', Some (ec_host r)),
         (''dest_port'', map_option str_int (ec_port r)), (''pid'', map_option str_int (ec_pid r)),
         (''process_name'', ec_process r), (''decision'', Some (ec_decision r)),
         (''duration'', ec_duration r), (''requested_at'', Some (fs (ec_requested_at r))),
         (''decided_at'', map_option fs (ec_decided_at r)), (''decided_by'', ec_decided_by r),
         (''revoked_at'', map_option fs (ec_revoked_at r)), (''revoked_by'', ec_revoked_by r),
         (''hmac'', ec_hmac r)] col of
        None \<Rightarrow> None
      | Some v \<Rightarrow> v)"


section \<open>Writing rows\<close>

definition row_tag :: "consent_settings \<Rightarrow> ec_row \<Rightarrow> string option" where
  "row_tag cs row = compute_egress_consent_hmac (audit cs) (row_column (float_str cs) row)"

definition stamp_hmac :: "consent_settings \<Rightarrow> ec_row \<Rightarrow> ec_table \<Rightarrow> ec_row \<times> ec_table" where
  "stamp_hmac cs row t =
     (case row_tag cs row of
        None \<Rightarrow> (row, t)
      | Some tag \<Rightarrow>
          (row\<lparr>ec_hmac := Some tag\<rparr>,
           map (\<lambda>r. if ec_id r = ec_id row then r\<lparr>ec_hmac := Some tag\<rparr> else r) t))"

definition select_row :: "string \<Rightarrow> ec_table \<Rightarrow> ec_row option" where
  "select_row request_id t = find (\<lambda>r. ec_id r = request_id) t"

definition restamp :: "consent_settings \<Rightarrow> string \<Rightarrow> ec_table \<Rightarrow> ec_row option \<times> ec_table" where
  "restamp cs request_id t =
     (case select_row request_id t of
        None \<Rightarrow> (None, t)
      | Some row \<Rightarrow> (case stamp_hmac cs row t of (row, t) \<Rightarrow> (Some row, t)))"

text \<open>
  The unique indexes. A row is in the pending index, in the static-denial index, in the allow-mode
  index or in none; two rows of one index must differ in workspace, host or port, NULL and -1 being
  the same port.
\<close>

definition dedup_key :: "ec_row \<Rightarrow> string \<times> string \<times> int" where
  "dedup_key r = (ec_ws r, ec_host r, case ec_port r of None \<Rightarrow> -1 | Some p \<Rightarrow> p)"

definition is_pending :: "ec_row \<Rightarrow> bool" where
  "is_pending r \<longleftrightarrow> ec_decision r = DECISION_PENDING"

definition is_static :: "string \<Rightarrow> ec_row \<Rightarrow> bool" where
  "is_static d r \<longleftrightarrow> ec_decision r = d \<and> ec_decided_by r = None"

definition conflicts :: "ec_row \<Rightarrow> ec_row \<Rightarrow> bool" where
  "conflicts row r \<longleftrightarrow>
     ec_id r = ec_id row \<or>
     dedup_key r = dedup_key row \<and>
       (is_pending row \<and> is_pending r \<or> is_static DECISION_DENIED row \<and> is_static DECISION_DENIED r \<or>
        is_static DECISION_ALLOWED row \<and> is_static DECISION_ALLOWED r)"

definition insert_or_ignore :: "ec_row \<Rightarrow> ec_table \<Rightarrow> nat \<times> ec_table" where
  "insert_or_ignore row t = (if list_ex (conflicts row) t then (0, t) else (1, t @ [row]))"

definition update_where :: "(ec_row \<Rightarrow> bool) \<Rightarrow> (ec_row \<Rightarrow> ec_row) \<Rightarrow> ec_table \<Rightarrow> nat \<times> ec_table" where
  "update_where P f t = (length (filter P t), map (\<lambda>r. if P r then f r else r) t)"

text \<open>The rows the two \<open>INSERT\<close> statements write; the columns they do not name are NULL.\<close>

definition pending_row ::
  "string \<Rightarrow> string \<Rightarrow> string \<Rightarrow> int option \<Rightarrow> int option \<Rightarrow> string option \<Rightarrow> real \<Rightarrow> ec_row" where
  "pending_row request_id workspace_id dest_host dest_port pid process_name requested_at =
     \<lparr>ec_id = request_id, ec_ws = workspace_id, ec_host = dest_host, ec_port = dest_port,
      ec_pid = pid, ec_process = process_name, ec_decision = DECISION_PENDING,
      ec_duration = None, ec_requested_at = requested_at, ec_decided_at = None,
      ec_decided_by = None, ec_revoked_at = None, ec_revoked_by = None, ec_hmac = None\<rparr>"

definition static_row :: "string \<Rightarrow> string \<Rightarrow> string \<Rightarrow> int option \<Rightarrow> string \<Rightarrow> real \<Rightarrow> ec_row" where
  "static_row request_id workspace_id dest_host dest_port decision now =
     \<lparr>ec_id = request_id, ec_ws = workspace_id, ec_host = dest_host, ec_port = dest_port,
      ec_pid = None, ec_process = None, ec_decision = decision,
      ec_duration = None, ec_requested_at = now, ec_decided_at = Some now,
      ec_decided_by = None, ec_revoked_at = None, ec_revoked_by = None, ec_hmac = None\<rparr>"

definition create_request ::
  "consent_settings \<Rightarrow> real \<Rightarrow> string \<Rightarrow> string \<Rightarrow> string \<Rightarrow> int option \<Rightarrow> int option \<Rightarrow> string option \<Rightarrow>
     ec_table \<Rightarrow> ec_row option \<times> ec_table" where
  "create_request cs requested_at request_id workspace_id dest_host dest_port pid process_name t =
     (let (rowcount, t') = insert_or_ignore
            (pending_row request_id workspace_id dest_host dest_port pid process_name requested_at) t
      in if rowcount = 0 then (None, t) else restamp cs request_id t')"

definition record_static_row ::
  "consent_settings \<Rightarrow> real \<Rightarrow> string \<Rightarrow> string \<Rightarrow> string \<Rightarrow> string \<Rightarrow> int option \<Rightarrow>
     ec_table \<Rightarrow> ec_row option \<times> ec_table" where
  "record_static_row cs now request_id decision workspace_id dest_host dest_port t =
     (let (rowcount, t') = insert_or_ignore
            (static_row request_id workspace_id dest_host dest_port decision now) t
      in if rowcount = 0 then (None, t) else restamp cs request_id t')"

definition record_static_denial ::
  "consent_settings \<Rightarrow> real \<Rightarrow> string \<Rightarrow> string \<Rightarrow> string \<Rightarrow> int option \<Rightarrow> ec_table \<Rightarrow>
     ec_row option \<times> ec_table" where
  "record_static_denial cs now request_id workspace_id dest_host dest_port t =
     record_static_row cs now request_id DECISION_DENIED workspace_id dest_host dest_port t"

definition record_static_allow ::
  "consent_settings \<Rightarrow> real \<Rightarrow> string \<Rightarrow> string \<Rightarrow> string \<Rightarrow> int option \<Rightarrow> ec_table \<Rightarrow>
     ec_row option \<times> ec_table" where
  "record_static_allow cs now request_id workspace_id dest_host dest_port t =
     record_static_row cs now request_id DECISION_ALLOWED workspace_id dest_host dest_port t"

definition restamp_rows :: "consent_settings \<Rightarrow> string list \<Rightarrow> ec_table \<Rightarrow> ec_table" where
  "restamp_rows cs row_ids t = fold (\<lambda>row_id t. snd (restamp cs row_id t)) row_ids t"

datatype ec_error = ValueError string

definition decide_row :: "string \<Rightarrow> string \<Rightarrow> real \<Rightarrow> string \<Rightarrow> ec_row \<Rightarrow> ec_row" where
  "decide_row decision duration decided_at decided_by r =
     r\<lparr>ec_decision := decision, ec_duration := Some duration, ec_decided_at := Some decided_at,
       ec_decided_by := Some decided_by\<rparr>"

definition decide ::
  "consent_settings \<Rightarrow> real \<Rightarrow> string \<Rightarrow> string \<Rightarrow> string \<Rightarrow> string \<Rightarrow> ec_table \<Rightarrow>
     ec_error + ec_row option \<times> ec_table" where
  "decide cs decided_at request_id decision decided_by duration t =
     (if decision \<notin> {DECISION_ALLOWED, DECISION_DENIED} then Inl (ValueError ''Invalid decision'')
      else if duration \<notin> set DURATIONS then Inl (ValueError ''Invalid duration'')
      else let (rowcount, t') = update_where (\<lambda>r. ec_id r = request_id \<and> ec_decision r = DECISION_PENDING)
                 (decide_row decision duration decided_at decided_by) t
           in if rowcount = 0 then Inr (None, t) else Inr (restamp cs request_id t'))"

definition revoke_row :: "real \<Rightarrow> string \<Rightarrow> ec_row \<Rightarrow> ec_row" where
  "revoke_row now revoked_by r =
     r\<lparr>ec_decision := DECISION_REVOKED, ec_revoked_at := Some now, ec_revoked_by := Some revoked_by\<rparr>"

definition revoke ::
  "consent_settings \<Rightarrow> real \<Rightarrow> string \<Rightarrow> string \<Rightarrow> ec_table \<Rightarrow> ec_row option \<times> ec_table" where
  "revoke cs now request_id revoked_by t =
     (let (rowcount, t') = update_where
            (\<lambda>r. ec_id r = request_id \<and> ec_decision r \<in> {DECISION_ALLOWED, DECISION_DENIED})
            (revoke_row now revoked_by) t
      in if rowcount = 0 then (None, t) else restamp cs request_id t')"

definition expire_row :: "real \<Rightarrow> ec_row \<Rightarrow> ec_row" where
  "expire_row decided_at r =
     r\<lparr>ec_decision := DECISION_EXPIRED, ec_duration := Some DURATION_ONCE, ec_decided_at := Some decided_at\<rparr>"

definition expire_pending ::
  "consent_settings \<Rightarrow> real \<Rightarrow> string \<Rightarrow> ec_table \<Rightarrow> bool \<times> ec_table" where
  "expire_pending cs decided_at request_id t =
     (let (rowcount, t') = update_where (\<lambda>r. ec_id r = request_id \<and> ec_decision r = DECISION_PENDING)
            (expire_row decided_at) t
      in if rowcount > 0 then (True, snd (restamp cs request_id t')) else (False, t))"

definition expire_orphan :: "real \<Rightarrow> ec_row \<Rightarrow> ec_row" where
  "expire_orphan decided_at r = r\<lparr>ec_decision := DECISION_EXPIRED, ec_decided_at := Some decided_at\<rparr>"

definition expire_all_pending ::
  "consent_settings \<Rightarrow> real \<Rightarrow> ec_table \<Rightarrow> nat \<times> ec_table" where
  "expire_all_pending cs decided_at t =
     (let rows = filter (\<lambda>r. ec_decision r = DECISION_PENDING) t
      in if rows = [] then (0, t)
         else (length rows,
               fold (\<lambda>row t. snd (stamp_hmac cs (expire_orphan decided_at row) t)) rows
                 (snd (update_where (\<lambda>r. ec_decision r = DECISION_PENDING) (expire_orphan decided_at) t))))"

definition clear_tilrestart_duration :: "string \<Rightarrow> ec_table \<Rightarrow> nat \<times> ec_table" where
  "clear_tilrestart_duration workspace_id t =
     (let doomed = (\<lambda>r. ec_ws r = workspace_id \<and> ec_duration r = Some DURATION_TILRESTART \<and>
                        ec_decision r \<in> {DECISION_ALLOWED, DECISION_DENIED})
      in (length (filter doomed t), filter (\<lambda>r. \<not> doomed r) t))"

text \<open>
  The part of \<open>UsersModel.delete_user\<close> that touches the table: the foreign keys set \<open>decided_by\<close> and
  \<open>revoked_by\<close> of the user's rows to NULL, which moves a decided row into a static index; a duplicate
  there raises an integrity error (\<open>None\<close>) and the deletion is rolled back.
\<close>

definition consent_rows_for_actor :: "string \<Rightarrow> ec_table \<Rightarrow> string list" where
  "consent_rows_for_actor user_id t =
     map ec_id (filter (\<lambda>r. ec_decided_by r = Some user_id \<or> ec_revoked_by r = Some user_id) t)"

definition null_actor :: "string \<Rightarrow> ec_row \<Rightarrow> ec_row" where
  "null_actor user_id r =
     r\<lparr>ec_decided_by := (if ec_decided_by r = Some user_id then None else ec_decided_by r),
       ec_revoked_by := (if ec_revoked_by r = Some user_id then None else ec_revoked_by r)\<rparr>"

definition indexes_ok :: "ec_table \<Rightarrow> bool" where
  "indexes_ok t \<longleftrightarrow>
     distinct (map ec_id t) \<and> distinct (map dedup_key (filter is_pending t)) \<and>
     distinct (map dedup_key (filter (is_static DECISION_DENIED) t)) \<and>
     distinct (map dedup_key (filter (is_static DECISION_ALLOWED) t))"

definition delete_user_rows :: "consent_settings \<Rightarrow> string \<Rightarrow> ec_table \<Rightarrow> ec_table option" where
  "delete_user_rows cs user_id t =
     (let row_ids = consent_rows_for_actor user_id t; t' = map (null_actor user_id) t
      in if indexes_ok t' then Some (restamp_rows cs row_ids t') else None)"


section \<open>Reading rows\<close>

definition get_request :: "string \<Rightarrow> ec_table \<Rightarrow> ec_row option" where
  "get_request request_id t = find (\<lambda>r. ec_id r = request_id) t"

definition desc_key :: "real option \<Rightarrow> nat \<times> real" where
  "desc_key v = (case v of Some x \<Rightarrow> (0, - x) | None \<Rightarrow> (1, 0))"

definition list_requests :: "string \<Rightarrow> string option \<Rightarrow> nat \<Rightarrow> ec_table \<Rightarrow> ec_row list" where
  "list_requests workspace_id decision limit t =
     take limit (sort_key (\<lambda>r. - ec_requested_at r)
       (filter (\<lambda>r. ec_ws r = workspace_id \<and> (case decision of None \<Rightarrow> True | Some d \<Rightarrow> ec_decision r = d)) t))"

definition DURATION_SECONDS :: "string \<rightharpoonup> real" where
  "DURATION_SECONDS = map_of [(''5s'', 5), (''5m'', 300), (''15m'', 900), (''1h'', 3600), (''1d'', 86400),
     (''1w'', 604800)]"

definition duration_in_effect :: "string option \<Rightarrow> real option \<Rightarrow> real \<Rightarrow> bool" where
  "duration_in_effect duration decided_at now =
     (case decided_at of
        None \<Rightarrow> False
      | Some since \<Rightarrow>
          (if duration \<in> {Some DURATION_TILRESTART, Some DURATION_FOREVER} then True
           else if duration = Some DURATION_ONCE then False
           else case Option.bind duration DURATION_SECONDS of
                  None \<Rightarrow> False
                | Some secs \<Rightarrow> since + secs > now))"

definition active_verdict_for ::
  "real \<Rightarrow> string \<Rightarrow> string \<Rightarrow> int option \<Rightarrow> ec_table \<Rightarrow> ec_row option" where
  "active_verdict_for now workspace_id dest_host dest_port t =
     find (\<lambda>r. duration_in_effect (ec_duration r) (ec_decided_at r) now)
       (sort_key (\<lambda>r. desc_key (ec_decided_at r))
         (filter (\<lambda>r. ec_ws r = workspace_id \<and> ec_host r = dest_host \<and> ec_port r = dest_port \<and>
                      ec_decision r \<in> {DECISION_ALLOWED, DECISION_DENIED} \<and> ec_decided_by r \<noteq> None) t))"

definition list_active :: "real \<Rightarrow> string \<Rightarrow> ec_table \<Rightarrow> ec_row list" where
  "list_active now workspace_id t =
     filter (\<lambda>r. duration_in_effect (ec_duration r) (ec_decided_at r) now)
       (sort_key (\<lambda>r. desc_key (ec_decided_at r))
         (filter (\<lambda>r. ec_ws r = workspace_id \<and> ec_decision r \<in> {DECISION_ALLOWED, DECISION_DENIED} \<and>
                      ec_decided_by r \<noteq> None) t))"

definition count_pending :: "string \<Rightarrow> ec_table \<Rightarrow> nat" where
  "count_pending workspace_id t =
     length (filter (\<lambda>r. ec_ws r = workspace_id \<and> ec_decision r = DECISION_PENDING) t)"

definition has_pending :: "string \<Rightarrow> string \<Rightarrow> int option \<Rightarrow> ec_table \<Rightarrow> bool" where
  "has_pending workspace_id dest_host dest_port t =
     list_ex (\<lambda>r. ec_ws r = workspace_id \<and> ec_host r = dest_host \<and> ec_port r = dest_port \<and>
                  ec_decision r = DECISION_PENDING) t"


section \<open>Pruning\<close>

definition prune_eligible :: "real \<Rightarrow> ec_row \<Rightarrow> bool" where
  "prune_eligible now row =
     (if ec_decision row \<notin> {DECISION_ALLOWED, DECISION_DENIED} then True
      else if ec_decided_by row = None then True
      else \<not> duration_in_effect (ec_duration row) (ec_decided_at row) now)"

definition terminal_time :: "ec_row \<Rightarrow> real" where
  "terminal_time r =
     (case ec_revoked_at r of Some x \<Rightarrow> x
      | None \<Rightarrow> (case ec_decided_at r of Some x \<Rightarrow> x | None \<Rightarrow> ec_requested_at r))"

definition retention_split_ids :: "real \<Rightarrow> ec_row list \<Rightarrow> string list \<times> string list" where
  "retention_split_ids now rows =
     (map ec_id (filter (\<lambda>r. prune_eligible now r \<and> ec_decision r = DECISION_PENDING) rows),
      map ec_id (filter (\<lambda>r. prune_eligible now r \<and> ec_decision r \<noteq> DECISION_PENDING) rows))"

definition delete_chunk :: "string option \<Rightarrow> string list \<Rightarrow> nat \<times> ec_table \<Rightarrow> nat \<times> ec_table" where
  "delete_chunk require_decision chunk acc =
     (case acc of (removed, t) \<Rightarrow>
       (let doomed = (\<lambda>r. ec_id r \<in> set chunk \<and>
              (case require_decision of None \<Rightarrow> True | Some d \<Rightarrow> ec_decision r = d))
        in (removed + length (filter doomed t), filter (\<lambda>r. \<not> doomed r) t)))"

text \<open>The chunks of 100 that \<open>_delete_ids\<close> deletes one transaction at a time.\<close>

function chunks_of :: "nat \<Rightarrow> 'a list \<Rightarrow> 'a list list" where
  "chunks_of n xs = (if xs = [] \<or> n = 0 then [] else take n xs # chunks_of n (drop n xs))"
  by auto
termination by (relation "measure (\<lambda>(n, xs). length xs)") auto

declare chunks_of.simps [simp del]

definition delete_ids :: "string list \<Rightarrow> string option \<Rightarrow> ec_table \<Rightarrow> nat \<times> ec_table" where
  "delete_ids ids require_decision t = fold (delete_chunk require_decision) (chunks_of 100 ids) (0, t)"

text \<open>
  \<open>_prune_retention\<close> reads its candidates in one transaction and deletes in later ones: \<open>snapshot\<close> is
  the table at the read, \<open>t\<close> the table when the deletes run.
\<close>

definition prune_retention :: "real \<Rightarrow> real \<Rightarrow> ec_table \<Rightarrow> ec_table \<Rightarrow> nat \<times> ec_table" where
  "prune_retention cutoff now snapshot t =
     (let (pending_ids, decided_ids) =
            retention_split_ids now (filter (\<lambda>r. terminal_time r < cutoff) snapshot);
          (deleted, t) = delete_ids pending_ids (Some DECISION_PENDING) t;
          (deleted', t) = delete_ids decided_ids None t
      in (deleted + deleted', t))"

definition cap_ids :: "real \<Rightarrow> int \<Rightarrow> string \<Rightarrow> int \<Rightarrow> ec_table \<Rightarrow> string list" where
  "cap_ids now row_cap workspace_id cnt t =
     take (nat (cnt - row_cap))
       (map ec_id (filter (prune_eligible now) (sort_key terminal_time
         (filter (\<lambda>r. ec_ws r = workspace_id \<and> ec_decision r \<noteq> DECISION_PENDING) t))))"

definition ws_count :: "string \<Rightarrow> ec_table \<Rightarrow> int" where
  "ws_count workspace_id t = int (length (filter (\<lambda>r. ec_ws r = workspace_id) t))"

definition prune_row_cap :: "int \<Rightarrow> real \<Rightarrow> ec_table \<Rightarrow> nat \<times> ec_table" where
  "prune_row_cap row_cap now t =
     fold (\<lambda>ws acc. (case acc of (deleted, t') \<Rightarrow>
             (case delete_ids (cap_ids now row_cap ws (ws_count ws t) t') None t' of
                (n, t'') \<Rightarrow> (deleted + n, t''))))
       (filter (\<lambda>ws. ws_count ws t > row_cap) (remdups (map ec_ws t))) (0, t)"

definition prune :: "consent_settings \<Rightarrow> real \<Rightarrow> ec_table \<Rightarrow> nat \<times> ec_table" where
  "prune cs now t =
     (let retention_days = egress_consent_retention_days cs; row_cap = egress_consent_row_cap cs
      in if retention_days \<le> 0 \<and> row_cap \<le> 0 then (0, t)
         else let (deleted, t) =
                    (if retention_days > 0
                     then prune_retention (now - of_int retention_days * 86400) now t t else (0, t));
                  (deleted', t) = (if row_cap > 0 then prune_row_cap row_cap now t else (0, t))
              in (deleted + deleted', t))"

section \<open>The unique indexes\<close>

text \<open>
  The contract of an \<open>UPDATE\<close>: it keeps the key columns and puts no row into an index it was not in.
  Every such update keeps the indexes.
\<close>

locale row_update =
  fixes upd :: "ec_row \<Rightarrow> ec_row"
  assumes same_id: "ec_id (upd r) = ec_id r"
    and same_key: "dedup_key (upd r) = dedup_key r"
    and no_new_pending: "is_pending (upd r) \<Longrightarrow> is_pending r"
    and no_new_static: "d \<in> {DECISION_DENIED, DECISION_ALLOWED} \<Longrightarrow> is_static d (upd r) \<Longrightarrow> is_static d r"
begin

lemma keeps_index:
  assumes "\<And>r. Q (upd r) \<Longrightarrow> Q r" "distinct (map dedup_key (filter Q t))"
  shows "distinct (map dedup_key (filter Q (map upd t)))"
  using assms(2)
proof (induction t)
  case (Cons r t)
  have "dedup_key ` {x \<in> set (map upd t). Q x} \<subseteq> dedup_key ` {x \<in> set t. Q x}"
  proof (rule image_subsetI, elim CollectE conjE)
    fix x assume "x \<in> set (map upd t)" "Q x"
    then obtain y where "x = upd y" "y \<in> set t" by auto
    with \<open>Q x\<close> assms(1) show "dedup_key x \<in> dedup_key ` {x \<in> set t. Q x}"
      by (intro image_eqI [of _ _ y]) (simp_all add: same_key)
  qed
  with Cons assms(1) [of r] show ?case by (auto simp: same_key split: if_splits)
qed simp

lemma keeps_ids: "map ec_id (map upd t) = map ec_id t"
  by (simp add: same_id)

lemma keeps_indexes: "indexes_ok t \<Longrightarrow> indexes_ok (map upd t)"
  unfolding indexes_ok_def keeps_ids
  by (intro conjI keeps_index) (auto dest: no_new_pending intro: no_new_static)

end

lemma indexes_ok_sub:
  assumes "indexes_ok t"
  shows "indexes_ok (filter P t)"
proof -
  have key: "distinct (map dedup_key (filter Q (filter P t)))" if "distinct (map dedup_key (filter Q t))" for Q
    using that by (induction t) auto
  have "distinct (map ec_id (filter P t))" if "distinct (map ec_id t)"
    using that by (rule distinct_map_filter)
  with key show ?thesis using assms unfolding indexes_ok_def by blast
qed

lemma indexes_ok_snoc:
  assumes "indexes_ok t" "\<not> list_ex (conflicts row) t"
  shows "indexes_ok (t @ [row])"
  using assms unfolding indexes_ok_def
  by (auto simp: list_ex_iff conflicts_def)

text \<open>The four updates of the table.\<close>

definition stamp_row :: "string \<Rightarrow> string \<Rightarrow> ec_row \<Rightarrow> ec_row" where
  "stamp_row rid tag r = (if ec_id r = rid then r\<lparr>ec_hmac := Some tag\<rparr> else r)"

lemmas row_tests = is_pending_def is_static_def dedup_key_def

interpretation stamp_update: row_update "stamp_row rid tag" for rid tag
  by unfold_locales (auto simp: stamp_row_def row_tests split: if_splits)

interpretation decide_update:
  row_update "\<lambda>r. if ec_id r = rid \<and> ec_decision r = DECISION_PENDING
     then decide_row (if allow then DECISION_ALLOWED else DECISION_DENIED) dur now by_user r else r"
  for rid allow dur now by_user
  by unfold_locales (auto simp: decide_row_def row_tests split: if_splits)

interpretation revoke_update:
  row_update "\<lambda>r. if ec_id r = rid \<and> ec_decision r \<in> {DECISION_ALLOWED, DECISION_DENIED}
     then revoke_row now by_user r else r"
  for rid now by_user
  by unfold_locales (auto simp: revoke_row_def row_tests split: if_splits)

interpretation expire_update:
  row_update "\<lambda>r. if ec_id r = rid \<and> ec_decision r = DECISION_PENDING then expire_row now r else r"
  for rid now
  by unfold_locales (auto simp: expire_row_def row_tests split: if_splits)

interpretation orphan_update:
  row_update "\<lambda>r. if ec_decision r = DECISION_PENDING then expire_orphan now r else r" for now
  by unfold_locales (auto simp: expire_orphan_def row_tests split: if_splits)

section \<open>Stamping\<close>

lemma row_tag_hmac [simp]: "row_tag cs (r\<lparr>ec_hmac := h\<rparr>) = row_tag cs r"
proof -
  have "map (column_part (row_column fs (r\<lparr>ec_hmac := h\<rparr>))) EC_HMAC_COLUMNS =
      map (column_part (row_column fs r)) EC_HMAC_COLUMNS" for fs
    by (simp add: EC_HMAC_COLUMNS_def column_part_def row_column_def)
  then have "canonical_pairs tb (row_column fs (r\<lparr>ec_hmac := h\<rparr>)) EC_HMAC_COLUMNS =
      canonical_pairs tb (row_column fs r) EC_HMAC_COLUMNS" for tb fs
    unfolding canonical_pairs_def by (simp only:)
  then show ?thesis by (simp add: row_tag_def compute_egress_consent_hmac_def split: option.split)
qed

lemma row_tag_None: "row_tag cs r = None \<longleftrightarrow> resolve_audit_hmac_key (audit cs) = None"
  by (simp add: row_tag_def compute_egress_consent_hmac_def split: option.splits)

lemma snd_stamp_hmac:
  "snd (stamp_hmac cs row t) =
     (case row_tag cs row of None \<Rightarrow> t | Some tag \<Rightarrow> map (stamp_row (ec_id row) tag) t)"
  by (simp add: stamp_hmac_def stamp_row_def split: option.splits)

lemma indexes_ok_stamp: "indexes_ok t \<Longrightarrow> indexes_ok (snd (stamp_hmac cs row t))"
  by (auto simp: snd_stamp_hmac stamp_update.keeps_indexes split: option.splits)

lemma snd_restamp:
  "snd (restamp cs rid t) =
     (case select_row rid t of None \<Rightarrow> t | Some row \<Rightarrow> snd (stamp_hmac cs row t))"
  by (simp add: restamp_def split: option.splits prod.splits)

lemma indexes_ok_restamp: "indexes_ok t \<Longrightarrow> indexes_ok (snd (restamp cs rid t))"
  by (simp add: snd_restamp indexes_ok_stamp split: option.splits)

lemma select_row_eq:
  assumes "distinct (map ec_id t)" "r \<in> set t" "ec_id r = rid"
  shows "select_row rid t = Some r"
  using assms unfolding select_row_def by (induction t) (auto simp: rev_image_eqI)

lemma id_unique:
  fixes t :: ec_table
  assumes "distinct (map ec_id t)" "r \<in> set t" "q \<in> set t" "ec_id r = ec_id q"
  shows "r = q"
  using select_row_eq [OF assms(1,2,4)] select_row_eq [OF assms(1,3) refl] by simp

lemma select_row_SomeD: "select_row rid t = Some r \<Longrightarrow> r \<in> set t \<and> ec_id r = rid"
  unfolding select_row_def by (auto simp: find_Some_iff)

text \<open>\<open>untag\<close> forgets the tag: stamping changes nothing else.\<close>

definition untag :: "ec_row \<Rightarrow> ec_row" where
  "untag r = r\<lparr>ec_hmac := None\<rparr>"

lemma untag_simps [simp]:
  "ec_id (untag r) = ec_id r" "ec_decision (untag r) = ec_decision r" "ec_ws (untag r) = ec_ws r"
  "ec_decided_by (untag r) = ec_decided_by r" "ec_duration (untag r) = ec_duration r"
  "ec_decided_at (untag r) = ec_decided_at r" "ec_host (untag r) = ec_host r" "ec_port (untag r) = ec_port r"
  by (simp_all add: untag_def)

lemma untag_stamp: "map untag (snd (stamp_hmac cs row t)) = map untag t"
  by (auto simp: snd_stamp_hmac stamp_row_def untag_def split: option.splits)

lemma untag_restamp: "map untag (snd (restamp cs rid t)) = map untag t"
  by (simp add: snd_restamp untag_stamp split: option.splits)

text \<open>Every row carries the tag of its current columns, or none carries one when no key is set.\<close>

definition stamped :: "consent_settings \<Rightarrow> ec_table \<Rightarrow> bool" where
  "stamped cs t \<longleftrightarrow> (\<forall>r \<in> set t. ec_hmac r = row_tag cs r)"

text \<open>The same with the rows of \<open>S\<close> still to be stamped.\<close>

definition stamped_but :: "consent_settings \<Rightarrow> string set \<Rightarrow> ec_table \<Rightarrow> bool" where
  "stamped_but cs S t \<longleftrightarrow>
     (\<forall>r \<in> set t. (ec_id r \<notin> S \<longrightarrow> ec_hmac r = row_tag cs r) \<and> (row_tag cs r = None \<longrightarrow> ec_hmac r = None))"

lemma stamped_iff: "stamped cs t \<longleftrightarrow> stamped_but cs {} t"
  by (auto simp: stamped_def stamped_but_def)

lemma stamped_but_mono: "stamped_but cs S t \<Longrightarrow> S \<subseteq> S' \<Longrightarrow> stamped_but cs S' t"
  unfolding stamped_but_def by blast

lemma stamped_but_stamp:
  assumes "stamped_but cs S t" "\<And>r. r \<in> set t \<Longrightarrow> ec_id r = ec_id row \<Longrightarrow> row_tag cs r = row_tag cs row"
  shows "stamped_but cs (S - {ec_id row}) (snd (stamp_hmac cs row t))"
  using assms by (fastforce simp: stamped_but_def snd_stamp_hmac stamp_row_def split: option.splits)

lemma stamped_but_restamp:
  assumes "stamped_but cs S t" "distinct (map ec_id t)"
  shows "stamped_but cs (S - {rid}) (snd (restamp cs rid t))"
proof (cases "select_row rid t")
  case None
  then have "\<forall>r \<in> set t. ec_id r \<noteq> rid" by (auto simp: select_row_def find_None_iff)
  with None assms(1) show ?thesis by (auto simp: snd_restamp stamped_but_def)
next
  case (Some row)
  then have row: "ec_id row = rid" by (simp add: select_row_SomeD)
  have "r = row" if "r \<in> set t" "ec_id r = rid" for r
    using select_row_eq [OF assms(2) that] Some by simp
  with stamped_but_stamp [OF assms(1), of row] Some row show ?thesis by (simp add: snd_restamp)
qed

text \<open>An update of one row, then its stamp, keeps the table stamped.\<close>

lemma stamped_update:
  assumes "stamped cs t" "distinct (map ec_id t)" "row_update upd"
    and "\<And>r. ec_id r \<noteq> rid \<Longrightarrow> upd r = r" "\<And>r. ec_hmac (upd r) = ec_hmac r"
  shows "stamped cs (snd (restamp cs rid (map upd t)))"
proof -
  have "stamped_but cs {rid} (map upd t)"
    using assms(1,4,5) by (auto simp: stamped_def stamped_but_def row_tag_None row_update.same_id [OF assms(3)])
  moreover have "distinct (map ec_id (map upd t))"
    unfolding row_update.keeps_ids [OF assms(3)] by (rule assms(2))
  ultimately show ?thesis using stamped_but_restamp [of cs "{rid}" "map upd t" rid] by (simp add: stamped_iff)
qed

section \<open>The table over time\<close>

text \<open>
  One committed transaction of the consent model. \<open>used\<close> holds the ids no new row may take (uuids are
  not reused).
\<close>

inductive table_step :: "consent_settings \<Rightarrow> string set \<Rightarrow> ec_table \<Rightarrow> ec_table \<Rightarrow> bool"
  for cs used where
  created: "rid \<notin> used \<Longrightarrow> table_step cs used t (snd (create_request cs now rid ws host port pid pname t))"
| static_denied: "rid \<notin> used \<Longrightarrow> table_step cs used t (snd (record_static_denial cs now rid ws host port t))"
| static_allowed: "rid \<notin> used \<Longrightarrow> table_step cs used t (snd (record_static_allow cs now rid ws host port t))"
| decided: "decide cs now rid decision actor duration t = Inr (res, t') \<Longrightarrow> table_step cs used t t'"
| revoked: "table_step cs used t (snd (revoke cs now rid actor t))"
| expired: "table_step cs used t (snd (expire_pending cs now rid t))"
| reaped: "table_step cs used t (snd (expire_all_pending cs now t))"
| cleared: "table_step cs used t (snd (clear_tilrestart_duration ws t))"
| pruned: "table_step cs used t (snd (prune_retention cutoff now snapshot t))"
| capped: "table_step cs used t (snd (prune_row_cap cap now t))"
| offboarded: "delete_user_rows cs uid t = Some t' \<Longrightarrow> table_step cs used t t'"

text \<open>Deleting in chunks is deleting the named rows that satisfy the re-check.\<close>

definition named_row :: "string list \<Rightarrow> string option \<Rightarrow> ec_row \<Rightarrow> bool" where
  "named_row ids req r \<longleftrightarrow> ec_id r \<in> set ids \<and> (case req of None \<Rightarrow> True | Some d \<Rightarrow> ec_decision r = d)"

lemma delete_chunk_pair:
  "delete_chunk req chunk (k, t) =
     (k + length (filter (named_row chunk req) t), filter (\<lambda>r. \<not> named_row chunk req r) t)"
  by (simp add: delete_chunk_def named_row_def [abs_def])

lemma delete_ids_eq: "snd (delete_ids ids req t) = filter (\<lambda>r. \<not> named_row ids req r) t"
proof -
  have "snd (fold (delete_chunk req) (chunks_of n ids) (k, t)) = filter (\<lambda>r. \<not> named_row ids req r) t"
    if "n > 0" for n k
    using that
  proof (induction n ids arbitrary: k t rule: chunks_of.induct)
    case (1 n xs)
    show ?case
    proof (cases "xs = []")
      case True
      then show ?thesis by (simp add: chunks_of.simps named_row_def)
    next
      case False
      have "named_row xs req r \<longleftrightarrow> named_row (take n xs) req r \<or> named_row (drop n xs) req r" for r
        using set_append [of "take n xs" "drop n xs"] by (auto simp: named_row_def)
      with 1 False show ?thesis
        by (subst chunks_of.simps) (simp add: delete_chunk_pair conj_commute)
    qed
  qed
  then show ?thesis by (simp add: delete_ids_def)
qed

lemma prune_retention_eq:
  "snd (prune_retention cutoff now snapshot t) =
     (let ids = retention_split_ids now (filter (\<lambda>r. terminal_time r < cutoff) snapshot)
      in filter (\<lambda>r. \<not> named_row (fst ids) (Some DECISION_PENDING) r \<and> \<not> named_row (snd ids) None r) t)"
  by (simp add: prune_retention_def delete_ids_eq Let_def case_prod_unfold conj_commute)

lemma prune_row_cap_filter: "\<exists>P. snd (prune_row_cap cap now t) = filter P t"
proof -
  have "\<exists>P. snd (fold (\<lambda>ws acc. (case acc of (deleted, t') \<Rightarrow>
             (case delete_ids (cap_ids now cap ws (ws_count ws t) t') None t' of
                (n, t'') \<Rightarrow> (deleted + n, t'')))) wss (k, t')) = filter P t'" for wss k t'
  proof (induction wss arbitrary: k t')
    case Nil
    show ?case by (intro exI [of _ "\<lambda>_. True"]) simp
  next
    case (Cons ws wss)
    obtain n t'' where d: "delete_ids (cap_ids now cap ws (ws_count ws t) t') None t' = (n, t'')" by fastforce
    then obtain P where "t'' = filter P t'" using delete_ids_eq [of _ None t'] by (metis snd_conv)
    moreover obtain Q where "snd (fold (\<lambda>ws acc. (case acc of (deleted, t') \<Rightarrow>
             (case delete_ids (cap_ids now cap ws (ws_count ws t) t') None t' of
                (n, t'') \<Rightarrow> (deleted + n, t'')))) wss (k + n, t'')) = filter Q t''" using Cons by blast
    ultimately show ?case using d by (intro exI [of _ "\<lambda>x. P x \<and> Q x"]) (simp add: conj_commute)
  qed
  then show ?thesis by (simp add: prune_row_cap_def)
qed

lemma snd_update_where: "snd (update_where P f t) = map (\<lambda>r. if P r then f r else r) t"
  by (simp add: update_where_def)

definition table_ok :: "consent_settings \<Rightarrow> ec_table \<Rightarrow> bool" where
  "table_ok cs t \<longleftrightarrow> indexes_ok t \<and> stamped cs t"

lemma indexes_ok_ids: "indexes_ok t \<Longrightarrow> distinct (map ec_id t)"
  by (simp add: indexes_ok_def)

lemma table_ok_filter: "table_ok cs t \<Longrightarrow> table_ok cs (filter P t)"
  by (auto simp: table_ok_def stamped_def indexes_ok_sub)

lemma table_ok_insert:
  assumes "table_ok cs t" "ec_hmac row = None" "insert_or_ignore row t = (n, t')"
  shows "table_ok cs (if n = 0 then t else snd (restamp cs (ec_id row) t'))"
proof (cases "list_ex (conflicts row) t")
  case True
  with assms show ?thesis by (simp add: insert_or_ignore_def)
next
  case False
  then have t': "t' = t @ [row]" "n = 1" using assms(3) by (simp_all add: insert_or_ignore_def)
  have ix: "indexes_ok (t @ [row])" using assms(1) False by (simp add: table_ok_def indexes_ok_snoc)
  have "stamped_but cs {ec_id row} (t @ [row])"
    using assms(1,2) by (auto simp: table_ok_def stamped_def stamped_but_def)
  from stamped_but_restamp [OF this indexes_ok_ids [OF ix], of "ec_id row"] ix t' show ?thesis
    by (simp add: table_ok_def stamped_iff indexes_ok_restamp)
qed

lemma table_ok_create: "table_ok cs t \<Longrightarrow> table_ok cs (snd (create_request cs now rid ws h p pid pn t))"
  using table_ok_insert [of cs t "pending_row rid ws h p pid pn now"]
  by (auto simp: create_request_def pending_row_def split: prod.splits)

lemma table_ok_static: "table_ok cs t \<Longrightarrow> table_ok cs (snd (record_static_row cs now rid d ws h p t))"
  using table_ok_insert [of cs t "static_row rid ws h p d now"]
  by (auto simp: record_static_row_def static_row_def split: prod.splits)

lemma table_ok_update:
  assumes "table_ok cs t" "row_update upd"
    and "\<And>r. ec_id r \<noteq> rid \<Longrightarrow> upd r = r" "\<And>r. ec_hmac (upd r) = ec_hmac r"
  shows "table_ok cs (snd (restamp cs rid (map upd t)))"
  using assms stamped_update [of cs t upd rid]
  by (simp add: table_ok_def indexes_ok_restamp row_update.keeps_indexes indexes_ok_ids)

lemma table_ok_stamps:
  assumes "indexes_ok t" "map untag t = map untag t1" "stamped_but cs (ec_id ` set rows \<union> S) t"
    and "\<And>row r. row \<in> set rows \<Longrightarrow> r \<in> set t1 \<Longrightarrow> ec_id r = ec_id row \<Longrightarrow> row_tag cs r = row_tag cs row"
  shows "indexes_ok (fold (\<lambda>row t. snd (stamp_hmac cs row t)) rows t) \<and>
    stamped_but cs S (fold (\<lambda>row t. snd (stamp_hmac cs row t)) rows t)"
  using assms
proof (induction rows arbitrary: t)
  case (Cons row rows)
  have "row_tag cs r = row_tag cs row" if r: "r \<in> set t" "ec_id r = ec_id row" for r
  proof -
    have "untag r \<in> set (map untag t1)" unfolding Cons.prems(2) [symmetric] using r(1) by simp
    then obtain r1 where r1: "r1 \<in> set t1" "untag r = untag r1" by auto
    then have "ec_id r1 = ec_id r" by (metis untag_simps(1))
    then have "row_tag cs r1 = row_tag cs row" using Cons.prems(4) [of row r1] r1(1) r(2) by simp
    then show ?thesis using r1(2) by (metis untag_def row_tag_hmac)
  qed
  from stamped_but_stamp [OF Cons.prems(3) this]
  have "stamped_but cs (ec_id ` set rows \<union> S) (snd (stamp_hmac cs row t))"
    by (rule stamped_but_mono) auto
  with Cons show ?case by (simp add: indexes_ok_stamp untag_stamp)
qed simp

lemma table_ok_expire_all:
  assumes "table_ok cs t"
  shows "table_ok cs (snd (expire_all_pending cs now t))"
proof (cases "filter (\<lambda>r. ec_decision r = DECISION_PENDING) t = []")
  case True
  with assms show ?thesis by (simp add: expire_all_pending_def)
next
  case False
  let ?rows = "map (expire_orphan now) (filter (\<lambda>r. ec_decision r = DECISION_PENDING) t)"
  let ?t1 = "map (\<lambda>r. if ec_decision r = DECISION_PENDING then expire_orphan now r else r) t"
  have eq: "snd (expire_all_pending cs now t) = fold (\<lambda>row t. snd (stamp_hmac cs row t)) ?rows ?t1"
    using False by (simp add: expire_all_pending_def Let_def snd_update_where fold_map o_def)
  have ix: "indexes_ok ?t1" using assms orphan_update.keeps_indexes by (simp add: table_ok_def)
  have ids: "ec_id ` set ?rows = ec_id ` {r \<in> set t. ec_decision r = DECISION_PENDING}"
    by (auto simp: expire_orphan_def image_image)
  have "stamped_but cs (ec_id ` set ?rows \<union> {}) ?t1"
    unfolding ids using assms
    by (auto simp: stamped_but_def table_ok_def stamped_def row_tag_None expire_orphan_def)
  moreover have "row_tag cs r = row_tag cs row"
    if row: "row \<in> set ?rows" and r: "r \<in> set ?t1" "ec_id r = ec_id row" for row r
  proof -
    have "row \<in> set ?t1" using row by auto
    with r have "r = row" by (intro id_unique [OF indexes_ok_ids [OF ix]])
    then show ?thesis by simp
  qed
  ultimately show ?thesis
    using table_ok_stamps [OF ix refl, of cs ?rows "{}"] by (simp only: eq table_ok_def stamped_iff)
qed

lemma table_ok_restamps:
  assumes "indexes_ok t" "stamped_but cs (set ids) t"
  shows "table_ok cs (restamp_rows cs ids t)"
proof -
  have "indexes_ok (fold (\<lambda>i t. snd (restamp cs i t)) ids t) \<and>
      stamped_but cs S (fold (\<lambda>i t. snd (restamp cs i t)) ids t)"
    if "indexes_ok t" "stamped_but cs (set ids \<union> S) t" for S t
    using that
  proof (induction ids arbitrary: t)
    case (Cons i ids)
    have "stamped_but cs (set ids \<union> S) (snd (restamp cs i t))"
      using stamped_but_restamp [OF Cons.prems(2) indexes_ok_ids [OF Cons.prems(1)], of i]
      by (rule stamped_but_mono) auto
    with Cons show ?case by (simp add: indexes_ok_restamp)
  qed simp
  from this [of t "{}"] assms show ?thesis by (simp add: restamp_rows_def table_ok_def stamped_iff)
qed

lemma table_ok_offboard:
  assumes "table_ok cs t" "delete_user_rows cs uid t = Some t'"
  shows "table_ok cs t'"
proof -
  have t': "indexes_ok (map (null_actor uid) t)"
    "t' = restamp_rows cs (consent_rows_for_actor uid t) (map (null_actor uid) t)"
    using assms(2) by (simp_all add: delete_user_rows_def Let_def split: if_splits)
  have "null_actor uid r = r" if "r \<in> set t" "ec_id r \<notin> set (consent_rows_for_actor uid t)" for r
    using that by (auto simp: consent_rows_for_actor_def null_actor_def)
  moreover have "ec_id (null_actor uid r) = ec_id r" "ec_hmac (null_actor uid r) = ec_hmac r" for r
    by (simp_all add: null_actor_def)
  ultimately have "stamped_but cs (set (consent_rows_for_actor uid t)) (map (null_actor uid) t)"
    using assms(1) by (auto simp: stamped_but_def table_ok_def stamped_def row_tag_None)
  with t' show ?thesis by (simp add: table_ok_restamps)
qed

lemma table_step_ok:
  assumes "table_step cs used t t'" "table_ok cs t"
  shows "table_ok cs t'"
  using assms
proof cases
  case (decided now rid decision actor duration res)
  define allow where "allow = (decision = DECISION_ALLOWED)"
  have decision: "decision = (if allow then DECISION_ALLOWED else DECISION_DENIED)"
    using decided by (auto simp: allow_def decide_def split: if_splits)
  have upd: "table_ok cs (snd (restamp cs rid (map (\<lambda>r. if ec_id r = rid \<and> ec_decision r = DECISION_PENDING
      then decide_row (if allow then DECISION_ALLOWED else DECISION_DENIED) duration now actor r else r) t)))"
    by (rule table_ok_update [OF assms(2) decide_update.row_update_axioms]) (simp_all add: decide_row_def)
  have "t' = t \<or> t' = snd (restamp cs rid (map (\<lambda>r. if ec_id r = rid \<and>
      ec_decision r = DECISION_PENDING then decide_row decision duration now actor r else r) t))"
    using decided by (simp add: decide_def update_where_def Let_def split: if_splits)
  then show ?thesis using assms(2) upd [folded decision] by (elim disjE) (simp_all only:)
next
  case (revoked now rid actor)
  have "table_ok cs (snd (restamp cs rid (map (\<lambda>r. if ec_id r = rid \<and>
      ec_decision r \<in> {DECISION_ALLOWED, DECISION_DENIED} then revoke_row now actor r else r) t)))"
    by (rule table_ok_update [OF assms(2) revoke_update.row_update_axioms]) (simp_all add: revoke_row_def)
  with revoked assms(2) show ?thesis by (simp add: revoke_def update_where_def Let_def)
next
  case (expired now rid)
  have "table_ok cs (snd (restamp cs rid (map (\<lambda>r. if ec_id r = rid \<and>
      ec_decision r = DECISION_PENDING then expire_row now r else r) t)))"
    by (rule table_ok_update [OF assms(2) expire_update.row_update_axioms]) (simp_all add: expire_row_def)
  with expired assms(2) show ?thesis by (simp add: expire_pending_def update_where_def Let_def)
next
  case (capped cap now)
  then show ?thesis using prune_row_cap_filter [of cap now t] table_ok_filter [OF assms(2)] by auto
qed (use table_ok_create table_ok_static table_ok_filter table_ok_expire_all table_ok_offboard in
    \<open>auto simp: clear_tilrestart_duration_def prune_retention_eq record_static_denial_def
      record_static_allow_def Let_def\<close>)

text \<open>A row that may be pruned and is not pending stays so, whatever transactions run.\<close>

definition settled :: "real \<Rightarrow> ec_row \<Rightarrow> bool" where
  "settled now r \<longleftrightarrow> \<not> is_pending r \<and> prune_eligible now r"

definition stays_settled :: "real \<Rightarrow> ec_table \<Rightarrow> ec_row \<Rightarrow> bool" where
  "stays_settled now t r' \<longleftrightarrow> (\<exists>r \<in> set t. ec_id r = ec_id r' \<and> (settled now r \<longrightarrow> settled now r'))"

lemma settled_untag [simp]: "settled now (untag r) = settled now r"
  by (simp add: settled_def is_pending_def prune_eligible_def)

lemma untag_eq_settled: "untag r = untag q \<Longrightarrow> ec_id r = ec_id q \<and> settled now r = settled now q"
  by (metis untag_simps(1) settled_untag)

lemma untag_origin:
  assumes "map untag t' = map untag t" "r' \<in> set t'"
  shows "\<exists>r \<in> set t. untag r = untag r'"
proof -
  have "untag r' \<in> set (map untag t)" unfolding assms(1) [symmetric] using assms(2) by simp
  then show ?thesis by auto
qed

lemma stays_settled_untag:
  assumes "map untag t'' = map untag t'" "r' \<in> set t''" "\<And>r. r \<in> set t' \<Longrightarrow> stays_settled now t r"
  shows "stays_settled now t r'"
proof -
  obtain r where "r \<in> set t'" "untag r = untag r'" using untag_origin [OF assms(1,2)] by blast
  with assms(3) [of r] untag_eq_settled [of r r' now] show ?thesis by (simp add: stays_settled_def)
qed

lemma stays_settled_refl: "r \<in> set t \<Longrightarrow> stays_settled now t r"
  unfolding stays_settled_def by blast

lemma stays_settled_map:
  assumes "r' \<in> set (map upd t)" "\<And>r. ec_id (upd r) = ec_id r" "\<And>r. settled now r \<Longrightarrow> settled now (upd r)"
  shows "stays_settled now t r'"
  using assms unfolding stays_settled_def by fastforce

lemma stays_settled_insert:
  assumes "r' \<in> set (if n = 0 then t else snd (restamp cs (ec_id row) t'))" "insert_or_ignore row t = (n, t')"
  shows "ec_id r' = ec_id row \<or> stays_settled now t r'"
proof -
  have sub: "set t' \<subseteq> insert row (set t)"
    using assms(2) by (auto simp: insert_or_ignore_def split: if_splits)
  show ?thesis
  proof (cases "n = 0")
    case True
    with assms(1) show ?thesis by (simp add: stays_settled_refl)
  next
    case False
    then obtain r where r: "r \<in> set t'" "untag r = untag r'"
      using assms(1) untag_origin [OF untag_restamp, of r' cs "ec_id row" t'] by auto
    then have "ec_id r = ec_id r' \<and> settled now r = settled now r'" by (intro untag_eq_settled)
    with r(1) sub show ?thesis by (auto simp: stays_settled_def)
  qed
qed

text \<open>An update that keeps ids and settled rows, with or without the stamp that follows it.\<close>

lemma stays_settled_update:
  assumes "map untag t' = map untag (map upd t)" "r' \<in> set t'"
    and "\<And>r. ec_id (upd r) = ec_id r" "\<And>r. settled now r \<Longrightarrow> settled now (upd r)"
  shows "stays_settled now t r'"
  by (rule stays_settled_untag [OF assms(1,2)]) (erule stays_settled_map; rule assms(3,4))

lemmas settled_defs = settled_def is_pending_def prune_eligible_def

lemma decide_update_eq:
  "decide cs now rid d actor dur t = Inr (res, t') \<Longrightarrow>
     t' = t \<or> t' = snd (restamp cs rid (map (\<lambda>r. if ec_id r = rid \<and> ec_decision r = DECISION_PENDING
       then decide_row d dur now actor r else r) t))"
  by (simp add: decide_def update_where_def Let_def split: if_splits)

lemma untag_expire_all:
  "map untag (snd (expire_all_pending cs now t)) =
     map untag (map (\<lambda>r. if ec_decision r = DECISION_PENDING then expire_orphan now r else r) t)"
proof -
  have "map untag (fold (\<lambda>row t. snd (stamp_hmac cs (expire_orphan now row) t)) rows t) = map untag t" for rows t
    by (induction rows arbitrary: t) (simp_all add: untag_stamp)
  moreover have "map untag (map (\<lambda>r. if ec_decision r = DECISION_PENDING then expire_orphan now r else r) t) =
      map untag t" if "filter (\<lambda>r. ec_decision r = DECISION_PENDING) t = []"
    using that by (auto simp: filter_empty_conv)
  ultimately show ?thesis
    by (simp add: expire_all_pending_def Let_def snd_update_where del: map_map map_eq_conv)
qed

lemma untag_restamps: "map untag (restamp_rows cs ids t) = map untag t"
  unfolding restamp_rows_def by (induction ids arbitrary: t) (simp_all add: untag_restamp)

lemma table_step_settled:
  assumes "table_step cs used t t'" "r' \<in> set t'" "ec_id r' \<in> used"
  shows "stays_settled now t r'"
  using assms(1)
proof cases
  case (created rid at_time ws h p pid pn)
  with assms(2,3) stays_settled_insert [of r' _ t cs "pending_row rid ws h p pid pn at_time" _ now]
  show ?thesis by (auto simp: create_request_def pending_row_def split: prod.splits if_splits)
next
  case (static_denied rid at_time ws h p)
  with assms(2,3) stays_settled_insert [of r' _ t cs "static_row rid ws h p DECISION_DENIED at_time" _ now]
  show ?thesis
    by (auto simp: record_static_denial_def record_static_row_def static_row_def split: prod.splits if_splits)
next
  case (static_allowed rid at_time ws h p)
  with assms(2,3) stays_settled_insert [of r' _ t cs "static_row rid ws h p DECISION_ALLOWED at_time" _ now]
  show ?thesis
    by (auto simp: record_static_allow_def record_static_row_def static_row_def split: prod.splits if_splits)
next
  case (decided at_time rid d actor dur res)
  have "stays_settled now t r'" if "t' = snd (restamp cs rid (map (\<lambda>r. if ec_id r = rid \<and>
      ec_decision r = DECISION_PENDING then decide_row d dur at_time actor r else r) t))"
    by (rule stays_settled_update [OF _ assms(2)], unfold that, rule untag_restamp)
      (auto simp: decide_row_def settled_defs)
  with decide_update_eq [OF decided] assms(2) stays_settled_refl show ?thesis by blast
next
  case (revoked at_time rid actor)
  have "stays_settled now t r'" if "t' = snd (restamp cs rid (map (\<lambda>r. if ec_id r = rid \<and>
      ec_decision r \<in> {DECISION_ALLOWED, DECISION_DENIED} then revoke_row at_time actor r else r) t))"
    by (rule stays_settled_update [OF _ assms(2)], unfold that, rule untag_restamp)
      (auto simp: revoke_row_def settled_defs)
  with revoked assms(2) stays_settled_refl show ?thesis
    by (simp add: revoke_def update_where_def Let_def split: if_splits)
next
  case (expired at_time rid)
  have "stays_settled now t r'" if "t' = snd (restamp cs rid (map (\<lambda>r. if ec_id r = rid \<and>
      ec_decision r = DECISION_PENDING then expire_row at_time r else r) t))"
    by (rule stays_settled_update [OF _ assms(2)], unfold that, rule untag_restamp)
      (auto simp: expire_row_def settled_defs)
  with expired assms(2) stays_settled_refl show ?thesis
    by (simp add: expire_pending_def update_where_def Let_def split: if_splits)
next
  case (reaped at_time)
  show ?thesis
    by (rule stays_settled_update [OF _ assms(2)], unfold reaped, rule untag_expire_all)
      (auto simp: expire_orphan_def settled_defs)
next
  case (offboarded uid)
  then have "t' = restamp_rows cs (consent_rows_for_actor uid t) (map (null_actor uid) t)"
    by (simp add: delete_user_rows_def Let_def split: if_splits)
  then have "map untag t' = map untag (map (null_actor uid) t)" by (simp only: untag_restamps)
  then show ?thesis
    by (rule stays_settled_update [OF _ assms(2)]) (auto simp: null_actor_def settled_defs)
next
  case (capped cap at_time)
  then show ?thesis using assms(2) prune_row_cap_filter [of cap at_time t] stays_settled_refl [of r' t] by auto
qed (use assms(2) stays_settled_refl in
    \<open>auto simp: clear_tilrestart_duration_def prune_retention_eq Let_def\<close>)


lemma table_steps_settled:
  assumes "rtranclp (table_step cs used) t t'"
    and "\<And>r. r \<in> set t \<Longrightarrow> ec_id r \<in> D \<Longrightarrow> settled now r" "D \<subseteq> used"
    and "r' \<in> set t'" "ec_id r' \<in> D"
  shows "settled now r'"
  using assms(1,4,5)
proof (induction arbitrary: r' rule: rtranclp_induct)
  case (step t1 t2)
  then have "stays_settled now t1 r'" using table_step_settled [OF step.hyps(2)] assms(3) by blast
  then obtain r where "r \<in> set t1" "ec_id r = ec_id r'" "settled now r \<longrightarrow> settled now r'"
    by (auto simp: stays_settled_def)
  with step show ?case by simp
qed (use assms(2) in blast)

text \<open>Once a row is decided it is not pending any more, so a second decision or an expiry does nothing.\<close>

lemma restamp_not_pending:
  assumes "\<And>r. r \<in> set t \<Longrightarrow> ec_id r = rid \<Longrightarrow> ec_decision r \<noteq> DECISION_PENDING"
  shows "filter (\<lambda>r. ec_id r = rid \<and> ec_decision r = DECISION_PENDING) (snd (restamp cs rid t)) = []"
proof -
  have "\<not> (ec_id r = rid \<and> ec_decision r = DECISION_PENDING)" if r: "r \<in> set (snd (restamp cs rid t))" for r
  proof -
    obtain q where "q \<in> set t" "untag q = untag r" using untag_origin [OF untag_restamp r] by blast
    then show ?thesis using assms [of q] by (metis untag_simps(1,2))
  qed
  then show ?thesis by (simp add: filter_empty_conv)
qed

text \<open>The first match of a sorted list has the least key among the matches.\<close>

lemma find_sorted_least:
  assumes "find P (sort_key k xs) = Some x"
  shows "x \<in> set xs \<and> P x \<and> (\<forall>y \<in> set xs. P y \<longrightarrow> k x \<le> k y)"
proof -
  obtain i where i: "i < length (sort_key k xs)" "P (sort_key k xs ! i)" "x = sort_key k xs ! i"
    "\<forall>j < i. \<not> P (sort_key k xs ! j)"
    using assms by (auto simp: find_Some_iff)
  have "k x \<le> k y" if y: "y \<in> set xs" "P y" for y
  proof -
    obtain j where j: "j < length (sort_key k xs)" "y = sort_key k xs ! j"
      using y(1) by (metis in_set_conv_nth set_sort)
    then have "i \<le> j" using i(4) y(2) by (meson not_le)
    then show ?thesis using sorted_sort_key [of k xs] i j by (simp add: sorted_iff_nth_mono)
  qed
  moreover have "x \<in> set xs" using i by (metis nth_mem set_sort)
  ultimately show ?thesis using i by blast
qed


section \<open>Properties\<close>

interpretation table_run: step_invariant "table_step cs {}" "\<lambda>t. t = []" "table_ok cs" for cs
  by unfold_locales (simp add: table_ok_def indexes_ok_def stamped_def, rule table_step_ok)


definition example_settings :: consent_settings where
  "example_settings =
     \<lparr>audit = \<lparr>audit_hmac_key = None, sha256_hmac = (\<lambda>_ _. [])\<rparr>, float_str = (\<lambda>_. ''0.0''),
      egress_consent_retention_days = 30, egress_consent_row_cap = 100\<rparr>"

definition example_pending :: ec_table where
  "example_pending = snd (create_request example_settings 10 ''r1'' ''w1'' ''h.org'' (Some 443) None None [])"

definition example_denied :: ec_table where
  "example_denied =
     (case decide example_settings 11 ''r1'' DECISION_DENIED ''u1'' DURATION_FOREVER example_pending of
        Inl _ \<Rightarrow> [] | Inr (_, t) \<Rightarrow> t)"

lemma example_settings_tag [simp]: "row_tag example_settings r = None"
  by (simp add: row_tag_None example_settings_def resolve_audit_hmac_key_def)

lemmas table_eval =
  create_request_def decide_def revoke_def expire_pending_def update_where_def insert_or_ignore_def
  conflicts_def is_pending_def is_static_def dedup_key_def restamp_def select_row_def stamp_hmac_def
  pending_row_def decide_row_def DURATIONS_def

lemma example_pending_eq:
  "example_pending = [pending_row ''r1'' ''w1'' ''h.org'' (Some 443) None None 10]"
  by (simp add: example_pending_def table_eval)

lemma example_denied_eq:
  "example_denied =
     [decide_row DECISION_DENIED DURATION_FOREVER 11 ''u1'' (pending_row ''r1'' ''w1'' ''h.org'' (Some 443) None None 10)]"
  by (simp add: example_denied_def example_pending_eq table_eval)

lemma example_decide_step:
  "decide example_settings 11 ''r1'' DECISION_DENIED ''u1'' DURATION_FOREVER example_pending =
     Inr (Some (hd example_denied), example_denied)"
  by (simp add: example_pending_eq example_denied_eq table_eval)




text \<open>
  The first decision wins. Once a decision on a pending request has been recorded, a second
  decision on it, of any kind, and its time-out expiry find nothing pending: they change no row.
\<close>

theorem first_decision_wins:
  assumes "decide cs now rid d actor dur t = Inr (Some r, t')"
  shows "(case decide cs now' rid d' actor' dur' t' of
            Inl _ \<Rightarrow> d' \<notin> {DECISION_ALLOWED, DECISION_DENIED} \<or> dur' \<notin> set DURATIONS
          | Inr (res, t'') \<Rightarrow> res = None \<and> t'' = t') \<and>
    expire_pending cs now' rid t' = (False, t')"
proof -
  have d: "d \<noteq> DECISION_PENDING"
    using assms by (auto simp: decide_def split: if_splits)
  have t': "t' = snd (restamp cs rid (map (\<lambda>r. if ec_id r = rid \<and> ec_decision r = DECISION_PENDING
      then decide_row d dur now actor r else r) t))"
    using assms by (simp add: decide_def update_where_def Let_def split: if_splits)
  have "filter (\<lambda>r. ec_id r = rid \<and> ec_decision r = DECISION_PENDING) t' = []"
    unfolding t'
  proof (rule restamp_not_pending, unfold set_map, elim imageE)
    fix r q
    assume "r = (if ec_id q = rid \<and> ec_decision q = DECISION_PENDING then decide_row d dur now actor q else q)"
      "ec_id r = rid"
    then show "ec_decision r \<noteq> DECISION_PENDING"
      using d by (cases "ec_id q = rid \<and> ec_decision q = DECISION_PENDING") (auto simp: decide_row_def)
  qed
  then show ?thesis by (simp add: decide_def expire_pending_def update_where_def)
qed

theorem first_decision_wins_witness:
  "decide example_settings 12 ''r1'' DECISION_ALLOWED ''u2'' DURATION_FOREVER example_denied = Inr (None, example_denied) \<and>
   expire_pending example_settings 12 ''r1'' example_denied = (False, example_denied)"
  using first_decision_wins [OF example_decide_step, where now' = 12 and d' = DECISION_ALLOWED and actor' = "''u2''" and
      dur' = DURATION_FOREVER]
  by (auto simp: DURATIONS_def split: sum.splits)

text \<open>
  \<open>active_verdict_for\<close> answers with the newest human verdict on exactly this workspace, host and
  port that is still in effect, and with nothing only when there is none: an elapsed newer verdict
  never hides an older one in effect.
\<close>

theorem active_verdict_is_newest_effective:
  "(case active_verdict_for now ws host port t of
      Some r \<Rightarrow> r \<in> set t \<and> (ec_ws r, ec_host r, ec_port r) = (ws, host, port) \<and> \<not> prune_eligible now r \<and>
        (\<exists>since. ec_decided_at r = Some since \<and>
          (\<forall>q \<in> set t. (ec_ws q, ec_host q, ec_port q) = (ws, host, port) \<and> \<not> prune_eligible now q \<longrightarrow>
            (\<exists>s. ec_decided_at q = Some s \<and> s \<le> since)))
    | None \<Rightarrow> (\<forall>q \<in> set t. (ec_ws q, ec_host q, ec_port q) = (ws, host, port) \<longrightarrow> prune_eligible now q))"
proof (cases "active_verdict_for now ws host port t")
  case None
  then have "prune_eligible now q" if "q \<in> set t" "(ec_ws q, ec_host q, ec_port q) = (ws, host, port)" for q
    using that by (auto simp: active_verdict_for_def find_None_iff prune_eligible_def)
  with None show ?thesis by simp
next
  case (Some r)
  let ?match = "\<lambda>r. ec_ws r = ws \<and> ec_host r = host \<and> ec_port r = port \<and>
      ec_decision r \<in> {DECISION_ALLOWED, DECISION_DENIED} \<and> ec_decided_by r \<noteq> None"
  have least: "r \<in> set (filter ?match t) \<and> duration_in_effect (ec_duration r) (ec_decided_at r) now \<and>
      (\<forall>q \<in> set (filter ?match t). duration_in_effect (ec_duration q) (ec_decided_at q) now \<longrightarrow>
         desc_key (ec_decided_at r) \<le> desc_key (ec_decided_at q))"
    using Some unfolding active_verdict_for_def by (rule find_sorted_least)
  then obtain since where since: "ec_decided_at r = Some since"
    by (cases "ec_decided_at r") (auto simp: duration_in_effect_def)
  have "ec_ws q = ws \<Longrightarrow> ec_host q = host \<Longrightarrow> ec_port q = port \<Longrightarrow> \<not> prune_eligible now q \<Longrightarrow>
      \<exists>s. ec_decided_at q = Some s \<and> s \<le> since" if "q \<in> set t" for q
    using that least since
    by (cases "ec_decided_at q") (auto simp: prune_eligible_def duration_in_effect_def desc_key_def split: if_splits)
  with Some least since show ?thesis
    by (auto simp: prune_eligible_def)
qed

theorem active_verdict_is_newest_effective_witness:
  "(\<exists>r. active_verdict_for 2000 ''w1'' ''h.org'' (Some 443) example_denied = Some r \<and>
      ec_decision r = DECISION_DENIED) \<and>
   active_verdict_for 2000 ''w1'' ''h.org'' (Some 443) example_pending = None \<and>
   list_all (prune_eligible 2000) example_pending"
proof -
  have none: "active_verdict_for 2000 ''w1'' ''h.org'' (Some 443) example_pending = None"
    by (simp add: active_verdict_for_def example_pending_eq pending_row_def)
  have "active_verdict_for 2000 ''w1'' ''h.org'' (Some 443) example_denied = Some (hd example_denied)"
    by (simp add: active_verdict_for_def example_denied_eq decide_row_def pending_row_def duration_in_effect_def)
  moreover have "ec_decision (hd example_denied) = DECISION_DENIED"
    by (simp add: example_denied_eq decide_row_def)
  ultimately show ?thesis
    using active_verdict_is_newest_effective [where now = 2000 and ws = "''w1''" and host = "''h.org''" and
      port = "Some 443" and t = example_pending] none
    by (simp add: example_pending_eq pending_row_def)
qed

definition example_twice :: "consent_settings \<Rightarrow> ec_table" where
  "example_twice cs =
     (let step = (\<lambda>(rid, now) t.
            (case decide cs (now + 1) rid DECISION_DENIED ''u1'' DURATION_ONCE
               (snd (create_request cs now rid ''w1'' ''h.org'' (Some 443) None None t)) of
               Inl _ \<Rightarrow> t | Inr (_, t') \<Rightarrow> t'))
      in fold step [(''r1'', 10), (''r2'', 20)] [])"

text \<open>
  Deleting a user fails when the user denied one destination twice: the foreign key sets
  \<open>decided_by\<close> of both rows to NULL, which puts two rows with one key into the unique index of static
  denials. Such a table is built by two ordinary \<open>once\<close> denials.
\<close>

theorem offboarding_refused:
  "rtranclp (table_step example_settings {}) [] (example_twice example_settings) \<and>
   delete_user_rows example_settings ''u1'' (example_twice example_settings) = None"
proof -
  define t1 where "t1 = snd (create_request example_settings 10 ''r1'' ''w1'' ''h.org'' (Some 443) None None [])"
  define t2 where "t2 = map (decide_row DECISION_DENIED DURATION_ONCE 11 ''u1'') t1"
  define t3 where "t3 = snd (create_request example_settings 20 ''r2'' ''w1'' ''h.org'' (Some 443) None None t2)"
  define t4 where "t4 = t2 @ map (decide_row DECISION_DENIED DURATION_ONCE 21 ''u1'') (tl t3)"
  have t1: "t1 = [pending_row ''r1'' ''w1'' ''h.org'' (Some 443) None None 10]"
    by (simp add: t1_def table_eval)
  then have t3: "t3 = t2 @ [pending_row ''r2'' ''w1'' ''h.org'' (Some 443) None None 20]"
    by (simp add: t3_def t2_def table_eval)
  have d2: "decide example_settings 11 ''r1'' DECISION_DENIED ''u1'' DURATION_ONCE t1 = Inr (Some (hd t2), t2)"
    by (simp add: t1 t2_def table_eval)
  have d4: "decide example_settings 21 ''r2'' DECISION_DENIED ''u1'' DURATION_ONCE t3 = Inr (Some (last t4), t4)"
    by (simp add: t1 t2_def t3 t4_def table_eval)
  have twice: "example_twice example_settings = t4"
    using d2 d4 by (simp add: example_twice_def t1_def [symmetric] t3_def [symmetric])
  have "table_step example_settings {} [] t1" unfolding t1_def by (rule created) simp
  moreover have "table_step example_settings {} t1 t2" by (rule decided [OF d2])
  moreover have "table_step example_settings {} t2 t3" unfolding t3_def by (rule created) simp
  moreover have "table_step example_settings {} t3 t4" by (rule decided [OF d4])
  ultimately have "rtranclp (table_step example_settings {}) [] t4"
    by (meson rtranclp.rtrancl_refl rtranclp.rtrancl_into_rtrancl)
  moreover have "delete_user_rows example_settings ''u1'' t4 = None"
    by (simp add: delete_user_rows_def indexes_ok_def null_actor_def t1 t2_def t3 t4_def decide_row_def
        pending_row_def is_static_def is_pending_def dedup_key_def)
  ultimately show ?thesis by (simp add: twice)
qed

end
