(* ===== verification/Domain_Lists.thy ===== *)
theory Domain_Lists
  imports Netfilter
begin

text \<open>
  The workspace row of \<open>klangk/model/workspaces.py\<close>, as far as egress consent uses it, and the
  compare-and-swap mutation of its two domain lists. A list column is modelled by the decoded list
  (NULL and the empty list are one value); what other writers commit between the read and the
  conditional write of an attempt is an argument, a function on the table for each attempt.
\<close>

section \<open>Workspace rows\<close>

abbreviation "EGRESS_MODE_ALLOW \<equiv> ''allow''"
abbreviation "EGRESS_MODE_INTERACTIVE \<equiv> ''interactive''"

record workspace =
  egress_mode :: string
  consent_paused_until :: "real option"
  allowed_domains :: "string list"
  rejected_domains :: "string list"

type_synonym workspaces = "(string, workspace) dict"

definition get_workspace :: "string \<Rightarrow> workspaces \<Rightarrow> workspace option" where
  "get_workspace workspace_id d = map_of d workspace_id"

definition set_consent_pause :: "string \<Rightarrow> real option \<Rightarrow> workspaces \<Rightarrow> bool \<times> workspaces" where
  "set_consent_pause workspace_id until d =
     (case map_of d workspace_id of
        None \<Rightarrow> (False, d)
      | Some w \<Rightarrow> (True, AList.update workspace_id (w\<lparr>consent_paused_until := until\<rparr>) d))"


section \<open>Mutating a list\<close>

definition domain_entry_index :: "string list \<Rightarrow> string \<Rightarrow> nat option" where
  "domain_entry_index current spec =
     find (\<lambda>i. lower (current ! i) = spec) [0..<length current]"

definition add_domain_entry :: "string list \<Rightarrow> string \<Rightarrow> bool \<times> string list" where
  "add_domain_entry current spec =
     (if domain_entry_index current spec \<noteq> None then (True, current) else (False, current @ [spec]))"

definition remove_domain_entry :: "string list \<Rightarrow> string \<Rightarrow> bool \<times> string list" where
  "remove_domain_entry current spec =
     (case domain_entry_index current spec of
        None \<Rightarrow> (True, current)
      | Some idx \<Rightarrow> (False, take idx current @ drop (Suc idx) current))"

definition mutate_domain_entries :: "string list \<Rightarrow> string \<Rightarrow> bool \<Rightarrow> bool \<times> string list" where
  "mutate_domain_entries current spec add =
     (if add then add_domain_entry current spec else remove_domain_entry current spec)"

definition normalize_domain_entry :: "string \<Rightarrow> string option" where
  "normalize_domain_entry entry =
     (case parse_allowed_domains [entry] of
        Inl _ \<Rightarrow> None
      | Inr [] \<Rightarrow> None
      | Inr (spec # _) \<Rightarrow> Some (lower spec))"

datatype domain_column = AllowedDomains | RejectedDomains

fun column_of :: "domain_column \<Rightarrow> workspace \<Rightarrow> string list" where
  "column_of AllowedDomains w = allowed_domains w"
| "column_of RejectedDomains w = rejected_domains w"

fun set_column :: "domain_column \<Rightarrow> string list \<Rightarrow> workspace \<Rightarrow> workspace" where
  "set_column AllowedDomains xs w = w\<lparr>allowed_domains := xs\<rparr>"
| "set_column RejectedDomains xs w = w\<lparr>rejected_domains := xs\<rparr>"

datatype cas_outcome = Domain_Missing | Reached | Contended

definition domain_cas_attempt ::
  "(workspaces \<Rightarrow> workspaces) \<Rightarrow> string \<Rightarrow> domain_column \<Rightarrow> string \<Rightarrow> bool \<Rightarrow> workspaces \<Rightarrow>
     cas_outcome \<times> workspaces" where
  "domain_cas_attempt others workspace_id column spec add d =
     (case map_of d workspace_id of
        None \<Rightarrow> (Domain_Missing, d)
      | Some w \<Rightarrow>
          (let old_blob = column_of column w; (noop, current) = mutate_domain_entries old_blob spec add
           in if noop then (Reached, d)
              else let d = others d
                   in case map_of d workspace_id of
                        None \<Rightarrow> (Contended, d)
                      | Some w \<Rightarrow>
                          (if column_of column w = old_blob
                           then (Reached, AList.update workspace_id (set_column column current w) d)
                           else (Contended, d))))"

text \<open>The retry loop: one element of the list per attempt.\<close>

fun cas_loop ::
  "(workspaces \<Rightarrow> workspaces) list \<Rightarrow> string \<Rightarrow> domain_column \<Rightarrow> string \<Rightarrow> bool \<Rightarrow> workspaces \<Rightarrow>
     bool \<times> workspaces" where
  "cas_loop [] workspace_id column spec add d = (False, d)"
| "cas_loop (others # rest) workspace_id column spec add d =
     (case domain_cas_attempt others workspace_id column spec add d of
        (Domain_Missing, d) \<Rightarrow> (False, d)
      | (Reached, d) \<Rightarrow> (True, d)
      | (Contended, d) \<Rightarrow> cas_loop rest workspace_id column spec add d)"

definition SETTINGS_CAS_RETRIES :: nat where "SETTINGS_CAS_RETRIES = 8"

definition mutate_domain_list ::
  "(nat \<Rightarrow> workspaces \<Rightarrow> workspaces) \<Rightarrow> string \<Rightarrow> domain_column \<Rightarrow> bool \<Rightarrow> string \<Rightarrow> workspaces \<Rightarrow>
     bool \<times> workspaces" where
  "mutate_domain_list others workspace_id column add entry d =
     (case normalize_domain_entry entry of
        None \<Rightarrow> (False, d)
      | Some spec \<Rightarrow> cas_loop (map others [0..<SETTINGS_CAS_RETRIES]) workspace_id column spec add d)"

definition add_allowed_domain ::
  "(nat \<Rightarrow> workspaces \<Rightarrow> workspaces) \<Rightarrow> string \<Rightarrow> string \<Rightarrow> workspaces \<Rightarrow> bool \<times> workspaces" where
  "add_allowed_domain others workspace_id entry d =
     mutate_domain_list others workspace_id AllowedDomains True entry d"

definition add_rejected_domain ::
  "(nat \<Rightarrow> workspaces \<Rightarrow> workspaces) \<Rightarrow> string \<Rightarrow> string \<Rightarrow> workspaces \<Rightarrow> bool \<times> workspaces" where
  "add_rejected_domain others workspace_id entry d =
     mutate_domain_list others workspace_id RejectedDomains True entry d"

definition remove_allowed_domain ::
  "(nat \<Rightarrow> workspaces \<Rightarrow> workspaces) \<Rightarrow> string \<Rightarrow> string \<Rightarrow> workspaces \<Rightarrow> bool \<times> workspaces" where
  "remove_allowed_domain others workspace_id entry d =
     mutate_domain_list others workspace_id AllowedDomains False entry d"

definition remove_rejected_domain ::
  "(nat \<Rightarrow> workspaces \<Rightarrow> workspaces) \<Rightarrow> string \<Rightarrow> string \<Rightarrow> workspaces \<Rightarrow> bool \<times> workspaces" where
  "remove_rejected_domain others workspace_id entry d =
     mutate_domain_list others workspace_id RejectedDomains False entry d"


section \<open>Lemmas\<close>

text \<open>Membership up to case, which is how the lists are read.\<close>

definition listed :: "string \<Rightarrow> string list \<Rightarrow> bool" where
  "listed spec xs \<longleftrightarrow> spec \<in> lower ` set xs"

text \<open>What the index-based mutations compute: append when absent, delete the first match.\<close>

fun without_first :: "string \<Rightarrow> string list \<Rightarrow> string list" where
  "without_first spec [] = []"
| "without_first spec (x # xs) = (if lower x = spec then xs else x # without_first spec xs)"

definition mutated :: "bool \<Rightarrow> string \<Rightarrow> string list \<Rightarrow> string list" where
  "mutated add spec xs =
     (if add then (if listed spec xs then xs else xs @ [spec]) else without_first spec xs)"

lemma domain_entry_index_Nil [simp]: "domain_entry_index [] spec = None"
  by (simp add: domain_entry_index_def)

lemma domain_entry_index_Cons [simp]:
  "domain_entry_index (x # xs) spec =
     (if lower x = spec then Some 0 else map_option Suc (domain_entry_index xs spec))"
proof -
  have find_map: "find P (map f ys) = map_option f (find (P \<circ> f) ys)" for P f and ys :: "nat list"
    by (induction ys) auto
  have "[0..<length (x # xs)] = 0 # map Suc [0..<length xs]" by (simp add: map_Suc_upt upt_conv_Cons del: upt_Suc)
  then show ?thesis by (simp add: domain_entry_index_def find_map o_def del: upt_Suc)
qed

lemma domain_entry_index_None: "domain_entry_index xs spec = None \<longleftrightarrow> \<not> listed spec xs"
  by (induction xs) (auto simp: listed_def)

lemma remove_domain_entry_eq: "remove_domain_entry xs spec = (\<not> listed spec xs, without_first spec xs)"
proof (induction xs)
  case (Cons x xs)
  then show ?case
    by (auto simp: remove_domain_entry_def listed_def split: option.splits if_splits)
qed (simp add: remove_domain_entry_def listed_def)

lemma mutate_domain_entries_eq:
  "mutate_domain_entries xs spec add = (listed spec xs = add, mutated add spec xs)"
  by (simp add: mutate_domain_entries_def remove_domain_entry_eq add_domain_entry_def mutated_def
      domain_entry_index_None)

lemma without_first_absent: "\<not> listed spec xs \<Longrightarrow> without_first spec xs = xs"
  by (induction xs) (auto simp: listed_def)

lemma mutated_noop: "listed spec xs = add \<Longrightarrow> mutated add spec xs = xs"
  by (auto simp: mutated_def without_first_absent)

lemma set_column_get [simp]: "column_of c (set_column c xs w) = xs"
  by (cases c) simp_all

lemma set_column_same [simp]: "set_column c (column_of c w) w = w"
  by (cases c) simp_all

text \<open>The tables an attempt may find: the one it started with, changed by the other writers.\<close>

inductive interleaved :: "(workspaces \<Rightarrow> workspaces) list \<Rightarrow> workspaces \<Rightarrow> workspaces \<Rightarrow> bool" where
  none: "interleaved others d d"
| some: "interleaved others (w d) d' \<Longrightarrow> interleaved (w # others) d d'"

lemma domain_cas_attempt_eq:
  "domain_cas_attempt others ws c spec add d =
     (case map_of d ws of
        None \<Rightarrow> (Domain_Missing, d)
      | Some w \<Rightarrow>
          (if listed spec (column_of c w) = add then (Reached, d)
           else case map_of (others d) ws of
             None \<Rightarrow> (Contended, others d)
           | Some w' \<Rightarrow>
               (if column_of c w' = column_of c w
                then (Reached, AList.update ws (set_column c (mutated add spec (column_of c w)) w') (others d))
                else (Contended, others d))))"
  by (simp add: domain_cas_attempt_def mutate_domain_entries_eq Let_def split: option.splits)

lemma cas_loop_reached:
  assumes "cas_loop others ws c spec add d = (True, d')"
  shows "\<exists>d0 w. interleaved others d d0 \<and> map_of d0 ws = Some w \<and>
    map_of d' = (map_of d0)(ws \<mapsto> set_column c (mutated add spec (column_of c w)) w)"
  using assms
proof (induction others arbitrary: d)
  case (Cons other others)
  obtain w where w: "map_of d ws = Some w"
    using Cons.prems by (cases "map_of d ws") (simp_all add: domain_cas_attempt_eq)
  consider (noop) "listed spec (column_of c w) = add"
    | (won) w' where "listed spec (column_of c w) \<noteq> add" "map_of (other d) ws = Some w'" "column_of c w' = column_of c w"
    | (lost) "domain_cas_attempt other ws c spec add d = (Contended, other d)"
    using w by (cases "map_of (other d) ws"; cases "listed spec (column_of c w) = add";
        cases "map_option (column_of c) (map_of (other d) ws) = Some (column_of c w)")
      (simp_all add: domain_cas_attempt_eq)
  then show ?case
  proof cases
    case noop
    then have "d' = d" using Cons.prems w by (simp add: domain_cas_attempt_eq)
    with noop w none show ?thesis
      by (intro exI [of _ d] exI [of _ w]) (simp add: mutated_noop map_upd_triv)
  next
    case won
    then have "d' = AList.update ws (set_column c (mutated add spec (column_of c w')) w') (other d)"
      using Cons.prems w by (simp add: domain_cas_attempt_eq)
    then show ?thesis
      using won interleaved.some [OF none]
      by (intro exI [of _ "other d"] exI [of _ w']) (simp add: update_conv')
  next
    case lost
    with Cons.prems have "cas_loop others ws c spec add (other d) = (True, d')" by simp
    from Cons.IH [OF this] show ?thesis using interleaved.some by blast
  qed
qed simp


section \<open>Properties\<close>

text \<open>
  (C38) A domain-list mutation that reports success loses no concurrent write. There is a table that
  the other writers built, starting from the one the mutation found, and the mutation left exactly
  that table with its own change applied to its list: the normalized entry appended when no entry
  equals it up to case, or the first such entry deleted. Nothing else in the row or in other rows
  changes, and after an addition the entry is listed.
\<close>

theorem domain_cas_no_lost_update:
  assumes "mutate_domain_list others ws c add entry d = (True, d')"
  shows "\<exists>spec d0 w. normalize_domain_entry entry = Some spec \<and>
    interleaved (map others [0..<SETTINGS_CAS_RETRIES]) d d0 \<and> map_of d0 ws = Some w \<and>
    map_of d' = (map_of d0)(ws \<mapsto> set_column c (mutated add spec (column_of c w)) w) \<and>
    (add \<longrightarrow> listed (lower spec) (mutated add spec (column_of c w)))"
proof -
  obtain spec where spec: "normalize_domain_entry entry = Some spec"
    and loop: "cas_loop (map others [0..<SETTINGS_CAS_RETRIES]) ws c spec add d = (True, d')"
    using assms by (auto simp: mutate_domain_list_def split: option.splits)
  have "lower spec = spec"
    using spec by (auto simp: normalize_domain_entry_def split: sum.splits list.splits)
  then have "add \<longrightarrow> listed (lower spec) (mutated add spec xs)" for xs
    by (auto simp: mutated_def listed_def)
  with spec cas_loop_reached [OF loop] show ?thesis by blast
qed

definition example_workspaces :: workspaces where
  "example_workspaces =
     [(''w1'', \<lparr>egress_mode = EGRESS_MODE_INTERACTIVE, consent_paused_until = None,
        allowed_domains = [''A.org:443'', ''a.org:443''], rejected_domains = []\<rparr>)]"

lemma normalize_valid:
  "valid_domain_spec entry \<Longrightarrow> strip entry = entry \<Longrightarrow> normalize_domain_entry entry = Some (lower entry)"
  by (cases "entry = []")
    (simp_all add: normalize_domain_entry_def parse_allowed_domains_def add_valid_spec_def valid_domain_spec_def [of "[]"])

lemma normalize_example: "normalize_domain_entry ''a.org:443'' = Some ''a.org:443''"
proof -
  have "valid_domain_spec ''a.org:443''"
    by (simp add: valid_domain_spec_def has_no_whitespace_def strip_host_sigil_def valid_host_port_def
        DOMAIN_RE_match_def host_grammar_def domain_char_def alnum_char_def valid_spec_port_def
        is_port_digits_def py_str_simps int_of_digits_def Let_def)
  moreover have "strip ''a.org:443'' = ''a.org:443''" "lower ''a.org:443'' = ''a.org:443''"
    by (simp_all add: py_str_simps)
  ultimately show ?thesis using normalize_valid by metis
qed

lemma example_remove:
  "mutate_domain_list (\<lambda>_ d. d) ''w1'' AllowedDomains False ''a.org:443'' example_workspaces =
     (True, AList.update ''w1'' (set_column AllowedDomains [''a.org:443''] (the (map_of example_workspaces ''w1'')))
       example_workspaces)"
  by (simp add: mutate_domain_list_def normalize_example SETTINGS_CAS_RETRIES_def upt_rec [of 0]
      domain_cas_attempt_eq example_workspaces_def listed_def mutated_def lower_def lower_char_def py_eval)

theorem domain_cas_no_lost_update_witness:
  "\<exists>d'. mutate_domain_list (\<lambda>_ d. d) ''w1'' AllowedDomains False ''a.org:443'' example_workspaces = (True, d') \<and>
     (\<exists>spec d0 w. normalize_domain_entry ''a.org:443'' = Some spec \<and>
       interleaved (map (\<lambda>_ d. d) [0..<SETTINGS_CAS_RETRIES]) example_workspaces d0 \<and> map_of d0 ''w1'' = Some w \<and>
       map_of d' = (map_of d0)(''w1'' \<mapsto>
         set_column AllowedDomains (mutated False spec (column_of AllowedDomains w)) w))"
  using example_remove domain_cas_no_lost_update [OF example_remove] by blast

text \<open>
  Removing an entry deletes only the first entry equal to it up to case, so a list that holds
  two spellings of one entry (which \<open>parse_allowed_domains\<close> accepts: it drops exact duplicates only)
  still lists the entry after a removal that reports success.
\<close>

theorem removal_keeps_second_spelling:
  "\<exists>d' w'. remove_allowed_domain (\<lambda>_ d. d) ''w1'' ''a.org:443'' example_workspaces = (True, d') \<and>
     map_of d' ''w1'' = Some w' \<and> listed ''a.org:443'' (allowed_domains w')"
proof -
  have "listed ''a.org:443'' [''a.org:443'']" by (simp add: listed_def lower_def lower_char_def)
  then show ?thesis
    using example_remove unfolding remove_allowed_domain_def
    by (auto simp: dict_simps)
qed


section \<open>From the stored list to the sidecar\<close>

lemma valid_host_entry:
  assumes "host_grammar h" "n \<le> 65535"
  shows "valid_domain_spec (h @ '':'' @ str_nat n)" "CHR ''/'' \<notin> set (h @ '':'' @ str_nat n)"
proof -
  let ?e = "h @ '':'' @ str_nat n"
  have clean: "\<not> isspace_char c \<and> c \<noteq> CHR '':'' \<and> c \<noteq> CHR ''/''" if "domain_char c" for c
    using domain_char_lower [OF that] that by (auto simp: isspace_char_def domain_char_def alnum_char_def Let_def)
  have h: "h \<noteq> []" "alnum_char (hd h)" "list_all domain_char h" using assms(1) by (auto simp: host_grammar_def)
  have digits: "list_all ascii_digit (str_nat n)" using str_nat_digits by (auto simp: list_all_iff)
  have len: "length (str_nat n) \<le> 5" using length_str_nat [of n 4] assms(2) by simp
  show slash: "CHR ''/'' \<notin> set ?e" using h(3) clean by (auto simp: list_all_iff)
  have space: "has_no_whitespace ?e"
    using h(3) clean digits ascii_digit_not_space
    by (auto simp: has_no_whitespace_def list_ex_iff list_all_iff isspace_char_def)
  have "c \<noteq> CHR ''.'' \<and> c \<noteq> CHR ''*''" if "alnum_char c" for c using alnum_char_lower [OF that] by simp
  then have sig: "strip_host_sigil ?e = ?e"
    using h(1,2) by (cases h) (auto simp: strip_host_sigil_def startswith_def)
  have colon: "CHR '':'' \<notin> set h" using h(3) clean by (auto simp: list_all_iff)
  then have tw: "takeWhile (\<lambda>c. c \<noteq> CHR '':'') ?e = h" "dropWhile (\<lambda>c. c \<noteq> CHR '':'') ?e = '':'' @ str_nat n"
    by (subst takeWhile_append2 dropWhile_append2; auto)+
  have "CHR '':'' \<notin> set (str_nat n)" by simp
  from rsplit1_snoc [OF this, of h] have "snd (rsplit1 CHR '':'' ?e) = str_nat n" by simp
  then have "valid_host_port ?e"
    using tw assms digits len str_nat_not_Nil [of n]
    by (auto simp: valid_host_port_def DOMAIN_RE_match_def valid_spec_port_def Let_def Suc_le_eq)
  with slash space sig h(1) show "valid_domain_spec ?e" by (simp add: valid_domain_spec_def)
qed

lemma lower_fixed [simp]:
  "lower_char CHR '':'' = CHR '':''" "lower_char CHR ''/'' = CHR ''/''" "lower_char CHR ''.'' = CHR ''.''"
  "lower_char CHR ''*'' = CHR ''*''"
  by (simp_all add: lower_char_def)

lemma lower_digits: "list_all ascii_digit ds \<Longrightarrow> lower ds = ds"
  by (induction ds) (auto simp: lower_def ascii_digit_def intro: lower_char_fix)

lemma append_colon_inject:
  assumes "h @ c # ds = h' @ c # (ds' :: string)" "c \<notin> set ds" "c \<notin> set ds'"
  shows "h = h' \<and> ds = ds'"
  using rsplit1_snoc [OF assms(2), of h] rsplit1_snoc [OF assms(3), of h'] assms(1) by (metis Pair_inject)

lemma parse_spelling:
  assumes "valid_domain_spec e" "lower e = h @ '':'' @ str_nat n" "host_grammar h"
  shows "parse_one_spec e = Some (h, Some n, EXACT)"
proof -
  have clean: "c \<noteq> CHR '':'' \<and> c \<noteq> CHR ''/''" if "domain_char c" for c
    using domain_char_lower [OF that] by simp
  have h: "h \<noteq> []" "alnum_char (hd h)" "list_all domain_char h" using assms(3) by (auto simp: host_grammar_def)
  have "CHR ''/'' \<notin> set (lower e)" unfolding assms(2) using h(3) clean by (auto simp: list_all_iff)
  then have slash: "CHR ''/'' \<notin> set e" using lower_fixed(2) unfolding lower_def by (force simp: image_iff)
  have sig: "strip_host_sigil e = e"
  proof -
    have "hd (lower e) = hd h" using h(1) by (simp add: assms(2))
    moreover have "e \<noteq> []" using assms(2) by auto
    ultimately have "lower_char (hd e) = hd h" by (simp add: lower_def hd_map)
    then have "hd e \<noteq> CHR ''.''" "hd e \<noteq> CHR ''*''" using alnum_char_lower [OF h(2)] by auto
    with \<open>e \<noteq> []\<close> show ?thesis by (cases e) (auto simp: strip_host_sigil_def startswith_def)
  qed
  have v: "valid_host_port e"
    using assms(1) slash sig by (auto simp: valid_domain_spec_def Let_def split: if_splits)
  then show ?thesis
  proof (cases rule: valid_host_portE)
    case NoPort
    then have "CHR '':'' \<notin> set (lower e)"
      using domain_char_lower(3) by (force simp: host_grammar_def list_all_iff lower_def)
    with assms(2) show ?thesis by simp
  next
    case (Port h1 ds)
    have ds: "CHR '':'' \<notin> set ds" using Port(5) ascii_digit_not_char(2) by (auto simp: list_all_iff)
    have "lower h1 @ CHR '':'' # ds = h @ CHR '':'' # str_nat n"
      using assms(2) lower_digits [OF Port(5)] unfolding Port(1) by (simp add: lower_def)
    from append_colon_inject [OF this ds] have eq: "lower h1 = h" "ds = str_nat n" by auto
    have "split_spec_port e = (h1, Some n)"
      using Port(3-5) rsplit1_snoc [OF ds, of h1] unfolding Port(1)
      by (simp add: split_spec_port_def isascii_isdigit_iff eq(2))
    moreover have "spec_scope (lower h1) = (h, EXACT)"
      using alnum_char_lower(3,4) [OF h(2)] h(1) unfolding eq(1)
      by (cases h) (auto simp: spec_scope_def startswith_def)
    moreover have "strip e = e" "e \<noteq> []" using strip_valid [OF assms(1)] by auto
    ultimately show ?thesis using slash h(1) by (simp add: parse_one_spec_def)
  qed
qed

lemma SPECS_of_list:
  assumes "\<And>spec. spec \<in> set specs \<Longrightarrow> valid_domain_spec spec" "e \<in> set specs" "parse_one_spec e = Some r"
    "env ''KLANGKNETWORK_EGRESS_ALLOW'' = Some (join_with CHR '','' specs)"
  shows "r \<in> set (SPECS env)"
proof -
  have "split_on CHR '','' (join_with CHR '','' specs) = specs"
    using assms(1,2) valid_spec_no_comma by (intro split_on_join) auto
  then have "SPECS env = map (the \<circ> parse_one_spec) (filter (\<lambda>x. parse_one_spec x \<noteq> None) specs)"
    using assms(4) by (simp add: SPECS_def parse_specs_def environ_get_def List.map_filter_def)
  moreover have "the (parse_one_spec e) \<in> set (map (the \<circ> parse_one_spec) (filter (\<lambda>x. parse_one_spec x \<noteq> None) specs))"
    unfolding set_map o_apply by (rule imageI) (use assms(2,3) in \<open>cases r; simp\<close>)
  ultimately show ?thesis using assms(3) by simp
qed

text \<open>A matching spec in force opens its port at the DNS gate.\<close>

lemma ports_for_opens:
  assumes "(h, Some n, EXACT) \<in> set specs"
  shows "case fst (ports_for specs t h sc) of None \<Rightarrow> True | Some ps \<Rightarrow> n \<in> set ps"
proof (cases "fst (ports_for specs t h sc)")
  case (Some ps)
  let ?specs = "specs @ map (\<lambda>(h, p, m, x). (h, p, m)) (SESSION_HOST_ALLOWS (prune_session_allows t sc))"
  have "ports_loop h [] ?specs = Some ps" using Some by (simp add: ports_for_def Let_def)
  from ports_loop_Some [OF this] have "n \<in> set ps" using assms by (force simp: host_matches_def)
  with Some show ?thesis by simp
qed simp

text \<open>Adding an entry with no other writer about.\<close>

lemma add_allowed_alone:
  assumes "map_of d ws = Some x" "valid_domain_spec e"
  shows "\<exists>x'. map_of (snd (add_allowed_domain (\<lambda>_ d. d) ws e d)) ws = Some x' \<and>
    listed (lower e) (allowed_domains x') \<and> set (allowed_domains x') \<subseteq> insert (lower e) (set (allowed_domains x))"
proof -
  have spec: "normalize_domain_entry e = Some (lower e)"
    using assms(2) strip_valid normalize_valid by blast
  have up: "[0..<SETTINGS_CAS_RETRIES] = 0 # [1..<SETTINGS_CAS_RETRIES]"
    by (simp add: SETTINGS_CAS_RETRIES_def upt_rec)
  show ?thesis
    using assms(1) unfolding add_allowed_domain_def mutate_domain_list_def spec option.case up
    by (auto simp: domain_cas_attempt_eq update_conv' mutated_def listed_def)
qed

end
