(* ===== verification/Coordinator.thy ===== *)
theory Coordinator
  imports Deciders Consent_Table Domain_Lists "HOL-Library.Multiset"
begin

text \<open>
  \<open>klangk/consent/coordinator.py\<close> (and \<open>workspace_opted_in\<close> of \<open>consent/egress.py\<close>): holding a blocked
  connection until a decider decides, the hold times out or the server stops. The state has the hold
  dictionary, the consent table, the workspace rows, the decider registry, the results of the futures,
  the live time-out tasks and the frames sent to deciders. Futures and tasks are numbered.

  A coroutine runs without interruption between two awaits; the operations below are those runs, and
  \<open>coord_step\<close> interleaves them. What the surroundings decide is the argument \<open>w\<close>: the clocks, whether
  each database call commits or raises, whether a send on a socket enqueues, the settings. An operation
  that awaits reads each part of the state once, so one record can stand for all its reads; the consent
  table, which \<open>hold\<close> and \<open>revoke\<close> read and write later, changes in between by \<open>meanwhile w\<close>, the
  transactions that other coroutines commit, and the workspace rows by \<open>writers w\<close>.
\<close>

section \<open>State\<close>

record relay_verdict =
  v_decision :: string
  v_reason :: string
  v_duration :: "string option"

abbreviation "VERDICT_ALLOW \<equiv> ''allow''"
abbreviation "VERDICT_DENY \<equiv> ''deny''"

record hold_entry =
  h_future :: nat
  h_ws :: string
  h_task :: nat

text \<open>The \<open>egress_rules\<close> view of a workspace.\<close>

record rules_view =
  allow_list :: "string list"
  reject_list :: "string list"
  view_allowed :: "ec_row list"
  view_denied :: "ec_row list"
  view_paused :: "real option"

datatype decider_frame =
    Egress_Request string ec_row
  | Egress_Resolved string string string
  | Egress_Rules string rules_view

text \<open>Who has taken a hold out of the dictionary and has yet to resolve its future.\<close>

datatype owner = Resolver string string string | Fail_Closer string

record coord =
  holds :: "(string, hold_entry) dict"
  ctable :: ec_table
  wsdb :: workspaces
  co_registry :: registry
  futures :: "nat \<rightharpoonup> relay_verdict"
  timers :: "nat set"
  next_hold :: nat
  popped :: "(string \<times> hold_entry \<times> owner) list"
  stopping :: "string list"
  sent :: "(decider_frame \<times> nat list) list"

datatype db_call =
    Get_Workspace | Record_Static_Allow | Record_Static_Denial | Active_Verdict_For | Count_Pending
  | Create_Request | Decide | Expire_Pending nat | Add_Domain | Remove_Domain | List_Active | List_Requests
  | Get_Request | Get_Request_Again | Revoke_Row

record world =
  now :: real
  monotonic :: real
  decider_timeout :: real
  settings :: consent_settings
  rate_limit :: nat
  db_ok :: "db_call \<Rightarrow> bool"
  send_ok :: "nat \<Rightarrow> bool"
  writers :: "nat \<Rightarrow> workspaces \<Rightarrow> workspaces"
  meanwhile :: "ec_table \<Rightarrow> ec_table"

definition PAUSE_SECONDS :: "string \<rightharpoonup> real" where
  "PAUSE_SECONDS = map_of [(''15m'', 900), (''1h'', 3600), (''1d'', 86400)]"


section \<open>Helpers\<close>

definition build_verdict ::
  "ec_row option \<Rightarrow> string \<Rightarrow> string \<Rightarrow> relay_verdict \<times> string \<times> ec_row option \<times> ec_row option" where
  "build_verdict row decision duration =
     (case row of
        None \<Rightarrow> (\<lparr>v_decision = VERDICT_DENY, v_reason = ''gone'', v_duration = None\<rparr>, ''expired'', None, None)
      | Some r \<Rightarrow>
          (if decision = ''allowed''
           then (\<lparr>v_decision = VERDICT_ALLOW, v_reason = ''decided'', v_duration = Some duration\<rparr>, ''allowed'',
                 if duration = Consent_Table.DURATION_FOREVER then Some r else None, None)
           else (\<lparr>v_decision = VERDICT_DENY, v_reason = ''decided'', v_duration = Some duration\<rparr>, ''denied'',
                 None, if duration = Consent_Table.DURATION_FOREVER then Some r else None)))"

definition hold_in_scope :: "hold_entry \<Rightarrow> string option \<Rightarrow> bool" where
  "hold_in_scope h decider_workspace =
     (case decider_workspace of None \<Rightarrow> True | Some scope \<Rightarrow> h_ws h = scope)"

text \<open>\<open>if port\<close> is false for \<open>None\<close> and for 0.\<close>

definition has_port :: "int option \<Rightarrow> bool" where
  "has_port port \<longleftrightarrow> port \<notin> {None, Some 0}"

definition forever_entry :: "string \<Rightarrow> int option \<Rightarrow> string \<Rightarrow> string option" where
  "forever_entry host port decision =
     (if decision = DECISION_ALLOWED
      then (if has_port port then Some (host @ '':'' @ str_int (the port)) else None)
      else (if has_port port then Some (host @ '':'' @ str_int (the port)) else Some host))"

definition forever_allow_entry :: "ec_row \<Rightarrow> string option" where
  "forever_allow_entry row =
     (if ec_host row = [] \<or> ec_ws row = [] then None
      else forever_entry (ec_host row) (ec_port row) DECISION_ALLOWED)"

definition forever_deny_entry :: "ec_row \<Rightarrow> string option" where
  "forever_deny_entry row =
     (if ec_host row = [] \<or> ec_ws row = [] then None
      else forever_entry (ec_host row) (ec_port row) DECISION_DENIED)"

definition by_decision :: "ec_row list \<Rightarrow> string \<Rightarrow> ec_row list" where
  "by_decision rows decision = map untag (filter (\<lambda>r. ec_decision r = decision) rows)"

definition pause_frame :: "real \<Rightarrow> real option \<Rightarrow> real option" where
  "pause_frame t until = (case until of None \<Rightarrow> None | Some u \<Rightarrow> if u > t then Some u else None)"

definition ws_is_allow :: "workspace option \<Rightarrow> bool" where
  "ws_is_allow ws = (case ws of None \<Rightarrow> False | Some x \<Rightarrow> egress_mode x = EGRESS_MODE_ALLOW)"

definition ws_is_paused :: "real \<Rightarrow> workspace option \<Rightarrow> bool" where
  "ws_is_paused t ws =
     (case ws of
        None \<Rightarrow> False
      | Some x \<Rightarrow>
          (if egress_mode x \<noteq> EGRESS_MODE_INTERACTIVE then False
           else case consent_paused_until x of None \<Rightarrow> False | Some until \<Rightarrow> until > t))"

definition ws_is_interactive :: "world \<Rightarrow> workspace option \<Rightarrow> string \<Rightarrow> coord \<Rightarrow> bool" where
  "ws_is_interactive w ws workspace_id s =
     (case ws of
        None \<Rightarrow> False
      | Some x \<Rightarrow>
          (if egress_mode x \<noteq> EGRESS_MODE_INTERACTIVE then False
           else has_decider (monotonic w) (decider_timeout w) workspace_id (co_registry s)))"

definition workspace_opted_in :: "workspaces \<Rightarrow> string \<Rightarrow> bool" where
  "workspace_opted_in d workspace_id =
     (case get_workspace workspace_id d of
        None \<Rightarrow> False | Some x \<Rightarrow> egress_mode x = EGRESS_MODE_INTERACTIVE)"


section \<open>Frames\<close>

definition push_frame :: "world \<Rightarrow> string \<Rightarrow> decider_frame \<Rightarrow> coord \<Rightarrow> coord" where
  "push_frame w workspace_id frame s =
     (case broadcast (monotonic w) (decider_timeout w) (send_ok w) workspace_id (co_registry s) of
        (n, socks, reg) \<Rightarrow> s\<lparr>co_registry := reg, sent := sent s @ [(frame, socks)]\<rparr>)"

definition request_frame :: "ec_row \<Rightarrow> decider_frame" where
  "request_frame request = Egress_Request (ec_ws request) (untag request)"

definition fanout :: "world \<Rightarrow> ec_row \<Rightarrow> coord \<Rightarrow> coord" where
  "fanout w request s = push_frame w (ec_ws request) (request_frame request) s"

definition broadcast_resolved :: "world \<Rightarrow> string \<Rightarrow> string \<Rightarrow> string \<Rightarrow> coord \<Rightarrow> coord" where
  "broadcast_resolved w request_id workspace_id decision s =
     push_frame w workspace_id (Egress_Resolved workspace_id request_id decision) s"

definition rules_frame_for :: "world \<Rightarrow> workspace \<Rightarrow> string \<Rightarrow> coord \<Rightarrow> decider_frame" where
  "rules_frame_for w ws workspace_id s =
     (let rows = list_active (now w) workspace_id (ctable s)
      in Egress_Rules workspace_id
           \<lparr>allow_list = allowed_domains ws, reject_list = rejected_domains ws,
            view_allowed = by_decision rows DECISION_ALLOWED,
            view_denied = by_decision rows DECISION_DENIED,
            view_paused = pause_frame (now w) (consent_paused_until ws)\<rparr>)"

text \<open>\<open>None\<close>: a read raised; \<open>Some None\<close>: the workspace is gone.\<close>

definition rules_frame :: "world \<Rightarrow> string \<Rightarrow> coord \<Rightarrow> decider_frame option option" where
  "rules_frame w workspace_id s =
     (if \<not> db_ok w Get_Workspace then None
      else case get_workspace workspace_id (wsdb s) of
             None \<Rightarrow> Some None
           | Some ws \<Rightarrow> if db_ok w List_Active then Some (Some (rules_frame_for w ws workspace_id s)) else None)"

definition broadcast_rules :: "world \<Rightarrow> string \<Rightarrow> coord \<Rightarrow> coord" where
  "broadcast_rules w workspace_id s =
     (case rules_frame w workspace_id s of
        Some (Some frame) \<Rightarrow> push_frame w workspace_id frame s
      | _ \<Rightarrow> s)"

definition snapshot :: "world \<Rightarrow> string \<Rightarrow> coord \<Rightarrow> decider_frame list option" where
  "snapshot w workspace_id s =
     (if db_ok w List_Requests
      then Some (map request_frame
             (filter (\<lambda>row. map_of (holds s) (ec_id row) \<noteq> None)
               (list_requests workspace_id (Some DECISION_PENDING) 100 (ctable s))))
      else None)"


section \<open>Holding\<close>

text \<open>A gate answers at once or registers a hold; \<open>None\<close> is an exception on the way.\<close>

datatype hold_result = Completed relay_verdict | Held nat

definition allow_mode_verdict ::
  "world \<Rightarrow> string \<Rightarrow> string \<Rightarrow> string \<Rightarrow> int option \<Rightarrow> coord \<Rightarrow> (hold_result \<times> coord) option" where
  "allow_mode_verdict w rid workspace_id dst dport s =
     (if \<not> db_ok w Record_Static_Allow then None
      else Some (Completed \<lparr>v_decision = VERDICT_ALLOW, v_reason = ''allow_mode'', v_duration = Some DURATION_DEFAULT\<rparr>,
             s\<lparr>ctable := snd (record_static_allow (settings w) (now w) rid workspace_id dst dport (ctable s))\<rparr>))"

definition static_denial_verdict ::
  "world \<Rightarrow> string \<Rightarrow> string \<Rightarrow> string \<Rightarrow> int option \<Rightarrow> coord \<Rightarrow> (hold_result \<times> coord) option" where
  "static_denial_verdict w rid workspace_id dst dport s =
     (if \<not> db_ok w Record_Static_Denial then None
      else Some (Completed \<lparr>v_decision = VERDICT_DENY, v_reason = ''static'', v_duration = None\<rparr>,
             s\<lparr>ctable := snd (record_static_denial (settings w) (now w) rid workspace_id dst dport (ctable s))\<rparr>))"

definition paused_verdict ::
  "world \<Rightarrow> string \<Rightarrow> string \<Rightarrow> int option \<Rightarrow> coord \<Rightarrow> relay_verdict option" where
  "paused_verdict w workspace_id dst dport s =
     (if \<not> db_ok w Active_Verdict_For then None
      else case active_verdict_for (now w) workspace_id dst dport (ctable s) of
             Some row \<Rightarrow>
               (if ec_decision row = DECISION_DENIED
                then Some \<lparr>v_decision = VERDICT_DENY, v_reason = ''paused_deny'', v_duration = Some DURATION_ONCE\<rparr>
                else Some \<lparr>v_decision = VERDICT_ALLOW, v_reason = ''paused'', v_duration = Some DURATION_ONCE\<rparr>)
           | None \<Rightarrow> Some \<lparr>v_decision = VERDICT_ALLOW, v_reason = ''paused'', v_duration = Some DURATION_ONCE\<rparr>)"

definition paused_gate_verdict ::
  "world \<Rightarrow> string \<Rightarrow> string \<Rightarrow> int option \<Rightarrow> coord \<Rightarrow> (hold_result \<times> coord) option" where
  "paused_gate_verdict w workspace_id dst dport s =
     map_option (\<lambda>v. (Completed v, s)) (paused_verdict w workspace_id dst dport s)"

definition register_hold :: "world \<Rightarrow> ec_row \<Rightarrow> coord \<Rightarrow> nat \<times> coord" where
  "register_hold w request s =
     (let n = next_hold s;
          s = s\<lparr>next_hold := Suc n, timers := insert n (timers s),
                holds := AList.update (ec_id request) \<lparr>h_future = n, h_ws = ec_ws request, h_task = n\<rparr> (holds s)\<rparr>
      in (n, fanout w request s))"

definition interactive_hold ::
  "world \<Rightarrow> string \<Rightarrow> string \<Rightarrow> string \<Rightarrow> int option \<Rightarrow> coord \<Rightarrow> (hold_result \<times> coord) option" where
  "interactive_hold w rid workspace_id dst dport s =
     (if rate_limit w > 0 \<and> \<not> db_ok w Count_Pending then None
      else if rate_limit w > 0 \<and> rate_limit w \<le> count_pending workspace_id (ctable s)
      then Some (Completed \<lparr>v_decision = VERDICT_DENY, v_reason = ''rate_limited'', v_duration = None\<rparr>, s)
      else if \<not> db_ok w Create_Request then None
      else case create_request (settings w) (now w) rid workspace_id dst dport None None (meanwhile w (ctable s)) of
             (None, t) \<Rightarrow>
               Some (Completed \<lparr>v_decision = VERDICT_DENY, v_reason = ''duplicate'', v_duration = None\<rparr>, s\<lparr>ctable := t\<rparr>)
           | (Some request, t) \<Rightarrow>
               (case register_hold w request (s\<lparr>ctable := t\<rparr>) of (fut, s) \<Rightarrow> Some (Held fut, s)))"

definition hold ::
  "world \<Rightarrow> string \<Rightarrow> string \<Rightarrow> string \<Rightarrow> int option \<Rightarrow> coord \<Rightarrow> hold_result \<times> coord" where
  "hold w rid workspace_id dst dport s =
     (let ws = get_workspace workspace_id (wsdb s);
          res =
            (if \<not> db_ok w Get_Workspace then None
             else if ws_is_allow ws then allow_mode_verdict w rid workspace_id dst dport s
             else if ws_is_paused (now w) ws then paused_gate_verdict w workspace_id dst dport s
             else if \<not> ws_is_interactive w ws workspace_id s
             then static_denial_verdict w rid workspace_id dst dport s
             else interactive_hold w rid workspace_id dst dport s)
      in case res of
           Some r \<Rightarrow> r
         | None \<Rightarrow> (Completed \<lparr>v_decision = VERDICT_DENY, v_reason = ''error'', v_duration = None\<rparr>, s))"

text \<open>A database error in \<open>pause\<close> and \<open>unpause\<close> propagates to the caller; these are the runs without one.\<close>

definition pause :: "world \<Rightarrow> string \<Rightarrow> string \<Rightarrow> coord \<Rightarrow> (bool \<times> real option) \<times> coord" where
  "pause w workspace_id duration s =
     (case PAUSE_SECONDS duration of
        None \<Rightarrow> ((False, None), s)
      | Some secs \<Rightarrow>
          (if \<not> workspace_opted_in (wsdb s) workspace_id then ((False, None), s)
           else let until = now w + secs
                in case set_consent_pause workspace_id (Some until) (wsdb s) of
                     (False, d) \<Rightarrow> ((False, None), s\<lparr>wsdb := d\<rparr>)
                   | (True, d) \<Rightarrow> ((True, Some until), broadcast_rules w workspace_id (s\<lparr>wsdb := d\<rparr>))))"

definition unpause :: "world \<Rightarrow> string \<Rightarrow> coord \<Rightarrow> bool \<times> coord" where
  "unpause w workspace_id s =
     (case set_consent_pause workspace_id None (wsdb s) of
        (ok, d) \<Rightarrow> (ok, if ok then broadcast_rules w workspace_id (s\<lparr>wsdb := d\<rparr>) else s\<lparr>wsdb := d\<rparr>))"


section \<open>Resolving\<close>

definition set_result :: "nat \<Rightarrow> relay_verdict \<Rightarrow> coord \<Rightarrow> coord" where
  "set_result fut v s = (if futures s fut = None then s\<lparr>futures := (futures s)(fut \<mapsto> v)\<rparr> else s)"

text \<open>\<open>_persist_forever_allow\<close> and \<open>_persist_forever_deny\<close>: a failure is swallowed.\<close>

definition persist_forever_allow :: "world \<Rightarrow> ec_row \<Rightarrow> coord \<Rightarrow> coord" where
  "persist_forever_allow w row s =
     (case forever_allow_entry row of
        None \<Rightarrow> s
      | Some entry \<Rightarrow>
          (if db_ok w Add_Domain
           then s\<lparr>wsdb := snd (add_allowed_domain (writers w) (ec_ws row) entry (wsdb s))\<rparr> else s))"

definition persist_forever_deny :: "world \<Rightarrow> ec_row \<Rightarrow> coord \<Rightarrow> coord" where
  "persist_forever_deny w row s =
     (case forever_deny_entry row of
        None \<Rightarrow> s
      | Some entry \<Rightarrow>
          (if db_ok w Add_Domain
           then s\<lparr>wsdb := snd (add_rejected_domain (writers w) (ec_ws row) entry (wsdb s))\<rparr> else s))"

definition finish_resolve ::
  "world \<Rightarrow> string \<Rightarrow> hold_entry \<Rightarrow> relay_verdict \<Rightarrow> string \<Rightarrow> ec_row option \<Rightarrow> ec_row option \<Rightarrow> coord \<Rightarrow> coord" where
  "finish_resolve w request_id h verdict resolved allow_row deny_row s =
     (let s = set_result (h_future h) verdict s;
          s = broadcast_resolved w request_id (h_ws h) resolved s;
          s = (case allow_row of None \<Rightarrow> s | Some r \<Rightarrow> persist_forever_allow w r s);
          s = (case deny_row of None \<Rightarrow> s | Some r \<Rightarrow> persist_forever_deny w r s)
      in if resolved \<in> {''allowed'', ''denied''} then broadcast_rules w (h_ws h) s else s)"

definition pop_hold :: "string \<Rightarrow> string option \<Rightarrow> coord \<Rightarrow> hold_entry option \<times> coord" where
  "pop_hold request_id decider_workspace s =
     (case map_of (holds s) request_id of
        None \<Rightarrow> (None, s)
      | Some h \<Rightarrow>
          (if \<not> hold_in_scope h decider_workspace then (None, s)
           else (Some h, s\<lparr>holds := AList.delete request_id (holds s), timers := timers s - {h_task h}\<rparr>)))"

definition resolve_popped_fail_close :: "world \<Rightarrow> string \<Rightarrow> hold_entry \<Rightarrow> string \<Rightarrow> coord \<Rightarrow> coord" where
  "resolve_popped_fail_close w request_id h reason s =
     (if futures s (h_future h) \<noteq> None then s
      else broadcast_resolved w request_id (h_ws h) ''expired''
             (set_result (h_future h)
               \<lparr>v_decision = VERDICT_DENY, v_reason = reason, v_duration = Some DURATION_ONCE\<rparr> s))"

definition expire_attempt :: "world \<Rightarrow> nat \<Rightarrow> string \<Rightarrow> coord \<Rightarrow> coord option" where
  "expire_attempt w n request_id s =
     (if db_ok w (Expire_Pending n)
      then Some (s\<lparr>ctable := snd (expire_pending (settings w) (now w) request_id (ctable s))\<rparr>) else None)"

definition expire_stranded :: "world \<Rightarrow> string \<Rightarrow> coord \<Rightarrow> coord" where
  "expire_stranded w request_id s =
     (case expire_attempt w 1 request_id s of
        Some s' \<Rightarrow> s'
      | None \<Rightarrow> (case expire_attempt w 2 request_id s of Some s' \<Rightarrow> s' | None \<Rightarrow> s))"

definition decide_or_fail_close ::
  "world \<Rightarrow> string \<Rightarrow> string \<Rightarrow> string \<Rightarrow> string \<Rightarrow> coord \<Rightarrow>
     (relay_verdict \<times> string \<times> ec_row option \<times> ec_row option \<times> bool) \<times> coord" where
  "decide_or_fail_close w request_id decision decided_by duration s =
     (let failed = \<lparr>v_decision = VERDICT_DENY, v_reason = ''error'', v_duration = None\<rparr>
      in if \<not> db_ok w Decide then ((failed, ''expired'', None, None, True), s)
         else case decide (settings w) (now w) request_id decision decided_by duration (ctable s) of
                Inl _ \<Rightarrow> ((failed, ''expired'', None, None, True), s)
              | Inr (row, t) \<Rightarrow>
                  (case build_verdict row decision duration of
                     (verdict, resolved, allow_row, deny_row) \<Rightarrow>
                       ((verdict, resolved, allow_row, deny_row, False), s\<lparr>ctable := t\<rparr>)))"

text \<open>\<open>resolve\<close> after its pop, when nothing cancels it.\<close>

definition resolve_popped ::
  "world \<Rightarrow> string \<Rightarrow> hold_entry \<Rightarrow> string \<Rightarrow> string \<Rightarrow> string \<Rightarrow> coord \<Rightarrow> relay_verdict \<times> coord" where
  "resolve_popped w request_id h decision decided_by duration s =
     (case decide_or_fail_close w request_id decision decided_by duration s of
        ((verdict, resolved, allow_row, deny_row, stranded), s) \<Rightarrow>
          (let s = finish_resolve w request_id h verdict resolved allow_row deny_row s
           in (verdict, if stranded then expire_stranded w request_id s else s)))"

definition resolve ::
  "world \<Rightarrow> string \<Rightarrow> string \<Rightarrow> string \<Rightarrow> string \<Rightarrow> string option \<Rightarrow> coord \<Rightarrow> relay_verdict option \<times> coord" where
  "resolve w request_id decision decided_by duration decider_workspace s =
     (case pop_hold request_id decider_workspace s of
        (None, s) \<Rightarrow> (None, s)
      | (Some h, s) \<Rightarrow>
          (case resolve_popped w request_id h decision decided_by duration s of (v, s) \<Rightarrow> (Some v, s)))"

text \<open>
  The rescue of \<open>resolve\<close>: it is cancelled at one of its awaits. The decision may have been committed
  (\<open>committed\<close>) by a transaction whose answer the cancelled coroutine never saw.
\<close>

definition resolve_cancelled ::
  "world \<Rightarrow> string \<Rightarrow> hold_entry \<Rightarrow> bool \<Rightarrow> string \<Rightarrow> string \<Rightarrow> string \<Rightarrow> coord \<Rightarrow> coord" where
  "resolve_cancelled w request_id h committed decision decided_by duration s =
     (let s = (if committed then snd (decide_or_fail_close w request_id decision decided_by duration s) else s)
      in expire_stranded w request_id (resolve_popped_fail_close w request_id h ''error'' s))"

text \<open>\<open>_fail_close\<close> split at its await: the pop, and the rest.\<close>

definition fail_close_pop :: "string \<Rightarrow> coord \<Rightarrow> hold_entry option \<times> coord" where
  "fail_close_pop request_id s =
     (map_of (holds s) request_id, s\<lparr>holds := AList.delete request_id (holds s)\<rparr>)"

definition fail_close_rest :: "world \<Rightarrow> string \<Rightarrow> hold_entry \<Rightarrow> string \<Rightarrow> coord \<Rightarrow> coord" where
  "fail_close_rest w request_id h reason s =
     (let s = expire_stranded w request_id s;
          s = set_result (h_future h) \<lparr>v_decision = VERDICT_DENY, v_reason = reason, v_duration = Some DURATION_ONCE\<rparr> s
      in broadcast_resolved w request_id (h_ws h) ''expired'' s)"

definition fail_close :: "world \<Rightarrow> string \<Rightarrow> string \<Rightarrow> coord \<Rightarrow> coord" where
  "fail_close w request_id reason s =
     (case fail_close_pop request_id s of
        (None, s) \<Rightarrow> s
      | (Some h, s) \<Rightarrow> fail_close_rest w request_id h reason s)"

text \<open>One turn of the loop of \<open>stop\<close>, and the loop.\<close>

definition stop_one :: "world \<Rightarrow> string \<Rightarrow> coord \<Rightarrow> coord" where
  "stop_one w request_id s =
     (let s = (case map_of (holds s) request_id of None \<Rightarrow> s | Some h \<Rightarrow> s\<lparr>timers := timers s - {h_task h}\<rparr>)
      in fail_close w request_id ''shutdown'' s)"

definition stop :: "world \<Rightarrow> coord \<Rightarrow> coord" where
  "stop w s = fold (stop_one w) (map fst (holds s)) s"


section \<open>Revoking\<close>

definition revocable :: "ec_row option \<Rightarrow> string option \<Rightarrow> bool" where
  "revocable row decider_workspace =
     (case row of
        None \<Rightarrow> False
      | Some r \<Rightarrow>
          (if ec_decision r \<notin> {DECISION_ALLOWED, DECISION_DENIED} then False
           else case decider_workspace of None \<Rightarrow> True | Some scope \<Rightarrow> ec_ws r = scope))"

definition already_revoked_in_scope :: "ec_row option \<Rightarrow> string option \<Rightarrow> bool" where
  "already_revoked_in_scope row decider_workspace =
     (case row of
        None \<Rightarrow> False
      | Some r \<Rightarrow>
          (if ec_decision r \<noteq> DECISION_REVOKED then False
           else case decider_workspace of None \<Rightarrow> True | Some scope \<Rightarrow> ec_ws r = scope))"

text \<open>\<open>ack\<close>: no live sidecar, or the answer awaited for at most five seconds (a time-out is \<open>False\<close>).\<close>

definition sidecar_acked_drop :: "bool option \<Rightarrow> bool" where
  "sidecar_acked_drop ack = (case ack of None \<Rightarrow> True | Some ok \<Rightarrow> ok)"

text \<open>\<open>None\<close> is an exception of a database call that the code lets through.\<close>

definition row_revoked :: "world \<Rightarrow> string \<Rightarrow> string \<Rightarrow> coord \<Rightarrow> bool option \<times> coord" where
  "row_revoked w request_id revoked_by s =
     (if \<not> db_ok w Revoke_Row then (None, s)
      else case revoke (settings w) (now w) request_id revoked_by (ctable s) of
             (Some r, t) \<Rightarrow> (Some True, s\<lparr>ctable := t\<rparr>)
           | (None, t) \<Rightarrow>
               (if \<not> db_ok w Get_Request_Again then (None, s\<lparr>ctable := t\<rparr>)
                else (Some (case get_request request_id t of
                              None \<Rightarrow> False | Some fresh \<Rightarrow> ec_decision fresh = DECISION_REVOKED),
                      s\<lparr>ctable := t\<rparr>)))"

definition maps_to_forever_entry :: "ec_row \<Rightarrow> string \<Rightarrow> string \<Rightarrow> bool" where
  "maps_to_forever_entry other decision entry =
     (if ec_decision other \<noteq> decision then False
      else if ec_duration other \<noteq> Some Consent_Table.DURATION_FOREVER then False
      else case forever_entry (ec_host other) (ec_port other) decision of
             None \<Rightarrow> False | Some shared \<Rightarrow> lower shared = lower entry)"

definition forever_entry_still_shared :: "world \<Rightarrow> ec_row \<Rightarrow> string \<Rightarrow> string \<Rightarrow> coord \<Rightarrow> bool" where
  "forever_entry_still_shared w row decision entry s =
     list_ex (\<lambda>other. ec_id other \<noteq> ec_id row \<and> maps_to_forever_entry other decision entry)
       (list_active (now w) (ec_ws row) (ctable s))"

definition durable_remove :: "world \<Rightarrow> string \<Rightarrow> string \<Rightarrow> string \<Rightarrow> workspaces \<Rightarrow> bool \<times> workspaces" where
  "durable_remove w decision workspace_id entry d =
     (if decision = DECISION_ALLOWED then remove_allowed_domain (writers w) workspace_id entry d
      else remove_rejected_domain (writers w) workspace_id entry d)"

definition retract_forever_entry :: "world \<Rightarrow> ec_row \<Rightarrow> string \<Rightarrow> coord \<Rightarrow> bool \<times> coord" where
  "retract_forever_entry w row decision s =
     (if ec_host row = [] \<or> ec_ws row = [] then (True, s)
      else case forever_entry (ec_host row) (ec_port row) decision of
             None \<Rightarrow> (True, s)
           | Some entry \<Rightarrow>
               (if \<not> db_ok w List_Active then (False, s)
                else if forever_entry_still_shared w row decision entry s then (True, s)
                else if db_ok w Remove_Domain
                then (True, s\<lparr>wsdb := snd (durable_remove w decision (ec_ws row) entry (wsdb s))\<rparr>)
                else (True, s)))"

definition apply_revoke ::
  "world \<Rightarrow> bool option \<Rightarrow> ec_row \<Rightarrow> string \<Rightarrow> string \<Rightarrow> coord \<Rightarrow> bool option \<times> coord" where
  "apply_revoke w ack row request_id revoked_by s =
     (if \<not> sidecar_acked_drop ack then (Some False, s)
      else case row_revoked w request_id revoked_by s of
             (None, s) \<Rightarrow> (None, s)
           | (Some False, s) \<Rightarrow> (Some False, s)
           | (Some True, s) \<Rightarrow>
               (if ec_duration row = Some Consent_Table.DURATION_FOREVER
                then (case retract_forever_entry w row (ec_decision row) s of
                        (ok, s) \<Rightarrow> (if ok then Some True else None, s))
                else (Some True, s)))"

text \<open>\<open>revoke\<close> of the coordinator.\<close>

definition revoke_verdict ::
  "world \<Rightarrow> bool option \<Rightarrow> string \<Rightarrow> string \<Rightarrow> string option \<Rightarrow> coord \<Rightarrow> bool option \<times> coord" where
  "revoke_verdict w ack request_id revoked_by decider_workspace s =
     (if \<not> db_ok w Get_Request then (None, s)
      else let row = get_request request_id (ctable s)
           in if \<not> revocable row decider_workspace
              then (Some (already_revoked_in_scope row decider_workspace), s)
              else case apply_revoke w ack (the row) request_id revoked_by (s\<lparr>ctable := meanwhile w (ctable s)\<rparr>) of
                     (Some True, s) \<Rightarrow> (Some True, broadcast_rules w (ec_ws (the row)) s)
                   | (r, s) \<Rightarrow> (r, s))"


section \<open>Interleaving\<close>

text \<open>
  The runs between awaits, in any order. A coroutine that has popped a hold is in \<open>popped\<close> until it has
  resolved the future; \<open>stop\<close> cancels a time-out task and later pops the hold (\<open>stopping\<close>). Other
  components may change the table, the workspace rows and the registry at any time. The request id of
  a new hold is a fresh uuid; \<open>registered\<close> is a \<open>hold\<close> whose gates were passed and whose row was committed
  in earlier states. \<open>stop\<close> itself is not cancelled.
\<close>

inductive coord_step :: "coord \<Rightarrow> coord \<Rightarrow> bool" where
  held: "map_of (holds s) rid = None \<Longrightarrow> coord_step s (snd (hold w rid ws dst dport s))"
| registered: "map_of (holds s) (ec_id request) = None \<Longrightarrow> coord_step s (snd (register_hold w request s))"
| resolving: "pop_hold rid scope s = (Some h, s') \<Longrightarrow>
    coord_step s (s'\<lparr>popped := (rid, h, Resolver d actor dur) # popped s'\<rparr>)"
| resolved: "(rid, h, Resolver d actor dur) \<in> set (popped s) \<Longrightarrow>
    coord_step s (snd (resolve_popped w rid h d actor dur
      (s\<lparr>popped := remove1 (rid, h, Resolver d actor dur) (popped s)\<rparr>)))"
| cancelled: "(rid, h, Resolver d actor dur) \<in> set (popped s) \<Longrightarrow>
    coord_step s (resolve_cancelled w rid h committed d actor dur
      (s\<lparr>popped := remove1 (rid, h, Resolver d actor dur) (popped s)\<rparr>))"
| timed_out: "fail_close_pop rid s = (Some h, s') \<Longrightarrow> h_task h \<in> timers s \<Longrightarrow>
    coord_step s (s'\<lparr>timers := timers s - {h_task h}, popped := (rid, h, Fail_Closer ''timeout'') # popped s\<rparr>)"
| stop_begun: "map_of (holds s) rid = Some h \<Longrightarrow>
    coord_step s (s\<lparr>timers := timers s - {h_task h}, stopping := rid # stopping s\<rparr>)"
| stop_popped: "rid \<in> set (stopping s) \<Longrightarrow> fail_close_pop rid s = (Some h, s') \<Longrightarrow>
    coord_step s (s'\<lparr>popped := (rid, h, Fail_Closer ''shutdown'') # popped s\<rparr>)"
| fail_closed: "(rid, h, Fail_Closer reason) \<in> set (popped s) \<Longrightarrow>
    coord_step s (fail_close_rest w rid h reason
      (s\<lparr>popped := remove1 (rid, h, Fail_Closer reason) (popped s)\<rparr>))"
| revoking: "coord_step s (snd (revoke_verdict w ack rid actor scope s))"
| pausing: "coord_step s (snd (pause w ws dur s))"
| unpausing: "coord_step s (snd (unpause w ws s))"
| elsewhere: "coord_step s (s\<lparr>ctable := t, wsdb := d, co_registry := reg\<rparr>)"

definition init_coord :: "ec_table \<Rightarrow> workspaces \<Rightarrow> registry \<Rightarrow> coord" where
  "init_coord t d reg =
     \<lparr>holds = [], ctable = t, wsdb = d, co_registry = reg, futures = Map.empty, timers = {}, next_hold = 0,
      popped = [], stopping = [], sent = []\<rparr>"

text \<open>The part of the state that says which futures are owed an answer, and by whom.\<close>

definition core :: "coord \<Rightarrow>
    (string, hold_entry) dict \<times> (nat \<rightharpoonup> relay_verdict) \<times> nat set \<times> nat \<times> (string \<times> hold_entry \<times> owner) list \<times> string list" where
  "core s = (holds s, futures s, timers s, next_hold s, popped s, stopping s)"

named_theorems core_simps \<open>operations that leave the owed futures alone\<close>

lemma core_updates [core_simps, simp]:
  "core (s\<lparr>ctable := t\<rparr>) = core s" "core (s\<lparr>wsdb := d\<rparr>) = core s" "core (s\<lparr>co_registry := r\<rparr>) = core s"
  "core (s\<lparr>sent := x\<rparr>) = core s"
  by (simp_all add: core_def)

lemma core_push [core_simps]: "core (push_frame w ws f s) = core s"
  by (simp add: push_frame_def split: prod.splits)

lemma core_frames [core_simps]:
  "core (fanout w r s) = core s" "core (broadcast_resolved w rid ws d s) = core s"
  "core (broadcast_rules w ws s) = core s"
  by (simp_all add: fanout_def broadcast_resolved_def broadcast_rules_def core_push split: option.splits)

lemma core_expire [core_simps]: "core (expire_stranded w rid s) = core s"
  by (simp add: expire_stranded_def expire_attempt_def)

lemma core_persist [core_simps]:
  "core (persist_forever_allow w r s) = core s" "core (persist_forever_deny w r s) = core s"
  by (simp_all add: persist_forever_allow_def persist_forever_deny_def split: option.splits)

lemma core_decide [core_simps]: "core (snd (decide_or_fail_close w rid d actor dur s)) = core s"
  by (simp add: decide_or_fail_close_def Let_def split: sum.splits prod.splits)

lemma core_revoke [core_simps]: "core (snd (revoke_verdict w ack rid actor scope s)) = core s"
proof -
  have retract: "core (snd (retract_forever_entry w row d s)) = core s" for row d s
    by (simp add: retract_forever_entry_def split: option.splits)
  have row: "core (snd (row_revoked w rid actor s)) = core s" for s
    by (simp add: row_revoked_def split: option.splits prod.splits)
  have ap: "core (snd (apply_revoke w ack row rid actor s)) = core s" for row s
    using row [of s] retract
    by (auto simp: apply_revoke_def split: prod.splits option.splits bool.splits) (metis snd_conv)+
  obtain r s1 where a: "apply_revoke w ack (the (get_request rid (ctable s))) rid actor
      (s\<lparr>ctable := meanwhile w (ctable s)\<rparr>) = (r, s1)" by fastforce
  have "core s1 = core s" using ap [of _ "s\<lparr>ctable := meanwhile w (ctable s)\<rparr>"] a by (metis core_updates(1) snd_conv)
  with a show ?thesis
    by (simp add: revoke_verdict_def Let_def core_frames split: option.splits bool.splits)
qed

lemma core_pause [core_simps]: "core (snd (pause w ws dur s)) = core s" "core (snd (unpause w ws s)) = core s"
  by (auto simp: pause_def unpause_def Let_def core_frames split: option.splits prod.splits bool.splits)

lemma core_set_result: "core s = core s' \<Longrightarrow> core (set_result f v s) = core (set_result f v s')"
  by (auto simp: core_def set_result_def)

text \<open>The three ways a popped hold ends: each sets its future and changes nothing else that is owed.\<close>

lemma core_finish: "core (finish_resolve w rid h v res a d s) = core (set_result (h_future h) v s)"
  by (auto simp: finish_resolve_def Let_def core_simps split: option.splits)

lemma core_resolve_popped:
  "core (snd (resolve_popped w rid h d actor dur s)) =
     core (set_result (h_future h) (fst (resolve_popped w rid h d actor dur s)) s)"
proof -
  obtain v res a b str s1 where d: "decide_or_fail_close w rid d actor dur s = ((v, res, a, b, str), s1)"
    by (metis prod_cases5 prod.exhaust)
  then have "core s1 = core s" using core_decide [of w rid d actor dur s] by simp
  then have "core (set_result (h_future h) v s1) = core (set_result (h_future h) v s)" by (rule core_set_result)
  with d show ?thesis by (simp add: resolve_popped_def Let_def core_simps core_finish)
qed

lemma core_resolve_cancelled:
  "\<exists>v. v_decision v = VERDICT_DENY \<and>
     core (resolve_cancelled w rid h committed d actor dur s) = core (set_result (h_future h) v s)"
proof -
  define s1 where "s1 = (if committed then snd (decide_or_fail_close w rid d actor dur s) else s)"
  let ?v = "\<lparr>v_decision = VERDICT_DENY, v_reason = ''error'', v_duration = Some DURATION_ONCE\<rparr>"
  have "core s1 = core s" by (simp add: s1_def core_simps)
  then have "core (set_result (h_future h) ?v s1) = core (set_result (h_future h) ?v s)"
    by (rule core_set_result)
  moreover have "core (resolve_popped_fail_close w rid h ''error'' s1) = core (set_result (h_future h) ?v s1)"
    by (simp add: resolve_popped_fail_close_def core_simps set_result_def)
  ultimately show ?thesis
    by (intro exI [of _ ?v]) (simp add: resolve_cancelled_def core_simps s1_def [symmetric])
qed

lemma core_fail_close_rest:
  "core (fail_close_rest w rid h reason s) =
     core (set_result (h_future h)
       \<lparr>v_decision = VERDICT_DENY, v_reason = reason, v_duration = Some DURATION_ONCE\<rparr> s)"
  using core_set_result [OF core_expire] by (simp add: fail_close_rest_def Let_def core_frames)

definition owed :: "coord \<Rightarrow> nat list" where
  "owed s = map (\<lambda>(rid, h). h_future h) (holds s) @ map (\<lambda>(rid, h, ow). h_future h) (popped s)"

text \<open>
  Every unresolved future is owed exactly once, and every hold still in the dictionary has a live
  time-out task or is about to be popped by \<open>stop\<close>.
\<close>

definition holds_ok :: "coord \<Rightarrow> bool" where
  "holds_ok s \<longleftrightarrow>
     dict_ok (holds s) \<and> distinct (owed s) \<and>
     (\<forall>f. f \<in> set (owed s) \<longleftrightarrow> f < next_hold s \<and> futures s f = None) \<and>
     (\<forall>f. next_hold s \<le> f \<longrightarrow> futures s f = None) \<and>
     (\<forall>(rid, h) \<in> set (holds s). h_task h = h_future h \<and> (h_task h \<in> timers s \<or> rid \<in> set (stopping s)))"

lemma holds_ok_core: "core s = core s' \<Longrightarrow> holds_ok s = holds_ok s'"
  by (simp add: core_def holds_ok_def owed_def)

lemma holds_ok_settle:
  assumes "holds_ok s" "(rid, h, ow) \<in> set (popped s)"
  shows "holds_ok (set_result (h_future h) v (s\<lparr>popped := remove1 (rid, h, ow) (popped s)\<rparr>))"
proof -
  let ?F = "\<lambda>(rid, h, ow). h_future h" and ?p = "(rid, h, ow)"
  have d: "distinct (map ?F (popped s))" using assms(1) by (simp add: holds_ok_def owed_def)
  have f: "h_future h \<in> set (owed s)" using assms(2) by (force simp: owed_def)
  then have fut: "futures s (h_future h) = None" "h_future h < next_hold s" using assms(1) by (auto simp: holds_ok_def)
  have rem: "mset (map ?F (popped s)) = mset (map ?F (remove1 ?p (popped s))) + {#h_future h#}"
  proof -
    have "mset (popped s) = add_mset ?p (mset (remove1 ?p (popped s)))" using assms(2) by simp
    from arg_cong [OF this, of "image_mset ?F"] show ?thesis by simp
  qed
  have "mset (owed s) = mset (owed (s\<lparr>popped := remove1 ?p (popped s)\<rparr>)) + {#h_future h#}"
    using rem by (simp add: owed_def del: mset_map)
  moreover have "distinct (owed s)" using assms(1) by (simp add: holds_ok_def)
  ultimately have "distinct (owed (s\<lparr>popped := remove1 ?p (popped s)\<rparr>))"
    "set (owed (s\<lparr>popped := remove1 ?p (popped s)\<rparr>)) = set (owed s) - {h_future h}"
    by (metis add_mset_add_single distinct.simps(2) mset.simps(2) mset_eq_imp_distinct_iff,
        metis Diff_insert_absorb add_mset_add_single distinct.simps(2) list.simps(15) mset.simps(2)
          mset_eq_imp_distinct_iff mset_eq_setD)
  then show ?thesis
    using assms(1) fut by (auto simp: holds_ok_def set_result_def owed_def)
qed

lemma mset_delete:
  assumes "dict_ok d" "map_of d k = Some v"
  shows "mset d = add_mset (k, v) (mset (AList.delete k d))"
  using assms
proof (induction d)
  case (Cons p d)
  show ?case
  proof (cases "fst p = k")
    case True
    then have "k \<notin> fst ` set d" using Cons.prems(1) by auto
    with True Cons.prems(2) show ?thesis by (cases p) (simp add: delete_idem)
  next
    case False
    with Cons show ?thesis by (cases p) (simp del: map_of_eq_Some_iff)
  qed
qed simp

text \<open>Holds have pairwise different tasks.\<close>

lemma other_task:
  assumes "holds_ok s" "(rid, h) \<in> set (holds s)" "(rid', h') \<in> set (holds s)" "rid' \<noteq> rid"
  shows "h_task h' \<noteq> h_task h"
proof -
  have "inj_on (\<lambda>(rid, h). h_future h) (set (holds s))"
    using assms(1) by (simp add: holds_ok_def owed_def distinct_map)
  from inj_onD [OF this _ assms(3) assms(2)] assms(4) have "h_future h' \<noteq> h_future h" by auto
  moreover have "h_task h' = h_future h'" "h_task h = h_future h"
    using assms unfolding holds_ok_def by blast+
  ultimately show ?thesis by simp
qed

text \<open>Taking a hold out of the dictionary, by whoever, moves what is owed.\<close>

lemma holds_ok_pop_quiet:
  assumes "holds_ok s" "map_of (holds s) rid = Some h"
  shows "holds_ok (s\<lparr>holds := AList.delete rid (holds s), popped := (rid, h, ow) # popped s\<rparr>)" (is "holds_ok ?s")
proof -
  let ?F = "\<lambda>(rid, h). h_future h"
  have ok: "dict_ok (holds s)" using assms(1) by (simp add: holds_ok_def)
  have same: "mset (owed ?s) = mset (owed s)"
    using arg_cong [OF mset_delete [OF ok assms(2)], of "image_mset ?F"] by (simp add: owed_def)
  have "distinct (owed ?s)"
    using mset_eq_imp_distinct_iff [OF same] assms(1) by (simp add: holds_ok_def)
  moreover have "set (owed ?s) = set (owed s)" by (rule mset_eq_setD [OF same])
  moreover have "dict_ok (holds ?s)" using ok by simp
  moreover have "set (holds ?s) \<subseteq> set (holds s)" by (auto simp: set_dict_delete)
  ultimately show ?thesis using assms(1) unfolding holds_ok_def by (simp add: subset_iff) blast
qed

text \<open>The task of a hold that is no longer in the dictionary, or that \<open>stop\<close> has taken over, may end.\<close>

lemma holds_ok_untime:
  assumes "holds_ok s"
    and "\<And>rid h. (rid, h) \<in> set (holds s) \<Longrightarrow> h_task h = n \<Longrightarrow> rid \<in> set (stopping s)"
  shows "holds_ok (s\<lparr>timers := timers s - {n}\<rparr>)"
  using assms unfolding holds_ok_def owed_def by (auto split: prod.splits)

lemma holds_ok_pop:
  assumes "holds_ok s" "map_of (holds s) rid = Some h"
  shows "holds_ok (s\<lparr>holds := AList.delete rid (holds s), timers := timers s - {h_task h},
    popped := (rid, h, ow) # popped s\<rparr>)"
proof -
  have mem: "(rid, h) \<in> set (holds s)" using assms(2) by (rule map_of_SomeD)
  have "h_task h' \<noteq> h_task h" if "(rid', h') \<in> set (AList.delete rid (holds s))" for rid' h'
    using other_task [OF assms(1) mem] that by (auto simp: set_dict_delete)
  with holds_ok_untime [OF holds_ok_pop_quiet [OF assms], where n = "h_task h"]
  have "holds_ok (s\<lparr>holds := AList.delete rid (holds s), popped := (rid, h, ow) # popped s, timers := timers s - {h_task h}\<rparr>)"
    by auto
  then show ?thesis by (simp add: holds_ok_def owed_def)
qed

lemma holds_ok_stop_begun:
  assumes "holds_ok s" "map_of (holds s) rid = Some h"
  shows "holds_ok (s\<lparr>timers := timers s - {h_task h}, stopping := rid # stopping s\<rparr>)"
proof -
  have mem: "(rid, h) \<in> set (holds s)" using assms(2) by (rule map_of_SomeD)
  have "holds_ok (s\<lparr>stopping := rid # stopping s\<rparr>)"
    using assms(1) by (auto simp: holds_ok_def owed_def)
  from holds_ok_untime [OF this, of "h_task h"] other_task [OF assms(1) mem]
  have "holds_ok (s\<lparr>stopping := rid # stopping s, timers := timers s - {h_task h}\<rparr>)" by auto
  then show ?thesis by (simp add: holds_ok_def owed_def)
qed

lemma holds_ok_register:
  assumes "holds_ok s" "map_of (holds s) (ec_id r) = None"
  shows "holds_ok (snd (register_hold w r s))"
proof -
  let ?n = "next_hold s"
  let ?h = "\<lparr>h_future = ?n, h_ws = ec_ws r, h_task = ?n\<rparr>"
  let ?s = "s\<lparr>next_hold := Suc ?n, timers := insert ?n (timers s), holds := AList.update (ec_id r) ?h (holds s)\<rparr>"
  have "ec_id r \<notin> fst ` set (holds s)" using assms(2) by (simp add: map_of_eq_None_iff)
  then have new: "AList.update (ec_id r) ?h (holds s) = holds s @ [(ec_id r, ?h)]" by (rule dict_update_new)
  have fresh: "?n \<notin> set (owed s)" using assms(1) by (auto simp: holds_ok_def)
  have owes: "set (owed ?s) = insert ?n (set (owed s))" "distinct (owed ?s) = distinct (owed s)"
    using fresh by (auto simp: owed_def new)
  have "dict_ok (holds ?s)" using assms(1) by (simp add: holds_ok_def)
  moreover have "futures s ?n = None" using assms(1) by (simp add: holds_ok_def)
  ultimately have "holds_ok ?s"
    using assms(1) unfolding holds_ok_def owes by (auto simp: new less_Suc_eq)
  moreover have "core (snd (register_hold w r s)) = core ?s"
    by (simp add: register_hold_def Let_def core_simps)
  ultimately show ?thesis using holds_ok_core by blast
qed

lemma created_row:
  assumes "create_request cs t0 rid ws dst dport pid pn t = (Some r, t')"
  shows "untag r = pending_row rid ws dst dport pid pn t0" "r \<in> set t'"
proof -
  let ?p = "pending_row rid ws dst dport pid pn t0"
  have free: "\<not> list_ex (conflicts ?p) t"
    using assms by (auto simp: create_request_def insert_or_ignore_def)
  have "ec_id q \<noteq> rid" if "q \<in> set t" for q
    using free that by (auto simp: list_ex_iff conflicts_def pending_row_def)
  then have "find (\<lambda>q. ec_id q = rid) t = None" by (simp add: find_None_iff)
  moreover have "find P (xs @ ys) = (case find P xs of None \<Rightarrow> find P ys | Some x \<Rightarrow> Some x)" for P and xs ys :: ec_table
    by (induction xs) auto
  ultimately have sel: "select_row rid (t @ [?p]) = Some ?p"
    by (simp add: select_row_def) (simp add: pending_row_def)
  have st: "restamp cs rid (t @ [?p]) = (Some r, t')"
    using assms free by (simp add: create_request_def insert_or_ignore_def)
  then show "untag r = ?p" "r \<in> set t'"
    using sel by (auto simp: restamp_def stamp_hmac_def untag_def pending_row_def split: option.splits)
qed

lemma core_hold:
  assumes "hold w rid ws dst dport s = (r, s')"
  shows "core s' = core s \<or> (\<exists>row t n. ec_id row = rid \<and> r = Held n \<and> register_hold w row (s\<lparr>ctable := t\<rparr>) = (n, s'))"
proof -
  have reg: "ec_id row = rid"
    if "create_request (settings w) (now w) rid ws dst dport None None (meanwhile w (ctable s)) = (Some row, t)" for row t
    using arg_cong [OF created_row(1) [OF that], of ec_id] by (simp add: untag_def pending_row_def)
  show ?thesis
    using assms reg
    by (auto simp: hold_def Let_def allow_mode_verdict_def static_denial_verdict_def paused_gate_verdict_def
        interactive_hold_def split: if_splits option.splits prod.splits)
qed

lemma coord_step_ok:
  assumes "coord_step s s'" "holds_ok s"
  shows "holds_ok s'"
  using assms
proof (induction rule: coord_step.induct)
  case (held s rid w ws dst dport)
  obtain r s' where h: "hold w rid ws dst dport s = (r, s')" by fastforce
  from core_hold [OF h] show ?case
  proof
    assume "core s' = core s"
    from holds_ok_core [OF this] held h show ?thesis by simp
  next
    assume "\<exists>row t n. ec_id row = rid \<and> r = Held n \<and> register_hold w row (s\<lparr>ctable := t\<rparr>) = (n, s')"
    then obtain row t n where *: "ec_id row = rid" "register_hold w row (s\<lparr>ctable := t\<rparr>) = (n, s')" by blast
    have "holds_ok (s\<lparr>ctable := t\<rparr>)" using held.prems holds_ok_core [OF core_updates(1)] by blast
    from holds_ok_register [OF this, of row w] * held h show ?thesis by simp
  qed
next
  case (registered s request w)
  then show ?case using holds_ok_register by blast
next
  case (resolving rid scope s h s' d actor dur)
  then show ?case
    using holds_ok_pop [of s rid h "Resolver d actor dur"] by (auto simp: pop_hold_def split: option.splits if_splits)
next
  case (resolved rid h d actor dur s w)
  then show ?case using holds_ok_settle core_resolve_popped holds_ok_core by metis
next
  case (cancelled rid h d actor dur s w committed)
  then show ?case using holds_ok_settle core_resolve_cancelled holds_ok_core by metis
next
  case (timed_out rid s h s')
  then show ?case using holds_ok_pop [of s rid h "Fail_Closer ''timeout''"] by (auto simp: fail_close_pop_def)
next
  case (stop_begun s rid h)
  then show ?case using holds_ok_stop_begun by blast
next
  case (stop_popped rid s h s')
  then show ?case using holds_ok_pop_quiet [of s rid h "Fail_Closer ''shutdown''"] by (auto simp: fail_close_pop_def)
next
  case (fail_closed rid h reason s w)
  then show ?case using holds_ok_settle core_fail_close_rest holds_ok_core by metis
next
  case (revoking s w ack rid actor scope)
  then show ?case using core_revoke holds_ok_core by metis
next
  case (pausing s w ws dur)
  then show ?case using core_pause holds_ok_core by metis
next
  case (unpausing s w ws)
  then show ?case using core_pause holds_ok_core by metis
next
  case (elsewhere s)
  then show ?case by (subst holds_ok_core [where s' = s]) (simp_all add: core_def)
qed

interpretation coord_run: step_invariant coord_step "\<lambda>s. \<exists>t d reg. s = init_coord t d reg" holds_ok
  by unfold_locales (force simp: holds_ok_def init_coord_def owed_def, rule coord_step_ok)

lemma coord_reachable_ok: "coord_step\<^sup>*\<^sup>* (init_coord t d reg) s \<Longrightarrow> holds_ok s"
  by (rule coord_run.reachable_inv) blast+

lemma count_list_distinct: "distinct xs \<Longrightarrow> x \<in> set xs \<Longrightarrow> count_list xs x = 1"
  by (induction xs) (auto simp: count_list_0_iff)

text \<open>
  No connection is forgotten (C3). In every reachable state of the coordinator each future that has no
  result yet is owed by exactly one party: a hold of the dictionary whose time-out task is alive or that
  \<open>stop\<close> is about to pop, or one coroutine that popped it. A future that is owed has no result, so no
  coroutine sets a future twice.
\<close>

theorem no_hold_forgotten:
  assumes "coord_step\<^sup>*\<^sup>* (init_coord t d reg) s"
  shows "(futures s f = None \<and> f < next_hold s \<longleftrightarrow> count_list (owed s) f = 1) \<and>
    count_list (owed s) f \<le> 1 \<and>
    list_all (\<lambda>(rid, h). h_task h \<in> timers s \<or> rid \<in> set (stopping s)) (holds s)"
proof -
  have ok: "holds_ok s" using assms by (rule coord_reachable_ok)
  then have "f \<in> set (owed s) \<longleftrightarrow> futures s f = None \<and> f < next_hold s" "distinct (owed s)"
    by (auto simp: holds_ok_def)
  moreover have "f \<notin> set (owed s) \<Longrightarrow> count_list (owed s) f = 0" by (simp add: count_list_0_iff)
  ultimately have "(futures s f = None \<and> f < next_hold s \<longleftrightarrow> count_list (owed s) f = 1) \<and> count_list (owed s) f \<le> 1"
    using count_list_distinct [of "owed s" f] by (cases "f \<in> set (owed s)") auto
  with ok show ?thesis by (auto simp: holds_ok_def list_all_iff)
qed

lemma untag_eqD:
  assumes "untag r = untag q"
  shows "ec_id r = ec_id q" "ec_decision r = ec_decision q" "ec_decided_by r = ec_decided_by q" "ec_ws r = ec_ws q"
  using assms by (cases r; cases q; simp add: untag_def)+

lemma decided_row:
  assumes "decide cs at_time rid d actor dur t = Inr (Some r, t')"
  shows "\<exists>q \<in> set t. ec_id q = rid \<and> ec_decision q = DECISION_PENDING"
    "\<exists>q \<in> set t'. ec_id q = rid \<and> ec_decision q = d \<and> ec_decided_by q = Some actor"
proof -
  let ?P = "\<lambda>r. ec_id r = rid \<and> ec_decision r = DECISION_PENDING"
  let ?u = "map (\<lambda>r. if ?P r then decide_row d dur at_time actor r else r) t"
  have t': "t' = snd (restamp cs rid ?u)" and some: "filter ?P t \<noteq> []"
    using assms by (auto simp: decide_def update_where_def Let_def split: if_splits)
  from some obtain q where q: "q \<in> set t" "?P q" by (auto simp: filter_empty_conv)
  then show "\<exists>q \<in> set t. ?P q" by blast
  have "decide_row d dur at_time actor q \<in> set ?u" using q by force
  then have "untag (decide_row d dur at_time actor q) \<in> set (map untag t')"
    unfolding t' untag_restamp by force
  then obtain r where r: "r \<in> set t'" "untag r = untag (decide_row d dur at_time actor q)" by auto
  from untag_eqD [OF r(2)] show "\<exists>q \<in> set t'. ec_id q = rid \<and> ec_decision q = d \<and> ec_decided_by q = Some actor"
    using r(1) q by (intro bexI [of _ r]) (simp_all add: decide_row_def)
qed

lemma ctable_push [simp]: "ctable (push_frame w ws f s) = ctable s"
  by (simp add: push_frame_def split: prod.splits)

lemma ctable_frames [simp]:
  "ctable (fanout w r s) = ctable s" "ctable (broadcast_resolved w rid ws d s) = ctable s"
  "ctable (broadcast_rules w ws s) = ctable s"
  by (simp_all add: fanout_def broadcast_resolved_def broadcast_rules_def split: option.splits)

lemma ctable_persist [simp]:
  "ctable (set_result f v s) = ctable s"
  "ctable (persist_forever_allow w r s) = ctable s" "ctable (persist_forever_deny w r s) = ctable s"
  by (simp_all add: set_result_def persist_forever_allow_def persist_forever_deny_def split: option.splits)

lemma ctable_finish [simp]: "ctable (finish_resolve w rid h v res a d s) = ctable s"
  by (simp add: finish_resolve_def Let_def split: option.splits)

lemma resolve_popped_allows:
  assumes "resolve_popped w rid h d actor dur s = (v, s')" "v_decision v = VERDICT_ALLOW"
  shows "d = DECISION_ALLOWED \<and> (\<exists>q \<in> set (ctable s'). ec_id q = rid \<and> ec_decision q = DECISION_ALLOWED \<and> ec_decided_by q = Some actor)"
proof -
  obtain row t where dec: "decide (settings w) (now w) rid d actor dur (ctable s) = Inr (Some row, t)"
      "d = DECISION_ALLOWED" "ctable s' = t"
    using assms by (auto simp: resolve_popped_def decide_or_fail_close_def build_verdict_def Let_def 
        split: if_splits sum.splits prod.splits option.splits)
  with decided_row(2) [OF dec(1)] show ?thesis by blast
qed

lemma core_futures: "core s = core s' \<Longrightarrow> futures s = futures s'"
  by (simp add: core_def)

lemma futures_popped [simp]:
  "futures (set_result f v (s\<lparr>popped := x\<rparr>)) = futures (set_result f v s)"
  by (simp add: set_result_def)

lemma futures_register [simp]: "futures (snd (register_hold w r s)) = futures s"
  using core_futures [OF core_frames(1)] by (simp add: register_hold_def Let_def)

lemma futures_hold: "futures (snd (hold w rid ws dst dport s)) = futures s"
proof -
  obtain r s' where h: "hold w rid ws dst dport s = (r, s')" by fastforce
  from core_hold [OF h] have "futures s' = futures s"
  proof
    assume "\<exists>row t n. ec_id row = rid \<and> r = Held n \<and> register_hold w row (s\<lparr>ctable := t\<rparr>) = (n, s')"
    then obtain row t n where "register_hold w row (s\<lparr>ctable := t\<rparr>) = (n, s')" by blast
    with futures_register [of w row "s\<lparr>ctable := t\<rparr>"] show ?thesis by simp
  qed (rule core_futures)
  with h show ?thesis by simp
qed

text \<open>A decider of the workspace recorded an allow for the request.\<close>

definition allow_recorded :: "string \<Rightarrow> string \<Rightarrow> coord \<Rightarrow> bool" where
  "allow_recorded rid actor s \<longleftrightarrow>
     list_ex (\<lambda>q. ec_id q = rid \<and> ec_decision q = DECISION_ALLOWED \<and> ec_decided_by q = Some actor) (ctable s)"

lemma futures_step:
  assumes "coord_step s s'"
  shows "futures s' = futures s \<or>
    (\<exists>rid h ow v. (rid, h, ow) \<in> set (popped s) \<and> futures s' = futures (set_result (h_future h) v s) \<and>
      (v_decision v = VERDICT_ALLOW \<longrightarrow>
         (\<exists>actor dur. ow = Resolver DECISION_ALLOWED actor dur \<and> allow_recorded rid actor s')))"
  using assms
proof (induction rule: coord_step.induct)
  case (held s rid w ws dst dport)
  show ?case by (simp add: futures_hold)
next
  case (registered s request w)
  show ?case by simp
next
  case (resolved rid h d actor dur s w)
  let ?s = "s\<lparr>popped := remove1 (rid, h, Resolver d actor dur) (popped s)\<rparr>"
  obtain v s' where r: "resolve_popped w rid h d actor dur ?s = (v, s')" by fastforce
  have "futures s' = futures (set_result (h_future h) v s)"
    using core_futures [OF core_resolve_popped [of w rid h d actor dur ?s]] r by simp
  moreover have "v_decision v = VERDICT_ALLOW \<longrightarrow> d = DECISION_ALLOWED \<and> allow_recorded rid actor s'"
    using resolve_popped_allows [OF r] by (auto simp: allow_recorded_def list_ex_iff)
  ultimately show ?case
    using resolved unfolding r snd_conv by (intro disjI2 exI [of _ rid] exI [of _ h] exI [of _ "Resolver d actor dur"] exI [of _ v]) simp
next
  case (cancelled rid h d actor dur s w committed)
  let ?s = "s\<lparr>popped := remove1 (rid, h, Resolver d actor dur) (popped s)\<rparr>"
  obtain v where v: "v_decision v = VERDICT_DENY"
      "core (resolve_cancelled w rid h committed d actor dur ?s) = core (set_result (h_future h) v ?s)"
    using core_resolve_cancelled by blast
  then have "v_decision v \<noteq> VERDICT_ALLOW" by simp
  with core_futures [OF v(2)] cancelled show ?case
    by (intro disjI2 exI [of _ rid] exI [of _ h] exI [of _ "Resolver d actor dur"] exI [of _ v]) simp
next
  case (fail_closed rid h reason s w)
  let ?s = "s\<lparr>popped := remove1 (rid, h, Fail_Closer reason) (popped s)\<rparr>"
  let ?v = "\<lparr>v_decision = VERDICT_DENY, v_reason = reason, v_duration = Some DURATION_ONCE\<rparr>"
  have "v_decision ?v \<noteq> VERDICT_ALLOW" by simp
  with core_futures [OF core_fail_close_rest [of w rid h reason ?s]] fail_closed show ?case
    by (intro disjI2 exI [of _ rid] exI [of _ h] exI [of _ "Fail_Closer reason"] exI [of _ ?v]) simp
next
  case (revoking s w ack rid actor scope)
  show ?case by (intro disjI1 core_futures core_revoke)
next
  case (pausing s w ws dur)
  show ?case by (intro disjI1 core_futures core_pause(1))
next
  case (unpausing s w ws)
  show ?case by (intro disjI1 core_futures core_pause(2))
qed (rule disjI1, force simp: pop_hold_def fail_close_pop_def split: option.splits if_splits)+

text \<open>
  Fail closed (C4). A held connection is allowed only by a decider: when a step of the coordinator gives
  a future the verdict allow, the hold had been popped by a coroutine resolving it with an allow, and the
  consent table has the request's row, allowed, with that decider's name. Every other way a hold ends -
  a time-out, a shutdown, a cancellation, a database error, a request that is gone - denies it.
\<close>

theorem allow_needs_decision:
  assumes "coord_step s s'" "futures s f = None" "futures s' f = Some v" "v_decision v = VERDICT_ALLOW"
  shows "\<exists>rid h actor dur. (rid, h, Resolver DECISION_ALLOWED actor dur) \<in> set (popped s) \<and> h_future h = f \<and>
    allow_recorded rid actor s'"
proof -
  have "futures s' \<noteq> futures s" using assms(2,3) by force
  with futures_step [OF assms(1)] obtain rid h ow v' where
    p: "(rid, h, ow) \<in> set (popped s)" "futures s' = futures (set_result (h_future h) v' s)"
    and a: "v_decision v' = VERDICT_ALLOW \<longrightarrow>
         (\<exists>actor dur. ow = Resolver DECISION_ALLOWED actor dur \<and> allow_recorded rid actor s')"
    by blast
  have "h_future h = f" "v' = v"
    using p(2) assms(2,3) by (auto simp: set_result_def split: if_splits)
  with p(1) a assms(4) show ?thesis by blast
qed

section \<open>Nobody waits forever\<close>

text \<open>
  The steps that need no decider: a time-out fires, \<open>stop\<close> pops, and the coroutines that have popped a
  hold run on or are cancelled.
\<close>

inductive unattended :: "coord \<Rightarrow> coord \<Rightarrow> bool" where
  un_timed_out: "fail_close_pop rid s = (Some h, s') \<Longrightarrow> h_task h \<in> timers s \<Longrightarrow>
    unattended s (s'\<lparr>timers := timers s - {h_task h}, popped := (rid, h, Fail_Closer ''timeout'') # popped s\<rparr>)"
| un_stop_popped: "rid \<in> set (stopping s) \<Longrightarrow> fail_close_pop rid s = (Some h, s') \<Longrightarrow>
    unattended s (s'\<lparr>popped := (rid, h, Fail_Closer ''shutdown'') # popped s\<rparr>)"
| un_resolved: "(rid, h, Resolver d actor dur) \<in> set (popped s) \<Longrightarrow>
    unattended s (snd (resolve_popped w rid h d actor dur
      (s\<lparr>popped := remove1 (rid, h, Resolver d actor dur) (popped s)\<rparr>)))"
| un_cancelled: "(rid, h, Resolver d actor dur) \<in> set (popped s) \<Longrightarrow>
    unattended s (resolve_cancelled w rid h committed d actor dur
      (s\<lparr>popped := remove1 (rid, h, Resolver d actor dur) (popped s)\<rparr>))"
| un_fail_closed: "(rid, h, Fail_Closer reason) \<in> set (popped s) \<Longrightarrow>
    unattended s (fail_close_rest w rid h reason
      (s\<lparr>popped := remove1 (rid, h, Fail_Closer reason) (popped s)\<rparr>))"

lemma unattended_coord: "unattended s s' \<Longrightarrow> coord_step s s'"
  by (induction rule: unattended.induct)
    (blast intro: coord_step.intros timed_out stop_popped resolved cancelled fail_closed)+

text \<open>Each of them does a piece of the work that is left.\<close>

definition work :: "coord \<Rightarrow> nat" where
  "work s = 2 * length (holds s) + length (popped s)"

lemma core_work: "core s = core s' \<Longrightarrow> work s = work s'"
  by (simp add: core_def work_def)

lemma work_set_result [simp]: "work (set_result f v s) = work s"
  by (simp add: work_def set_result_def)

lemma work_remove: "p \<in> set (popped s) \<Longrightarrow> work (s\<lparr>popped := remove1 p (popped s)\<rparr>) < work s"
  using length_pos_if_in_set [of p "popped s"] by (simp add: work_def length_remove1)

lemma length_dict_delete: "map_of d k = Some v \<Longrightarrow> length (AList.delete k d) < length d"
proof (induction d)
  case (Cons p d)
  then show ?case using length_delete_le [of k d] by (cases p) (auto split: if_splits)
qed simp

lemma unattended_work: "unattended s s' \<Longrightarrow> work s' < work s"
proof (induction rule: unattended.induct)
  case (un_resolved rid h d actor dur s w)
  from core_work [OF core_resolve_popped] work_remove [OF this] show ?case by simp
next
  case (un_cancelled rid h d actor dur s w committed)
  obtain v where "core (resolve_cancelled w rid h committed d actor dur
      (s\<lparr>popped := remove1 (rid, h, Resolver d actor dur) (popped s)\<rparr>)) =
    core (set_result (h_future h) v (s\<lparr>popped := remove1 (rid, h, Resolver d actor dur) (popped s)\<rparr>))"
    using core_resolve_cancelled by blast
  from core_work [OF this] work_remove [OF un_cancelled] show ?case by simp
next
  case (un_fail_closed rid h reason s w)
  from core_work [OF core_fail_close_rest] work_remove [OF this] show ?case by simp
next
  case (un_timed_out rid s h s')
  then have "length (AList.delete rid (holds s)) < length (holds s)"
    by (intro length_dict_delete) (simp add: fail_close_pop_def)
  with un_timed_out show ?case by (auto simp: work_def fail_close_pop_def)
next
  case (un_stop_popped rid s h s')
  then have "length (AList.delete rid (holds s)) < length (holds s)"
    by (intro length_dict_delete) (simp add: fail_close_pop_def)
  with un_stop_popped show ?case by (auto simp: work_def fail_close_pop_def)
qed

interpretation coord_quiet: settling coord_step "\<lambda>s. \<exists>t d reg. s = init_coord t d reg" holds_ok unattended work
  by unfold_locales (rule unattended_coord, assumption, rule unattended_work)

lemma unattended_stuck:
  assumes "holds_ok s" "\<nexists>s'. unattended s s'"
  shows "owed s = []"
proof -
  have "popped s = []"
  proof (cases "popped s")
    case (Cons p ps)
    obtain rid h ow where p: "p = (rid, h, ow)" by (cases p)
    then have "(rid, h, ow) \<in> set (popped s)" using Cons by simp
    then show ?thesis using assms(2) un_resolved un_fail_closed by (cases ow) blast+
  qed
  moreover have "holds s = []"
  proof (cases "holds s")
    case (Cons p d)
    obtain rid h where "p = (rid, h)" by (cases p)
    with Cons have look: "map_of (holds s) rid = Some h" and mem: "(rid, h) \<in> set (holds s)" by simp_all
    have "h_task h \<in> timers s \<or> rid \<in> set (stopping s)" using assms(1) mem by (auto simp: holds_ok_def)
    moreover have "fail_close_pop rid s = (Some h, s\<lparr>holds := AList.delete rid (holds s)\<rparr>)"
      using look by (simp add: fail_close_pop_def)
    ultimately show ?thesis using assms(2) un_timed_out un_stop_popped by blast
  qed simp
  ultimately show ?thesis by (simp add: owed_def)
qed

text \<open>A future whose hold is still in the dictionary, or that a fail-closing coroutine owes, or denied.\<close>

definition closing :: "nat \<Rightarrow> coord \<Rightarrow> bool" where
  "closing f s \<longleftrightarrow>
     (\<exists>v. futures s f = Some v \<and> v_decision v = VERDICT_DENY) \<or>
     (\<exists>rid h. (rid, h) \<in> set (holds s) \<and> h_future h = f) \<or>
     (\<exists>rid h reason. (rid, h, Fail_Closer reason) \<in> set (popped s) \<and> h_future h = f)"

lemma closing_core: "core s = core s' \<Longrightarrow> closing f s = closing f s'"
  by (simp add: core_def closing_def)

lemma set_result_simps [simp]:
  "holds (set_result f v s) = holds s" "popped (set_result f v s) = popped s"
  "next_hold (set_result f v s) = next_hold s"
  by (simp_all add: set_result_def)

lemma set_result_keeps: "futures s f = Some u \<Longrightarrow> futures (set_result g v s) f = Some u"
  by (auto simp: set_result_def)

lemma closing_settle:
  assumes "holds_ok s" "(rid, h, ow) \<in> set (popped s)" "closing f s"
    and "\<And>r. ow = Fail_Closer r \<Longrightarrow> v_decision v = VERDICT_DENY"
  shows "closing f (set_result (h_future h) v (s\<lparr>popped := remove1 (rid, h, ow) (popped s)\<rparr>))"
proof (cases "\<exists>r. ow = Fail_Closer r \<and> h_future h = f")
  case True
  then have "v_decision v = VERDICT_DENY" using assms by blast
  moreover have "f \<in> set (owed s)" using assms(2) True by (force simp: owed_def)
  then have "futures s f = None" using assms(1) unfolding holds_ok_def by blast
  ultimately show ?thesis using True by (simp add: closing_def set_result_def)
next
  case False
  from assms(3) [unfolded closing_def] show ?thesis
  proof (elim disjE exE conjE)
    fix rid' h' r assume q: "(rid', h', Fail_Closer r) \<in> set (popped s)" "h_future h' = f"
    with False have "(rid', h', Fail_Closer r) \<noteq> (rid, h, ow)" by auto
    with q have "(rid', h', Fail_Closer r) \<in> set (remove1 (rid, h, ow) (popped s))" by simp
    with q(2) show "closing f (set_result (h_future h) v (s\<lparr>popped := remove1 (rid, h, ow) (popped s)\<rparr>))"
      unfolding closing_def by (intro disjI2 exI [of _ rid'] exI [of _ h'] exI [of _ r]) simp
  next
    fix u assume "futures s f = Some u" "v_decision u = VERDICT_DENY"
    with set_result_keeps [of "s\<lparr>popped := remove1 (rid, h, ow) (popped s)\<rparr>" f u]
    show "closing f (set_result (h_future h) v (s\<lparr>popped := remove1 (rid, h, ow) (popped s)\<rparr>))"
      unfolding closing_def by simp
  qed (force simp: closing_def)
qed

lemma closing_pop:
  assumes "dict_ok (holds s)" "closing f s" "map_of (holds s) rid = Some h"
  shows "closing f (s\<lparr>holds := AList.delete rid (holds s), timers := ts, popped := (rid, h, Fail_Closer r) # popped s\<rparr>)"
proof -
  have "(rid', h') \<in> set (AList.delete rid (holds s)) \<or> (rid', h') = (rid, h)" if "(rid', h') \<in> set (holds s)" for rid' h'
    using that assms(1,3) by (auto simp: set_dict_delete dest: eq_key_imp_eq_value)
  with assms(2) show ?thesis unfolding closing_def by simp blast
qed

lemma closing_settled:
  assumes "holds_ok s" "(rid, h, ow) \<in> set (popped s)" "\<And>r. ow = Fail_Closer r \<Longrightarrow> v_decision v = VERDICT_DENY"
    and c: "core s' = core (set_result (h_future h) v (s\<lparr>popped := remove1 (rid, h, ow) (popped s)\<rparr>))"
  shows "(closing f s \<longrightarrow> closing f s') \<and> next_hold s' = next_hold s"
proof -
  have "next_hold s' = next_hold s" using c by (simp add: core_def)
  with closing_settle [OF assms(1,2) _ assms(3)] closing_core [OF c, of f] show ?thesis by blast
qed

lemma closing_unattended:
  assumes "unattended s s'" "holds_ok s"
  shows "(closing f s \<longrightarrow> closing f s') \<and> next_hold s' = next_hold s"
  using assms
proof (induction rule: unattended.induct)
  case (un_resolved rid h d actor dur s w)
  from closing_settled [OF un_resolved(2,1) _ core_resolve_popped] show ?case by simp
next
  case (un_cancelled rid h d actor dur s w committed)
  obtain v where "core (resolve_cancelled w rid h committed d actor dur
      (s\<lparr>popped := remove1 (rid, h, Resolver d actor dur) (popped s)\<rparr>)) =
    core (set_result (h_future h) v (s\<lparr>popped := remove1 (rid, h, Resolver d actor dur) (popped s)\<rparr>))"
    using core_resolve_cancelled by blast
  from closing_settled [OF un_cancelled(2,1) _ this] show ?case by simp
next
  case (un_fail_closed rid h reason s w)
  from closing_settled [OF un_fail_closed(2,1) _ core_fail_close_rest] show ?case by simp
next
  case (un_timed_out rid s h s')
  then have look: "map_of (holds s) rid = Some h" and s': "s' = s\<lparr>holds := AList.delete rid (holds s)\<rparr>"
    by (auto simp: fail_close_pop_def)
  have "dict_ok (holds s)" using un_timed_out.prems by (simp add: holds_ok_def)
  from closing_pop [OF this _ look] show ?case unfolding s' by simp
next
  case (un_stop_popped rid s h s')
  then have look: "map_of (holds s) rid = Some h" and s': "s' = s\<lparr>holds := AList.delete rid (holds s)\<rparr>"
    by (auto simp: fail_close_pop_def)
  have "dict_ok (holds s)" using un_stop_popped.prems by (simp add: holds_ok_def)
  from closing_pop [OF this _ look, where ts = "timers s"] show ?case unfolding s' by (simp add: closing_def)
qed

lemma closing_unattended_star:
  assumes "unattended\<^sup>*\<^sup>* s s'" "holds_ok s"
  shows "holds_ok s' \<and> (closing f s \<longrightarrow> closing f s') \<and> next_hold s' = next_hold s"
  using assms
proof (induction rule: rtranclp_induct)
  case (step s1 s2)
  with closing_unattended [OF step.hyps(2), of f] coord_step_ok [OF unattended_coord [OF step.hyps(2)]]
  show ?case by simp
qed simp

text \<open>
  Nobody waits forever (C5). From every reachable state the steps that need no decider - time-outs,
  shutdown, and the coroutines already under way - come to an end, whatever their order, and when they
  have ended every future ever handed out has a result; those whose hold no decider had popped are
  denied.
\<close>

theorem every_hold_ends:
  assumes "coord_step\<^sup>*\<^sup>* (init_coord t d reg) s" "f < next_hold s"
  shows "(\<nexists>\<sigma>. \<sigma> 0 = s \<and> (\<forall>i. unattended (\<sigma> i) (\<sigma> (Suc i)))) \<and>
    (\<forall>s'. unattended\<^sup>*\<^sup>* s s' \<and> (\<nexists>s''. unattended s' s'') \<longrightarrow>
       (\<exists>v. futures s' f = Some v \<and>
          (f \<in> (\<lambda>(rid, h). h_future h) ` set (holds s) \<longrightarrow> v_decision v = VERDICT_DENY)))"
proof (intro conjI allI impI)
  show "\<nexists>\<sigma>. \<sigma> 0 = s \<and> (\<forall>i. unattended (\<sigma> i) (\<sigma> (Suc i)))" using coord_quiet.no_infinite_run by blast
next
  fix s' assume "unattended\<^sup>*\<^sup>* s s' \<and> (\<nexists>s''. unattended s' s'')"
  then have run: "unattended\<^sup>*\<^sup>* s s'" and stuck: "\<nexists>s''. unattended s' s''" by auto
  note star = closing_unattended_star [OF run coord_reachable_ok [OF assms(1)]]
  then have none: "owed s' = []" using unattended_stuck [OF _ stuck] by blast
  then obtain v where v: "futures s' f = Some v"
    using star [of f] assms(2) by (fastforce simp: holds_ok_def)
  have "v_decision v = VERDICT_DENY" if "f \<in> (\<lambda>(rid, h). h_future h) ` set (holds s)"
  proof -
    have "closing f s" using that unfolding closing_def by auto
    with star have "closing f s'" by blast
    with v none show ?thesis by (simp add: closing_def owed_def)
  qed
  with v show "\<exists>v. futures s' f = Some v \<and>
      (f \<in> (\<lambda>(rid, h). h_future h) ` set (holds s) \<longrightarrow> v_decision v = VERDICT_DENY)" by blast
qed

section \<open>The gate and revocation\<close>

lemma pending_recorded:
  assumes "create_request cs t0 rid ws dst dport pid pn t = (Some r, t')"
  shows "list_ex (\<lambda>q. untag q = pending_row rid ws dst dport pid pn t0) t'"
  using created_row [OF assms] by (auto simp: list_ex_iff)

text \<open>
  What \<open>hold\<close> lets through (C6). It answers allow at once only for a workspace in mode allow, or for an
  interactive one whose pause is running and which has no denial in effect for the destination. It holds
  only for an interactive workspace that is not paused, has a live decider and is below its cap of
  pending requests, and then the pending row is in the table and the future is new. Everything else, a
  database call that raises included, is denied.
\<close>

theorem hold_gate:
  assumes "hold w rid ws dst dport s = (r, s')"
  shows "case r of
      Completed v \<Rightarrow>
        v_decision v = VERDICT_DENY \<or>
        v_decision v = VERDICT_ALLOW \<and>
          (\<exists>x. get_workspace ws (wsdb s) = Some x \<and>
             (egress_mode x = EGRESS_MODE_ALLOW \<or>
              egress_mode x = EGRESS_MODE_INTERACTIVE \<and> s' = s \<and>
                (\<exists>until. consent_paused_until x = Some until \<and> now w < until) \<and>
                map_option ec_decision (active_verdict_for (now w) ws dst dport (ctable s)) \<noteq> Some DECISION_DENIED))
    | Held n \<Rightarrow>
        n = next_hold s \<and> futures s' n = futures s n \<and>
        (rate_limit w = 0 \<or> count_pending ws (ctable s) < rate_limit w) \<and>
        has_decider (monotonic w) (decider_timeout w) ws (co_registry s) \<and>
        list_ex (\<lambda>q. untag q = pending_row rid ws dst dport None None (now w)) (ctable s') \<and>
        (\<exists>x. get_workspace ws (wsdb s) = Some x \<and> egress_mode x = EGRESS_MODE_INTERACTIVE \<and>
           \<not> ws_is_paused (now w) (Some x))"
proof (cases r)
  case (Completed v)
  with assms show ?thesis
    by (auto simp: hold_def Let_def allow_mode_verdict_def static_denial_verdict_def paused_gate_verdict_def
        interactive_hold_def paused_verdict_def ws_is_allow_def ws_is_paused_def split: if_splits option.splits prod.splits)
next
  case (Held n)
  obtain row t where "create_request (settings w) (now w) rid ws dst dport None None (meanwhile w (ctable s)) = (Some row, t)"
      "register_hold w row (s\<lparr>ctable := t\<rparr>) = (n, s')" "ws_is_interactive w (get_workspace ws (wsdb s)) ws s"
      "\<not> ws_is_paused (now w) (get_workspace ws (wsdb s))"
      "rate_limit w = 0 \<or> count_pending ws (ctable s) < rate_limit w"
    using assms Held
    by (auto simp: hold_def Let_def allow_mode_verdict_def static_denial_verdict_def paused_gate_verdict_def
        interactive_hold_def split: if_splits option.splits prod.splits)
  moreover from this(2) have "n = next_hold s" "ctable s' = t" "futures s' = futures s"
    using futures_register [of w row "s\<lparr>ctable := t\<rparr>"] by (auto simp: register_hold_def Let_def)
  ultimately show ?thesis
    using Held pending_recorded by (auto simp: ws_is_interactive_def split: option.splits if_splits)
qed

lemma revoked_row:
  assumes "revoke cs at_time rid actor t = (Some r, t')"
  shows "list_ex (\<lambda>q. ec_id q = rid \<and> ec_decision q = DECISION_REVOKED) t'"
proof -
  let ?P = "\<lambda>r. ec_id r = rid \<and> ec_decision r \<in> {DECISION_ALLOWED, DECISION_DENIED}"
  let ?u = "map (\<lambda>r. if ?P r then revoke_row at_time actor r else r) t"
  have t': "t' = snd (restamp cs rid ?u)" and some: "filter ?P t \<noteq> []"
    using assms by (auto simp: revoke_def update_where_def Let_def split: if_splits)
  from some obtain q where q: "q \<in> set t" "?P q" by (auto simp: filter_empty_conv)
  have "revoke_row at_time actor q \<in> set ?u" using q by force
  then have "untag (revoke_row at_time actor q) \<in> set (map untag t')"
    unfolding t' untag_restamp by force
  then obtain r where r: "r \<in> set t'" "untag r = untag (revoke_row at_time actor q)" by auto
  from untag_eqD [OF r(2)] r(1) q show ?thesis by (auto simp: revoke_row_def list_ex_iff)
qed

lemma row_revoked_True:
  assumes "row_revoked w rid actor s = (Some True, s')"
  shows "list_ex (\<lambda>q. ec_id q = rid \<and> ec_decision q = DECISION_REVOKED) (ctable s')"
  using assms revoked_row
  by (auto simp: row_revoked_def get_request_def list_ex_iff find_Some_iff split: if_splits option.splits prod.splits)

lemma ctable_retract [simp]: "ctable (snd (retract_forever_entry w row d s)) = ctable s"
  by (simp add: retract_forever_entry_def split: option.splits)

lemma wsdb_frames [simp]: "wsdb (broadcast_rules w ws s) = wsdb s"
  by (simp add: broadcast_rules_def push_frame_def split: option.splits prod.splits)

lemma wsdb_row_revoked: "row_revoked w rid actor s = (r, s') \<Longrightarrow> wsdb s' = wsdb s"
  by (auto simp: row_revoked_def split: if_splits option.splits prod.splits)

lemma apply_revoke_True:
  assumes "apply_revoke w ack row rid actor s = (Some True, s')"
  obtains s1 where "row_revoked w rid actor s = (Some True, s1)"
    "if ec_duration row = Some Consent_Table.DURATION_FOREVER
     then retract_forever_entry w row (ec_decision row) s1 = (True, s') else s' = s1"
  using assms by (auto simp: apply_revoke_def split: if_splits option.splits prod.splits bool.splits)

lemma still_shared_ctable:
  "ctable s = ctable s' \<Longrightarrow> forever_entry_still_shared w row d entry s = forever_entry_still_shared w row d entry s'"
  by (simp add: forever_entry_still_shared_def)

lemma retract_effect:
  assumes "retract_forever_entry w row d s = (True, s')" "ec_host row \<noteq> []" "ec_ws row \<noteq> []"
    "forever_entry (ec_host row) (ec_port row) d = Some entry" "db_ok w Remove_Domain"
  shows "wsdb s' = (if forever_entry_still_shared w row d entry s' then wsdb s
    else snd (durable_remove w d (ec_ws row) entry (wsdb s)))"
proof -
  have "ctable s' = ctable s" using ctable_retract [of w row d s] assms(1) by simp
  from still_shared_ctable [OF this] assms show ?thesis
    by (auto simp: retract_forever_entry_def split: if_splits)
qed

lemma revoke_verdict_True:
  assumes "revoke_verdict w ack rid actor scope s = (Some True, s')" "revocable (get_request rid (ctable s)) scope"
  obtains s1 where "apply_revoke w ack (the (get_request rid (ctable s))) rid actor
      (s\<lparr>ctable := meanwhile w (ctable s)\<rparr>) = (Some True, s1)"
    "ctable s' = ctable s1" "wsdb s' = wsdb s1"
  using assms by (auto simp: revoke_verdict_def Let_def split: if_splits option.splits prod.splits bool.splits)

lemma revoke_verdict_revoked:
  assumes "revoke_verdict w ack rid actor scope s = (Some True, s')"
  shows "list_ex (\<lambda>q. ec_id q = rid \<and> ec_decision q = DECISION_REVOKED) (ctable s')"
proof (cases "revocable (get_request rid (ctable s)) scope")
  case True
  obtain s1 where s1: "apply_revoke w ack (the (get_request rid (ctable s))) rid actor
      (s\<lparr>ctable := meanwhile w (ctable s)\<rparr>) = (Some True, s1)"
      "ctable s' = ctable s1" using revoke_verdict_True [OF assms True] .
  obtain s2 where s2: "row_revoked w rid actor (s\<lparr>ctable := meanwhile w (ctable s)\<rparr>) = (Some True, s2)" and
      "if ec_duration (the (get_request rid (ctable s))) = Some Consent_Table.DURATION_FOREVER
       then retract_forever_entry w (the (get_request rid (ctable s))) (ec_decision (the (get_request rid (ctable s)))) s2 =
         (True, s1) else s1 = s2"
    using apply_revoke_True [OF s1(1)] .
  then have "ctable s1 = ctable s2" using ctable_retract by (metis snd_conv)
  with row_revoked_True [OF s2] s1(2) show ?thesis by simp
next
  case False
  with assms have "already_revoked_in_scope (get_request rid (ctable s)) scope" "s' = s"
    by (auto simp: revoke_verdict_def split: if_splits)
  then show ?thesis
    by (auto simp: already_revoked_in_scope_def get_request_def list_ex_iff find_Some_iff
        split: option.splits if_splits)
qed

lemma revoke_verdict_refused:
  assumes "revoke_verdict w ack rid actor scope s = (r, s')"
    "ack = Some False \<or> \<not> revocable (get_request rid (ctable s)) scope"
  shows "s' = s \<or> s' = s\<lparr>ctable := meanwhile w (ctable s)\<rparr>"
  using assms by (auto simp: revoke_verdict_def Let_def apply_revoke_def sidecar_acked_drop_def split: if_splits)


section \<open>A run\<close>

definition example_world :: world where
  "example_world = \<lparr>now = 20, monotonic = 20, decider_timeout = 30, settings = example_settings, rate_limit = 5,
     db_ok = \<lambda>_. True, send_ok = \<lambda>_. True, writers = \<lambda>_ d. d, meanwhile = \<lambda>t. t\<rparr>"

definition example_interactive :: workspaces where
  "example_interactive = [(''w1'', \<lparr>egress_mode = EGRESS_MODE_INTERACTIVE, consent_paused_until = None,
     allowed_domains = [], rejected_domains = []\<rparr>)]"

definition example_start :: coord where
  "example_start = init_coord [] example_interactive example_registry"

definition example_held :: coord where
  "example_held = snd (hold example_world ''r1'' ''w1'' ''h.org'' (Some 443) example_start)"

definition example_popped :: coord where
  "example_popped = (case pop_hold ''r1'' (Some ''w1'') example_held of
     (h, s) \<Rightarrow> s\<lparr>popped := (''r1'', the h, Resolver DECISION_ALLOWED ''u1'' DURATION_ONCE) # popped s\<rparr>)"

definition example_done :: coord where
  "example_done = snd (resolve_popped example_world ''r1'' \<lparr>h_future = 0, h_ws = ''w1'', h_task = 0\<rparr>
     DECISION_ALLOWED ''u1'' DURATION_ONCE (example_popped\<lparr>popped := []\<rparr>))"

lemmas start_eval = example_start_def init_coord_def example_interactive_def example_world_def

lemma example_decider: "has_decider 20 30 ''w1'' example_registry"
  by (simp add: has_decider_def registry_eval)

lemma example_hold:
  "fst (hold example_world ''r1'' ''w1'' ''h.org'' (Some 443) example_start) = Held 0"
  "core example_held = ([(''r1'', \<lparr>h_future = 0, h_ws = ''w1'', h_task = 0\<rparr>)], Map.empty, {0}, 1, [], [])"
  "ctable example_held = [pending_row ''r1'' ''w1'' ''h.org'' (Some 443) None None 20]"
  using example_decider
  by (simp_all add: example_held_def hold_def start_eval get_workspace_def ws_is_allow_def ws_is_paused_def
      ws_is_interactive_def interactive_hold_def count_pending_def register_hold_def Let_def core_frames table_eval)
    (simp_all add: core_def)

lemma example_held_step: "coord_step example_start example_held"
  unfolding example_held_def by (rule held) (simp add: example_start_def init_coord_def)

lemma example_reached: "coord_step\<^sup>*\<^sup>* (init_coord [] example_interactive example_registry) example_held"
  using example_held_step unfolding example_start_def by blast

theorem no_hold_forgotten_witness:
  "coord_step\<^sup>*\<^sup>* (init_coord [] example_interactive example_registry) example_held \<and>
   (futures example_held 0 = None \<and> 0 < next_hold example_held \<longleftrightarrow> count_list (owed example_held) 0 = 1)"
  using example_reached no_hold_forgotten [OF example_reached, of 0] by blast

theorem every_hold_ends_witness:
  "0 < next_hold example_held \<and>
   (\<nexists>\<sigma>. \<sigma> 0 = example_held \<and> (\<forall>i. unattended (\<sigma> i) (\<sigma> (Suc i))))"
proof -
  have "0 < next_hold example_held" using example_hold(2) by (simp add: core_def)
  with every_hold_ends [OF example_reached this] show ?thesis by blast
qed

theorem hold_gate_witness:
  "has_decider 20 30 ''w1'' example_registry \<and> list_ex (\<lambda>q. ec_id q = ''r1'') (ctable example_held)"
proof -
  have "hold example_world ''r1'' ''w1'' ''h.org'' (Some 443) example_start = (Held 0, example_held)"
    using example_hold(1) unfolding example_held_def by (metis prod.collapse)
  from hold_gate [OF this] show ?thesis
    by (auto simp: start_eval example_hold(3) pending_row_def)
qed

lemma example_popped_eq:
  "popped example_popped = [(''r1'', \<lparr>h_future = 0, h_ws = ''w1'', h_task = 0\<rparr>, Resolver DECISION_ALLOWED ''u1'' DURATION_ONCE)]"
  "futures example_popped = Map.empty" "ctable example_popped = ctable example_held"
  using example_hold(2)
  by (auto simp: example_popped_def pop_hold_def hold_in_scope_def core_def)

lemma example_resolved:
  "fst (resolve_popped example_world ''r1'' \<lparr>h_future = 0, h_ws = ''w1'', h_task = 0\<rparr>
     DECISION_ALLOWED ''u1'' DURATION_ONCE (example_popped\<lparr>popped := []\<rparr>)) =
   \<lparr>v_decision = VERDICT_ALLOW, v_reason = ''decided'', v_duration = Some DURATION_ONCE\<rparr>"
  by (simp add: resolve_popped_def decide_or_fail_close_def example_popped_eq example_hold(3) example_world_def
      table_eval build_verdict_def Let_def)

theorem allow_needs_decision_witness:
  "futures example_popped 0 = None \<and> map_option v_decision (futures example_done 0) = Some VERDICT_ALLOW \<and>
   (\<exists>rid actor. allow_recorded rid actor example_done)"
proof -
  let ?h = "\<lparr>h_future = 0, h_ws = ''w1'', h_task = 0\<rparr>"
  have "coord_step example_popped (snd (resolve_popped example_world ''r1'' ?h DECISION_ALLOWED ''u1'' DURATION_ONCE
      (example_popped\<lparr>popped := remove1 (''r1'', ?h, Resolver DECISION_ALLOWED ''u1'' DURATION_ONCE) (popped example_popped)\<rparr>)))"
    by (rule resolved) (simp add: example_popped_eq)
  then have step: "coord_step example_popped example_done"
    by (simp add: example_popped_eq example_done_def)
  have none: "futures example_popped 0 = None" by (simp add: example_popped_eq)
  have "futures example_done = futures (set_result 0 (fst (resolve_popped example_world ''r1'' ?h DECISION_ALLOWED ''u1''
      DURATION_ONCE (example_popped\<lparr>popped := []\<rparr>))) (example_popped\<lparr>popped := []\<rparr>))"
    using core_futures [OF core_resolve_popped] unfolding example_done_def by simp
  then have some: "futures example_done 0 = Some \<lparr>v_decision = VERDICT_ALLOW, v_reason = ''decided'', v_duration = Some DURATION_ONCE\<rparr>"
    by (simp add: example_resolved set_result_def none)
  from allow_needs_decision [OF step none some] none some show ?thesis by auto
qed

definition example_verdict :: ec_row where
  "example_verdict = decide_row DECISION_DENIED Consent_Table.DURATION_FOREVER 11 ''u1''
     (pending_row ''r1'' ''w1'' ''h.org'' None None None 10)"

definition example_decided :: coord where
  "example_decided = example_held\<lparr>ctable := [example_verdict]\<rparr>"

lemmas verdict_eval = example_decided_def example_verdict_def decide_row_def pending_row_def



section \<open>A verdict for ever\<close>

lemma find_map_same: "(\<And>x. P (f x) = P x) \<Longrightarrow> find P (map f xs) = map_option f (find P xs)"
  by (induction xs) auto

lemma stamp_untag: "stamp_hmac cs row t = (r, t') \<Longrightarrow> untag r = untag row"
  by (auto simp: stamp_hmac_def untag_def split: option.splits)

lemma decide_first:
  assumes "get_request rid t = Some q" "ec_decision q = DECISION_PENDING"
  obtains r t' where "decide cs at_time rid DECISION_ALLOWED actor Consent_Table.DURATION_FOREVER t = Inr (Some r, t')"
    "ec_ws r = ec_ws q" "ec_host r = ec_host q" "ec_port r = ec_port q"
proof -
  let ?P = "\<lambda>r. ec_id r = rid \<and> ec_decision r = DECISION_PENDING"
  let ?f = "\<lambda>r. if ?P r then decide_row DECISION_ALLOWED Consent_Table.DURATION_FOREVER at_time actor r else r"
  have q: "q \<in> set t" "ec_id q = rid" using assms(1) by (auto simp: get_request_def find_Some_iff)
  then have "filter ?P t \<noteq> []" using assms(2) by (auto simp: filter_empty_conv)
  moreover have "find (\<lambda>r. ec_id r = rid) (map ?f t) = Some (?f q)"
    using assms(1) by (subst find_map_same) (auto simp: get_request_def decide_row_def)
  moreover obtain r t' where st: "stamp_hmac cs (?f q) (map ?f t) = (r, t')" by fastforce
  ultimately have "decide cs at_time rid DECISION_ALLOWED actor Consent_Table.DURATION_FOREVER t = Inr (Some r, t')"
    by (simp add: decide_def update_where_def Let_def DURATIONS_def restamp_def select_row_def)
  moreover have "untag r = untag (decide_row DECISION_ALLOWED Consent_Table.DURATION_FOREVER at_time actor q)"
    using stamp_untag [OF st] q(2) assms(2) by simp
  then have "ec_ws r = ec_ws q \<and> ec_host r = ec_host q \<and> ec_port r = ec_port q"
    by (cases r; cases q; simp add: untag_def decide_row_def)
  ultimately show thesis using that by blast
qed

lemma wsdb_push [simp]:
  "wsdb (push_frame w ws f s) = wsdb s" "wsdb (broadcast_resolved w rid ws d s) = wsdb s"
  "wsdb (set_result f' v s) = wsdb s"
  by (simp_all add: push_frame_def broadcast_resolved_def set_result_def split: prod.splits)

lemma resolve_persists:
  assumes "map_of (holds s) rid = Some h" "hold_in_scope h scope" "db_ok w Decide"
    "get_request rid (ctable s) = Some q" "ec_decision q = DECISION_PENDING"
  obtains r where "wsdb (snd (resolve w rid DECISION_ALLOWED actor Consent_Table.DURATION_FOREVER scope s)) =
      wsdb (persist_forever_allow w r s)"
    "ec_ws r = ec_ws q" "ec_host r = ec_host q" "ec_port r = ec_port q"
proof -
  obtain r t' where dec: "decide (settings w) (now w) rid DECISION_ALLOWED actor Consent_Table.DURATION_FOREVER (ctable s) =
      Inr (Some r, t')" and r: "ec_ws r = ec_ws q" "ec_host r = ec_host q" "ec_port r = ec_port q"
    using decide_first [OF assms(4,5)] .
  have persist: "wsdb (persist_forever_allow w r s1) =
      (case forever_allow_entry r of
         None \<Rightarrow> wsdb s1
       | Some entry \<Rightarrow> if db_ok w Add_Domain then snd (add_allowed_domain (writers w) (ec_ws r) entry (wsdb s1)) else wsdb s1)"
    for s1
    by (simp add: persist_forever_allow_def split: option.splits)
  have "wsdb (snd (resolve w rid DECISION_ALLOWED actor Consent_Table.DURATION_FOREVER scope s)) =
      wsdb (persist_forever_allow w r s)"
    using assms(1-3) dec
    by (simp add: resolve_def pop_hold_def resolve_popped_def decide_or_fail_close_def Let_def build_verdict_def
        finish_resolve_def persist split: option.splits)
  with r that show thesis by blast
qed

lemma wsdb_hold: "wsdb (snd (hold w rid ws dst dport s)) = wsdb s"
proof -
  have reg: "register_hold w r s = (n, s') \<Longrightarrow> wsdb s' = wsdb s" for r n s s'
    by (auto simp: register_hold_def Let_def fanout_def)
  obtain r s' where "hold w rid ws dst dport s = (r, s')" by fastforce
  then show ?thesis
    by (auto simp: hold_def Let_def allow_mode_verdict_def static_denial_verdict_def paused_gate_verdict_def
        interactive_hold_def split: if_splits option.splits prod.splits dest!: reg)
qed

end
