(* ===== verification/Sidecar_Connections.thy ===== *)
theory Sidecar_Connections
  imports Prelude
begin

text \<open>
  \<open>klangk/sidecar_connections.py\<close>: the live sidecar sockets by workspace and the drop-rule acks that
  are awaited. Sockets and futures are numbers. A future is settled when it has a result or was
  cancelled by the time-out of the awaiting \<open>revoke\<close>; the done-callback that removes its entry runs with
  the settling. The uuid of an ack and whether a send enqueues are arguments.
\<close>

section \<open>Definitions\<close>

record ack =
  ack_future :: nat
  ack_ws :: string

record sidecar_conns =
  conns :: "(string, nat) dict"
  pending_acks :: "(string, ack) dict"
  ack_results :: "nat \<rightharpoonup> bool option"
  next_future :: nat

definition init_conns :: sidecar_conns where
  "init_conns = \<lparr>conns = [], pending_acks = [], ack_results = Map.empty, next_future = 0\<rparr>"

datatype drop_frame = Drop_Rule nat string string string

definition register :: "string \<Rightarrow> nat \<Rightarrow> sidecar_conns \<Rightarrow> sidecar_conns" where
  "register workspace_id sock c = c\<lparr>conns := AList.update workspace_id sock (conns c)\<rparr>"

definition stale_ack_ids :: "string \<Rightarrow> sidecar_conns \<Rightarrow> string list" where
  "stale_ack_ids workspace_id c =
     map fst (filter (\<lambda>(aid, entry). ack_ws entry = workspace_id) (pending_acks c))"

text \<open>\<open>Some (Some b)\<close> is a result, \<open>Some None\<close> a cancelled future.\<close>

definition fail_ack :: "ack option \<Rightarrow> sidecar_conns \<Rightarrow> sidecar_conns" where
  "fail_ack entry c =
     (case entry of
        None \<Rightarrow> c
      | Some e \<Rightarrow>
          (if ack_results c (ack_future e) = None
           then c\<lparr>ack_results := (ack_results c)(ack_future e \<mapsto> Some False)\<rparr> else c))"

definition pop_ack :: "string \<Rightarrow> sidecar_conns \<Rightarrow> ack option \<times> sidecar_conns" where
  "pop_ack aid c = (map_of (pending_acks c) aid, c\<lparr>pending_acks := AList.delete aid (pending_acks c)\<rparr>)"

definition fail_pending_acks :: "string \<Rightarrow> sidecar_conns \<Rightarrow> string list \<times> sidecar_conns" where
  "fail_pending_acks workspace_id c =
     (let stale = stale_ack_ids workspace_id c
      in (stale, fold (\<lambda>aid c. (case pop_ack aid c of (entry, c) \<Rightarrow> fail_ack entry c)) stale c))"

definition deregister :: "string \<Rightarrow> nat \<Rightarrow> sidecar_conns \<Rightarrow> sidecar_conns" where
  "deregister workspace_id sock c =
     (case map_of (conns c) workspace_id of
        Some registered \<Rightarrow>
          (if registered \<noteq> sock then c
           else snd (fail_pending_acks workspace_id (c\<lparr>conns := AList.delete workspace_id (conns c)\<rparr>)))
      | None \<Rightarrow> snd (fail_pending_acks workspace_id (c\<lparr>conns := AList.delete workspace_id (conns c)\<rparr>)))"

definition get_conn :: "string \<Rightarrow> sidecar_conns \<Rightarrow> nat option" where
  "get_conn workspace_id c = map_of (conns c) workspace_id"

definition send_drop ::
  "(nat \<Rightarrow> bool) \<Rightarrow> string \<Rightarrow> string \<Rightarrow> string \<Rightarrow> string \<Rightarrow> sidecar_conns \<Rightarrow>
     nat option \<times> drop_frame list \<times> sidecar_conns" where
  "send_drop send_ok ack_id workspace_id host decision c =
     (case map_of (conns c) workspace_id of
        None \<Rightarrow> (None, [], c)
      | Some sock \<Rightarrow>
          (let fut = next_future c;
               pending = AList.update ack_id \<lparr>ack_future = fut, ack_ws = workspace_id\<rparr> (pending_acks c)
           in if send_ok sock
              then (Some fut, [Drop_Rule sock ack_id host decision],
                    c\<lparr>pending_acks := pending, next_future := Suc fut\<rparr>)
              else (None, [], c\<lparr>pending_acks := AList.delete ack_id pending\<rparr>)))"

definition resolve_ack :: "string \<Rightarrow> bool \<Rightarrow> sidecar_conns \<Rightarrow> sidecar_conns" where
  "resolve_ack ack_id ok c =
     (case pop_ack ack_id c of (entry, c) \<Rightarrow>
       (case entry of
          None \<Rightarrow> c
        | Some e \<Rightarrow>
            (if ack_results c (ack_future e) = None
             then c\<lparr>ack_results := (ack_results c)(ack_future e \<mapsto> Some ok)\<rparr> else c)))"

text \<open>\<open>wait_for\<close> gives up: the future is cancelled and its done-callback removes the entry.\<close>

definition ack_timeout :: "string \<Rightarrow> sidecar_conns \<Rightarrow> sidecar_conns" where
  "ack_timeout ack_id c =
     (case pop_ack ack_id c of (entry, c) \<Rightarrow>
       (case entry of
          None \<Rightarrow> c
        | Some e \<Rightarrow>
            (if ack_results c (ack_future e) = None
             then c\<lparr>ack_results := (ack_results c)(ack_future e \<mapsto> None)\<rparr> else c)))"

definition stop :: "sidecar_conns \<Rightarrow> sidecar_conns" where
  "stop c =
     (fold (\<lambda>(aid, entry) c. fail_ack (Some entry) c) (pending_acks c) c)
       \<lparr>pending_acks := [], conns := []\<rparr>"

text \<open>One event of the registry; an ack id (a uuid) is new.\<close>

inductive conn_step :: "sidecar_conns \<Rightarrow> sidecar_conns \<Rightarrow> bool" where
  registered: "conn_step c (register ws sock c)"
| deregistered: "conn_step c (deregister ws sock c)"
| dropped: "map_of (pending_acks c) aid = None \<Longrightarrow> conn_step c (snd (snd (send_drop send_ok aid ws host d c)))"
| acked: "conn_step c (resolve_ack aid ok c)"
| timed_out: "conn_step c (ack_timeout aid c)"
| stopped: "conn_step c (stop c)"


section \<open>Lemmas\<close>

text \<open>
  A pending entry holds an unsettled future, no two entries share one, and every future that was
  handed out is settled or pending.
\<close>

definition pending_futures :: "sidecar_conns \<Rightarrow> nat list" where
  "pending_futures c = map (\<lambda>(aid, e). ack_future e) (pending_acks c)"

definition acks_ok :: "sidecar_conns \<Rightarrow> bool" where
  "acks_ok c \<longleftrightarrow>
     dict_ok (pending_acks c) \<and> distinct (pending_futures c) \<and>
     (\<forall>f. f \<in> set (pending_futures c) \<longleftrightarrow> f < next_future c \<and> ack_results c f = None) \<and>
     (\<forall>f. next_future c \<le> f \<longrightarrow> ack_results c f = None)"

text \<open>Removing an entry and settling its future.\<close>

definition settle :: "string \<Rightarrow> bool option \<Rightarrow> sidecar_conns \<Rightarrow> sidecar_conns" where
  "settle aid res c =
     (case map_of (pending_acks c) aid of
        None \<Rightarrow> c
      | Some e \<Rightarrow> c\<lparr>pending_acks := AList.delete aid (pending_acks c),
                   ack_results := (ack_results c)(ack_future e \<mapsto> res)\<rparr>)"

lemma pending_unsettled:
  assumes "acks_ok c" "map_of (pending_acks c) aid = Some e"
  shows "ack_results c (ack_future e) = None" "ack_future e \<in> set (pending_futures c)"
proof -
  show "ack_future e \<in> set (pending_futures c)"
    using map_of_SomeD [OF assms(2)] by (force simp: pending_futures_def)
  then show "ack_results c (ack_future e) = None" using assms(1) by (simp add: acks_ok_def)
qed

lemma delete_absent: "map_of d k = None \<Longrightarrow> AList.delete k d = d"
  by (simp add: delete_idem map_of_eq_None_iff)

lemma resolve_ack_settle: "acks_ok c \<Longrightarrow> resolve_ack aid ok c = settle aid (Some ok) c"
  using pending_unsettled(1) [of c aid]
  by (cases "map_of (pending_acks c) aid") (simp_all add: resolve_ack_def settle_def pop_ack_def delete_absent)

lemma ack_timeout_settle: "acks_ok c \<Longrightarrow> ack_timeout aid c = settle aid None c"
  using pending_unsettled(1) [of c aid]
  by (cases "map_of (pending_acks c) aid") (simp_all add: ack_timeout_def settle_def pop_ack_def delete_absent)

lemma fail_settle: "acks_ok c \<Longrightarrow> (case pop_ack aid c of (entry, c) \<Rightarrow> fail_ack entry c) = settle aid (Some False) c"
  using pending_unsettled(1) [of c aid]
  by (cases "map_of (pending_acks c) aid") (simp_all add: fail_ack_def settle_def pop_ack_def delete_absent)

lemma delete_futures:
  assumes "distinct (map (\<lambda>(aid, e). ack_future e) d)" "map_of d aid = Some e" "dict_ok d"
  shows "distinct (map (\<lambda>(aid, e). ack_future e) (AList.delete aid d))"
    "set (map (\<lambda>(aid, e). ack_future e) (AList.delete aid d)) =
       set (map (\<lambda>(aid, e). ack_future e) d) - {ack_future e}"
proof -
  show "distinct (map (\<lambda>(aid, e). ack_future e) (AList.delete aid d))"
    using assms(1) by (simp add: AList.delete_eq case_prod_unfold distinct_map_filter)
  have mem: "(aid, e) \<in> set d" using assms(2) by (rule map_of_SomeD)
  have "{p \<in> set d. fst p \<noteq> aid} = set d - {(aid, e)}"
    using mem assms(3) by (auto dest: eq_key_imp_eq_value)
  moreover have "inj_on (\<lambda>(aid, e). ack_future e) (set d)" using assms(1) by (simp add: distinct_map)
  ultimately show "set (map (\<lambda>(aid, e). ack_future e) (AList.delete aid d)) =
      set (map (\<lambda>(aid, e). ack_future e) d) - {ack_future e}"
    using mem by (simp add: set_dict_delete inj_on_image_set_diff)
qed

lemma acks_ok_settle:
  assumes "acks_ok c"
  shows "acks_ok (settle aid res c)"
proof (cases "map_of (pending_acks c) aid")
  case None
  with assms show ?thesis by (simp add: settle_def)
next
  case (Some e)
  note del = delete_futures [OF _ Some]
  show ?thesis
    using assms Some del pending_unsettled(2) [OF assms Some]
    by (auto simp: settle_def acks_ok_def pending_futures_def simp del: set_map)
qed

lemma acks_ok_settles:
  assumes "acks_ok c"
  shows "acks_ok (fold (\<lambda>aid c. (case pop_ack aid c of (entry, c) \<Rightarrow> fail_ack entry c)) aids c) \<and>
    pending_acks (fold (\<lambda>aid c. (case pop_ack aid c of (entry, c) \<Rightarrow> fail_ack entry c)) aids c) =
      filter (\<lambda>(aid, e). aid \<notin> set aids) (pending_acks c)"
  using assms
proof (induction aids arbitrary: c)
  case (Cons aid aids)
  have "pending_acks (settle aid (Some False) c) = AList.delete aid (pending_acks c)"
    by (cases "map_of (pending_acks c) aid") (simp_all add: settle_def delete_absent)
  then show ?case
    using Cons.IH [OF acks_ok_settle [OF Cons.prems]] fail_settle [OF Cons.prems]
    by (auto simp: AList.delete_eq case_prod_unfold intro: filter_cong)
qed (simp add: case_prod_unfold)

lemma deregister_cases:
  "deregister ws sock c =
     (if map_of (conns c) ws \<in> {None, Some sock}
      then snd (fail_pending_acks ws (c\<lparr>conns := AList.delete ws (conns c)\<rparr>)) else c)"
  by (auto simp: deregister_def split: option.splits)

lemma acks_ok_conns [simp]: "acks_ok (c\<lparr>conns := x\<rparr>) = acks_ok c"
  by (simp add: acks_ok_def pending_futures_def)

lemma acks_ok_deregister: "acks_ok c \<Longrightarrow> acks_ok (deregister ws sock c)"
  by (simp add: deregister_cases fail_pending_acks_def Let_def acks_ok_settles)

lemma acks_ok_send:
  assumes "acks_ok c" "map_of (pending_acks c) aid = None"
  shows "acks_ok (snd (snd (send_drop send_ok aid ws host d c)))"
proof -
  have key: "aid \<notin> fst ` set (pending_acks c)" using assms(2) by (simp add: map_of_eq_None_iff)
  have "aid \<notin> fst ` set d \<Longrightarrow> AList.update aid e d = d @ [(aid, e)]" for e and d :: "(string, ack) dict"
    by (induction d) auto
  with key have "AList.update aid e (pending_acks c) = pending_acks c @ [(aid, e)]" for e
    by simp
  moreover have "AList.delete aid (pending_acks c @ [(aid, e)]) = pending_acks c" for e
    using key by (simp add: AList.delete_eq filter_id_conv case_prod_unfold rev_image_eqI) (metis imageI)
  ultimately show ?thesis
    using assms key by (auto simp: send_drop_def Let_def acks_ok_def pending_futures_def split: option.splits)
qed

lemma fail_ack_Some:
  "ack_results (fail_ack (Some e) c) f =
     (if f = ack_future e \<and> ack_results c f = None then Some (Some False) else ack_results c f)"
  "next_future (fail_ack (Some e) c) = next_future c"
  by (auto simp: fail_ack_def)

lemma stop_results:
  "ack_results (fold (\<lambda>(aid, e) c. fail_ack (Some e) c) ps c) f =
     (if ack_results c f = None \<and> f \<in> (\<lambda>(aid, e). ack_future e) ` set ps then Some (Some False)
      else ack_results c f)"
  and stop_next: "next_future (fold (\<lambda>(aid, e) c. fail_ack (Some e) c) ps c) = next_future c"
  by (induction ps arbitrary: c) (auto simp: fail_ack_Some split: if_splits)

lemma acks_ok_stop: "acks_ok c \<Longrightarrow> acks_ok (stop c)"
  by (auto simp: stop_def acks_ok_def pending_futures_def stop_results stop_next)

lemma conn_step_ok: "conn_step c c' \<Longrightarrow> acks_ok c \<Longrightarrow> acks_ok c'"
  by (induction rule: conn_step.induct)
    (simp_all add: register_def acks_ok_deregister acks_ok_send resolve_ack_settle ack_timeout_settle
      acks_ok_settle acks_ok_stop)

interpretation conn_run: step_invariant conn_step "\<lambda>c. c = init_conns" acks_ok
  by unfold_locales (simp add: acks_ok_def init_conns_def pending_futures_def, rule conn_step_ok)


section \<open>Properties\<close>

text \<open>
  No awaiting revocation is forgotten. Whatever happens to the registry, the futures it has
  handed out and not settled are exactly those of the pending entries, one each. When the socket that
  owns a workspace's registration goes away, every entry of that workspace is gone (its future
  settled), while the teardown of a replaced socket changes nothing; shutdown leaves no entry.
\<close>

theorem drop_acks_settled:
  assumes "rtranclp conn_step init_conns c"
  shows "(\<forall>f. f \<in> set (pending_futures c) \<longleftrightarrow> f < next_future c \<and> ack_results c f = None) \<and>
    distinct (pending_futures c) \<and>
    (map_of (conns c) ws = Some sock \<longrightarrow>
       filter (\<lambda>(aid, e). ack_ws e = ws) (pending_acks (deregister ws sock c)) = [] \<and>
       map_of (conns (deregister ws sock c)) ws = None \<and>
       (sock' \<noteq> sock \<longrightarrow> deregister ws sock' c = c)) \<and>
    pending_acks (stop c) = []"
proof -
  have ok: "acks_ok c"
    using assms by (rule conn_run.reachable_inv) simp
  have conns_fail: "conns (fold (\<lambda>aid c. (case pop_ack aid c of (entry, c) \<Rightarrow> fail_ack entry c)) aids c) = conns c"
    for aids c
    by (induction aids arbitrary: c) (simp_all add: pop_ack_def fail_ack_def split: option.splits)
  have stale: "a \<in> set (stale_ack_ids (ack_ws e) (c\<lparr>conns := x\<rparr>))" if "(a, e) \<in> set (pending_acks c)" for a e x
    using that by (force simp: stale_ack_ids_def)
  have "filter (\<lambda>(aid, e). ack_ws e = ws) (pending_acks (deregister ws sock c)) = []"
    "map_of (conns (deregister ws sock c)) ws = None" if "map_of (conns c) ws = Some sock"
    using that ok acks_ok_settles [of "c\<lparr>conns := AList.delete ws (conns c)\<rparr>"] stale
    by (auto simp: deregister_cases fail_pending_acks_def Let_def conns_fail dict_simps filter_empty_conv)
  moreover have "deregister ws sock' c = c" if "map_of (conns c) ws = Some sock" "sock' \<noteq> sock"
    using that by (simp add: deregister_cases)
  ultimately show ?thesis using ok by (simp add: acks_ok_def stop_def)
qed

definition example_conns :: sidecar_conns where
  "example_conns = snd (snd (send_drop (\<lambda>_. True) ''a1'' ''w1'' ''h.org'' ''allowed'' (register ''w1'' 7 init_conns)))"

theorem drop_acks_settled_witness:
  "pending_futures example_conns = [0] \<and> map_of (conns example_conns) ''w1'' = Some 7 \<and>
   filter (\<lambda>(aid, e). ack_ws e = ''w1'') (pending_acks (deregister ''w1'' 7 example_conns)) = [] \<and>
   deregister ''w1'' 6 example_conns = example_conns"
proof -
  have "conn_step init_conns (register ''w1'' 7 init_conns)" by (rule registered)
  moreover have "conn_step (register ''w1'' 7 init_conns) example_conns"
    unfolding example_conns_def by (rule dropped) (simp add: register_def init_conns_def)
  ultimately have "rtranclp conn_step init_conns example_conns"
    by (meson rtranclp.rtrancl_refl rtranclp.rtrancl_into_rtrancl)
  moreover have "map_of (conns example_conns) ''w1'' = Some 7" "pending_futures example_conns = [0]"
    by (simp_all add: example_conns_def send_drop_def register_def init_conns_def pending_futures_def)
  ultimately show ?thesis using drop_acks_settled [of example_conns "''w1''" 7 6] by simp
qed

end
