(* ===== verification/Consent_Link.thy ===== *)
theory Consent_Link
  imports Coordinator Sidecar_Connections Consent_Client
begin

text \<open>
  \<open>klangk/wshandler/sidecar.py\<close>: the server's end of the socket to the sidecar - authenticating it,
  dispatching its frames, relaying verdicts - and the two ends together: the coordinator with the
  registry of sidecar sockets, the server's frames with the sidecar's client.
\<close>

section \<open>The server's end\<close>

text \<open>A decoded JSON value with Python's distinction between ints and floats.\<close>

datatype wire =
    WNull
  | WBool bool
  | WInt int
  | WFloat real
  | WStr string
  | WArr "wire list"
  | WObj "(string \<times> wire) list"

definition wget :: "(string \<times> wire) list \<Rightarrow> string \<Rightarrow> wire" where
  "wget msg key = (case map_of msg key of None \<Rightarrow> WNull | Some v \<Rightarrow> v)"

fun wtruthy :: "wire \<Rightarrow> bool" where
  "wtruthy WNull = False"
| "wtruthy (WBool b) = b"
| "wtruthy (WInt i) = (i \<noteq> 0)"
| "wtruthy (WFloat r) = (r \<noteq> 0)"
| "wtruthy (WStr s) = (s \<noteq> [])"
| "wtruthy (WArr xs) = (xs \<noteq> [])"
| "wtruthy (WObj xs) = (xs \<noteq> [])"

definition egress_token :: "string \<Rightarrow> string option" where
  "egress_token authorization =
     (if startswith authorization ''Bearer '' then Some (drop 7 authorization) else None)"

text \<open>\<open>decode_workspace_token\<close> of the auth module: expired, invalid, or the workspace id.\<close>

datatype token_result = Token_Expired | Token_Invalid | Token_For string

definition authenticate_egress_socket ::
  "(string \<Rightarrow> token_result) \<Rightarrow> string \<Rightarrow> (nat \<times> string) + string" where
  "authenticate_egress_socket decode_workspace_token authorization =
     (case egress_token authorization of
        None \<Rightarrow> Inl (4001, ''Missing token'')
      | Some token \<Rightarrow>
          (if token = [] then Inl (4001, ''Missing token'')
           else case decode_workspace_token token of
                  Token_Expired \<Rightarrow> Inl (4002, ''Token expired'')
                | Token_Invalid \<Rightarrow> Inl (4001, ''Invalid token'')
                | Token_For ws \<Rightarrow> Inr ws))"

definition valid_dport :: "wire \<Rightarrow> bool" where
  "valid_dport dport = (case dport of WNull \<Rightarrow> True | WInt _ \<Rightarrow> True | _ \<Rightarrow> False)"

definition parse_egress_fields :: "(string \<times> wire) list \<Rightarrow> (string \<times> string \<times> int option) option" where
  "parse_egress_fields msg =
     (case (wget msg ''id'', wget msg ''dst'') of
        (WStr local_id, WStr dst) \<Rightarrow>
          (if \<not> valid_dport (wget msg ''dport'') then None
           else Some (local_id, dst, case wget msg ''dport'' of WInt p \<Rightarrow> Some p | _ \<Rightarrow> None))
      | _ \<Rightarrow> None)"

text \<open>
  What a frame does: an ack settles a future, an activity frame is recorded, an egress frame starts a
  relay task. A drop ack whose id is not hashable makes the lookup raise \<open>TypeError\<close>, which ends the
  event loop of the socket.
\<close>

datatype relay = Relay string string "int option"

record link =
  link_conns :: sidecar_conns
  activity :: "string list"
  relays :: "relay list"

datatype link_error = TypeError

fun hashable :: "wire \<Rightarrow> bool" where
  "hashable (WArr _) = False"
| "hashable (WObj _) = False"
| "hashable _ = True"

definition dispatch_sidecar_message ::
  "string set \<Rightarrow> string \<Rightarrow> (string \<times> wire) list \<Rightarrow> link \<Rightarrow> link_error + link" where
  "dispatch_sidecar_message containers workspace_id msg l =
     (let mtype = wget msg ''type''
      in if mtype = WStr ''drop_ack''
         then (if \<not> hashable (wget msg ''id'') then Inl TypeError
               else Inr (case wget msg ''id'' of
                      WStr ack_id \<Rightarrow> l\<lparr>link_conns := resolve_ack ack_id (wtruthy (wget msg ''ok'')) (link_conns l)\<rparr>
                    | _ \<Rightarrow> l))
         else if mtype = WStr ''activity''
         then Inr (if workspace_id \<in> containers then l\<lparr>activity := activity l @ [workspace_id]\<rparr> else l)
         else if mtype \<noteq> WStr ''egress'' then Inr l
         else case parse_egress_fields msg of
                None \<Rightarrow> Inr l
              | Some (local_id, dst, dport) \<Rightarrow> Inr (l\<lparr>relays := relays l @ [Relay local_id dst dport]\<rparr>))"

text \<open>The frame a relay task sends when its future has the verdict.\<close>

definition relay_verdict_frame :: "string \<Rightarrow> relay_verdict \<Rightarrow> (string \<times> wire) list" where
  "relay_verdict_frame local_id v =
     [(''type'', WStr ''verdict''), (''id'', WStr local_id), (''decision'', WStr (v_decision v)),
      (''duration'', case v_duration v of None \<Rightarrow> WStr ''once'' | Some d \<Rightarrow> WStr d)]"


section \<open>Both ends\<close>

text \<open>What the sidecar's \<open>json.loads\<close> makes of a frame, and the frames of its client.\<close>

fun to_json :: "wire \<Rightarrow> json" where
  "to_json WNull = JNull"
| "to_json (WBool b) = JBool b"
| "to_json (WInt i) = JNum (real_of_int i)"
| "to_json (WFloat r) = JNum r"
| "to_json (WStr s) = JStr s"
| "to_json (WArr xs) = JArr (map to_json xs)"
| "to_json (WObj kvs) = JObj (map (\<lambda>(k, v). (k, to_json v)) kvs)"

fun client_frame :: "frame \<Rightarrow> (string \<times> wire) list" where
  "client_frame (Egress lid dst dport) =
     [(''type'', WStr ''egress''), (''id'', WStr lid), (''dst'', WStr dst), (''dport'', WInt (int dport))]"
| "client_frame Activity = [(''type'', WStr ''activity'')]"
| "client_frame (DropAck ack_id ok) = [(''type'', WStr ''drop_ack''), (''id'', WStr ack_id), (''ok'', WBool ok)]"

fun drop_rule_frame :: "drop_frame \<Rightarrow> (string \<times> wire) list" where
  "drop_rule_frame (Drop_Rule sock ack_id host decision) =
     [(''type'', WStr ''drop_rule''), (''id'', WStr ack_id), (''host'', WStr host), (''decision'', WStr decision)]"

text \<open>
  The coordinator's \<open>revoke\<close> on the registry: what \<open>send_drop\<close> returned, and the answer that came within
  the time limit (\<open>None\<close>: it did not).
\<close>

definition drop_ack_of :: "nat option \<Rightarrow> bool option \<Rightarrow> bool option" where
  "drop_ack_of fut answer =
     (case fut of None \<Rightarrow> None | Some _ \<Rightarrow> Some (case answer of None \<Rightarrow> False | Some ok \<Rightarrow> ok))"

definition revoke_over_link ::
  "world \<Rightarrow> (nat \<Rightarrow> bool) \<Rightarrow> string \<Rightarrow> bool option \<Rightarrow> string \<Rightarrow> string \<Rightarrow> string option \<Rightarrow> sidecar_conns \<times> coord \<Rightarrow>
     bool option \<times> drop_frame list \<times> sidecar_conns \<times> coord" where
  "revoke_over_link w enqueues ack_id answer request_id revoked_by scope cs =
     (case cs of (c, s) \<Rightarrow>
       (case get_request request_id (ctable s) of
          Some row \<Rightarrow>
            (if db_ok w Get_Request \<and> revocable (Some row) scope
             then (case send_drop enqueues ack_id (ec_ws row) (ec_host row) (ec_decision row) c of
                     (fut, frames, c) \<Rightarrow>
                       (case revoke_verdict w (drop_ack_of fut answer) request_id revoked_by scope s of
                          (r, s) \<Rightarrow> (r, frames, c, s)))
             else (case revoke_verdict w None request_id revoked_by scope s of (r, s) \<Rightarrow> (r, [], c, s)))
        | None \<Rightarrow> (case revoke_verdict w None request_id revoked_by scope s of (r, s) \<Rightarrow> (r, [], c, s))))"

section \<open>Properties\<close>

lemma jget_frame:
  "jget (map (\<lambda>(k, v). (k, to_json v)) msg) key = to_json (wget msg key)"
  by (simp add: jget_def wget_def map_of_map comp_def split: option.splits)



text \<open>
  A revocation waits for the sidecar. When the workspace has a registered sidecar and the drop frame was
  put on its queue, \<open>revoke\<close> of a verdict in force answers true only if the sidecar acknowledged the drop of
  exactly that host and decision.
\<close>

theorem revoke_needs_ack:
  assumes "get_request rid (ctable s) = Some row" "revocable (Some row) scope"
    and "map_of (conns c) (ec_ws row) = Some sock" "enqueues sock"
    and "revoke_over_link w enqueues ack_id answer rid actor scope (c, s) = (Some True, frames, c', s')"
  shows "answer = Some True \<and> frames = [Drop_Rule sock ack_id (ec_host row) (ec_decision row)]"
proof (cases "answer = Some True")
  case True
  then show ?thesis
    using assms by (auto simp: revoke_over_link_def send_drop_def revoke_verdict_def Let_def split: if_splits prod.splits)
next
  case False
  then have "revoke_verdict w (Some False) rid actor scope s = (Some True, s')"
    using assms by (auto simp: revoke_over_link_def send_drop_def drop_ack_of_def Let_def revoke_verdict_def
        split: if_splits prod.splits option.splits)
  with assms(1,2) show ?thesis
    by (auto simp: revoke_verdict_def apply_revoke_def sidecar_acked_drop_def split: if_splits)
qed

definition example_link :: sidecar_conns where
  "example_link = register ''w1'' 7 init_conns"

lemma example_lookup:
  "get_request ''r1'' (ctable example_decided) = Some example_verdict" "revocable (Some example_verdict) (Some ''w1'')"
  "map_of (conns example_link) (ec_ws example_verdict) = Some 7" "ec_ws example_verdict = ''w1''"
  by (simp_all add: get_request_def revocable_def verdict_eval example_link_def register_def init_conns_def)

lemma example_revoke:
  "fst (revoke_verdict example_world None ''r1'' ''u1'' (Some ''w1'') example_decided) = Some True"
  "revoke_verdict example_world (Some True) ''r1'' ''u1'' (Some ''w1'') example_decided =
   revoke_verdict example_world None ''r1'' ''u1'' (Some ''w1'') example_decided"
  by (simp_all add: revoke_verdict_def example_world_def verdict_eval get_request_def revocable_def
      apply_revoke_def sidecar_acked_drop_def row_revoked_def retract_forever_entry_def table_eval revoke_row_def
      Let_def forever_entry_def has_port_def split: prod.splits)

theorem revoke_needs_ack_witness:
  "\<exists>frames c' s'. revoke_over_link example_world (\<lambda>_. True) ''a1'' (Some True) ''r1'' ''u1'' (Some ''w1'')
     (example_link, example_decided) = (Some True, frames, c', s') \<and>
   frames = [Drop_Rule 7 ''a1'' (ec_host example_verdict) (ec_decision example_verdict)]"
proof -
  obtain frames c' s' where r: "revoke_over_link example_world (\<lambda>_. True) ''a1'' (Some True) ''r1'' ''u1'' (Some ''w1'')
      (example_link, example_decided) = (Some True, frames, c', s')"
    using example_revoke example_lookup
    by (cases "revoke_verdict example_world None ''r1'' ''u1'' (Some ''w1'') example_decided")
      (auto simp: revoke_over_link_def send_drop_def drop_ack_of_def example_world_def Let_def)
  from revoke_needs_ack [OF example_lookup(1-3) TrueI r] r show ?thesis by blast
qed

text \<open>
  A full queue is taken for an absent sidecar. When the registered sidecar is alive but its queue is full,
  \<open>send_drop\<close> reports no sidecar: \<open>revoke\<close> answers true and the row is revoked although no drop frame was
  sent and the sidecar, still registered, keeps enforcing the verdict.
\<close>

theorem revoke_without_drop:
  "\<exists>c' s'. revoke_over_link example_world (\<lambda>_. False) ''a1'' None ''r1'' ''u1'' (Some ''w1'') (example_link, example_decided) =
      (Some True, [], c', s') \<and>
    get_conn ''w1'' c' = Some 7 \<and> list_ex (\<lambda>q. ec_id q = ''r1'' \<and> ec_decision q = DECISION_REVOKED) (ctable s')"
proof -
  obtain s' where r: "revoke_verdict example_world None ''r1'' ''u1'' (Some ''w1'') example_decided = (Some True, s')"
    using example_revoke(1) by (metis prod.collapse)
  have "revoke_over_link example_world (\<lambda>_. False) ''a1'' None ''r1'' ''u1'' (Some ''w1'') (example_link, example_decided) =
      (Some True, [], example_link, s')"
    using r example_lookup
    by (simp add: revoke_over_link_def send_drop_def drop_ack_of_def example_world_def example_link_def init_conns_def register_def)
  with revoke_verdict_revoked [OF r] show ?thesis
    by (auto simp: example_link_def get_conn_def register_def init_conns_def)
qed

end
