(* ===== verification/Envexp.thy ===== *)
theory Envexp
  imports Prelude "HOL-Library.Sublist"
begin

text \<open>
  \<open>klangk/envexp.py\<close>: bash-style expansion of the environment values in a workspace's settings. The
  scanner walks a string by index; here it walks the rest of the string. \<open>_scan_reference\<close> and
  \<open>_expand_braced\<close> read a reference and evaluate it at once; here \<open>scan_reference\<close> reads it and
  \<open>apply_ref\<close> evaluates it before anything after it is read. The warnings for unset names are log
  output; of an exception's message only the part that varies with the input is kept.
\<close>

section \<open>References\<close>

datatype env_error =
    Bad_Name string
  | Bad_Operator string
  | Unterminated
  | Required string
  | Too_Nested
  | In_Entry string env_error

type_synonym env = "string \<rightharpoonup> string"

definition name_start :: "char \<Rightarrow> bool" where
  "name_start c \<longleftrightarrow>
     (let n = (of_char c :: nat) in (65 \<le> n \<and> n \<le> 90) \<or> (97 \<le> n \<and> n \<le> 122) \<or> n = 95)"

definition name_char :: "char \<Rightarrow> bool" where
  "name_char c \<longleftrightarrow> name_start c \<or> ascii_digit c"

text \<open>\<open>_NAME_RE.match\<close>: the name at the start of the text and what follows it.\<close>

definition match_name :: "string \<Rightarrow> (string \<times> string) option" where
  "match_name s =
     (case s of
        [] \<Rightarrow> None
      | c # cs \<Rightarrow>
          (if name_start c then Some (c # takeWhile name_char cs, dropWhile name_char cs) else None))"

definition OPERATORS :: "string list" where
  "OPERATORS = ['':-'', '':+'', '':?'', ''-'', ''+'', ''?'']"

definition MAX_NESTING :: int where "MAX_NESTING = 16"

text \<open>A parsed reference: a literal dollar, or a name with an operator and its word.\<close>

datatype reference =
    Dollar
  | Ref string "(string \<times> string) option"

definition split_operator :: "string \<Rightarrow> env_error + string \<times> (string \<times> string) option" where
  "split_operator inner =
     (case match_name inner of
        None \<Rightarrow> Inl (Bad_Name inner)
      | Some (name, rest) \<Rightarrow>
          (if rest = [] then Inr (name, None)
           else case find (\<lambda>op. startswith rest op) OPERATORS of
                  Some op \<Rightarrow> Inr (name, Some (op, drop (length op) rest))
                | None \<Rightarrow> Inl (Bad_Operator inner)))"

text \<open>
  \<open>_find_closing_brace\<close> from the text after the opening brace: the text before the brace that closes
  it and the text after. Only \<open>${\<close> opens a level.
\<close>

fun find_closing_brace :: "nat \<Rightarrow> string \<Rightarrow> (string \<times> string) option" where
  "find_closing_brace depth [] = None"
| "find_closing_brace depth (c # cs) =
     (if c = CHR ''$'' \<and> startswith cs ''{''
      then map_option (\<lambda>(inner, rest). (c # CHR ''{'' # inner, rest)) (find_closing_brace (Suc depth) (drop 1 cs))
      else if c = CHR ''}''
      then (if depth \<le> 1 then Some ([], cs)
            else map_option (\<lambda>(inner, rest). (c # inner, rest)) (find_closing_brace (depth - 1) cs))
      else map_option (\<lambda>(inner, rest). (c # inner, rest)) (find_closing_brace depth cs))"

definition expand_braced :: "string \<Rightarrow> env_error + reference \<times> string" where
  "expand_braced s =
     (case find_closing_brace 1 s of
        None \<Rightarrow> Inl Unterminated
      | Some (inner, rest) \<Rightarrow>
          (case split_operator inner of
             Inl e \<Rightarrow> Inl e
           | Inr (name, op_word) \<Rightarrow> Inr (Ref name op_word, rest)))"

text \<open>The reference whose dollar has been read.\<close>

definition scan_reference :: "string \<Rightarrow> env_error + reference \<times> string" where
  "scan_reference s =
     (if startswith s ''$'' then Inr (Dollar, drop 1 s)
      else if startswith s ''{'' then expand_braced (drop 1 s)
      else case match_name s of
             None \<Rightarrow> Inr (Dollar, s)
           | Some (name, rest) \<Rightarrow> Inr (Ref name None, rest))"


section \<open>Evaluation\<close>

definition lookup_env :: "env \<Rightarrow> string \<Rightarrow> string" where
  "lookup_env env name = (case env name of None \<Rightarrow> [] | Some v \<Rightarrow> v)"

definition passes :: "string \<Rightarrow> env \<Rightarrow> string \<Rightarrow> bool" where
  "passes op env name =
     (case env name of None \<Rightarrow> False | Some v \<Rightarrow> \<not> startswith op '':'' \<or> v \<noteq> [])"

definition prepend :: "string \<Rightarrow> env_error + string \<Rightarrow> env_error + string" where
  "prepend t r = map_sum id (\<lambda>out. t @ out) r"

text \<open>Every part of a reference is shorter than the text it was read from.\<close>

fun ref_size :: "reference \<Rightarrow> nat" where
  "ref_size Dollar = 0"
| "ref_size (Ref name None) = 0"
| "ref_size (Ref name (Some (op, word))) = Suc (length word)"

lemma match_name_length:
  "match_name s = Some (name, rest) \<Longrightarrow> length rest < length s"
  using length_dropWhile_le [of name_char] by (auto simp: match_name_def less_Suc_eq_le split: list.splits if_splits)

lemma find_closing_brace_length:
  "find_closing_brace d s = Some (inner, rest) \<Longrightarrow> length inner + length rest < length s"
proof (induction d s arbitrary: inner rest rule: find_closing_brace.induct)
  case (2 d c cs)
  show ?case
  proof (cases "c = CHR ''$'' \<and> startswith cs ''{''")
    case True
    then obtain inner' where "find_closing_brace (Suc d) (drop 1 cs) = Some (inner', rest)"
      "inner = c # CHR ''{'' # inner'" using 2 by auto
    with 2(1) [OF True] True show ?thesis by (cases cs) (auto simp: startswith_def)
  next
    case False
    then show ?thesis using 2 by (auto split: if_splits)
  qed
qed simp

lemma split_operator_length:
  assumes "split_operator inner = Inr (name, op_word)"
  shows "ref_size (Ref name op_word) \<le> length inner"
proof -
  obtain rest where rest: "match_name inner = Some (name, rest)"
    using assms by (auto simp: split_operator_def split: option.splits if_splits)
  then have "length rest < length inner" by (rule match_name_length)
  with assms rest show ?thesis
    by (auto simp: split_operator_def split: if_splits option.splits)
qed

lemma expand_braced_length:
  assumes "expand_braced s = Inr (ref, rest)"
  shows "length rest \<le> length s \<and> ref_size ref \<le> length s"
proof -
  obtain inner name op_word where "find_closing_brace 1 s = Some (inner, rest)"
    "split_operator inner = Inr (name, op_word)" "ref = Ref name op_word"
    using assms by (auto simp: expand_braced_def split: option.splits sum.splits)
  with find_closing_brace_length [of 1 s inner rest] split_operator_length [of inner name op_word]
  show ?thesis by simp
qed

lemma scan_reference_length:
  assumes "scan_reference s = Inr (ref, rest)"
  shows "length rest \<le> length s \<and> ref_size ref \<le> length s"
proof -
  consider "startswith s ''$''" | "\<not> startswith s ''$''" "startswith s ''{''"
    | "\<not> startswith s ''$''" "\<not> startswith s ''{''" by blast
  then show ?thesis
  proof cases
    case 1
    with assms show ?thesis by (auto simp: scan_reference_def)
  next
    case 2
    with assms have "expand_braced (drop 1 s) = Inr (ref, rest)" by (simp add: scan_reference_def)
    from expand_braced_length [OF this] show ?thesis by auto
  next
    case 3
    with assms show ?thesis
      using match_name_length [of s] by (auto simp: scan_reference_def split: option.splits)
  qed
qed

function (sequential) expand :: "env \<Rightarrow> string \<Rightarrow> env_error + string"
  and apply_ref :: "env \<Rightarrow> reference \<Rightarrow> env_error + string" where
  "expand env [] = Inr []"
| "expand env (c # cs) =
     (if c = CHR 0x5C \<and> startswith cs ''$'' then prepend ''$'' (expand env (drop 1 cs))
      else if c \<noteq> CHR ''$'' then prepend [c] (expand env cs)
      else case scan_reference cs of
             Inl e \<Rightarrow> Inl e
           | Inr (ref, rest) \<Rightarrow>
               (case apply_ref env ref of
                  Inl e \<Rightarrow> Inl e
                | Inr text \<Rightarrow> prepend text (expand env rest)))"
| "apply_ref env Dollar = Inr ''$''"
| "apply_ref env (Ref name None) = Inr (lookup_env env name)"
| "apply_ref env (Ref name (Some (op, word))) =
     (if endswith op ''-''
      then (if passes op env name then Inr (lookup_env env name) else expand env word)
      else if endswith op ''+''
      then (if passes op env name then expand env word else Inr [])
      else (if passes op env name then Inr (lookup_env env name)
            else case expand env word of
                   Inl e \<Rightarrow> Inl e
                 | Inr message \<Rightarrow>
                     Inl (Required (if message = [] then name @ '': parameter null or not set'' else message))))"
  by pat_completeness auto

termination
  by (relation "measure (\<lambda>x. case x of Inl (env, s) \<Rightarrow> 2 * length s | Inr (env, ref) \<Rightarrow> 2 * ref_size ref)")
    (auto dest: scan_reference_length)

text \<open>\<open>_reject_deep_nesting\<close>: every \<open>${\<close> opens a level and every closing brace closes one.\<close>

fun nested_too_deep :: "int \<Rightarrow> string \<Rightarrow> bool" where
  "nested_too_deep depth [] = False"
| "nested_too_deep depth (c # cs) =
     (if c = CHR ''$'' \<and> startswith cs ''{''
      then depth + 1 > MAX_NESTING \<or> nested_too_deep (depth + 1) (drop 1 cs)
      else if c = CHR ''}'' then depth - 1 > MAX_NESTING \<or> nested_too_deep (depth - 1) cs
      else nested_too_deep depth cs)"

definition expand_env_value :: "string \<Rightarrow> env \<Rightarrow> env_error + string" where
  "expand_env_value value env = (if nested_too_deep 0 value then Inl Too_Nested else expand env value)"

definition needs_expansion :: "string list \<Rightarrow> bool" where
  "needs_expansion values = list_ex (\<lambda>v. CHR ''$'' \<in> set v) values"

definition AllSet :: env where
  "AllSet = (\<lambda>name. Some ''x'')"

text \<open>The validators return the error they raise, if any.\<close>

definition validate_env_value :: "string \<Rightarrow> env_error option" where
  "validate_env_value value = (case expand_env_value value AllSet of Inl e \<Rightarrow> Some e | Inr _ \<Rightarrow> None)"

fun validate_env_map :: "(string, string) dict \<Rightarrow> env_error option" where
  "validate_env_map [] = None"
| "validate_env_map ((key, value) # mapping) =
     (case validate_env_value value of
        Some e \<Rightarrow> Some (In_Entry key e)
      | None \<Rightarrow> validate_env_map mapping)"

fun expand_entries ::
  "(string, string) dict \<Rightarrow> env \<Rightarrow> (string, string) dict \<Rightarrow> env_error + (string, string) dict" where
  "expand_entries [] ctx out = Inr out"
| "expand_entries ((key, value) # mapping) ctx out =
     (case expand_env_value value ctx of
        Inl e \<Rightarrow> Inl e
      | Inr resolved \<Rightarrow> expand_entries mapping (ctx(key \<mapsto> resolved)) (AList.update key resolved out))"

definition expand_env_map :: "(string, string) dict \<Rightarrow> env \<Rightarrow> env_error + (string, string) dict" where
  "expand_env_map mapping base_env = expand_entries mapping base_env []"


section \<open>Lemmas\<close>

lemma startswith_single [simp]: "startswith s [c] \<longleftrightarrow> (\<exists>t. s = c # t)"
  by (cases s) (auto simp: startswith_def)

lemma prepend_simps [simp]: "prepend t (Inr out) = Inr (t @ out)" "prepend t (Inl e) = Inl e"
  by (simp_all add: prepend_def)

lemma prepend_prepend: "prepend s (prepend t r) = prepend (s @ t) r"
  by (cases r) simp_all

lemma prepend_Nil [simp]: "prepend [] r = r"
  by (cases r) simp_all

declare expand.simps(2) [simp del]

lemma expand_plain: "c \<noteq> CHR ''$'' \<Longrightarrow> c \<noteq> CHR 0x5C \<Longrightarrow> expand env (c # cs) = prepend [c] (expand env cs)"
  by (simp add: expand.simps(2))

lemma expand_escape: "expand env (CHR 0x5C # CHR ''$'' # cs) = prepend ''$'' (expand env cs)"
  by (simp add: expand.simps(2))

lemma expand_ref:
  "expand env (CHR ''$'' # cs) =
     (case scan_reference cs of
        Inl e \<Rightarrow> Inl e
      | Inr (ref, rest) \<Rightarrow>
          (case apply_ref env ref of Inl e \<Rightarrow> Inl e | Inr text \<Rightarrow> prepend text (expand env rest)))"
  by (simp add: expand.simps(2))

text \<open>Text without a dollar.\<close>

lemma expand_no_dollar: "CHR ''$'' \<notin> set s \<Longrightarrow> expand env s = Inr s"
  by (induction s) (auto simp: expand.simps(2))

lemma not_nested_no_dollar: "CHR ''$'' \<notin> set s \<Longrightarrow> d \<le> MAX_NESTING \<Longrightarrow> \<not> nested_too_deep d s"
  by (induction s arbitrary: d) auto

definition escape_dollars :: "string \<Rightarrow> string" where
  "escape_dollars s = concat (map (\<lambda>c. if c = CHR ''$'' then [CHR 0x5C, CHR ''$''] else [c]) s)"

lemma escape_dollars_simps [simp]:
  "escape_dollars [] = []"
  "escape_dollars (c # s) = (if c = CHR ''$'' then [CHR 0x5C, CHR ''$''] else [c]) @ escape_dollars s"
  by (simp_all add: escape_dollars_def)

lemma escape_dollars_start: "escape_dollars s \<noteq> CHR ''$'' # t"
  by (cases s) auto

lemma expand_escape_dollars: "expand env (escape_dollars s) = Inr s"
proof (induction s)
  case (Cons c s)
  then show ?case
    using escape_dollars_start [of s] by (auto simp: expand_escape expand.simps(2))
qed simp


section \<open>A reference semantics\<close>

text \<open>
  Templates, how they are written, and what they mean. A word between braces cannot hold a closing brace
  or a dollar that does not start a reference, and a backslash is left out altogether: before a
  reference it would be read as an escape.
\<close>

datatype kind = Default | Alternative | Mandatory

datatype tok =
    Lit char
  | Var string
  | Oper string bool kind "tok list"

definition op_text :: "bool \<Rightarrow> kind \<Rightarrow> string" where
  "op_text colon k = (if colon then '':'' else []) @
     (case k of Default \<Rightarrow> ''-'' | Alternative \<Rightarrow> ''+'' | Mandatory \<Rightarrow> ''?'')"

fun render_tok :: "tok \<Rightarrow> string" and render_toks :: "tok list \<Rightarrow> string" where
  "render_tok (Lit c) = (if c = CHR ''$'' then [CHR 0x5C, CHR ''$''] else [c])"
| "render_tok (Var n) = ''${'' @ n @ ''}''"
| "render_tok (Oper n colon k ws) = ''${'' @ n @ op_text colon k @ render_toks ws @ ''}''"
| "render_toks [] = []"
| "render_toks (t # ts) = render_tok t @ render_toks ts"

definition usable :: "env \<Rightarrow> string \<Rightarrow> bool \<Rightarrow> bool" where
  "usable env n colon \<longleftrightarrow> env n \<noteq> None \<and> (colon \<longrightarrow> env n \<noteq> Some [])"

fun eval_tok :: "env \<Rightarrow> tok \<Rightarrow> env_error + string" and eval_toks :: "env \<Rightarrow> tok list \<Rightarrow> env_error + string" where
  "eval_tok env (Lit c) = Inr [c]"
| "eval_tok env (Var n) = Inr (lookup_env env n)"
| "eval_tok env (Oper n colon k ws) =
     (case k of
        Default \<Rightarrow> if usable env n colon then Inr (lookup_env env n) else eval_toks env ws
      | Alternative \<Rightarrow> if usable env n colon then eval_toks env ws else Inr []
      | Mandatory \<Rightarrow>
          (if usable env n colon then Inr (lookup_env env n)
           else case eval_toks env ws of
                  Inl e \<Rightarrow> Inl e
                | Inr m \<Rightarrow> Inl (Required (if m = [] then n @ '': parameter null or not set'' else m))))"
| "eval_toks env [] = Inr []"
| "eval_toks env (t # ts) = (case eval_tok env t of Inl e \<Rightarrow> Inl e | Inr x \<Rightarrow> prepend x (eval_toks env ts))"

definition is_name :: "string \<Rightarrow> bool" where
  "is_name n \<longleftrightarrow> n \<noteq> [] \<and> name_start (hd n) \<and> list_all name_char n"

fun wf_tok :: "bool \<Rightarrow> tok \<Rightarrow> bool" and wf_toks :: "bool \<Rightarrow> tok list \<Rightarrow> bool" where
  "wf_tok inner (Lit c) \<longleftrightarrow> c \<noteq> CHR 0x5C \<and> (inner \<longrightarrow> c \<noteq> CHR ''$'' \<and> c \<noteq> CHR ''}'')"
| "wf_tok inner (Var n) \<longleftrightarrow> is_name n"
| "wf_tok inner (Oper n colon k ws) \<longleftrightarrow> is_name n \<and> wf_toks True ws"
| "wf_toks inner [] \<longleftrightarrow> True"
| "wf_toks inner (t # ts) \<longleftrightarrow> wf_tok inner t \<and> wf_toks inner ts"

lemma name_char_not:
  assumes "name_char c"
  shows "c \<noteq> CHR ''$''" "c \<noteq> CHR ''{''" "c \<noteq> CHR ''}''" "c \<noteq> CHR '':''" "c \<noteq> CHR ''-''" "c \<noteq> CHR ''+''"
    "c \<noteq> CHR ''?''"
  using assms by (auto simp: name_char_def name_start_def ascii_digit_def)

lemma match_name_append:
  assumes "is_name n" "r = [] \<or> \<not> name_char (hd r)"
  shows "match_name (n @ r) = Some (n, r)"
proof -
  obtain c cs where n: "n = c # cs" using assms(1) by (cases n) (auto simp: is_name_def)
  have "takeWhile name_char (cs @ r) = cs" "dropWhile name_char (cs @ r) = r"
    using assms n by (cases r; auto simp: is_name_def list_all_iff takeWhile_append2 dropWhile_append2)+
  with assms(1) n show ?thesis by (simp add: match_name_def is_name_def)
qed

lemma is_name_clean: "is_name n \<Longrightarrow> c \<in> set n \<Longrightarrow> c \<noteq> CHR ''$'' \<and> c \<noteq> CHR ''}''"
  using name_char_not by (auto simp: is_name_def list_all_iff)

lemma op_text_clean: "c \<in> set (op_text colon k) \<Longrightarrow> c \<noteq> CHR ''$'' \<and> c \<noteq> CHR ''}''"
  by (cases k) (auto simp: op_text_def split: if_splits)

definition brace_skip :: "nat \<Rightarrow> string \<Rightarrow> bool" where
  "brace_skip d w \<longleftrightarrow>
     (\<forall>s. find_closing_brace d (w @ s) = map_option (\<lambda>(i, r). (w @ i, r)) (find_closing_brace d s))"

lemma brace_skip_Nil [simp]: "brace_skip d []"
  by (simp add: brace_skip_def option.map_id0 id_def [symmetric])

lemma brace_skip_append: "brace_skip d v \<Longrightarrow> brace_skip d w \<Longrightarrow> brace_skip d (v @ w)"
  by (auto simp: brace_skip_def option.map_comp comp_def split_def)

lemma brace_skip_char: "c \<noteq> CHR ''$'' \<Longrightarrow> c \<noteq> CHR ''}'' \<Longrightarrow> brace_skip d [c]"
  by (simp add: brace_skip_def)

lemma brace_skip_plain: "(\<And>c. c \<in> set w \<Longrightarrow> c \<noteq> CHR ''$'' \<and> c \<noteq> CHR ''}'') \<Longrightarrow> brace_skip d w"
  by (induction w) (use brace_skip_append brace_skip_char in fastforce)+

lemma brace_skip_braces: "brace_skip (Suc d) w \<Longrightarrow> 1 \<le> d \<Longrightarrow> brace_skip d (''${'' @ w @ ''}'')"
  by (auto simp: brace_skip_def option.map_comp comp_def split_def)

lemma brace_skip_render:
  "wf_tok True t \<Longrightarrow> 1 \<le> d \<Longrightarrow> brace_skip d (render_tok t)"
  "wf_toks True ts \<Longrightarrow> 1 \<le> d \<Longrightarrow> brace_skip d (render_toks ts)"
proof (induction t and ts arbitrary: d and d rule: render_tok_render_toks.induct)
  case (2 n)
  then have "brace_skip (Suc d) n" by (intro brace_skip_plain) (auto dest: is_name_clean)
  with brace_skip_braces 2 show ?case by simp
next
  case (3 n colon k ws)
  then have "brace_skip (Suc d) n" by (intro brace_skip_plain) (auto dest: is_name_clean)
  moreover have "brace_skip (Suc d) (op_text colon k)" by (intro brace_skip_plain op_text_clean)
  moreover have "brace_skip (Suc d) (render_toks ws)" using 3 by simp
  ultimately have "brace_skip (Suc d) (n @ op_text colon k @ render_toks ws)" by (intro brace_skip_append)
  from brace_skip_braces [OF this 3(3)] show ?case by simp
qed (auto intro: brace_skip_char brace_skip_append)

lemma closing_after: "brace_skip 1 w \<Longrightarrow> find_closing_brace 1 (w @ CHR ''}'' # r) = Some (w, r)"
  by (simp add: brace_skip_def)

lemma find_op_text: "find (\<lambda>op. startswith (op_text colon k @ w) op) OPERATORS = Some (op_text colon k)"
  by (cases k; cases colon; simp add: OPERATORS_def op_text_def startswith_def del: startswith_single)

lemma op_text_ends: "endswith (op_text colon k) ''-'' \<longleftrightarrow> k = Default" "endswith (op_text colon k) ''+'' \<longleftrightarrow> k = Alternative"
  by (cases k; cases colon; simp add: op_text_def endswith_def)+

lemma split_operator_render:
  assumes "is_name n"
  shows "split_operator n = Inr (n, None)"
    "split_operator (n @ op_text colon k @ w) = Inr (n, Some (op_text colon k, w))"
proof -
  show "split_operator n = Inr (n, None)"
    using match_name_append [OF assms, of "[]"] by (simp add: split_operator_def)
  have "op_text colon k @ w \<noteq> []" "\<not> name_char (hd (op_text colon k @ w))"
    by (cases k; cases colon; simp add: op_text_def name_char_def name_start_def ascii_digit_def)+
  with match_name_append [OF assms, of "op_text colon k @ w"] find_op_text [of colon k w]
  show "split_operator (n @ op_text colon k @ w) = Inr (n, Some (op_text colon k, w))"
    by (simp add: split_operator_def)
qed

lemma passes_usable: "passes (op_text colon k) env n = usable env n colon"
  by (cases k) (auto simp: passes_def usable_def op_text_def split: option.splits)

lemma apply_ref_op:
  "apply_ref env (Ref n (Some (op_text colon k, w))) =
     (case k of
        Default \<Rightarrow> if usable env n colon then Inr (lookup_env env n) else expand env w
      | Alternative \<Rightarrow> if usable env n colon then expand env w else Inr []
      | Mandatory \<Rightarrow>
          (if usable env n colon then Inr (lookup_env env n)
           else case expand env w of
                  Inl e \<Rightarrow> Inl e
                | Inr m \<Rightarrow> Inl (Required (if m = [] then n @ '': parameter null or not set'' else m))))"
  by (cases k) (simp_all add: passes_usable op_text_ends)

lemma expand_render:
  "wf_tok inner t \<Longrightarrow> expand env (render_tok t @ rest) =
     (case eval_tok env t of Inl e \<Rightarrow> Inl e | Inr x \<Rightarrow> prepend x (expand env rest))"
  "wf_toks inner ts \<Longrightarrow> expand env (render_toks ts) = eval_toks env ts"
proof (induction t and ts arbitrary: inner rest and inner rule: render_tok_render_toks.induct)
  case (1 c)
  then show ?case by (auto simp: expand_escape expand_plain)
next
  case (2 n)
  then have "brace_skip 1 n" by (intro brace_skip_plain) (auto dest: is_name_clean)
  from closing_after [OF this] 2 show ?case
    by (simp add: expand_ref scan_reference_def expand_braced_def split_operator_render)
next
  case (3 n colon k ws)
  then have w: "brace_skip 1 (n @ op_text colon k @ render_toks ws)"
    by (intro brace_skip_append brace_skip_render brace_skip_plain) (auto dest: is_name_clean op_text_clean)
  have "expand env (render_toks ws) = eval_toks env ws" using 3(1) [of True] 3(2) by simp
  with closing_after [OF w, of rest] 3(2) show ?case
    by (simp add: expand_ref scan_reference_def expand_braced_def split_operator_render apply_ref_op
        del: apply_ref.simps split: kind.splits)
qed (auto split: sum.splits)


section \<open>Properties\<close>



text \<open>
  Escaping is complete: with a backslash before each of its dollars, any text comes back as it was,
  unless it opens more than sixteen levels (escaped ones count).
\<close>

theorem escaped_text_survives:
  assumes "\<not> nested_too_deep 0 (escape_dollars s)"
  shows "expand_env_value (escape_dollars s) env = Inr s"
  using assms expand_escape_dollars by (simp add: expand_env_value_def)

theorem escaped_text_survives_witness: "expand_env_value (escape_dollars ''p$${w}'') Map.empty = Inr ''p$${w}''"
  by (rule escaped_text_survives) (simp add: MAX_NESTING_def)

text \<open>
  The guard before the expansion is exact: when \<open>needs_expansion\<close> is false, expanding the mapping
  returns it unchanged.
\<close>

lemma expand_entries_plain:
  assumes "\<not> needs_expansion (map snd mapping)" "distinct (map fst (out @ mapping))"
  shows "expand_entries mapping ctx out = Inr (out @ mapping)"
  using assms
proof (induction mapping arbitrary: ctx out)
  case (Cons p mapping)
  obtain k v where p: "p = (k, v)" by fastforce
  have "expand_env_value v ctx' = Inr v" for ctx'
    using Cons.prems(1) p expand_no_dollar [of v] not_nested_no_dollar [of v 0]
    by (simp add: expand_env_value_def needs_expansion_def MAX_NESTING_def)
  moreover have "AList.update k v out = out @ [(k, v)]"
    using Cons.prems(2) p by (intro dict_update_new) auto
  ultimately show ?case using Cons p by (simp add: needs_expansion_def)
qed simp

theorem needs_expansion_exact:
  assumes "\<not> needs_expansion (map snd mapping)" "dict_ok mapping"
  shows "expand_env_map mapping base_env = Inr mapping"
  using expand_entries_plain [of mapping "[]"] assms by (simp add: expand_env_map_def)

theorem needs_expansion_exact_witness: "expand_env_map [(''A'', ''1''), (''B'', ''{x}'')] Map.empty = Inr [(''A'', ''1''), (''B'', ''{x}'')]"
  by (rule needs_expansion_exact) (simp_all add: needs_expansion_def)

text \<open>
  A mapping is expanded in order: each value sees the base environment overridden by the results of the
  entries before it, and the result has the same keys in the same order.
\<close>

lemma expand_entries_seq:
  assumes "expand_entries mapping ctx out = Inr res" "distinct (map fst (out @ mapping))"
  shows "\<exists>new. res = out @ new \<and> map fst new = map fst mapping \<and>
    (\<forall>i < length mapping. expand_env_value (snd (mapping ! i)) (ctx ++ map_of (rev (take i new))) = Inr (snd (new ! i)))"
  using assms
proof (induction mapping arbitrary: ctx out)
  case (Cons p mapping)
  obtain k v where p: "p = (k, v)" by fastforce
  obtain r where r: "expand_env_value v ctx = Inr r"
    "expand_entries mapping (ctx(k \<mapsto> r)) (AList.update k r out) = Inr res"
    using Cons.prems(1) p by (auto split: sum.splits)
  have up: "AList.update k r out = out @ [(k, r)]"
    using Cons.prems(2) p by (intro dict_update_new) auto
  have "distinct (map fst (AList.update k r out @ mapping))" using Cons.prems(2) p by (auto simp: up)
  from Cons.IH [OF r(2) this] obtain new where new: "res = (out @ [(k, r)]) @ new" "map fst new = map fst mapping"
    "\<forall>i < length mapping. expand_env_value (snd (mapping ! i)) (ctx(k \<mapsto> r) ++ map_of (rev (take i new))) = Inr (snd (new ! i))"
    unfolding up by blast
  have "expand_env_value (snd ((p # mapping) ! i)) (ctx ++ map_of (rev (take i ((k, r) # new)))) = Inr (snd (((k, r) # new) ! i))"
    if "i < length (p # mapping)" for i
    using that new(3) r(1) p by (cases i) (simp_all del: fun_upd_apply)
  with new p show ?case by (intro exI [of _ "(k, r) # new"]) simp
qed simp

theorem env_map_in_order:
  assumes "expand_env_map mapping base_env = Inr res" "dict_ok mapping"
  shows "map fst res = map fst mapping \<and>
    (\<forall>i < length mapping. expand_env_value (snd (mapping ! i)) (base_env ++ map_of (rev (take i res))) = Inr (snd (res ! i)))"
  using expand_entries_seq [of mapping base_env "[]" res] assms by (auto simp: expand_env_map_def)

theorem env_map_in_order_witness:
  "map_sum id (map fst) (expand_env_map [(''A'', ''1''), (''B'', ''$A'')] Map.empty) = Inr [''A'', ''B'']"
proof -
  have "expand_env_map [(''A'', ''1''), (''B'', ''$A'')] Map.empty = Inr [(''A'', ''1''), (''B'', ''1'')]"
    by (simp add: expand_env_map_def expand_env_value_def expand.simps(2) scan_reference_def match_name_def
        name_start_def lookup_env_def)
  from this env_map_in_order [OF this] show ?thesis by simp
qed

text \<open>What a reference is made of lies in the text it was read from.\<close>

lemma match_name_parts: "match_name s = Some (n, r) \<Longrightarrow> s = n @ r \<and> is_name n"
proof -
  have "name_start c \<Longrightarrow> name_char c" for c by (simp add: name_char_def)
  then show "match_name s = Some (n, r) \<Longrightarrow> s = n @ r \<and> is_name n"
    by (auto simp: match_name_def is_name_def list_all_iff split: list.splits if_splits dest: set_takeWhileD)
qed

lemma find_closing_brace_parts: "find_closing_brace d s = Some (i, r) \<Longrightarrow> s = i @ CHR ''}'' # r"
  by (induction d s arbitrary: i r rule: find_closing_brace.induct) (auto split: if_splits)

lemma split_operator_parts:
  "split_operator s = Inr (n, ow) \<Longrightarrow>
     is_name n \<and> sublist n s \<and> (\<forall>op w. ow = Some (op, w) \<longrightarrow> sublist w s)"
  by (auto simp: split_operator_def split: option.splits if_splits dest!: match_name_parts)
    (metis append_take_drop_id sublist_appendI append.assoc append_Nil2)+

lemma scan_reference_parts:
  assumes "scan_reference s = Inr (ref, rest)"
  shows "suffix rest s \<and>
    (\<forall>n ow. ref = Ref n ow \<longrightarrow> is_name n \<and> sublist n s \<and> (\<forall>op w. ow = Some (op, w) \<longrightarrow> sublist w s))"
proof -
  consider (dollar) "startswith s ''$''" | (brace) "startswith s ''{''" "\<not> startswith s ''$''"
    | (name) "\<not> startswith s ''$''" "\<not> startswith s ''{''" by blast
  then show ?thesis
  proof cases
    case dollar
    with assms show ?thesis by (auto simp: scan_reference_def suffix_def)
  next
    case brace
    then obtain t where t: "s = CHR ''{'' # t" by auto
    obtain i n ow where b: "find_closing_brace 1 t = Some (i, rest)" "split_operator i = Inr (n, ow)" "ref = Ref n ow"
      using assms t by (auto simp: scan_reference_def expand_braced_def split: option.splits sum.splits)
    have "s = (CHR ''{'' # i @ [CHR ''}'']) @ rest" "sublist i s"
      using find_closing_brace_parts [OF b(1)] t by (auto simp: sublist_def intro: exI [of _ "''{''"])
    with split_operator_parts [OF b(2)] b(3) show ?thesis
      by (auto simp: suffix_def intro: sublist_order.order_trans)
  next
    case name
    with assms show ?thesis
      by (auto simp: scan_reference_def suffix_def split: option.splits dest!: match_name_parts)
  qed
qed

definition names_usable :: "env \<Rightarrow> string \<Rightarrow> bool" where
  "names_usable env s \<longleftrightarrow> (\<forall>n. is_name n \<and> sublist n s \<longrightarrow> env n \<noteq> None \<and> env n \<noteq> Some [])"

lemma names_usable_sublist: "names_usable env s \<Longrightarrow> sublist t s \<Longrightarrow> names_usable env t"
  by (auto simp: names_usable_def intro: sublist_order.order_trans)

lemma passes_all: "env n \<noteq> None \<Longrightarrow> env n \<noteq> Some [] \<Longrightarrow> passes op env n" "passes op AllSet n"
  by (auto simp: passes_def AllSet_def)

lemma apply_ref_validated:
  assumes "apply_ref AllSet ref = Inr x"
    and "\<And>n ow. ref = Ref n ow \<Longrightarrow> env n \<noteq> None \<and> env n \<noteq> Some []"
    and "\<And>n op w x. ref = Ref n (Some (op, w)) \<Longrightarrow> expand AllSet w = Inr x \<Longrightarrow> \<exists>y. expand env w = Inr y"
  shows "\<exists>y. apply_ref env ref = Inr y"
proof (cases ref)
  case (Ref n ow)
  then have pass: "passes op env n" for op using assms(2) passes_all(1) by blast
  show ?thesis
  proof (cases ow)
    case (Some p)
    obtain op w where "p = (op, w)" by fastforce
    with Some Ref pass assms(1) assms(3) [of n op w x] passes_all(2) show ?thesis
      by (auto split: if_splits)
  qed (simp add: Ref)
qed simp

lemma validated_expands:
  assumes "expand AllSet s = Inr x" "names_usable env s"
  shows "\<exists>y. expand env s = Inr y"
  using assms
proof (induction "length s" arbitrary: s x rule: less_induct)
  case less
  have IH: "\<exists>y. expand env t = Inr y" if "expand AllSet t = Inr x" "length t < length s" "sublist t s" for t x
    using less.hyps [OF that(2,1)] names_usable_sublist [OF less.prems(2) that(3)] .
  show ?case
  proof (cases s)
    case (Cons c cs)
    consider (esc) t where "c = CHR 0x5C" "cs = CHR ''$'' # t"
      | (plain) "\<not> (c = CHR 0x5C \<and> startswith cs ''$'')" "c \<noteq> CHR ''$''" | (dollar) "c = CHR ''$''" by auto
    then show ?thesis
    proof cases
      case esc
      obtain y where "expand AllSet t = Inr y"
        using less.prems(1) unfolding Cons esc expand_escape by (cases "expand AllSet t") auto
      with IH [of t] Cons esc show ?thesis by (auto simp: expand_escape sublist_Cons_right)
    next
      case plain
      then have step: "expand env' s = prepend [c] (expand env' cs)" for env' using Cons by (auto simp: expand.simps(2))
      obtain y where "expand AllSet cs = Inr y" using less.prems(1) step by (cases "expand AllSet cs") auto
      with IH [of cs] Cons step show ?thesis by (auto simp: sublist_Cons_right)
    next
      case dollar
      then obtain ref rest u where r: "scan_reference cs = Inr (ref, rest)" "apply_ref AllSet ref = Inr u"
        using less.prems(1) Cons by (auto simp: expand_ref split: sum.splits)
      then obtain y where y: "expand AllSet rest = Inr y"
        using less.prems(1) Cons dollar by (cases "expand AllSet rest") (auto simp: expand_ref)
      note parts = scan_reference_parts [OF r(1)] and len = scan_reference_length [OF r(1)]
      have "\<exists>y. apply_ref env ref = Inr y"
      proof (rule apply_ref_validated [OF r(2)])
        fix n ow assume "ref = Ref n ow"
        with parts less.prems(2) Cons show "env n \<noteq> None \<and> env n \<noteq> Some []"
          by (auto simp: names_usable_def sublist_Cons_right)
      next
        fix n op w x assume w: "ref = Ref n (Some (op, w))" "expand AllSet w = Inr x"
        with parts len Cons have "sublist w s" "length w < length s" by (auto simp: sublist_Cons_right)
        with IH [OF w(2)] show "\<exists>y. expand env w = Inr y" by blast
      qed
      moreover have "\<exists>y. expand env rest = Inr y"
        using IH [OF y] parts len Cons by (auto simp: sublist_Cons_right)
      ultimately show ?thesis using Cons dollar r(1) by (auto simp: expand_ref)
    qed
  qed simp
qed

text \<open>
  What validation guarantees. A value that passes the settings gate fails to expand only when a name
  that occurs in it is unset or empty in the container's environment.
\<close>

theorem validated_value_expands:
  assumes "validate_env_value v = None" "expand_env_value v env = Inl e"
  shows "\<exists>n. is_name n \<and> sublist n v \<and> (env n = None \<or> env n = Some [])"
proof (rule ccontr)
  assume "\<not> ?thesis"
  then have "names_usable env v" by (auto simp: names_usable_def)
  moreover obtain x where "expand AllSet v = Inr x" "\<not> nested_too_deep 0 v"
    using assms(1) by (auto simp: validate_env_value_def expand_env_value_def split: sum.splits if_splits)
  ultimately show False using validated_expands [of v x env] assms(2) by (auto simp: expand_env_value_def)
qed

lemmas expand_eval = validate_env_value_def expand_env_value_def MAX_NESTING_def expand.simps(2) scan_reference_def
  expand_braced_def split_operator_def match_name_def name_start_def name_char_def ascii_digit_def OPERATORS_def
  startswith_def endswith_def passes_def AllSet_def lookup_env_def

theorem validated_value_expands_witness:
  "\<exists>n. is_name n \<and> sublist n ''$B${A?}'' \<and> ([''B'' \<mapsto> ''x''] n = None \<or> [''B'' \<mapsto> ''x''] n = Some [])"
proof -
  have "validate_env_value ''$B${A?}'' = None"
    "expand_env_value ''$B${A?}'' [''B'' \<mapsto> ''x''] = Inl (Required ''A: parameter null or not set'')"
    by (simp_all add: expand_eval del: startswith_single)
  from validated_value_expands [OF this] show ?thesis .
qed

text \<open>
  Validation does not read the words of defaults: in its context every name is set, so the default of
  \<open>${A:-...}\<close> is never scanned. A bad substitution there passes the gate and is raised when the
  container starts without \<open>A\<close>.
\<close>

theorem validation_misses_words:
  "validate_env_value ''${A:-${1}}'' = None \<and> expand_env_value ''${A:-${1}}'' Map.empty = Inl (Bad_Name ''1'')"
  by (simp add: expand_eval del: startswith_single)

end
