(* ===== verification/Dpop.thy ===== *)
theory Dpop
  imports Audit_Hmac
begin

text \<open>
  \<open>klangk/dpop.py\<close>: verifying the proof of possession that accompanies a bound session token. The
  parameters are what the module takes from elsewhere: \<open>digest\<close>, the unpadded base64url text of a
  SHA-256 digest; \<open>loads\<close> and \<open>unb64\<close>, decoding a base64url segment as JSON and as bytes (\<open>None\<close> where
  Python raises \<open>ValueError\<close> or \<open>TypeError\<close>); \<open>ec_verify\<close>, the ECDSA check of the cryptography package on
  a DER signature (false where it raises); \<open>url_path\<close>, the path of \<open>urlsplit\<close>. Clock readings and \<open>iat\<close>
  are reals.
\<close>

section \<open>Claims and keys\<close>

text \<open>The JSON values the checks tell apart; \<open>NotFinite\<close> is one of the literals NaN and Infinity.\<close>

datatype claim =
    Text string
  | Number real
  | NotFinite
  | Boolean bool
  | Object "(string \<times> claim) list"
  | Other

type_synonym claims = "(string \<times> claim) list"

record dpop_env =
  digest :: "byte list \<Rightarrow> string"
  loads :: "string \<Rightarrow> claim option"
  unb64 :: "string \<Rightarrow> byte list option"
  ec_verify :: "claims \<Rightarrow> byte list \<Rightarrow> byte list \<Rightarrow> bool"
  url_path :: "string \<Rightarrow> string option"

definition PROOF_WINDOW_SECONDS :: real where "PROOF_WINDOW_SECONDS = 300"

definition REPLAY_CACHE_MAX :: nat where "REPLAY_CACHE_MAX = 10000"

definition is_text :: "claim option \<Rightarrow> bool" where
  "is_text c = (case c of Some (Text _) \<Rightarrow> True | _ \<Rightarrow> False)"

definition is_ec_p256 :: "claims \<Rightarrow> bool" where
  "is_ec_p256 jwk =
     (if map_of jwk ''kty'' \<noteq> Some (Text ''EC'') then False
      else if map_of jwk ''crv'' \<noteq> Some (Text ''P-256'') then False
      else is_text (map_of jwk ''x'') \<and> is_text (map_of jwk ''y''))"

text \<open>\<open>json.dumps\<close> of a string: printable ASCII stands for itself, everything else is escaped.\<close>

definition short_escape :: "char \<rightharpoonup> char" where
  "short_escape = map_of
     [(CHR 0x22, CHR 0x22), (CHR 0x5C, CHR 0x5C), (CHR 0x0A, CHR ''n''), (CHR 0x0D, CHR ''r''), (CHR 0x09, CHR ''t''),
      (CHR 0x0C, CHR ''f''), (CHR 0x08, CHR ''b'')]"

definition hex_digit :: "nat \<Rightarrow> char" where
  "hex_digit n = ''0123456789abcdef'' ! n"

definition json_char :: "char \<Rightarrow> string" where
  "json_char c =
     (let n = (of_char c :: nat)
      in case short_escape c of
           Some k \<Rightarrow> [CHR 0x5C, k]
         | None \<Rightarrow>
             (if 32 \<le> n \<and> n \<le> 126 then [c]
              else [CHR 0x5C, CHR ''u'', CHR ''0'', CHR ''0'', hex_digit (n div 16), hex_digit (n mod 16)]))"

definition json_string :: "string \<Rightarrow> string" where
  "json_string s = [CHR 0x22] @ concat (map json_char s) @ [CHR 0x22]"

definition text_of :: "claim option \<Rightarrow> string" where
  "text_of c = (case c of Some (Text s) \<Rightarrow> s | _ \<Rightarrow> [])"

text \<open>The members crv, kty, x, y in this order with compact separators.\<close>

definition canonical_jwk :: "claims \<Rightarrow> string" where
  "canonical_jwk jwk =
     ''{'' @ json_string ''crv'' @ '':'' @ json_string (text_of (map_of jwk ''crv'')) @
     '','' @ json_string ''kty'' @ '':'' @ json_string (text_of (map_of jwk ''kty'')) @
     '','' @ json_string ''x'' @ '':'' @ json_string (text_of (map_of jwk ''x'')) @
     '','' @ json_string ''y'' @ '':'' @ json_string (text_of (map_of jwk ''y'')) @ ''}''"

definition jwk_thumbprint :: "dpop_env \<Rightarrow> claims \<Rightarrow> string option" where
  "jwk_thumbprint e jwk =
     (if \<not> is_ec_p256 jwk then None else Some (digest e (encode (canonical_jwk jwk))))"

definition validate_public_jwk :: "dpop_env \<Rightarrow> claim option \<Rightarrow> string option" where
  "validate_public_jwk e c =
     (case c of
        Some (Object jwk) \<Rightarrow> if map_of jwk ''d'' \<noteq> None then None else jwk_thumbprint e jwk
      | _ \<Rightarrow> None)"

definition access_token_hash :: "dpop_env \<Rightarrow> string \<Rightarrow> string" where
  "access_token_hash e token = digest e (encode token)"


section \<open>Signatures\<close>

fun bit_length :: "nat \<Rightarrow> nat" where
  "bit_length n = (if n = 0 then 0 else Suc (bit_length (n div 2)))"

declare bit_length.simps [simp del]

definition der_int :: "nat \<Rightarrow> byte list" where
  "der_int v =
     (let raw = to_bytes_big (max 1 ((bit_length v + 7) div 8)) v;
          raw = (if 128 \<le> unat (hd raw) then 0 # raw else raw)
      in [2, of_nat (length raw)] @ raw)"

definition raw_to_der :: "byte list \<Rightarrow> byte list" where
  "raw_to_der signature =
     (let r = from_bytes_big (take 32 signature); s = from_bytes_big (drop 32 signature);
          body = der_int r @ der_int s
      in [0x30, of_nat (length body)] @ body)"

definition verify_signature :: "dpop_env \<Rightarrow> claims \<Rightarrow> byte list \<Rightarrow> byte list \<Rightarrow> bool" where
  "verify_signature e jwk signing_input signature =
     ec_verify e jwk signing_input (if length signature = 64 then raw_to_der signature else signature)"


section \<open>The proof\<close>

definition decode_proof :: "dpop_env \<Rightarrow> string \<Rightarrow> (claims \<times> claims \<times> byte list) option" where
  "decode_proof e proof =
     (case split_on CHR ''.'' proof of
        [h, p, s] \<Rightarrow>
          (case (loads e h, loads e p, unb64 e s) of
             (Some (Object header), Some (Object payload), Some signature) \<Rightarrow> Some (header, payload, signature)
           | _ \<Rightarrow> None)
      | _ \<Rightarrow> None)"

definition header_reason :: "dpop_env \<Rightarrow> claims \<Rightarrow> string \<Rightarrow> string option" where
  "header_reason e header expected_jkt =
     (if map_of header ''typ'' \<noteq> Some (Text ''dpop+jwt'') then Some ''wrong typ''
      else if map_of header ''alg'' \<noteq> Some (Text ''ES256'') then Some ''wrong alg''
      else if validate_public_jwk e (map_of header ''jwk'') \<noteq> Some expected_jkt
      then Some ''proof key does not match the token binding''
      else None)"

definition htu_path :: "dpop_env \<Rightarrow> claim option \<Rightarrow> string option" where
  "htu_path e htu = (case htu of Some (Text uri) \<Rightarrow> url_path e uri | _ \<Rightarrow> None)"

definition strip_chars :: "char \<Rightarrow> string \<Rightarrow> string" where
  "strip_chars ch s = rev (dropWhile (\<lambda>c. c = ch) (rev (dropWhile (\<lambda>c. c = ch) s)))"

definition strip_hosting_prefix :: "string option \<Rightarrow> string \<Rightarrow> string option" where
  "strip_hosting_prefix path base_path =
     (case path of
        None \<Rightarrow> None
      | Some p \<Rightarrow>
          (let base = ''/'' @ strip_chars CHR ''/'' base_path
           in if length base = 1 then Some p
              else if p = base then Some []
              else if startswith p (base @ ''/'') then Some (drop (length base) p)
              else Some p))"

definition uri_reason :: "dpop_env \<Rightarrow> claims \<Rightarrow> string \<Rightarrow> string \<Rightarrow> string option" where
  "uri_reason e payload path base_path =
     (let htu = htu_path e (map_of payload ''htu'')
      in if htu = Some path then None
         else if strip_hosting_prefix htu base_path = Some path then None
         else Some ''uri mismatch'')"

definition claim_reason :: "dpop_env \<Rightarrow> claims \<Rightarrow> string \<Rightarrow> string \<Rightarrow> string \<Rightarrow> string \<Rightarrow> string option" where
  "claim_reason e payload method path token base_path =
     (if map_of payload ''htm'' \<noteq> Some (Text method) then Some ''method mismatch''
      else if uri_reason e payload path base_path \<noteq> None then Some ''uri mismatch''
      else if map_of payload ''ath'' \<noteq> Some (Text (access_token_hash e token)) then Some ''token hash mismatch''
      else None)"

definition fresh_iat :: "claim \<Rightarrow> real \<Rightarrow> bool" where
  "fresh_iat iat now = (case iat of Number t \<Rightarrow> \<bar>now - t\<bar> \<le> PROOF_WINDOW_SECONDS | _ \<Rightarrow> False)"

text \<open>\<open>isinstance(iat, (int, float))\<close>, which a bool passes.\<close>

definition is_number :: "claim \<Rightarrow> bool" where
  "is_number c = (case c of Number _ \<Rightarrow> True | NotFinite \<Rightarrow> True | Boolean _ \<Rightarrow> True | _ \<Rightarrow> False)"

definition freshness_reason :: "claims \<Rightarrow> real \<Rightarrow> (string, real) dict \<Rightarrow> string option" where
  "freshness_reason payload now replay =
     (case (map_of payload ''iat'', map_of payload ''jti'') of
        (Some iat, Some (Text jti)) \<Rightarrow>
          (if \<not> is_number iat then Some ''malformed claims''
           else if \<not> fresh_iat iat now then Some ''stale proof''
           else if map_of replay jti \<noteq> None then Some ''replayed proof''
           else None)
      | _ \<Rightarrow> Some ''malformed claims'')"

definition purge_replay :: "(string, real) dict \<Rightarrow> real \<Rightarrow> nat \<Rightarrow> (string, real) dict" where
  "purge_replay replay now max_entries =
     (let replay = filter (\<lambda>(jti, expires). \<not> expires \<le> now) replay
      in drop (length replay - max_entries) replay)"

text \<open>The shapes matched first are the only ones that pass the checks before it.\<close>

definition record_if_authentic ::
  "dpop_env \<Rightarrow> claims \<Rightarrow> claims \<Rightarrow> byte list \<Rightarrow> string \<Rightarrow> (string, real) dict \<Rightarrow> real \<Rightarrow>
     string option \<times> (string, real) dict" where
  "record_if_authentic e header payload signature proof replay now =
     (case (map_of header ''jwk'', map_of payload ''jti'', map_of payload ''iat'') of
        (Some (Object jwk), Some (Text jti), Some (Number iat)) \<Rightarrow>
          (if \<not> verify_signature e jwk (encode (fst (rsplit1 CHR ''.'' proof))) signature
           then (Some ''bad signature'', replay)
           else (None, purge_replay (AList.update jti (max now iat + PROOF_WINDOW_SECONDS) replay) now REPLAY_CACHE_MAX))
      | _ \<Rightarrow> (Some ''bad signature'', replay))"

text \<open>One call of \<open>verify_proof\<close>; a proof that is not a string is \<open>None\<close>.\<close>

record dpop_call =
  c_proof :: "string option"
  c_method :: string
  c_path :: string
  c_token :: string
  c_jkt :: string
  c_now :: real
  c_base :: string

definition verify_proof ::
  "dpop_env \<Rightarrow> dpop_call \<Rightarrow> (string, real) dict \<Rightarrow> string option \<times> (string, real) dict" where
  "verify_proof e c replay =
     (case c_proof c of
        None \<Rightarrow> (Some ''missing proof'', replay)
      | Some proof \<Rightarrow>
          (case decode_proof e proof of
             None \<Rightarrow> (Some ''malformed proof'', replay)
           | Some (header, payload, signature) \<Rightarrow>
               (case find (\<lambda>r. r \<noteq> None)
                   [header_reason e header (c_jkt c),
                    claim_reason e payload (c_method c) (c_path c) (c_token c) (c_base c),
                    freshness_reason payload (c_now c) replay] of
                  Some (Some reason) \<Rightarrow> (Some reason, replay)
                | _ \<Rightarrow> record_if_authentic e header payload signature proof replay (c_now c))))"


section \<open>Lemmas\<close>

lemma freshness_None:
  "freshness_reason payload t replay = None \<longleftrightarrow>
     (\<exists>iat jti. map_of payload ''iat'' = Some (Number iat) \<and> map_of payload ''jti'' = Some (Text jti) \<and>
        \<bar>t - iat\<bar> \<le> PROOF_WINDOW_SECONDS \<and> map_of replay jti = None)"
  by (auto simp: freshness_reason_def fresh_iat_def is_number_def split: option.splits claim.splits if_splits)

lemma header_None_jwk: "header_reason e header jkt = None \<Longrightarrow> \<exists>jwk. map_of header ''jwk'' = Some (Object jwk)"
  by (auto simp: header_reason_def validate_public_jwk_def split: if_splits option.splits claim.splits)

lemma verify_proof_accepts:
  "verify_proof e call replay = (None, replay') \<longleftrightarrow>
     (\<exists>pf header payload signature jwk jti iat.
        c_proof call = Some pf \<and> decode_proof e pf = Some (header, payload, signature) \<and>
        header_reason e header (c_jkt call) = None \<and>
        claim_reason e payload (c_method call) (c_path call) (c_token call) (c_base call) = None \<and>
        map_of payload ''iat'' = Some (Number iat) \<and> map_of payload ''jti'' = Some (Text jti) \<and>
        \<bar>c_now call - iat\<bar> \<le> PROOF_WINDOW_SECONDS \<and> map_of replay jti = None \<and>
        map_of header ''jwk'' = Some (Object jwk) \<and>
        verify_signature e jwk (encode (fst (rsplit1 CHR ''.'' pf))) signature \<and>
        replay' = purge_replay (AList.update jti (max (c_now call) iat + PROOF_WINDOW_SECONDS) replay) (c_now call)
          REPLAY_CACHE_MAX)" (is "?L \<longleftrightarrow> ?R")
proof
  assume ?L
  then obtain pf header payload signature where p: "c_proof call = Some pf"
      "decode_proof e pf = Some (header, payload, signature)"
      "header_reason e header (c_jkt call) = None"
      "claim_reason e payload (c_method call) (c_path call) (c_token call) (c_base call) = None"
      "freshness_reason payload (c_now call) replay = None"
      "record_if_authentic e header payload signature pf replay (c_now call) = (None, replay')"
    by (auto simp: verify_proof_def split: option.splits if_splits)
  moreover from p(5) obtain iat jti where "map_of payload ''iat'' = Some (Number iat)"
    "map_of payload ''jti'' = Some (Text jti)" "\<bar>c_now call - iat\<bar> \<le> PROOF_WINDOW_SECONDS" "map_of replay jti = None"
    unfolding freshness_None by blast
  moreover from p(3) obtain jwk where "map_of header ''jwk'' = Some (Object jwk)" using header_None_jwk by blast
  ultimately show ?R by (auto simp: record_if_authentic_def split: if_splits)
next
  assume ?R
  then obtain pf header payload signature jwk jti iat where p: "c_proof call = Some pf"
      "decode_proof e pf = Some (header, payload, signature)" "header_reason e header (c_jkt call) = None"
      "claim_reason e payload (c_method call) (c_path call) (c_token call) (c_base call) = None"
      "map_of payload ''iat'' = Some (Number iat)" "map_of payload ''jti'' = Some (Text jti)"
      "\<bar>c_now call - iat\<bar> \<le> PROOF_WINDOW_SECONDS" "map_of replay jti = None" "map_of header ''jwk'' = Some (Object jwk)"
      "verify_signature e jwk (encode (fst (rsplit1 CHR ''.'' pf))) signature"
      "replay' = purge_replay (AList.update jti (max (c_now call) iat + PROOF_WINDOW_SECONDS) replay) (c_now call)
          REPLAY_CACHE_MAX" by blast
  then have "freshness_reason payload (c_now call) replay = None" unfolding freshness_None by blast
  with p show ?L by (simp add: verify_proof_def record_if_authentic_def)
qed

lemma verify_proof_rejects:
  assumes "verify_proof e call replay = (Some reason, replay')"
  shows "replay' = replay"
  using assms
  by (auto simp: verify_proof_def record_if_authentic_def split: option.splits if_splits claim.splits)

text \<open>What a verification does to an entry: it stays until its time unless the cap pushes it out.\<close>

lemma purge_keeps:
  assumes "(jti, x) \<in> set r" "t < x" "length r \<le> n"
  shows "(jti, x) \<in> set (purge_replay r t n)"
proof -
  have "length (filter (\<lambda>(jti, expires). \<not> expires \<le> t) r) \<le> n"
    using length_filter_le [of _ r] assms(3) by (rule le_trans)
  with assms(1,2) show ?thesis by (auto simp: purge_replay_def Let_def)
qed

lemma length_purge: "length (purge_replay r t n) \<le> length r"
  using length_filter_le by (auto simp: purge_replay_def Let_def intro: le_trans [OF diff_le_self])

lemma verify_keeps:
  assumes "verify_proof e call r = (res, r')" "(jti, x) \<in> set r" "dict_ok r" "c_now call < x"
    "length r < REPLAY_CACHE_MAX"
  shows "(jti, x) \<in> set r' \<and> length r' \<le> Suc (length r)"
proof (cases res)
  case None
  obtain jti' v where r': "r' = purge_replay (AList.update jti' v r) (c_now call) REPLAY_CACHE_MAX" "map_of r jti' = None"
    using assms(1) unfolding None verify_proof_accepts by blast
  then have "jti' \<notin> fst ` set r" by (simp add: map_of_eq_None_iff)
  then have "AList.update jti' v r = r @ [(jti', v)]" by (rule dict_update_new)
  with assms purge_keeps [of jti x "r @ [(jti', v)]" "c_now call" REPLAY_CACHE_MAX] length_purge [of "r @ [(jti', v)]"] r'
  show ?thesis by simp
next
  case (Some reason)
  with verify_proof_rejects [of e call r reason r'] assms show ?thesis by simp
qed

lemma dict_ok_verify:
  assumes "verify_proof e call r = (res, r')" "dict_ok r"
  shows "dict_ok r'"
proof (cases res)
  case None
  obtain jti' v where "r' = purge_replay (AList.update jti' v r) (c_now call) REPLAY_CACHE_MAX"
    using assms(1) unfolding None verify_proof_accepts by blast
  moreover have "dict_ok (AList.update jti' v r)" using assms(2) by simp
  ultimately show ?thesis by (simp add: purge_replay_def Let_def drop_map [symmetric])
next
  case (Some reason)
  with verify_proof_rejects [of e call r reason r'] assms show ?thesis by simp
qed

definition run_calls :: "dpop_env \<Rightarrow> dpop_call list \<Rightarrow> (string, real) dict \<Rightarrow> (string, real) dict" where
  "run_calls e calls r = fold (\<lambda>call r. snd (verify_proof e call r)) calls r"

lemma run_calls_keeps:
  assumes "(jti, x) \<in> set r" "dict_ok r" "list_all (\<lambda>call. c_now call < x) calls"
    "length r + length calls \<le> REPLAY_CACHE_MAX"
  shows "(jti, x) \<in> set (run_calls e calls r)"
  using assms
proof (induction calls arbitrary: r)
  case (Cons call calls)
  obtain res r' where v: "verify_proof e call r = (res, r')" by fastforce
  have "(jti, x) \<in> set r' \<and> length r' \<le> Suc (length r)"
    using verify_keeps [OF v Cons.prems(1,2)] Cons.prems(3,4) by simp
  with Cons.IH [of r'] dict_ok_verify [OF v Cons.prems(2)] Cons.prems v show ?case
    by (simp add: run_calls_def)
qed (simp add: run_calls_def)


section \<open>Properties\<close>

text \<open>
  (C40) A proof is accepted once. After a verification that accepted it, whatever other proofs are verified in
  between, the same proof is refused at any later clock reading, as long as the cache has not reached its
  cap; the one exception is the reading that lies exactly the window after its \<open>iat\<close>.
\<close>

theorem proof_single_use:
  assumes "verify_proof e call r = (None, r1)" "dict_ok r"
    and "decode_proof e (the (c_proof call)) = Some (header, payload, signature)"
    and "map_of payload ''iat'' = Some (Number iat)"
    and "c_proof again = c_proof call" "c_now again \<noteq> iat + PROOF_WINDOW_SECONDS"
    and "list_all (\<lambda>other. c_now other \<le> c_now again) others"
    and "length r + length others < REPLAY_CACHE_MAX"
  shows "fst (verify_proof e again (run_calls e others r1)) \<noteq> None"
proof
  assume "fst (verify_proof e again (run_calls e others r1)) = None"
  then obtain r2 where again: "verify_proof e again (run_calls e others r1) = (None, r2)" by (metis prod.collapse)
  obtain jti where jti: "map_of payload ''jti'' = Some (Text jti)" "map_of r jti = None"
    "r1 = purge_replay (AList.update jti (max (c_now call) iat + PROOF_WINDOW_SECONDS) r) (c_now call) REPLAY_CACHE_MAX"
    using assms(1,3,4) unfolding verify_proof_accepts by auto
  let ?x = "max (c_now call) iat + PROOF_WINDOW_SECONDS"
  have fresh: "\<bar>c_now again - iat\<bar> \<le> PROOF_WINDOW_SECONDS" "map_of (run_calls e others r1) jti = None"
    using again assms(3-5) jti(1) unfolding verify_proof_accepts by auto
  then have "c_now again < ?x" using assms(6) by (auto simp: max_def abs_le_iff)
  then have times: "list_all (\<lambda>other. c_now other < ?x) others"
    using assms(7) by (fastforce simp: list_all_iff)
  have app: "AList.update jti ?x r = r @ [(jti, ?x)]"
    using jti(2) by (intro dict_update_new) (simp add: map_of_eq_None_iff)
  have "c_now call < ?x" by (simp add: PROOF_WINDOW_SECONDS_def max_def)
  with purge_keeps [of jti ?x "r @ [(jti, ?x)]" "c_now call" REPLAY_CACHE_MAX] assms(8)
    length_purge [of "r @ [(jti, ?x)]"]
  have "(jti, ?x) \<in> set r1" "length r1 \<le> Suc (length r)" unfolding jti(3) app by simp_all
  with run_calls_keeps [OF _ dict_ok_verify [OF assms(1,2)] times] assms(8)
  have "(jti, ?x) \<in> set (run_calls e others r1)" by simp
  with fresh(2) show False by (auto simp: map_of_eq_None_iff image_iff)
qed

text \<open>An environment for examples: two well-formed proofs, every signature good.\<close>

definition example_jwk :: claims where
  "example_jwk = [(''kty'', Text ''EC''), (''crv'', Text ''P-256''), (''x'', Text ''X''), (''y'', Text ''Y'')]"

definition example_payload :: "string \<Rightarrow> real \<Rightarrow> claims" where
  "example_payload jti iat =
     [(''htm'', Text ''GET''), (''htu'', Text ''/api''), (''ath'', Text ''hash''), (''iat'', Number iat), (''jti'', Text jti)]"

definition example_env :: dpop_env where
  "example_env =
     \<lparr>digest = \<lambda>_. ''hash'',
      loads = map_of
        [(''h'', Object [(''typ'', Text ''dpop+jwt''), (''alg'', Text ''ES256''), (''jwk'', Object example_jwk)]),
         (''p'', Object (example_payload ''j1'' 0)), (''q'', Object (example_payload ''j2'' 300))],
      unb64 = \<lambda>_. Some [], ec_verify = \<lambda>_ _ _. True, url_path = Some\<rparr>"

definition example_call :: "string \<Rightarrow> real \<Rightarrow> dpop_call" where
  "example_call pf t =
     \<lparr>c_proof = Some pf, c_method = ''GET'', c_path = ''/api'', c_token = ''tok'', c_jkt = ''hash'', c_now = t, c_base = []\<rparr>"

lemma example_decode:
  "decode_proof example_env ''h.p.s'' = Some ([(''typ'', Text ''dpop+jwt''), (''alg'', Text ''ES256''), (''jwk'', Object example_jwk)],
     example_payload ''j1'' 0, [])"
  "decode_proof example_env ''h.q.s'' = Some ([(''typ'', Text ''dpop+jwt''), (''alg'', Text ''ES256''), (''jwk'', Object example_jwk)],
     example_payload ''j2'' 300, [])"
  by (simp_all add: decode_proof_def example_env_def)

lemmas dpop_eval = verify_proof_def header_reason_def validate_public_jwk_def jwk_thumbprint_def is_ec_p256_def
  is_text_def claim_reason_def uri_reason_def htu_path_def access_token_hash_def freshness_reason_def is_number_def
  fresh_iat_def record_if_authentic_def verify_signature_def purge_replay_def PROOF_WINDOW_SECONDS_def REPLAY_CACHE_MAX_def
  example_env_def example_call_def example_jwk_def example_payload_def Let_def

lemma example_first: "verify_proof example_env (example_call ''h.p.s'' 0) [] = (None, [(''j1'', 300)])"
  using example_decode(1) by (simp add: dpop_eval)

theorem proof_single_use_witness:
  "fst (verify_proof example_env (example_call ''h.p.s'' 1) (run_calls example_env [example_call ''h.p.s'' 1] [(''j1'', 300)])) \<noteq> None"
proof (rule proof_single_use [OF example_first, where iat = 0])
  show "decode_proof example_env (the (c_proof (example_call ''h.p.s'' 0))) =
      Some ([(''typ'', Text ''dpop+jwt''), (''alg'', Text ''ES256''), (''jwk'', Object example_jwk)], example_payload ''j1'' 0, [])"
    using example_decode(1) by (simp add: example_call_def)
qed (simp_all add: example_payload_def example_call_def PROOF_WINDOW_SECONDS_def REPLAY_CACHE_MAX_def)

text \<open>
  The exception is real: at the clock reading exactly the window after its \<open>iat\<close> a proof is still fresh,
  while its entry expires at that very reading, so another verification purges it and the proof is
  accepted a second time.
\<close>

theorem replay_at_window_end:
  "fst (verify_proof example_env (example_call ''h.p.s'' 0) []) = None \<and>
   fst (verify_proof example_env (example_call ''h.p.s'' 300)
     (run_calls example_env [example_call ''h.q.s'' 300]
       (snd (verify_proof example_env (example_call ''h.p.s'' 0) [])))) = None"
proof -
  have "verify_proof example_env (example_call ''h.q.s'' 300) [(''j1'', 300)] = (None, [(''j2'', 600)])"
    using example_decode(2) by (simp add: dpop_eval)
  moreover have "fst (verify_proof example_env (example_call ''h.p.s'' 300) [(''j2'', 600)]) = None"
    using example_decode(1) by (simp add: dpop_eval)
  ultimately show ?thesis by (simp add: example_first run_calls_def)
qed

lemma header_None:
  "header_reason e header jkt = None \<longleftrightarrow>
     map_of header ''typ'' = Some (Text ''dpop+jwt'') \<and> map_of header ''alg'' = Some (Text ''ES256'') \<and>
     (\<exists>jwk. map_of header ''jwk'' = Some (Object jwk) \<and> map_of jwk ''d'' = None \<and> jwk_thumbprint e jwk = Some jkt)"
  by (auto simp: header_reason_def validate_public_jwk_def split: option.splits claim.splits if_splits)

lemma claim_None:
  "claim_reason e payload m path token base = None \<longleftrightarrow>
     map_of payload ''htm'' = Some (Text m) \<and> map_of payload ''ath'' = Some (Text (digest e (encode token))) \<and>
     (htu_path e (map_of payload ''htu'') = Some path \<or>
      strip_hosting_prefix (htu_path e (map_of payload ''htu'')) base = Some path)"
  by (auto simp: claim_reason_def uri_reason_def access_token_hash_def Let_def)

text \<open>
  What acceptance means: exactly the proofs of the documented form pass - the type and algorithm, a public
  key whose thumbprint is the one the token is bound to, this method, this path (bare or behind the
  hosting prefix), this token's hash, a fresh \<open>iat\<close>, a new \<open>jti\<close>, and a good signature over the first two
  segments by that key. A refused proof leaves the cache as it was.
\<close>

theorem proof_accepted_iff:
  "(fst (verify_proof e call replay) = None \<longleftrightarrow>
     (\<exists>pf header payload signature jwk jti iat.
        c_proof call = Some pf \<and> decode_proof e pf = Some (header, payload, signature) \<and>
        map_of header ''typ'' = Some (Text ''dpop+jwt'') \<and> map_of header ''alg'' = Some (Text ''ES256'') \<and>
        map_of header ''jwk'' = Some (Object jwk) \<and> map_of jwk ''d'' = None \<and> jwk_thumbprint e jwk = Some (c_jkt call) \<and>
        map_of payload ''htm'' = Some (Text (c_method call)) \<and>
        map_of payload ''ath'' = Some (Text (digest e (encode (c_token call)))) \<and>
        (htu_path e (map_of payload ''htu'') = Some (c_path call) \<or>
         strip_hosting_prefix (htu_path e (map_of payload ''htu'')) (c_base call) = Some (c_path call)) \<and>
        map_of payload ''iat'' = Some (Number iat) \<and> \<bar>c_now call - iat\<bar> \<le> PROOF_WINDOW_SECONDS \<and>
        map_of payload ''jti'' = Some (Text jti) \<and> map_of replay jti = None \<and>
        verify_signature e jwk (encode (fst (rsplit1 CHR ''.'' pf))) signature)) \<and>
   (fst (verify_proof e call replay) = None \<or> snd (verify_proof e call replay) = replay)"
proof -
  have "fst (verify_proof e call replay) = None \<longleftrightarrow> (\<exists>replay'. verify_proof e call replay = (None, replay'))"
    by (cases "verify_proof e call replay") auto
  moreover have "fst (verify_proof e call replay) = None \<or> snd (verify_proof e call replay) = replay"
    using verify_proof_rejects [of e call replay] by (cases "verify_proof e call replay"; cases "fst (verify_proof e call replay)") auto
  moreover have "header_reason e header jkt = None \<and> map_of header ''jwk'' = Some (Object jwk) \<longleftrightarrow>
      map_of header ''typ'' = Some (Text ''dpop+jwt'') \<and> map_of header ''alg'' = Some (Text ''ES256'') \<and>
      map_of header ''jwk'' = Some (Object jwk) \<and> map_of jwk ''d'' = None \<and> jwk_thumbprint e jwk = Some jkt"
    for header jkt jwk by (auto simp: header_None)
  ultimately show ?thesis unfolding verify_proof_accepts claim_None by blast
qed


section \<open>The DER form of a signature\<close>

text \<open>Reading back a DER integer: positive and in the fewest bytes, and a sequence of two of them.\<close>

definition parse_der_int :: "byte list \<Rightarrow> (nat \<times> byte list) option" where
  "parse_der_int bs =
     (case bs of
        tag # n # rest \<Rightarrow>
          (let body = take (unat n) rest
           in if tag = 2 \<and> 0 < unat n \<and> unat n < 128 \<and> length body = unat n \<and> unat (hd body) < 128 \<and>
                 (hd body = 0 \<longrightarrow> unat n = 1 \<or> 128 \<le> unat (body ! 1))
              then Some (from_bytes_big body, drop (unat n) rest) else None)
      | _ \<Rightarrow> None)"

definition parse_der :: "byte list \<Rightarrow> (nat \<times> nat) option" where
  "parse_der bs =
     (case bs of
        tag # n # rest \<Rightarrow>
          (if tag = 0x30 \<and> unat n < 128 \<and> length rest = unat n
           then (case parse_der_int rest of
                   Some (r, rest) \<Rightarrow>
                     (case parse_der_int rest of Some (s, []) \<Rightarrow> Some (r, s) | _ \<Rightarrow> None)
                 | None \<Rightarrow> None)
           else None)
      | _ \<Rightarrow> None)"

lemma bit_length_bounds: "v < 2 ^ bit_length v" "0 < v \<Longrightarrow> 2 ^ (bit_length v - 1) \<le> v"
proof (induction v rule: bit_length.induct)
  case (1 n)
  show "n < 2 ^ bit_length n"
    using 1(1) by (cases "n = 0") (simp_all add: bit_length.simps [of n])
  show "2 ^ (bit_length n - 1) \<le> n" if "0 < n"
  proof (cases "n = 1")
    case False
    with that have "0 < n div 2" by simp
    moreover from this have "0 < bit_length (n div 2)" by (subst bit_length.simps) simp
    ultimately have "2 * 2 ^ (bit_length (n div 2) - 1) \<le> 2 * (n div 2)" "2 * 2 ^ (bit_length (n div 2) - 1) = (2 :: nat) ^ bit_length (n div 2)"
      using 1(2) that by (simp_all add: power_eq_if)
    then show ?thesis using that by (simp add: bit_length.simps [of n])
  qed (simp add: bit_length.simps)
qed

lemma hd_to_bytes_big: "0 < k \<Longrightarrow> v < 256 ^ k \<Longrightarrow> unat (hd (to_bytes_big k v)) = v div 256 ^ (k - 1)"
proof (induction k arbitrary: v)
  case (Suc k)
  show ?case
  proof (cases k)
    case 0
    with Suc.prems show ?thesis by (simp add: unat_of_nat)
  next
    case (Suc k')
    then have "v div 256 < 256 ^ k" using Suc.prems by (simp add: div_less_iff_less_mult mult.commute)
    with Suc.IH [of "v div 256"] Suc show ?thesis
      by (cases "to_bytes_big k (v div 256)") (auto simp: div_mult2_eq [symmetric])
  qed
qed simp

lemma der_int_width:
  assumes "v < 256 ^ 32"
  shows "v < 256 ^ max 1 ((bit_length v + 7) div 8)" "max 1 ((bit_length v + 7) div 8) \<le> 32"
    "0 < v \<Longrightarrow> 256 ^ (max 1 ((bit_length v + 7) div 8) - 1) \<le> v"
proof -
  let ?b = "bit_length v" and ?k = "max 1 ((bit_length v + 7) div 8)"
  have "(2 :: nat) ^ ?b \<le> 2 ^ (8 * ?k)" by (intro power_increasing) auto
  then have "(2 :: nat) ^ ?b \<le> 256 ^ ?k" by (simp add: power_mult)
  with bit_length_bounds(1) [of v] show "v < 256 ^ ?k" by linarith
  have "?b \<le> 256"
  proof (rule ccontr)
    assume "\<not> ?b \<le> 256"
    then have "0 < v" by (cases v) (simp_all add: bit_length.simps [of 0])
    from \<open>\<not> ?b \<le> 256\<close> have "256 \<le> ?b - 1" by simp
    then have "(2 :: nat) ^ 256 \<le> 2 ^ (?b - 1)" by (rule power_increasing) simp
    also have "\<dots> \<le> v" by (rule bit_length_bounds(2) [OF \<open>0 < v\<close>])
    finally have "2 ^ 256 \<le> v" .
    moreover have "(2 :: nat) ^ 256 = 256 ^ 32" by (simp flip: power_mult [of 2 8 32])
    ultimately show False using assms by linarith
  qed
  then show "?k \<le> 32" by simp
  show "256 ^ (?k - 1) \<le> v" if "0 < v"
  proof -
    have "0 < ?b" using that by (subst bit_length.simps) simp
    then have "8 * (?k - 1) \<le> ?b - 1" by auto
    then have "(2 :: nat) ^ (8 * (?k - 1)) \<le> 2 ^ (?b - 1)" by (intro power_increasing) auto
    with bit_length_bounds(2) [OF that] show ?thesis by (simp add: power_mult)
  qed
qed

lemma from_bytes_big_zero: "from_bytes_big (0 # bs) = from_bytes_big bs"
  by (simp add: from_bytes_big_def)

lemma unat_small: "n < 256 \<Longrightarrow> unat (of_nat n :: byte) = n"
  by (simp add: unat_of_nat)

lemma parse_der_int_body:
  assumes "body \<noteq> []" "length body < 128" "unat (hd body) < 128"
    "hd body = 0 \<Longrightarrow> length body = 1 \<or> 128 \<le> unat (body ! 1)"
  shows "parse_der_int ([2, of_nat (length body)] @ body @ rest) = Some (from_bytes_big body, rest)"
  using assms unat_small [of "length body"] by (auto simp: parse_der_int_def Let_def)

lemma parse_der_int_der:
  assumes "v < 256 ^ 32"
  shows "parse_der_int (der_int v @ rest) = Some (v, rest)" "length (der_int v) \<le> 35"
proof -
  define k where "k = max 1 ((bit_length v + 7) div 8)"
  define raw where "raw = to_bytes_big k v"
  note width = der_int_width [OF assms, folded k_def]
  have k: "0 < k" "length raw = k" by (simp_all add: k_def raw_def)
  have val: "from_bytes_big raw = v" using width(1) by (simp add: raw_def)
  have top: "unat (hd raw) = v div 256 ^ (k - 1)" unfolding raw_def by (rule hd_to_bytes_big [OF k(1) width(1)])
  define body where "body = (if 128 \<le> unat (hd raw) then 0 # raw else raw)"
  have der: "der_int v = [2, of_nat (length body)] @ body"
    by (simp add: der_int_def Let_def body_def raw_def k_def)
  have "raw \<noteq> []" using k by auto
  have len: "length body \<le> 33" using k width(2) by (simp add: body_def)
  have "hd body = 0 \<Longrightarrow> length body = 1 \<or> 128 \<le> unat (body ! 1)"
  proof (cases "128 \<le> unat (hd raw)")
    case True
    with \<open>raw \<noteq> []\<close> show ?thesis by (simp add: body_def hd_conv_nth)
  next
    case False
    assume "hd body = 0"
    with False top have "v div 256 ^ (k - 1) = 0" by (simp add: body_def)
    then have "v < 256 ^ (k - 1)" by (simp add: div_eq_0_iff)
    with width(3) have "v = 0" by linarith
    then have "k = 1" by (simp add: k_def bit_length.simps)
    with False k show ?thesis by (simp add: body_def)
  qed
  with parse_der_int_body [of body rest] len \<open>raw \<noteq> []\<close> val
  show "parse_der_int (der_int v @ rest) = Some (v, rest)"
    unfolding der by (simp add: body_def from_bytes_big_zero split: if_splits)
  show "length (der_int v) \<le> 35" using len by (simp add: der)
qed

text \<open>
  The conversion of a raw signature is a strict DER encoding of its two halves: both integers are
  positive and minimal, every length fits its byte, and reading it back gives the halves.
\<close>

theorem raw_signature_reencoded:
  assumes "length signature = 64"
  shows "parse_der (raw_to_der signature) =
    Some (from_bytes_big (take 32 signature), from_bytes_big (drop 32 signature))"
proof -
  define r s where "r = from_bytes_big (take 32 signature)" and "s = from_bytes_big (drop 32 signature)"
  have lt: "r < 256 ^ 32" "s < 256 ^ 32"
    using from_bytes_big_less [of "take 32 signature"] from_bytes_big_less [of "drop 32 signature"] assms
    by (simp_all add: r_def s_def)
  define body where "body = der_int r @ der_int s"
  have "length body \<le> 70" using parse_der_int_der(2) [OF lt(1)] parse_der_int_der(2) [OF lt(2)] by (simp add: body_def)
  then have n: "unat (of_nat (length body) :: byte) = length body" by (intro unat_small) simp
  have "raw_to_der signature = [0x30, of_nat (length body)] @ body"
    by (simp add: raw_to_der_def Let_def r_def s_def body_def)
  moreover have "parse_der_int body = Some (r, der_int s)" unfolding body_def by (rule parse_der_int_der(1) [OF lt(1)])
  moreover have "parse_der_int (der_int s) = Some (s, [])" using parse_der_int_der(1) [OF lt(2), of "[]"] by simp
  ultimately show ?thesis using n \<open>length body \<le> 70\<close> by (simp add: parse_der_def r_def s_def)
qed

theorem raw_signature_reencoded_witness:
  "parse_der (raw_to_der (replicate 64 0xFF)) =
     Some (from_bytes_big (replicate 32 0xFF), from_bytes_big (replicate 32 0xFF))"
  using raw_signature_reencoded [of "replicate 64 0xFF"] by simp


section \<open>Thumbprints\<close>

text \<open>A JSON string ends at its first unescaped quote, so what it holds can be read back.\<close>

lemma short_escape_inj: "short_escape c = Some k \<Longrightarrow> short_escape d = Some k \<Longrightarrow> c = d"
  by (auto simp: short_escape_def split: if_splits)

lemma short_escape_not_u: "short_escape c \<noteq> Some CHR ''u''"
  by (auto simp: short_escape_def)

lemma hex_digit_inj: "m < 16 \<Longrightarrow> n < 16 \<Longrightarrow> hex_digit m = hex_digit n \<Longrightarrow> m = n"
  by (simp add: hex_digit_def nth_eq_iff_index_eq)

lemma json_char_cases:
  obtains (short) k where "json_char c = [CHR 0x5C, k]" "short_escape c = Some k"
  | (plain) "json_char c = [c]" "c \<noteq> CHR 0x22" "c \<noteq> CHR 0x5C"
  | (hex) "json_char c = [CHR 0x5C, CHR ''u'', CHR ''0'', CHR ''0'', hex_digit (of_char c div 16), hex_digit (of_char c mod 16)]"
proof (cases "short_escape c")
  case None
  then have "c \<noteq> CHR 0x22" "c \<noteq> CHR 0x5C" by (auto simp: short_escape_def)
  with None plain hex show thesis
    by (cases "32 \<le> (of_char c :: nat) \<and> (of_char c :: nat) \<le> 126") (simp_all add: json_char_def Let_def)
next
  case (Some k)
  with short [of k] show thesis by (simp add: json_char_def)
qed

lemma json_char_inject:
  assumes "json_char c @ x = json_char d @ y"
  shows "c = d \<and> x = y"
proof -
  have hex: "c = d" if "hex_digit (of_char c div 16) = hex_digit (of_char d div 16)"
    "hex_digit (of_char c mod 16) = hex_digit (of_char d mod 16)"
  proof -
    have "(of_char c :: nat) div 16 = of_char d div 16" "(of_char c :: nat) mod 16 = of_char d mod 16"
      using that by (auto intro!: hex_digit_inj simp: less_mult_imp_div_less)
    then have "(of_char c :: nat) = of_char d" by (metis div_mult_mod_eq)
    then show ?thesis by simp
  qed
  show ?thesis
    using assms hex short_escape_inj short_escape_not_u
    by (cases c rule: json_char_cases; cases d rule: json_char_cases) auto
qed

lemma json_string_inject:
  assumes "json_string s @ x = json_string t @ y"
  shows "s = t \<and> x = y"
proof -
  have quote: "json_char c @ u \<noteq> CHR 0x22 # v" for c u v
    by (cases c rule: json_char_cases) auto
  have "concat (map json_char s) @ CHR 0x22 # x = concat (map json_char t) @ CHR 0x22 # y"
    using assms by (simp add: json_string_def)
  then show ?thesis
  proof (induction s arbitrary: t)
    case Nil
    show ?case
    proof (cases t)
      case (Cons d t')
      with Nil quote [of d "concat (map json_char t') @ CHR 0x22 # y" x] show ?thesis by simp
    qed (use Nil in simp)
  next
    case (Cons c s)
    show ?case
    proof (cases t)
      case Nil
      with Cons.prems quote [of c] show ?thesis by simp
    next
      case (Cons d t')
      with Cons.prems have "json_char c @ concat (map json_char s) @ CHR 0x22 # x = json_char d @ concat (map json_char t') @ CHR 0x22 # y"
        by simp
      from json_char_inject [OF this] Cons.IH [of t'] Cons show ?thesis by simp
    qed
  qed
qed

text \<open>
  A thumbprint names one key. Two keys for which a thumbprint is computed have the same text under the
  digest only if they have the same coordinates, so a proof's key that passes the binding check is the
  key the token was bound to, up to a collision of the digest.
\<close>

theorem thumbprint_names_key:
  assumes "jwk_thumbprint e jwk = Some k" "jwk_thumbprint e jwk' = Some k"
    and "digest e (encode (canonical_jwk jwk)) = digest e (encode (canonical_jwk jwk')) \<Longrightarrow>
      encode (canonical_jwk jwk) = encode (canonical_jwk jwk')"
  shows "map_of jwk ''x'' = map_of jwk' ''x'' \<and> map_of jwk ''y'' = map_of jwk' ''y''"
proof -
  have ec: "is_ec_p256 jwk" "is_ec_p256 jwk'" using assms(1,2) by (auto simp: jwk_thumbprint_def split: if_splits)
  then obtain x y x' y' where c: "map_of jwk ''x'' = Some (Text x)" "map_of jwk ''y'' = Some (Text y)"
    "map_of jwk' ''x'' = Some (Text x')" "map_of jwk' ''y'' = Some (Text y')"
    by (auto simp: is_ec_p256_def is_text_def split: if_splits option.splits claim.splits)
  have members: "map_of jwk ''kty'' = Some (Text ''EC'')" "map_of jwk ''crv'' = Some (Text ''P-256'')"
    "map_of jwk' ''kty'' = Some (Text ''EC'')" "map_of jwk' ''crv'' = Some (Text ''P-256'')"
    using ec by (auto simp: is_ec_p256_def split: if_splits)
  have "digest e (encode (canonical_jwk jwk)) = digest e (encode (canonical_jwk jwk'))"
    using assms(1,2) ec by (simp add: jwk_thumbprint_def)
  from encode_inject [OF assms(3) [OF this]] have "json_string x @ '','' @ json_string ''y'' @ '':'' @ json_string y @ ''}'' =
      json_string x' @ '','' @ json_string ''y'' @ '':'' @ json_string y' @ ''}''"
    unfolding canonical_jwk_def text_of_def c members by simp
  from json_string_inject [OF this] have "x = x'" "json_string y @ ''}'' = json_string y' @ ''}''" by simp_all
  with json_string_inject [OF this(2)] c show ?thesis by simp
qed

theorem thumbprint_names_key_witness:
  "jwk_thumbprint example_env ((''kid'', Text ''1'') # example_jwk) = Some ''hash'' \<and>
   map_of ((''kid'', Text ''1'') # example_jwk) ''x'' = map_of example_jwk ''x''"
proof -
  have tp: "jwk_thumbprint example_env ((''kid'', Text ''1'') # example_jwk) = Some ''hash''"
    "jwk_thumbprint example_env example_jwk = Some ''hash''"
    by (simp_all add: dpop_eval)
  have "canonical_jwk ((''kid'', Text ''1'') # example_jwk) = canonical_jwk example_jwk"
    by (simp add: canonical_jwk_def example_jwk_def)
  with thumbprint_names_key [OF tp] tp(1) show ?thesis by simp
qed

text \<open>
  The tolerance for a hosting prefix removes whole leading segments only: what is left is the path itself,
  or what follows the prefix, empty or starting at a slash.
\<close>

theorem hosting_prefix_by_segments:
  assumes "strip_hosting_prefix (Some p) base = Some q"
  shows "q = p \<or> p = ''/'' @ strip_chars CHR ''/'' base @ q \<and> (q = [] \<or> startswith q ''/'')"
  using assms by (auto simp: strip_hosting_prefix_def Let_def startswith_iff split: if_splits)

theorem hosting_prefix_by_segments_witness:
  "strip_hosting_prefix (Some ''/k/api'') ''/k/'' = Some ''/api'' \<and> ''/k/api'' = ''/'' @ strip_chars CHR ''/'' ''/k/'' @ ''/api''"
proof -
  have "strip_hosting_prefix (Some ''/k/api'') ''/k/'' = Some ''/api''"
    by (simp add: strip_hosting_prefix_def strip_chars_def startswith_def)
  with hosting_prefix_by_segments [OF this] show ?thesis by simp
qed

end
