(* ===== verification/Ports.thy ===== *)
theory Ports
  imports Prelude
begin

text \<open>
  Host ports of workspaces: the scan for free ports (\<open>klangk/util.py\<close>), the table of allocations
  (\<open>klangk/model/ports.py\<close>, with the primary key and the foreign key of \<open>klangk/model/schema.py\<close>) and the
  callers that hold the port lock (\<open>PortAllocator\<close> of \<open>klangk/container/basics.py\<close>, \<open>_reconcile_ports\<close>
  of \<open>klangk/container/registry.py\<close>). The probe that binds a port is a parameter.
\<close>

section \<open>The scan\<close>

datatype port_error = Exhausted | IntegrityError

definition MAX_PORT :: int where "MAX_PORT = 65535"

definition CONTAINER_PORT_START :: int where "CONTAINER_PORT_START = 8000"

definition DEFAULT_PORTS_PER_WORKSPACE :: int where "DEFAULT_PORTS_PER_WORKSPACE = 5"

function scan_loop :: "(int \<Rightarrow> bool) \<Rightarrow> int set \<Rightarrow> int \<Rightarrow> int \<Rightarrow> int list \<Rightarrow> port_error + int list" where
  "scan_loop port_in_use used count port ports =
     (if int (length ports) < count
      then (if port > MAX_PORT then Inl Exhausted
            else scan_loop port_in_use used count (port + 1)
                   (if port \<notin> used \<and> \<not> port_in_use port then ports @ [port] else ports))
      else Inr ports)"
  by pat_completeness auto

termination
  by (relation "measure (\<lambda>(_, _, _, port, _). nat (MAX_PORT + 1 - port))") (auto simp: MAX_PORT_def)

declare scan_loop.simps [simp del]

definition scan_free_ports :: "(int \<Rightarrow> bool) \<Rightarrow> int \<Rightarrow> int \<Rightarrow> int set \<Rightarrow> port_error + int list" where
  "scan_free_ports port_in_use start count used = scan_loop port_in_use used count start []"


section \<open>The table\<close>

text \<open>
  \<open>port_allocations\<close>: the port is the primary key and the workspace has to exist. A transaction that
  raises leaves the table as it was.
\<close>

type_synonym port_table = "(int, string) dict"

definition insert_port :: "string set \<Rightarrow> string \<Rightarrow> int \<Rightarrow> port_table \<Rightarrow> port_error + port_table" where
  "insert_port workspaces ws port t =
     (if port \<in> fst ` set t \<or> ws \<notin> workspaces then Inl IntegrityError else Inr (t @ [(port, ws)]))"

fun add_port_allocations :: "string set \<Rightarrow> string \<Rightarrow> int list \<Rightarrow> port_table \<Rightarrow> port_error + port_table" where
  "add_port_allocations workspaces ws [] t = Inr t"
| "add_port_allocations workspaces ws (port # ports) t =
     (case insert_port workspaces ws port t of
        Inl e \<Rightarrow> Inl e
      | Inr t \<Rightarrow> add_port_allocations workspaces ws ports t)"

definition get_all_allocated_ports :: "port_table \<Rightarrow> int set" where
  "get_all_allocated_ports t = fst ` set t"

definition find_and_allocate_ports ::
  "(int \<Rightarrow> bool) \<Rightarrow> string set \<Rightarrow> string \<Rightarrow> int \<Rightarrow> int \<Rightarrow> port_table \<Rightarrow> port_error + int list \<times> port_table" where
  "find_and_allocate_ports port_in_use workspaces ws count start t =
     (case scan_free_ports port_in_use start count (get_all_allocated_ports t) of
        Inl e \<Rightarrow> Inl e
      | Inr ports \<Rightarrow>
          (case add_port_allocations workspaces ws ports t of
             Inl e \<Rightarrow> Inl e
           | Inr t \<Rightarrow> Inr (ports, t)))"

definition remove_port_allocations :: "string \<Rightarrow> int list \<Rightarrow> port_table \<Rightarrow> port_table" where
  "remove_port_allocations ws ports t = fold (\<lambda>port. filter (\<lambda>(p, w). \<not> (p = port \<and> w = ws))) ports t"

definition get_workspace_ports :: "string \<Rightarrow> port_table \<Rightarrow> int list" where
  "get_workspace_ports ws t = sort (map fst (filter (\<lambda>(p, w). w = ws) t))"

text \<open>The part of \<open>delete_workspace\<close> that releases the ports.\<close>

definition delete_workspace_ports :: "string \<Rightarrow> port_table \<Rightarrow> port_table" where
  "delete_workspace_ports ws t = filter (\<lambda>(p, w). w \<noteq> ws) t"


section \<open>The callers\<close>

definition ports_per_workspace_cap :: "int option \<Rightarrow> int" where
  "ports_per_workspace_cap hosted_ports_per_workspace =
     (case hosted_ports_per_workspace of None \<Rightarrow> DEFAULT_PORTS_PER_WORKSPACE | Some raw \<Rightarrow> raw)"

definition allocate_ports ::
  "(int \<Rightarrow> bool) \<Rightarrow> string set \<Rightarrow> int option \<Rightarrow> int \<Rightarrow> string \<Rightarrow> int \<Rightarrow> port_table \<Rightarrow> port_error + int list \<times> port_table" where
  "allocate_ports port_in_use workspaces setting port_range_start ws count t =
     find_and_allocate_ports port_in_use workspaces ws (min count (ports_per_workspace_cap setting)) port_range_start t"

text \<open>Python's \<open>xs[n:]\<close> and \<open>xs[:n]\<close>, where a negative \<open>n\<close> counts from the end.\<close>

definition cut_at :: "int \<Rightarrow> 'a list \<Rightarrow> nat" where
  "cut_at n xs = (if n < 0 then nat (int (length xs) + n) else nat n)"

text \<open>
  The port lock keeps other allocations out between the read and the write; a deletion of a workspace
  does not take it. \<open>t\<close> is the table that was read, \<open>t'\<close> the one written to.
\<close>

definition reconcile_ports ::
  "(int \<Rightarrow> bool) \<Rightarrow> string set \<Rightarrow> int option \<Rightarrow> int \<Rightarrow> string \<Rightarrow> int \<Rightarrow> port_table \<Rightarrow> port_table \<Rightarrow>
     port_error + int list \<times> port_table" where
  "reconcile_ports port_in_use workspaces setting port_range_start ws num_ports t t' =
     (let num_ports = min num_ports (ports_per_workspace_cap setting);
          host_ports = get_workspace_ports ws t
      in if int (length host_ports) < num_ports
         then (case find_and_allocate_ports port_in_use workspaces ws (num_ports - int (length host_ports)) port_range_start t' of
                 Inl e \<Rightarrow> Inl e
               | Inr (new_ports, t'') \<Rightarrow> Inr (host_ports @ new_ports, t''))
         else if int (length host_ports) > num_ports
         then Inr (take (cut_at num_ports host_ports) host_ports,
                   remove_port_allocations ws (drop (cut_at num_ports host_ports) host_ports) t')
         else Inr (host_ports, t'))"

text \<open>What the container publishes: \<open>(host port, container port)\<close>.\<close>

definition publish_ports :: "int list \<Rightarrow> (int \<times> int) list" where
  "publish_ports host_ports = zip host_ports (map (\<lambda>i. CONTAINER_PORT_START + int i) [0..<length host_ports])"


section \<open>The scan finds the first free ports\<close>

abbreviation free_ports :: "(int \<Rightarrow> bool) \<Rightarrow> int set \<Rightarrow> int \<Rightarrow> int list" where
  "free_ports port_in_use used start \<equiv> filter (\<lambda>p. p \<notin> used \<and> \<not> port_in_use p) [start..MAX_PORT]"

lemma scan_loop_spec:
  "scan_loop b used count port ports =
     (let free = ports @ free_ports b used port
      in if int (length ports) < count
         then (if int (length free) < count then Inl Exhausted else Inr (take (nat count) free))
         else Inr ports)"
proof (induction b used count port ports rule: scan_loop.induct)
  case (1 b used count port ports)
  consider "\<not> int (length ports) < count" | "int (length ports) < count" "port > MAX_PORT"
    | "int (length ports) < count" "port \<le> MAX_PORT" by linarith
  then show ?case
  proof cases
    case 1
    then show ?thesis by (subst scan_loop.simps) (simp add: Let_def)
  next
    case 2
    then show ?thesis by (subst scan_loop.simps) (simp add: Let_def)
  next
    case 3
    have range: "[port..MAX_PORT] = port # [port + 1..MAX_PORT]"
      using 3 by (simp add: upto_rec1)
    have not_enough: "\<not> port > MAX_PORT" using 3 by simp
    show ?thesis
    proof (cases "port \<in> used \<or> b port")
      case True
      then have "(port \<notin> used \<and> \<not> b port) = False" by blast
      with 3 1 [OF 3(1) not_enough] show ?thesis
        by (subst scan_loop.simps) (simp add: Let_def range del: de_Morgan_conj)
    next
      case free: False
      have "take (nat count) (ports @ port # xs) = ports @ [port]" if "\<not> 1 + int (length ports) < count" for xs
      proof -
        have "nat count = Suc (length ports)" using that 3(1) by linarith
        then show ?thesis by simp
      qed
      with 3 free 1 [OF 3(1) not_enough] show ?thesis
        by (subst scan_loop.simps) (simp add: Let_def range)
    qed
  qed
qed

lemma scan_free_ports_exact:
  assumes "0 \<le> count"
  shows "scan_free_ports b start count used =
    (if int (length (free_ports b used start)) < count then Inl Exhausted
     else Inr (take (nat count) (free_ports b used start)))"
  using assms by (auto simp: scan_free_ports_def scan_loop_spec Let_def)

section \<open>The table stays a table\<close>

abbreviation others :: "string \<Rightarrow> port_table \<Rightarrow> port_table" where
  "others ws t \<equiv> filter (\<lambda>(p, w). w \<noteq> ws) t"

lemma set_take_distinct: "distinct xs \<Longrightarrow> set (take n xs) = set xs - set (drop n xs)"
  using distinct_append [of "take n xs" "drop n xs"] set_append [of "take n xs" "drop n xs"] by auto

lemma set_get_workspace_ports: "set (get_workspace_ports ws t) = {p. (p, ws) \<in> set t}"
  by (force simp: get_workspace_ports_def)

lemma distinct_get_workspace_ports: "dict_ok t \<Longrightarrow> distinct (get_workspace_ports ws t)"
  by (auto simp: get_workspace_ports_def intro: distinct_map_filter)

lemma remove_port_allocations_filter:
  "remove_port_allocations ws ports t = filter (\<lambda>(p, w). \<not> (p \<in> set ports \<and> w = ws)) t"
proof (induction ports arbitrary: t)
  case (Cons port ports)
  then show ?case
    by (simp add: remove_port_allocations_def) (rule filter_cong, auto)
qed (simp add: remove_port_allocations_def case_prod_unfold)

lemma add_port_allocations_fresh:
  assumes "distinct ports" "set ports \<inter> fst ` set t = {}" "ws \<in> workspaces"
  shows "add_port_allocations workspaces ws ports t = Inr (t @ map (\<lambda>p. (p, ws)) ports)"
  using assms by (induction ports arbitrary: t) (auto simp: insert_port_def)

text \<open>
  Under the transaction an allocation cannot collide: for a workspace that exists it fails only when
  the range is exhausted, and otherwise adds the first free ports for it.
\<close>

lemma find_and_allocate_exact:
  fixes t :: port_table and b :: "int \<Rightarrow> bool" and start :: int
  assumes "ws \<in> workspaces" "0 \<le> count"
  defines "free \<equiv> free_ports b (fst ` set t) start"
  shows "find_and_allocate_ports b workspaces ws count start t =
    (if int (length free) < count then Inl Exhausted
     else Inr (take (nat count) free, t @ map (\<lambda>p. (p, ws)) (take (nat count) free)))"
proof -
  have "distinct (take (nat count) free)" by (simp add: free_def)
  moreover have "set (take (nat count) free) \<inter> fst ` set t = {}"
    using set_take_subset [of "nat count" free] by (auto simp: free_def)
  ultimately show ?thesis
    using assms(1,2) add_port_allocations_fresh [of "take (nat count) free" t ws workspaces]
    by (simp add: find_and_allocate_ports_def get_all_allocated_ports_def scan_free_ports_exact free_def)
qed

inductive port_step :: "port_table \<Rightarrow> port_table \<Rightarrow> bool" where
  added: "add_port_allocations workspaces ws ports t = Inr t' \<Longrightarrow> port_step t t'"
| allocated: "allocate_ports b workspaces setting start ws count t = Inr (ports, t') \<Longrightarrow> port_step t t'"
| reconciled: "reconcile_ports b workspaces setting start ws num t0 t = Inr (ports, t') \<Longrightarrow> port_step t t'"
| deleted: "port_step t (delete_workspace_ports ws t)"

lemma add_port_allocations_ok:
  "add_port_allocations workspaces ws ports t = Inr t' \<Longrightarrow> dict_ok t \<Longrightarrow> dict_ok t'"
  by (induction ports arbitrary: t) (auto simp: insert_port_def split: if_splits)

lemma find_and_allocate_ok:
  "find_and_allocate_ports b workspaces ws count start t = Inr (ports, t') \<Longrightarrow> dict_ok t \<Longrightarrow> dict_ok t'"
  by (auto simp: find_and_allocate_ports_def split: sum.splits dest: add_port_allocations_ok)

lemma reconcile_ports_ok:
  "reconcile_ports b workspaces setting start ws num t0 t = Inr (ports, t') \<Longrightarrow> dict_ok t \<Longrightarrow> dict_ok t'"
  by (auto simp: reconcile_ports_def remove_port_allocations_filter Let_def
      split: sum.splits if_splits dest: find_and_allocate_ok)

interpretation port_run: step_invariant port_step "\<lambda>t. t = []" "\<lambda>t. dict_ok t"
proof
  show "dict_ok t'" if "port_step t t'" "dict_ok t" for t t'
    using that
    by cases (auto simp: allocate_ports_def delete_workspace_ports_def
        dest: add_port_allocations_ok find_and_allocate_ok reconcile_ports_ok)
qed simp


section \<open>Properties\<close>

text \<open>
  (C28) At every start a workspace gets exactly its share of host ports: as many as it asks for up to the
  deployment's cap, all different, exactly those the table then has for it; the ones it had are kept as
  far as the share goes, every new one lies in the range and is bound by nobody, and no other workspace's
  row changes. It is refused only when the range has too few free ports left.
\<close>

theorem reconcile_ports_exact:
  assumes "0 \<le> num" "0 \<le> ports_per_workspace_cap setting" "ws \<in> workspaces" "dict_ok t'"
    and "get_workspace_ports ws t' = get_workspace_ports ws t"
  shows "case reconcile_ports b workspaces setting start ws num t t' of
      Inr (ports, t'') \<Rightarrow>
        int (length ports) = min num (ports_per_workspace_cap setting) \<and> distinct ports \<and>
        set ports = set (get_workspace_ports ws t'') \<and>
        take (length (get_workspace_ports ws t)) ports = take (length ports) (get_workspace_ports ws t) \<and>
        list_all (\<lambda>p. start \<le> p \<and> p \<le> MAX_PORT \<and> \<not> b p) (drop (length (get_workspace_ports ws t)) ports) \<and>
        others ws t'' = others ws t'
    | Inl e \<Rightarrow>
        e = Exhausted \<and>
        int (length (free_ports b (fst ` set t') start)) <
          min num (ports_per_workspace_cap setting) - int (length (get_workspace_ports ws t))"
proof -
  let ?n = "min num (ports_per_workspace_cap setting)"
  let ?own = "get_workspace_ports ws t"
  let ?free = "free_ports b (fst ` set t') start"
  have own: "distinct ?own" "set ?own = {p. (p, ws) \<in> set t'}"
    using assms(4,5) distinct_get_workspace_ports [of t' ws] set_get_workspace_ports [of ws t'] by simp_all
  consider "int (length ?own) < ?n" | "int (length ?own) > ?n" | "int (length ?own) = ?n" by linarith
  then show ?thesis
  proof cases
    case 1
    let ?k = "?n - int (length ?own)"
    have new: "distinct (take (nat ?k) ?free)" by simp
    have apart: "set ?own \<inter> set (take (nat ?k) ?free) = {}"
      using own(2) by (force dest: in_set_takeD)
    have in_range: "list_all (\<lambda>p. start \<le> p \<and> p \<le> MAX_PORT \<and> \<not> b p) (take (nat ?k) ?free)"
      using set_take_subset [of "nat ?k" ?free] by (auto simp: list_all_iff)
    have find: "find_and_allocate_ports b workspaces ws ?k start t' =
        (if int (length ?free) < ?k then Inl Exhausted
         else Inr (take (nat ?k) ?free, t' @ map (\<lambda>p. (p, ws)) (take (nat ?k) ?free)))"
      using 1 by (intro find_and_allocate_exact assms(3)) simp
    have result: "reconcile_ports b workspaces setting start ws num t t' =
        (if int (length ?free) < ?k then Inl Exhausted
         else Inr (?own @ take (nat ?k) ?free, t' @ map (\<lambda>p. (p, ws)) (take (nat ?k) ?free)))"
      unfolding reconcile_ports_def Let_def using 1 find by simp
    show ?thesis
    proof (cases "int (length ?free) < ?k")
      case True
      then show ?thesis by (simp only: result if_True sum.case simp_thms)
    next
      case False
      then have "length (take (nat ?k) ?free) = nat ?k" by (simp only: length_take)
      then have "int (length (?own @ take (nat ?k) ?free)) = ?n" using 1 by (simp only: length_append)
      moreover have "set (?own @ take (nat ?k) ?free) =
          set (get_workspace_ports ws (t' @ map (\<lambda>p. (p, ws)) (take (nat ?k) ?free)))"
        unfolding set_get_workspace_ports using own(2) by auto
      moreover have "others ws (t' @ map (\<lambda>p. (p, ws)) xs) = others ws t'" for xs
        by (induction xs) auto
      ultimately show ?thesis
        using False own(1) new apart in_range by (simp only: result if_False sum.case prod.case) simp
    qed
  next
    case 2
    have cut: "cut_at ?n ?own = nat ?n" using assms(1,2) by (simp add: cut_at_def)
    have enough: "(int (length ?own) < ?n) = False" using 2 by (meson less_asym)
    have kept: "set (take (nat ?n) ?own) = set ?own - set (drop (nat ?n) ?own)"
      using own(1) by (rule set_take_distinct)
    have result: "reconcile_ports b workspaces setting start ws num t t' =
        Inr (take (nat ?n) ?own, filter (\<lambda>(p, w). \<not> (p \<in> set (drop (nat ?n) ?own) \<and> w = ws)) t')"
      unfolding reconcile_ports_def Let_def cut remove_port_allocations_filter
      by (simp only: enough 2 if_False if_True)
    have "int (length (take (nat ?n) ?own)) = ?n" using 2 assms(1,2) by simp
    moreover have "set (take (nat ?n) ?own) =
        set (get_workspace_ports ws (filter (\<lambda>(p, w). \<not> (p \<in> set (drop (nat ?n) ?own) \<and> w = ws)) t'))"
      by (simp only: kept own(2)) (auto simp: set_get_workspace_ports)
    moreover have "others ws (filter (\<lambda>(p, w). \<not> (p \<in> X \<and> w = ws)) t') = others ws t'" for X
      by (induction t') auto
    ultimately show ?thesis
      using 2 own(1) by (simp only: result sum.case prod.case) (simp add: min_def)
  next
    case 3
    then show ?thesis using own by (simp add: reconcile_ports_def Let_def set_get_workspace_ports)
  qed
qed


theorem reconcile_ports_exact_witness:
  "reconcile_ports (\<lambda>p. p = 8102) {''a'', ''b''} (Some 3) 8100 ''a'' 9 [(8101, ''b''), (8100, ''a'')] [(8101, ''b''), (8100, ''a'')] =
     Inr ([8100, 8103, 8104], [(8101, ''b''), (8100, ''a''), (8103, ''a''), (8104, ''a'')]) \<and>
   set [8100, 8103, 8104] = set (get_workspace_ports ''a'' [(8101, ''b''), (8100, ''a''), (8103, ''a''), (8104, ''a'')])"
proof -
  have "reconcile_ports (\<lambda>p. p = 8102) {''a'', ''b''} (Some 3) 8100 ''a'' 9 [(8101, ''b''), (8100, ''a'')] [(8101, ''b''), (8100, ''a'')] =
     Inr ([8100, 8103, 8104], [(8101, ''b''), (8100, ''a''), (8103, ''a''), (8104, ''a'')])"
    by (simp add: reconcile_ports_def ports_per_workspace_cap_def get_workspace_ports_def find_and_allocate_ports_def
        get_all_allocated_ports_def scan_free_ports_def scan_loop.simps MAX_PORT_def insert_port_def)
  then show ?thesis
    using reconcile_ports_exact [of 9 "Some 3" "''a''" "{''a'', ''b''}" "[(8101, ''b''), (8100, ''a'')]"
        "[(8101, ''b''), (8100, ''a'')]" "\<lambda>p. p = 8102" 8100]
    by (simp add: ports_per_workspace_cap_def)
qed

end
