(* ===== verification/Container_Registry.thy ===== *)
theory Container_Registry
  imports Prelude
begin

text \<open>
  The in-memory registry of workspace containers: the per-workspace state and the browser routes of
  \<open>klangk/container/basics.py\<close>, the tracking and teardown operations of \<open>klangk/container/registry.py\<close>
  and the idle monitor of \<open>klangk/container/idle.py\<close>. Podman, the database and the socket fan-out are
  awaited between these operations; each operation here runs without an await, as the code's does. The
  fields of the health monitor that only it reads are left out of the state.
\<close>

section \<open>State\<close>

record container_state =
  container_id :: string
  last_activity :: real
  idle_timeout :: "int option"
  health_check :: "string option"
  owner_id :: "string option"
  setup_state :: "string option"
  per_handle_home :: bool
  service_started_at :: real

text \<open>
  \<open>locked\<close> holds the workspaces whose lock object exists and is held; \<open>service_session_locks\<close> maps a
  container to whether its lock is held.
\<close>

record registry =
  states :: "(string, container_state) dict"
  cid_to_wsid :: "(string, string) dict"
  ws_with_network_sidecar :: "string set"
  ws_netns_owner :: "(string, string) dict"
  stopping :: "string set"
  stop_epoch :: "(string, nat) dict"
  draining :: bool
  locked :: "string set"
  service_session_locks :: "(string, bool) dict"
  service_fire_pending :: "string set"
  browsers :: "(string, string \<times> nat) dict"
  idle_timeout_seconds :: int
  check_interval_seconds :: int

text \<open>\<open>ContainerState.__init__\<close> at the clock reading \<open>now\<close>.\<close>

definition new_state :: "real \<Rightarrow> string \<Rightarrow> container_state" where
  "new_state now cid =
     \<lparr>container_id = cid, last_activity = now, idle_timeout = None, health_check = None, owner_id = None,
      setup_state = None, per_handle_home = False, service_started_at = now\<rparr>"

definition parse_idle_timeout :: "int option option \<Rightarrow> int \<times> int" where
  "parse_idle_timeout env_val =
     (let timeout = (case env_val of Some (Some n) \<Rightarrow> n | _ \<Rightarrow> 60 * 60)
      in (timeout, max 10 (min 60 (timeout div 3))))"

definition init_registry :: "int option option \<Rightarrow> registry" where
  "init_registry env_val =
     \<lparr>states = [], cid_to_wsid = [], ws_with_network_sidecar = {}, ws_netns_owner = [], stopping = {},
      stop_epoch = [], draining = False, locked = {}, service_session_locks = [], service_fire_pending = {},
      browsers = [], idle_timeout_seconds = fst (parse_idle_timeout env_val),
      check_interval_seconds = snd (parse_idle_timeout env_val)\<rparr>"

definition set_idle_timeout :: "int \<Rightarrow> registry \<Rightarrow> registry" where
  "set_idle_timeout seconds r =
     r\<lparr>idle_timeout_seconds := seconds, check_interval_seconds := max 10 (min 60 (seconds div 3))\<rparr>"

definition get_idle_timeout :: "registry \<Rightarrow> container_state \<Rightarrow> int" where
  "get_idle_timeout r st = (case idle_timeout st of Some t \<Rightarrow> t | None \<Rightarrow> idle_timeout_seconds r)"

definition workspace_operation_in_flight :: "registry \<Rightarrow> string \<Rightarrow> bool" where
  "workspace_operation_in_flight r ws \<longleftrightarrow> ws \<in> locked r"

definition new_starts_blocked_reason :: "registry \<Rightarrow> string option" where
  "new_starts_blocked_reason r =
     (if draining r
      then Some ''node is draining: new workspace starts are disabled (a restart or shutdown is in progress)''
      else None)"

definition tracked_container_count :: "registry \<Rightarrow> nat" where
  "tracked_container_count r = length (filter (\<lambda>(_, st). container_id st \<noteq> []) (states r))"


section \<open>Tracking\<close>

text \<open>The keyword arguments of \<open>track_activity\<close>.\<close>

record track_metadata =
  m_health_check :: "string option"
  m_owner_id :: "string option"
  m_setup_state :: "string option"
  m_per_handle_home :: "bool option"

definition apply_track_metadata :: "track_metadata \<Rightarrow> container_state \<Rightarrow> container_state" where
  "apply_track_metadata m st =
     st\<lparr>health_check := m_health_check m,
        owner_id := (case m_owner_id m of None \<Rightarrow> owner_id st | Some v \<Rightarrow> Some v),
        setup_state := (case m_setup_state m of None \<Rightarrow> setup_state st | Some v \<Rightarrow> Some v),
        per_handle_home := (case m_per_handle_home m of None \<Rightarrow> per_handle_home st | Some v \<Rightarrow> v)\<rparr>"

text \<open>Returns whether the workspace was new, which announces it as running.\<close>

definition track_activity :: "real \<Rightarrow> string \<Rightarrow> string \<Rightarrow> track_metadata \<Rightarrow> registry \<Rightarrow> bool \<times> registry" where
  "track_activity now cid ws m r =
     (let (was_new, st, cids) =
            (case map_of (states r) ws of
               None \<Rightarrow> (True, new_state now cid, cid_to_wsid r)
             | Some st \<Rightarrow>
                 (False, st\<lparr>container_id := cid\<rparr>,
                  if container_id st \<noteq> cid then AList.delete (container_id st) (cid_to_wsid r) else cid_to_wsid r));
          st = apply_track_metadata m (st\<lparr>last_activity := now\<rparr>)
      in (was_new, r\<lparr>states := AList.update ws st (states r), cid_to_wsid := AList.update cid ws cids\<rparr>))"

definition update_state :: "string \<Rightarrow> (container_state \<Rightarrow> container_state) \<Rightarrow> registry \<Rightarrow> registry" where
  "update_state ws f r =
     (case map_of (states r) ws of None \<Rightarrow> r | Some st \<Rightarrow> r\<lparr>states := AList.update ws (f st) (states r)\<rparr>)"

definition record_activity :: "real \<Rightarrow> string \<Rightarrow> registry \<Rightarrow> registry" where
  "record_activity now cid r =
     (case map_of (cid_to_wsid r) cid of
        None \<Rightarrow> r
      | Some ws \<Rightarrow> if ws = [] then r else update_state ws (\<lambda>st. st\<lparr>last_activity := now\<rparr>) r)"

definition mark_service_started :: "real \<Rightarrow> string \<Rightarrow> registry \<Rightarrow> registry" where
  "mark_service_started now cid r =
     (case map_of (cid_to_wsid r) cid of
        None \<Rightarrow> r
      | Some ws \<Rightarrow> if ws = [] then r else update_state ws (\<lambda>st. st\<lparr>service_started_at := now\<rparr>) r)"


section \<open>Service locks and browser routes\<close>

definition get_service_session_lock :: "string \<Rightarrow> registry \<Rightarrow> registry" where
  "get_service_session_lock cid r =
     (if cid \<in> fst ` set (service_session_locks r) then r
      else r\<lparr>service_session_locks := service_session_locks r @ [(cid, False)]\<rparr>)"

definition clear_service_session_lock :: "string \<Rightarrow> registry \<Rightarrow> registry" where
  "clear_service_session_lock cid r = r\<lparr>service_session_locks := AList.delete cid (service_session_locks r)\<rparr>"

definition prune_service_session_locks :: "string set \<Rightarrow> registry \<Rightarrow> registry" where
  "prune_service_session_locks active r =
     r\<lparr>service_session_locks := filter (\<lambda>(cid, held). cid \<in> active \<or> held) (service_session_locks r)\<rparr>"

definition mark_service_fire_pending :: "string \<Rightarrow> registry \<Rightarrow> registry" where
  "mark_service_fire_pending cid r = r\<lparr>service_fire_pending := insert cid (service_fire_pending r)\<rparr>"

definition clear_service_fire_pending :: "string \<Rightarrow> registry \<Rightarrow> registry" where
  "clear_service_fire_pending cid r = r\<lparr>service_fire_pending := service_fire_pending r - {cid}\<rparr>"

definition register_browser :: "string \<Rightarrow> string \<Rightarrow> nat \<Rightarrow> registry \<Rightarrow> registry" where
  "register_browser browser_id ws sock r = r\<lparr>browsers := AList.update browser_id (ws, sock) (browsers r)\<rparr>"

definition resolve_browser :: "string \<Rightarrow> registry \<Rightarrow> (string \<times> nat) option" where
  "resolve_browser browser_id r = map_of (browsers r) browser_id"

definition revoke_workspace_browsers :: "string \<Rightarrow> registry \<Rightarrow> registry" where
  "revoke_workspace_browsers ws r = r\<lparr>browsers := filter (\<lambda>(_, w, _). w \<noteq> ws) (browsers r)\<rparr>"

definition revoke_browser :: "nat \<Rightarrow> registry \<Rightarrow> registry" where
  "revoke_browser sock r = r\<lparr>browsers := filter (\<lambda>(_, _, s). s \<noteq> sock) (browsers r)\<rparr>"


section \<open>Teardown\<close>

text \<open>The section of \<open>remove_state\<close> under the workspace lock.\<close>

definition remove_state :: "string \<Rightarrow> string option \<Rightarrow> registry \<Rightarrow> registry" where
  "remove_state ws expect_container_id r =
     (case map_of (states r) ws of
        None \<Rightarrow> r
      | Some st \<Rightarrow>
          (if expect_container_id \<noteq> None \<and> expect_container_id \<noteq> Some (container_id st) then r
           else
             (let cid = container_id st;
                  r = r\<lparr>states := AList.delete ws (states r), cid_to_wsid := AList.delete cid (cid_to_wsid r)\<rparr>;
                  r = clear_service_fire_pending cid (clear_service_session_lock cid r)
              in prune_service_session_locks (fst ` set (cid_to_wsid r)) r)))"

definition begin_expected_stop :: "string \<Rightarrow> registry \<Rightarrow> registry" where
  "begin_expected_stop ws r =
     r\<lparr>stopping := insert ws (stopping r),
       stop_epoch := AList.update ws (Suc (case map_of (stop_epoch r) ws of None \<Rightarrow> 0 | Some e \<Rightarrow> e)) (stop_epoch r)\<rparr>"

text \<open>
  Under the workspace lock: what is done before and after the await that removes the network sidecar.
  The result of the first part says whether the teardown goes on.
\<close>

definition teardown_begin :: "string \<Rightarrow> string \<Rightarrow> registry \<Rightarrow> bool \<times> registry" where
  "teardown_begin ws cid r =
     (if (case map_of (states r) ws of None \<Rightarrow> True | Some st \<Rightarrow> container_id st = cid)
      then (True, r\<lparr>ws_with_network_sidecar := ws_with_network_sidecar r - {ws},
                    ws_netns_owner := AList.delete ws (ws_netns_owner r)\<rparr>)
      else (False, r))"

definition teardown_end :: "string \<Rightarrow> string \<Rightarrow> registry \<Rightarrow> registry" where
  "teardown_end ws cid r =
     (let r = revoke_workspace_browsers ws (r\<lparr>cid_to_wsid := AList.delete cid (cid_to_wsid r)\<rparr>)
      in r\<lparr>states := AList.delete ws (states r)\<rparr>)"

definition teardown_registry_state :: "string \<Rightarrow> string \<Rightarrow> registry \<Rightarrow> bool \<times> registry" where
  "teardown_registry_state ws cid r =
     (case teardown_begin ws cid r of
        (False, r) \<Rightarrow> (False, r)
      | (True, r) \<Rightarrow> (True, teardown_end ws cid r))"

definition stop_outcome :: "string option \<Rightarrow> bool \<Rightarrow> bool \<Rightarrow> bool" where
  "stop_outcome ws stopped torn_down = (if ws = None then stopped else stopped \<and> torn_down)"

text \<open>
  \<open>stop_and_remove_container\<close> after its audit row, with \<open>removed\<close> telling whether podman removed the
  container, when nothing else runs at its awaits.
\<close>

definition stop_and_remove_container :: "bool \<Rightarrow> string \<Rightarrow> string option \<Rightarrow> registry \<Rightarrow> bool \<times> registry" where
  "stop_and_remove_container removed cid workspace_id r =
     (let ws = (case workspace_id of Some w \<Rightarrow> if w = [] then map_of (cid_to_wsid r) cid else Some w
                                   | None \<Rightarrow> map_of (cid_to_wsid r) cid);
          (torn_down, r) =
            (case ws of
               None \<Rightarrow> (False, r)
             | Some w \<Rightarrow> if w = [] then (False, r) else teardown_registry_state w cid (begin_expected_stop w r));
          r = clear_service_fire_pending cid (clear_service_session_lock cid r);
          r = prune_service_session_locks (fst ` set (cid_to_wsid r)) r
      in (stop_outcome ws removed torn_down,
          case ws of None \<Rightarrow> r | Some w \<Rightarrow> if w = [] then r else r\<lparr>stopping := stopping r - {w}\<rparr>))"

definition killed_container_rebound :: "container_state option \<Rightarrow> string option \<Rightarrow> bool" where
  "killed_container_rebound state cid \<longleftrightarrow>
     (case (cid, state) of (Some c, Some st) \<Rightarrow> container_id st \<noteq> c | _ \<Rightarrow> False)"

definition prune_workspace_registry_entries :: "string \<Rightarrow> registry \<Rightarrow> registry" where
  "prune_workspace_registry_entries ws r =
     r\<lparr>locked := locked r - {ws}, stop_epoch := AList.delete ws (stop_epoch r)\<rparr>"

section \<open>The idle monitor\<close>

definition set_workspace_idle_timeout :: "string \<Rightarrow> int \<Rightarrow> registry \<Rightarrow> bool \<times> registry" where
  "set_workspace_idle_timeout ws seconds r =
     (case map_of (states r) ws of
        None \<Rightarrow> (False, r)
      | Some _ \<Rightarrow> (True, update_state ws (\<lambda>st. st\<lparr>idle_timeout := Some seconds\<rparr>) r))"

definition get_workspace_idle_timeout :: "string \<Rightarrow> registry \<Rightarrow> int" where
  "get_workspace_idle_timeout ws r =
     (case map_of (states r) ws of Some st \<Rightarrow> get_idle_timeout r st | None \<Rightarrow> idle_timeout_seconds r)"

definition cleanup_interval :: "registry \<Rightarrow> int" where
  "cleanup_interval r =
     (let timeouts = List.map_filter (\<lambda>(_, st). idle_timeout st) (states r)
      in if timeouts \<noteq> [] then max 2 (Min (set timeouts) div 2) else check_interval_seconds r)"

definition idle_overdue :: "real \<Rightarrow> registry \<Rightarrow> (string \<times> string) list" where
  "idle_overdue now r =
     List.map_filter
       (\<lambda>(ws, st). let timeout = get_idle_timeout r st; idle_secs = now - last_activity st
                   in if timeout > 0 \<and> idle_secs > real_of_int timeout then Some (container_id st, ws) else None)
       (states r)"

text \<open>
  One round of the loop: the overdue containers are stopped one after the other. Each stop awaits podman;
  \<open>meanwhile\<close> is what the other tasks do to the registry before the stop of a container.
\<close>

definition idle_stops :: "(string \<Rightarrow> registry \<Rightarrow> registry) \<Rightarrow> (string \<Rightarrow> bool) \<Rightarrow> (string \<times> string) list \<Rightarrow> registry \<Rightarrow> registry" where
  "idle_stops meanwhile removed overdue r =
     fold (\<lambda>(cid, ws) r. snd (stop_and_remove_container (removed cid) cid None (meanwhile cid r))) overdue r"

definition cleanup_round :: "(string \<Rightarrow> registry \<Rightarrow> registry) \<Rightarrow> (string \<Rightarrow> bool) \<Rightarrow> real \<Rightarrow> registry \<Rightarrow> registry" where
  "cleanup_round meanwhile removed now r = idle_stops meanwhile removed (idle_overdue now r) r"


section \<open>The two indexes agree\<close>

text \<open>
  \<open>states\<close> and \<open>cid_to_wsid\<close> are inverse to each other: every tracked workspace is found by its container
  and by no other, and no container leads to a workspace that is not tracked under it.
\<close>

definition indexes_agree :: "registry \<Rightarrow> bool" where
  "indexes_agree r \<longleftrightarrow>
     dict_ok (states r) \<and> dict_ok (cid_to_wsid r) \<and>
     (\<forall>cid ws. map_of (cid_to_wsid r) cid = Some ws \<longleftrightarrow>
        (\<exists>st. map_of (states r) ws = Some st \<and> container_id st = cid))"

lemma indexes_agreeI:
  assumes "dict_ok (states r)" "dict_ok (cid_to_wsid r)"
    and "\<And>cid ws. map_of (cid_to_wsid r) cid = Some ws \<longleftrightarrow> map_option container_id (map_of (states r) ws) = Some cid"
  shows "indexes_agree r"
  using assms by (simp add: indexes_agree_def)

lemma indexes_agreeD:
  "indexes_agree r \<Longrightarrow>
     map_of (cid_to_wsid r) cid = Some ws \<longleftrightarrow> map_option container_id (map_of (states r) ws) = Some cid"
  by (simp add: indexes_agree_def)

lemma indexes_agree_cong:
  "states r = states r' \<Longrightarrow> cid_to_wsid r = cid_to_wsid r' \<Longrightarrow> indexes_agree r = indexes_agree r'"
  by (simp add: indexes_agree_def)

lemma indexes_agree_delete:
  assumes "indexes_agree r" "map_of (states r) ws = Some st"
    and "states r' = AList.delete ws (states r)" "cid_to_wsid r' = AList.delete (container_id st) (cid_to_wsid r)"
  shows "indexes_agree r'"
proof (rule indexes_agreeI)
  show "dict_ok (states r')" "dict_ok (cid_to_wsid r')"
    using assms by (simp_all add: indexes_agree_def)
  fix cid ws'
  have own: "map_of (cid_to_wsid r) (container_id st) = Some ws"
    using indexes_agreeD [OF assms(1), of "container_id st" ws] assms(2) by simp
  show "map_of (cid_to_wsid r') cid = Some ws' \<longleftrightarrow> map_option container_id (map_of (states r') ws') = Some cid"
    using indexes_agreeD [OF assms(1), of cid ws'] own assms(2)
    by (auto simp: assms(3,4) dict_simps)
qed

lemma indexes_agree_untracked:
  assumes "indexes_agree r" "map_of (states r) ws = None" "map_of (cid_to_wsid r) cid \<in> {None, Some ws}"
    and "states r' = AList.delete ws (states r)" "cid_to_wsid r' = AList.delete cid (cid_to_wsid r)"
  shows "indexes_agree r'"
proof (rule indexes_agreeI)
  show "dict_ok (states r')" "dict_ok (cid_to_wsid r')"
    using assms by (simp_all add: indexes_agree_def)
  fix c ws'
  have "map_of (cid_to_wsid r) cid = None"
    using assms(2,3) indexes_agreeD [OF assms(1), of cid ws] by auto
  with assms(2) indexes_agreeD [OF assms(1), of c ws']
  show "map_of (cid_to_wsid r') c = Some ws' \<longleftrightarrow> map_option container_id (map_of (states r') ws') = Some c"
    by (auto simp: assms(4,5) dict_simps)
qed

lemma track_activity_states:
  obtains st where "container_id st = cid"
    "map_of (states (snd (track_activity now cid ws m r))) = (map_of (states r))(ws \<mapsto> st)"
  by (cases "map_of (states r) ws")
    (force simp: track_activity_def apply_track_metadata_def new_state_def dict_simps fun_eq_iff intro: that)+

lemma track_activity_cids:
  "map_of (cid_to_wsid (snd (track_activity now cid ws m r))) c =
     (if c = cid then Some ws
      else if map_option container_id (map_of (states r) ws) = Some c then None
      else map_of (cid_to_wsid r) c)"
  by (auto simp: track_activity_def dict_simps split: option.splits)

lemma track_activity_agree:
  assumes "indexes_agree r" "map_of (cid_to_wsid r) cid \<in> {None, Some ws}"
  shows "indexes_agree (snd (track_activity now cid ws m r))"
proof (rule indexes_agreeI)
  show "dict_ok (states (snd (track_activity now cid ws m r)))"
    "dict_ok (cid_to_wsid (snd (track_activity now cid ws m r)))"
    using assms(1) by (auto simp: track_activity_def indexes_agree_def split: option.splits)
  fix c ws'
  obtain st where st: "container_id st = cid"
    "map_of (states (snd (track_activity now cid ws m r))) = (map_of (states r))(ws \<mapsto> st)"
    by (rule track_activity_states)
  have old: "map_of (cid_to_wsid r) c = Some w \<longleftrightarrow> map_option container_id (map_of (states r) w) = Some c" for c w
    by (rule indexes_agreeD [OF assms(1)])
  show "map_of (cid_to_wsid (snd (track_activity now cid ws m r))) c = Some ws' \<longleftrightarrow>
      map_option container_id (map_of (states (snd (track_activity now cid ws m r))) ws') = Some c"
  proof (cases "c = cid")
    case True
    show ?thesis
    proof (cases "ws' = ws")
      case False
      then have "map_option container_id (map_of (states r) ws') \<noteq> Some cid"
        using assms(2) old [of cid ws'] by auto
      with True False st show ?thesis by (simp add: track_activity_cids)
    qed (use True st in \<open>simp add: track_activity_cids\<close>)
  next
    case False
    show ?thesis
    proof (cases "ws' = ws")
      case True
      with False st old [of c ws] show ?thesis by (auto simp: track_activity_cids)
    next
      case other: False
      have "map_of (cid_to_wsid r) c = Some ws" if "map_option container_id (map_of (states r) ws) = Some c"
        using old [of c ws] that by simp
      with False other st old [of c ws'] show ?thesis by (auto simp: track_activity_cids)
    qed
  qed
qed

text \<open>
  The operations as steps. \<open>label\<close> is the workspace label a container carries: every caller passes a
  container with the workspace of its label. The second part of a teardown runs under the lock that the
  first part's check was made under, so the check still holds.
\<close>

inductive registry_step :: "(string \<Rightarrow> string) \<Rightarrow> registry \<Rightarrow> registry \<Rightarrow> bool" for label where
  tracked: "label cid = ws \<Longrightarrow> registry_step label r (snd (track_activity now cid ws m r))"
| active: "registry_step label r (record_activity now cid r)"
| service_started: "registry_step label r (mark_service_started now cid r)"
| state_removed: "registry_step label r (remove_state ws expect r)"
| stop_begun: "registry_step label r (begin_expected_stop ws r)"
| teardown_begun: "registry_step label r (snd (teardown_begin ws cid r))"
| teardown_ended: "label cid = ws \<Longrightarrow> fst (teardown_begin ws cid r) \<Longrightarrow> registry_step label r (teardown_end ws cid r)"
| stop_ended: "registry_step label r (r\<lparr>stopping := stopping r - {ws}\<rparr>)"
| sidecar_started: "registry_step label r (r\<lparr>ws_with_network_sidecar := insert ws (ws_with_network_sidecar r), ws_netns_owner := owners\<rparr>)"
| lock_taken: "ws \<notin> locked r \<Longrightarrow> registry_step label r (r\<lparr>locked := insert ws (locked r)\<rparr>)"
| lock_released: "registry_step label r (r\<lparr>locked := locked r - {ws}\<rparr>)"
| deleted: "registry_step label r (prune_workspace_registry_entries ws r)"
| drain: "registry_step label r (r\<lparr>draining := d\<rparr>)"
| timeout_set: "registry_step label r (snd (set_workspace_idle_timeout ws seconds r))"
| default_set: "registry_step label r (set_idle_timeout seconds r)"
| service_locks: "registry_step label r (r\<lparr>service_session_locks := ls, service_fire_pending := ps\<rparr>)"
| routes: "registry_step label r (r\<lparr>browsers := bs\<rparr>)"

definition registry_inv :: "(string \<Rightarrow> string) \<Rightarrow> registry \<Rightarrow> bool" where
  "registry_inv label r \<longleftrightarrow>
     indexes_agree r \<and> (\<forall>cid ws. map_of (cid_to_wsid r) cid = Some ws \<longrightarrow> label cid = ws)"

lemma registry_inv_cong:
  "states r' = states r \<Longrightarrow> cid_to_wsid r' = cid_to_wsid r \<Longrightarrow> registry_inv label r \<Longrightarrow> registry_inv label r'"
  by (simp add: registry_inv_def indexes_agree_def)

lemma update_state_agree:
  assumes "registry_inv label r" "\<And>st. container_id (f st) = container_id st"
  shows "registry_inv label (update_state ws f r)"
proof -
  have same: "map_option container_id (map_of (states (update_state ws f r)) w) = map_option container_id (map_of (states r) w)" for w
    using assms(2) by (simp add: update_state_def dict_simps split: option.splits)
  have cids: "cid_to_wsid (update_state ws f r) = cid_to_wsid r"
    by (simp add: update_state_def split: option.splits)
  have agree: "indexes_agree r" using assms(1) by (simp add: registry_inv_def)
  have "indexes_agree (update_state ws f r)"
  proof (rule indexes_agreeI)
    show "dict_ok (states (update_state ws f r))" "dict_ok (cid_to_wsid (update_state ws f r))"
      using agree by (simp_all add: indexes_agree_def update_state_def split: option.splits)
  qed (simp only: same cids indexes_agreeD [OF agree])
  with assms(1) show ?thesis by (simp add: registry_inv_def cids)
qed

lemma track_activity_inv:
  assumes "registry_inv label r" "label cid = ws"
  shows "registry_inv label (snd (track_activity now cid ws m r))"
proof -
  have "map_of (cid_to_wsid r) cid \<in> {None, Some ws}"
    using assms by (cases "map_of (cid_to_wsid r) cid") (auto simp: registry_inv_def)
  then show ?thesis
    using assms track_activity_agree [of r cid ws now m] by (auto simp: registry_inv_def track_activity_cids)
qed

lemma remove_state_inv:
  assumes "registry_inv label r"
  shows "registry_inv label (remove_state ws expect r)"
proof (cases "remove_state ws expect r = r")
  case False
  then obtain st where st: "map_of (states r) ws = Some st"
    by (cases "map_of (states r) ws") (auto simp: remove_state_def)
  with False have parts: "states (remove_state ws expect r) = AList.delete ws (states r)"
    "cid_to_wsid (remove_state ws expect r) = AList.delete (container_id st) (cid_to_wsid r)"
    by (auto simp: remove_state_def prune_service_session_locks_def clear_service_fire_pending_def
        clear_service_session_lock_def Let_def split: if_splits)
  from indexes_agree_delete [OF _ st parts] assms show ?thesis
    by (auto simp: registry_inv_def parts dict_simps split: if_splits)
qed (use assms in simp)

lemma teardown_end_inv:
  assumes "registry_inv label r" "label cid = ws" "fst (teardown_begin ws cid r)"
  shows "registry_inv label (teardown_end ws cid r)"
proof -
  have parts: "states (teardown_end ws cid r) = AList.delete ws (states r)"
    "cid_to_wsid (teardown_end ws cid r) = AList.delete cid (cid_to_wsid r)"
    by (simp_all add: teardown_end_def revoke_workspace_browsers_def Let_def)
  have "indexes_agree (teardown_end ws cid r)"
  proof (cases "map_of (states r) ws")
    case None
    have "map_of (cid_to_wsid r) cid \<in> {None, Some ws}"
      using assms by (cases "map_of (cid_to_wsid r) cid") (auto simp: registry_inv_def)
    with None assms(1) parts show ?thesis by (auto simp: registry_inv_def intro: indexes_agree_untracked)
  next
    case (Some st)
    then have "container_id st = cid" using assms(3) by (simp add: teardown_begin_def split: if_splits)
    with Some assms(1) parts show ?thesis by (auto simp: registry_inv_def intro: indexes_agree_delete)
  qed
  with assms(1) show ?thesis by (auto simp: registry_inv_def parts dict_simps split: if_splits)
qed

interpretation registry_run: step_invariant "registry_step label" "\<lambda>r. \<exists>v. r = init_registry v" "registry_inv label" for label
proof
  show "registry_inv label r" if "\<exists>v. r = init_registry v" for r
    using that by (auto simp: registry_inv_def indexes_agree_def init_registry_def)
  show "registry_inv label r'" if "registry_step label r r'" "registry_inv label r" for r r'
    using that
  proof cases
    case (active now cid)
    with that(2) show ?thesis by (auto simp: record_activity_def intro: update_state_agree split: option.splits)
  next
    case (service_started now cid)
    with that(2) show ?thesis by (auto simp: mark_service_started_def intro: update_state_agree split: option.splits)
  next
    case (timeout_set ws seconds)
    with that(2) show ?thesis by (auto simp: set_workspace_idle_timeout_def intro: update_state_agree split: option.splits)
  next
    case (teardown_begun ws cid)
    with that(2) show ?thesis by (auto simp: teardown_begin_def intro: registry_inv_cong)
  qed (use that(2) in \<open>auto intro: track_activity_inv remove_state_inv teardown_end_inv registry_inv_cong
        simp: begin_expected_stop_def prune_workspace_registry_entries_def set_idle_timeout_def\<close>)
qed


section \<open>Properties\<close>

text \<open>
  In every state the registry reaches, the lookup by container and the lookup by workspace agree: a
  container id leads to a workspace exactly when that workspace is tracked under that container. Activity
  reported for a replaced container therefore never counts for its successor.
\<close>

theorem container_lookup_exact:
  assumes "(registry_step label)\<^sup>*\<^sup>* (init_registry v) r"
  shows "map_of (cid_to_wsid r) cid = Some ws \<longleftrightarrow> (\<exists>st. map_of (states r) ws = Some st \<and> container_id st = cid)"
  using registry_run.reachable_inv [OF assms] by (auto simp: registry_inv_def indexes_agree_def)

definition no_metadata :: track_metadata where
  "no_metadata = \<lparr>m_health_check = None, m_owner_id = None, m_setup_state = None, m_per_handle_home = None\<rparr>"

definition tracking :: "(string \<times> string \<times> real) list \<Rightarrow> registry" where
  "tracking entries = fold (\<lambda>(cid, ws, now). snd \<circ> track_activity now cid ws no_metadata) entries (init_registry None)"

lemma tracking_reached: "list_all (\<lambda>(cid, ws, _). label cid = ws) entries \<Longrightarrow> (registry_step label)\<^sup>*\<^sup>* (init_registry None) (tracking entries)"
proof (induction entries rule: rev_induct)
  case (snoc e entries)
  then show ?case
    by (cases e) (auto simp: tracking_def intro: rtranclp.rtrancl_into_rtrancl registry_step.tracked)
qed (simp add: tracking_def)

lemmas registry_eval = tracking_def track_activity_def new_state_def apply_track_metadata_def no_metadata_def
  init_registry_def parse_idle_timeout_def

theorem container_lookup_exact_witness:
  "map_of (cid_to_wsid (tracking [(''c1'', ''w'', 0), (''c2'', ''w'', 1)])) ''c2'' = Some ''w'' \<and>
   map_of (cid_to_wsid (tracking [(''c1'', ''w'', 0), (''c2'', ''w'', 1)])) ''c1'' \<noteq> Some ''w''"
proof -
  have "(registry_step (\<lambda>_. ''w''))\<^sup>*\<^sup>* (init_registry None) (tracking [(''c1'', ''w'', 0), (''c2'', ''w'', 1)])"
    by (rule tracking_reached) simp
  from container_lookup_exact [OF this, of "''c2''" "''w''"] container_lookup_exact [OF this, of "''c1''" "''w''"]
  show ?thesis by (simp add: registry_eval)
qed



text \<open>
  The list of overdue workspaces is made once per round and not looked at again: a workspace that became
  active while an earlier one was being stopped is stopped all the same.
\<close>

lemma idle_stop_misses_activity:
  defines "r \<equiv> tracking [(''c1'', ''a'', 0), (''c2'', ''b'', 0)]"
    and "busy \<equiv> \<lambda>cid. if cid = ''c2'' then record_activity 5000 ''c2'' else (\<lambda>r. r)"
  shows "idle_overdue 5000 (busy ''c2'' r) = [(''c1'', ''a'')] \<and> states (cleanup_round busy (\<lambda>_. True) 5000 r) = []"
  by (simp add: r_def busy_def registry_eval idle_overdue_def cleanup_round_def idle_stops_def map_filter_simps
      get_idle_timeout_def record_activity_def update_state_def stop_and_remove_container_def
      teardown_registry_state_def teardown_begin_def teardown_end_def begin_expected_stop_def
      revoke_workspace_browsers_def clear_service_session_lock_def clear_service_fire_pending_def
      prune_service_session_locks_def Let_def)

text \<open>A workspace pinned with an idle time-out of zero makes the loop run at its shortest interval.\<close>

lemma pinned_workspace_interval:
  assumes "map_of (states r) ws = Some st" "idle_timeout st = Some 0"
  shows "cleanup_interval r = 2"
proof -
  let ?ts = "List.map_filter (\<lambda>(_, st). idle_timeout st) (states r)"
  have "(ws, st) \<in> set (states r)" using assms(1) by (rule map_of_SomeD)
  then have "0 \<in> set ?ts" using assms(2) by (force simp: map_filter_def)
  then have "?ts \<noteq> []" "Min (set ?ts) \<le> 0" by auto
  then show ?thesis by (simp add: cleanup_interval_def Let_def max_def)
qed

end
