(* ===== verification/Eviction.thy ===== *)
theory Eviction
  imports Container_Registry
begin

text \<open>
  \<open>klangk/container/eviction.py\<close>: the measurement of available memory (Linux meminfo, the cgroup limit,
  macOS \<open>vm_stat\<close>) and the loop that stops idle workspaces under sustained pressure. The contents of the
  files and the output of the commands are parameters. Fractions are real numbers: the rounding of Python's
  floats is not modelled.
\<close>

section \<open>Reading numbers\<close>

datatype measure_error = OSError | ValueError

definition int_or_value_error :: "string \<Rightarrow> measure_error + int" where
  "int_or_value_error s = (case py_int s of None \<Rightarrow> Inl ValueError | Some n \<Rightarrow> Inr n)"

definition rstrip_char :: "char \<Rightarrow> string \<Rightarrow> string" where
  "rstrip_char c s = rev (dropWhile (\<lambda>x. x = c) (rev s))"

text \<open>\<open>s.partition(c)\<close>: what is before the first separator, whether there is one, what is after it.\<close>

definition partition_at :: "char \<Rightarrow> string \<Rightarrow> string \<times> bool \<times> string" where
  "partition_at c s =
     (let name = takeWhile (\<lambda>x. x \<noteq> c) s in (name, c \<in> set s, drop (Suc (length name)) s))"


section \<open>Linux\<close>

fun parse_meminfo_lines :: "string list \<Rightarrow> (string, int) dict \<Rightarrow> measure_error + (string, int) dict" where
  "parse_meminfo_lines [] values = Inr values"
| "parse_meminfo_lines (line # lines) values =
     (case split_ws line of
        [name, value, unit] \<Rightarrow>
          (if unit = ''kB''
           then (case py_int value of
                   None \<Rightarrow> Inl ValueError
                 | Some n \<Rightarrow> parse_meminfo_lines lines (AList.update (rstrip_char CHR '':'' name) (n * 1024) values))
           else parse_meminfo_lines lines values)
      | _ \<Rightarrow> parse_meminfo_lines lines values)"

definition parse_meminfo :: "string \<Rightarrow> measure_error + (string, int) dict" where
  "parse_meminfo text = parse_meminfo_lines (splitlines text) []"

text \<open>A file system: \<open>None\<close> where reading raises \<open>OSError\<close>.\<close>

type_synonym files = "string \<Rightarrow> string option"

definition read_meminfo :: "files \<Rightarrow> measure_error + (string, int) dict" where
  "read_meminfo files = (case files ''/proc/meminfo'' of None \<Rightarrow> Inl OSError | Some text \<Rightarrow> parse_meminfo text)"

definition get_field :: "(string, int) dict \<Rightarrow> string \<Rightarrow> int" where
  "get_field meminfo name = (case map_of meminfo name of None \<Rightarrow> 0 | Some n \<Rightarrow> n)"

definition available_fraction :: "(string, int) dict \<Rightarrow> measure_error + real" where
  "available_fraction meminfo =
     (let mem_total = get_field meminfo ''MemTotal''
      in if mem_total \<le> 0 then Inl ValueError
         else
           (let available =
                  (case map_of meminfo ''MemAvailable'' of
                     Some n \<Rightarrow> n
                   | None \<Rightarrow> get_field meminfo ''MemFree'' + get_field meminfo ''Cached'')
            in Inr (real_of_int available / real_of_int mem_total)))"

definition read_int_file :: "files \<Rightarrow> string \<Rightarrow> measure_error + int" where
  "read_int_file files path =
     (case files path of None \<Rightarrow> Inl OSError | Some text \<Rightarrow> int_or_value_error text)"

definition CGROUP_LIMIT_UNLIMITED :: int where "CGROUP_LIMIT_UNLIMITED = 2 ^ 60"

definition v2_memory_limit :: "files \<Rightarrow> string \<Rightarrow> int option" where
  "v2_memory_limit files dir =
     (case files (dir @ ''/memory.max'') of
        None \<Rightarrow> None
      | Some text \<Rightarrow> if strip text \<noteq> ''max'' then py_int (strip text) else None)"

text \<open>The loop over the lines ends at the first one whose name matches, or whose value does not parse.\<close>

definition stat_value :: "files \<Rightarrow> string \<Rightarrow> string list \<Rightarrow> int" where
  "stat_value files path names =
     (case files path of
        None \<Rightarrow> 0
      | Some text \<Rightarrow>
          (case find (\<lambda>line. fst (partition_at CHR '' '' line) \<in> set names) (split_on CHR 0x0A text) of
             None \<Rightarrow> 0
           | Some line \<Rightarrow>
               (case py_int (snd (snd (partition_at CHR '' '' line))) of None \<Rightarrow> 0 | Some n \<Rightarrow> n)))"

definition cgroup_v2_usage :: "files \<Rightarrow> string \<Rightarrow> int \<Rightarrow> measure_error + int \<times> int \<times> int" where
  "cgroup_v2_usage files dir limit =
     (case read_int_file files (dir @ ''/memory.current'') of
        Inl e \<Rightarrow> Inl e
      | Inr current \<Rightarrow> Inr (limit, current, stat_value files (dir @ ''/memory.stat'') [''inactive_file'']))"

definition cgroup_v1_usage :: "files \<Rightarrow> string \<Rightarrow> measure_error + int \<times> int \<times> int" where
  "cgroup_v1_usage files dir =
     (case read_int_file files (dir @ ''/memory/memory.limit_in_bytes'') of
        Inl e \<Rightarrow> Inl e
      | Inr limit \<Rightarrow>
          (if limit \<ge> CGROUP_LIMIT_UNLIMITED then Inl ValueError
           else case read_int_file files (dir @ ''/memory/memory.usage_in_bytes'') of
                  Inl e \<Rightarrow> Inl e
                | Inr current \<Rightarrow>
                    Inr (limit, current,
                         stat_value files (dir @ ''/memory/memory.stat'') [''total_inactive_file'', ''inactive_file''])))"

definition cgroup_usage :: "files \<Rightarrow> string \<Rightarrow> (int \<times> int \<times> int) option" where
  "cgroup_usage files dir =
     (case (case v2_memory_limit files dir of
              Some v2_max \<Rightarrow> cgroup_v2_usage files dir v2_max
            | None \<Rightarrow> cgroup_v1_usage files dir) of
        Inl _ \<Rightarrow> None
      | Inr usage \<Rightarrow> Some usage)"

definition cgroup_memory_headroom :: "files \<Rightarrow> string \<Rightarrow> (int \<times> int) option" where
  "cgroup_memory_headroom files dir =
     (case cgroup_usage files dir of
        None \<Rightarrow> None
      | Some (limit, current, inactive_file) \<Rightarrow>
          (if limit \<le> 0 then None
           else
             (let working_set = max 0 (current - inactive_file)
              in if working_set > limit then Some (limit, limit) else Some (limit, working_set))))"


section \<open>macOS\<close>

fun vm_stat_pages_lines :: "string list \<Rightarrow> (string, int) dict \<Rightarrow> measure_error + (string, int) dict" where
  "vm_stat_pages_lines [] pages = Inr pages"
| "vm_stat_pages_lines (line # lines) pages =
     (case partition_at CHR '':'' line of
        (name, colon, value) \<Rightarrow>
          (let v = rstrip_char CHR ''.'' (strip value)
           in if colon \<and> isdigit v
              then (case py_int v of
                      None \<Rightarrow> Inl ValueError
                    | Some n \<Rightarrow> vm_stat_pages_lines lines (AList.update (strip name) n pages))
              else vm_stat_pages_lines lines pages))"

definition vm_stat_pages :: "string \<Rightarrow> measure_error + (string, int) dict" where
  "vm_stat_pages output = vm_stat_pages_lines (splitlines output) []"

definition vm_stat_available_pages :: "(string, int) dict \<Rightarrow> measure_error + int" where
  "vm_stat_available_pages pages =
     (case (map_of pages ''Pages free'', map_of pages ''Pages inactive'', map_of pages ''Pages speculative'') of
        (Some a, Some b, Some c) \<Rightarrow> Inr (a + b + c)
      | _ \<Rightarrow> Inl ValueError)"

definition parse_vm_stat :: "string \<Rightarrow> int \<Rightarrow> int \<Rightarrow> measure_error + real" where
  "parse_vm_stat output page_size total_bytes =
     (case (case vm_stat_pages output of Inl e \<Rightarrow> Inl e | Inr pages \<Rightarrow> vm_stat_available_pages pages) of
        Inl e \<Rightarrow> Inl e
      | Inr available_pages \<Rightarrow>
          (if total_bytes \<le> 0 \<or> page_size \<le> 0 then Inl ValueError
           else Inr (min (real_of_int (available_pages * page_size) / real_of_int total_bytes) 1)))"

text \<open>\<open>s.split(sep)\<close> for a longer separator: the piece before its first occurrence, and the rest after it.\<close>

fun split_first :: "string \<Rightarrow> string \<Rightarrow> string \<times> string option" where
  "split_first sep [] = ([], if sep = [] then Some [] else None)"
| "split_first sep (c # cs) =
     (if startswith (c # cs) sep then ([], Some (drop (length sep) (c # cs)))
      else case split_first sep cs of (before, rest) \<Rightarrow> (c # before, rest))"

definition header_page_size :: "string \<Rightarrow> int" where
  "header_page_size header =
     (case split_first ''page size of'' header of
        (_, None) \<Rightarrow> 0
      | (_, Some rest) \<Rightarrow>
          (if substring_of ''bytes'' header
           then (case py_int (fst (split_first ''bytes'' (fst (split_first ''page size of'' rest)))) of
                   None \<Rightarrow> 0
                 | Some n \<Rightarrow> n)
           else 0))"

definition vm_stat_page_size :: "string \<Rightarrow> measure_error + int" where
  "vm_stat_page_size output =
     (let header = (case splitlines output of [] \<Rightarrow> [] | line # _ \<Rightarrow> line);
          page_size = header_page_size header
      in if page_size \<le> 0 then Inl ValueError else Inr page_size)"

text \<open>\<open>sysctl\<close> and \<open>vm_stat\<close> are the outputs of the two commands, \<open>None\<close> when one fails.\<close>

definition macos_measure :: "string option \<Rightarrow> string option \<Rightarrow> measure_error + int \<times> int" where
  "macos_measure sysctl vm_stat =
     (case sysctl of
        None \<Rightarrow> Inl OSError
      | Some text \<Rightarrow>
          (case py_int text of
             None \<Rightarrow> Inl ValueError
           | Some memsize \<Rightarrow>
               (case vm_stat of
                  None \<Rightarrow> Inl OSError
                | Some output \<Rightarrow>
                    (case vm_stat_page_size output of
                       Inl e \<Rightarrow> Inl e
                     | Inr page_size \<Rightarrow>
                         (case parse_vm_stat output page_size memsize of
                            Inl e \<Rightarrow> Inl e
                          | Inr fraction \<Rightarrow> Inr (memsize, \<lfloor>fraction * real_of_int memsize\<rfloor>))))))"

definition macos_available_fraction :: "string option \<Rightarrow> string option \<Rightarrow> measure_error + real" where
  "macos_available_fraction sysctl vm_stat =
     (case macos_measure sysctl vm_stat of
        Inl e \<Rightarrow> Inl e
      | Inr (memsize, available) \<Rightarrow>
          (if memsize \<le> 0 then Inl ValueError else Inr (real_of_int available / real_of_int memsize)))"

record host =
  darwin :: bool
  host_files :: files
  sysctl_out :: "string option"
  vm_stat_out :: "string option"

definition measure_available_fraction :: "host \<Rightarrow> measure_error + real" where
  "measure_available_fraction h =
     (if darwin h then macos_available_fraction (sysctl_out h) (vm_stat_out h)
      else case read_meminfo (host_files h) of
             Inl e \<Rightarrow> Inl e
           | Inr meminfo \<Rightarrow>
               (case available_fraction meminfo of
                  Inl e \<Rightarrow> Inl e
                | Inr meminfo_fraction \<Rightarrow>
                    (case cgroup_memory_headroom (host_files h) ''/sys/fs/cgroup'' of
                       None \<Rightarrow> Inr meminfo_fraction
                     | Some (limit, working_set) \<Rightarrow>
                         Inr (min meminfo_fraction (real_of_int (limit - working_set) / real_of_int limit)))))"

section \<open>The evictor\<close>

text \<open>
  \<open>sessions\<close> gives the numbers of terminal and browser subscribers of a workspace with a session. The
  loop's own variables \<open>below\<close>, \<open>pressured\<close> and \<open>warned_unreadable\<close> are part of the state.
\<close>

record evict_settings =
  threshold :: real
  recovery :: real
  sustain_polls :: int

record evictor =
  warned_no_evictable :: bool
  evicted_this_episode :: nat
  below :: int
  pressured :: bool
  warned_unreadable :: bool

definition init_evictor :: evictor where
  "init_evictor = \<lparr>warned_no_evictable = False, evicted_this_episode = 0, below = 0, pressured = False,
     warned_unreadable = False\<rparr>"

definition MIN_POLL_INTERVAL_SECONDS :: real where "MIN_POLL_INTERVAL_SECONDS = 1"

definition poll_interval :: "real \<Rightarrow> real" where
  "poll_interval memory_eviction_poll_interval = max memory_eviction_poll_interval MIN_POLL_INTERVAL_SECONDS"

type_synonym sessions = "(string, nat \<times> nat) dict"

definition has_live_subscribers :: "sessions \<Rightarrow> string \<Rightarrow> bool" where
  "has_live_subscribers ss ws \<longleftrightarrow>
     (case map_of ss ws of None \<Rightarrow> False | Some (subscribers, browser_subscribers) \<Rightarrow> subscribers > 0 \<or> browser_subscribers > 0)"

definition evictable :: "registry \<Rightarrow> sessions \<Rightarrow> string \<Rightarrow> container_state \<Rightarrow> bool" where
  "evictable r ss ws st =
     (if ws \<in> stopping r then False
      else if workspace_operation_in_flight r ws then False
      else if get_idle_timeout r st = 0 then False
      else \<not> has_live_subscribers ss ws)"

definition evictable_workspaces :: "registry \<Rightarrow> sessions \<Rightarrow> (string \<times> container_state) list" where
  "evictable_workspaces r ss = sort_key (\<lambda>(_, st). last_activity st) (filter (\<lambda>(ws, st). evictable r ss ws st) (states r))"

text \<open>The victim, if there is one; the notifications and the stop follow.\<close>

definition evict_one :: "registry \<Rightarrow> sessions \<Rightarrow> evictor \<Rightarrow> (string \<times> string) option \<times> evictor" where
  "evict_one r ss e =
     (case evictable_workspaces r ss of
        [] \<Rightarrow> (None, e\<lparr>warned_no_evictable := True\<rparr>)
      | (ws, st) # _ \<Rightarrow>
          (Some (ws, container_id st),
           e\<lparr>warned_no_evictable := False, evicted_this_episode := Suc (evicted_this_episode e)\<rparr>))"

definition step_pressured ::
  "evict_settings \<Rightarrow> registry \<Rightarrow> sessions \<Rightarrow> real \<Rightarrow> evictor \<Rightarrow> (string \<times> string) option \<times> evictor" where
  "step_pressured cfg r ss fraction e =
     (let percent = fraction * 100
      in if percent \<ge> recovery cfg
         then (None, e\<lparr>warned_no_evictable := False, evicted_this_episode := 0, below := 0, pressured := False\<rparr>)
         else if percent < threshold cfg then evict_one r ss e
         else (None, e))"

definition handle_measurement ::
  "evict_settings \<Rightarrow> registry \<Rightarrow> sessions \<Rightarrow> real \<Rightarrow> evictor \<Rightarrow> (string \<times> string) option \<times> evictor" where
  "handle_measurement cfg r ss fraction e =
     (let percent = fraction * 100
      in if pressured e then step_pressured cfg r ss fraction e
         else if percent < threshold cfg
         then (if below e + 1 \<ge> sustain_polls cfg
               then (case evict_one r ss e of (victim, e) \<Rightarrow> (victim, e\<lparr>below := 0, pressured := True\<rparr>))
               else (None, e\<lparr>below := below e + 1\<rparr>))
         else (None, e\<lparr>below := 0\<rparr>))"

text \<open>
  One round of the loop: whether eviction is enabled, the measurement, the registry and the sessions at
  that moment, and whether the stop of a victim raises. A step that raises keeps the loop's variables.
\<close>

record poll =
  enabled :: bool
  measured :: "measure_error + real"
  at_registry :: registry
  at_sessions :: sessions
  stop_raises :: bool

definition step_state_machine ::
  "evict_settings \<Rightarrow> poll \<Rightarrow> real \<Rightarrow> evictor \<Rightarrow> (string \<times> string) option \<times> evictor" where
  "step_state_machine cfg p fraction e =
     (case handle_measurement cfg (at_registry p) (at_sessions p) fraction e of
        (Some victim, e') \<Rightarrow>
          (Some victim, if stop_raises p then e'\<lparr>below := below e, pressured := pressured e\<rparr> else e')
      | (None, e') \<Rightarrow> (None, e'))"

definition poll_once :: "evict_settings \<Rightarrow> poll \<Rightarrow> evictor \<Rightarrow> (string \<times> string) option \<times> evictor" where
  "poll_once cfg p e =
     (if \<not> enabled p then (None, e\<lparr>below := 0, pressured := False\<rparr>)
      else case measured p of
             Inl _ \<Rightarrow> (None, e\<lparr>warned_unreadable := True\<rparr>)
           | Inr fraction \<Rightarrow> step_state_machine cfg p fraction (e\<lparr>warned_unreadable := False\<rparr>))"

definition run_evictor :: "evict_settings \<Rightarrow> poll list \<Rightarrow> evictor" where
  "run_evictor cfg ps = fold (\<lambda>p e. snd (poll_once cfg p e)) ps init_evictor"


section \<open>Properties\<close>

lemma sort_key_hd_least:
  assumes "sort_key f xs = y # ys"
  shows "y \<in> set xs \<and> (\<forall>x\<in>set xs. f y \<le> f x)"
proof -
  have "sorted (map f (y # ys))" using assms sorted_sort_key [of f xs] by simp
  moreover have "set (y # ys) = set xs" using assms by (metis set_sort)
  ultimately show ?thesis by auto
qed

text \<open>
  Whom eviction stops: a tracked workspace that nobody is connected to, that is not being started or
  stopped and is not pinned, and of all those the least recently active one. It stops nobody only when
  there is none.
\<close>

theorem eviction_victim:
  "case fst (evict_one r ss e) of
     Some (ws, cid) \<Rightarrow>
       \<exists>st. (ws, st) \<in> set (states r) \<and> container_id st = cid \<and> ws \<notin> stopping r \<and>
         \<not> workspace_operation_in_flight r ws \<and> get_idle_timeout r st \<noteq> 0 \<and> \<not> has_live_subscribers ss ws \<and>
         list_all (\<lambda>(_, st'). last_activity st \<le> last_activity st') (filter (\<lambda>(ws', st'). evictable r ss ws' st') (states r))
   | None \<Rightarrow> list_all (\<lambda>(ws', st'). \<not> evictable r ss ws' st') (states r)"
proof (cases "evictable_workspaces r ss")
  case Nil
  then have "filter (\<lambda>(ws, st). evictable r ss ws st) (states r) = []"
    by (metis evictable_workspaces_def length_0_conv length_sort)
  with Nil show ?thesis by (auto simp: evict_one_def filter_empty_conv list_all_iff)
next
  case (Cons v vs)
  obtain ws st where v: "v = (ws, st)" by (cases v)
  with Cons sort_key_hd_least [of "\<lambda>(_, st). last_activity st" "filter (\<lambda>(ws, st). evictable r ss ws st) (states r)" v vs]
  have st: "(ws, st) \<in> set (states r)" "evictable r ss ws st"
    "list_all (\<lambda>(_, st'). last_activity st \<le> last_activity st') (filter (\<lambda>(ws', st'). evictable r ss ws' st') (states r))"
    by (auto simp: evictable_workspaces_def list_all_iff)
  moreover from st(2) have "ws \<notin> stopping r" "\<not> workspace_operation_in_flight r ws"
    "get_idle_timeout r st \<noteq> 0" "\<not> has_live_subscribers ss ws"
    by (simp_all add: evictable_def split: if_splits)
  moreover have "fst (evict_one r ss e) = Some (ws, container_id st)" using Cons v by (simp add: evict_one_def)
  ultimately show ?thesis by auto
qed

text \<open>
  The history behind an eviction. \<open>low\<close> is the stretch in which the pressure built up: eviction enabled,
  no measurement at or above the threshold, and \<open>sustain_polls\<close> below it. Since then eviction has stayed
  enabled and no measurement reached the recovery mark.
\<close>

definition low_poll :: "evict_settings \<Rightarrow> poll \<Rightarrow> bool" where
  "low_poll cfg p \<longleftrightarrow> (case measured p of Inl _ \<Rightarrow> False | Inr f \<Rightarrow> f * 100 < threshold cfg)"

definition building :: "evict_settings \<Rightarrow> poll list \<Rightarrow> bool" where
  "building cfg low \<longleftrightarrow>
     list_all (\<lambda>p. enabled p \<and> (case measured p of Inl _ \<Rightarrow> True | Inr f \<Rightarrow> f * 100 < threshold cfg)) low"

definition unrecovered :: "evict_settings \<Rightarrow> poll list \<Rightarrow> bool" where
  "unrecovered cfg mid \<longleftrightarrow>
     list_all (\<lambda>p. enabled p \<and> (case measured p of Inl _ \<Rightarrow> True | Inr f \<Rightarrow> f * 100 < recovery cfg)) mid"

definition low_count :: "evict_settings \<Rightarrow> poll list \<Rightarrow> int" where
  "low_count cfg low = int (length (filter (low_poll cfg) low))"

definition history_ok :: "evict_settings \<Rightarrow> poll list \<Rightarrow> evictor \<Rightarrow> bool" where
  "history_ok cfg ps e \<longleftrightarrow>
     (if pressured e
      then \<exists>pre low mid. ps = pre @ low @ mid \<and> building cfg low \<and> low_count cfg low \<ge> sustain_polls cfg \<and> unrecovered cfg mid
      else \<exists>pre low. ps = pre @ low \<and> building cfg low \<and> low_count cfg low \<ge> below e)"

lemma history_parts [simp]:
  "building cfg (xs @ ys) \<longleftrightarrow> building cfg xs \<and> building cfg ys" "building cfg []"
  "unrecovered cfg (xs @ ys) \<longleftrightarrow> unrecovered cfg xs \<and> unrecovered cfg ys" "unrecovered cfg []"
  "low_count cfg (xs @ ys) = low_count cfg xs + low_count cfg ys" "low_count cfg [] = 0" "0 \<le> low_count cfg xs"
  by (simp_all add: building_def unrecovered_def low_count_def)

lemma evict_one_vars:
  "evict_one r ss e = (victim, e') \<Longrightarrow> below e' = below e \<and> pressured e' = pressured e"
  by (auto simp: evict_one_def split: list.splits prod.splits)

lemma history_pressuredI:
  "pressured e \<Longrightarrow> ps = pre @ low @ mid \<Longrightarrow> building cfg low \<Longrightarrow> low_count cfg low \<ge> sustain_polls cfg \<Longrightarrow>
     unrecovered cfg mid \<Longrightarrow> history_ok cfg ps e"
  unfolding history_ok_def by (simp only: if_True) blast

lemma history_buildingI:
  "\<not> pressured e \<Longrightarrow> ps = pre @ low \<Longrightarrow> building cfg low \<Longrightarrow> low_count cfg low \<ge> below e \<Longrightarrow> history_ok cfg ps e"
  unfolding history_ok_def by (simp only: if_False) blast

lemma history_reset: "\<not> pressured e \<Longrightarrow> below e \<le> 0 \<Longrightarrow> history_ok cfg ps e"
  by (rule history_buildingI [of _ _ ps "[]"]) simp_all

lemma history_open:
  assumes "history_ok cfg ps e" "pressured e" "unrecovered cfg [p]" "pressured e'"
  shows "history_ok cfg (ps @ [p]) e'"
proof -
  obtain pre low mid where "ps = pre @ low @ mid" "building cfg low" "low_count cfg low \<ge> sustain_polls cfg" "unrecovered cfg mid"
    using assms(1,2) by (auto simp: history_ok_def)
  then have "ps @ [p] = pre @ low @ (mid @ [p])" "unrecovered cfg (mid @ [p])" using assms(3) by simp_all
  with \<open>building cfg low\<close> \<open>low_count cfg low \<ge> sustain_polls cfg\<close> assms(4) show ?thesis by (blast intro: history_pressuredI)
qed

lemma history_build:
  assumes "history_ok cfg ps e" "\<not> pressured e" "building cfg [p]" "\<not> pressured e'"
    and "below e' \<le> below e + low_count cfg [p]"
  shows "history_ok cfg (ps @ [p]) e'"
proof -
  obtain pre low where "ps = pre @ low" "building cfg low" "low_count cfg low \<ge> below e"
    using assms(1,2) by (auto simp: history_ok_def)
  then have "ps @ [p] = pre @ (low @ [p])" "building cfg (low @ [p])" "low_count cfg (low @ [p]) \<ge> below e'"
    using assms(3,5) by simp_all
  with assms(4) show ?thesis by (blast intro: history_buildingI)
qed

lemma history_start:
  assumes "history_ok cfg ps e" "\<not> pressured e" "building cfg [p]" "pressured e'"
    and "sustain_polls cfg \<le> below e + low_count cfg [p]"
  shows "history_ok cfg (ps @ [p]) e'"
proof -
  obtain pre low where "ps = pre @ low" "building cfg low" "low_count cfg low \<ge> below e"
    using assms(1,2) by (auto simp: history_ok_def)
  then have "ps @ [p] = pre @ (low @ [p]) @ []" "building cfg (low @ [p])" "low_count cfg (low @ [p]) \<ge> sustain_polls cfg"
    using assms(3,5) by simp_all
  with assms(4) history_parts(4) show ?thesis by (blast intro: history_pressuredI)
qed

lemma poll_history:
  assumes "history_ok cfg ps e" "threshold cfg \<le> recovery cfg"
  shows "history_ok cfg (ps @ [p]) (snd (poll_once cfg p e))"
proof (cases "enabled p")
  case False
  then show ?thesis by (simp add: poll_once_def history_reset)
next
  case True
  show ?thesis
  proof (cases "measured p")
    case (Inl err)
    then have same: "below (snd (poll_once cfg p e)) = below e" "pressured (snd (poll_once cfg p e)) = pressured e"
      using True by (simp_all add: poll_once_def)
    have "building cfg [p]" "unrecovered cfg [p]" using True Inl by (simp_all add: building_def unrecovered_def)
    with assms(1) same show ?thesis by (cases "pressured e") (auto intro: history_open history_build)
  next
    case (Inr f)
    let ?e = "e\<lparr>warned_unreadable := False\<rparr>"
    have poll: "poll_once cfg p e = step_state_machine cfg p f ?e" using True Inr by (simp add: poll_once_def)
    consider "pressured e" "recovery cfg \<le> f * 100" | "pressured e" "f * 100 < recovery cfg"
      | "\<not> pressured e" "f * 100 < threshold cfg" | "\<not> pressured e" "threshold cfg \<le> f * 100" by linarith
    then show ?thesis
    proof cases
      case 1
      then have "\<not> pressured (snd (poll_once cfg p e))" "below (snd (poll_once cfg p e)) = 0"
        by (simp_all add: poll step_state_machine_def handle_measurement_def step_pressured_def)
      then show ?thesis by (simp add: history_reset)
    next
      case 2
      then have "unrecovered cfg [p]" using True Inr by (simp add: unrecovered_def)
      moreover have "pressured (snd (poll_once cfg p e))"
        using 2
        by (auto simp: poll step_state_machine_def handle_measurement_def step_pressured_def
            split: prod.splits option.splits dest: evict_one_vars)
      ultimately show ?thesis using assms(1) 2(1) by (blast intro: history_open)
    next
      case 3
      then have low: "building cfg [p]" "low_count cfg [p] = 1"
        using True Inr by (simp_all add: building_def low_count_def low_poll_def)
      consider "pressured (snd (poll_once cfg p e))" "sustain_polls cfg \<le> below e + 1"
        | "\<not> pressured (snd (poll_once cfg p e))" "below (snd (poll_once cfg p e)) \<le> below e + 1"
      proof (cases "sustain_polls cfg \<le> below e + 1")
        case True
        obtain victim e' where "evict_one (at_registry p) (at_sessions p) ?e = (victim, e')" by fastforce
        with True 3 that show thesis
          by (cases victim; cases "stop_raises p")
            (simp_all add: poll step_state_machine_def handle_measurement_def Let_def)
      qed (use 3 that in \<open>simp add: poll step_state_machine_def handle_measurement_def Let_def\<close>)
      then show ?thesis
        using assms(1) 3(1) low by cases (auto intro: history_start history_build)
    next
      case 4
      then have "\<not> pressured (snd (poll_once cfg p e))" "below (snd (poll_once cfg p e)) = 0"
        by (simp_all add: poll step_state_machine_def handle_measurement_def)
      then show ?thesis by (simp add: history_reset)
    qed
  qed
qed

lemma run_history: "threshold cfg \<le> recovery cfg \<Longrightarrow> history_ok cfg ps (run_evictor cfg ps)"
proof (induction ps rule: rev_induct)
  case Nil
  then show ?case by (simp add: run_evictor_def init_evictor_def history_reset)
next
  case (snoc p ps)
  then show ?case using poll_history [of cfg ps "run_evictor cfg ps" p] by (simp add: run_evictor_def)
qed

text \<open>
  No eviction on a passing dip. A round that stops a workspace has measured less than the threshold; the
  rounds before it (and it) contain a stretch with eviction enabled and no measurement at or above the
  threshold, in which \<open>sustain_polls\<close> measurements were below it, and since that stretch eviction was never
  disabled and no measurement reached the recovery mark.
\<close>

theorem eviction_needs_pressure:
  assumes "threshold cfg \<le> recovery cfg" "fst (poll_once cfg p (run_evictor cfg ps)) = Some victim"
  shows "enabled p \<and> low_poll cfg p \<and>
    (\<exists>pre low mid. ps @ [p] = pre @ low @ mid \<and> building cfg low \<and> sustain_polls cfg \<le> low_count cfg low \<and>
       unrecovered cfg mid)"
proof -
  let ?e = "run_evictor cfg ps"
  from assms(2) obtain f where p: "enabled p" "measured p = Inr f"
    by (auto simp: poll_once_def split: if_splits sum.splits)
  have low: "f * 100 < threshold cfg"
    using assms(2) p by (auto simp: poll_once_def step_state_machine_def handle_measurement_def step_pressured_def Let_def
        split: if_splits prod.splits option.splits)
  have hist: "history_ok cfg ps ?e" using assms(1) by (rule run_history)
  have parts: "building cfg [p]" "unrecovered cfg [p]" "low_count cfg [p] = 1"
    using p low assms(1) by (simp_all add: building_def unrecovered_def low_count_def low_poll_def)
  have "history_ok cfg (ps @ [p]) (?e\<lparr>pressured := True\<rparr>)"
  proof (cases "pressured ?e")
    case True
    with hist parts(2) show ?thesis by (auto intro: history_open)
  next
    case False
    then have "sustain_polls cfg \<le> below ?e + 1"
      using assms(2) p low by (auto simp: poll_once_def step_state_machine_def handle_measurement_def Let_def split: if_splits)
    with False hist parts show ?thesis by (auto intro: history_start)
  qed
  then show ?thesis using p low by (simp add: history_ok_def low_poll_def)
qed

definition low_round :: "registry \<Rightarrow> poll" where
  "low_round r = \<lparr>enabled = True, measured = Inr (1 / 20), at_registry = r, at_sessions = [], stop_raises = False\<rparr>"

definition default_evict_settings :: evict_settings where
  "default_evict_settings = \<lparr>threshold = 10, recovery = 15, sustain_polls = 3\<rparr>"

lemmas evictor_eval = poll_once_def step_state_machine_def handle_measurement_def step_pressured_def evict_one_def
  evictable_workspaces_def evictable_def has_live_subscribers_def get_idle_timeout_def workspace_operation_in_flight_def
  run_evictor_def init_evictor_def low_round_def default_evict_settings_def

lemma low_rounds_evict:
  defines "q \<equiv> low_round (tracking [(''c1'', ''w'', 0)])"
  shows "fst (poll_once default_evict_settings q (run_evictor default_evict_settings [q, q])) = Some (''w'', ''c1'')"
  by (simp add: q_def evictor_eval registry_eval)

theorem eviction_needs_pressure_witness:
  "low_poll default_evict_settings (low_round (tracking [(''c1'', ''w'', 0)]))"
  using eviction_needs_pressure [OF _ low_rounds_evict] by (simp add: default_evict_settings_def)

lemma low_poll_step:
  assumes "enabled p" "low_poll cfg p" "threshold cfg \<le> recovery cfg" "0 \<le> below e"
  defines "e' \<equiv> snd (poll_once cfg p e)"
  shows "0 \<le> below e' \<and> (pressured e' \<or> below e' = below e + 1 \<or> sustain_polls cfg - 1 \<le> below e' )"
    and "pressured e \<Longrightarrow> pressured e'"
    and "pressured e \<or> sustain_polls cfg \<le> below e + 1 \<Longrightarrow> fst (poll_once cfg p e) = fst (evict_one (at_registry p) (at_sessions p) e)"
proof -
  obtain f where f: "measured p = Inr f" "f * 100 < threshold cfg"
    using assms(2) by (auto simp: low_poll_def split: sum.splits)
  obtain victim e1 where ev: "evict_one (at_registry p) (at_sessions p) (e\<lparr>warned_unreadable := False\<rparr>) = (victim, e1)"
    by fastforce
  have vars: "below e1 = below e" "pressured e1 = pressured e" using evict_one_vars [OF ev] by simp_all
  have same: "fst (evict_one (at_registry p) (at_sessions p) e) = victim"
    using ev by (auto simp: evict_one_def split: list.splits)
  have not_recovered: "\<not> recovery cfg \<le> f * 100" using f(2) assms(3) by linarith
  note defs = poll_once_def step_state_machine_def handle_measurement_def step_pressured_def Let_def assms(1) f ev
    not_recovered vars same
  show "0 \<le> below e' \<and> (pressured e' \<or> below e' = below e + 1 \<or> sustain_polls cfg - 1 \<le> below e')"
    using assms(4) unfolding e'_def
    by (cases "pressured e"; cases victim; cases "stop_raises p"; cases "sustain_polls cfg \<le> below e + 1") (simp_all add: defs)
  show "pressured e'" if "pressured e"
    using that unfolding e'_def by (cases victim; cases "stop_raises p") (simp_all add: defs)
  show "fst (poll_once cfg p e) = fst (evict_one (at_registry p) (at_sessions p) e)"
    if "pressured e \<or> sustain_polls cfg \<le> below e + 1"
    using that by (cases "pressured e"; cases victim) (simp_all add: defs)
qed

lemma below_nonneg: "0 \<le> below (run_evictor cfg ps)"
proof (induction ps rule: rev_induct)
  case (snoc p ps)
  then show ?case
    by (auto simp: run_evictor_def poll_once_def step_state_machine_def handle_measurement_def step_pressured_def Let_def
        split: sum.splits prod.splits option.splits dest: evict_one_vars)
qed (simp add: run_evictor_def init_evictor_def)

lemma low_stretch:
  assumes "threshold cfg \<le> recovery cfg" "list_all (\<lambda>q. enabled q \<and> low_poll cfg q) qs"
  shows "pressured (run_evictor cfg (ps @ qs)) \<or> min (int (length qs)) (sustain_polls cfg - 1) \<le> below (run_evictor cfg (ps @ qs))"
  using assms(2)
proof (induction qs rule: rev_induct)
  case Nil
  then show ?case using below_nonneg [of cfg ps] by auto
next
  case (snoc q qs)
  then have IH: "pressured (run_evictor cfg (ps @ qs)) \<or>
      min (int (length qs)) (sustain_polls cfg - 1) \<le> below (run_evictor cfg (ps @ qs))" by simp
  have q: "enabled q" "low_poll cfg q" using snoc.prems by simp_all
  have run: "run_evictor cfg (ps @ qs @ [q]) = snd (poll_once cfg q (run_evictor cfg (ps @ qs)))"
    by (simp add: run_evictor_def)
  from low_poll_step(1,2) [OF q assms(1) below_nonneg [of cfg "ps @ qs"]] IH show ?case
    unfolding run by auto
qed

text \<open>
  Sustained pressure is acted on. Whatever happened before, when the last \<open>sustain_polls\<close> rounds, this one
  included, ran enabled and measured less than the threshold, and somebody can be evicted, this round
  evicts - also when the stops of earlier rounds failed.
\<close>

theorem sustained_pressure_evicts:
  assumes "threshold cfg \<le> recovery cfg" "list_all (\<lambda>q. enabled q \<and> low_poll cfg q) (qs @ [p])"
    and "sustain_polls cfg \<le> int (length (qs @ [p]))" "evictable_workspaces (at_registry p) (at_sessions p) \<noteq> []"
  shows "fst (poll_once cfg p (run_evictor cfg (ps @ qs))) \<noteq> None"
proof -
  have p: "enabled p" "low_poll cfg p" and qs: "list_all (\<lambda>q. enabled q \<and> low_poll cfg q) qs" using assms(2) by simp_all
  have "pressured (run_evictor cfg (ps @ qs)) \<or> sustain_polls cfg \<le> below (run_evictor cfg (ps @ qs)) + 1"
    using low_stretch [OF assms(1) qs, of ps] assms(3) by auto
  from low_poll_step(3) [OF p assms(1) below_nonneg this] assms(4) show ?thesis
    by (auto simp: evict_one_def split: list.splits)
qed

theorem sustained_pressure_evicts_witness:
  "fst (poll_once default_evict_settings (low_round (tracking [(''c1'', ''w'', 0)]))
     (run_evictor default_evict_settings ([] @ [low_round (tracking []), low_round (tracking [])]))) \<noteq> None"
  by (rule sustained_pressure_evicts) (simp_all add: evictor_eval registry_eval low_poll_def)

end
