(* ===== verification/Admission.thy ===== *)
theory Admission
  imports Eviction
begin

text \<open>
  \<open>klangk/container/admission.py\<close>: the two gates before a container is created - the fit of the memory
  limit into the host and the quota of running workspaces per owner - and the interleaving of starts that
  the quota has to survive. Of an error's message only the numbers are kept; the alert and the log lines are
  output.
\<close>

section \<open>Sizes\<close>

definition unit_bytes :: "char \<Rightarrow> int option" where
  "unit_bytes c =
     (let l = lower_char c
      in if l = CHR ''k'' then Some (1024 ^ 1) else if l = CHR ''m'' then Some (1024 ^ 2)
         else if l = CHR ''g'' then Some (1024 ^ 3) else if l = CHR ''t'' then Some (1024 ^ 4)
         else if l = CHR ''p'' then Some (1024 ^ 5) else None)"

text \<open>
  \<open>_SIZE_RE\<close> and the value of its groups. The number is computed exactly; Python multiplies a double,
  which agrees for numbers of up to fifteen digits.
\<close>

definition parse_size_bytes :: "string \<Rightarrow> int option" where
  "parse_size_bytes value =
     (let s = strip value;
          whole = takeWhile ascii_digit s;
          rest = dropWhile ascii_digit s;
          frac = (if startswith rest ''.'' then takeWhile ascii_digit (drop 1 rest) else []);
          rest = (if frac \<noteq> [] then drop (Suc (length frac)) rest else rest);
          factor = (case rest of c # _ \<Rightarrow> unit_bytes c | [] \<Rightarrow> None);
          rest = (if factor \<noteq> None then drop 1 rest else rest);
          rest = (if rest \<noteq> [] \<and> lower_char (hd rest) = CHR ''b'' then drop 1 rest else rest)
      in if whole = [] \<or> rest \<noteq> [] then None
         else Some (int (int_of_digits (whole @ frac)) * (case factor of None \<Rightarrow> 1 | Some u \<Rightarrow> u) div 10 ^ length frac))"


section \<open>The podman machine\<close>

text \<open>An entry of \<open>podman machine ls\<close>; \<open>m_memory\<close> is what \<open>int(entry["Memory"])\<close> gives, if anything.\<close>

record machine =
  m_default :: bool
  m_name :: "string option"
  m_memory :: "int option"

definition MIN_MACHINE_MEMORY_BYTES :: int where "MIN_MACHINE_MEMORY_BYTES = 64 * 1024 * 1024"

definition MACHINE_MEMORY_TTL_SECONDS :: real where "MACHINE_MEMORY_TTL_SECONDS = 300"

definition machine_memory_of :: "machine \<Rightarrow> int option" where
  "machine_memory_of entry =
     (case m_memory entry of None \<Rightarrow> None | Some v \<Rightarrow> if v < MIN_MACHINE_MEMORY_BYTES then None else Some v)"

fun first_memory :: "(machine \<Rightarrow> bool) \<Rightarrow> machine list \<Rightarrow> int option" where
  "first_memory P [] = None"
| "first_memory P (entry # machines) =
     (if P entry
      then (case machine_memory_of entry of Some mem \<Rightarrow> Some mem | None \<Rightarrow> first_memory P machines)
      else first_memory P machines)"

definition default_machine_memory :: "machine list \<Rightarrow> int option" where
  "default_machine_memory machines = first_memory m_default machines"

definition named_machine_memory :: "machine list \<Rightarrow> int option" where
  "named_machine_memory machines = first_memory (\<lambda>entry. m_name entry = Some ''podman-machine-default'') machines"

definition single_machine_memory :: "machine list \<Rightarrow> int option" where
  "single_machine_memory machines = (case machines of [entry] \<Rightarrow> machine_memory_of entry | _ \<Rightarrow> None)"

definition pick_machine_memory :: "machine list \<Rightarrow> int option" where
  "pick_machine_memory machines =
     (if machines = [] then None
      else case default_machine_memory machines of
             Some mem \<Rightarrow> Some mem
           | None \<Rightarrow>
               (case named_machine_memory machines of
                  Some mem \<Rightarrow> Some mem
                | None \<Rightarrow> single_machine_memory machines))"

type_synonym machine_cache = "(string, real \<times> int option) dict"

definition fresh_cache_entry :: "machine_cache \<Rightarrow> string \<Rightarrow> real \<Rightarrow> (real \<times> int option) option" where
  "fresh_cache_entry cache podman_bin now =
     (case map_of cache podman_bin of
        None \<Rightarrow> None
      | Some entry \<Rightarrow> if now - fst entry \<ge> MACHINE_MEMORY_TTL_SECONDS then None else Some entry)"

text \<open>\<open>listed\<close> is the parsed output of the command, \<open>None\<close> when it fails; \<open>then_now\<close> is the clock after it.\<close>

definition measure_machine_memory :: "machine list option \<Rightarrow> int option" where
  "measure_machine_memory listed = (case listed of None \<Rightarrow> None | Some machines \<Rightarrow> pick_machine_memory machines)"

definition podman_machine_memory_bytes ::
  "real \<Rightarrow> real \<Rightarrow> machine list option \<Rightarrow> string \<Rightarrow> machine_cache \<Rightarrow> int option \<times> machine_cache" where
  "podman_machine_memory_bytes now then_now listed podman_bin cache =
     (case fresh_cache_entry cache podman_bin now of
        Some entry \<Rightarrow> (snd entry, cache)
      | None \<Rightarrow>
          (let cap = measure_machine_memory listed in (cap, AList.update podman_bin (then_now, cap) cache)))"

definition available_memory_bytes :: "host \<Rightarrow> int option \<Rightarrow> measure_error + int" where
  "available_memory_bytes h machine_cap =
     (if darwin h
      then (case macos_measure (sysctl_out h) (vm_stat_out h) of
              Inl e \<Rightarrow> Inl e
            | Inr (_, available) \<Rightarrow>
                Inr (case machine_cap of None \<Rightarrow> available | Some cap \<Rightarrow> min available cap))
      else case read_meminfo (host_files h) of
             Inl e \<Rightarrow> Inl e
           | Inr meminfo \<Rightarrow>
               (case available_fraction meminfo of
                  Inl e \<Rightarrow> Inl e
                | Inr fraction \<Rightarrow>
                    (let available = \<lfloor>fraction * real_of_int (get_field meminfo ''MemTotal'')\<rfloor>
                     in case cgroup_memory_headroom (host_files h) ''/sys/fs/cgroup'' of
                          None \<Rightarrow> Inr available
                        | Some (limit, working_set) \<Rightarrow> Inr (min available (max 0 (limit - working_set))))))"


section \<open>The gates\<close>

datatype capacity_error =
    Quota_Reached nat nat
  | Host_At_Capacity int int
  | Bad_Size string

record admission_settings =
  admission_memory_enabled :: bool
  admission_memory_margin :: "string option"
  max_running_workspaces_per_user :: nat
  container_memory_limit :: "string option"

text \<open>A workspace row: its owner and the memory limit of its settings bag, when the bag has one.\<close>

record workspace_row =
  row_owner :: "string option"
  row_memory_limit :: "string option option"

type_synonym workspace_rows = "(string, workspace_row) dict"

definition max_running_per_user :: "admission_settings \<Rightarrow> nat option" where
  "max_running_per_user cfg =
     (if max_running_workspaces_per_user cfg = 0 then None else Some (max_running_workspaces_per_user cfg))"

definition margin_bytes :: "admission_settings \<Rightarrow> int" where
  "margin_bytes cfg =
     (case admission_memory_margin cfg of
        None \<Rightarrow> 0
      | Some raw \<Rightarrow> if raw = [] then 0 else case parse_size_bytes raw of None \<Rightarrow> 0 | Some n \<Rightarrow> n)"

definition resolve_memory_limit :: "admission_settings \<Rightarrow> string option option \<Rightarrow> string option" where
  "resolve_memory_limit cfg bag_limit =
     (case bag_limit of Some limit \<Rightarrow> limit | None \<Rightarrow> container_memory_limit cfg)"

definition owned_ids :: "workspace_rows \<Rightarrow> string option \<Rightarrow> string list" where
  "owned_ids rows owner =
     (case owner of None \<Rightarrow> [] | Some _ \<Rightarrow> map fst (filter (\<lambda>(_, row). row_owner row = owner) rows))"

definition committed :: "registry \<Rightarrow> string \<Rightarrow> bool" where
  "committed r ws \<longleftrightarrow> ws \<in> fst ` set (states r) \<or> workspace_operation_in_flight r ws"

definition committed_sibling_count :: "registry \<Rightarrow> string list \<Rightarrow> string \<Rightarrow> nat" where
  "committed_sibling_count r owned ws = length (filter (\<lambda>wid. wid \<noteq> ws \<and> committed r wid) owned)"

text \<open>The quota gate, with the ids the database read returned.\<close>

definition check_user_quota :: "nat option \<Rightarrow> registry \<Rightarrow> string list \<Rightarrow> string \<Rightarrow> capacity_error + unit" where
  "check_user_quota limit r owned ws =
     (case limit of
        None \<Rightarrow> Inr ()
      | Some n \<Rightarrow>
          (let running = committed_sibling_count r owned ws
           in if running \<ge> n then Inl (Quota_Reached running n) else Inr ()))"

definition sibling_limit_bytes :: "admission_settings \<Rightarrow> workspace_rows \<Rightarrow> string \<Rightarrow> int option" where
  "sibling_limit_bytes cfg rows wid =
     (case map_of rows wid of
        None \<Rightarrow> None
      | Some sibling \<Rightarrow>
          (case resolve_memory_limit cfg (row_memory_limit sibling) of
             None \<Rightarrow> None
           | Some limit \<Rightarrow> if limit = [] then None else parse_size_bytes limit))"

definition sum_sibling_limits :: "admission_settings \<Rightarrow> workspace_rows \<Rightarrow> registry \<Rightarrow> string \<Rightarrow> string list \<Rightarrow> int" where
  "sum_sibling_limits cfg rows r ws owned =
     sum_list (List.map_filter (sibling_limit_bytes cfg rows)
       (filter (\<lambda>wid. wid \<noteq> ws \<and> workspace_operation_in_flight r wid) owned))"

definition in_flight_sibling_limits :: "admission_settings \<Rightarrow> workspace_rows \<Rightarrow> registry \<Rightarrow> string \<Rightarrow> workspace_row option \<Rightarrow> int" where
  "in_flight_sibling_limits cfg rows r ws row =
     sum_sibling_limits cfg rows r ws (owned_ids rows (case row of None \<Rightarrow> None | Some w \<Rightarrow> row_owner w))"

text \<open>The fit gate. An unmeasurable host admits; \<open>available\<close> is the measurement.\<close>

definition check_host_memory ::
  "admission_settings \<Rightarrow> workspace_rows \<Rightarrow> registry \<Rightarrow> measure_error + int \<Rightarrow> string \<Rightarrow> string option option \<Rightarrow>
     workspace_row option \<Rightarrow> capacity_error + unit" where
  "check_host_memory cfg rows r available ws bag_limit row =
     (if \<not> admission_memory_enabled cfg then Inr ()
      else case resolve_memory_limit cfg bag_limit of
             None \<Rightarrow> Inr ()
           | Some limit \<Rightarrow>
               (if limit = [] then Inr ()
                else case parse_size_bytes limit of
                       None \<Rightarrow> Inl (Bad_Size limit)
                     | Some limit_bytes \<Rightarrow>
                         (case available of
                            Inl _ \<Rightarrow> Inr ()
                          | Inr bytes \<Rightarrow>
                              (let free = bytes - in_flight_sibling_limits cfg rows r ws row;
                                   needed = limit_bytes + margin_bytes cfg
                               in if free < needed then Inl (Host_At_Capacity free needed) else Inr ()))))"

text \<open>\<open>admit\<close> when nothing else runs at its awaits.\<close>

definition admit ::
  "admission_settings \<Rightarrow> workspace_rows \<Rightarrow> registry \<Rightarrow> measure_error + int \<Rightarrow> string \<Rightarrow> string option option \<Rightarrow> capacity_error + unit" where
  "admit cfg rows r available ws bag_limit =
     (case (case map_of rows ws of
              None \<Rightarrow> Inr ()
            | Some row \<Rightarrow> check_user_quota (max_running_per_user cfg) r (owned_ids rows (row_owner row)) ws) of
        Inl e \<Rightarrow> Inl e
      | Inr _ \<Rightarrow> check_host_memory cfg rows r available ws bag_limit (map_of rows ws))"


section \<open>Starts of one owner's workspaces, interleaved\<close>

text \<open>
  What \<open>start_container\<close>, \<open>stop_and_remove_container\<close> and the quota gate do to the workspaces of one owner,
  between awaits. A start holds the workspace lock; it reads the owner's ids (an await), then counts and
  decides at once; an admitted start creates the container (awaits) and then tracks it. A stop holds the
  lock while it untracks. Workspaces are created at any time. A start that finds its container running and
  tracked ends at once. Not part of it: the adoption of a running container that is not tracked, which the
  gate does not count, and the transfer of a workspace to another owner.

  The creation is shielded from cancellation: a start that is cancelled during it releases the lock while
  the creation runs on (\<open>orphaned\<close>). \<open>cancels\<close> says whether this happens.
\<close>

datatype phase = Locked | Read "string list" | Admitted | Stopping string

record quota_state =
  owned_rows :: "string list"
  reg :: registry
  phases :: "string \<Rightarrow> phase option"
  orphaned :: "string set"

abbreviation tracked_ids :: "quota_state \<Rightarrow> string set" where
  "tracked_ids q \<equiv> fst ` set (states (reg q))"

definition init_quota :: quota_state where
  "init_quota = \<lparr>owned_rows = [], reg = init_registry None, phases = (\<lambda>_. None), orphaned = {}\<rparr>"

definition take_lock :: "string \<Rightarrow> quota_state \<Rightarrow> quota_state" where
  "take_lock ws q = q\<lparr>reg := reg q\<lparr>locked := insert ws (locked (reg q))\<rparr>\<rparr>"

definition release_lock :: "string \<Rightarrow> quota_state \<Rightarrow> quota_state" where
  "release_lock ws q = q\<lparr>reg := reg q\<lparr>locked := locked (reg q) - {ws}\<rparr>, phases := (phases q)(ws := None)\<rparr>"

inductive quota_step :: "bool \<Rightarrow> nat \<Rightarrow> quota_state \<Rightarrow> quota_state \<Rightarrow> bool" for cancels limit where
  created: "ws \<notin> set (owned_rows q) \<Longrightarrow> quota_step cancels limit q (q\<lparr>owned_rows := owned_rows q @ [ws]\<rparr>)"
| start_locked: "ws \<in> set (owned_rows q) \<Longrightarrow> ws \<notin> locked (reg q) \<Longrightarrow>
    quota_step cancels limit q (take_lock ws (q\<lparr>phases := (phases q)(ws \<mapsto> Locked)\<rparr>))"
| ids_read: "phases q ws = Some Locked \<Longrightarrow> ws \<notin> tracked_ids q \<Longrightarrow>
    quota_step cancels limit q (q\<lparr>phases := (phases q)(ws \<mapsto> Read (owned_rows q))\<rparr>)"
| admitted: "phases q ws = Some (Read owned) \<Longrightarrow> check_user_quota (Some limit) (reg q) owned ws = Inr () \<Longrightarrow>
    quota_step cancels limit q (q\<lparr>phases := (phases q)(ws \<mapsto> Admitted)\<rparr>)"
| refused: "phases q ws = Some (Read owned) \<Longrightarrow> check_user_quota (Some limit) (reg q) owned ws = Inl e \<Longrightarrow>
    quota_step cancels limit q (release_lock ws q)"
| tracked: "phases q ws = Some Admitted \<Longrightarrow>
    quota_step cancels limit q (q\<lparr>reg := snd (track_activity now cid ws m (reg q))\<rparr>)"
| start_ended: "phases q ws \<in> {Some Locked, Some (Read owned), Some Admitted} \<Longrightarrow> quota_step cancels limit q (release_lock ws q)"
| stop_locked: "ws \<in> tracked_ids q \<Longrightarrow> ws \<notin> locked (reg q) \<Longrightarrow>
    quota_step cancels limit q (take_lock ws (q\<lparr>phases := (phases q)(ws \<mapsto> Stopping cid)\<rparr>))"
| stopped: "phases q ws = Some (Stopping cid) \<Longrightarrow>
    quota_step cancels limit q (release_lock ws (q\<lparr>reg := teardown_end ws cid (reg q)\<rparr>))"
| cancelled: "cancels \<Longrightarrow> phases q ws = Some Admitted \<Longrightarrow>
    quota_step cancels limit q (release_lock ws (q\<lparr>orphaned := insert ws (orphaned q)\<rparr>))"
| orphan_tracked: "ws \<in> orphaned q \<Longrightarrow>
    quota_step cancels limit q (q\<lparr>reg := snd (track_activity now cid ws m (reg q)), orphaned := orphaned q - {ws}\<rparr>)"

text \<open>
  The workspaces that have passed the gate, and the starts that are still to count but have read their ids
  before a workspace was created that has passed since.
\<close>

definition passed :: "quota_state \<Rightarrow> string set" where
  "passed q = {ws. phases q ws = Some Admitted} \<union> tracked_ids q"

definition outdated :: "quota_state \<Rightarrow> string set" where
  "outdated q = {ws. \<exists>owned. phases q ws = Some (Read owned) \<and> \<not> passed q \<subseteq> set owned}"

definition quota_inv :: "nat \<Rightarrow> quota_state \<Rightarrow> bool" where
  "quota_inv limit q \<longleftrightarrow>
     orphaned q = {} \<and> distinct (owned_rows q) \<and>
     (\<forall>ws. phases q ws \<noteq> None \<longrightarrow> ws \<in> locked (reg q) \<and> ws \<in> set (owned_rows q)) \<and>
     tracked_ids q \<subseteq> set (owned_rows q) \<and>
     (\<forall>ws owned. phases q ws = Some (Read owned) \<longrightarrow> ws \<in> set owned \<and> (\<exists>later. owned_rows q = owned @ later)) \<and>
     card (passed q \<union> outdated q) \<le> limit"

lemma quota_invD:
  assumes "quota_inv limit q"
  shows "phases q ws \<noteq> None \<Longrightarrow> ws \<in> locked (reg q)" "passed q \<union> outdated q \<subseteq> set (owned_rows q)"
    and "finite (passed q \<union> outdated q)" "card (passed q \<union> outdated q) \<le> limit"
    and "phases q ws = Some (Read owned) \<Longrightarrow> ws \<in> set owned \<and> (\<exists>later. owned_rows q = owned @ later)"
proof -
  show sub: "passed q \<union> outdated q \<subseteq> set (owned_rows q)"
    using assms by (auto simp: quota_inv_def passed_def outdated_def)
  then show "finite (passed q \<union> outdated q)" by (rule finite_subset) simp
qed (use assms in \<open>auto simp: quota_inv_def\<close>)

lemma card_shrinks:
  assumes "quota_inv limit q" "A \<subseteq> passed q \<union> outdated q"
  shows "card A \<le> limit"
  using card_mono [OF quota_invD(3) [OF assms(1)] assms(2)] quota_invD(4) [OF assms(1)] by simp

lemma prefixes_comparable:
  assumes "xs = a @ c" "xs = b @ d"
  shows "set a \<subseteq> set b \<or> set b \<subseteq> set a"
proof -
  have "a @ c = b @ d" using assms by simp
  then obtain us where "a = b @ us \<and> us @ c = d \<or> a @ us = b \<and> c = us @ d" by (auto simp: append_eq_append_conv2)
  then show ?thesis by auto
qed

text \<open>The gate's count covers everything that has passed and everything that is out of date.\<close>

lemma admitted_bound:
  assumes inv: "quota_inv limit q" and phase: "phases q ws = Some (Read owned)"
    and gate: "check_user_quota (Some limit) (reg q) owned ws = Inr ()"
  defines "q' \<equiv> q\<lparr>phases := (phases q)(ws \<mapsto> Admitted)\<rparr>"
  shows "card (passed q' \<union> outdated q') \<le> limit"
proof -
  note own = quota_invD(5) [OF inv phase]
  have passed': "passed q' = insert ws (passed q)" by (auto simp: q'_def passed_def)
  have outdated': "outdated q' \<subseteq> {w. \<exists>owned'. phases q w = Some (Read owned') \<and> \<not> insert ws (passed q) \<subseteq> set owned'}"
    unfolding outdated_def passed' by (auto simp: q'_def split: if_splits)
  have order: "set owned \<subseteq> set owned' \<or> set owned' \<subseteq> set owned" if "phases q w = Some (Read owned')" for w owned'
    using own quota_invD(5) [OF inv that] prefixes_comparable by metis
  show ?thesis
  proof (cases "passed q \<subseteq> set owned")
    case False
    have "outdated q' \<subseteq> outdated q"
    proof
      fix w assume "w \<in> outdated q'"
      then obtain owned' where w: "phases q w = Some (Read owned')" "\<not> insert ws (passed q) \<subseteq> set owned'"
        using outdated' by blast
      from order [OF w(1)] False w(2) own have "\<not> passed q \<subseteq> set owned'" by auto
      with w(1) show "w \<in> outdated q" by (auto simp: outdated_def)
    qed
    moreover have "ws \<in> outdated q" using phase False by (auto simp: outdated_def)
    ultimately show ?thesis using passed' by (intro card_shrinks [OF inv]) auto
  next
    case True
    let ?seen = "{w \<in> set owned. w \<noteq> ws \<and> committed (reg q) w}"
    have "w \<in> insert ws ?seen" if "w \<in> passed q" for w
      using that True quota_invD(1) [OF inv, of w]
      by (auto simp: passed_def committed_def workspace_operation_in_flight_def)
    moreover have "w \<in> insert ws ?seen" if w: "w \<in> outdated q'" for w
    proof -
      obtain owned' where w': "phases q w = Some (Read owned')" "\<not> insert ws (passed q) \<subseteq> set owned'"
        using w outdated' by blast
      have "\<not> set owned \<subseteq> set owned'" using w'(2) True own by auto
      with order [OF w'(1)] have "set owned' \<subseteq> set owned" by auto
      with w'(1) quota_invD(5) [OF inv w'(1)] quota_invD(1) [OF inv, of w] show ?thesis
        by (auto simp: committed_def workspace_operation_in_flight_def)
    qed
    ultimately have "passed q' \<union> outdated q' \<subseteq> insert ws ?seen" using passed' by auto
    then have "card (passed q' \<union> outdated q') \<le> card (insert ws ?seen)" by (intro card_mono) auto
    also have "\<dots> = Suc (card ?seen)" by simp
    also have "card ?seen \<le> committed_sibling_count (reg q) owned ws"
      unfolding committed_sibling_count_def set_filter [symmetric] by (rule card_length)
    also have "Suc (committed_sibling_count (reg q) owned ws) \<le> limit"
      using gate by (auto simp: check_user_quota_def Let_def split: if_splits)
    finally show ?thesis by simp
  qed
qed

lemma quota_inv_shrink:
  assumes inv: "quota_inv limit q" and "orphaned q' = {}" "distinct (owned_rows q')"
    and "\<And>ws. phases q' ws \<noteq> None \<Longrightarrow> ws \<in> locked (reg q') \<and> ws \<in> set (owned_rows q')"
    and "tracked_ids q' \<subseteq> set (owned_rows q')"
    and "\<And>ws owned. phases q' ws = Some (Read owned) \<Longrightarrow> ws \<in> set owned \<and> (\<exists>later. owned_rows q' = owned @ later)"
    and less: "passed q' \<subseteq> passed q"
    and reads: "\<And>ws owned. phases q' ws = Some (Read owned) \<Longrightarrow> phases q ws = Some (Read owned) \<or> passed q \<subseteq> set owned"
  shows "quota_inv limit q'"
proof -
  have "outdated q' \<subseteq> outdated q" using less reads by (fastforce simp: outdated_def)
  with less have "card (passed q' \<union> outdated q') \<le> limit" by (intro card_shrinks [OF inv]) auto
  with assms show ?thesis by (simp add: quota_inv_def)
qed

lemma track_states [simp]: "fst ` set (states (snd (track_activity now cid ws m r))) = insert ws (fst ` set (states r))"
  by (simp add: track_activity_def keys_dict_update split: option.splits)

lemma track_locked [simp]: "locked (snd (track_activity now cid ws m r)) = locked r"
  by (simp add: track_activity_def split: option.splits)

lemma teardown_end_parts [simp]:
  "fst ` set (states (teardown_end ws cid r)) = fst ` set (states r) - {ws}" "locked (teardown_end ws cid r) = locked r"
  by (auto simp: teardown_end_def revoke_workspace_browsers_def set_dict_delete Let_def)

lemma passed_owned: "quota_inv limit q \<Longrightarrow> passed q \<subseteq> set (owned_rows q)"
  using quota_invD(2) by blast

lemma release_lock_inv:
  assumes "quota_inv limit q" "states (reg q') = states (reg q)" "locked (reg q') = locked (reg q)"
    and "owned_rows q' = owned_rows q" "phases q' = phases q" "orphaned q' = orphaned q"
  shows "quota_inv limit (release_lock ws q')"
  by (rule quota_inv_shrink [OF assms(1)])
    (use assms in \<open>auto simp: quota_inv_def release_lock_def passed_def split: if_splits\<close>)

lemma quota_step_inv:
  assumes "quota_step False limit q q'" "quota_inv limit q"
  shows "quota_inv limit q'"
  using assms
proof cases
  case (created ws)
  show ?thesis
  proof (rule quota_inv_shrink [OF assms(2)])
    show "ws' \<in> set owned \<and> (\<exists>later. owned_rows q' = owned @ later)" if "phases q' ws' = Some (Read owned)" for ws' owned
      using quota_invD(5) [OF assms(2), of ws' owned] that created by auto
  qed (use assms(2) created in \<open>auto simp: quota_inv_def passed_def\<close>)
next
  case (start_locked ws)
  show ?thesis
    by (rule quota_inv_shrink [OF assms(2)])
      (use assms(2) start_locked in \<open>auto simp: quota_inv_def passed_def take_lock_def split: if_splits\<close>)
next
  case (ids_read ws)
  show ?thesis
    by (rule quota_inv_shrink [OF assms(2)])
      (use assms(2) ids_read passed_owned [OF assms(2)] in \<open>auto simp: quota_inv_def passed_def split: if_splits\<close>)
next
  case (admitted ws owned)
  have "card (passed q' \<union> outdated q') \<le> limit"
    unfolding admitted(1) by (rule admitted_bound [OF assms(2) admitted(2,3)])
  with assms(2) admitted show ?thesis by (auto simp: quota_inv_def split: if_splits)
next
  case (refused ws owned e)
  with assms(2) show ?thesis by (auto intro: release_lock_inv)
next
  case (tracked ws now cid m)
  show ?thesis
    by (rule quota_inv_shrink [OF assms(2)])
      (use assms(2) tracked in \<open>auto simp: quota_inv_def passed_def split: if_splits\<close>)
next
  case (start_ended ws)
  with assms(2) show ?thesis by (auto intro: release_lock_inv)
next
  case (stop_locked ws cid)
  show ?thesis
    by (rule quota_inv_shrink [OF assms(2)])
      (use assms(2) stop_locked in \<open>auto simp: quota_inv_def passed_def take_lock_def split: if_splits\<close>)
next
  case (stopped ws cid)
  show ?thesis
    by (rule quota_inv_shrink [OF assms(2)])
      (use assms(2) stopped in \<open>auto simp: quota_inv_def passed_def release_lock_def split: if_splits\<close>)
next
  case (orphan_tracked ws now cid m)
  with assms(2) show ?thesis by (simp add: quota_inv_def)
qed simp

interpretation quota_run: step_invariant "quota_step False limit" "\<lambda>q. q = init_quota" "quota_inv limit" for limit
proof
  show "quota_inv limit q" if "q = init_quota" for q
    using that by (simp add: quota_inv_def init_quota_def passed_def outdated_def init_registry_def)
qed (rule quota_step_inv)


section \<open>Properties\<close>


text \<open>A start from the lock to the gate, and what may follow it: tracking and the end, or the cancellation.\<close>

definition gate_passed :: "string \<Rightarrow> quota_state \<Rightarrow> quota_state" where
  "gate_passed ws q = (take_lock ws q)\<lparr>phases := (phases q)(ws \<mapsto> Admitted)\<rparr>"

definition start_run :: "string \<Rightarrow> string \<Rightarrow> quota_state \<Rightarrow> quota_state" where
  "start_run ws cid q =
     release_lock ws ((gate_passed ws q)\<lparr>reg := snd (track_activity 0 cid ws no_metadata (reg (gate_passed ws q)))\<rparr>)"

lemma gate_run:
  assumes "ws \<in> set (owned_rows q)" "ws \<notin> locked (reg q)" "ws \<notin> tracked_ids q"
    and "committed_sibling_count (reg q) (owned_rows q) ws < limit"
  shows "(quota_step cancels limit)\<^sup>*\<^sup>* q (gate_passed ws q)"
proof -
  let ?q1 = "take_lock ws (q\<lparr>phases := (phases q)(ws \<mapsto> Locked)\<rparr>)"
  let ?q2 = "?q1\<lparr>phases := (phases ?q1)(ws \<mapsto> Read (owned_rows ?q1))\<rparr>"
  have "quota_step cancels limit q ?q1" using assms(1,2) by (rule quota_step.start_locked)
  moreover have "quota_step cancels limit ?q1 ?q2" using assms(3) by (intro quota_step.ids_read) (simp_all add: take_lock_def)
  moreover have "committed_sibling_count (reg ?q2) (owned_rows q) ws = committed_sibling_count (reg q) (owned_rows q) ws"
    unfolding committed_sibling_count_def
    by (rule arg_cong [where f = length], rule filter_cong)
      (auto simp: committed_def take_lock_def workspace_operation_in_flight_def)
  then have "quota_step cancels limit ?q2 (?q2\<lparr>phases := (phases ?q2)(ws \<mapsto> Admitted)\<rparr>)"
    using assms(4)
    by (intro quota_step.admitted [of _ _ "owned_rows q"]) (simp_all add: take_lock_def check_user_quota_def Let_def)
  moreover have "?q2\<lparr>phases := (phases ?q2)(ws \<mapsto> Admitted)\<rparr> = gate_passed ws q" by (simp add: gate_passed_def take_lock_def)
  ultimately show ?thesis by (metis converse_rtranclp_into_rtranclp rtranclp.rtrancl_refl)
qed

lemma start_run:
  assumes "ws \<in> set (owned_rows q)" "ws \<notin> locked (reg q)" "ws \<notin> tracked_ids q"
    and "committed_sibling_count (reg q) (owned_rows q) ws < limit"
  shows "(quota_step cancels limit)\<^sup>*\<^sup>* q (start_run ws cid q)"
proof -
  let ?q = "(gate_passed ws q)\<lparr>reg := snd (track_activity 0 cid ws no_metadata (reg (gate_passed ws q)))\<rparr>"
  have "quota_step cancels limit (gate_passed ws q) ?q" by (rule quota_step.tracked) (simp add: gate_passed_def)
  moreover have "quota_step cancels limit ?q (start_run ws cid q)"
    unfolding start_run_def by (rule quota_step.start_ended) (simp add: gate_passed_def)
  ultimately show ?thesis using gate_run [OF assms] by (meson rtranclp.rtrancl_into_rtrancl)
qed

definition two_workspaces :: quota_state where
  "two_workspaces = init_quota\<lparr>owned_rows := [''a'', ''b'']\<rparr>"

lemma two_workspaces: "(quota_step cancels limit)\<^sup>*\<^sup>* init_quota two_workspaces"
proof -
  have "quota_step cancels limit init_quota (init_quota\<lparr>owned_rows := owned_rows init_quota @ [''a'']\<rparr>)"
    by (rule quota_step.created) (simp add: init_quota_def)
  moreover have "quota_step cancels limit (init_quota\<lparr>owned_rows := [''a'']\<rparr>) two_workspaces"
    using quota_step.created [of "''b''" "init_quota\<lparr>owned_rows := [''a'']\<rparr>" cancels limit] by (simp add: two_workspaces_def)
  ultimately show ?thesis by (simp add: init_quota_def)
qed

lemmas quota_eval = two_workspaces_def init_quota_def init_registry_def committed_sibling_count_def committed_def
  workspace_operation_in_flight_def start_run_def gate_passed_def take_lock_def release_lock_def


text \<open>
  A cancelled start escapes the quota. With a limit of one, the start of \<open>a\<close> is admitted and cancelled while
  its container is being created; it releases the lock, so the start of \<open>b\<close> counts nothing and is admitted;
  then the shielded creation of \<open>a\<close> ends, and both run.
\<close>

theorem cancelled_start_escapes_quota:
  "\<exists>q. (quota_step True 1)\<^sup>*\<^sup>* init_quota q \<and> tracked_ids q = {''a'', ''b''}"
proof -
  define q1 where "q1 = gate_passed ''a'' two_workspaces"
  define q2 where "q2 = release_lock ''a'' (q1\<lparr>orphaned := insert ''a'' (orphaned q1)\<rparr>)"
  define q3 where "q3 = start_run ''b'' ''c2'' q2"
  define q4 where "q4 = q3\<lparr>reg := snd (track_activity 0 ''c1'' ''a'' no_metadata (reg q3)), orphaned := orphaned q3 - {''a''}\<rparr>"
  have s1: "(quota_step True 1)\<^sup>*\<^sup>* two_workspaces q1" unfolding q1_def by (rule gate_run) (simp_all add: quota_eval)
  have s2: "quota_step True 1 q1 q2" unfolding q2_def by (rule quota_step.cancelled) (simp_all add: q1_def gate_passed_def)
  have q2: "owned_rows q2 = [''a'', ''b'']" "locked (reg q2) = {}" "states (reg q2) = []" "orphaned q2 = {''a''}"
    by (simp_all add: q2_def q1_def quota_eval)
  have s3: "(quota_step True 1)\<^sup>*\<^sup>* q2 q3"
    unfolding q3_def by (rule start_run)
      (simp_all add: q2 committed_sibling_count_def committed_def workspace_operation_in_flight_def)
  have q3: "tracked_ids q3 = {''b''}" "orphaned q3 = {''a''}"
    by (simp_all add: q3_def start_run_def gate_passed_def take_lock_def release_lock_def q2)
  have s4: "quota_step True 1 q3 q4" unfolding q4_def by (rule quota_step.orphan_tracked) (simp add: q3)
  have "(quota_step True 1)\<^sup>*\<^sup>* init_quota q4"
    using two_workspaces s1 s2 s3 s4 by (meson rtranclp_trans rtranclp.rtrancl_into_rtrancl)
  moreover have "tracked_ids q4 = {''a'', ''b''}" by (simp add: q4_def q3)
  ultimately show ?thesis by blast
qed

text \<open>
  The fit gate sees only the owner's own starts. Two owners start at once on a host with 5 GiB free; each
  wants 4 GiB; neither start is subtracted from what the other measures, and both are admitted.
\<close>

theorem fit_misses_other_owners:
  defines "cfg \<equiv> \<lparr>admission_memory_enabled = True, admission_memory_margin = None,
      max_running_workspaces_per_user = 0, container_memory_limit = Some ''4g''\<rparr>"
    and "rows \<equiv> [(''a'', \<lparr>row_owner = Some ''alice'', row_memory_limit = None\<rparr>),
        (''b'', \<lparr>row_owner = Some ''bob'', row_memory_limit = None\<rparr>)]"
    and "r \<equiv> (init_registry None)\<lparr>locked := {''a'', ''b''}\<rparr>"
  shows "admit cfg rows r (Inr (5 * 1024 ^ 3)) ''a'' None = Inr () \<and> admit cfg rows r (Inr (5 * 1024 ^ 3)) ''b'' None = Inr ()"
  by (simp add: admit_def cfg_def rows_def r_def check_user_quota_def max_running_per_user_def check_host_memory_def
      resolve_memory_limit_def parse_size_bytes_def unit_bytes_def lower_char_def strip_def isspace_char_def startswith_def
      ascii_digit_def int_of_digits_def in_flight_sibling_limits_def sum_sibling_limits_def owned_ids_def margin_bytes_def
      map_filter_simps Let_def)

end
