(* ===== verification/Crash_Recovery.thy ===== *)
theory Crash_Recovery
  imports Container_Registry
begin

text \<open>
  \<open>klangk/container/crash.py\<close>: the classification of a death, the bookkeeping of restarts, and the race the
  module is written around - a monitor that restarts a dead container while users start and stop the same
  workspace. Everything the monitor and the registry keep is per workspace, so the model has the part of one
  workspace and the coroutines that work on it; an event is what a coroutine does between two awaits. The
  retry budget is the one of the whole run, a failed listing is a listing that finds the container alive, and
  the teardown the FIPS check makes inside a start is left out.
\<close>

section \<open>Classifying a death\<close>

text \<open>The two fields of \<open>podman inspect\<close> that are read.\<close>

record inspected =
  oom_killed :: bool
  exit_code :: "int option"

definition SIGNAL_NAMES :: "int \<Rightarrow> string option" where
  "SIGNAL_NAMES = map_of
     [(1, ''SIGHUP''), (2, ''SIGINT''), (3, ''SIGQUIT''), (6, ''SIGABRT''), (9, ''SIGKILL''), (11, ''SIGSEGV''),
      (13, ''SIGPIPE''), (15, ''SIGTERM'')]"

definition DEAD_STATES :: "string set" where
  "DEAD_STATES = {''exited'', ''stopped'', ''dead''}"

definition str_code :: "int option \<Rightarrow> string" where
  "str_code code = (case code of None \<Rightarrow> ''None'' | Some n \<Rightarrow> str_int n)"

definition oom_death :: "string option \<Rightarrow> int option \<Rightarrow> string \<times> string" where
  "oom_death memory_limit code =
     (''oom'',
      if (case memory_limit of None \<Rightarrow> True | Some l \<Rightarrow> l = []) then ''OOM-killed (exit code '' @ str_code code @ '')''
      else ''OOM-killed at '' @ the memory_limit @ '' memory limit (exit code '' @ str_code code @ '')'')"

definition signal_death :: "int \<Rightarrow> (string \<times> string) option" where
  "signal_death code =
     (if code \<le> 128 then None
      else case SIGNAL_NAMES (code - 128) of
             None \<Rightarrow> None
           | Some name \<Rightarrow> Some (''exited'', ''killed by '' @ name @ '' (exit code '' @ str_int code @ '')''))"

definition exit_death :: "int option \<Rightarrow> string \<times> string" where
  "exit_death code =
     (case code of
        None \<Rightarrow> (''exited'', ''main process exited (no exit code recorded)'')
      | Some n \<Rightarrow>
          (if n = 0 then (''exited'', ''main process exited cleanly (code 0)'')
           else case signal_death n of
                  Some d \<Rightarrow> d
                | None \<Rightarrow> (''exited'', ''main process exited with code '' @ str_int n)))"

definition classify_death :: "inspected option \<Rightarrow> string option \<Rightarrow> string \<times> string" where
  "classify_death info memory_limit =
     (case info of
        None \<Rightarrow> (''removed'', ''container removed externally (not found)'')
      | Some st \<Rightarrow> if oom_killed st then oom_death memory_limit (exit_code st) else exit_death (exit_code st))"


section \<open>The bookkeeping of one workspace\<close>

record tracker =
  attempts :: nat
  last_cause :: "string option"
  last_started_at :: "real option"
  next_attempt_at :: "real option"
  gave_up_at :: "real option"

definition new_tracker :: tracker where
  "new_tracker = \<lparr>attempts = 0, last_cause = None, last_started_at = None, next_attempt_at = None, gave_up_at = None\<rparr>"

definition tracker_phase :: "tracker \<Rightarrow> string" where
  "tracker_phase t =
     (if gave_up_at t \<noteq> None then ''crash-loop''
      else if next_attempt_at t \<noteq> None then ''backing-off''
      else if last_started_at t \<noteq> None then ''recovering''
      else ''dead'')"

definition RESTART_RESET_WINDOW :: real where "RESTART_RESET_WINDOW = 600"

definition RESTART_BACKOFF_CAP :: real where "RESTART_BACKOFF_CAP = 60"

record crash_settings =
  max_retries :: nat
  backoff_base :: real

definition backoff_delay :: "crash_settings \<Rightarrow> nat \<Rightarrow> real" where
  "backoff_delay cfg attempt = min (backoff_base cfg * 2 ^ (attempt - 1)) RESTART_BACKOFF_CAP"

text \<open>
  \<open>bound\<close> is the state object in \<open>registry.states\<close>, \<open>cid_of\<close> the container of a state object (a rebind
  changes it in place), \<open>tracker_ref\<close> the object in \<open>trackers\<close>; \<open>pending_task\<close> and \<open>cancelled\<close> are the
  restart tasks. The coroutines: the stops in flight (\<open>stops\<close>), the sweep's handling of this workspace
  (\<open>sweep\<close>), the restart tasks with their tracker (\<open>tasks\<close>), the creations that outlive a cancelled
  restart (\<open>orphans\<close>); \<open>lock\<close> is the start that holds the workspace lock. \<open>expected_stop\<close> and \<open>unwanted\<close>
  are only for the statement: the first is set when an expected stop begins that is aimed at the current
  container, or finds none, and is reset when a user's start brings up a container; the second records
  that a container was brought up by the monitor while the first was set.
\<close>

datatype stop_kind = Expected | Crash_Teardown

datatype stop_phase = Removing stop_kind nat | Torn_Down stop_kind

datatype sweep_phase =
    Sweep_Idle
  | Listing nat nat nat
  | Inspecting nat nat
  | Limit_Read nat nat nat
  | Notifying nat nat nat
  | Tearing_Down nat nat nat nat

datatype task_phase = Fresh_Task | Sleeping | Looking_Up | Waiting | Creating | Running

datatype lock_owner = User_Start | Restart nat

record cell =
  bound :: "nat option"
  cid_of :: "nat \<Rightarrow> nat"
  in_stopping :: bool
  epoch :: nat
  tracker_ref :: "nat option"
  heap :: "nat \<Rightarrow> tracker"
  pending_task :: "nat option"
  cancelled :: "nat set"
  next_id :: nat
  stops :: "(nat, stop_phase) dict"
  sweep :: sweep_phase
  tasks :: "(nat, nat \<times> task_phase) dict"
  orphans :: nat
  lock :: "lock_owner option"
  expected_stop :: bool
  unwanted :: bool

definition init_cell :: cell where
  "init_cell =
     \<lparr>bound = None, cid_of = (\<lambda>_. 0), in_stopping = False, epoch = 0, tracker_ref = None, heap = (\<lambda>_. new_tracker),
      pending_task = None, cancelled = {}, next_id = 0, stops = [], sweep = Sweep_Idle, tasks = [], orphans = 0,
      lock = None, expected_stop = False, unwanted = False\<rparr>"

definition clear :: "cell \<Rightarrow> cell" where
  "clear c =
     c\<lparr>pending_task := None, cancelled := cancelled c \<union> set_option (pending_task c), tracker_ref := None\<rparr>"

definition on_start :: "nat option \<Rightarrow> cell \<Rightarrow> cell" where
  "on_start current_task c =
     (if pending_task c \<noteq> None \<and> pending_task c = current_task then c else clear c)"

definition on_expected_stop :: "cell \<Rightarrow> cell" where
  "on_expected_stop c = clear c"

definition begin_stop :: "cell \<Rightarrow> cell" where
  "begin_stop c = on_expected_stop (c\<lparr>in_stopping := True, epoch := Suc (epoch c)\<rparr>)"

definition end_stop :: "nat \<Rightarrow> cell \<Rightarrow> cell" where
  "end_stop k c = on_expected_stop (c\<lparr>in_stopping := False, stops := AList.delete k (stops c)\<rparr>)"

text \<open>The state of a workspace is bound to a container: the object is kept if there is one.\<close>

definition bind_container :: "nat \<Rightarrow> cell \<Rightarrow> cell" where
  "bind_container cid c =
     (case bound c of
        Some ob \<Rightarrow> c\<lparr>cid_of := (cid_of c)(ob := cid)\<rparr>
      | None \<Rightarrow> c\<lparr>bound := Some (next_id c), cid_of := (cid_of c)(next_id c := cid), next_id := Suc (next_id c)\<rparr>)"

definition bound_to :: "nat \<Rightarrow> cell \<Rightarrow> bool" where
  "bound_to cid c \<longleftrightarrow> (case bound c of None \<Rightarrow> False | Some ob \<Rightarrow> cid_of c ob = cid)"

definition upd_tracker :: "nat \<Rightarrow> (tracker \<Rightarrow> tracker) \<Rightarrow> cell \<Rightarrow> cell" where
  "upd_tracker tr f c = c\<lparr>heap := (heap c)(tr := f (heap c tr))\<rparr>"

definition maybe_reset_tracker :: "real \<Rightarrow> cell \<Rightarrow> cell" where
  "maybe_reset_tracker now c =
     (case tracker_ref c of
        None \<Rightarrow> c
      | Some tr \<Rightarrow>
          (case last_started_at (heap c tr) of
             None \<Rightarrow> c
           | Some t \<Rightarrow> if now - t \<ge> RESTART_RESET_WINDOW then c\<lparr>tracker_ref := None\<rparr> else c))"

definition snapshot_still_current :: "cell \<Rightarrow> nat \<Rightarrow> nat \<Rightarrow> nat \<Rightarrow> bool" where
  "snapshot_still_current c state cid ep \<longleftrightarrow>
     bound c = Some state \<and> cid_of c state = cid \<and> \<not> in_stopping c \<and> epoch c = ep"

definition liveness_alive :: "string option \<Rightarrow> bool" where
  "liveness_alive observed \<longleftrightarrow> (case observed of None \<Rightarrow> False | Some s \<Rightarrow> s \<notin> DEAD_STATES)"

definition death_guards_pass :: "cell \<Rightarrow> nat option \<Rightarrow> nat \<Rightarrow> nat \<Rightarrow> bool" where
  "death_guards_pass c state cid ep \<longleftrightarrow>
     (case state of None \<Rightarrow> False | Some ob \<Rightarrow> cid_of c ob = cid) \<and> \<not> in_stopping c \<and> epoch c = ep"

definition user_action_interleaved :: "cell \<Rightarrow> nat \<Rightarrow> bool" where
  "user_action_interleaved c ep \<longleftrightarrow> epoch c > ep + 1 \<or> bound c \<noteq> None"

definition schedule_restart :: "crash_settings \<Rightarrow> real \<Rightarrow> nat \<Rightarrow> cell \<Rightarrow> cell" where
  "schedule_restart cfg now tr c =
     (let c = upd_tracker tr (\<lambda>t. t\<lparr>next_attempt_at := Some (now + backoff_delay cfg (attempts t + 1))\<rparr>) c
      in c\<lparr>tracker_ref := Some tr, tasks := (next_id c, tr, Fresh_Task) # tasks c,
           pending_task := Some (next_id c), next_id := Suc (next_id c)\<rparr>)"

definition finalize_death :: "crash_settings \<Rightarrow> real \<Rightarrow> bool \<Rightarrow> nat \<Rightarrow> nat \<Rightarrow> cell \<Rightarrow> cell" where
  "finalize_death cfg now enabled ep tr c =
     (if user_action_interleaved c ep then c\<lparr>tracker_ref := None\<rparr>
      else if \<not> enabled then c\<lparr>tracker_ref := Some tr\<rparr>
      else if attempts (heap c tr) \<ge> max_retries cfg
      then (upd_tracker tr (\<lambda>t. t\<lparr>gave_up_at := Some now\<rparr>) c)\<lparr>tracker_ref := Some tr\<rparr>
      else schedule_restart cfg now tr c)"


section \<open>The coroutines\<close>

text \<open>
  The sweep and \<open>handle_death\<close>. \<open>overlap\<close> says whether a snapshot may be taken while a stop is in flight
  whose marker another stop has removed: \<open>stopping\<close> is a set, and the first stop to end removes the
  workspace from it.
\<close>

record races =
  overlap :: bool
  shield :: bool

definition take_snapshot :: "races \<Rightarrow> cell \<Rightarrow> cell option" where
  "take_snapshot rc c =
     (case (sweep c, bound c) of
        (Sweep_Idle, Some ob) \<Rightarrow>
          (if in_stopping c \<or> pending_task c \<noteq> None \<or> (\<not> overlap rc \<and> stops c \<noteq> []) then None
           else Some (c\<lparr>sweep := Listing ob (cid_of c ob) (epoch c)\<rparr>))
      | _ \<Rightarrow> None)"

definition sweep_one :: "real \<Rightarrow> string option \<Rightarrow> cell \<Rightarrow> cell option" where
  "sweep_one now observed c =
     (case sweep c of
        Listing ob cid ep \<Rightarrow>
          Some (if \<not> snapshot_still_current c ob cid ep then c\<lparr>sweep := Sweep_Idle\<rparr>
                else if liveness_alive observed then (maybe_reset_tracker now c)\<lparr>sweep := Sweep_Idle\<rparr>
                else c\<lparr>sweep := Inspecting cid ep\<rparr>)
      | _ \<Rightarrow> None)"

definition enter_handle_death :: "bool \<Rightarrow> cell \<Rightarrow> cell option" where
  "enter_handle_death inspect_ok c =
     (case sweep c of
        Inspecting cid ep \<Rightarrow>
          Some (case bound c of
                  Some ob \<Rightarrow>
                    (if inspect_ok \<and> death_guards_pass c (Some ob) cid ep then c\<lparr>sweep := Limit_Read ob cid ep\<rparr>
                     else c\<lparr>sweep := Sweep_Idle\<rparr>)
                | None \<Rightarrow> c\<lparr>sweep := Sweep_Idle\<rparr>)
      | _ \<Rightarrow> None)"

definition record_death :: "string \<Rightarrow> cell \<Rightarrow> cell option" where
  "record_death message c =
     (case sweep c of
        Limit_Read ob cid ep \<Rightarrow>
          Some (if \<not> death_guards_pass c (Some ob) cid ep then c\<lparr>sweep := Sweep_Idle\<rparr>
                else
                  (let (tr, c) = (case tracker_ref c of
                                    Some tr \<Rightarrow> (tr, c)
                                  | None \<Rightarrow> (next_id c, c\<lparr>heap := (heap c)(next_id c := new_tracker), next_id := Suc (next_id c)\<rparr>))
                   in (upd_tracker tr (\<lambda>t. t\<lparr>last_cause := Some message, next_attempt_at := None, last_started_at := None\<rparr>) c)
                        \<lparr>sweep := Notifying cid ep tr\<rparr>))
      | _ \<Rightarrow> None)"

definition begin_teardown :: "nat \<Rightarrow> cell \<Rightarrow> cell option" where
  "begin_teardown k c =
     (case sweep c of
        Notifying cid ep tr \<Rightarrow>
          (if k \<in> fst ` set (stops c) then None
           else Some ((begin_stop c)\<lparr>stops := (k, Removing Crash_Teardown cid) # stops c, sweep := Tearing_Down cid ep tr k\<rparr>))
      | _ \<Rightarrow> None)"

definition finish_death :: "crash_settings \<Rightarrow> real \<Rightarrow> bool \<Rightarrow> cell \<Rightarrow> cell option" where
  "finish_death cfg now enabled c =
     (case sweep c of
        Tearing_Down cid ep tr k \<Rightarrow>
          (if map_of (stops c) k = Some (Torn_Down Crash_Teardown)
           then Some ((finalize_death cfg now enabled ep tr (end_stop k c))\<lparr>sweep := Sweep_Idle\<rparr>)
           else None)
      | _ \<Rightarrow> None)"

text \<open>Expected stops, and the teardown all stops share; it runs under the workspace lock.\<close>

definition stop_entry :: "nat \<Rightarrow> nat \<Rightarrow> cell \<Rightarrow> cell option" where
  "stop_entry k cid c =
     (if k \<in> fst ` set (stops c) then None
      else Some ((begin_stop c)\<lparr>stops := (k, Removing Expected cid) # stops c,
                   expected_stop := (expected_stop c \<or> bound c = None \<or> bound_to cid c)\<rparr>))"

definition stop_teardown :: "nat \<Rightarrow> cell \<Rightarrow> cell option" where
  "stop_teardown k c =
     (case map_of (stops c) k of
        Some (Removing kind cid) \<Rightarrow>
          (if lock c \<noteq> None then None
           else Some (c\<lparr>bound := (if bound_to cid c then None else bound c),
                        stops := AList.update k (Torn_Down kind) (stops c)\<rparr>))
      | _ \<Rightarrow> None)"

definition stop_exit :: "nat \<Rightarrow> cell \<Rightarrow> cell option" where
  "stop_exit k c = (if map_of (stops c) k = Some (Torn_Down Expected) then Some (end_stop k c) else None)"

definition drop_state :: "nat \<Rightarrow> cell \<Rightarrow> cell option" where
  "drop_state cid c = (if lock c = None \<and> bound_to cid c then Some (c\<lparr>bound := None\<rparr>) else None)"

text \<open>A user's start, from taking the lock to releasing it.\<close>

definition start_entry :: "cell \<Rightarrow> cell option" where
  "start_entry c = (if lock c = None then Some (on_start None (c\<lparr>lock := Some User_Start\<rparr>)) else None)"

definition start_bind :: "nat \<Rightarrow> cell \<Rightarrow> cell option" where
  "start_bind cid c =
     (if lock c = Some User_Start then Some ((bind_container cid c)\<lparr>expected_stop := False\<rparr>) else None)"

definition start_exit :: "cell \<Rightarrow> cell option" where
  "start_exit c = (if lock c = Some User_Start then Some (c\<lparr>lock := None\<rparr>) else None)"

text \<open>
  The restart task. A cancelled task runs no more of its code; \<open>shield\<close> says whether the creation of the
  container goes on when the task is cancelled during it.
\<close>

definition live_phase :: "nat \<Rightarrow> cell \<Rightarrow> (nat \<times> task_phase) option" where
  "live_phase t c = (if t \<in> cancelled c then None else map_of (tasks c) t)"

definition set_phase :: "nat \<Rightarrow> nat \<Rightarrow> task_phase \<Rightarrow> cell \<Rightarrow> cell" where
  "set_phase t tr ph c = c\<lparr>tasks := AList.update t (tr, ph) (tasks c)\<rparr>"

definition end_task :: "nat \<Rightarrow> cell \<Rightarrow> cell" where
  "end_task t c =
     c\<lparr>tasks := AList.delete t (tasks c), pending_task := (if pending_task c = Some t then None else pending_task c),
       lock := (if lock c = Some (Restart t) then None else lock c)\<rparr>"

definition task_begin :: "crash_settings \<Rightarrow> real \<Rightarrow> nat \<Rightarrow> cell \<Rightarrow> cell option" where
  "task_begin cfg now t c =
     (case live_phase t c of
        Some (tr, Fresh_Task) \<Rightarrow>
          Some (set_phase t tr Sleeping
                 (upd_tracker tr (\<lambda>k. k\<lparr>attempts := attempts k + 1, next_attempt_at := Some (now + backoff_delay cfg (attempts k + 1))\<rparr>) c))
      | _ \<Rightarrow> None)"

definition restart_abort :: "bool \<Rightarrow> bool \<Rightarrow> nat \<Rightarrow> cell \<Rightarrow> bool \<times> cell" where
  "restart_abort enabled drains tr c =
     (if tracker_ref c \<noteq> Some tr then (True, c)
      else if \<not> enabled \<or> drains then (True, upd_tracker tr (\<lambda>k. k\<lparr>next_attempt_at := None\<rparr>) c)
      else (False, c))"

definition task_wake :: "bool \<Rightarrow> bool \<Rightarrow> nat \<Rightarrow> cell \<Rightarrow> cell option" where
  "task_wake enabled drains t c =
     (case live_phase t c of
        Some (tr, Sleeping) \<Rightarrow>
          Some (case restart_abort enabled drains tr c of
                  (True, c) \<Rightarrow> end_task t c
                | (False, c) \<Rightarrow> set_phase t tr Looking_Up c)
      | _ \<Rightarrow> None)"

definition task_row :: "bool \<Rightarrow> nat \<Rightarrow> cell \<Rightarrow> cell option" where
  "task_row exists t c =
     (case live_phase t c of
        Some (tr, Looking_Up) \<Rightarrow>
          Some (if exists then set_phase t tr Waiting c else end_task t (c\<lparr>tracker_ref := None\<rparr>))
      | _ \<Rightarrow> None)"

definition task_lock :: "nat \<Rightarrow> cell \<Rightarrow> cell option" where
  "task_lock t c =
     (case live_phase t c of
        Some (tr, Waiting) \<Rightarrow>
          (if lock c \<noteq> None then None
           else Some (set_phase t tr Creating (on_start (Some t) (c\<lparr>lock := Some (Restart t)\<rparr>))))
      | _ \<Rightarrow> None)"

definition monitor_bind :: "nat \<Rightarrow> cell \<Rightarrow> cell" where
  "monitor_bind cid c = (bind_container cid c)\<lparr>unwanted := (unwanted c \<or> expected_stop c)\<rparr>"

definition task_bind :: "nat \<Rightarrow> nat \<Rightarrow> cell \<Rightarrow> cell option" where
  "task_bind cid t c =
     (case live_phase t c of
        Some (tr, Creating) \<Rightarrow> Some (set_phase t tr Running (monitor_bind cid c))
      | _ \<Rightarrow> None)"

definition task_done :: "real \<Rightarrow> nat \<Rightarrow> cell \<Rightarrow> cell option" where
  "task_done now t c =
     (case live_phase t c of
        Some (tr, Running) \<Rightarrow>
          Some (end_task t (upd_tracker tr (\<lambda>k. k\<lparr>last_started_at := Some now, next_attempt_at := None\<rparr>) c))
      | _ \<Rightarrow> None)"

definition on_restart_failure :: "crash_settings \<Rightarrow> real \<Rightarrow> nat \<Rightarrow> nat \<Rightarrow> cell \<Rightarrow> cell" where
  "on_restart_failure cfg now t tr c =
     (let c = c\<lparr>lock := (if lock c = Some (Restart t) then None else lock c)\<rparr>
      in if attempts (heap c tr) < max_retries cfg then set_phase t tr Fresh_Task c
         else end_task t (upd_tracker tr (\<lambda>k. k\<lparr>gave_up_at := Some now, next_attempt_at := None\<rparr>) c))"

definition task_fail :: "crash_settings \<Rightarrow> real \<Rightarrow> nat \<Rightarrow> cell \<Rightarrow> cell option" where
  "task_fail cfg now t c =
     (case live_phase t c of
        Some (tr, ph) \<Rightarrow> if ph \<in> {Waiting, Creating, Running} then Some (on_restart_failure cfg now t tr c) else None
      | None \<Rightarrow> None)"

definition task_cancelled :: "races \<Rightarrow> nat \<Rightarrow> cell \<Rightarrow> cell option" where
  "task_cancelled rc t c =
     (case map_of (tasks c) t of
        Some (tr, ph) \<Rightarrow>
          (if t \<in> cancelled c
           then Some ((end_task t c)\<lparr>orphans := (if ph = Creating \<and> shield rc then Suc (orphans c) else orphans c)\<rparr>)
           else None)
      | None \<Rightarrow> None)"

definition orphan_bind :: "nat \<Rightarrow> cell \<Rightarrow> cell option" where
  "orphan_bind cid c = (if orphans c > 0 then Some ((monitor_bind cid c)\<lparr>orphans := orphans c - 1\<rparr>) else None)"

definition monitor_stop :: "cell \<Rightarrow> cell option" where
  "monitor_stop c =
     Some (case pending_task c of
             None \<Rightarrow> c
           | Some t \<Rightarrow>
               (case tracker_ref c of None \<Rightarrow> c | Some tr \<Rightarrow> upd_tracker tr (\<lambda>k. k\<lparr>next_attempt_at := None\<rparr>) c)
                 \<lparr>pending_task := None, cancelled := insert t (cancelled c)\<rparr>)"


section \<open>Runs\<close>

datatype event =
    Take_Snapshot
  | Sweep_One real "string option"
  | Enter_Handle_Death bool
  | Record_Death string
  | Begin_Teardown nat
  | Finish_Death real bool
  | Stop_Entry nat nat
  | Stop_Teardown nat
  | Stop_Exit nat
  | Drop_State nat
  | Start_Entry
  | Start_Bind nat
  | Start_Exit
  | Task_Begin real nat
  | Task_Wake bool bool nat
  | Task_Row bool nat
  | Task_Lock nat
  | Task_Bind nat nat
  | Task_Done real nat
  | Task_Fail real nat
  | Task_Cancelled nat
  | Orphan_Bind nat
  | Monitor_Stop

fun exec :: "crash_settings \<Rightarrow> races \<Rightarrow> event \<Rightarrow> cell \<Rightarrow> cell option" where
  "exec cfg rc Take_Snapshot c = take_snapshot rc c"
| "exec cfg rc (Sweep_One now observed) c = sweep_one now observed c"
| "exec cfg rc (Enter_Handle_Death ok) c = enter_handle_death ok c"
| "exec cfg rc (Record_Death message) c = record_death message c"
| "exec cfg rc (Begin_Teardown k) c = begin_teardown k c"
| "exec cfg rc (Finish_Death now enabled) c = finish_death cfg now enabled c"
| "exec cfg rc (Stop_Entry k cid) c = stop_entry k cid c"
| "exec cfg rc (Stop_Teardown k) c = stop_teardown k c"
| "exec cfg rc (Stop_Exit k) c = stop_exit k c"
| "exec cfg rc (Drop_State cid) c = drop_state cid c"
| "exec cfg rc Start_Entry c = start_entry c"
| "exec cfg rc (Start_Bind cid) c = start_bind cid c"
| "exec cfg rc Start_Exit c = start_exit c"
| "exec cfg rc (Task_Begin now t) c = task_begin cfg now t c"
| "exec cfg rc (Task_Wake enabled drains t) c = task_wake enabled drains t c"
| "exec cfg rc (Task_Row exists t) c = task_row exists t c"
| "exec cfg rc (Task_Lock t) c = task_lock t c"
| "exec cfg rc (Task_Bind cid t) c = task_bind cid t c"
| "exec cfg rc (Task_Done now t) c = task_done now t c"
| "exec cfg rc (Task_Fail now t) c = task_fail cfg now t c"
| "exec cfg rc (Task_Cancelled t) c = task_cancelled rc t c"
| "exec cfg rc (Orphan_Bind cid) c = orphan_bind cid c"
| "exec cfg rc Monitor_Stop c = monitor_stop c"

inductive crash_step :: "crash_settings \<Rightarrow> races \<Rightarrow> cell \<Rightarrow> cell \<Rightarrow> bool" for cfg rc where
  event: "exec cfg rc ev c = Some c' \<Longrightarrow> crash_step cfg rc c c'"

text \<open>The run of a list of events.\<close>

fun run_events :: "crash_settings \<Rightarrow> races \<Rightarrow> event list \<Rightarrow> cell \<Rightarrow> cell option" where
  "run_events cfg rc [] c = Some c"
| "run_events cfg rc (ev # evs) c =
     (case exec cfg rc ev c of None \<Rightarrow> None | Some c \<Rightarrow> run_events cfg rc evs c)"

lemma run_events_steps: "run_events cfg rc evs c = Some c' \<Longrightarrow> (crash_step cfg rc)\<^sup>*\<^sup>* c c'"
  by (induction evs arbitrary: c)
    (auto split: option.splits intro: converse_rtranclp_into_rtranclp crash_step.event)

text \<open>The settings of the two traces below.\<close>

definition example_crash_settings :: crash_settings where
  "example_crash_settings = \<lparr>max_retries = 5, backoff_base = 5\<rparr>"

lemmas crash_eval = take_snapshot_def sweep_one_def enter_handle_death_def record_death_def begin_teardown_def
  finish_death_def stop_entry_def stop_teardown_def stop_exit_def drop_state_def start_entry_def start_bind_def
  start_exit_def task_begin_def task_wake_def task_row_def task_lock_def task_bind_def task_done_def task_fail_def
  task_cancelled_def orphan_bind_def monitor_stop_def on_start_def clear_def on_expected_stop_def begin_stop_def
  end_stop_def bind_container_def bound_to_def upd_tracker_def snapshot_still_current_def liveness_alive_def
  DEAD_STATES_def death_guards_pass_def user_action_interleaved_def schedule_restart_def finalize_death_def
  live_phase_def set_phase_def end_task_def restart_abort_def monitor_bind_def on_restart_failure_def
  init_cell_def new_tracker_def maybe_reset_tracker_def

text \<open>
  The marker is a set. A stop aimed at an old container and a stop of the current one overlap; the first ends
  and removes the marker; a sweep then finds the half-stopped container dead, and the second check of
  \<open>handle_death\<close> looks at the state object it has, not at the registry: after the stop has ended the
  workspace is restarted.
\<close>

theorem overlapping_stops_restart:
  "\<exists>c. (crash_step example_crash_settings \<lparr>overlap = True, shield = False\<rparr>)\<^sup>*\<^sup>* init_cell c \<and> unwanted c \<and> stops c = []"
proof -
  have "\<exists>c. run_events example_crash_settings \<lparr>overlap = True, shield = False\<rparr>
     [Start_Entry, Start_Bind 1, Start_Exit, Stop_Entry 10 9, Stop_Entry 11 1, Stop_Teardown 10, Stop_Exit 10,
      Take_Snapshot, Sweep_One 0 (Some ''exited''), Enter_Handle_Death True, Stop_Teardown 11, Stop_Exit 11,
      Record_Death ''died'', Begin_Teardown 12, Stop_Teardown 12, Finish_Death 0 True, Task_Begin 0 2,
      Task_Wake True False 2, Task_Row True 2, Task_Lock 2, Task_Bind 5 2] init_cell = Some c \<and> unwanted c \<and> stops c = []"
    by (simp add: crash_eval example_crash_settings_def)
  then show ?thesis by (blast intro: run_events_steps)
qed

text \<open>
  The creation is shielded. A stop that begins while the restart task is creating the container cancels the
  task, but the creation goes on and brings the workspace up after the stop has ended.
\<close>

theorem shielded_creation_restarts:
  "\<exists>c. (crash_step example_crash_settings \<lparr>overlap = False, shield = True\<rparr>)\<^sup>*\<^sup>* init_cell c \<and> unwanted c \<and> stops c = []"
proof -
  have "\<exists>c. run_events example_crash_settings \<lparr>overlap = False, shield = True\<rparr>
     [Start_Entry, Start_Bind 1, Start_Exit, Take_Snapshot, Sweep_One 0 None, Enter_Handle_Death True,
      Record_Death ''died'', Begin_Teardown 10, Stop_Teardown 10, Finish_Death 0 True, Task_Begin 0 2,
      Task_Wake True False 2, Task_Row True 2, Task_Lock 2, Stop_Entry 11 1, Task_Cancelled 2, Stop_Teardown 11,
      Stop_Exit 11, Orphan_Bind 5] init_cell = Some c \<and> unwanted c \<and> stops c = []"
    by (simp add: crash_eval example_crash_settings_def)
  then show ?thesis by (blast intro: run_events_steps)
qed

section \<open>Invariants\<close>

text \<open>
  A restart task that has not been cancelled is the pending one, there is none while the sweep handles this
  workspace, and the attempts stay within the budget.
\<close>

definition live :: "nat \<Rightarrow> cell \<Rightarrow> bool" where
  "live t c \<longleftrightarrow> live_phase t c \<noteq> None"

definition ids_inv :: "cell \<Rightarrow> bool" where
  "ids_inv c \<longleftrightarrow>
     dict_ok (tasks c) \<and> (\<forall>t \<in> fst ` set (tasks c) \<union> cancelled c \<union> set_option (pending_task c). t < next_id c)"

definition tasks_inv :: "crash_settings \<Rightarrow> cell \<Rightarrow> bool" where
  "tasks_inv cfg c \<longleftrightarrow>
     (\<forall>t. live t c \<longrightarrow> pending_task c = Some t \<and> sweep c = Sweep_Idle) \<and>
     (\<forall>tr. attempts (heap c tr) \<le> max_retries cfg) \<and>
     (\<forall>t tr. live_phase t c = Some (tr, Fresh_Task) \<longrightarrow> attempts (heap c tr) < max_retries cfg)"

lemma live_phase_fields:
  "live_phase t (c\<lparr>sweep := x\<rparr>) = live_phase t c" "live_phase t (c\<lparr>bound := b\<rparr>) = live_phase t c"
  "live_phase t (c\<lparr>stops := ss\<rparr>) = live_phase t c" "live_phase t (c\<lparr>lock := l\<rparr>) = live_phase t c"
  "live_phase t (c\<lparr>tracker_ref := r\<rparr>) = live_phase t c" "live_phase t (c\<lparr>expected_stop := e\<rparr>) = live_phase t c"
  "live_phase t (c\<lparr>heap := h\<rparr>) = live_phase t c" "live_phase t (c\<lparr>next_id := n\<rparr>) = live_phase t c"
  "live_phase t (c\<lparr>in_stopping := i\<rparr>) = live_phase t c" "live_phase t (c\<lparr>epoch := e'\<rparr>) = live_phase t c"
  "live_phase t (c\<lparr>orphans := n\<rparr>) = live_phase t c" "live_phase t (c\<lparr>unwanted := u\<rparr>) = live_phase t c"
  "live_phase t (c\<lparr>cid_of := f\<rparr>) = live_phase t c"
  by (simp_all add: live_phase_def)

lemma clear_live: "live_phase t (clear c) = (if pending_task c = Some t then None else live_phase t c)"
  by (auto simp: clear_def live_phase_def)

text \<open>Every event keeps \<^const>\<open>tasks_inv\<close>.\<close>

lemma take_snapshot_tasks:
  assumes "tasks_inv cfg c" "take_snapshot rc c = Some c'"
  shows "tasks_inv cfg c'"
  using assms by (auto simp: take_snapshot_def tasks_inv_def live_def live_phase_fields split: sweep_phase.splits option.splits if_splits)

lemma sweep_one_tasks:
  assumes "tasks_inv cfg c" "sweep_one n ob c = Some c'"
  shows "tasks_inv cfg c'"
  using assms by (auto simp: sweep_one_def tasks_inv_def live_def live_phase_fields maybe_reset_tracker_def split: sweep_phase.splits option.splits if_splits)

lemma enter_handle_death_tasks:
  assumes "tasks_inv cfg c" "enter_handle_death ok c = Some c'"
  shows "tasks_inv cfg c'"
  using assms by (auto simp: enter_handle_death_def tasks_inv_def live_def live_phase_fields split: sweep_phase.splits option.splits if_splits)

lemma record_death_tasks:
  assumes "tasks_inv cfg c" "record_death m c = Some c'"
  shows "tasks_inv cfg c'"
  using assms by (auto simp: record_death_def tasks_inv_def live_def live_phase_fields upd_tracker_def new_tracker_def split: sweep_phase.splits option.splits if_splits)

lemma begin_teardown_tasks:
  assumes "tasks_inv cfg c" "begin_teardown k c = Some c'"
  shows "tasks_inv cfg c'"
  using assms by (auto simp: begin_teardown_def tasks_inv_def live_def live_phase_def begin_stop_def on_expected_stop_def clear_def split: sweep_phase.splits option.splits if_splits)

lemma stop_entry_tasks:
  assumes "tasks_inv cfg c" "stop_entry k cid c = Some c'"
  shows "tasks_inv cfg c'"
  using assms by (auto simp: stop_entry_def tasks_inv_def live_def live_phase_def begin_stop_def on_expected_stop_def clear_def split: sweep_phase.splits option.splits if_splits)

lemmas crash_splits = sweep_phase.splits option.splits if_splits prod.splits task_phase.splits stop_phase.splits

lemma finish_death_tasks:
  assumes "tasks_inv cfg c" "ids_inv c" "finish_death cfg now en c = Some c'"
  shows "tasks_inv cfg c'"
  using assms by (auto simp: finish_death_def finalize_death_def tasks_inv_def live_def live_phase_def end_stop_def on_expected_stop_def clear_def schedule_restart_def upd_tracker_def ids_inv_def split: sweep_phase.splits option.splits if_splits)

lemma stop_teardown_tasks:
  assumes "tasks_inv cfg c" "stop_teardown k c = Some c'"
  shows "tasks_inv cfg c'"
  using assms by (auto simp: stop_teardown_def tasks_inv_def live_def live_phase_def split: crash_splits)

lemma stop_exit_tasks:
  assumes "tasks_inv cfg c" "stop_exit k c = Some c'"
  shows "tasks_inv cfg c'"
  using assms by (auto simp: stop_exit_def tasks_inv_def live_def live_phase_def end_stop_def on_expected_stop_def clear_def split: crash_splits)

lemma drop_state_tasks:
  assumes "tasks_inv cfg c" "drop_state k c = Some c'"
  shows "tasks_inv cfg c'"
  using assms by (auto simp: drop_state_def tasks_inv_def live_def live_phase_def split: crash_splits)

lemma start_entry_tasks:
  assumes "tasks_inv cfg c" "start_entry c = Some c'"
  shows "tasks_inv cfg c'"
  using assms by (auto simp: start_entry_def on_start_def clear_def tasks_inv_def live_def live_phase_def split: crash_splits)

lemma start_bind_tasks:
  assumes "tasks_inv cfg c" "start_bind k c = Some c'"
  shows "tasks_inv cfg c'"
  using assms by (auto simp: start_bind_def bind_container_def tasks_inv_def live_def live_phase_def split: crash_splits)

lemma start_exit_tasks:
  assumes "tasks_inv cfg c" "start_exit c = Some c'"
  shows "tasks_inv cfg c'"
  using assms by (auto simp: start_exit_def tasks_inv_def live_def live_phase_def split: crash_splits)

lemma tasks_invD: "tasks_inv cfg c \<Longrightarrow> live_phase t c = Some x \<Longrightarrow> pending_task c = Some t \<and> sweep c = Sweep_Idle"
  by (cases x) (auto simp: tasks_inv_def live_def)

lemma only_live:
  "tasks_inv cfg c \<Longrightarrow> live_phase t c = Some x \<Longrightarrow> live_phase t' c = Some y \<Longrightarrow> t' = t"
  using tasks_invD [of cfg c t x] tasks_invD [of cfg c t' y] by simp

lemma tasks_inv_one:
  assumes "tasks_inv cfg c" "live_phase t c = Some (tr, ph)"
    and "\<And>t'. t' \<noteq> t \<Longrightarrow> live_phase t' c' \<in> {None, live_phase t' c}"
    and "live_phase t c' \<in> {None, Some (tr, ph')}"
    and "live t c' \<Longrightarrow> pending_task c' = pending_task c" "sweep c' = sweep c"
    and "\<And>tr'. tr' \<noteq> tr \<Longrightarrow> attempts (heap c' tr') = attempts (heap c tr')"
    and "attempts (heap c' tr) \<le> max_retries cfg"
    and "ph' = Fresh_Task \<Longrightarrow> live t c' \<Longrightarrow> attempts (heap c' tr) < max_retries cfg"
  shows "tasks_inv cfg c'"
proof -
  have "t' = t" if "live t' c'" for t'
  proof (rule ccontr)
    assume "t' \<noteq> t"
    with that assms(3) obtain y where "live_phase t' c = Some y" by (fastforce simp: live_def)
    with only_live [OF assms(1,2)] \<open>t' \<noteq> t\<close> show False by blast
  qed
  moreover have "pending_task c = Some t" "sweep c = Sweep_Idle" using tasks_invD [OF assms(1,2)] by simp_all
  moreover have "attempts (heap c' tr') \<le> max_retries cfg" for tr'
    using assms(1,7,8) by (cases "tr' = tr") (simp_all add: tasks_inv_def)
  moreover have "attempts (heap c' tr') < max_retries cfg" if "live_phase t' c' = Some (tr', Fresh_Task)" for t' tr'
  proof -
    have "live t' c'" using that by (simp add: live_def)
    with calculation(1) have "t' = t" by blast
    with that assms(4) \<open>live t' c'\<close> assms(9) show ?thesis by auto
  qed
  ultimately show ?thesis using assms(5,6) unfolding tasks_inv_def by metis
qed

lemma task_begin_tasks:
  assumes "tasks_inv cfg c" "task_begin cfg now t c = Some c'"
  shows "tasks_inv cfg c'"
proof -
  obtain tr where tr: "live_phase t c = Some (tr, Fresh_Task)"
    using assms(2) by (auto simp: task_begin_def split: option.splits prod.splits task_phase.splits)
  have "attempts (heap c tr) < max_retries cfg" using assms(1) tr by (auto simp: tasks_inv_def)
  with tr show ?thesis
    by (intro tasks_inv_one [OF assms(1) tr, where ph' = Sleeping])
     (use assms(2) in \<open>auto simp: task_begin_def set_phase_def upd_tracker_def live_phase_def live_def dict_simps split: if_splits\<close>)
qed

lemma task_wake_tasks:
  assumes "tasks_inv cfg c" "task_wake en dr t c = Some c'"
  shows "tasks_inv cfg c'"
proof -
  obtain tr where tr: "live_phase t c = Some (tr, Sleeping)"
    using assms(2) by (auto simp: task_wake_def split: option.splits prod.splits task_phase.splits)
  then show ?thesis
    by (intro tasks_inv_one [OF assms(1) tr, where ph' = Looking_Up])
     (use assms in \<open>auto simp: task_wake_def restart_abort_def end_task_def set_phase_def upd_tracker_def live_phase_def live_def dict_simps tasks_inv_def split: if_splits\<close>)
qed

lemmas task_event_defs = set_phase_def upd_tracker_def end_task_def live_phase_def live_def dict_simps tasks_inv_def

lemma task_row_tasks:
  assumes "tasks_inv cfg c" "task_row ex t c = Some c'"
  shows "tasks_inv cfg c'"
proof -
  obtain tr where tr: "live_phase t c = Some (tr, Looking_Up)"
    using assms(2) by (auto simp: task_row_def split: option.splits prod.splits task_phase.splits)
  then show ?thesis
    by (intro tasks_inv_one [OF assms(1) tr, where ph' = Waiting])
     (use assms in \<open>auto simp: task_row_def task_event_defs split: if_splits\<close>)
qed

lemma task_lock_tasks:
  assumes "tasks_inv cfg c" "task_lock t c = Some c'"
  shows "tasks_inv cfg c'"
proof -
  obtain tr where tr: "live_phase t c = Some (tr, Waiting)"
    using assms(2) by (auto simp: task_lock_def split: option.splits prod.splits task_phase.splits)
  moreover have "pending_task c = Some t" using assms(1) tr by (simp add: tasks_inv_def live_def)
  ultimately show ?thesis
    by (intro tasks_inv_one [OF assms(1) tr, where ph' = Creating])
     (use assms in \<open>auto simp: task_lock_def on_start_def task_event_defs split: if_splits\<close>)
qed

lemma task_bind_tasks:
  assumes "tasks_inv cfg c" "task_bind cid t c = Some c'"
  shows "tasks_inv cfg c'"
proof -
  obtain tr where tr: "live_phase t c = Some (tr, Creating)"
    using assms(2) by (auto simp: task_bind_def split: option.splits prod.splits task_phase.splits)
  then show ?thesis
    by (intro tasks_inv_one [OF assms(1) tr, where ph' = Running])
     (use assms in \<open>auto simp: task_bind_def monitor_bind_def bind_container_def task_event_defs split: if_splits option.splits\<close>)
qed

lemma task_done_tasks:
  assumes "tasks_inv cfg c" "task_done now t c = Some c'"
  shows "tasks_inv cfg c'"
proof -
  obtain tr where tr: "live_phase t c = Some (tr, Running)"
    using assms(2) by (auto simp: task_done_def split: option.splits prod.splits task_phase.splits)
  then show ?thesis
    by (intro tasks_inv_one [OF assms(1) tr, where ph' = Running])
     (use assms in \<open>auto simp: task_done_def task_event_defs split: if_splits\<close>)
qed

lemma task_fail_tasks:
  assumes "tasks_inv cfg c" "task_fail cfg now t c = Some c'"
  shows "tasks_inv cfg c'"
proof -
  obtain tr ph where tr: "live_phase t c = Some (tr, ph)"
    using assms(2) by (auto simp: task_fail_def split: option.splits)
  then show ?thesis
    by (intro tasks_inv_one [OF assms(1) tr, where ph' = Fresh_Task])
     (use assms in \<open>auto simp: task_fail_def on_restart_failure_def Let_def task_event_defs split: if_splits\<close>)
qed

lemma task_cancelled_tasks:
  assumes "tasks_inv cfg c" "task_cancelled rc t c = Some c'"
  shows "tasks_inv cfg c'"
proof -
  have t: "t \<in> cancelled c" using assms(2) by (auto simp: task_cancelled_def split: option.splits if_splits)
  have fields: "heap c' = heap c" "sweep c' = sweep c" "t' \<noteq> t \<Longrightarrow> pending_task c = Some t' \<Longrightarrow> pending_task c' = Some t'" for t'
    using assms(2) by (auto simp: task_cancelled_def end_task_def split: option.splits if_splits)
  have live: "live_phase t' c' = live_phase t' c" for t'
    using assms(2) t by (auto simp: task_cancelled_def end_task_def live_phase_def dict_simps split: option.splits if_splits)
  have "t' \<noteq> t" if "live t' c" for t' using that t by (auto simp: live_def live_phase_def)
  with assms(1) fields live show ?thesis unfolding tasks_inv_def live_def by auto
qed

lemma orphan_bind_tasks:
  assumes "tasks_inv cfg c" "orphan_bind cid c = Some c'"
  shows "tasks_inv cfg c'"
  using assms by (auto simp: orphan_bind_def monitor_bind_def bind_container_def task_event_defs split: option.splits if_splits)

lemma monitor_stop_tasks:
  assumes "tasks_inv cfg c" "monitor_stop c = Some c'"
  shows "tasks_inv cfg c'"
  using assms by (auto simp: monitor_stop_def task_event_defs split: option.splits if_splits)

lemma keys_dict_delete: "fst ` set (AList.delete k d) = fst ` set d - {k}"
  by (induction d) auto

text \<open>Every event keeps \<^const>\<open>ids_inv\<close>.\<close>

lemma ids_inv_mono:
  "\<lbrakk>ids_inv c; tasks c' = tasks c; cancelled c' = cancelled c; pending_task c' = pending_task c; next_id c \<le> next_id c'\<rbrakk>
     \<Longrightarrow> ids_inv c'"
  unfolding ids_inv_def by (simp, meson less_le_trans)

lemma ids_fields:
  "ids_inv (c\<lparr>sweep := x\<rparr>) = ids_inv c" "ids_inv (c\<lparr>bound := b\<rparr>) = ids_inv c"
  "ids_inv (c\<lparr>stops := ss\<rparr>) = ids_inv c" "ids_inv (c\<lparr>lock := l\<rparr>) = ids_inv c"
  "ids_inv (c\<lparr>tracker_ref := r\<rparr>) = ids_inv c" "ids_inv (c\<lparr>expected_stop := e\<rparr>) = ids_inv c"
  "ids_inv (c\<lparr>heap := h\<rparr>) = ids_inv c" "ids_inv (c\<lparr>in_stopping := i\<rparr>) = ids_inv c"
  "ids_inv (c\<lparr>epoch := e'\<rparr>) = ids_inv c" "ids_inv (c\<lparr>orphans := n\<rparr>) = ids_inv c"
  "ids_inv (c\<lparr>unwanted := u\<rparr>) = ids_inv c" "ids_inv (c\<lparr>cid_of := f\<rparr>) = ids_inv c"
  by (simp_all add: ids_inv_def)

lemma ids_ops:
  assumes "ids_inv c"
  shows "ids_inv (clear c)" "ids_inv (on_start cur c)" "ids_inv (begin_stop c)" "ids_inv (end_stop k c)"
    "ids_inv (bind_container cid c)" "ids_inv (monitor_bind cid c)" "ids_inv (upd_tracker tr f c)" "ids_inv (end_task t c)"
    "ids_inv (c\<lparr>next_id := Suc (next_id c)\<rparr>)" "ids_inv (schedule_restart cfg now tr c)"
    "ids_inv (maybe_reset_tracker now c)"
  using assms
  by (auto simp: ids_inv_def clear_def on_start_def begin_stop_def end_stop_def on_expected_stop_def bind_container_def
      monitor_bind_def upd_tracker_def end_task_def schedule_restart_def maybe_reset_tracker_def set_phase_def live_phase_def
      keys_dict_update keys_dict_delete less_Suc_eq Let_def set_dict_delete dest: map_of_SomeD split: option.splits if_splits)

lemma ids_cancel:
  assumes "ids_inv c" "pending_task c = Some t"
  shows "ids_inv (c\<lparr>pending_task := None, cancelled := insert t (cancelled c)\<rparr>)"
    and "ids_inv (c\<lparr>heap := h, pending_task := None, cancelled := insert t (cancelled c)\<rparr>)"
  using assms by (simp_all add: ids_inv_def)

lemma ids_set_phase:
  assumes "ids_inv c" "live_phase t c0 = Some x" "tasks c = tasks c0"
  shows "ids_inv (set_phase t tr ph c)"
proof -
  have "t \<in> fst ` set (tasks c)" using assms(2,3) by (force simp: live_phase_def dest: map_of_SomeD split: if_splits)
  with assms(1) show ?thesis by (auto simp: ids_inv_def set_phase_def keys_dict_update)
qed

lemma tasks_fields: "tasks (clear c) = tasks c" "tasks (on_start cur c) = tasks c" "tasks (monitor_bind cid c) = tasks c"
   "tasks (upd_tracker tr f c) = tasks c"
  by (simp_all add: clear_def on_start_def monitor_bind_def bind_container_def upd_tracker_def split: option.splits)

lemma ids_step:
  assumes "ids_inv c" "exec cfg rc ev c = Some c'"
  shows "ids_inv c'"
  using assms
  apply (cases ev)
  apply (simp_all only: exec.simps)
  subgoal by (auto simp: take_snapshot_def ids_fields split: crash_splits)
  subgoal by (auto simp: sweep_one_def ids_fields ids_ops split: crash_splits)
  subgoal by (auto simp: enter_handle_death_def ids_fields split: crash_splits)
  subgoal by (auto simp: record_death_def upd_tracker_def elim!: ids_inv_mono split: crash_splits)
  subgoal by (auto simp: begin_teardown_def ids_fields ids_ops split: crash_splits)
  subgoal by (auto simp: finish_death_def finalize_death_def ids_fields ids_ops split: crash_splits)
  subgoal by (auto simp: stop_entry_def ids_fields ids_ops split: crash_splits)
  subgoal by (auto simp: stop_teardown_def ids_fields split: crash_splits)
  subgoal by (auto simp: stop_exit_def ids_ops split: crash_splits)
  subgoal by (auto simp: drop_state_def ids_fields split: crash_splits)
  subgoal by (auto simp: start_entry_def ids_fields ids_ops split: crash_splits)
  subgoal by (auto simp: start_bind_def ids_fields ids_ops split: crash_splits)
  subgoal by (auto simp: start_exit_def ids_fields ids_ops split: crash_splits)
  subgoal by (auto simp: task_begin_def ids_ops tasks_fields intro!: ids_set_phase split: crash_splits)
  subgoal by (auto simp: task_wake_def restart_abort_def ids_ops ids_fields tasks_fields intro!: ids_set_phase split: crash_splits)
  subgoal by (auto simp: task_row_def ids_ops ids_fields intro!: ids_set_phase split: crash_splits)
  subgoal by (auto simp: task_lock_def ids_ops ids_fields tasks_fields intro!: ids_set_phase split: crash_splits)
  subgoal by (auto simp: task_bind_def ids_ops tasks_fields intro!: ids_set_phase split: crash_splits)
  subgoal by (auto simp: task_done_def ids_ops split: crash_splits)
  subgoal by (auto simp: task_fail_def on_restart_failure_def Let_def ids_ops ids_fields intro!: ids_set_phase split: crash_splits)
  subgoal by (auto simp: task_cancelled_def ids_ops ids_fields split: crash_splits)
  subgoal by (auto simp: orphan_bind_def ids_ops ids_fields split: crash_splits)
  subgoal by (auto simp: monitor_stop_def ids_cancel upd_tracker_def ids_fields split: crash_splits)
  done

lemmas tasks_events = take_snapshot_tasks sweep_one_tasks enter_handle_death_tasks record_death_tasks begin_teardown_tasks
  finish_death_tasks stop_entry_tasks stop_teardown_tasks stop_exit_tasks drop_state_tasks
  start_entry_tasks start_bind_tasks start_exit_tasks task_begin_tasks task_wake_tasks
  task_row_tasks task_lock_tasks task_bind_tasks task_done_tasks task_fail_tasks
  task_cancelled_tasks orphan_bind_tasks monitor_stop_tasks

lemma tasks_step:
  assumes "tasks_inv cfg c" "ids_inv c" "exec cfg rc ev c = Some c'"
  shows "tasks_inv cfg c'"
  using assms by (cases ev) (simp_all only: exec.simps, (blast intro: tasks_events)+)

interpretation restart_run: step_invariant "crash_step cfg rc" "\<lambda>c. c = init_cell" "\<lambda>c. ids_inv c \<and> tasks_inv cfg c" for cfg rc
proof
  show "ids_inv c \<and> tasks_inv cfg c" if "c = init_cell" for c
    using that by (simp add: init_cell_def ids_inv_def tasks_inv_def live_def live_phase_def new_tracker_def)
  show "ids_inv c' \<and> tasks_inv cfg c'" if "crash_step cfg rc c c'" "ids_inv c \<and> tasks_inv cfg c" for c c'
    using that by (auto elim!: crash_step.cases intro: ids_step tasks_step)
qed

section \<open>An expected stop stays\<close>

text \<open>
  The epoch a sweep has read, counted past its own stop once that has begun. While an expected stop stands,
  the workspace has no container or the stop that will remove it is in flight, no restart task is live, and a
  sweep in progress is behind the epoch, so the check at the end of \<open>handle_death\<close> fails.
\<close>

definition sweep_epoch :: "sweep_phase \<Rightarrow> nat option" where
  "sweep_epoch ph =
     (case ph of
        Sweep_Idle \<Rightarrow> None
      | Listing _ _ ep \<Rightarrow> Some ep
      | Inspecting _ ep \<Rightarrow> Some ep
      | Limit_Read _ _ ep \<Rightarrow> Some ep
      | Notifying _ ep _ \<Rightarrow> Some ep
      | Tearing_Down _ ep _ _ \<Rightarrow> Some (Suc ep))"

definition removal_pending :: "cell \<Rightarrow> bool" where
  "removal_pending c \<longleftrightarrow> (\<exists>k cid. map_of (stops c) k = Some (Removing Expected cid) \<and> bound_to cid c)"

definition stop_inv :: "cell \<Rightarrow> bool" where
  "stop_inv c \<longleftrightarrow>
     orphans c = 0 \<and> \<not> unwanted c \<and>
     (\<forall>e. sweep_epoch (sweep c) = Some e \<longrightarrow> e \<le> epoch c \<and> (expected_stop c \<longrightarrow> e < epoch c)) \<and>
     (expected_stop c \<longrightarrow> (bound c = None \<or> removal_pending c) \<and> (\<forall>t. \<not> live t c))"

lemma stop_inv_task:
  assumes "stop_inv c" "live_phase t c = Some x"
    and "orphans c' = orphans c" "unwanted c' \<Longrightarrow> unwanted c \<or> expected_stop c" "sweep c' = sweep c" "epoch c' = epoch c"
    and "expected_stop c' = expected_stop c"
  shows "stop_inv c'"
proof -
  have "live t c" using assms(2) by (simp add: live_def)
  with assms(1) have "\<not> expected_stop c" by (auto simp: stop_inv_def)
  with assms show ?thesis by (auto simp: stop_inv_def)
qed

lemma removal_fields:
  "removal_pending (c\<lparr>sweep := x\<rparr>) = removal_pending c" "removal_pending (c\<lparr>lock := l\<rparr>) = removal_pending c"
  "removal_pending (c\<lparr>tracker_ref := r\<rparr>) = removal_pending c" "removal_pending (c\<lparr>heap := h\<rparr>) = removal_pending c"
  "removal_pending (c\<lparr>next_id := n\<rparr>) = removal_pending c" "removal_pending (c\<lparr>in_stopping := i\<rparr>) = removal_pending c"
  "removal_pending (c\<lparr>epoch := e\<rparr>) = removal_pending c" "removal_pending (c\<lparr>tasks := ts\<rparr>) = removal_pending c"
  "removal_pending (c\<lparr>pending_task := p\<rparr>) = removal_pending c" "removal_pending (c\<lparr>cancelled := s\<rparr>) = removal_pending c"
  "removal_pending (c\<lparr>orphans := n\<rparr>) = removal_pending c" "removal_pending (c\<lparr>expected_stop := b\<rparr>) = removal_pending c"
  by (simp_all add: removal_pending_def bound_to_def split: option.splits)

lemmas stop_facts = stop_inv_def sweep_epoch_def live_def live_phase_fields clear_live removal_fields

lemma stop_inv_sweep:
  assumes "stop_inv c" "sweep_epoch (sweep c') \<in> {None, sweep_epoch (sweep c)}"
    and "orphans c' = orphans c" "unwanted c' = unwanted c" "epoch c' = epoch c" "expected_stop c' = expected_stop c"
    and "bound c' = bound c" "cid_of c' = cid_of c" "stops c' = stops c" "tasks c' = tasks c" "cancelled c' = cancelled c"
  shows "stop_inv c'"
proof -
  have "removal_pending c' = removal_pending c" using assms(7-9) by (simp add: removal_pending_def bound_to_def split: option.splits)
  moreover have "live t c' = live t c" for t using assms(10,11) by (simp add: live_def live_phase_def)
  ultimately show ?thesis using assms(1-7) by (auto simp: stop_inv_def)
qed

lemma take_snapshot_stop:
  assumes "stop_inv c" "take_snapshot \<lparr>overlap = False, shield = False\<rparr> c = Some c'"
  shows "stop_inv c'"
proof -
  obtain ob where b: "bound c = Some ob" "stops c = []" and c': "c' = c\<lparr>sweep := Listing ob (cid_of c ob) (epoch c)\<rparr>"
    using assms(2) by (auto simp: take_snapshot_def split: sweep_phase.splits option.splits if_splits)
  have "\<not> expected_stop c" using assms(1) b by (simp add: stop_inv_def removal_pending_def)
  with assms(1) show ?thesis by (simp add: c' stop_inv_def sweep_epoch_def)
qed

lemma sweep_events_stop:
  "stop_inv c \<Longrightarrow> sweep_one now observed c = Some c' \<Longrightarrow> stop_inv c'"
  "stop_inv c \<Longrightarrow> enter_handle_death ok c = Some c' \<Longrightarrow> stop_inv c'"
  "stop_inv c \<Longrightarrow> record_death message c = Some c' \<Longrightarrow> stop_inv c'"
  by (rule stop_inv_sweep, assumption,
      auto simp: sweep_one_def maybe_reset_tracker_def enter_handle_death_def record_death_def upd_tracker_def sweep_epoch_def
        split: sweep_phase.splits option.splits if_splits)+

lemma removal_kept:
  assumes "removal_pending c" "k \<notin> fst ` set (stops c)" "bound c' = bound c" "cid_of c' = cid_of c" "stops c' = (k, x) # stops c"
  shows "removal_pending c'"
proof -
  obtain k' cid where k': "map_of (stops c) k' = Some (Removing Expected cid)" "bound_to cid c"
    using assms(1) by (auto simp: removal_pending_def)
  then have "k' \<noteq> k" using assms(2) by (force dest: map_of_SomeD)
  with k' assms(3-5) have "map_of (stops c') k' = Some (Removing Expected cid) \<and> bound_to cid c'"
    by (simp add: bound_to_def split: option.splits)
  then show ?thesis unfolding removal_pending_def by blast
qed

lemma removal_ended:
  assumes "removal_pending c" "map_of (stops c) k = Some (Torn_Down kind)"
  shows "removal_pending (end_stop k c)"
proof -
  obtain k' cid where k': "map_of (stops c) k' = Some (Removing Expected cid)" "bound_to cid c"
    using assms(1) by (auto simp: removal_pending_def)
  then have "map_of (stops (end_stop k c)) k' = Some (Removing Expected cid) \<and> bound_to cid (end_stop k c)"
    using assms(2) by (auto simp: end_stop_def on_expected_stop_def clear_def bound_to_def dict_simps split: option.splits)
  then show ?thesis unfolding removal_pending_def by blast
qed

lemma begin_stop_fields:
  "orphans (begin_stop c) = orphans c" "unwanted (begin_stop c) = unwanted c" "sweep (begin_stop c) = sweep c"
  "epoch (begin_stop c) = Suc (epoch c)" "bound (begin_stop c) = bound c" "cid_of (begin_stop c) = cid_of c"
  "expected_stop (begin_stop c) = expected_stop c" "stops (begin_stop c) = stops c"
  "live_phase t (begin_stop c) = (if pending_task c = Some t then None else live_phase t c)"
  by (auto simp: begin_stop_def on_expected_stop_def clear_def live_phase_def)

lemma end_stop_fields:
  "orphans (end_stop k c) = orphans c" "unwanted (end_stop k c) = unwanted c" "sweep (end_stop k c) = sweep c"
  "epoch (end_stop k c) = epoch c" "bound (end_stop k c) = bound c" "cid_of (end_stop k c) = cid_of c"
  "expected_stop (end_stop k c) = expected_stop c"
  "live_phase t (end_stop k c) = (if pending_task c = Some t then None else live_phase t c)"
  by (auto simp: end_stop_def on_expected_stop_def clear_def live_phase_def)

lemma end_stop_inv: "stop_inv c \<Longrightarrow> map_of (stops c) k = Some (Torn_Down kind) \<Longrightarrow> stop_inv (end_stop k c)"
  by (auto simp: stop_inv_def end_stop_fields live_def removal_ended)

lemma begin_teardown_stop:
  assumes "stop_inv c" "begin_teardown k c = Some c'"
  shows "stop_inv c'"
proof -
  obtain cid ep tr where sw: "sweep c = Notifying cid ep tr" and k: "k \<notin> fst ` set (stops c)"
    and c': "c' = (begin_stop c)\<lparr>stops := (k, Removing Crash_Teardown cid) # stops c, sweep := Tearing_Down cid ep tr k\<rparr>"
    using assms(2) by (auto simp: begin_teardown_def split: sweep_phase.splits if_splits)
  have "removal_pending c \<Longrightarrow> removal_pending c'"
    by (rule removal_kept [OF _ k]) (simp_all add: c' begin_stop_fields)
  with assms(1) sw show ?thesis by (auto simp: c' stop_inv_def begin_stop_fields sweep_epoch_def live_def live_phase_fields)
qed

lemma finish_death_stop:
  assumes "stop_inv c" "finish_death cfg now en c = Some c'"
  shows "stop_inv c'"
proof -
  obtain cid ep tr k where sw: "sweep c = Tearing_Down cid ep tr k" and k: "map_of (stops c) k = Some (Torn_Down Crash_Teardown)"
    and c': "c' = (finalize_death cfg now en ep tr (end_stop k c))\<lparr>sweep := Sweep_Idle\<rparr>"
    using assms(2) by (auto simp: finish_death_def split: sweep_phase.splits if_splits)
  let ?c = "end_stop k c"
  have inv: "stop_inv ?c" by (rule end_stop_inv [OF assms(1) k])
  show ?thesis
  proof (cases "expected_stop c")
    case True
    with assms(1) sw have "user_action_interleaved ?c ep"
      by (auto simp: stop_inv_def sweep_epoch_def user_action_interleaved_def end_stop_fields)
    with inv show ?thesis by (simp add: c' finalize_death_def stop_facts)
  next
    case False
    with inv show ?thesis
      by (auto simp: c' finalize_death_def schedule_restart_def upd_tracker_def Let_def stop_inv_def sweep_epoch_def end_stop_fields)
  qed
qed

lemma stop_entry_stop:
  assumes "stop_inv c" "tasks_inv cfg c" "stop_entry k cid c = Some c'"
  shows "stop_inv c'"
proof -
  have k: "k \<notin> fst ` set (stops c)"
    and c': "c' = (begin_stop c)\<lparr>stops := (k, Removing Expected cid) # stops c,
                   expected_stop := (expected_stop c \<or> bound c = None \<or> bound_to cid c)\<rparr>"
    using assms(3) by (auto simp: stop_entry_def split: if_splits)
  have "removal_pending c'" if "removal_pending c"
    using that by (rule removal_kept [OF _ k]) (simp_all add: c' begin_stop_fields)
  moreover have "removal_pending c'" if "bound_to cid c"
    unfolding removal_pending_def by (rule exI [of _ k], rule exI [of _ cid]) (use that in \<open>simp add: c' bound_to_def begin_stop_fields split: option.splits\<close>)
  moreover have "\<not> live t c'" for t
    using tasks_invD [OF assms(2)] by (auto simp: c' live_def live_phase_fields begin_stop_fields)
  ultimately show ?thesis using assms(1) by (auto simp: stop_inv_def c' begin_stop_fields)
qed

lemma stop_teardown_stop:
  assumes "stop_inv c" "stop_teardown k c = Some c'"
  shows "stop_inv c'"
proof -
  obtain kind cid where k: "map_of (stops c) k = Some (Removing kind cid)"
    and c': "c' = c\<lparr>bound := (if bound_to cid c then None else bound c), stops := AList.update k (Torn_Down kind) (stops c)\<rparr>"
    using assms(2) by (auto simp: stop_teardown_def split: option.splits stop_phase.splits if_splits)
  have "removal_pending c'" if p: "removal_pending c" and b: "\<not> bound_to cid c"
  proof -
    obtain k' cid' where k': "map_of (stops c) k' = Some (Removing Expected cid')" "bound_to cid' c"
      using p by (auto simp: removal_pending_def)
    then have "k' \<noteq> k" using k b by auto
    with k' b have "map_of (stops c') k' = Some (Removing Expected cid') \<and> bound_to cid' c'"
      by (simp add: c' bound_to_def dict_simps split: option.splits)
    then show ?thesis unfolding removal_pending_def by blast
  qed
  with assms(1) show ?thesis by (auto simp: c' stop_inv_def live_def live_phase_fields)
qed

lemma user_events_stop:
  "stop_inv c \<Longrightarrow> stop_exit k c = Some c' \<Longrightarrow> stop_inv c'"
  "stop_inv c \<Longrightarrow> drop_state cid c = Some c' \<Longrightarrow> stop_inv c'"
  "stop_inv c \<Longrightarrow> start_entry c = Some c' \<Longrightarrow> stop_inv c'"
  "stop_inv c \<Longrightarrow> start_bind cid c = Some c' \<Longrightarrow> stop_inv c'"
  "stop_inv c \<Longrightarrow> start_exit c = Some c' \<Longrightarrow> stop_inv c'"
  subgoal by (auto simp: stop_exit_def end_stop_inv split: if_splits)
  subgoal by (auto simp: drop_state_def stop_inv_def live_def live_phase_fields split: if_splits)
  subgoal by (auto simp: start_entry_def on_start_def clear_def stop_inv_def live_def live_phase_def removal_fields split: if_splits)
  subgoal by (auto simp: start_bind_def bind_container_def stop_inv_def split: if_splits option.splits)
  subgoal by (auto simp: start_exit_def stop_inv_def live_def live_phase_fields removal_fields split: if_splits)
  done

lemma task_events_stop:
  assumes "stop_inv c" "live_phase t c = Some (tr, ph)"
  shows "task_begin cfg now t c = Some c' \<Longrightarrow> stop_inv c'"
    and "task_wake en dr t c = Some c' \<Longrightarrow> stop_inv c'"
    and "task_row ex t c = Some c' \<Longrightarrow> stop_inv c'"
    and "task_lock t c = Some c' \<Longrightarrow> stop_inv c'"
    and "task_bind cid t c = Some c' \<Longrightarrow> stop_inv c'"
    and "task_done now t c = Some c' \<Longrightarrow> stop_inv c'"
    and "task_fail cfg now t c = Some c' \<Longrightarrow> stop_inv c'"
  subgoal by (rule stop_inv_task [OF assms]) (use assms(2) in \<open>auto simp: task_begin_def set_phase_def upd_tracker_def split: task_phase.splits if_splits option.splits\<close>)
  subgoal by (rule stop_inv_task [OF assms]) (use assms(2) in \<open>auto simp: task_wake_def restart_abort_def set_phase_def upd_tracker_def end_task_def split: task_phase.splits if_splits option.splits\<close>)
  subgoal by (rule stop_inv_task [OF assms]) (use assms(2) in \<open>auto simp: task_row_def set_phase_def end_task_def split: task_phase.splits if_splits option.splits\<close>)
  subgoal by (rule stop_inv_task [OF assms]) (use assms(2) in \<open>auto simp: task_lock_def on_start_def clear_def set_phase_def split: task_phase.splits if_splits option.splits\<close>)
  subgoal by (rule stop_inv_task [OF assms]) (use assms(2) in \<open>auto simp: task_bind_def monitor_bind_def bind_container_def set_phase_def split: task_phase.splits if_splits option.splits\<close>)
  subgoal by (rule stop_inv_task [OF assms]) (use assms(2) in \<open>auto simp: task_done_def upd_tracker_def end_task_def split: task_phase.splits if_splits option.splits\<close>)
  subgoal by (rule stop_inv_task [OF assms]) (use assms(2) in \<open>auto simp: task_fail_def on_restart_failure_def Let_def set_phase_def upd_tracker_def end_task_def split: task_phase.splits if_splits option.splits\<close>)
  done

lemma task_events_live:
  "task_begin cfg now t c = Some c' \<Longrightarrow> \<exists>tr ph. live_phase t c = Some (tr, ph)"
  "task_wake en dr t c = Some c' \<Longrightarrow> \<exists>tr ph. live_phase t c = Some (tr, ph)"
  "task_row ex t c = Some c' \<Longrightarrow> \<exists>tr ph. live_phase t c = Some (tr, ph)"
  "task_lock t c = Some c' \<Longrightarrow> \<exists>tr ph. live_phase t c = Some (tr, ph)"
  "task_bind cid t c = Some c' \<Longrightarrow> \<exists>tr ph. live_phase t c = Some (tr, ph)"
  "task_done now t c = Some c' \<Longrightarrow> \<exists>tr ph. live_phase t c = Some (tr, ph)"
  "task_fail cfg now t c = Some c' \<Longrightarrow> \<exists>tr ph. live_phase t c = Some (tr, ph)"
  by (auto simp: task_begin_def task_wake_def task_row_def task_lock_def task_bind_def task_done_def task_fail_def split: option.splits)

lemma task_cancelled_stop:
  assumes "stop_inv c" "task_cancelled \<lparr>overlap = False, shield = False\<rparr> t c = Some c'"
  shows "stop_inv c'"
proof -
  have live: "live t' c' = live t' c" for t'
    using assms(2) by (auto simp: task_cancelled_def end_task_def live_def live_phase_def dict_simps split: option.splits if_splits)
  have rp: "removal_pending c' = removal_pending c" and f: "orphans c' = orphans c" "unwanted c' = unwanted c" "sweep c' = sweep c"
    "epoch c' = epoch c" "expected_stop c' = expected_stop c" "bound c' = bound c"
    using assms(2) by (auto simp: task_cancelled_def end_task_def removal_fields split: option.splits if_splits)
  from assms(1) show ?thesis unfolding stop_inv_def live rp f .
qed

lemma monitor_events_stop:
  "stop_inv c \<Longrightarrow> orphan_bind cid c = Some c' \<Longrightarrow> stop_inv c'"
  "stop_inv c \<Longrightarrow> monitor_stop c = Some c' \<Longrightarrow> stop_inv c'"
  subgoal by (simp add: orphan_bind_def stop_inv_def)
  subgoal by (auto simp: monitor_stop_def upd_tracker_def stop_inv_def live_def live_phase_def removal_fields split: option.splits if_splits)
  done

lemmas stop_events = take_snapshot_stop sweep_events_stop begin_teardown_stop finish_death_stop stop_entry_stop
  stop_teardown_stop user_events_stop task_events_stop task_cancelled_stop monitor_events_stop

lemma stop_step:
  assumes "stop_inv c" "tasks_inv cfg c" "exec cfg \<lparr>overlap = False, shield = False\<rparr> ev c = Some c'"
  shows "stop_inv c'"
  using assms by (cases ev) (simp_all only: exec.simps, (blast intro: stop_events dest: task_events_live)+)

interpretation stop_run: step_invariant "crash_step cfg \<lparr>overlap = False, shield = False\<rparr>" "\<lambda>c. c = init_cell"
  "\<lambda>c. stop_inv c \<and> ids_inv c \<and> tasks_inv cfg c" for cfg
proof
  show "stop_inv c \<and> ids_inv c \<and> tasks_inv cfg c" if "c = init_cell" for c
    using restart_run.init_inv [of c cfg] that by (simp add: init_cell_def stop_inv_def sweep_epoch_def)
  show "stop_inv c' \<and> ids_inv c' \<and> tasks_inv cfg c'"
    if "crash_step cfg \<lparr>overlap = False, shield = False\<rparr> c c'" "stop_inv c \<and> ids_inv c \<and> tasks_inv cfg c" for c c'
    using that by (auto elim!: crash_step.cases intro: ids_step tasks_step stop_step)
qed

text \<open>
  (C20) Whatever interleaving of sweeps, deaths, restarts, users' starts and stops a workspace goes through, no tracker
  counts more restart attempts than the budget: the monitor gives up at the latest after that many.
\<close>

theorem restart_attempts_bounded:
  assumes "(crash_step cfg rc)\<^sup>*\<^sup>* init_cell c"
  shows "attempts (heap c tr) \<le> max_retries cfg"
  using restart_run.reachable_inv [OF assms] by (simp add: tasks_inv_def)

text \<open>
  (C19) Expected stops stay. Once a stop has begun that is aimed at the current container, or finds none, the
  monitor brings up no container before a user starts the workspace again - for every interleaving in which
  no snapshot is taken while a stop whose marker another stop has removed is in flight, and in which the
  cancellation of a restart cancels the creation.
\<close>

theorem expected_stop_stays:
  assumes "(crash_step cfg \<lparr>overlap = False, shield = False\<rparr>)\<^sup>*\<^sup>* init_cell c"
  shows "\<not> unwanted c"
  using stop_run.reachable_inv [OF assms] by (simp add: stop_inv_def)

text \<open>A death, two failed restarts of which the second exhausts a budget of one.\<close>

theorem restart_attempts_bounded_witness:
  "\<exists>c. run_events \<lparr>max_retries = 1, backoff_base = 5\<rparr> \<lparr>overlap = True, shield = True\<rparr>
     [Start_Entry, Start_Bind 1, Start_Exit, Take_Snapshot, Sweep_One 0 None, Enter_Handle_Death True,
      Record_Death ''died'', Begin_Teardown 10, Stop_Teardown 10, Finish_Death 0 True, Task_Begin 0 2,
      Task_Wake True False 2, Task_Row True 2, Task_Lock 2, Task_Fail 9 2] init_cell = Some c \<and>
     attempts (heap c 1) = 1 \<and> gave_up_at (heap c 1) = Some 9 \<and> attempts (heap c 1) \<le> 1"
proof -
  let ?cfg = "\<lparr>max_retries = 1, backoff_base = 5\<rparr>"
  obtain c where c: "run_events ?cfg \<lparr>overlap = True, shield = True\<rparr>
     [Start_Entry, Start_Bind 1, Start_Exit, Take_Snapshot, Sweep_One 0 None, Enter_Handle_Death True,
      Record_Death ''died'', Begin_Teardown 10, Stop_Teardown 10, Finish_Death 0 True, Task_Begin 0 2,
      Task_Wake True False 2, Task_Row True 2, Task_Lock 2, Task_Fail 9 2] init_cell = Some c"
      "attempts (heap c 1) = 1 \<and> gave_up_at (heap c 1) = Some 9"
    by (simp add: crash_eval)
  from restart_attempts_bounded [OF run_events_steps [OF c(1)], of 1] c show ?thesis by simp
qed

text \<open>A restart is pending when the user stops the workspace: the task is cancelled.\<close>

theorem expected_stop_stays_witness:
  "\<exists>c. run_events example_crash_settings \<lparr>overlap = False, shield = False\<rparr>
     [Start_Entry, Start_Bind 1, Start_Exit, Take_Snapshot, Sweep_One 0 None, Enter_Handle_Death True,
      Record_Death ''died'', Begin_Teardown 10, Stop_Teardown 10, Finish_Death 0 True, Task_Begin 0 2, Stop_Entry 11 1,
      Task_Cancelled 2, Stop_Teardown 11, Stop_Exit 11] init_cell = Some c \<and>
     expected_stop c \<and> bound c = None \<and> pending_task c = None \<and> \<not> unwanted c"
proof -
  obtain c where c: "run_events example_crash_settings \<lparr>overlap = False, shield = False\<rparr>
     [Start_Entry, Start_Bind 1, Start_Exit, Take_Snapshot, Sweep_One 0 None, Enter_Handle_Death True,
      Record_Death ''died'', Begin_Teardown 10, Stop_Teardown 10, Finish_Death 0 True, Task_Begin 0 2, Stop_Entry 11 1,
      Task_Cancelled 2, Stop_Teardown 11, Stop_Exit 11] init_cell = Some c"
      "expected_stop c" "bound c = None" "pending_task c = None"
    by (simp add: crash_eval example_crash_settings_def)
  from expected_stop_stays [OF run_events_steps [OF c(1)]] c show ?thesis by simp
qed

end
