(* ===== verification/Lockout.thy ===== *)
theory Lockout
  imports Prelude
begin

text \<open>
  The brakes on guessing: the accounting of failed logins in \<open>klangk/auth.py\<close> over \<open>LoginAttemptsModel\<close>
  (\<open>klangk/model/model.py\<close>), and the rate limit of the routes that send e-mail (\<open>klangk/api/auth.py\<close>). The clock
  reading of an operation is its argument; a timestamp that does not parse cannot arise, the code writes them itself.
  Audit rows are output.
\<close>

section \<open>Failed logins\<close>

record attempt =
  attempt_count :: int
  first_attempt_at :: real
  locked_until :: "real option"

type_synonym attempts = "(string, attempt) dict"

record lockout_policy =
  login_lockout_failures :: int
  login_lockout_duration :: int
  login_lockout_window :: int

definition record_failed_login :: "real \<Rightarrow> string \<Rightarrow> bool \<Rightarrow> attempts \<Rightarrow> attempts" where
  "record_failed_login now key reset d =
     (case map_of d key of
        None \<Rightarrow> AList.update key \<lparr>attempt_count = 1, first_attempt_at = now, locked_until = None\<rparr> d
      | Some a \<Rightarrow>
          (if reset then AList.update key (a\<lparr>attempt_count := 1, first_attempt_at := now, locked_until := None\<rparr>) d
           else AList.update key (a\<lparr>attempt_count := attempt_count a + 1\<rparr>) d))"

definition get_login_attempt_info :: "string \<Rightarrow> attempts \<Rightarrow> attempt option" where
  "get_login_attempt_info key d = map_of d key"

definition set_login_lockout :: "string \<Rightarrow> real \<Rightarrow> attempts \<Rightarrow> attempts" where
  "set_login_lockout key until d =
     (case map_of d key of None \<Rightarrow> d | Some a \<Rightarrow> AList.update key (a\<lparr>locked_until := Some until\<rparr>) d)"

definition clear_login_attempts :: "string \<Rightarrow> attempts \<Rightarrow> attempts" where
  "clear_login_attempts key d = AList.delete key d"

text \<open>The message of a lock that is in force.\<close>

definition is_locked_out :: "real \<Rightarrow> attempt option \<Rightarrow> string option" where
  "is_locked_out now info =
     (case Option.bind info locked_until of
        None \<Rightarrow> None
      | Some until \<Rightarrow>
          (if now < until
           then Some (''Too many failed attempts. Try again in '' @ str_int (\<lfloor>until - now\<rfloor> div 60) @ '' minutes.'')
           else None))"

definition should_lockout :: "lockout_policy \<Rightarrow> attempt option \<Rightarrow> bool" where
  "should_lockout pol info =
     (case info of None \<Rightarrow> False | Some a \<Rightarrow> attempt_count a \<ge> login_lockout_failures pol)"

definition window_elapsed :: "lockout_policy \<Rightarrow> real \<Rightarrow> attempt option \<Rightarrow> bool" where
  "window_elapsed pol now info =
     (case info of None \<Rightarrow> False | Some a \<Rightarrow> now - first_attempt_at a > of_int (login_lockout_window pol))"

definition check_login_lockout :: "lockout_policy \<Rightarrow> real \<Rightarrow> string \<Rightarrow> attempts \<Rightarrow> http_error + attempt option" where
  "check_login_lockout pol now key d =
     (if login_lockout_failures pol \<le> 0 then Inr None
      else (let info = get_login_attempt_info key d
            in case is_locked_out now info of Some msg \<Rightarrow> Inl (429, msg) | None \<Rightarrow> Inr info))"

definition record_login_failure ::
  "lockout_policy \<Rightarrow> real \<Rightarrow> string \<Rightarrow> attempt option \<Rightarrow> attempts \<Rightarrow> http_error option \<times> attempts" where
  "record_login_failure pol now key info d =
     (if login_lockout_failures pol \<le> 0 then (None, d)
      else (let d = record_failed_login now key (window_elapsed pol now info) d
            in if should_lockout pol (get_login_attempt_info key d)
               then (Some (429, ''Too many failed attempts. Locked out for '' @ str_int (login_lockout_duration pol div 60) @ '' minutes.''),
                     set_login_lockout key (now + of_int (login_lockout_duration pol)) d)
               else (None, d)))"

definition clear_login_failures :: "lockout_policy \<Rightarrow> string \<Rightarrow> attempts \<Rightarrow> attempts" where
  "clear_login_failures pol key d = (if login_lockout_failures pol > 0 then clear_login_attempts key d else d)"


section \<open>How many guesses there are\<close>

text \<open>Wrong passwords tried for one account, one request after the other: how many of them reach the password check.\<close>

fun guesses :: "lockout_policy \<Rightarrow> string \<Rightarrow> real list \<Rightarrow> attempts \<Rightarrow> nat" where
  "guesses pol key [] d = 0"
| "guesses pol key (t # ts) d =
     (case check_login_lockout pol t key d of
        Inl _ \<Rightarrow> guesses pol key ts d
      | Inr info \<Rightarrow> Suc (guesses pol key ts (snd (record_login_failure pol t key info d))))"

text \<open>
  What the row of an account says: the failures since its window began, and from the limit on, that each of them was
  followed by the whole time of a lock.
\<close>

definition attempt_ok :: "lockout_policy \<Rightarrow> real \<Rightarrow> attempt \<Rightarrow> bool" where
  "attempt_ok pol t a \<longleftrightarrow>
     1 \<le> attempt_count a \<and> first_attempt_at a \<le> t \<and>
     (login_lockout_failures pol \<le> attempt_count a \<longrightarrow>
        (\<exists>u. locked_until a = Some u \<and>
           first_attempt_at a + of_int ((attempt_count a - login_lockout_failures pol + 1) * login_lockout_duration pol) \<le> u)) \<and>
     (attempt_count a \<le> login_lockout_failures pol \<or>
        of_int ((attempt_count a - login_lockout_failures pol) * login_lockout_duration pol) \<le> (of_int (login_lockout_window pol) :: real))"

lemma failure_row:
  assumes "0 < login_lockout_failures pol" "0 < login_lockout_duration pol" "check_login_lockout pol t key d = Inr info"
    and "t0 \<le> t" "case map_of d key of None \<Rightarrow> True | Some a \<Rightarrow> attempt_ok pol t0 a"
    and "d' = snd (record_login_failure pol t key info d)"
  obtains a' where "map_of d' key = Some a'" "attempt_ok pol t a'"
    "attempt_count a' = 1 \<and> first_attempt_at a' = t \<and>
       (case map_of d key of None \<Rightarrow> True | Some a \<Rightarrow> first_attempt_at a + of_int (login_lockout_window pol) < t) \<or>
     (\<exists>a. map_of d key = Some a \<and> attempt_count a' = attempt_count a + 1 \<and> first_attempt_at a' = first_attempt_at a)"
proof -
  let ?N = "login_lockout_failures pol" and ?D = "login_lockout_duration pol" and ?W = "login_lockout_window pol"
  have info: "info = map_of d key" "is_locked_out t (map_of d key) = None"
    using assms(1,3) by (auto simp: check_login_lockout_def get_login_attempt_info_def Let_def split: option.splits)
  let ?fresh = "\<lparr>attempt_count = 1, first_attempt_at = t, locked_until = if ?N \<le> 1 then Some (t + of_int ?D) else None\<rparr>"
  have fresh: "attempt_ok pol t ?fresh" using assms(1,2) by (auto simp: attempt_ok_def)
  note defs = record_login_failure_def record_failed_login_def should_lockout_def set_login_lockout_def get_login_attempt_info_def
    window_elapsed_def map_of_dict_update Let_def
  show thesis
  proof (cases "map_of d key")
    case None
    then have "map_of d' key = Some ?fresh" using assms(1,6) info by (simp add: defs)
    with fresh None that show thesis by force
  next
    case (Some a)
    show thesis
    proof (cases "t - first_attempt_at a > of_int ?W")
      case True
      then have "map_of d' key = Some ?fresh" using assms(1,6) info Some by (cases a) (simp add: defs)
      with fresh Some True that show thesis by force
    next
      case False
      let ?a = "a\<lparr>attempt_count := attempt_count a + 1, locked_until := if ?N \<le> attempt_count a + 1 then Some (t + of_int ?D) else locked_until a\<rparr>"
      have a: "attempt_ok pol t0 a" using assms(5) Some by simp
      have row: "map_of d' key = Some ?a" using assms(1,6) info Some False by (cases a) (simp add: defs)
      have late: "first_attempt_at a + of_int ((attempt_count a - ?N + 1) * ?D) \<le> t" if "?N \<le> attempt_count a"
        using a that info(2) Some by (auto simp: attempt_ok_def is_locked_out_def split: if_splits)
      have "attempt_ok pol t ?a"
      proof (cases "?N \<le> attempt_count a")
        case True
        have "first_attempt_at a + of_int ((attempt_count a + 1 - ?N + 1) * ?D) \<le> t + of_int ?D"
          using late [OF True] by (simp add: algebra_simps)
        moreover have "of_int ((attempt_count a + 1 - ?N) * ?D) \<le> (of_int ?W :: real)"
          using late [OF True] False by (simp add: algebra_simps)
        ultimately show ?thesis using a assms(4) True by (auto simp: attempt_ok_def)
      next
        case False
        then consider "?N = attempt_count a + 1" | "attempt_count a + 1 < ?N" by linarith
        then show ?thesis using a assms(2,4) by cases (auto simp: attempt_ok_def)
      qed
      with row Some that show thesis by auto
    qed
  qed
qed

definition window_guesses :: "lockout_policy \<Rightarrow> int" where
  "window_guesses pol = login_lockout_failures pol + login_lockout_window pol div login_lockout_duration pol"

lemma attempt_count_bound:
  assumes "attempt_ok pol t a" "0 < login_lockout_duration pol" "0 < login_lockout_window pol"
  shows "attempt_count a \<le> window_guesses pol"
proof (cases "attempt_count a \<le> login_lockout_failures pol")
  case True
  then show ?thesis using pos_imp_zdiv_nonneg_iff [OF assms(2), of "login_lockout_window pol"] assms(3) by (simp add: window_guesses_def)
next
  case False
  then have "(attempt_count a - login_lockout_failures pol) * login_lockout_duration pol \<le> login_lockout_window pol"
    using assms(1) unfolding attempt_ok_def of_int_le_iff by blast
  then have "(attempt_count a - login_lockout_failures pol) * login_lockout_duration pol div login_lockout_duration pol
      \<le> login_lockout_window pol div login_lockout_duration pol" using assms(2) by (rule zdiv_mono1)
  then show ?thesis using assms(2) by (simp add: window_guesses_def)
qed

text \<open>
  The guesses so far: those of the \<open>n\<close> windows that are over, each as many as a window allows, and those of the
  running one, which began \<open>n\<close> windows after the first at the earliest.
\<close>

lemma guesses_counted:
  assumes "0 < login_lockout_failures pol" "0 < login_lockout_duration pol" "0 < login_lockout_window pol"
    and "sorted (t # ts)" "\<forall>u\<in>set (t # ts). u \<le> t0 + width" "t0 + of_int (n * login_lockout_window pol) \<le> t"
    and "case map_of d key of
      None \<Rightarrow> n = 0
    | Some a \<Rightarrow> attempt_ok pol t a \<and> t0 + of_int (n * login_lockout_window pol) \<le> first_attempt_at a"
    and "0 \<le> n"
  shows "int (guesses pol key ts d) + n * window_guesses pol + (case map_of d key of None \<Rightarrow> 0 | Some a \<Rightarrow> attempt_count a)
    \<le> window_guesses pol * (\<lfloor>width / of_int (login_lockout_window pol)\<rfloor> + 1)"
  using assms(4-8)
proof (induction ts arbitrary: t d n)
  case Nil
  let ?W = "login_lockout_window pol"
  have "of_int (n * ?W) \<le> width" using Nil.prems(2,3) by auto
  then have "of_int n \<le> width / of_int ?W" using assms(3) by (simp add: field_simps)
  then have n: "n \<le> \<lfloor>width / of_int ?W\<rfloor>" by (simp add: le_floor_iff)
  have pos: "0 \<le> window_guesses pol"
    using assms(1-3) pos_imp_zdiv_nonneg_iff [OF assms(2), of ?W] by (simp add: window_guesses_def)
  have "(case map_of d key of None \<Rightarrow> 0 | Some a \<Rightarrow> attempt_count a) \<le> window_guesses pol"
    using Nil.prems(4) attempt_count_bound [OF _ assms(2,3)] pos by (auto split: option.splits)
  moreover have "n * window_guesses pol \<le> \<lfloor>width / of_int ?W\<rfloor> * window_guesses pol" using n pos by (rule mult_right_mono)
  ultimately show ?case by (simp add: algebra_simps)
next
  case (Cons u ts)
  let ?W = "login_lockout_window pol"
  have order: "t \<le> u" "sorted (u # ts)" "\<forall>x\<in>set (u # ts). x \<le> t0 + width" using Cons.prems(1,2) by auto
  have start: "t0 + of_int (n * ?W) \<le> u" using Cons.prems(3) order(1) by simp
  show ?case
  proof (cases "check_login_lockout pol u key d")
    case (Inl err)
    have later: "attempt_ok pol u a" if "attempt_ok pol t a" for a using that order(1) by (auto simp: attempt_ok_def)
    have "case map_of d key of None \<Rightarrow> n = 0 | Some a \<Rightarrow> attempt_ok pol u a \<and> t0 + of_int (n * ?W) \<le> first_attempt_at a"
      using Cons.prems(4) later by (auto split: option.splits)
    from Cons.IH [OF order(2,3) start this Cons.prems(5)] Inl show ?thesis by simp
  next
    case (Inr info)
    let ?d = "snd (record_login_failure pol u key info d)"
    have rows: "case map_of d key of None \<Rightarrow> True | Some a \<Rightarrow> attempt_ok pol t a" using Cons.prems(4) by (auto split: option.splits)
    obtain a' where a': "map_of ?d key = Some a'" "attempt_ok pol u a'"
      and kind: "attempt_count a' = 1 \<and> first_attempt_at a' = u \<and>
           (case map_of d key of None \<Rightarrow> True | Some a \<Rightarrow> first_attempt_at a + of_int ?W < u) \<or>
         (\<exists>a. map_of d key = Some a \<and> attempt_count a' = attempt_count a + 1 \<and> first_attempt_at a' = first_attempt_at a)"
      by (rule failure_row [OF assms(1,2) Inr order(1) rows refl])
    from kind consider (first) "map_of d key = None" "attempt_count a' = 1" "first_attempt_at a' = u"
      | (reset) a where "map_of d key = Some a" "attempt_count a' = 1" "first_attempt_at a' = u" "first_attempt_at a + of_int ?W < u"
      | (again) a where "map_of d key = Some a" "attempt_count a' = attempt_count a + 1" "first_attempt_at a' = first_attempt_at a"
      by (cases "map_of d key") auto
    then show ?thesis
    proof cases
      case first
      then have "n = 0" using Cons.prems(4) by simp
      with Cons.IH [OF order(2,3), of 0 ?d] a' first start Inr show ?thesis by simp
    next
      case (reset a)
      have "t0 + of_int (n * ?W) \<le> first_attempt_at a" using Cons.prems(4) reset(1) by simp
      then have "t0 + of_int ((n + 1) * ?W) \<le> u" using reset(4) by (simp add: algebra_simps)
      with Cons.IH [OF order(2,3), of "n + 1" ?d] a' reset(2,3) Cons.prems(5)
      have "int (guesses pol key ts ?d) + (n + 1) * window_guesses pol + 1 \<le> window_guesses pol * (\<lfloor>width / of_int ?W\<rfloor> + 1)" by simp
      moreover have "attempt_count a \<le> window_guesses pol"
        using Cons.prems(4) reset(1) attempt_count_bound [OF _ assms(2,3)] by auto
      ultimately show ?thesis using Inr reset(1) by (simp add: algebra_simps)
    next
      case (again a)
      then have "t0 + of_int (n * ?W) \<le> first_attempt_at a'" using Cons.prems(4) by simp
      with Cons.IH [OF order(2,3) start, of ?d] a' again Cons.prems(5) Inr show ?thesis by simp
    qed
  qed
qed


definition default_lockout :: lockout_policy where
  "default_lockout = \<lparr>login_lockout_failures = 5, login_lockout_duration = 900, login_lockout_window = 300\<rparr>"


text \<open>
  The check and the recording of a failure are separate requests' steps: what a failure knows of the row is what it read
  before the password was verified. A failure that read it when its window was over resets it - and takes back a lock
  that concurrent failures have set since.
\<close>

theorem stale_reset_unlocks:
  assumes "1 < login_lockout_failures pol" "map_of d key = Some a" "window_elapsed pol now (Some stale)"
  shows "check_login_lockout pol now key (snd (record_login_failure pol now key (Some stale) d)) =
    Inr (Some \<lparr>attempt_count = 1, first_attempt_at = now, locked_until = None\<rparr>)"
  using assms
  by (cases a) (simp add: record_login_failure_def record_failed_login_def check_login_lockout_def should_lockout_def get_login_attempt_info_def
      is_locked_out_def map_of_dict_update Let_def)


section \<open>The rate limit of e-mail\<close>

type_synonym timestamps = "(string, real) dict"

definition RATE_LIMIT_MAX_ENTRIES :: nat where "RATE_LIMIT_MAX_ENTRIES = 10000"

definition prune_timestamps :: "real \<Rightarrow> real \<Rightarrow> timestamps \<Rightarrow> timestamps" where
  "prune_timestamps cooldown now ts = dropWhile (\<lambda>(_, t). t < now - cooldown) ts"

text \<open>\<open>rate_limit_key\<close> is the keyed hash \<open>hash\<close>. The loop that sheds the oldest entries of a full table is the \<^const>\<open>drop\<close>.\<close>

definition rate_limited :: "(string \<Rightarrow> string) \<Rightarrow> real \<Rightarrow> real \<Rightarrow> string \<Rightarrow> timestamps \<Rightarrow> bool \<times> timestamps" where
  "rate_limited hash cooldown now email ts =
     (let key = hash email; last = (case map_of ts key of None \<Rightarrow> 0 | Some t \<Rightarrow> t)
      in if now - last < cooldown then (True, ts)
         else (let ts = prune_timestamps cooldown now ts;
                   ts = drop (Suc (length ts) - RATE_LIMIT_MAX_ENTRIES) ts
               in (False, AList.update key now ts)))"

fun rate_limit_run :: "(string \<Rightarrow> string) \<Rightarrow> real \<Rightarrow> (real \<times> string) list \<Rightarrow> timestamps \<Rightarrow> timestamps" where
  "rate_limit_run hash cooldown [] ts = ts"
| "rate_limit_run hash cooldown ((now, email) # rest) ts = rate_limit_run hash cooldown rest (snd (rate_limited hash cooldown now email ts))"

lemma rate_limited_length:
  "length ts \<le> RATE_LIMIT_MAX_ENTRIES \<Longrightarrow> length (snd (rate_limited hash cooldown now email ts)) \<le> RATE_LIMIT_MAX_ENTRIES"
proof -
  assume "length ts \<le> RATE_LIMIT_MAX_ENTRIES"
  moreover have "length (AList.update k v (drop (Suc (length xs) - RATE_LIMIT_MAX_ENTRIES) xs)) \<le> RATE_LIMIT_MAX_ENTRIES" for k v and xs :: timestamps
    using length_dict_update [of k v "drop (Suc (length xs) - RATE_LIMIT_MAX_ENTRIES) xs"] by (simp add: RATE_LIMIT_MAX_ENTRIES_def)
  ultimately show ?thesis by (simp add: rate_limited_def Let_def)
qed

lemma rate_limit_run_length:
  "length ts \<le> RATE_LIMIT_MAX_ENTRIES \<Longrightarrow> length (rate_limit_run hash cooldown rs ts) \<le> RATE_LIMIT_MAX_ENTRIES"
  by (induction hash cooldown rs ts rule: rate_limit_run.induct) (auto intro: rate_limited_length)

lemma map_of_dropWhile:
  assumes "dict_ok d" "map_of d k = Some v" "\<not> P (k, v)"
  shows "map_of (dropWhile P d) k = Some v"
  using assms
proof (induction d)
  case (Cons x d)
  then show ?case by (cases x) (auto dest: map_of_SomeD split: if_splits)
qed simp

lemma dict_ok_dropWhile: "dict_ok d \<Longrightarrow> dict_ok (dropWhile P d)"
  by (metis distinct_append map_append takeWhile_dropWhile_id)

text \<open>An entry stays until its cooldown is over, as long as the table does not fill up.\<close>

lemma rate_limited_keeps:
  assumes "dict_ok ts" "map_of ts k = Some t" "now < t + cooldown" "Suc (length ts) \<le> RATE_LIMIT_MAX_ENTRIES"
    and "rate_limited hash cooldown now email ts = (b, ts')"
  shows "dict_ok ts'" "map_of ts' k = Some t" "length ts' \<le> Suc (length ts)"
proof -
  let ?p = "prune_timestamps cooldown now ts"
  have p: "dict_ok ?p" "map_of ?p k = Some t" "length ?p \<le> length ts"
    using dict_ok_dropWhile [OF assms(1)] map_of_dropWhile [OF assms(1,2)] assms(3) length_dropWhile_le
    by (auto simp: prune_timestamps_def)
  have "now - t < cooldown" using assms(3) by simp
  then have "ts' = ts \<or> hash email \<noteq> k \<and> ts' = AList.update (hash email) now ?p"
    using assms(2,4,5) p(3) by (auto simp: rate_limited_def Let_def split: if_splits)
  then show "dict_ok ts'" "map_of ts' k = Some t" "length ts' \<le> Suc (length ts)"
    using assms(1,2) p length_dict_update [of "hash email" now ?p] by (auto simp: map_of_dict_update)
qed

lemma rate_limit_run_keeps:
  assumes "dict_ok ts" "map_of ts k = Some t" "length ts + length rs \<le> RATE_LIMIT_MAX_ENTRIES" "\<forall>(u, _)\<in>set rs. u < t + cooldown"
  shows "map_of (rate_limit_run hash cooldown rs ts) k = Some t"
  using assms
proof (induction rs arbitrary: ts)
  case (Cons r rs)
  obtain u email b ts' where r: "r = (u, email)" "rate_limited hash cooldown u email ts = (b, ts')" by (metis surj_pair)
  note kept = rate_limited_keeps [OF Cons.prems(1,2) _ _ r(2)]
  have "u < t + cooldown" "Suc (length ts) \<le> RATE_LIMIT_MAX_ENTRIES" using Cons.prems(3,4) r(1) by auto
  then have "map_of (rate_limit_run hash cooldown rs ts') k = Some t"
    using Cons.IH [OF kept(1,2)] kept(3) Cons.prems(3,4) by auto
  then show ?case by (simp add: r)
qed simp

text \<open>
  The rate limit: the table never exceeds its bound, and while it is not full, an address whose request was let
  through is refused until the cooldown is over, whatever requests for whatever addresses come in between.
\<close>

theorem rate_limit_holds:
  assumes "dict_ok ts" "length ts + length rs < RATE_LIMIT_MAX_ENTRIES" "rate_limited hash cooldown t email ts = (False, ts')"
    and "\<forall>(u, _)\<in>set rs. u < t + cooldown" "now < t + cooldown"
  shows "length (rate_limit_run hash cooldown rs ts') \<le> RATE_LIMIT_MAX_ENTRIES \<and>
    fst (rate_limited hash cooldown now email (rate_limit_run hash cooldown rs ts')) = True"
proof -
  let ?p = "prune_timestamps cooldown t ts"
  have p: "dict_ok ?p" "length ?p \<le> length ts"
    using dict_ok_dropWhile [OF assms(1)] length_dropWhile_le by (auto simp: prune_timestamps_def)
  then have ts': "ts' = AList.update (hash email) t ?p" using assms(2,3) by (auto simp: rate_limited_def Let_def split: if_splits)
  then have new: "dict_ok ts'" "map_of ts' (hash email) = Some t" "length ts' \<le> Suc (length ts)"
    using p length_dict_update [of "hash email" t ?p] by (auto simp: map_of_dict_update)
  have "map_of (rate_limit_run hash cooldown rs ts') (hash email) = Some t"
    using rate_limit_run_keeps [OF new(1,2), of rs cooldown hash] new(3) assms(2,4) by simp
  moreover have "length ts' \<le> RATE_LIMIT_MAX_ENTRIES" using new(3) assms(2) by simp
  ultimately show ?thesis using assms(5) rate_limit_run_length [of ts'] by (simp add: rate_limited_def Let_def)
qed

theorem rate_limit_holds_witness:
  "fst (rate_limited id 60 150 ''a'' (rate_limit_run id 60 [(120, ''b'')] (snd (rate_limited id 60 100 ''a'' [])))) = True"
  using rate_limit_holds [of "[]" "[(120, ''b'')]" id 60 100 "''a''" "[(''a'', 100)]" 150]
  by (simp add: rate_limited_def prune_timestamps_def RATE_LIMIT_MAX_ENTRIES_def Let_def)

text \<open>An address never seen counts as seen at time zero of the monotonic clock: right after a boot it is refused.\<close>

lemma unseen_address_refused: "now < cooldown \<Longrightarrow> fst (rate_limited hash cooldown now email []) = True"
  by (simp add: rate_limited_def)

end
