(* ===== verification/Passwords.thy ===== *)
theory Passwords
  imports Audit_Hmac
begin

text \<open>
  Passwords in \<open>klangk/auth.py\<close> and \<open>klangk/model/users.py\<close>: the policy on length and character classes, the edit
  distance to the old password, the self-describing hashes, the history of retired hashes and the minimum age.
  PBKDF2 and base64 are the parameter \<open>h\<close>, the salt a hash draws an argument; timestamps are numbers of seconds.
\<close>

section \<open>The policy\<close>

record password_policy =
  min_password_length :: int
  password_require_upper :: int
  password_require_lower :: int
  password_require_digit :: int
  password_require_special :: int
  password_history_count :: int
  password_min_changed :: int
  password_min_age_hours :: int

definition MAX_PASSWORD_BYTES :: nat where "MAX_PASSWORD_BYTES = 72"

definition count_class :: "string \<Rightarrow> char \<Rightarrow> char \<Rightarrow> int" where
  "count_class password lo hi =
     int (length (filter (\<lambda>c. (of_char lo :: nat) \<le> of_char c \<and> (of_char c :: nat) \<le> of_char hi) password))"

text \<open>The dictionary of counts, as a function of its key.\<close>

datatype char_class = Upper | Lower | Digit | Special

definition password_class_counts :: "string \<Rightarrow> char_class \<Rightarrow> int" where
  "password_class_counts password k =
     (let upper = count_class password CHR ''A'' CHR ''Z''; lower = count_class password CHR ''a'' CHR ''z'';
          digit = count_class password CHR ''0'' CHR ''9''
      in case k of Upper \<Rightarrow> upper | Lower \<Rightarrow> lower | Digit \<Rightarrow> digit
         | Special \<Rightarrow> int (length password) - upper - lower - digit)"

definition PASSWORD_CLASSES :: "(char_class \<times> string) list" where
  "PASSWORD_CLASSES = [(Upper, ''uppercase letter''), (Lower, ''lowercase letter''), (Digit, ''digit''), (Special, ''special character'')]"

definition required :: "password_policy \<Rightarrow> char_class \<Rightarrow> int" where
  "required pol k =
     (case k of Upper \<Rightarrow> password_require_upper pol | Lower \<Rightarrow> password_require_lower pol
      | Digit \<Rightarrow> password_require_digit pol | Special \<Rightarrow> password_require_special pol)"

definition unmet_requirement :: "char_class \<Rightarrow> string \<Rightarrow> (char_class \<Rightarrow> int) \<Rightarrow> (char_class \<Rightarrow> int) \<Rightarrow> string option" where
  "unmet_requirement k name configured counts =
     (let need = configured k
      in if need > 0 \<and> counts k < need
         then Some (''at least '' @ str_int need @ '' '' @ name @ (if need \<noteq> 1 then ''s'' else ''''))
         else None)"

definition validate_password_length :: "password_policy \<Rightarrow> string \<Rightarrow> http_error option" where
  "validate_password_length pol password =
     (if int (length password) < min_password_length pol
      then Some (400, ''Password must be at least '' @ str_int (min_password_length pol) @ '' characters'')
      else if length (encode password) > MAX_PASSWORD_BYTES
      then Some (400, ''Password must not exceed '' @ str_nat MAX_PASSWORD_BYTES @ '' bytes'')
      else None)"

fun join_comma :: "string list \<Rightarrow> string" where
  "join_comma [] = []"
| "join_comma [s] = s"
| "join_comma (s # ss) = s @ '', '' @ join_comma ss"

definition validate_password_complexity :: "password_policy \<Rightarrow> string \<Rightarrow> http_error option" where
  "validate_password_complexity pol password =
     (let counts = password_class_counts password;
          unmet = List.map_filter (\<lambda>(k, name). unmet_requirement k name (required pol) counts) PASSWORD_CLASSES
      in if unmet \<noteq> [] then Some (400, ''Password must contain '' @ join_comma unmet) else None)"

definition validate_password :: "password_policy \<Rightarrow> string \<Rightarrow> http_error option" where
  "validate_password pol password =
     (case validate_password_length pol password of
        Some err \<Rightarrow> Some err
      | None \<Rightarrow> validate_password_complexity pol password)"


section \<open>How much a password changed\<close>

text \<open>The row of the table for the \<open>i\<close>-th old character, filled from left to right.\<close>

definition edit_row :: "char \<Rightarrow> string \<Rightarrow> nat \<Rightarrow> nat list \<Rightarrow> nat list" where
  "edit_row old_char new i prev =
     fold (\<lambda>(j, new_char) cur.
         cur[j := min (prev ! j + 1) (min (cur ! (j - 1) + 1) (prev ! (j - 1) + of_bool (old_char \<noteq> new_char)))])
       (List.enumerate 1 new) (i # replicate (length new) 0)"

definition password_edit_distance :: "string \<Rightarrow> string \<Rightarrow> nat" where
  "password_edit_distance old new =
     last (fold (\<lambda>(i, old_char) prev. edit_row old_char new i prev) (List.enumerate 1 old) [0..<length new + 1])"

definition validate_password_changed_enough :: "password_policy \<Rightarrow> string \<Rightarrow> string \<Rightarrow> http_error option" where
  "validate_password_changed_enough pol old new =
     (let minimum = password_min_changed pol
      in if minimum \<le> 0 then None
         else if int (password_edit_distance old new) < minimum
         then Some (400, ''New password must change at least '' @ str_int minimum @ '' characters from the current password'')
         else None)"

text \<open>The specification: how many single characters have to be replaced, inserted or deleted, one after the other.\<close>

inductive edit1 :: "'a list \<Rightarrow> 'a list \<Rightarrow> bool" where
  replaced: "edit1 (u @ a # v) (u @ b # v)"
| inserted: "edit1 (u @ v) (u @ b # v)"
| deleted: "edit1 (u @ a # v) (u @ v)"

fun lev :: "'a list \<Rightarrow> 'a list \<Rightarrow> nat" where
  "lev [] ys = length ys"
| "lev (x # xs) [] = Suc (length xs)"
| "lev (x # xs) (y # ys) = min (lev xs (y # ys) + 1) (min (lev (x # xs) ys + 1) (lev xs ys + of_bool (x \<noteq> y)))"

lemma lev_Nil2: "lev xs [] = length xs"
  by (cases xs) simp_all

lemma lev_same: "lev xs xs = 0"
  by (induction xs) simp_all

lemma lev_Cons_left: "lev (x # xs) ys \<le> Suc (lev xs ys)"
  by (cases ys) (simp_all add: lev_Nil2)

lemma lev_Cons_right: "lev xs (y # ys) \<le> Suc (lev xs ys)"
  by (cases xs) simp_all

lemma lev_uncons_left: "lev xs ys \<le> Suc (lev (x # xs) ys)"
proof (induction ys)
  case (Cons y ys)
  then show ?case using lev_Cons_right [of xs y ys] by (auto simp: min_def)
qed (simp add: lev_Nil2)

lemma lev_replaced: "lev (a # xs) ys \<le> Suc (lev (b # xs) ys)"
proof (induction ys)
  case (Cons y ys)
  then show ?case by (auto simp: min_def)
qed simp

lemma lev_Cons_near:
  assumes "\<And>ys. lev xs ys \<le> Suc (lev xs' ys)"
  shows "lev (c # xs) ys \<le> Suc (lev (c # xs') ys)"
proof (induction ys)
  case Nil
  show ?case using assms [of "[]"] by (simp add: lev_Nil2)
next
  case (Cons y ys)
  then show ?case using assms [of "y # ys"] assms [of ys] by (auto simp: min_def)
qed

lemma lev_edit1: "edit1 xs xs' \<Longrightarrow> lev xs ys \<le> Suc (lev xs' ys)"
proof (induction arbitrary: ys rule: edit1.induct)
  case (replaced u a v b)
  show ?case by (induction u arbitrary: ys) (simp_all only: append_Nil append_Cons lev_replaced lev_Cons_near)
next
  case (inserted u v b)
  show ?case by (induction u arbitrary: ys) (simp_all only: append_Nil append_Cons lev_uncons_left lev_Cons_near)
next
  case (deleted u a v)
  show ?case by (induction u arbitrary: ys) (simp_all only: append_Nil append_Cons lev_Cons_left lev_Cons_near)
qed

lemma lev_lower: "(edit1 ^^ n) xs ys \<Longrightarrow> lev xs ys \<le> n"
proof (induction n arbitrary: xs)
  case 0
  then show ?case by (simp add: lev_same)
next
  case (Suc n)
  then obtain zs where "edit1 xs zs" "(edit1 ^^ n) zs ys" by (metis relpowp_Suc_D2)
  with Suc.IH [of zs] lev_edit1 [of xs zs ys] show ?case by simp
qed

lemma edit1_Cons: "edit1 xs ys \<Longrightarrow> edit1 (c # xs) (c # ys)"
  by (induction rule: edit1.induct) (metis append_Cons edit1.intros)+

lemma edits_Cons: "(edit1 ^^ n) xs ys \<Longrightarrow> (edit1 ^^ n) (c # xs) (c # ys)"
proof (induction n arbitrary: ys)
  case (Suc n)
  then obtain zs where "(edit1 ^^ n) xs zs" "edit1 zs ys" by auto
  with Suc.IH edit1_Cons [of zs ys c] show ?case by auto
qed simp

lemma edit1_ends: "edit1 (a # xs) xs" "edit1 ys (b # ys)" "edit1 (a # xs) (b # xs)"
  using edit1.intros [where u = "[]"] by auto

lemma lev_reached: "(edit1 ^^ lev xs ys) xs ys"
proof (induction xs ys rule: lev.induct)
  case (1 ys)
  have "(edit1 ^^ length ys) [] (ys :: 'a list)"
  proof (induction ys)
    case (Cons y ys)
    then show ?case by (metis edit1_ends(2) length_Cons relpowp_Suc_I)
  qed simp
  then show ?case by simp
next
  case (2 x xs)
  have "(edit1 ^^ length xs) xs []" for xs :: "'a list"
  proof (induction xs)
    case (Cons x xs)
    then show ?case by (metis edit1_ends(1) length_Cons relpowp_Suc_I2)
  qed simp
  from this [of "x # xs"] show ?case by simp
next
  case (3 x xs y ys)
  have "(edit1 ^^ (lev xs (y # ys) + 1)) (x # xs) (y # ys)" using 3(1) by (metis Suc_eq_plus1 edit1_ends(1) relpowp_Suc_I2)
  moreover have "(edit1 ^^ (lev (x # xs) ys + 1)) (x # xs) (y # ys)" using 3(2) by (metis Suc_eq_plus1 edit1_ends(2) relpowp_Suc_I)
  moreover have "(edit1 ^^ (lev xs ys + of_bool (x \<noteq> y))) (x # xs) (y # ys)"
    using edits_Cons [OF 3(3), of x] edit1_ends(3) [of y ys x] edits_Cons [OF 3(3), of y]
    by (cases "x = y") (auto intro: relpowp_Suc_I2 edit1_ends(3))
  ultimately show ?case unfolding lev.simps by (metis min_def)
qed

lemma edit1_rev: "edit1 xs ys \<Longrightarrow> edit1 (rev xs) (rev ys)"
  by (induction rule: edit1.induct) (auto intro: edit1.intros)

lemma edits_rev: "(edit1 ^^ n) xs ys \<Longrightarrow> (edit1 ^^ n) (rev xs) (rev ys)"
proof (induction n arbitrary: ys)
  case (Suc n)
  then obtain zs where "(edit1 ^^ n) xs zs" "edit1 zs ys" by auto
  with Suc.IH edit1_rev show ?case by auto
qed simp

lemma lev_rev: "lev (rev xs) (rev ys) = lev xs ys"
  using lev_lower [OF edits_rev [OF lev_reached [of xs ys]]] lev_lower [OF edits_rev [OF lev_reached [of "rev xs" "rev ys"]]]
  by simp

lemma lev_least: "lev xs ys = (LEAST n. (edit1 ^^ n) xs ys)"
  using Least_equality [of "\<lambda>n. (edit1 ^^ n) xs ys", OF lev_reached lev_lower] by simp

text \<open>The table: the entry of row \<open>i\<close> and column \<open>j\<close> is the distance of the first \<open>i\<close> and \<open>j\<close> characters.\<close>

lemma lev_take_Suc:
  assumes "i < length xs" "j < length ys"
  shows "lev (rev (take (Suc i) xs)) (rev (take (Suc j) ys)) =
    min (lev (rev (take i xs)) (rev (take (Suc j) ys)) + 1)
      (min (lev (rev (take (Suc i) xs)) (rev (take j ys)) + 1) (lev (rev (take i xs)) (rev (take j ys)) + of_bool (xs ! i \<noteq> ys ! j)))"
  using assms by (simp add: take_Suc_conv_app_nth)

lemma enumerate_take: "k \<le> length ys \<Longrightarrow> take k (List.enumerate n ys) = List.enumerate n (take k ys)"
  by (rule nth_equalityI) (auto simp: nth_enumerate_eq)

lemma edit_row_correct:
  assumes "i < length xs"
  shows "edit_row (xs ! i) ys (Suc i) (map (\<lambda>j. lev (rev (take i xs)) (rev (take j ys))) [0..<length ys + 1]) =
    map (\<lambda>j. lev (rev (take (Suc i) xs)) (rev (take j ys))) [0..<length ys + 1]"
proof -
  let ?D = "\<lambda>i j. lev (rev (take i xs)) (rev (take j ys))"
  let ?prev = "map (?D i) [0..<length ys + 1]"
  let ?step = "\<lambda>(j, new_char) cur. cur[j := min (?prev ! j + 1) (min (cur ! (j - 1) + 1) (?prev ! (j - 1) + of_bool (xs ! i \<noteq> new_char)))]"
  have "fold ?step (take k (List.enumerate 1 ys)) (Suc i # replicate (length ys) 0) =
      map (?D (Suc i)) [0..<k + 1] @ replicate (length ys - k) 0" if "k \<le> length ys" for k
    using that
  proof (induction k)
    case 0
    show ?case using assms by (simp add: lev_Nil2)
  next
    case (Suc k)
    then have k: "k < length ys" by simp
    let ?cur = "map (?D (Suc i)) [0..<k + 1] @ replicate (length ys - k) 0"
    have "take (Suc k) (List.enumerate 1 ys) = take k (List.enumerate 1 ys) @ [(Suc k, ys ! k)]"
      using k by (simp add: take_Suc_conv_app_nth nth_enumerate_eq)
    then have "fold ?step (take (Suc k) (List.enumerate 1 ys)) (Suc i # replicate (length ys) 0) = ?step (Suc k, ys ! k) ?cur"
      using Suc by simp
    also have "\<dots> = ?cur[Suc k := ?D (Suc i) (Suc k)]"
      using k lev_take_Suc [OF assms k] by (simp add: nth_append del: upt_Suc)
    also have "\<dots> = map (?D (Suc i)) [0..<Suc k + 1] @ replicate (length ys - Suc k) 0"
    proof -
      have "replicate (length ys - k) (0 :: nat) = 0 # replicate (length ys - Suc k) 0"
        using k by (simp add: Suc_diff_Suc flip: replicate_Suc)
      then show ?thesis by (simp add: list_update_append)
    qed
    finally show ?case .
  qed
  from this [of "length ys"] show ?thesis by (simp add: edit_row_def)
qed

lemma edit_table:
  "k \<le> length xs \<Longrightarrow> fold (\<lambda>(i, c) prev. edit_row c ys i prev) (take k (List.enumerate 1 xs)) [0..<length ys + 1] =
     map (\<lambda>j. lev (rev (take k xs)) (rev (take j ys))) [0..<length ys + 1]"
proof (induction k)
  case 0
  show ?case by (simp del: upt_Suc) (rule nth_equalityI; simp del: upt_Suc)
next
  case (Suc k)
  then have k: "k < length xs" by simp
  have "take (Suc k) (List.enumerate 1 xs) = take k (List.enumerate 1 xs) @ [(Suc k, xs ! k)]"
    using k by (simp add: take_Suc_conv_app_nth nth_enumerate_eq)
  with Suc edit_row_correct [OF k, of ys] show ?case by (simp del: upt_Suc)
qed

text \<open>
  (C17) The two-row table computes the distance the change policy is stated in: the least number of single characters to
  replace, insert or delete, one after the other, that turn the old password into the new one.
\<close>

theorem password_edit_distance_minimal:
  "password_edit_distance old new = (LEAST n. (edit1 ^^ n) old new)"
proof -
  have "password_edit_distance old new = lev (rev old) (rev new)"
    using edit_table [of "length old" old new] by (simp add: password_edit_distance_def last_map)
  then show ?thesis unfolding lev_rev by (simp only: lev_least)
qed


section \<open>Hashes\<close>

text \<open>\<open>hashlib.pbkdf2_hmac\<close> with SHA-512 and base64, whose decoder is strict.\<close>

record hashing =
  pbkdf2_hmac :: "byte list \<Rightarrow> byte list \<Rightarrow> int \<Rightarrow> byte list"
  b64encode :: "byte list \<Rightarrow> string"
  b64decode :: "string \<Rightarrow> byte list option"

definition PBKDF2_ITERATIONS :: nat where "PBKDF2_ITERATIONS = 600000"

definition MAX_VERIFY_ITERATIONS :: int where "MAX_VERIFY_ITERATIONS = 10000000"

definition HASH_SCHEME :: string where "HASH_SCHEME = ''pbkdf2_sha512''"

text \<open>\<^term>\<open>None\<close> is the \<open>ValueError\<close> of a password that is too long.\<close>

definition hash_password :: "hashing \<Rightarrow> byte list \<Rightarrow> string \<Rightarrow> string option" where
  "hash_password h salt password =
     (let encoded = encode password
      in if length encoded > MAX_PASSWORD_BYTES then None
         else Some (join_with CHR ''$''
           [HASH_SCHEME, str_nat PBKDF2_ITERATIONS, b64encode h salt,
            b64encode h (pbkdf2_hmac h encoded salt (int PBKDF2_ITERATIONS))]))"

definition verify_password :: "hashing \<Rightarrow> string \<Rightarrow> string \<Rightarrow> bool" where
  "verify_password h password hashed =
     (let encoded = encode password
      in if length encoded > MAX_PASSWORD_BYTES then False
         else case split_on CHR ''$'' hashed of
           [scheme, iterations_s, b64_salt, b64_digest] \<Rightarrow>
             (if scheme \<noteq> HASH_SCHEME then False
              else case py_int iterations_s of
                None \<Rightarrow> False
              | Some iterations \<Rightarrow>
                  (if \<not> (1 \<le> iterations \<and> iterations \<le> MAX_VERIFY_ITERATIONS) then False
                   else case (b64decode h b64_salt, b64decode h b64_digest) of
                     (Some salt, Some expected) \<Rightarrow> pbkdf2_hmac h encoded salt iterations = expected
                   | _ \<Rightarrow> False))
         | _ \<Rightarrow> False)"

definition base64_ok :: "hashing \<Rightarrow> bool" where
  "base64_ok h \<longleftrightarrow> (\<forall>bs. b64decode h (b64encode h bs) = Some bs \<and> CHR ''$'' \<notin> set (b64encode h bs))"

lemma str_nat_other:
  "CHR ''-'' \<notin> set (str_nat n)" "CHR ''+'' \<notin> set (str_nat n)" "CHR ''_'' \<notin> set (str_nat n)" "CHR ''$'' \<notin> set (str_nat n)"
  by (auto dest!: str_nat_digits simp: ascii_digit_def)

lemma py_int_str_nat: "length (str_nat n) \<le> 4300 \<Longrightarrow> py_int (str_nat n) = Some (int n)"
proof -
  assume n: "length (str_nat n) \<le> 4300"
  have digits: "list_all ascii_digit (str_nat n)" using str_nat_digits by (simp add: list_all_iff)
  have no: "list_all (\<lambda>c. \<not> isspace_char c) (str_nat n)"
    using str_nat_digits by (fastforce simp: list_all_iff isspace_char_def ascii_digit_def Let_def)
  have "\<not> startswith (str_nat n) ''-''" "\<not> startswith (str_nat n) ''+''"
    using str_nat_other [of n] by (auto simp: startswith_iff)
  then show ?thesis using digits n
    by (simp add: py_int_def Let_def strip_no_space [OF no] split_on_sep_free str_nat_other)
qed

text \<open>A hash made for a password verifies exactly the passwords whose derived key is the same - that one among them.\<close>

lemma hashed_password_verifies:
  assumes "base64_ok h" "hash_password h salt pw = Some hashed"
  shows "verify_password h pw' hashed \<longleftrightarrow> length (encode pw') \<le> MAX_PASSWORD_BYTES \<and>
    pbkdf2_hmac h (encode pw') salt (int PBKDF2_ITERATIONS) = pbkdf2_hmac h (encode pw) salt (int PBKDF2_ITERATIONS)"
proof -
  let ?d = "pbkdf2_hmac h (encode pw) salt (int PBKDF2_ITERATIONS)"
  have hashed: "hashed = join_with CHR ''$'' [HASH_SCHEME, str_nat PBKDF2_ITERATIONS, b64encode h salt, b64encode h ?d]"
    using assms(2) by (simp add: hash_password_def Let_def split: if_splits)
  have "CHR ''$'' \<notin> set x" if "x \<in> set [HASH_SCHEME, str_nat PBKDF2_ITERATIONS, b64encode h salt, b64encode h ?d]" for x
    using that assms(1) str_nat_other(4) [of PBKDF2_ITERATIONS] by (auto simp: base64_ok_def HASH_SCHEME_def)
  then have "split_on CHR ''$'' hashed = [HASH_SCHEME, str_nat PBKDF2_ITERATIONS, b64encode h salt, b64encode h ?d]"
    unfolding hashed by (intro split_on_join) auto
  moreover have "py_int (str_nat PBKDF2_ITERATIONS) = Some (int PBKDF2_ITERATIONS)"
    using length_str_nat [of PBKDF2_ITERATIONS 5] by (intro py_int_str_nat) (simp add: PBKDF2_ITERATIONS_def)
  moreover have "b64decode h (b64encode h bs) = Some bs" for bs using assms(1) by (simp add: base64_ok_def)
  ultimately show ?thesis by (auto simp: verify_password_def Let_def PBKDF2_ITERATIONS_def MAX_VERIFY_ITERATIONS_def)
qed


section \<open>The password of an account\<close>

text \<open>The password columns of a user and the retired hashes of the user in \<open>password_history\<close>, oldest first.\<close>

record account =
  password_hash :: "string option"
  password_set_at :: "real option"
  account_created_at :: "real option"
  must_change_password :: bool
  password_history :: "string list"

definition retire_password :: "string \<Rightarrow> nat \<Rightarrow> account \<Rightarrow> account" where
  "retire_password old_hash count a =
     (let history = password_history a @ [old_hash] in a\<lparr>password_history := drop (length history - count) history\<rparr>)"

definition set_password_and_flag :: "password_policy \<Rightarrow> real \<Rightarrow> string \<Rightarrow> bool option \<Rightarrow> account \<Rightarrow> account" where
  "set_password_and_flag pol stamp new_hash must_change a =
     (let a' = a\<lparr>password_hash := Some new_hash, password_set_at := Some stamp,
            must_change_password := (case must_change of None \<Rightarrow> must_change_password a | Some b \<Rightarrow> b)\<rparr>
      in case password_hash a of
           Some old \<Rightarrow> if password_history_count pol > 0 then retire_password old (nat (password_history_count pol)) a' else a'
         | None \<Rightarrow> a')"

definition get_password_history :: "nat \<Rightarrow> account \<Rightarrow> string list" where
  "get_password_history limit a = take limit (rev (password_history a))"

definition validate_password_not_reused :: "hashing \<Rightarrow> password_policy \<Rightarrow> string \<Rightarrow> account \<Rightarrow> http_error option" where
  "validate_password_not_reused h pol password a =
     (let count = password_history_count pol
      in if count \<le> 0 then None
         else if (case password_hash a of None \<Rightarrow> False | Some current \<Rightarrow> verify_password h password current)
         then Some (400, ''Password matches the current password; choose a different one'')
         else if list_ex (verify_password h password) (get_password_history (nat count) a)
         then Some (400, ''Password was used recently; choose a different one'')
         else None)"

definition password_set_time :: "account \<Rightarrow> real option" where
  "password_set_time a = (case password_set_at a of None \<Rightarrow> account_created_at a | Some t \<Rightarrow> Some t)"

text \<open>The wait is the ceiling of the whole seconds left, in hours.\<close>

definition validate_password_min_age :: "password_policy \<Rightarrow> real \<Rightarrow> account \<Rightarrow> http_error option" where
  "validate_password_min_age pol now a =
     (let hours = password_min_age_hours pol
      in if hours \<le> 0 then None
         else case password_set_time a of
           None \<Rightarrow> None
         | Some ts \<Rightarrow>
             (let remaining = of_int hours * 3600 - (now - ts)
              in if remaining > 0
                 then (let wait = max 1 (- (- \<lfloor>remaining\<rfloor> div 3600))
                       in Some (400, ''Password must be kept for at least '' @ str_int hours @ '' hour(s); try again in about '' @
                            str_int wait @ '' hour(s)''))
                 else None))"

text \<open>A sequence of changes, each with the salt its hash drew.\<close>

fun change_passwords :: "hashing \<Rightarrow> password_policy \<Rightarrow> (byte list \<times> string) list \<Rightarrow> account \<Rightarrow> account option" where
  "change_passwords h pol [] a = Some a"
| "change_passwords h pol ((salt, pw) # rest) a =
     (case hash_password h salt pw of
        None \<Rightarrow> None
      | Some hashed \<Rightarrow> change_passwords h pol rest (set_password_and_flag pol 0 hashed None a))"

text \<open>The last \<open>n\<close> elements.\<close>

definition last_of :: "nat \<Rightarrow> 'a list \<Rightarrow> 'a list" where
  "last_of n xs = drop (length xs - n) xs"

lemma last_of_append: "last_of n (last_of n xs @ ys) = last_of n (xs @ ys)"
  by (cases "n \<le> length xs") (auto simp: last_of_def add.commute)

lemma last_of_snoc: "last_of (Suc n) (xs @ [x]) = last_of n xs @ [x]"
  by (auto simp: last_of_def Suc_diff_le)

lemma set_last_of_append: "set (last_of n ys) \<subseteq> set (last_of n (xs @ ys))"
  by (auto simp: last_of_def)

definition known_hashes :: "account \<Rightarrow> string list" where
  "known_hashes a = password_history a @ (case password_hash a of None \<Rightarrow> [] | Some x \<Rightarrow> [x])"

lemma set_password_known:
  assumes "0 < password_history_count pol" "n = nat (password_history_count pol)"
  shows "last_of (Suc n) (known_hashes (set_password_and_flag pol t new b a)) = last_of (Suc n) (known_hashes a @ [new])"
  using last_of_append [of n "known_hashes a" "[]"] last_of_snoc [of n "password_history a @ _"] assms
  by (auto simp: set_password_and_flag_def retire_password_def known_hashes_def Let_def last_of_snoc last_of_def [symmetric] split: option.splits)

lemma change_passwords_known:
  assumes "change_passwords h pol cs a = Some a'" "0 < password_history_count pol" "n = nat (password_history_count pol)"
  shows "last_of (Suc n) (known_hashes a') = last_of (Suc n) (known_hashes a @ map (\<lambda>(salt, pw). the (hash_password h salt pw)) cs)"
  using assms(1)
proof (induction cs arbitrary: a)
  case Nil
  then show ?case by simp
next
  case (Cons c cs)
  obtain salt pw where c: "c = (salt, pw)" by fastforce
  with Cons.prems obtain x where x: "hash_password h salt pw = Some x"
    and rest: "change_passwords h pol cs (set_password_and_flag pol 0 x None a) = Some a'" by (auto split: option.splits)
  let ?hs = "map (\<lambda>(salt, pw). the (hash_password h salt pw)) cs"
  have "last_of (Suc n) (known_hashes a') = last_of (Suc n) (last_of (Suc n) (known_hashes (set_password_and_flag pol 0 x None a)) @ ?hs)"
    using Cons.IH [OF rest] by (simp add: last_of_append)
  also have "\<dots> = last_of (Suc n) ((known_hashes a @ [x]) @ ?hs)"
    unfolding set_password_known [OF assms(2,3)] by (rule last_of_append)
  finally show ?case by (simp add: c x)
qed

lemma change_passwords_current: "change_passwords h pol cs a = Some a' \<Longrightarrow> cs \<noteq> [] \<or> password_hash a \<noteq> None \<Longrightarrow> password_hash a' \<noteq> None"
proof (induction cs arbitrary: a)
  case (Cons c cs)
  have "password_hash (set_password_and_flag pol 0 x None a) \<noteq> None" for x
    by (auto simp: set_password_and_flag_def retire_password_def Let_def split: option.splits)
  with Cons show ?case by (cases c) (auto split: option.splits)
qed simp

lemma change_passwords_hashed: "change_passwords h pol cs a = Some a' \<Longrightarrow> (salt, pw) \<in> set cs \<Longrightarrow> hash_password h salt pw \<noteq> None"
  by (induction cs arbitrary: a) (auto split: option.splits)

text \<open>
  (C16) The history: whatever passwords an account had before, after any sequence of changes the current password and
  as many before it as the policy remembers are refused as new password.
\<close>

theorem recent_passwords_refused:
  assumes "base64_ok h" "change_passwords h pol cs a = Some a'" "0 < password_history_count pol"
    and "(salt, pw) \<in> set (last_of (Suc (nat (password_history_count pol))) cs)"
  shows "validate_password_not_reused h pol pw a' \<noteq> None"
proof -
  let ?n = "nat (password_history_count pol)"
  have "(salt, pw) \<in> set cs" using assms(4) by (auto simp: last_of_def dest: in_set_dropD)
  then obtain x where x: "hash_password h salt pw = Some x" using change_passwords_hashed [OF assms(2)] by blast
  from \<open>(salt, pw) \<in> set cs\<close> obtain cur where cur: "password_hash a' = Some cur" using change_passwords_current [OF assms(2)] by (cases cs) auto
  have "x \<in> set (last_of (Suc ?n) (map (\<lambda>(salt, pw). the (hash_password h salt pw)) cs))"
    using assms(4) x by (force simp: last_of_def drop_map)
  then have "x \<in> set (last_of (Suc ?n) (known_hashes a'))"
    using change_passwords_known [OF assms(2,3) refl] set_last_of_append by fastforce
  then have "x = cur \<or> x \<in> set (get_password_history ?n a')"
    using cur by (auto simp: known_hashes_def last_of_snoc last_of_def get_password_history_def take_rev)
  moreover have "verify_password h pw x"
    using hashed_password_verifies [OF assms(1) x, of pw] x by (auto simp: hash_password_def Let_def split: if_splits)
  ultimately show ?thesis
    using assms(3) cur by (auto simp: validate_password_not_reused_def Let_def list_ex_iff)
qed

text \<open>An encoding of bytes by two letters each, and a derivation that returns the password.\<close>

definition hex_letter :: "nat \<Rightarrow> char" where
  "hex_letter n = char_of (97 + n)"

definition plain_hashing :: hashing where
  "plain_hashing = \<lparr>pbkdf2_hmac = \<lambda>pw _ _. pw,
     b64encode = \<lambda>bs. concat (map (\<lambda>b. [hex_letter (unat b div 16), hex_letter (unat b mod 16)]) bs),
     b64decode = \<lambda>s. Some (map (\<lambda>i. of_nat ((of_char (s ! (2 * i)) - 97) * 16 + (of_char (s ! (2 * i + 1)) - 97))) [0..<length s div 2])\<rparr>"

lemma hex_letters: "n < 16 \<Longrightarrow> of_char (hex_letter n) = 97 + n \<and> hex_letter n \<noteq> CHR ''$''"
proof -
  assume n: "n < 16"
  then have "of_char (hex_letter n) = 97 + n" by (simp add: hex_letter_def of_char_of)
  moreover from this have "hex_letter n \<noteq> CHR ''$''" by auto
  ultimately show ?thesis by simp
qed

lemma hex_pairs:
  "b64decode plain_hashing (b64encode plain_hashing bs) = Some bs"
proof -
  let ?e = "concat (map (\<lambda>b :: byte. [hex_letter (unat b div 16), hex_letter (unat b mod 16)]) bs)"
  have len: "length ?e = 2 * length bs" by (induction bs) auto
  have nth: "?e ! (2 * i) = hex_letter (unat (bs ! i) div 16) \<and> ?e ! (2 * i + 1) = hex_letter (unat (bs ! i) mod 16)"
    if "i < length bs" for i
    using that
  proof (induction bs arbitrary: i)
    case (Cons b bs)
    then show ?case by (cases i) auto
  qed simp
  have "of_nat ((of_char (?e ! (2 * i)) - 97) * 16 + (of_char (?e ! (2 * i + 1)) - 97)) = bs ! i" if "i < length bs" for i
  proof -
    have "unat (bs ! i) div 16 < 16" using unat_byte_less [of "bs ! i"] by simp
    then show ?thesis using nth [OF that] hex_letters by simp
  qed
  then have "map (\<lambda>i. of_nat ((of_char (?e ! (2 * i)) - 97) * 16 + (of_char (?e ! (2 * i + 1)) - 97))) [0..<length bs] = bs"
    by (intro nth_equalityI) auto
  then show ?thesis by (simp add: plain_hashing_def len)
qed

lemma plain_base64: "base64_ok plain_hashing"
proof -
  have "CHR ''$'' \<notin> set (b64encode plain_hashing bs)" for bs
  proof -
    have "CHR ''$'' \<noteq> hex_letter (unat b div 16)" "CHR ''$'' \<noteq> hex_letter (unat b mod 16)" for b :: byte
      using hex_letters [of "unat b div 16", OF less_mult_imp_div_less] hex_letters [of "unat b mod 16"] unat_byte_less [of b] by auto
    then show ?thesis by (auto simp: plain_hashing_def)
  qed
  with hex_pairs show ?thesis by (simp add: base64_ok_def)
qed

definition plain_policy :: password_policy where
  "plain_policy = \<lparr>min_password_length = 8, password_require_upper = 0, password_require_lower = 0, password_require_digit = 0,
     password_require_special = 0, password_history_count = 1, password_min_changed = 0, password_min_age_hours = 0\<rparr>"

definition plain_account :: account where
  "plain_account = \<lparr>password_hash = None, password_set_at = None, account_created_at = None, must_change_password = False, password_history = []\<rparr>"

theorem recent_passwords_refused_witness:
  "map_option (\<lambda>a. validate_password_not_reused plain_hashing plain_policy ''b'' a = None)
     (change_passwords plain_hashing plain_policy [([], ''a''), ([], ''b''), ([], ''c'')] plain_account) = Some False"
proof -
  have "change_passwords plain_hashing plain_policy [([], ''a''), ([], ''b''), ([], ''c'')] plain_account \<noteq> None"
    by (simp add: hash_password_def Let_def encode_def utf8_char_def MAX_PASSWORD_BYTES_def)
  then obtain a where a: "change_passwords plain_hashing plain_policy [([], ''a''), ([], ''b''), ([], ''c'')] plain_account = Some a"
    by blast
  have "validate_password_not_reused plain_hashing plain_policy ''b'' a \<noteq> None"
    by (rule recent_passwords_refused [OF plain_base64 a, of "[]"]) (simp_all add: plain_policy_def last_of_def)
  with a show ?thesis by simp
qed

end
