(* ===== verification/Workstation.thy ===== *)
theory Workstation
  imports Netfilter
begin

text \<open>
  The workstation a session is bound to (\<open>klangk/auth.py\<close>, \<open>same_workstation_ip\<close> to \<open>workstation_mismatch\<close>): two
  client addresses name one machine when they are equal or lie in one IPv6 /64. What the standard library's
  \<open>ipaddress\<close> accepts as an address is written out.
\<close>

section \<open>Addresses\<close>

text \<open>\<open>ipaddress.ip_address\<close>: a number with its version, and the scope id of an IPv6 address.\<close>

datatype address = IPv4Address nat | IPv6Address nat "string option"

definition hex_value :: "char \<Rightarrow> nat option" where
  "hex_value c =
     (let n = (of_char c :: nat)
      in if 48 \<le> n \<and> n \<le> 57 then Some (n - 48)
         else if 97 \<le> n \<and> n \<le> 102 then Some (n - 87)
         else if 65 \<le> n \<and> n \<le> 70 then Some (n - 55) else None)"

definition parse_hextet :: "string \<Rightarrow> nat option" where
  "parse_hextet s =
     (if s = [] \<or> length s > 4 \<or> None \<in> set (map hex_value s) then None
      else Some (foldl (\<lambda>acc c. acc * 16 + the (hex_value c)) 0 s))"

text \<open>The hextets of the text: an IPv4 suffix counts as two.\<close>

definition hextet_values :: "string list \<Rightarrow> nat option list" where
  "hextet_values parts = map parse_hextet parts"

definition ipv6_parts :: "string \<Rightarrow> (string list \<times> nat option list) option" where
  "ipv6_parts s =
     (let parts = split_on CHR '':'' s
      in if length parts < 3 then None
         else if CHR ''.'' \<in> set (last parts)
         then (case ip_int_from_string (last parts) of
                 None \<Rightarrow> None
               | Some n \<Rightarrow> Some (butlast parts, [Some (n div 65536), Some (n mod 65536)]))
         else Some (parts, []))"

text \<open>
  \<open>_ip_int_from_string\<close>. \<open>parts\<close> are the texts between colons and \<open>low\<close> the two hextets of an IPv4 suffix. An empty
  text that is neither first nor last stands for the skipped zeros.
\<close>

definition join_hextets :: "nat option list \<Rightarrow> nat option" where
  "join_hextets hs = (if None \<in> set hs then None else Some (foldl (\<lambda>acc h. acc * 65536 + the h) 0 hs))"

definition expand_parts :: "string list \<Rightarrow> nat option list \<Rightarrow> nat option" where
  "expand_parts parts low =
     (let total = length parts + length low;
          empty = filter (\<lambda>i. parts ! i = []) [1..<(if low = [] then length parts - 1 else length parts)];
          no_last = (low = [] \<and> last parts = [])
      in if total > 9 then None
         else case empty of
           [] \<Rightarrow> if total \<noteq> 8 \<or> hd parts = [] \<or> no_last then None else join_hextets (hextet_values parts @ low)
         | [i] \<Rightarrow>
             (let hi = (if hd parts = [] then i - 1 else i);
                  lo = (if no_last then total - i - 2 else total - i - 1)
              in if hd parts = [] \<and> hi \<noteq> 0 \<or> no_last \<and> lo \<noteq> 0 \<or> hi + lo \<ge> 8 then None
                 else join_hextets
                   (hextet_values (take hi parts) @ replicate (8 - (hi + lo)) (Some 0) @
                    drop (total - lo) (hextet_values parts @ low)))
         | _ \<Rightarrow> None)"

definition split_scope_id :: "string \<Rightarrow> (string \<times> string option) option" where
  "split_scope_id s =
     (case split_on CHR ''%'' s of
        [addr] \<Rightarrow> Some (addr, None)
      | [addr, scope] \<Rightarrow> if scope = [] then None else Some (addr, Some scope)
      | _ \<Rightarrow> None)"

definition ip_address :: "string \<Rightarrow> address option" where
  "ip_address s =
     (if CHR ''/'' \<in> set s then None
      else case ip_int_from_string s of
        Some n \<Rightarrow> Some (IPv4Address n)
      | None \<Rightarrow>
          (case split_scope_id s of
             None \<Rightarrow> None
           | Some (addr, scope) \<Rightarrow>
               (case ipv6_parts addr of
                  None \<Rightarrow> None
                | Some (parts, low) \<Rightarrow> map_option (\<lambda>n. IPv6Address n scope) (expand_parts parts low))))"


section \<open>The comparison\<close>

definition unwrap_mapped :: "address \<Rightarrow> address" where
  "unwrap_mapped a =
     (case a of
        IPv6Address n _ \<Rightarrow> if n div 2 ^ 32 = 65535 then IPv4Address (n mod 2 ^ 32) else a
      | IPv4Address _ \<Rightarrow> a)"

definition same_ipv6_network :: "address \<Rightarrow> address \<Rightarrow> bool" where
  "same_ipv6_network a b =
     (case (a, b) of
        (IPv6Address m _, IPv6Address n _) \<Rightarrow> n div 2 ^ 64 = m div 2 ^ 64
      | _ \<Rightarrow> False)"

definition same_workstation_ip :: "string \<Rightarrow> string \<Rightarrow> bool" where
  "same_workstation_ip recorded presented \<longleftrightarrow>
     (if recorded = presented then True
      else case (ip_address recorded, ip_address presented) of
        (Some a, Some b) \<Rightarrow>
          unwrap_mapped a = unwrap_mapped b \<or> same_ipv6_network (unwrap_mapped a) (unwrap_mapped b)
      | _ \<Rightarrow> False)"

definition known_ips_differ :: "string option \<Rightarrow> string option \<Rightarrow> bool" where
  "known_ips_differ rec_ip ip =
     (case (rec_ip, ip) of (Some r, Some p) \<Rightarrow> \<not> same_workstation_ip r p | _ \<Rightarrow> False)"

definition known_agents_differ :: "string option \<Rightarrow> string option \<Rightarrow> bool" where
  "known_agents_differ rec_agent agent =
     (case (rec_agent, agent) of (Some r, Some p) \<Rightarrow> r \<noteq> p | _ \<Rightarrow> False)"

definition workstation_mismatch ::
  "string option \<times> string option \<Rightarrow> string option \<times> string option \<Rightarrow> bool \<Rightarrow> bool" where
  "workstation_mismatch recorded presented strict \<longleftrightarrow>
     known_ips_differ (fst recorded) (fst presented) \<or> strict \<and> known_agents_differ (snd recorded) (snd presented)"

text \<open>The reference: the machine a client address stands for.\<close>

datatype machine_key = Host4 nat | Net6 nat | Raw string

definition workstation_key :: "string \<Rightarrow> machine_key" where
  "workstation_key s =
     (case map_option unwrap_mapped (ip_address s) of
        None \<Rightarrow> Raw s
      | Some (IPv4Address n) \<Rightarrow> Host4 n
      | Some (IPv6Address n _) \<Rightarrow> Net6 (n div 2 ^ 64))"

text \<open>
  Two addresses are taken for one workstation exactly when they have the same key: the IPv4 address, in plain or
  mapped form, the IPv6 /64, or the text of something that is no address. So the comparison is an equivalence, and
  a client cannot drift away from the workstation a session was issued to by small steps.
\<close>

theorem same_workstation_key: "same_workstation_ip a b \<longleftrightarrow> workstation_key a = workstation_key b"
  by (auto simp: same_workstation_ip_def workstation_key_def same_ipv6_network_def split: option.splits address.splits)

end
