(* ===== verification/Sessions.thy ===== *)
theory Sessions
  imports Workstation Dpop
begin

text \<open>
  Login sessions: the tables of \<open>klangk/model/sessions.py\<close> and of \<open>TokensModel\<close> (\<open>klangk/model/model.py\<close>), the life
  of access tokens in \<open>klangk/auth.py\<close> - minting, refreshing, binding, revoking, the checks every request makes - and
  the step-up gate of \<open>klangk/stepup.py\<close>.

  Encoding and checking a JWT is the library's (\<open>jose\<close>): it is the argument \<open>j\<close>, with \<open>jwt_decode\<close> the claims of a
  token with a good signature. The user rows, the clocks and the uuids a request draws are its argument \<open>m\<close>; a
  request reads the clock once here, where the source reads it at every use. Timestamps are numbers: the source
  compares the ISO texts of UTC times, which order as the times do. Audit rows and log lines are output.
\<close>

section \<open>Data\<close>

text \<open>The claims that are read: \<open>sub\<close>, \<open>email\<close>, \<open>jti\<close>, \<open>exp\<close>, \<open>cnf.jkt\<close>, the bind deadline \<open>wbd\<close>, \<open>purpose\<close>, and \<open>pwb\<close>, what
  a reset token is bound to.\<close>

record payload =
  sub :: "string option"
  email :: "string option"
  jti :: "string option"
  exp :: "int option"
  jkt :: "string option"
  wbd :: "real option"
  purpose :: "string option"
  pwb :: "string option"

record 'tok jose =
  jwt_encode :: "payload \<Rightarrow> 'tok"
  jwt_decode :: "'tok \<Rightarrow> payload option"
  jwt_text :: "'tok \<Rightarrow> string"

record session_row =
  row_jti :: string
  row_user :: string
  expires_at :: real
  source_ip :: "string option"
  user_agent :: "string option"
  created_at :: real
  last_seen_at :: "real option"
  session_id :: string
  stepped_up_at :: "real option"

text \<open>
  \<open>sessions\<close> is the table in rowid order, \<open>blocklist\<close> the revoked ids with the token that replaced them, \<open>sockets\<close> the
  live web sockets - those of users and of deciders - with the id of the token they were opened with.
\<close>

record 'tok auth_state =
  sessions :: "session_row list"
  blocklist :: "(string, 'tok option) dict"
  session_stamps :: "(string, real) dict"
  sockets :: "(nat \<times> string) list"
  dpop_replay :: "(string, real) dict"

record user =
  u_id :: string
  u_email :: string
  u_disabled :: bool
  u_must_change :: bool
  u_has_password :: bool
  u_password_set_at :: "real option"
  u_admin :: bool

record auth_settings =
  token_expire_hours :: real
  session_idle_timeout_minutes :: int
  privileged_session_idle_timeout_minutes :: int
  max_sessions_per_user :: int
  session_workstation_binding :: string
  web_bind_grace_seconds :: int
  password_max_age_days :: int
  step_up_window_minutes :: int

record moment =
  now :: real
  monotonic :: real
  new_jti :: string
  new_sid :: string
  get_user :: "string \<Rightarrow> user option"

datatype auth_error = Unauthorized string | Forbidden string | Conflict | Bad_Key

datatype token_error = Invalid_Token | Expired_Signature

definition init_auth :: "'tok auth_state" where
  "init_auth = \<lparr>sessions = [], blocklist = [], session_stamps = [], sockets = [], dpop_replay = []\<rparr>"


section \<open>The tables\<close>

text \<open>The creation time is the database's, in whole seconds.\<close>

definition find_session :: "string \<Rightarrow> 'tok auth_state \<Rightarrow> session_row option" where
  "find_session i s = find (\<lambda>r. row_jti r = i) (sessions s)"

definition record_session ::
  "moment \<Rightarrow> string \<Rightarrow> string \<Rightarrow> real \<Rightarrow> string option \<Rightarrow> string option \<Rightarrow> 'tok auth_state \<Rightarrow> 'tok auth_state" where
  "record_session m user i expires ip agent s =
     s\<lparr>sessions := filter (\<lambda>r. row_jti r \<noteq> i) (sessions s) @
         [\<lparr>row_jti = i, row_user = user, expires_at = expires, source_ip = ip, user_agent = agent, created_at = of_int \<lfloor>now m\<rfloor>,
           last_seen_at = Some (now m), session_id = new_sid m, stepped_up_at = None\<rparr>]\<rparr>"

definition get_session_id :: "string option \<Rightarrow> 'tok auth_state \<Rightarrow> string option" where
  "get_session_id i s = (case i of None \<Rightarrow> None | Some i \<Rightarrow> map_option session_id (find_session i s))"

definition update_rows :: "(session_row \<Rightarrow> bool) \<Rightarrow> (session_row \<Rightarrow> session_row) \<Rightarrow> 'tok auth_state \<Rightarrow> 'tok auth_state" where
  "update_rows P f s = s\<lparr>sessions := map (\<lambda>r. if P r then f r else r) (sessions s)\<rparr>"

definition touch_session_by_sid :: "moment \<Rightarrow> string \<Rightarrow> 'tok auth_state \<Rightarrow> 'tok auth_state" where
  "touch_session_by_sid m sid = update_rows (\<lambda>r. session_id r = sid) (\<lambda>r. r\<lparr>last_seen_at := Some (now m)\<rparr>)"

definition touch_session :: "moment \<Rightarrow> string \<Rightarrow> 'tok auth_state \<Rightarrow> 'tok auth_state" where
  "touch_session m i = update_rows (\<lambda>r. row_jti r = i) (\<lambda>r. r\<lparr>last_seen_at := Some (now m)\<rparr>)"

definition get_workstation :: "string \<Rightarrow> 'tok auth_state \<Rightarrow> (string option \<times> string option) option" where
  "get_workstation i s = map_option (\<lambda>r. (source_ip r, user_agent r)) (find_session i s)"

definition get_last_seen :: "string \<Rightarrow> 'tok auth_state \<Rightarrow> real option" where
  "get_last_seen i s = Option.bind (find_session i s) last_seen_at"

definition get_stepped_up_at :: "string \<Rightarrow> 'tok auth_state \<Rightarrow> real option" where
  "get_stepped_up_at i s = Option.bind (find_session i s) stepped_up_at"

definition stamp_step_up :: "moment \<Rightarrow> string \<Rightarrow> 'tok auth_state \<Rightarrow> bool \<times> 'tok auth_state" where
  "stamp_step_up m i s =
     (find_session i s \<noteq> None, update_rows (\<lambda>r. row_jti r = i) (\<lambda>r. r\<lparr>stepped_up_at := Some (now m)\<rparr>) s)"

text \<open>
  \<open>replace_session\<close>: the row moves to the new id, or a fresh one is inserted. The new id is a fresh uuid, so the
  primary key is never violated.
\<close>

definition replace_session :: "moment \<Rightarrow> string \<Rightarrow> string \<Rightarrow> string \<Rightarrow> real \<Rightarrow> 'tok auth_state \<Rightarrow> 'tok auth_state" where
  "replace_session m old_jti user i expires s =
     (if find_session old_jti s \<noteq> None
      then update_rows (\<lambda>r. row_jti r = old_jti) (\<lambda>r. r\<lparr>row_jti := i, expires_at := expires\<rparr>) s
      else record_session m user i expires None None s)"

definition remove_sessions :: "string list \<Rightarrow> 'tok auth_state \<Rightarrow> 'tok auth_state" where
  "remove_sessions jtis s = s\<lparr>sessions := filter (\<lambda>r. row_jti r \<notin> set jtis) (sessions s)\<rparr>"

definition remove_session :: "string \<Rightarrow> 'tok auth_state \<Rightarrow> 'tok auth_state" where
  "remove_session i = remove_sessions [i]"

definition purge_expired :: "moment \<Rightarrow> 'tok auth_state \<Rightarrow> 'tok auth_state" where
  "purge_expired m s = s\<lparr>sessions := filter (\<lambda>r. \<not> expires_at r \<le> now m) (sessions s)\<rparr>"

definition list_sessions :: "string \<Rightarrow> 'tok auth_state \<Rightarrow> session_row list" where
  "list_sessions user s = sort_key created_at (filter (\<lambda>r. row_user r = user) (sessions s))"

text \<open>\<open>INSERT OR IGNORE\<close>: the first entry of an id stays.\<close>

definition blocklist_token :: "string \<Rightarrow> 'tok option \<Rightarrow> 'tok auth_state \<Rightarrow> 'tok auth_state" where
  "blocklist_token i new_token s =
     (if i \<in> fst ` set (blocklist s) then s else s\<lparr>blocklist := blocklist s @ [(i, new_token)]\<rparr>)"

definition is_token_blocklisted :: "string \<Rightarrow> 'tok auth_state \<Rightarrow> bool" where
  "is_token_blocklisted i s \<longleftrightarrow> i \<in> fst ` set (blocklist s)"

definition get_refreshed_token :: "string \<Rightarrow> 'tok auth_state \<Rightarrow> 'tok option" where
  "get_refreshed_token i s = Option.bind (map_of (blocklist s) i) id"

text \<open>\<open>disconnect_by_jti\<close> and \<open>reattach_jti\<close> of the socket registries.\<close>

definition kick_revoked_sockets :: "string \<Rightarrow> 'tok auth_state \<Rightarrow> 'tok auth_state" where
  "kick_revoked_sockets i s = s\<lparr>sockets := filter (\<lambda>(_, i'). i' \<noteq> i) (sockets s)\<rparr>"

definition retarget_refreshed_sockets :: "string \<Rightarrow> string \<Rightarrow> 'tok auth_state \<Rightarrow> 'tok auth_state" where
  "retarget_refreshed_sockets old_jti i s =
     s\<lparr>sockets := map (\<lambda>(k, i'). (k, if i' = old_jti then i else i')) (sockets s)\<rparr>"

definition forget_stamp :: "string \<Rightarrow> 'tok auth_state \<Rightarrow> 'tok auth_state" where
  "forget_stamp i s = s\<lparr>session_stamps := AList.delete (''jti:'' @ i) (session_stamps s)\<rparr>"


section \<open>Idle windows and activity stamps\<close>

definition effective_session_idle_minutes :: "auth_settings \<Rightarrow> bool \<Rightarrow> int" where
  "effective_session_idle_minutes cfg is_admin =
     (let window = session_idle_timeout_minutes cfg; privileged = privileged_session_idle_timeout_minutes cfg
      in if window \<le> 0 then 0 else if is_admin \<and> privileged > 0 then min window privileged else window)"

definition idle_window_minutes_for_user :: "auth_settings \<Rightarrow> moment \<Rightarrow> string \<Rightarrow> int" where
  "idle_window_minutes_for_user cfg m user =
     (if session_idle_timeout_minutes cfg \<le> 0 then 0
      else effective_session_idle_minutes cfg (case get_user m user of None \<Rightarrow> False | Some u \<Rightarrow> u_admin u))"

definition ACTIVITY_STAMP_INTERVAL :: real where "ACTIVITY_STAMP_INTERVAL = 60"

definition SESSION_STAMP_MAX_ENTRIES :: nat where "SESSION_STAMP_MAX_ENTRIES = 10000"

definition shortest_session_idle_minutes :: "auth_settings \<Rightarrow> int" where
  "shortest_session_idle_minutes cfg =
     (let window = session_idle_timeout_minutes cfg; privileged = privileged_session_idle_timeout_minutes cfg
      in if 0 < privileged \<and> privileged < window then privileged else window)"

definition session_stamp_interval :: "auth_settings \<Rightarrow> real" where
  "session_stamp_interval cfg = min ACTIVITY_STAMP_INTERVAL (of_int (shortest_session_idle_minutes cfg * 60) / 4)"

definition stamp_throttle_due :: "auth_settings \<Rightarrow> moment \<Rightarrow> string \<Rightarrow> 'tok auth_state \<Rightarrow> bool \<times> 'tok auth_state" where
  "stamp_throttle_due cfg m key s =
     (if (case map_of (session_stamps s) key of
            None \<Rightarrow> False
          | Some t \<Rightarrow> monotonic m - t < session_stamp_interval cfg)
      then (False, s)
      else
        (let kept = drop (Suc (length (session_stamps s)) - SESSION_STAMP_MAX_ENTRIES) (session_stamps s)
         in (True, s\<lparr>session_stamps := AList.update key (monotonic m) kept\<rparr>)))"

definition record_session_activity :: "auth_settings \<Rightarrow> moment \<Rightarrow> string \<Rightarrow> 'tok auth_state \<Rightarrow> 'tok auth_state" where
  "record_session_activity cfg m i s =
     (if session_idle_timeout_minutes cfg \<le> 0 then s
      else case stamp_throttle_due cfg m (''jti:'' @ i) s of
        (False, s) \<Rightarrow> s
      | (True, s) \<Rightarrow> touch_session m i s)"

definition record_ws_session_activity :: "auth_settings \<Rightarrow> moment \<Rightarrow> string \<Rightarrow> 'tok auth_state \<Rightarrow> 'tok auth_state" where
  "record_ws_session_activity cfg m sid s =
     (if session_idle_timeout_minutes cfg \<le> 0 then s
      else case stamp_throttle_due cfg m (''sid:'' @ sid) s of
        (False, s) \<Rightarrow> s
      | (True, s) \<Rightarrow> touch_session_by_sid m sid s)"


section \<open>Tokens\<close>

definition decode_token :: "'tok jose \<Rightarrow> moment \<Rightarrow> bool \<Rightarrow> 'tok \<Rightarrow> token_error + payload" where
  "decode_token j m allow_expired t =
     (case jwt_decode j t of
        None \<Rightarrow> Inl Invalid_Token
      | Some p \<Rightarrow>
          (if \<not> allow_expired \<and> (case exp p of None \<Rightarrow> False | Some x \<Rightarrow> x < \<lfloor>now m\<rfloor>) then Inl Expired_Signature
           else Inr p))"

text \<open>\<open>jose\<close> writes a time as whole seconds.\<close>

definition create_token :: "moment \<Rightarrow> string \<Rightarrow> string \<Rightarrow> real \<Rightarrow> string option \<Rightarrow> real option \<Rightarrow> payload" where
  "create_token m user mail lifetime k deadline =
     \<lparr>sub = Some user, email = Some mail, jti = Some (new_jti m), exp = Some \<lfloor>now m + lifetime * 3600\<rfloor>, jkt = k,
      wbd = deadline, purpose = None, pwb = None\<rparr>"

definition create_capped_token ::
  "auth_settings \<Rightarrow> moment \<Rightarrow> string \<Rightarrow> string \<Rightarrow> string option \<Rightarrow> real option \<Rightarrow> payload" where
  "create_capped_token cfg m user mail k deadline =
     (let window_hours = of_int (idle_window_minutes_for_user cfg m user) / 60;
          lifetime = (if window_hours > 0 then min (token_expire_hours cfg) window_hours else token_expire_hours cfg)
      in create_token m user mail lifetime k deadline)"

definition create_purpose_token :: "moment \<Rightarrow> string \<Rightarrow> string \<Rightarrow> real \<Rightarrow> string option \<Rightarrow> string option \<Rightarrow> payload" where
  "create_purpose_token m subject why expire_hours mail binding =
     \<lparr>sub = Some subject, email = mail, jti = None, exp = Some \<lfloor>now m + expire_hours * 3600\<rfloor>, jkt = None, wbd = None,
      purpose = Some why, pwb = binding\<rparr>"

definition decode_purpose_token :: "'tok jose \<Rightarrow> moment \<Rightarrow> string \<Rightarrow> 'tok \<Rightarrow> payload option" where
  "decode_purpose_token j m why t =
     (case decode_token j m False t of Inl _ \<Rightarrow> None | Inr p \<Rightarrow> if purpose p = Some why then Some p else None)"

definition web_deadline :: "auth_settings \<Rightarrow> moment \<Rightarrow> bool \<Rightarrow> real option" where
  "web_deadline cfg m web_client =
     (if \<not> web_client \<or> web_bind_grace_seconds cfg \<le> 0 then None
      else Some (now m + of_int (web_bind_grace_seconds cfg)))"

definition token_binding :: "payload \<Rightarrow> string option" where
  "token_binding p = jkt p"

definition bind_deadline_expired :: "moment \<Rightarrow> payload \<Rightarrow> bool" where
  "bind_deadline_expired m p =
     (if token_binding p \<noteq> None then False else case wbd p of None \<Rightarrow> False | Some d \<Rightarrow> now m > d)"

definition enforce_bind_deadline :: "moment \<Rightarrow> payload \<Rightarrow> auth_error option" where
  "enforce_bind_deadline m p =
     (if bind_deadline_expired m p then Some (Unauthorized ''Session expired: DPoP binding required'') else None)"

text \<open>When a socket opened with a token closes by itself.\<close>

definition ws_expiry :: "payload \<Rightarrow> real option" where
  "ws_expiry p =
     (case (wbd p, exp p) of
        (Some d, Some x) \<Rightarrow> if token_binding p = None \<and> d < of_int x then Some d else Some (of_int x)
      | (_, x) \<Rightarrow> map_option of_int x)"


section \<open>Revoking\<close>

definition revoke_row :: "session_row \<Rightarrow> 'tok auth_state \<Rightarrow> 'tok auth_state" where
  "revoke_row r s = forget_stamp (row_jti r) (kick_revoked_sockets (row_jti r) (blocklist_token (row_jti r) None s))"

definition revoke_sessions :: "session_row list \<Rightarrow> 'tok auth_state \<Rightarrow> 'tok auth_state" where
  "revoke_sessions rows s = remove_sessions (map row_jti rows) (fold revoke_row rows s)"

definition revoke_all_user_sessions :: "string \<Rightarrow> 'tok auth_state \<Rightarrow> 'tok auth_state" where
  "revoke_all_user_sessions user s = revoke_sessions (list_sessions user s) s"

definition enforce_session_limit :: "auth_settings \<Rightarrow> moment \<Rightarrow> string \<Rightarrow> 'tok auth_state \<Rightarrow> 'tok auth_state" where
  "enforce_session_limit cfg m user s =
     (let s = purge_expired m s; limit = max_sessions_per_user cfg; rows = list_sessions user s
      in if limit \<le> 0 then s
         else if int (length rows) > limit then revoke_sessions (take (length rows - nat limit) rows) s
         else s)"

definition revoke_session :: "string \<Rightarrow> 'tok auth_state \<Rightarrow> 'tok auth_state" where
  "revoke_session i s = forget_stamp i (kick_revoked_sockets i (remove_session i (blocklist_token i None s)))"

definition audit_concurrent_logons :: "moment \<Rightarrow> string option \<Rightarrow> 'tok auth_state \<Rightarrow> 'tok auth_state" where
  "audit_concurrent_logons m ip s = (if ip = None then s else purge_expired m s)"

definition issue_token ::
  "auth_settings \<Rightarrow> 'tok jose \<Rightarrow> moment \<Rightarrow> string \<Rightarrow> string \<Rightarrow> string option \<Rightarrow> string option \<Rightarrow> bool \<Rightarrow> string option \<Rightarrow>
     'tok auth_state \<Rightarrow> (token_error + 'tok) \<times> 'tok auth_state" where
  "issue_token cfg j m user mail ip agent web_client k s =
     (let t = jwt_encode j (create_capped_token cfg m user mail k (web_deadline cfg m web_client))
      in case decode_token j m False t of
           Inl e \<Rightarrow> (Inl e, s)
         | Inr p \<Rightarrow>
             (case (jti p, exp p) of
                (Some i, Some x) \<Rightarrow>
                  (let s = record_session m user i (of_int x) ip agent s;
                       s = audit_concurrent_logons m ip s;
                       s = enforce_session_limit cfg m user s
                   in (Inr t, s))
              | _ \<Rightarrow> (Inl Invalid_Token, s)))"

definition logout :: "'tok jose \<Rightarrow> moment \<Rightarrow> 'tok \<Rightarrow> 'tok auth_state \<Rightarrow> 'tok auth_state" where
  "logout j m t s =
     (case decode_token j m False t of
        Inl _ \<Rightarrow> s
      | Inr p \<Rightarrow>
          (case (jti p, exp p) of
             (Some i, Some x) \<Rightarrow> if i \<noteq> [] \<and> x \<noteq> 0 then revoke_session i s else s
           | _ \<Rightarrow> s))"


section \<open>Presenting a token\<close>

text \<open>
  What comes with a token: the proof of possession with the method, path and hosting base path it has to name, and the
  workstation (\<open>None\<close> when the caller resolved none).
\<close>

record presentation =
  proof_header :: "string option"
  http_method :: string
  http_path :: string
  base_path :: string
  workstation :: "(string option \<times> string option) option"

definition check_dpop ::
  "dpop_env \<Rightarrow> 'tok jose \<Rightarrow> moment \<Rightarrow> presentation \<Rightarrow> 'tok \<Rightarrow> payload \<Rightarrow> 'tok auth_state \<Rightarrow> string option \<times> 'tok auth_state" where
  "check_dpop e j m pr t p s =
     (case token_binding p of
        None \<Rightarrow> (None, s)
      | Some k \<Rightarrow>
          (case verify_proof e \<lparr>c_proof = proof_header pr, c_method = http_method pr, c_path = http_path pr,
              c_token = jwt_text j t, c_jkt = k, c_now = now m, c_base = base_path pr\<rparr> (dpop_replay s) of
             (reason, replay) \<Rightarrow> (reason, s\<lparr>dpop_replay := replay\<rparr>)))"

definition enforce_dpop ::
  "dpop_env \<Rightarrow> 'tok jose \<Rightarrow> moment \<Rightarrow> presentation \<Rightarrow> 'tok \<Rightarrow> payload \<Rightarrow> 'tok auth_state \<Rightarrow> auth_error option \<times> 'tok auth_state" where
  "enforce_dpop e j m pr t p s =
     (case check_dpop e j m pr t p s of
        (None, s) \<Rightarrow> (None, s)
      | (Some reason, s) \<Rightarrow> (Some (Unauthorized (''Invalid DPoP proof: '' @ reason)), s))"

definition reject_replayed_session ::
  "auth_settings \<Rightarrow> string option \<Rightarrow> int option \<Rightarrow> string option \<times> string option \<Rightarrow> 'tok auth_state \<Rightarrow> bool \<times> 'tok auth_state" where
  "reject_replayed_session cfg i x ws s =
     (if session_workstation_binding cfg = ''off'' then (False, s)
      else case Option.bind i (\<lambda>i. get_workstation i s) of
        None \<Rightarrow> (False, s)
      | Some recorded \<Rightarrow>
          (if \<not> workstation_mismatch recorded ws (session_workstation_binding cfg = ''strict'') then (False, s)
           else (True, case x of None \<Rightarrow> s | Some _ \<Rightarrow> revoke_session (the i) s)))"

definition bound_elsewhere :: auth_error where
  "bound_elsewhere = Unauthorized ''Session bound to a different workstation''"

definition reject_replayed_refresh ::
  "auth_settings \<Rightarrow> string option \<Rightarrow> int option \<Rightarrow> (string option \<times> string option) option \<Rightarrow> 'tok auth_state \<Rightarrow>
     auth_error option \<times> 'tok auth_state" where
  "reject_replayed_refresh cfg i x ws s =
     (case reject_replayed_session cfg i x (case ws of None \<Rightarrow> (None, None) | Some w \<Rightarrow> w) s of
        (b, s) \<Rightarrow> (if b then Some bound_elsewhere else None, s))"

definition password_expired :: "auth_settings \<Rightarrow> moment \<Rightarrow> user \<Rightarrow> bool" where
  "password_expired cfg m u \<longleftrightarrow>
     (if password_max_age_days cfg \<le> 0 \<or> \<not> u_has_password u then False
      else case u_password_set_at u of
        None \<Rightarrow> False
      | Some t \<Rightarrow> now m - t \<ge> of_int (password_max_age_days cfg) * 86400)"

definition ensure_not_disabled :: "user \<Rightarrow> auth_error option" where
  "ensure_not_disabled u = (if u_disabled u then Some (Forbidden ''Account disabled'') else None)"

definition require_active_user :: "auth_settings \<Rightarrow> moment \<Rightarrow> string \<Rightarrow> auth_error + user" where
  "require_active_user cfg m user =
     (case get_user m user of
        None \<Rightarrow> Inl (Unauthorized ''User not found'')
      | Some u \<Rightarrow>
          (case ensure_not_disabled u of
             Some err \<Rightarrow> Inl err
           | None \<Rightarrow> if password_expired cfg m u then Inl (Forbidden ''password_expired'') else Inr u))"

definition session_idle_seconds :: "moment \<Rightarrow> string \<Rightarrow> 'tok auth_state \<Rightarrow> real option" where
  "session_idle_seconds m i s = map_option (\<lambda>t. now m - t) (get_last_seen i s)"

definition reject_idle_session ::
  "auth_settings \<Rightarrow> moment \<Rightarrow> string \<Rightarrow> string \<Rightarrow> 'tok auth_state \<Rightarrow> auth_error option \<times> 'tok auth_state" where
  "reject_idle_session cfg m i user s =
     (let window = idle_window_minutes_for_user cfg m user
      in if window \<le> 0 then (None, s)
         else case session_idle_seconds m i s of
           None \<Rightarrow> (None, s)
         | Some idle \<Rightarrow>
             (if idle \<le> of_int window * 60 then (None, s)
              else (Some (Unauthorized ''Session timed out due to inactivity''), revoke_session i s)))"

section \<open>Refreshing and binding\<close>

text \<open>A check that may refuse, then the rest.\<close>

definition and_then :: "auth_error option \<times> 's \<Rightarrow> ('s \<Rightarrow> (auth_error + 'a) \<times> 's) \<Rightarrow> (auth_error + 'a) \<times> 's" where
  "and_then check k = (case check of (Some err, s) \<Rightarrow> (Inl err, s) | (None, s) \<Rightarrow> k s)"

definition cached_refresh_response :: "'tok jose \<Rightarrow> moment \<Rightarrow> 'tok \<Rightarrow> 'tok \<times> bool" where
  "cached_refresh_response j m cached =
     (cached,
      case decode_token j m False cached of
        Inl _ \<Rightarrow> False
      | Inr p \<Rightarrow> (case get_user m (case sub p of None \<Rightarrow> [] | Some u \<Rightarrow> u) of None \<Rightarrow> False | Some u \<Rightarrow> u_must_change u))"

definition reject_replayed_cached ::
  "auth_settings \<Rightarrow> 'tok jose \<Rightarrow> moment \<Rightarrow> 'tok \<Rightarrow> (string option \<times> string option) option \<Rightarrow> 'tok auth_state \<Rightarrow>
     auth_error option \<times> 'tok auth_state" where
  "reject_replayed_cached cfg j m cached ws s =
     (if ws = None then (None, s)
      else case decode_token j m True cached of
        Inl _ \<Rightarrow> (Some (Unauthorized ''Invalid token''), s)
      | Inr p \<Rightarrow> reject_replayed_refresh cfg (jti p) (exp p) ws s)"

text \<open>\<open>_refreshed_or_revoked\<close>: \<open>Inr None\<close> when the token is neither.\<close>

definition refreshed_or_revoked ::
  "auth_settings \<Rightarrow> 'tok jose \<Rightarrow> moment \<Rightarrow> string \<Rightarrow> (string option \<times> string option) option \<Rightarrow> 'tok auth_state \<Rightarrow>
     (auth_error + ('tok \<times> bool) option) \<times> 'tok auth_state" where
  "refreshed_or_revoked cfg j m i ws s =
     (if \<not> is_token_blocklisted i s then (Inr None, s)
      else case get_refreshed_token i s of
        None \<Rightarrow> (Inl (Unauthorized ''Token has been revoked''), s)
      | Some cached \<Rightarrow>
          and_then (reject_replayed_cached cfg j m cached ws s) (\<lambda>s. (Inr (Some (cached_refresh_response j m cached)), s)))"

definition expired_token_response ::
  "auth_settings \<Rightarrow> 'tok jose \<Rightarrow> moment \<Rightarrow> 'tok \<Rightarrow> (string option \<times> string option) option \<Rightarrow> 'tok auth_state \<Rightarrow>
     (auth_error + 'tok \<times> bool) \<times> 'tok auth_state" where
  "expired_token_response cfg j m t ws s =
     (case decode_token j m True t of
        Inl _ \<Rightarrow> (Inl (Unauthorized ''Invalid token''), s)
      | Inr p \<Rightarrow>
          (case Option.bind (jti p) (\<lambda>i. if i = [] then None else get_refreshed_token i s) of
             None \<Rightarrow> (Inl (Unauthorized ''Token expired''), s)
           | Some cached \<Rightarrow>
               and_then (reject_replayed_cached cfg j m cached ws s) (\<lambda>s. (Inr (cached_refresh_response j m cached), s))))"

text \<open>
  \<open>_swap_token\<close> is two transactions: the old id is revoked with the new token cached beside it, then the row moves.
\<close>

definition swap_row :: "'tok jose \<Rightarrow> moment \<Rightarrow> string \<Rightarrow> string \<Rightarrow> 'tok \<Rightarrow> 'tok auth_state \<Rightarrow> auth_error option \<times> 'tok auth_state" where
  "swap_row j m i user new_token s =
     (case decode_token j m False new_token of
        Inl Expired_Signature \<Rightarrow> (Some (Unauthorized ''Token expired''), s)
      | Inl Invalid_Token \<Rightarrow> (Some (Unauthorized ''Invalid token''), s)
      | Inr p \<Rightarrow>
          (case (jti p, exp p) of
             (Some i', Some x') \<Rightarrow>
               (None, forget_stamp i (retarget_refreshed_sockets i i' (replace_session m i user i' (of_int x') s)))
           | _ \<Rightarrow> (Some (Unauthorized ''Invalid token''), s)))"

definition swap_token ::
  "'tok jose \<Rightarrow> moment \<Rightarrow> string \<Rightarrow> string \<Rightarrow> 'tok \<Rightarrow> 'tok auth_state \<Rightarrow> auth_error option \<times> 'tok auth_state" where
  "swap_token j m i user new_token s = swap_row j m i user new_token (blocklist_token i (Some new_token) s)"

text \<open>
  \<open>refresh_token\<close> up to the swap: what was decided is the old id, the user and the new token, or the response made
  without a swap.
\<close>

definition refresh_checks ::
  "auth_settings \<Rightarrow> dpop_env \<Rightarrow> 'tok jose \<Rightarrow> moment \<Rightarrow> presentation \<Rightarrow> 'tok \<Rightarrow> payload \<Rightarrow> 'tok auth_state \<Rightarrow>
     (auth_error + (('tok \<times> bool) + string \<times> user \<times> 'tok)) \<times> 'tok auth_state" where
  "refresh_checks cfg e j m pr t p s =
     (case (sub p, email p, jti p, exp p) of
        (Some user, Some mail, Some i, Some x) \<Rightarrow>
          (if user = [] \<or> mail = [] \<or> i = [] \<or> x = 0 then (Inl (Unauthorized ''Invalid token''), s)
           else
             and_then (enforce_bind_deadline m p, s) (\<lambda>s.
             and_then (reject_replayed_refresh cfg (Some i) (Some x) (workstation pr) s) (\<lambda>s.
               case refreshed_or_revoked cfg j m i (workstation pr) s of
                 (Inl err, s) \<Rightarrow> (Inl err, s)
               | (Inr (Some cached), s) \<Rightarrow> (Inr (Inl cached), s)
               | (Inr None, s) \<Rightarrow>
                   and_then (enforce_dpop e j m (pr\<lparr>http_method := ''POST'', http_path := ''/api/v1/auth/refresh''\<rparr>) t p s) (\<lambda>s.
                     case require_active_user cfg m user of
                       Inl err \<Rightarrow> (Inl err, s)
                     | Inr u \<Rightarrow>
                         and_then (reject_idle_session cfg m i user s) (\<lambda>s.
                           (Inr (Inr (i, u, jwt_encode j (create_capped_token cfg m user mail (token_binding p) (wbd p)))), s))))))
      | _ \<Rightarrow> (Inl (Unauthorized ''Invalid token''), s))"

definition finish_swap ::
  "auth_settings \<Rightarrow> 'tok jose \<Rightarrow> moment \<Rightarrow> string \<Rightarrow> string \<Rightarrow> user \<Rightarrow> 'tok \<Rightarrow> 'tok auth_state \<Rightarrow>
     (auth_error + 'tok \<times> bool) \<times> 'tok auth_state" where
  "finish_swap cfg j m i user u new_token s =
     and_then (swap_token j m i user new_token s) (\<lambda>s.
       (Inr (new_token, u_must_change u), enforce_session_limit cfg m user s))"

definition refresh_token ::
  "auth_settings \<Rightarrow> dpop_env \<Rightarrow> 'tok jose \<Rightarrow> moment \<Rightarrow> presentation \<Rightarrow> 'tok \<Rightarrow> 'tok auth_state \<Rightarrow>
     (auth_error + 'tok \<times> bool) \<times> 'tok auth_state" where
  "refresh_token cfg e j m pr t s =
     (case decode_token j m False t of
        Inl Expired_Signature \<Rightarrow> expired_token_response cfg j m t (workstation pr) s
      | Inl Invalid_Token \<Rightarrow> (Inl (Unauthorized ''Invalid token''), s)
      | Inr p \<Rightarrow>
          (case refresh_checks cfg e j m pr t p s of
             (Inl err, s) \<Rightarrow> (Inl err, s)
           | (Inr (Inl cached), s) \<Rightarrow> (Inr cached, s)
           | (Inr (Inr (i, u, new_token)), s) \<Rightarrow> finish_swap cfg j m i (the (sub p)) u new_token s))"

definition bind_token ::
  "auth_settings \<Rightarrow> dpop_env \<Rightarrow> 'tok jose \<Rightarrow> moment \<Rightarrow> presentation \<Rightarrow> claim option \<Rightarrow> 'tok \<Rightarrow> 'tok auth_state \<Rightarrow>
     (auth_error + 'tok \<times> bool) \<times> 'tok auth_state" where
  "bind_token cfg e j m pr jwk t s =
     (case decode_token j m False t of
        Inl Expired_Signature \<Rightarrow> (Inl (Unauthorized ''Token expired''), s)
      | Inl Invalid_Token \<Rightarrow> (Inl (Unauthorized ''Invalid token''), s)
      | Inr p \<Rightarrow>
          (case (sub p, email p, jti p, exp p) of
             (Some user, Some mail, Some i, Some x) \<Rightarrow>
               (case refreshed_or_revoked cfg j m i (workstation pr) s of
                  (Inl err, s) \<Rightarrow> (Inl err, s)
                | (Inr (Some cached), s) \<Rightarrow> (Inr cached, s)
                | (Inr None, s) \<Rightarrow>
                    (if token_binding p \<noteq> None then (Inl Conflict, s)
                     else case validate_public_jwk e jwk of
                       None \<Rightarrow> (Inl Bad_Key, s)
                     | Some k \<Rightarrow>
                         (case require_active_user cfg m user of
                            Inl err \<Rightarrow> (Inl err, s)
                          | Inr u \<Rightarrow>
                              finish_swap cfg j m i user u
                                (jwt_encode j (create_token m user mail ((of_int x - now m) / 3600) (Some k) (wbd p))) s)))
           | _ \<Rightarrow> (Inl (Unauthorized ''Invalid token''), s)))"


section \<open>Requests and sockets\<close>

definition authenticated_user ::
  "auth_settings \<Rightarrow> dpop_env \<Rightarrow> 'tok jose \<Rightarrow> moment \<Rightarrow> presentation \<Rightarrow> 'tok \<Rightarrow> 'tok auth_state \<Rightarrow>
     (auth_error + user) \<times> 'tok auth_state" where
  "authenticated_user cfg e j m pr t s =
     (case decode_token j m False t of
        Inl _ \<Rightarrow> (Inl (Unauthorized ''Invalid token''), s)
      | Inr p \<Rightarrow>
          and_then (enforce_dpop e j m pr t p s) (\<lambda>s.
          and_then (enforce_bind_deadline m p, s) (\<lambda>s.
            case (sub p, jti p) of
              (Some user, Some i) \<Rightarrow>
                (if is_token_blocklisted i s then (Inl (Unauthorized ''Token has been revoked''), s)
                 else
                   (case reject_replayed_session cfg (Some i) (exp p)
                           (case workstation pr of None \<Rightarrow> (None, None) | Some w \<Rightarrow> w) s of
                      (True, s) \<Rightarrow> (Inl bound_elsewhere, s)
                    | (False, s) \<Rightarrow>
                        (case get_user m user of
                           None \<Rightarrow> (Inl (Unauthorized ''User not found''), s)
                         | Some u \<Rightarrow> (Inr u, record_session_activity cfg m i s))))
            | _ \<Rightarrow> (Inl (Unauthorized ''Invalid token''), s))))"

definition ensure_password_changed :: "user \<Rightarrow> auth_error option" where
  "ensure_password_changed u = (if u_must_change u then Some (Forbidden ''Password change required'') else None)"

definition get_current_user ::
  "auth_settings \<Rightarrow> dpop_env \<Rightarrow> 'tok jose \<Rightarrow> moment \<Rightarrow> presentation \<Rightarrow> 'tok option \<Rightarrow> 'tok auth_state \<Rightarrow>
     (auth_error + user) \<times> 'tok auth_state" where
  "get_current_user cfg e j m pr credentials s =
     (case credentials of
        None \<Rightarrow> (Inl (Unauthorized ''Not authenticated''), s)
      | Some t \<Rightarrow>
          (case authenticated_user cfg e j m pr t s of
             (Inl err, s) \<Rightarrow> (Inl err, s)
           | (Inr u, s) \<Rightarrow>
               (case ensure_not_disabled u of
                  Some err \<Rightarrow> (Inl err, s)
                | None \<Rightarrow>
                    (if password_expired cfg m u then (Inl (Forbidden ''password_expired''), s)
                     else case ensure_password_changed u of Some err \<Rightarrow> (Inl err, s) | None \<Rightarrow> (Inr u, s)))))"

definition ws_token_reject_reason :: "auth_settings \<Rightarrow> moment \<Rightarrow> user option \<Rightarrow> string option" where
  "ws_token_reject_reason cfg m u =
     (case u of
        None \<Rightarrow> Some ''USER NOT FOUND''
      | Some u \<Rightarrow>
          (if u_disabled u then Some ''ACCOUNT DISABLED''
           else if password_expired cfg m u then Some ''PASSWORD EXPIRED'' else None))"

definition user_from_valid_payload ::
  "auth_settings \<Rightarrow> moment \<Rightarrow> payload \<Rightarrow> (string option \<times> string option) option \<Rightarrow> 'tok auth_state \<Rightarrow>
     user option \<times> 'tok auth_state" where
  "user_from_valid_payload cfg m p ws s =
     (case (sub p, jti p) of
        (Some user, Some i) \<Rightarrow>
          (if is_token_blocklisted i s \<or> bind_deadline_expired m p then (None, s)
           else
             (case (case ws of None \<Rightarrow> (False, s) | Some w \<Rightarrow> reject_replayed_session cfg (Some i) (exp p) w s) of
                (True, s) \<Rightarrow> (None, s)
              | (False, s) \<Rightarrow>
                  (if ws_token_reject_reason cfg m (get_user m user) \<noteq> None then (None, s)
                   else (get_user m user, record_session_activity cfg m i s))))
      | _ \<Rightarrow> (None, s))"

text \<open>\<open>ws_authenticate\<close>, with the socket \<open>k\<close> it admits then registered under the token's id.\<close>

definition ws_authenticate ::
  "auth_settings \<Rightarrow> dpop_env \<Rightarrow> 'tok jose \<Rightarrow> moment \<Rightarrow> presentation \<Rightarrow> nat \<Rightarrow> 'tok \<Rightarrow> 'tok auth_state \<Rightarrow>
     user option \<times> 'tok auth_state" where
  "ws_authenticate cfg e j m pr k t s =
     (case decode_token j m False t of
        Inl _ \<Rightarrow> (None, s)
      | Inr p \<Rightarrow>
          (case check_dpop e j m pr t p s of
             (Some _, s) \<Rightarrow> (None, s)
           | (None, s) \<Rightarrow>
               (case user_from_valid_payload cfg m p (workstation pr) s of
                  (None, s) \<Rightarrow> (None, s)
                | (Some u, s) \<Rightarrow>
                    (if u_must_change u then (None, s) else (Some u, s\<lparr>sockets := (k, the (jti p)) # sockets s\<rparr>)))))"

text \<open>The step-up gate.\<close>

definition stepped_up_within :: "moment \<Rightarrow> string option \<Rightarrow> int \<Rightarrow> 'tok auth_state \<Rightarrow> bool" where
  "stepped_up_within m i window s =
     (case Option.bind i (\<lambda>i. get_stepped_up_at i s) of None \<Rightarrow> False | Some t \<Rightarrow> now m - t \<le> of_int window * 60)"

definition ensure_step_up :: "auth_settings \<Rightarrow> moment \<Rightarrow> user \<Rightarrow> string option \<Rightarrow> 'tok auth_state \<Rightarrow> auth_error option" where
  "ensure_step_up cfg m u i s =
     (if step_up_window_minutes cfg \<le> 0 then None
      else if \<not> u_has_password u then None
      else if stepped_up_within m i (step_up_window_minutes cfg) s then None
      else Some (Forbidden ''step_up_required''))"

definition ensure_step_up_unless_owner ::
  "auth_settings \<Rightarrow> moment \<Rightarrow> user \<Rightarrow> string option \<Rightarrow> string option \<Rightarrow> 'tok auth_state \<Rightarrow> auth_error option" where
  "ensure_step_up_unless_owner cfg m u i owner s =
     (case owner of
        None \<Rightarrow> None
      | Some ow \<Rightarrow> if ow \<noteq> u_id u then ensure_step_up cfg m u i s else None)"

section \<open>Runs\<close>

text \<open>
  The requests one after the other. \<open>minted\<close> are the claims of the tokens handed out so far; whoever presents a token
  has one of those, or one without an id (the tokens for other purposes have none), or one that does not verify.
\<close>

record 'tok world =
  db :: "'tok auth_state"
  minted :: "payload set"
  clock :: real

definition jtis :: "payload set \<Rightarrow> string set" where
  "jtis M = {i. \<exists>p\<in>M. jti p = Some i}"

definition presentable :: "'tok jose \<Rightarrow> payload set \<Rightarrow> 'tok \<Rightarrow> bool" where
  "presentable j M t = (case jwt_decode j t of None \<Rightarrow> True | Some p \<Rightarrow> p \<in> M \<or> jti p = None)"

definition claims_of :: "'tok jose \<Rightarrow> 'tok \<Rightarrow> payload set" where
  "claims_of j t = set_option (jwt_decode j t)"

text \<open>
  What holds in every reachable state: a token that is neither revoked nor expired has its row, no row or socket belongs
  to a revoked token, and the expiry of a session is bounded by its last activity.
\<close>

definition row_of :: "payload \<Rightarrow> session_row \<Rightarrow> bool" where
  "row_of p r \<longleftrightarrow>
     jti p = Some (row_jti r) \<and> sub p = Some (row_user r) \<and> (\<exists>x. exp p = Some x \<and> expires_at r = of_int x)"

definition row_active :: "auth_settings \<Rightarrow> real \<Rightarrow> session_row \<Rightarrow> bool" where
  "row_active cfg c r \<longleftrightarrow>
     (0 < session_idle_timeout_minutes cfg \<longrightarrow>
        (\<exists>t. last_seen_at r = Some t \<and> t \<le> c \<and> expires_at r \<le> t + 120 * of_int (session_idle_timeout_minutes cfg)))"

definition tokens_ok :: "real \<Rightarrow> payload set \<Rightarrow> 'tok auth_state \<Rightarrow> bool" where
  "tokens_ok c M s \<longleftrightarrow>
     (\<forall>p\<in>M. \<exists>u i x. sub p = Some u \<and> jti p = Some i \<and> exp p = Some x \<and>
        (c < of_int x \<longrightarrow> is_token_blocklisted i s \<or> (\<exists>r\<in>set (sessions s). row_of p r))) \<and> inj_on jti M"

definition rows_ok :: "auth_settings \<Rightarrow> real \<Rightarrow> payload set \<Rightarrow> 'tok auth_state \<Rightarrow> bool" where
  "rows_ok cfg c M s \<longleftrightarrow>
     distinct (map row_jti (sessions s)) \<and>
     (\<forall>r\<in>set (sessions s). (\<exists>p\<in>M. row_of p r) \<and> \<not> is_token_blocklisted (row_jti r) s \<and> row_active cfg c r)"

definition revocations_ok :: "'tok jose \<Rightarrow> (string, 'tok option) dict \<Rightarrow> payload set \<Rightarrow> 'tok auth_state \<Rightarrow> bool" where
  "revocations_ok j B M s \<longleftrightarrow>
     (\<forall>i. is_token_blocklisted i s \<longrightarrow> i \<in> jtis M) \<and>
     (\<forall>i t. (i, Some t) \<in> set (blocklist s) \<longrightarrow> (\<exists>p\<in>M. jwt_decode j t = Some p)) \<and>
     (\<forall>k i. (k, i) \<in> set (sockets s) \<longrightarrow> i \<in> jtis M \<and> \<not> is_token_blocklisted i s) \<and>
     (\<exists>later. blocklist s = B @ later)"

definition auth_inv ::
  "auth_settings \<Rightarrow> 'tok jose \<Rightarrow> (string, 'tok option) dict \<Rightarrow> real \<Rightarrow> payload set \<Rightarrow> 'tok auth_state \<Rightarrow> bool" where
  "auth_inv cfg j B c M s \<longleftrightarrow> tokens_ok c M s \<and> rows_ok cfg c M s \<and> revocations_ok j B M s"

lemmas auth_inv_defs = auth_inv_def tokens_ok_def rows_ok_def revocations_ok_def

lemma auth_inv_later:
  assumes "auth_inv cfg j B c M s" "c \<le> c'"
  shows "auth_inv cfg j B c' M s"
proof -
  have "row_active cfg c r \<Longrightarrow> row_active cfg c' r" for r using assms(2) by (force simp: row_active_def)
  moreover have "tokens_ok c' M s" using assms unfolding auth_inv_def tokens_ok_def by (meson le_less_trans)
  ultimately show ?thesis using assms(1) by (auto simp: auth_inv_def rows_ok_def)
qed

lemma auth_inv_cong:
  assumes "auth_inv cfg j B c M s" "sessions s' = sessions s" "blocklist s' = blocklist s" "sockets s' = sockets s"
  shows "auth_inv cfg j B c M s'"
  using assms by (simp add: auth_inv_defs is_token_blocklisted_def)

lemma auth_inv_rows:
  assumes "auth_inv cfg j B c M s" "sessions s' = map f (sessions s)" "blocklist s' = blocklist s" "sockets s' = sockets s"
    and "\<And>r. row_jti (f r) = row_jti r \<and> row_user (f r) = row_user r \<and> expires_at (f r) = expires_at r \<and>
      (row_active cfg c r \<longrightarrow> row_active cfg c (f r))"
  shows "auth_inv cfg j B c M s'"
proof -
  have f: "row_of p (f r) = row_of p r" for p r using assms(5) [of r] by (simp add: row_of_def)
  have "map row_jti (map f (sessions s)) = map row_jti (sessions s)" using assms(5) by simp
  moreover have "is_token_blocklisted i s' = is_token_blocklisted i s" for i using assms(3) by (simp add: is_token_blocklisted_def)
  ultimately show ?thesis using assms(1,3,4,5) f by (simp add: auth_inv_defs assms(2) del: map_map)
qed

lemma tokens_ok_mono:
  assumes "tokens_ok c M s" "\<And>i. is_token_blocklisted i s \<Longrightarrow> is_token_blocklisted i s'"
    and "\<And>p r. \<lbrakk>p \<in> M; r \<in> set (sessions s); row_of p r; c < expires_at r\<rbrakk> \<Longrightarrow>
      is_token_blocklisted (row_jti r) s' \<or> (\<exists>r'\<in>set (sessions s'). row_of p r')"
  shows "tokens_ok c M s'"
  unfolding tokens_ok_def
proof (intro conjI ballI)
  fix p assume p: "p \<in> M"
  then obtain u i x where u: "sub p = Some u" "jti p = Some i" "exp p = Some x"
    and live: "c < of_int x \<Longrightarrow> is_token_blocklisted i s \<or> (\<exists>r\<in>set (sessions s). row_of p r)"
    using assms(1) p unfolding tokens_ok_def by blast
  have "is_token_blocklisted i s' \<or> (\<exists>r\<in>set (sessions s'). row_of p r)" if c: "c < of_int x"
    using live [OF c]
  proof
    assume "is_token_blocklisted i s"
    then show ?thesis using assms(2) by blast
  next
    assume "\<exists>r\<in>set (sessions s). row_of p r"
    then obtain r where r: "r \<in> set (sessions s)" "row_of p r" by blast
    then have "c < expires_at r" "row_jti r = i" using c u by (simp_all add: row_of_def)
    with assms(3) [OF p r] show ?thesis by simp
  qed
  with u show "\<exists>u i x. sub p = Some u \<and> jti p = Some i \<and> exp p = Some x \<and>
      (c < of_int x \<longrightarrow> is_token_blocklisted i s' \<or> (\<exists>r\<in>set (sessions s'). row_of p r))" by blast
qed (use assms(1) in \<open>simp add: tokens_ok_def\<close>)

lemma auth_inv_revoked:
  assumes "auth_inv cfg j B c M s" "J \<subseteq> jtis M"
    and "sessions s' = filter (\<lambda>r. row_jti r \<notin> J) (sessions s)" "sockets s' = filter (\<lambda>(_, i). i \<notin> J) (sockets s)"
    and "\<And>i. is_token_blocklisted i s' \<longleftrightarrow> is_token_blocklisted i s \<or> i \<in> J"
    and "\<exists>more. blocklist s' = blocklist s @ more \<and> (\<forall>i t. (i, Some t) \<notin> set more)"
  shows "auth_inv cfg j B c M s'"
proof -
  have "distinct (map row_jti (filter P (sessions s)))" for P
    using assms(1) by (simp add: auth_inv_defs distinct_map_filter)
  moreover have "tokens_ok c M s'"
    by (rule tokens_ok_mono [of c M s]) (use assms(1) in \<open>auto simp: auth_inv_def assms(3,5)\<close>)
  moreover have cached: "\<forall>i t. (i, Some t) \<in> set (blocklist s') \<longrightarrow> (\<exists>p\<in>M. jwt_decode j t = Some p)"
    using assms(1,6) unfolding auth_inv_def revocations_ok_def by auto
  have later: "\<exists>later. blocklist s' = B @ later" using assms(1,6) by (auto simp: auth_inv_def revocations_ok_def)
  have revs: "revocations_ok j B M s'"
    using assms(1,2) cached later unfolding auth_inv_def revocations_ok_def assms(4,5) by auto
  ultimately show ?thesis using assms(1) revs unfolding auth_inv_def rows_ok_def assms(3,5) by auto
qed

lemma auth_inv_purge:
  assumes "auth_inv cfg j B c M s" "c \<le> now m"
  shows "auth_inv cfg j B (now m) M (purge_expired m s)"
proof -
  note inv = auth_inv_later [OF assms]
  have "distinct (map row_jti (filter P (sessions s)))" for P
    using inv by (simp add: auth_inv_defs distinct_map_filter)
  moreover have "tokens_ok (now m) M (purge_expired m s)"
    by (rule tokens_ok_mono [of "now m" M s])
      (use inv in \<open>auto simp: auth_inv_def purge_expired_def is_token_blocklisted_def intro: bexI [rotated]\<close>)
  ultimately show ?thesis
    using inv by (simp add: auth_inv_def rows_ok_def revocations_ok_def purge_expired_def is_token_blocklisted_def)
qed

lemma revoke_row_effect:
  "sessions (revoke_row r s) = sessions s"
  "sockets (revoke_row r s) = filter (\<lambda>(_, i). i \<noteq> row_jti r) (sockets s)"
  "is_token_blocklisted i (revoke_row r s) \<longleftrightarrow> is_token_blocklisted i s \<or> i = row_jti r"
  "\<exists>more. blocklist (revoke_row r s) = blocklist s @ more \<and> (\<forall>i t. (i, Some t) \<notin> set more)"
  by (auto simp: revoke_row_def forget_stamp_def kick_revoked_sockets_def blocklist_token_def is_token_blocklisted_def)

lemma revoke_rows_effect:
  "sessions (fold revoke_row rows s) = sessions s"
  "sockets (fold revoke_row rows s) = filter (\<lambda>(_, i). i \<notin> row_jti ` set rows) (sockets s)"
  "is_token_blocklisted i (fold revoke_row rows s) \<longleftrightarrow> is_token_blocklisted i s \<or> i \<in> row_jti ` set rows"
  "\<exists>more. blocklist (fold revoke_row rows s) = blocklist s @ more \<and> (\<forall>i t. (i, Some t) \<notin> set more)"
proof (induction rows arbitrary: s)
  case (Cons r rows)
  { case 1 then show ?case by (simp add: Cons(1) revoke_row_effect) }
  { case 2 then show ?case by (auto simp: Cons(2) revoke_row_effect intro!: filter_cong) }
  { case 3 then show ?case by (auto simp: Cons(3) revoke_row_effect) }
  { case 4
    obtain more more' where "blocklist (revoke_row r s) = blocklist s @ more" "\<forall>i t. (i, Some t) \<notin> set more"
      "blocklist (fold revoke_row rows (revoke_row r s)) = blocklist (revoke_row r s) @ more'" "\<forall>i t. (i, Some t) \<notin> set more'"
      using revoke_row_effect(4) [of r s] Cons(4) [of "revoke_row r s"] by blast
    then show ?case by auto }
qed simp_all

lemma row_known: "auth_inv cfg j B c M s \<Longrightarrow> r \<in> set (sessions s) \<Longrightarrow> row_jti r \<in> jtis M"
  by (force simp: auth_inv_def rows_ok_def row_of_def jtis_def)

lemma revoke_sessions_inv:
  assumes "auth_inv cfg j B c M s" "set rows \<subseteq> set (sessions s)"
  shows "auth_inv cfg j B c M (revoke_sessions rows s)"
proof (rule auth_inv_revoked [OF assms(1), where J = "row_jti ` set rows"])
  show "row_jti ` set rows \<subseteq> jtis M" using assms row_known by blast
qed (auto simp: revoke_sessions_def remove_sessions_def revoke_rows_effect is_token_blocklisted_def [of _ "_\<lparr>sessions := _\<rparr>"]
    simp flip: is_token_blocklisted_def)

lemma revoke_session_inv:
  assumes "auth_inv cfg j B c M s" "i \<in> jtis M"
  shows "auth_inv cfg j B c M (revoke_session i s)"
  by (rule auth_inv_revoked [OF assms(1), where J = "{i}"])
    (use assms(2) in \<open>auto simp: revoke_session_def forget_stamp_def kick_revoked_sockets_def remove_session_def
      remove_sessions_def blocklist_token_def is_token_blocklisted_def split: if_splits\<close>)

lemma set_list_sessions: "set (list_sessions user s) = {r \<in> set (sessions s). row_user r = user}"
  by (auto simp: list_sessions_def)

lemma enforce_session_limit_inv:
  assumes "auth_inv cfg j B c M s" "c \<le> now m"
  shows "auth_inv cfg j B (now m) M (enforce_session_limit cfg m user s)"
proof -
  note inv = auth_inv_purge [OF assms]
  have "set (take n (list_sessions user s')) \<subseteq> set (sessions s')" for n s'
    using set_take_subset [of n "list_sessions user s'"] by (auto simp: set_list_sessions)
  with inv show ?thesis by (auto simp: enforce_session_limit_def Let_def intro: revoke_sessions_inv)
qed

lemma not_revoked_fresh: "auth_inv cfg j B c M s \<Longrightarrow> i \<notin> jtis M \<Longrightarrow> \<not> is_token_blocklisted i s"
  by (auto simp: auth_inv_def revocations_ok_def)

lemma tokens_ok_insert:
  assumes "tokens_ok c M s" "jti p = Some i" "i \<notin> jtis M" "r \<in> set (sessions s)" "row_of p r"
  shows "tokens_ok c (insert p M) s"
proof -
  have "\<exists>u i x. sub p = Some u \<and> jti p = Some i \<and> exp p = Some x" using assms(5) by (auto simp: row_of_def)
  with assms show ?thesis by (auto simp: tokens_ok_def jtis_def inj_on_def)
qed

lemma auth_inv_minted:
  assumes "auth_inv cfg j B c M s" "jti p = Some i" "i \<notin> jtis M" "row_of p r" "row_active cfg c r"
    and "blocklist s' = blocklist s" "sockets s' = sockets s" "sessions s' = sessions s @ [r]"
  shows "auth_inv cfg j B c (insert p M) s'"
proof -
  have bl: "is_token_blocklisted k s' = is_token_blocklisted k s" for k by (simp add: is_token_blocklisted_def assms(6))
  have "row_jti r = i" using assms(2,4) by (simp add: row_of_def)
  have "i \<notin> row_jti ` set (sessions s)" using row_known [OF assms(1)] assms(3) by blast
  then have "rows_ok cfg c (insert p M) s'"
    using assms(1,4,5) not_revoked_fresh [OF assms(1,3)] \<open>row_jti r = i\<close>
    by (auto simp: auth_inv_def rows_ok_def assms(8) bl)
  moreover have "tokens_ok c M s'"
    by (rule tokens_ok_mono [of c M s]) (use assms(1) in \<open>auto simp: auth_inv_def bl assms(8)\<close>)
  then have "tokens_ok c (insert p M) s'"
    by (rule tokens_ok_insert [OF _ assms(2,3) _ assms(4)]) (simp add: assms(8))
  moreover have "jtis M \<subseteq> jtis (insert p M)" by (auto simp: jtis_def)
  then have "revocations_ok j B (insert p M) s'"
    using assms(1) unfolding auth_inv_def revocations_ok_def assms(6,7) bl by blast
  ultimately show ?thesis by (simp add: auth_inv_def)
qed

definition jose_ok :: "'tok jose \<Rightarrow> bool" where
  "jose_ok j \<longleftrightarrow> (\<forall>p. jwt_decode j (jwt_encode j p) = Some p)"

definition handed_out :: "'tok jose \<Rightarrow> 'e + 'tok \<times> bool \<Rightarrow> payload set" where
  "handed_out j r = (case r of Inl _ \<Rightarrow> {} | Inr (t, _) \<Rightarrow> claims_of j t)"

lemma idle_window_bounds:
  "0 < session_idle_timeout_minutes cfg \<Longrightarrow>
     0 < idle_window_minutes_for_user cfg m user \<and> idle_window_minutes_for_user cfg m user \<le> session_idle_timeout_minutes cfg"
  by (auto simp: idle_window_minutes_for_user_def effective_session_idle_minutes_def Let_def)

lemma capped_expiry:
  assumes "0 < session_idle_timeout_minutes cfg" "exp (create_capped_token cfg m user mail k d) = Some x"
  shows "of_int x \<le> now m + 60 * of_int (session_idle_timeout_minutes cfg)"
proof -
  let ?w = "idle_window_minutes_for_user cfg m user"
  have w: "0 < ?w" "?w \<le> session_idle_timeout_minutes cfg" using idle_window_bounds [OF assms(1)] by blast+
  then have "x = \<lfloor>now m + min (token_expire_hours cfg) (of_int ?w / 60) * 3600\<rfloor>"
    using assms(2) by (simp add: create_capped_token_def create_token_def Let_def)
  then have "of_int x \<le> now m + min (token_expire_hours cfg) (of_int ?w / 60) * 3600" by linarith
  also have "\<dots> \<le> now m + of_int ?w / 60 * 3600" by (intro add_mono mult_right_mono) auto
  also have "\<dots> \<le> now m + 60 * of_int (session_idle_timeout_minutes cfg)" using w(2) by simp
  finally show ?thesis .
qed

lemma record_session_inv:
  assumes "auth_inv cfg j B c M s" "c \<le> now m" "jti p = Some (new_jti m)" "new_jti m \<notin> jtis M" "sub p = Some user"
    and "exp p = Some x" "0 < session_idle_timeout_minutes cfg \<Longrightarrow> of_int x \<le> now m + 120 * of_int (session_idle_timeout_minutes cfg)"
  shows "auth_inv cfg j B (now m) (insert p M) (record_session m user (new_jti m) (of_int x) ip agent s)"
proof (rule auth_inv_minted [OF auth_inv_later [OF assms(1,2)] assms(3,4)])
  have "new_jti m \<notin> row_jti ` set (sessions s)" using row_known [OF assms(1)] assms(4) by auto
  then show "sessions (record_session m user (new_jti m) (of_int x) ip agent s) = sessions s @
      [\<lparr>row_jti = new_jti m, row_user = user, expires_at = of_int x, source_ip = ip, user_agent = agent, created_at = of_int \<lfloor>now m\<rfloor>,
        last_seen_at = Some (now m), session_id = new_sid m, stepped_up_at = None\<rparr>]"
    by (force simp: record_session_def filter_id_conv)
qed (use assms(3,5-7) in \<open>simp_all add: row_of_def row_active_def record_session_def\<close>)

lemma issue_token_inv:
  assumes "auth_inv cfg j B c M s" "c \<le> now m" "new_jti m \<notin> jtis M" "jose_ok j"
    and "issue_token cfg j m user mail ip agent web k s = (r, s')"
  shows "auth_inv cfg j B (now m) (M \<union> (case r of Inl _ \<Rightarrow> {} | Inr t \<Rightarrow> claims_of j t)) s'"
proof (cases r)
  case (Inl err)
  with assms(5) have "s' = s" by (auto simp: issue_token_def Let_def split: sum.splits option.splits)
  with Inl auth_inv_later [OF assms(1,2)] show ?thesis by simp
next
  case (Inr t)
  let ?p = "create_capped_token cfg m user mail k (web_deadline cfg m web)"
  let ?s1 = "\<lambda>x. record_session m user (new_jti m) (of_int x) ip agent s"
  obtain x where x: "exp ?p = Some x" and p: "jti ?p = Some (new_jti m)" "sub ?p = Some user"
    by (simp add: create_capped_token_def create_token_def Let_def)
  have t: "t = jwt_encode j ?p" "s' = enforce_session_limit cfg m user (audit_concurrent_logons m ip (?s1 x))"
    using assms(4,5) Inr p(1) x by (auto simp: issue_token_def Let_def jose_ok_def decode_token_def split: sum.splits if_splits)
  have "auth_inv cfg j B (now m) (insert ?p M) (?s1 x)"
  proof (rule record_session_inv [OF assms(1,2) p(1) assms(3) p(2) x])
    assume "0 < session_idle_timeout_minutes cfg"
    with capped_expiry [OF this x] show "of_int x \<le> now m + 120 * of_int (session_idle_timeout_minutes cfg)" by simp
  qed
  then have "auth_inv cfg j B (now m) (insert ?p M) (audit_concurrent_logons m ip (?s1 x))"
    by (auto simp: audit_concurrent_logons_def intro: auth_inv_purge)
  then have "auth_inv cfg j B (now m) (insert ?p M) s'" unfolding t(2) by (rule enforce_session_limit_inv) simp
  moreover have "claims_of j t = {?p}" using assms(4) by (simp add: claims_of_def t(1) jose_ok_def)
  ultimately show ?thesis by (simp add: Inr)
qed

lemma row_owner:
  assumes "auth_inv cfg j B c M s" "p \<in> M" "jti p = Some (row_jti r)" "r \<in> set (sessions s)"
  shows "row_of p r"
proof -
  obtain q where q: "q \<in> M" "row_of q r" using assms(1,4) by (auto simp: auth_inv_def rows_ok_def)
  then have "q = p" using assms(1-3) by (auto simp: auth_inv_def tokens_ok_def row_of_def inj_on_def)
  with q show ?thesis by simp
qed

lemma find_session_iff: "find_session i s \<noteq> None \<longleftrightarrow> i \<in> row_jti ` set (sessions s)"
  by (auto simp: find_session_def find_None_iff)

lemma swapped_revocations:
  assumes "revocations_ok j B M s" "M \<subseteq> M'" "i \<in> jtis M'" "i' \<in> jtis M'" "i' \<noteq> i" "\<not> is_token_blocklisted i' s"
    and "p' \<in> M'" "jwt_decode j t = Some p'"
    and s': "sockets s' = map (\<lambda>(k, n). (k, if n = i then i' else n)) (sockets s)" "blocklist s' = blocklist s @ [(i, Some t)]"
  shows "revocations_ok j B M' s'"
proof -
  have bl: "is_token_blocklisted k s' \<longleftrightarrow> is_token_blocklisted k s \<or> k = i" for k by (auto simp: is_token_blocklisted_def s'(2))
  have M: "n \<in> jtis M'" if "n \<in> jtis M" for n using that assms(2) by (auto simp: jtis_def)
  have "n \<in> jtis M' \<and> \<not> is_token_blocklisted n s'" if sock: "(k, n) \<in> set (sockets s')" for k n
  proof -
    from sock obtain n0 where n0: "(k, n0) \<in> set (sockets s)" "n = (if n0 = i then i' else n0)" by (auto simp: s'(1))
    then have "n0 \<in> jtis M" "\<not> is_token_blocklisted n0 s" using assms(1) by (auto simp: revocations_ok_def)
    with n0(2) assms(4-6) M show ?thesis by (auto simp: bl)
  qed
  moreover have "\<exists>p\<in>M'. jwt_decode j t' = Some p" if "(n, Some t') \<in> set (blocklist s')" for n t'
  proof (cases "(n, Some t') \<in> set (blocklist s)")
    case True
    then have "\<exists>p\<in>M. jwt_decode j t' = Some p" using assms(1) unfolding revocations_ok_def by blast
    with assms(2) show ?thesis by blast
  qed (use that assms(7,8) in \<open>auto simp: s'(2)\<close>)
  moreover have "n \<in> jtis M'" if "is_token_blocklisted n s'" for n
    using that assms(1,3) M by (auto simp: bl revocations_ok_def)
  moreover have "\<exists>later. blocklist s' = B @ later" using assms(1) by (auto simp: revocations_ok_def s'(2))
  ultimately show ?thesis unfolding revocations_ok_def by blast
qed

text \<open>The row of the presented token moves to the new one; nothing else changes but the revocation of the old id.\<close>

lemma moved_row_inv:
  assumes inv: "auth_inv cfg j B c M s" and p: "p \<in> M" "jti p = Some i" "sub p = Some user"
    and p': "jti p' = Some i'" "sub p' = Some user" "exp p' = Some x'" "i' \<notin> jtis M" "jwt_decode j t = Some p'"
    and r: "i \<in> row_jti ` set (sessions s)"
    and active: "\<And>r. r \<in> set (sessions s) \<Longrightarrow> row_jti r = i \<Longrightarrow> row_active cfg c (r\<lparr>row_jti := i', expires_at := of_int x'\<rparr>)"
    and s': "sessions s' = map (\<lambda>r. if row_jti r = i then r\<lparr>row_jti := i', expires_at := of_int x'\<rparr> else r) (sessions s)"
      "sockets s' = map (\<lambda>(k, n). (k, if n = i then i' else n)) (sockets s)" "blocklist s' = blocklist s @ [(i, Some t)]"
  shows "auth_inv cfg j B c (insert p' M) s'"
proof -
  have bl: "is_token_blocklisted k s' \<longleftrightarrow> is_token_blocklisted k s \<or> k = i" for k by (auto simp: is_token_blocklisted_def s'(3))
  have i: "i \<in> jtis M" using p by (auto simp: jtis_def)
  have fresh: "i' \<notin> row_jti ` set (sessions s)" "i' \<noteq> i" "\<not> is_token_blocklisted i' s"
    using row_known [OF inv] p'(4) i not_revoked_fresh [OF inv] by auto
  have rows: "rows_ok cfg c M s" using inv by (simp add: auth_inv_def)
  have "distinct (map row_jti (sessions s'))"
    using rows fresh(1) by (auto simp: rows_ok_def s'(1) distinct_map inj_on_def)
  moreover have "(\<exists>q\<in>insert p' M. row_of q r') \<and> \<not> is_token_blocklisted (row_jti r') s' \<and> row_active cfg c r'"
    if "r' \<in> set (sessions s')" for r'
  proof -
    from that obtain r where r: "r \<in> set (sessions s)"
      "r' = (if row_jti r = i then r\<lparr>row_jti := i', expires_at := of_int x'\<rparr> else r)" by (auto simp: s'(1))
    show ?thesis
    proof (cases "row_jti r = i")
      case True
      then have "row_of p r" using row_owner [OF inv p(1) _ r(1)] p(2) by simp
      then have "row_user r = user" using p(3) by (simp add: row_of_def)
      with True r p' fresh(2,3) active [OF r(1) True] show ?thesis by (simp add: row_of_def bl)
    next
      case False
      with r rows show ?thesis by (auto simp: rows_ok_def bl)
    qed
  qed
  ultimately have rows': "rows_ok cfg c (insert p' M) s'" by (simp add: rows_ok_def)
  have tok: "tokens_ok c M s'"
    by (rule tokens_ok_mono [of c M s]) (use inv in \<open>auto simp: auth_inv_def bl s'(1) intro: rev_image_eqI\<close>)
  obtain r where r: "r \<in> set (sessions s)" "row_jti r = i" using r by blast
  then have "row_of p r" using row_owner [OF inv p(1) _ r(1)] p(2) by simp
  then have "row_of p' (r\<lparr>row_jti := i', expires_at := of_int x'\<rparr>)" using p(3) p' by (simp add: row_of_def)
  moreover have "r\<lparr>row_jti := i', expires_at := of_int x'\<rparr> \<in> set (sessions s')" using r by (force simp: s'(1))
  ultimately have "tokens_ok c (insert p' M) s'" using tokens_ok_insert [OF tok p'(1,4)] by blast
  moreover have "i' \<in> jtis (insert p' M)" "i \<in> jtis (insert p' M)" using p'(1) i by (auto simp: jtis_def)
  then have "revocations_ok j B (insert p' M) s'"
    using swapped_revocations [of j B M s "insert p' M" i i' p' t s'] inv fresh p'(5) s'(2,3) by (auto simp: auth_inv_def)
  ultimately show ?thesis using rows' by (simp add: auth_inv_def)
qed

lemma blocklist_fresh: "\<not> is_token_blocklisted i s \<Longrightarrow> blocklist (blocklist_token i t s) = blocklist s @ [(i, t)]"
  by (simp add: blocklist_token_def is_token_blocklisted_def)

lemma blocklist_token_fields:
  "sessions (blocklist_token i t s) = sessions s" "sockets (blocklist_token i t s) = sockets s"
  by (simp_all add: blocklist_token_def)

text \<open>Without a row - the token is in the last second of its life and has been purged - the swap inserts one.\<close>

lemma inserted_row_inv:
  assumes inv: "auth_inv cfg j B c M s" and p: "p \<in> M" "jti p = Some i"
    and p': "jti p' = Some i'" "i' \<notin> jtis M" "jwt_decode j t = Some p'"
    and r: "row_of p' r" "row_active cfg c r" "i \<notin> row_jti ` set (sessions s)"
    and s': "sessions s' = sessions s @ [r]" "sockets s' = map (\<lambda>(k, n). (k, if n = i then i' else n)) (sockets s)"
      "blocklist s' = blocklist s @ [(i, Some t)]"
  shows "auth_inv cfg j B c (insert p' M) s'"
proof -
  let ?s = "s\<lparr>sessions := sessions s @ [r]\<rparr>"
  have i: "i \<in> jtis M" "i \<noteq> i'" using p p'(2) by (auto simp: jtis_def)
  have inv': "auth_inv cfg j B c (insert p' M) ?s" by (rule auth_inv_minted [OF inv p'(1,2) r(1,2)]) simp_all
  have bl: "is_token_blocklisted k s' \<longleftrightarrow> is_token_blocklisted k ?s \<or> k = i" for k
    by (auto simp: is_token_blocklisted_def s'(3))
  have "row_jti r = i'" using r(1) p'(1) by (simp add: row_of_def)
  then have "rows_ok cfg c (insert p' M) s'"
    using inv' r(3) i(2) by (auto simp: auth_inv_def rows_ok_def s'(1) bl)
  moreover have "tokens_ok c (insert p' M) s'"
    by (rule tokens_ok_mono [of c _ ?s]) (use inv' in \<open>auto simp: auth_inv_def bl s'(1)\<close>)
  moreover have "i' \<in> jtis (insert p' M)" "i \<in> jtis (insert p' M)" using i p'(1) by (auto simp: jtis_def)
  then have "revocations_ok j B (insert p' M) s'"
    using swapped_revocations [of j B M s "insert p' M" i i' p' t s'] inv i(2) p'(3) not_revoked_fresh [OF inv p'(2)] s'(2,3)
    by (auto simp: auth_inv_def)
  ultimately show ?thesis by (simp add: auth_inv_def)
qed

lemma swap_token_inv:
  assumes inv: "auth_inv cfg j B (now m) M s" and p: "p \<in> M" "jti p = Some i" "sub p = Some user"
    and p': "jti p' = Some (new_jti m)" "sub p' = Some user" "exp p' = Some x'" "new_jti m \<notin> jtis M"
    and fresh: "\<not> is_token_blocklisted i s" and j: "jose_ok j"
    and active: "\<And>r t. \<lbrakk>0 < session_idle_timeout_minutes cfg; r \<in> set (sessions s); row_jti r = i; last_seen_at r = Some t\<rbrakk> \<Longrightarrow>
      of_int x' \<le> t + 120 * of_int (session_idle_timeout_minutes cfg)"
    and new: "\<lbrakk>0 < session_idle_timeout_minutes cfg; i \<notin> row_jti ` set (sessions s)\<rbrakk> \<Longrightarrow>
      of_int x' \<le> now m + 120 * of_int (session_idle_timeout_minutes cfg)"
    and swap: "swap_token j m i user (jwt_encode j p') s = (None, s')"
  shows "auth_inv cfg j B (now m) (insert p' M) s'"
proof -
  let ?t = "jwt_encode j p'"
  let ?b = "blocklist_token i (Some ?t) s"
  have t: "jwt_decode j ?t = Some p'" using j by (simp add: jose_ok_def)
  have s': "s' = forget_stamp i (retarget_refreshed_sockets i (new_jti m) (replace_session m i user (new_jti m) (of_int x') ?b))"
    using swap p' by (auto simp: swap_token_def swap_row_def decode_token_def t split: sum.splits token_error.splits if_splits)
  note fields = blocklist_token_fields [of i "Some ?t" s] blocklist_fresh [OF fresh, of "Some ?t"]
  show ?thesis
  proof (cases "i \<in> row_jti ` set (sessions s)")
    case True
    then have found: "find_session i ?b \<noteq> None" using find_session_iff [of i ?b] by (simp only: fields)
    show ?thesis
    proof (rule moved_row_inv [OF inv p p'(1-4) t True])
      show "row_active cfg (now m) (r\<lparr>row_jti := new_jti m, expires_at := of_int x'\<rparr>)"
        if "r \<in> set (sessions s)" "row_jti r = i" for r
        using inv that active [OF _ that] by (auto simp: row_active_def auth_inv_def rows_ok_def)
    qed (use found in \<open>auto simp: s' forget_stamp_def retarget_refreshed_sockets_def replace_session_def update_rows_def fields\<close>)
  next
    case False
    then have found: "find_session i ?b = None" using find_session_iff [of i ?b] by (auto simp: fields)
    have keep: "row_jti r \<noteq> new_jti m" if "r \<in> set (sessions s)" for r using row_known [OF inv that] p'(4) by auto
    show ?thesis
    proof (rule inserted_row_inv [OF inv p(1,2) p'(1,4) t _ _ False])
      show "sessions s' = sessions s @ [\<lparr>row_jti = new_jti m, row_user = user, expires_at = of_int x', source_ip = None,
          user_agent = None, created_at = of_int \<lfloor>now m\<rfloor>, last_seen_at = Some (now m), session_id = new_sid m, stepped_up_at = None\<rparr>]"
        using found keep by (auto simp: s' forget_stamp_def retarget_refreshed_sockets_def replace_session_def record_session_def
            fields filter_id_conv)
    qed (use found p' new False in \<open>auto simp: row_of_def row_active_def s' forget_stamp_def retarget_refreshed_sockets_def
        replace_session_def record_session_def fields\<close>)
  qed
qed

definition same_core :: "'tok auth_state \<Rightarrow> 'tok auth_state \<Rightarrow> bool" where
  "same_core s s' \<longleftrightarrow> sessions s' = sessions s \<and> blocklist s' = blocklist s \<and> sockets s' = sockets s"

lemma same_core_inv: "same_core s s' \<Longrightarrow> auth_inv cfg j B c M s \<Longrightarrow> auth_inv cfg j B c M s'"
  by (auto simp: same_core_def intro: auth_inv_cong)

lemma reject_replayed_session_cases:
  assumes "reject_replayed_session cfg i x ws s = (b, s')"
  shows "s' = s \<or> b \<and> (\<exists>k. i = Some k \<and> s' = revoke_session k s)"
  using assms by (auto simp: reject_replayed_session_def Option.bind_eq_Some_conv split: if_splits option.splits)

lemma reject_replayed_inv:
  assumes "auth_inv cfg j B c M s" "\<And>k. i = Some k \<Longrightarrow> k \<in> jtis M" "reject_replayed_session cfg i x ws s = (b, s')"
  shows "auth_inv cfg j B c M s'"
  using reject_replayed_session_cases [OF assms(3)] assms(1,2) by (auto intro: revoke_session_inv)

lemma reject_replayed_refresh_cases:
  assumes "reject_replayed_refresh cfg i x ws s = (r, s')"
  shows "s' = s \<or> r \<noteq> None \<and> (\<exists>k. i = Some k \<and> s' = revoke_session k s)"
  using assms reject_replayed_session_cases [of cfg i x "case ws of None \<Rightarrow> (None, None) | Some w \<Rightarrow> w" s]
  by (fastforce simp: reject_replayed_refresh_def split: prod.splits if_splits)

lemma get_refreshed_known:
  assumes "auth_inv cfg j B c M s" "get_refreshed_token i s = Some cached"
  obtains q where "q \<in> M" "jwt_decode j cached = Some q"
proof -
  have "(i, Some cached) \<in> set (blocklist s)"
    using assms(2) by (auto simp: get_refreshed_token_def Option.bind_eq_Some_conv dest: map_of_SomeD)
  with assms(1) that show thesis unfolding auth_inv_def revocations_ok_def by blast
qed

lemma member_jtis: "q \<in> M \<Longrightarrow> jti q = Some k \<Longrightarrow> k \<in> jtis M"
  by (auto simp: jtis_def)

lemma reject_replayed_cached_inv:
  assumes "auth_inv cfg j B c M s" "get_refreshed_token i s = Some cached" "reject_replayed_cached cfg j m cached ws s = (r, s')"
  shows "auth_inv cfg j B c M s'" and "r = None \<Longrightarrow> s' = s"
proof -
  obtain q where q: "q \<in> M" "jwt_decode j cached = Some q" by (rule get_refreshed_known [OF assms(1,2)])
  have "s' = s \<or> r \<noteq> None \<and> (\<exists>k. jti q = Some k \<and> s' = revoke_session k s)"
    using assms(3) q(2) reject_replayed_refresh_cases [of cfg "jti q" "exp q" ws s r s']
    by (auto simp: reject_replayed_cached_def decode_token_def split: if_splits)
  then show "auth_inv cfg j B c M s'" "r = None \<Longrightarrow> s' = s"
    using assms(1) q(1) by (auto intro: revoke_session_inv member_jtis)
qed

lemma refreshed_or_revoked_inv:
  assumes "auth_inv cfg j B c M s" "refreshed_or_revoked cfg j m i ws s = (r, s')"
  shows "auth_inv cfg j B c M s'"
    and "r = Inr None \<Longrightarrow> s' = s \<and> \<not> is_token_blocklisted i s"
    and "r = Inr (Some (t, b)) \<Longrightarrow> \<exists>q\<in>M. jwt_decode j t = Some q"
proof -
  show "r = Inr None \<Longrightarrow> s' = s \<and> \<not> is_token_blocklisted i s"
    using assms(2) by (auto simp: refreshed_or_revoked_def and_then_def split: if_splits option.splits prod.splits)
  show "r = Inr (Some (t, b)) \<Longrightarrow> \<exists>q\<in>M. jwt_decode j t = Some q"
    using assms(2) get_refreshed_known [OF assms(1), of i t]
    by (auto simp: refreshed_or_revoked_def and_then_def cached_refresh_response_def split: if_splits option.splits prod.splits)
  show "auth_inv cfg j B c M s'"
    using assms reject_replayed_cached_inv(1) [OF assms(1), of i _ m ws]
    by (auto simp: refreshed_or_revoked_def and_then_def split: if_splits option.splits prod.splits)
qed

lemma check_dpop_core: "check_dpop e j m pr t p s = (r, s') \<Longrightarrow> same_core s s'"
  by (auto simp: check_dpop_def same_core_def split: option.splits prod.splits)

lemma enforce_dpop_core: "enforce_dpop e j m pr t p s = (r, s') \<Longrightarrow> same_core s s'"
  by (auto simp: enforce_dpop_def dest: check_dpop_core split: option.splits prod.splits)

lemma reject_idle_cases:
  assumes "reject_idle_session cfg m i user s = (r, s')"
  shows "s' = s \<or> r \<noteq> None \<and> s' = revoke_session i s"
    and "\<lbrakk>r = None; 0 < session_idle_timeout_minutes cfg; find_session i s = Some row; last_seen_at row = Some t\<rbrakk> \<Longrightarrow>
      now m \<le> t + 60 * of_int (session_idle_timeout_minutes cfg)"
proof -
  show "s' = s \<or> r \<noteq> None \<and> s' = revoke_session i s"
    using assms by (auto simp: reject_idle_session_def Let_def split: if_splits option.splits)
  assume a: "r = None" "0 < session_idle_timeout_minutes cfg" "find_session i s = Some row" "last_seen_at row = Some t"
  let ?w = "idle_window_minutes_for_user cfg m user"
  have w: "0 < ?w" "?w \<le> session_idle_timeout_minutes cfg" using idle_window_bounds [OF a(2)] by blast+
  then have "now m - t \<le> of_int ?w * 60"
    using assms a by (auto simp: reject_idle_session_def session_idle_seconds_def get_last_seen_def Let_def split: if_splits)
  also have "\<dots> \<le> of_int (session_idle_timeout_minutes cfg) * 60" using w(2) by simp
  finally show "now m \<le> t + 60 * of_int (session_idle_timeout_minutes cfg)" by simp
qed

lemma require_active_user_exists: "require_active_user cfg m user = Inr u \<Longrightarrow> get_user m user = Some u"
  by (auto simp: require_active_user_def split: option.splits if_splits)

lemma and_thenE:
  assumes "and_then check k = (r, s')"
  obtains err where "check = (Some err, s')" "r = Inl err" | s1 where "check = (None, s1)" "k s1 = (r, s')"
  using assms by (auto simp: and_then_def split: prod.splits option.splits)

text \<open>What the checks of a refresh leave: the invariant, and for a swap to come, an unchanged session that is not idle.\<close>

definition refresh_ready ::
  "auth_settings \<Rightarrow> 'tok jose \<Rightarrow> moment \<Rightarrow> payload \<Rightarrow> 'tok auth_state \<Rightarrow> string \<times> user \<times> 'tok \<Rightarrow> 'tok auth_state \<Rightarrow> bool" where
  "refresh_ready cfg j m p s v s' \<longleftrightarrow>
     (case v of (i, u, t') \<Rightarrow>
        same_core s s' \<and> jti p = Some i \<and> \<not> is_token_blocklisted i s \<and>
        (\<exists>s1 user mail. sub p = Some user \<and> same_core s s1 \<and> reject_idle_session cfg m i user s1 = (None, s') \<and>
           t' = jwt_encode j (create_capped_token cfg m user mail (token_binding p) (wbd p))))"

definition refresh_checked ::
  "auth_settings \<Rightarrow> 'tok jose \<Rightarrow> (string, 'tok option) dict \<Rightarrow> moment \<Rightarrow> payload set \<Rightarrow> payload \<Rightarrow> 'tok auth_state \<Rightarrow>
     auth_error + ('tok \<times> bool) + string \<times> user \<times> 'tok \<Rightarrow> 'tok auth_state \<Rightarrow> bool" where
  "refresh_checked cfg j B m M p s r s' \<longleftrightarrow>
     auth_inv cfg j B (now m) M s' \<and>
     (case r of
        Inl _ \<Rightarrow> True
      | Inr (Inl (t', _)) \<Rightarrow> \<exists>q\<in>M. jwt_decode j t' = Some q
      | Inr (Inr v) \<Rightarrow> refresh_ready cfg j m p s v s')"

lemma refresh_last_checks:
  assumes inv: "auth_inv cfg j B (now m) M s" and p: "p \<in> M" "sub p = Some user" "jti p = Some i" "\<not> is_token_blocklisted i s"
    and last: "and_then (enforce_dpop e j m pr t p s) (\<lambda>s.
      case require_active_user cfg m user of
        Inl err \<Rightarrow> (Inl err, s)
      | Inr u \<Rightarrow> and_then (reject_idle_session cfg m i user s) (\<lambda>s.
          (Inr (Inr (i, u, jwt_encode j (create_capped_token cfg m user mail (token_binding p) (wbd p)))), s))) = (r, s')"
  shows "refresh_checked cfg j B m M p s r s'"
  using last
proof (rule and_thenE)
  fix err assume "enforce_dpop e j m pr t p s = (Some err, s')" "r = Inl err"
  then show ?thesis using inv by (auto simp: refresh_checked_def dest: enforce_dpop_core intro: same_core_inv)
next
  fix s1 assume s1: "enforce_dpop e j m pr t p s = (None, s1)" and rest: "(case require_active_user cfg m user of
        Inl err \<Rightarrow> (Inl err, s1)
      | Inr u \<Rightarrow> and_then (reject_idle_session cfg m i user s1) (\<lambda>s.
          (Inr (Inr (i, u, jwt_encode j (create_capped_token cfg m user mail (token_binding p) (wbd p)))), s))) = (r, s')"
  note core = enforce_dpop_core [OF s1]
  note inv1 = same_core_inv [OF core inv]
  obtain r4 s4 where r4: "reject_idle_session cfg m i user s1 = (r4, s4)" by fastforce
  have inv4: "auth_inv cfg j B (now m) M s4" "r4 = None \<Longrightarrow> s4 = s1"
    using reject_idle_cases(1) [OF r4] inv1 member_jtis [OF p(1,3)] by (auto intro: revoke_session_inv)
  have "r = Inl err \<and> s' = s1" if "require_active_user cfg m user = Inl err" for err using rest that by simp
  moreover have "r = Inl err \<and> s' = s4" if "require_active_user cfg m user = Inr u" "r4 = Some err" for u err
    using rest that r4 by (simp add: and_then_def)
  moreover have "refresh_checked cfg j B m M p s r s'" if "require_active_user cfg m user = Inr u" "r4 = None" for u
  proof -
    have "reject_idle_session cfg m i user s1 = (None, s1)" using r4 that(2) inv4(2) by simp
    moreover have "r = Inr (Inr (i, u, jwt_encode j (create_capped_token cfg m user mail (token_binding p) (wbd p))))" "s' = s1"
      using rest that r4 inv4(2) by (simp_all add: and_then_def)
    ultimately show ?thesis using p core inv1 unfolding refresh_checked_def refresh_ready_def by auto
  qed
  ultimately show ?thesis using inv1 inv4(1)
    by (cases "require_active_user cfg m user"; cases r4) (auto simp: refresh_checked_def)
qed

lemma refresh_checks_inv:
  assumes inv: "auth_inv cfg j B (now m) M s" and p: "p \<in> M" and checks: "refresh_checks cfg e j m pr t p s = (r, s')"
  shows "refresh_checked cfg j B m M p s r s'"
proof (cases "r = Inl (Unauthorized ''Invalid token'') \<and> s' = s")
  case True
  with inv show ?thesis by (simp add: refresh_checked_def)
next
  case False
  let ?pr = "pr\<lparr>http_method := ''POST'', http_path := ''/api/v1/auth/refresh''\<rparr>"
  obtain user mail i x where claims: "sub p = Some user" "email p = Some mail" "jti p = Some i" "exp p = Some x"
    using checks False by (auto simp: refresh_checks_def split: option.splits)
  note i = member_jtis [OF p claims(3)]
  let ?rest = "\<lambda>s. case refreshed_or_revoked cfg j m i (workstation pr) s of
             (Inl err, s) \<Rightarrow> (Inl err, s)
           | (Inr (Some cached), s) \<Rightarrow> (Inr (Inl cached), s)
           | (Inr None, s) \<Rightarrow>
               and_then (enforce_dpop e j m ?pr t p s) (\<lambda>s.
                 case require_active_user cfg m user of
                   Inl err \<Rightarrow> (Inl err, s)
                 | Inr u \<Rightarrow>
                     and_then (reject_idle_session cfg m i user s) (\<lambda>s.
                       (Inr (Inr (i, u, jwt_encode j (create_capped_token cfg m user mail (token_binding p) (wbd p)))), s)))"
  have "and_then (enforce_bind_deadline m p, s) (\<lambda>s.
      and_then (reject_replayed_refresh cfg (Some i) (Some x) (workstation pr) s) ?rest) = (r, s')"
    using checks claims False by (auto simp: refresh_checks_def split: if_splits)
  then show ?thesis
  proof (elim and_thenE)
    show ?thesis if "(enforce_bind_deadline m p, s) = (Some err, s')" "r = Inl err" for err
      using that inv by (simp add: refresh_checked_def)
    show ?thesis if "reject_replayed_refresh cfg (Some i) (Some x) (workstation pr) s1 = (Some err, s')" "r = Inl err"
      "(enforce_bind_deadline m p, s) = (None, s1)" for err s1
      using reject_replayed_refresh_cases [OF that(1)] that inv i by (auto simp: refresh_checked_def intro: revoke_session_inv)
    fix s0 s1 assume s0: "(enforce_bind_deadline m p, s) = (None, s0)"
      and s1: "reject_replayed_refresh cfg (Some i) (Some x) (workstation pr) s0 = (None, s1)" and rest: "?rest s1 = (r, s')"
    have "s1 = s" using reject_replayed_refresh_cases [OF s1] s0 by simp
    obtain r2 s2 where r2: "refreshed_or_revoked cfg j m i (workstation pr) s = (r2, s2)" by fastforce
    note step2 = refreshed_or_revoked_inv [OF inv r2]
    show "refresh_checked cfg j B m M p s r s'"
    proof (cases "r2 = Inr None")
      case True
      then have s2: "s2 = s" "\<not> is_token_blocklisted i s" using step2(2) by auto
      from rest show ?thesis unfolding \<open>s1 = s\<close> r2 True prod.case sum.case option.case s2(1)
        by (rule refresh_last_checks [OF inv p claims(1,3) s2(2)])
    next
      case False
      with rest r2 \<open>s1 = s\<close> step2 show ?thesis
        by (auto simp: refresh_checked_def split: sum.splits option.splits)
    qed
  qed
qed

lemma capped_token:
  "sub (create_capped_token cfg m user mail k d) = Some user" "jti (create_capped_token cfg m user mail k d) = Some (new_jti m)"
  "0 \<le> token_expire_hours cfg \<Longrightarrow> \<exists>x. exp (create_capped_token cfg m user mail k d) = Some x \<and> \<lfloor>now m\<rfloor> \<le> x"
  by (auto simp: create_capped_token_def create_token_def Let_def intro!: floor_mono)

lemma swap_token_succeeds:
  assumes "jose_ok j" "jti p' = Some i'" "exp p' = Some x'" "\<lfloor>now m\<rfloor> \<le> x'"
  shows "fst (swap_token j m i user (jwt_encode j p') s) = None"
  using assms by (auto simp: swap_token_def swap_row_def decode_token_def jose_ok_def)

lemma finish_swap_inv:
  assumes inv: "auth_inv cfg j B (now m) M s" and p: "p \<in> M" "jti p = Some i" "sub p = Some user"
    and p': "jti p' = Some (new_jti m)" "sub p' = Some user" "exp p' = Some x'" "\<lfloor>now m\<rfloor> \<le> x'" "new_jti m \<notin> jtis M"
    and fresh: "\<not> is_token_blocklisted i s" and j: "jose_ok j"
    and active: "\<And>r t. \<lbrakk>0 < session_idle_timeout_minutes cfg; r \<in> set (sessions s); row_jti r = i; last_seen_at r = Some t\<rbrakk> \<Longrightarrow>
      of_int x' \<le> t + 120 * of_int (session_idle_timeout_minutes cfg)"
    and new: "\<lbrakk>0 < session_idle_timeout_minutes cfg; i \<notin> row_jti ` set (sessions s)\<rbrakk> \<Longrightarrow>
      of_int x' \<le> now m + 120 * of_int (session_idle_timeout_minutes cfg)"
    and finish: "finish_swap cfg j m i user u (jwt_encode j p') s = (r, s')"
  shows "auth_inv cfg j B (now m) (M \<union> handed_out j r) s'"
proof -
  obtain s1 where s1: "swap_token j m i user (jwt_encode j p') s = (None, s1)"
    using swap_token_succeeds [OF j p'(1,3,4), of i user s] by (metis prod.collapse)
  note inv1 = swap_token_inv [OF inv p p'(1-3,5) fresh j active new s1]
  have "r = Inr (jwt_encode j p', u_must_change u)" "s' = enforce_session_limit cfg m user s1"
    using finish s1 by (simp_all add: finish_swap_def and_then_def)
  moreover have "claims_of j (jwt_encode j p') = {p'}" using j by (simp add: claims_of_def jose_ok_def)
  ultimately show ?thesis using enforce_session_limit_inv [OF inv1] by (simp add: handed_out_def)
qed

lemma find_session_row:
  assumes "auth_inv cfg j B c M s" "r \<in> set (sessions s)" "row_jti r = i"
  shows "find_session i s = Some r"
proof -
  obtain r' where r': "find_session i s = Some r'" using find_session_iff [of i s] assms(2,3) by blast
  then have "r' \<in> set (sessions s)" "row_jti r' = i" by (auto simp: find_session_def find_Some_iff)
  with assms have "r' = r" by (auto simp: auth_inv_def rows_ok_def distinct_map inj_on_def)
  with r' show ?thesis by simp
qed

lemma cached_handed_out: "q \<in> M \<Longrightarrow> jwt_decode j t = Some q \<Longrightarrow> M \<union> handed_out j (Inr (t, b)) = M"
  by (auto simp: handed_out_def claims_of_def)

lemma expired_token_response_inv:
  assumes "auth_inv cfg j B c M s" "expired_token_response cfg j m t ws s = (r, s')"
  shows "auth_inv cfg j B c (M \<union> handed_out j r) s'"
proof (cases "\<exists>cached p. decode_token j m True t = Inr p \<and>
    Option.bind (jti p) (\<lambda>i. if i = [] then None else get_refreshed_token i s) = Some cached")
  case True
  then obtain cached p where c: "decode_token j m True t = Inr p"
    "Option.bind (jti p) (\<lambda>i. if i = [] then None else get_refreshed_token i s) = Some cached" by blast
  then obtain i where i: "get_refreshed_token i s = Some cached" by (auto simp: Option.bind_eq_Some_conv split: if_splits)
  obtain q where q: "q \<in> M" "jwt_decode j cached = Some q" by (rule get_refreshed_known [OF assms(1) i])
  have "and_then (reject_replayed_cached cfg j m cached ws s) (\<lambda>s. (Inr (cached_refresh_response j m cached), s)) = (r, s')"
    using assms(2) c by (simp add: expired_token_response_def)
  then show ?thesis
    using reject_replayed_cached_inv(1) [OF assms(1) i] cached_handed_out [OF q]
    by (auto elim!: and_thenE simp: handed_out_def cached_refresh_response_def)
next
  case False
  then have "s' = s" "handed_out j r = {}"
    using assms(2) by (auto simp: expired_token_response_def handed_out_def split: sum.splits option.splits)
  with assms(1) show ?thesis by simp
qed

lemma presented_known:
  assumes "presentable j M t" "decode_token j m b t = Inr p" "jti p \<noteq> None"
  shows "p \<in> M"
  using assms by (auto simp: presentable_def decode_token_def split: option.splits if_splits)

lemma refresh_token_inv:
  assumes inv: "auth_inv cfg j B c M s" "c \<le> now m" "new_jti m \<notin> jtis M" "jose_ok j" "0 \<le> token_expire_hours cfg" "presentable j M t"
    and refresh: "refresh_token cfg e j m pr t s = (r, s')"
  shows "auth_inv cfg j B (now m) (M \<union> handed_out j r) s'"
proof -
  note inv' = auth_inv_later [OF inv(1,2)]
  consider (bad) "decode_token j m False t = Inl Invalid_Token" | (late) "decode_token j m False t = Inl Expired_Signature"
    | (ok) p where "decode_token j m False t = Inr p" by (metis sumE token_error.exhaust)
  then show ?thesis
  proof cases
    case bad
    with refresh inv' show ?thesis by (auto simp: refresh_token_def handed_out_def)
  next
    case late
    with refresh expired_token_response_inv [OF inv'] show ?thesis by (simp add: refresh_token_def)
  next
    case ok
    show ?thesis
    proof (cases "jti p")
      case None
      with refresh ok inv' show ?thesis by (auto simp: refresh_token_def refresh_checks_def handed_out_def split: option.splits)
    next
      case (Some n)
      then have p: "p \<in> M" using presented_known [OF inv(6) ok] by simp
      obtain r1 s1 where r1: "refresh_checks cfg e j m pr t p s = (r1, s1)" by fastforce
      note checked = refresh_checks_inv [OF inv' p r1]
      show ?thesis
      proof (cases "\<exists>i u t'. r1 = Inr (Inr (i, u, t'))")
        case False
        with refresh ok r1 checked show ?thesis
          by (auto simp: refresh_token_def refresh_checked_def cached_handed_out handed_out_def [of _ "Inl _"] split: sum.splits)
      next
        case True
        then obtain i u t' where v: "r1 = Inr (Inr (i, u, t'))" by blast
        with checked obtain s0 user mail where inv1: "auth_inv cfg j B (now m) M s1" and core: "same_core s s1" "same_core s s0"
          and i: "jti p = Some i" "\<not> is_token_blocklisted i s" "sub p = Some user"
          and idle: "reject_idle_session cfg m i user s0 = (None, s1)"
          and t': "t' = jwt_encode j (create_capped_token cfg m user mail (token_binding p) (wbd p))"
          by (auto simp: refresh_checked_def refresh_ready_def)
        let ?p = "create_capped_token cfg m user mail (token_binding p) (wbd p)"
        obtain x' where x': "exp ?p = Some x'" "\<lfloor>now m\<rfloor> \<le> x'" using capped_token(3) [OF inv(5)] by metis
        have fresh: "\<not> is_token_blocklisted i s1" using i(2) core(1) by (simp add: same_core_def is_token_blocklisted_def)
        have fin: "finish_swap cfg j m i user u (jwt_encode j ?p) s1 = (r, s')"
          using refresh ok r1 v t' i(3) by (simp add: refresh_token_def)
        have "of_int x' \<le> t0 + 120 * of_int (session_idle_timeout_minutes cfg)"
          if "0 < session_idle_timeout_minutes cfg" "row \<in> set (sessions s1)" "row_jti row = i" "last_seen_at row = Some t0" for row t0
        proof -
          have "find_session i s0 = Some row"
            using find_session_row [OF inv1 that(2,3)] core by (simp add: find_session_def same_core_def)
          from reject_idle_cases(2) [OF idle _ that(1) this that(4)] capped_expiry [OF that(1) x'(1)] show ?thesis by simp
        qed
        moreover have "of_int x' \<le> now m + 120 * of_int (session_idle_timeout_minutes cfg)" if "0 < session_idle_timeout_minutes cfg"
          using capped_expiry [OF that x'(1)] that by simp
        ultimately show ?thesis
          using finish_swap_inv [OF inv1 p i(1,3) capped_token(2,1) x' inv(3) fresh inv(4) _ _ fin] by blast
      qed
    qed
  qed
qed

lemma live_row:
  assumes "auth_inv cfg j B c M s" "p \<in> M" "jti p = Some i" "exp p = Some x" "c < of_int x"
  shows "is_token_blocklisted i s \<or> (\<exists>r\<in>set (sessions s). row_of p r)"
proof -
  obtain i' x' where "jti p = Some i'" "exp p = Some x'" "c < of_int x' \<longrightarrow> is_token_blocklisted i' s \<or> (\<exists>r\<in>set (sessions s). row_of p r)"
    using assms(1,2) unfolding auth_inv_def tokens_ok_def by blast
  with assms(3-5) show ?thesis by simp
qed

lemma purged_late:
  assumes "auth_inv cfg j B c M s" "p \<in> M" "jti p = Some i" "exp p = Some x" "\<not> is_token_blocklisted i s"
    and "i \<notin> row_jti ` set (sessions s)"
  shows "of_int x \<le> c"
proof (rule ccontr)
  assume "\<not> of_int x \<le> c"
  then obtain r where "r \<in> set (sessions s)" "row_of p r" using live_row [OF assms(1-4)] assms(5) by auto
  with assms(3,6) show False by (auto simp: row_of_def)
qed

lemma rest_of_life: "\<lfloor>t + (of_int x - t) / 3600 * 3600\<rfloor> = x" for t :: real
proof -
  have "t + (of_int x - t) / 3600 * 3600 = of_int x" by (simp add: field_simps)
  then show ?thesis by (simp only: floor_of_int)
qed

lemma bind_token_inv:
  assumes inv: "auth_inv cfg j B c M s" "c \<le> now m" "new_jti m \<notin> jtis M" "jose_ok j" "presentable j M t"
    and bind: "bind_token cfg e j m pr jwk t s = (r, s')"
  shows "auth_inv cfg j B (now m) (M \<union> handed_out j r) s'"
proof (cases "\<exists>p user mail i x. decode_token j m False t = Inr p \<and> sub p = Some user \<and> email p = Some mail \<and> jti p = Some i \<and>
    exp p = Some x")
  case False
  then have "s' = s" "handed_out j r = {}"
    using bind by (auto simp: bind_token_def handed_out_def split: sum.splits token_error.splits option.splits)
  with auth_inv_later [OF inv(1,2)] show ?thesis by simp
next
  case True
  then obtain p user mail i x where p: "decode_token j m False t = Inr p"
    "sub p = Some user" "email p = Some mail" "jti p = Some i" "exp p = Some x" by blast
  note inv' = auth_inv_later [OF inv(1,2)]
  have known: "p \<in> M" using presented_known [OF inv(5) p(1)] p(4) by simp
  obtain r2 s2 where r2: "refreshed_or_revoked cfg j m i (workstation pr) s = (r2, s2)" by fastforce
  note step2 = refreshed_or_revoked_inv [OF inv' r2]
  have live: "\<lfloor>now m\<rfloor> \<le> x" using p(1,5) by (auto simp: decode_token_def split: option.splits if_splits)
  show ?thesis
  proof (cases "r2 = Inr None \<and> token_binding p = None \<and>
      (\<exists>k u. validate_public_jwk e jwk = Some k \<and> require_active_user cfg m user = Inr u)")
    case False
    then consider (refused) err where "r = Inl err" "s' = s2" | (cached) v where "r2 = Inr (Some v)" "r = Inr v" "s' = s2"
      using bind p r2 by (auto simp: bind_token_def split: sum.splits option.splits if_splits)
    then show ?thesis
    proof cases
      case refused
      with step2(1) show ?thesis by (simp add: handed_out_def)
    next
      case cached
      then obtain q where "q \<in> M" "jwt_decode j (fst v) = Some q" using step2(3) [of "fst v" "snd v"] by auto
      then have "M \<union> handed_out j r = M" unfolding cached(2) by (metis cached_handed_out prod.collapse)
      with cached(3) step2(1) show ?thesis by simp
    qed
  next
    case True
    then obtain k u where k: "validate_public_jwk e jwk = Some k" "require_active_user cfg m user = Inr u"
      and none: "r2 = Inr None" "token_binding p = None" by blast
    let ?p = "create_token m user mail ((of_int x - now m) / 3600) (Some k) (wbd p)"
    have s2: "s2 = s" "\<not> is_token_blocklisted i s" using step2(2) [OF none(1)] by auto
    have p': "jti ?p = Some (new_jti m)" "sub ?p = Some user" "exp ?p = Some x"
      by (simp_all only: create_token_def payload.simps rest_of_life)
    have fin: "finish_swap cfg j m i user u (jwt_encode j ?p) s = (r, s')"
      using bind p r2 none k s2 by (simp add: bind_token_def)
    have "of_int x \<le> t0 + 120 * of_int (session_idle_timeout_minutes cfg)"
      if "0 < session_idle_timeout_minutes cfg" "row \<in> set (sessions s)" "row_jti row = i" "last_seen_at row = Some t0" for row t0
    proof -
      have "row_active cfg (now m) row" using inv' that(2) by (simp add: auth_inv_def rows_ok_def)
      moreover have "expires_at row = of_int x" using row_owner [OF inv' known _ that(2)] that(3) p(4,5) by (simp add: row_of_def)
      ultimately show ?thesis using that(1,4) by (simp add: row_active_def)
    qed
    moreover have "of_int x \<le> now m + 120 * of_int (session_idle_timeout_minutes cfg)"
      if "0 < session_idle_timeout_minutes cfg" "i \<notin> row_jti ` set (sessions s)"
    proof -
      have "0 \<le> 120 * (of_int (session_idle_timeout_minutes cfg) :: real)" using that(1) by simp
      with purged_late [OF inv' known p(4,5) s2(2) that(2)] show ?thesis by linarith
    qed
    ultimately show ?thesis
      using finish_swap_inv [OF inv' known p(4,2) p' live inv(3) s2(2) inv(4) _ _ fin] by blast
  qed
qed

lemma logout_inv:
  assumes "auth_inv cfg j B c M s" "presentable j M t"
  shows "auth_inv cfg j B c M (logout j m t s)"
proof -
  have "i \<in> jtis M" if "decode_token j m False t = Inr p" "jti p = Some i" for p i
    using member_jtis [OF presented_known [OF assms(2) that(1)] that(2)] that(2) by simp
  with assms(1) show ?thesis by (auto simp: logout_def intro: revoke_session_inv split: sum.splits option.splits)
qed

lemma revoke_all_inv: "auth_inv cfg j B c M s \<Longrightarrow> auth_inv cfg j B c M (revoke_all_user_sessions user s)"
  unfolding revoke_all_user_sessions_def by (rule revoke_sessions_inv) (auto simp: set_list_sessions)

lemma touched_rows_inv:
  assumes "auth_inv cfg j B c M s" "c \<le> now m"
  shows "auth_inv cfg j B (now m) M (update_rows P (\<lambda>r. r\<lparr>last_seen_at := Some (now m)\<rparr>) s)"
proof (rule auth_inv_rows [OF auth_inv_later [OF assms], where f = "\<lambda>r. if P r then r\<lparr>last_seen_at := Some (now m)\<rparr> else r"])
  show "row_jti (if P r then r\<lparr>last_seen_at := Some (now m)\<rparr> else r) = row_jti r \<and>
      row_user (if P r then r\<lparr>last_seen_at := Some (now m)\<rparr> else r) = row_user r \<and>
      expires_at (if P r then r\<lparr>last_seen_at := Some (now m)\<rparr> else r) = expires_at r \<and>
      (row_active cfg (now m) r \<longrightarrow> row_active cfg (now m) (if P r then r\<lparr>last_seen_at := Some (now m)\<rparr> else r))" for r
    by (auto simp: row_active_def)
qed (simp_all add: update_rows_def)

lemma stamp_throttle_core: "stamp_throttle_due cfg m key s = (b, s') \<Longrightarrow> same_core s s'"
  by (auto simp: stamp_throttle_due_def same_core_def Let_def split: if_splits)

lemma record_activity_inv:
  assumes "auth_inv cfg j B c M s" "c \<le> now m"
  shows "auth_inv cfg j B (now m) M (record_session_activity cfg m i s)"
    and "auth_inv cfg j B (now m) M (record_ws_session_activity cfg m sid s)"
  using assms auth_inv_later [OF assms]
  by (auto simp: record_session_activity_def record_ws_session_activity_def touch_session_def touch_session_by_sid_def
      dest!: stamp_throttle_core intro: touched_rows_inv same_core_inv split: prod.splits bool.splits)

lemma stamp_step_up_inv:
  assumes "auth_inv cfg j B c M s"
  shows "auth_inv cfg j B c M (snd (stamp_step_up m i s))"
  by (rule auth_inv_rows [OF assms, where f = "\<lambda>r. if row_jti r = i then r\<lparr>stepped_up_at := Some (now m)\<rparr> else r"])
    (auto simp: stamp_step_up_def update_rows_def row_active_def)

lemma authenticated_user_inv:
  assumes inv: "auth_inv cfg j B c M s" "c \<le> now m" "presentable j M t" and auth: "authenticated_user cfg e j m pr t s = (r, s')"
  shows "auth_inv cfg j B (now m) M s'"
proof -
  note inv' = auth_inv_later [OF inv(1,2)]
  show ?thesis
  proof (cases "decode_token j m False t")
    case (Inl err)
    with auth inv' show ?thesis by (simp add: authenticated_user_def)
  next
    case (Inr p)
    have known: "i \<in> jtis M" if "jti p = Some i" for i
      using member_jtis [OF presented_known [OF inv(3) Inr] that] that by simp
    obtain r1 s1 where r1: "enforce_dpop e j m pr t p s = (r1, s1)" by fastforce
    note inv1 = same_core_inv [OF enforce_dpop_core [OF r1] inv']
    have "auth_inv cfg j B (now m) M s2" if "reject_replayed_session cfg (Some i) x ws s1 = (b, s2)" "jti p = Some i" for i x ws b s2
      using reject_replayed_inv [OF inv1 _ that(1)] known [OF that(2)] by simp
    with auth Inr r1 inv1 show ?thesis
      by (auto simp: authenticated_user_def and_then_def intro: record_activity_inv [OF _ order_refl]
          split: option.splits prod.splits if_splits bool.splits)
  qed
qed

lemma get_current_user_state:
  assumes "get_current_user cfg e j m pr (Some t) s = (r, s')"
  shows "s' = snd (authenticated_user cfg e j m pr t s)"
  using assms by (auto simp: get_current_user_def split: sum.splits option.splits if_splits prod.splits)

lemma socket_opened:
  assumes "auth_inv cfg j B c M s" "i \<in> jtis M" "\<not> is_token_blocklisted i s"
  shows "auth_inv cfg j B c M (s\<lparr>sockets := (k, i) # sockets s\<rparr>)"
  using assms by (auto simp: auth_inv_defs is_token_blocklisted_def)

lemma activity_keeps_blocklist:
  "is_token_blocklisted k (record_session_activity cfg m n s) = is_token_blocklisted k s"
proof -
  obtain b s1 where s1: "stamp_throttle_due cfg m (''jti:'' @ n) s = (b, s1)" by fastforce
  then show ?thesis using stamp_throttle_core [OF s1]
    by (cases b) (simp_all add: record_session_activity_def touch_session_def update_rows_def is_token_blocklisted_def same_core_def)
qed

lemma user_from_valid_payload_inv:
  assumes "auth_inv cfg j B (now m) M s" "\<And>i. jti p = Some i \<Longrightarrow> i \<in> jtis M" "user_from_valid_payload cfg m p ws s = (u, s')"
  shows "auth_inv cfg j B (now m) M s'"
    and "u \<noteq> None \<Longrightarrow> \<exists>i. jti p = Some i \<and> \<not> is_token_blocklisted i s'"
proof -
  have inv: "auth_inv cfg j B (now m) M s1" if "jti p = Some i" "reject_replayed_session cfg (Some i) x w s = (b, s1)" for i x w b s1
    using reject_replayed_inv [OF assms(1) _ that(2)] assms(2) that(1) by simp
  have same: "s1 = s" if "reject_replayed_session cfg i x w s = (False, s1)" for i x w s1
    using reject_replayed_session_cases [OF that] by simp
  note stamp = activity_keeps_blocklist [of _ cfg m _ s]
  show "auth_inv cfg j B (now m) M s'"
  proof (cases "sub p = None \<or> jti p = None")
    case True
    with assms(1,3) show ?thesis by (auto simp: user_from_valid_payload_def split: option.splits)
  next
    case False
    then obtain user i where p: "sub p = Some user" "jti p = Some i" by auto
    obtain b s1 where s1: "(case ws of None \<Rightarrow> (False, s) | Some w \<Rightarrow> reject_replayed_session cfg (Some i) (exp p) w s) = (b, s1)"
      by fastforce
    then have "auth_inv cfg j B (now m) M s1" using assms(1) inv [OF p(2)] by (auto split: option.splits)
    with assms(1,3) p s1 show ?thesis
      by (auto simp: user_from_valid_payload_def intro: record_activity_inv [OF _ order_refl] split: if_splits bool.splits)
  qed
  show "\<exists>i. jti p = Some i \<and> \<not> is_token_blocklisted i s'" if "u \<noteq> None"
  proof -
    from that assms(3) obtain user i where p: "sub p = Some user" "jti p = Some i" "\<not> is_token_blocklisted i s"
      by (auto simp: user_from_valid_payload_def split: option.splits if_splits)
    obtain b s1 where s1: "(case ws of None \<Rightarrow> (False, s) | Some w \<Rightarrow> reject_replayed_session cfg (Some i) (exp p) w s) = (b, s1)"
      by fastforce
    have "\<not> b" "s' = record_session_activity cfg m i s1"
      using that assms(3) p s1 by (auto simp: user_from_valid_payload_def split: if_splits bool.splits)
    moreover have "s1 = s" using s1 same \<open>\<not> b\<close> by (auto split: option.splits)
    ultimately show ?thesis using p stamp by simp
  qed
qed

lemma ws_authenticate_inv:
  assumes inv: "auth_inv cfg j B c M s" "c \<le> now m" "presentable j M t" and auth: "ws_authenticate cfg e j m pr k t s = (u, s')"
  shows "auth_inv cfg j B (now m) M s'"
proof (cases "decode_token j m False t")
  case (Inl err)
  with auth auth_inv_later [OF inv(1,2)] show ?thesis by (simp add: ws_authenticate_def)
next
  case (Inr p)
  have known: "i \<in> jtis M" if "jti p = Some i" for i
    using member_jtis [OF presented_known [OF inv(3) Inr] that] that by simp
  obtain r1 s1 where r1: "check_dpop e j m pr t p s = (r1, s1)" by fastforce
  note inv1 = same_core_inv [OF check_dpop_core [OF r1] auth_inv_later [OF inv(1,2)]]
  obtain u2 s2 where u2: "user_from_valid_payload cfg m p (workstation pr) s1 = (u2, s2)" by fastforce
  note step2 = user_from_valid_payload_inv [OF inv1 known u2]
  consider "s' = s1" | "s' = s2" | "u2 \<noteq> None" "s' = s2\<lparr>sockets := (k, the (jti p)) # sockets s2\<rparr>"
    using auth Inr r1 u2 by (auto simp: ws_authenticate_def split: option.splits if_splits)
  then show ?thesis
  proof cases
    case 3
    then obtain i where "jti p = Some i" "\<not> is_token_blocklisted i s2" using step2(2) by blast
    with 3 step2(1) known show ?thesis by (auto intro: socket_opened)
  qed (use inv1 step2(1) in simp_all)
qed

end
