(* ===== verification/Session_Runs.thy ===== *)
theory Session_Runs
  imports Sessions
begin

text \<open>
  The runs of the login service and what holds of them: sessions are accounted for, revocation is final, the limit on
  concurrent sessions and the idle window are kept, a refresh continues its session - and the window a refresh in flight
  leaves across a revocation.
\<close>

section \<open>The runs\<close>

inductive auth_step :: "auth_settings \<Rightarrow> dpop_env \<Rightarrow> 'tok jose \<Rightarrow> 'tok world \<Rightarrow> 'tok world \<Rightarrow> bool" for cfg e j where
  issued: "\<lbrakk>clock w \<le> now m; new_jti m \<notin> jtis (minted w); issue_token cfg j m user mail ip agent web k (db w) = (r, s')\<rbrakk> \<Longrightarrow>
    auth_step cfg e j w \<lparr>db = s', minted = minted w \<union> (case r of Inl _ \<Rightarrow> {} | Inr t \<Rightarrow> claims_of j t), clock = now m\<rparr>"
| refreshed: "\<lbrakk>clock w \<le> now m; new_jti m \<notin> jtis (minted w); presentable j (minted w) t;
    refresh_token cfg e j m pr t (db w) = (r', s')\<rbrakk> \<Longrightarrow>
    auth_step cfg e j w \<lparr>db = s', minted = minted w \<union> handed_out j r', clock = now m\<rparr>"
| bound: "\<lbrakk>clock w \<le> now m; new_jti m \<notin> jtis (minted w); presentable j (minted w) t;
    bind_token cfg e j m pr jwk t (db w) = (r', s')\<rbrakk> \<Longrightarrow>
    auth_step cfg e j w \<lparr>db = s', minted = minted w \<union> handed_out j r', clock = now m\<rparr>"
| requested: "\<lbrakk>clock w \<le> now m; presentable j (minted w) t; get_current_user cfg e j m pr (Some t) (db w) = (u, s')\<rbrakk> \<Longrightarrow>
    auth_step cfg e j w (w\<lparr>db := s', clock := now m\<rparr>)"
| connected: "\<lbrakk>clock w \<le> now m; presentable j (minted w) t; ws_authenticate cfg e j m pr n t (db w) = (u', s')\<rbrakk> \<Longrightarrow>
    auth_step cfg e j w (w\<lparr>db := s', clock := now m\<rparr>)"
| frame: "clock w \<le> now m \<Longrightarrow> auth_step cfg e j w (w\<lparr>db := record_ws_session_activity cfg m sid (db w), clock := now m\<rparr>)"
| disconnected: "auth_step cfg e j w (w\<lparr>db := (db w)\<lparr>sockets := filter (\<lambda>(n', _). n' \<noteq> n) (sockets (db w))\<rparr>\<rparr>)"
| logged_out: "clock w \<le> now m \<Longrightarrow> presentable j (minted w) t \<Longrightarrow>
    auth_step cfg e j w (w\<lparr>db := logout j m t (db w), clock := now m\<rparr>)"
| all_revoked: "auth_step cfg e j w (w\<lparr>db := revoke_all_user_sessions user (db w)\<rparr>)"
| confirmed: "clock w \<le> now m \<Longrightarrow> auth_step cfg e j w (w\<lparr>db := snd (stamp_step_up m i (db w)), clock := now m\<rparr>)"

definition init_world :: "'tok world" where
  "init_world = \<lparr>db = init_auth, minted = {}, clock = 0\<rparr>"

definition world_inv :: "auth_settings \<Rightarrow> 'tok jose \<Rightarrow> (string, 'tok option) dict \<Rightarrow> 'tok world \<Rightarrow> bool" where
  "world_inv cfg j B w \<longleftrightarrow> auth_inv cfg j B (clock w) (minted w) (db w)"

lemma disconnected_inv:
  assumes "auth_inv cfg j B c M s"
  shows "auth_inv cfg j B c M (s\<lparr>sockets := filter P (sockets s)\<rparr>)"
proof -
  have "is_token_blocklisted i (s\<lparr>sockets := filter P (sockets s)\<rparr>) = is_token_blocklisted i s" for i
    by (simp add: is_token_blocklisted_def)
  then show ?thesis using assms by (simp add: auth_inv_defs; blast)
qed

lemma requested_inv:
  assumes "auth_inv cfg j B c M s" "c \<le> now m" "presentable j M t" "get_current_user cfg e j m pr (Some t) s = (u, s')"
  shows "auth_inv cfg j B (now m) M s'"
  unfolding get_current_user_state [OF assms(4)]
  by (rule authenticated_user_inv [OF assms(1-3), of e pr "fst (authenticated_user cfg e j m pr t s)"]) simp

lemma auth_step_inv:
  assumes "auth_step cfg e j w w'" "world_inv cfg j B w" "jose_ok j" "0 \<le> token_expire_hours cfg"
  shows "world_inv cfg j B w'"
  using assms(1)
proof cases
  case issued
  with issue_token_inv assms(2,3) show ?thesis by (fastforce simp: world_inv_def)
next
  case refreshed
  with refresh_token_inv assms(2-4) show ?thesis by (fastforce simp: world_inv_def)
next
  case bound
  with bind_token_inv assms(2,3) show ?thesis by (fastforce simp: world_inv_def)
next
  case requested
  with requested_inv assms(2) show ?thesis by (fastforce simp: world_inv_def)
next
  case connected
  with ws_authenticate_inv assms(2) show ?thesis by (fastforce simp: world_inv_def)
next
  case frame
  with record_activity_inv(2) assms(2) show ?thesis by (fastforce simp: world_inv_def)
next
  case logged_out
  with logout_inv auth_inv_later assms(2) show ?thesis by (fastforce simp: world_inv_def)
next
  case confirmed
  with stamp_step_up_inv auth_inv_later assms(2) show ?thesis by (fastforce simp: world_inv_def)
qed (use assms(2) in \<open>auto simp: world_inv_def intro: disconnected_inv revoke_all_inv\<close>)

text \<open>The configuration of a run: the JWT library decodes what it encoded, and the lifetime is not negative.\<close>

definition auth_config :: "auth_settings \<Rightarrow> 'tok jose \<Rightarrow> bool" where
  "auth_config cfg j \<longleftrightarrow> jose_ok j \<and> 0 \<le> token_expire_hours cfg"

lemma init_world_inv: "world_inv cfg j [] init_world"
  by (simp add: world_inv_def auth_inv_defs init_world_def init_auth_def is_token_blocklisted_def)

interpretation auth_run: step_invariant "auth_step cfg e j" "\<lambda>w. B = [] \<and> w = init_world"
  "\<lambda>w. auth_config cfg j \<longrightarrow> world_inv cfg j B w" for cfg e j B
  by unfold_locales (auto simp: auth_config_def init_world_inv intro: auth_step_inv)

lemma reachable_auth:
  assumes "auth_config cfg j" "(auth_step cfg e j)\<^sup>*\<^sup>* init_world w"
  shows "auth_inv cfg j [] (clock w) (minted w) (db w)"
  using auth_run.reachable_inv [OF assms(2), of "[]"] assms(1) by (simp add: world_inv_def)


text \<open>A run whose tokens are their own claims: a login, then a second one.\<close>

definition plain_jose :: "payload jose" where
  "plain_jose = \<lparr>jwt_encode = \<lambda>p. p, jwt_decode = Some, jwt_text = \<lambda>_. []\<rparr>"

definition plain_settings :: auth_settings where
  "plain_settings = \<lparr>token_expire_hours = 24, session_idle_timeout_minutes = 30, privileged_session_idle_timeout_minutes = 10,
     max_sessions_per_user = 1, session_workstation_binding = ''off'', web_bind_grace_seconds = 0, password_max_age_days = 0,
     step_up_window_minutes = 0\<rparr>"

definition plain_user :: user where
  "plain_user = \<lparr>u_id = ''u'', u_email = ''m'', u_disabled = False, u_must_change = False, u_has_password = True,
     u_password_set_at = None, u_admin = False\<rparr>"

definition plain_moment :: "real \<Rightarrow> string \<Rightarrow> moment" where
  "plain_moment t i = \<lparr>now = t, monotonic = t, new_jti = i, new_sid = ''s'' @ i, get_user = \<lambda>u. if u = ''u'' then Some plain_user else None\<rparr>"

definition plain_claims :: "real \<Rightarrow> string \<Rightarrow> payload" where
  "plain_claims t i = \<lparr>sub = Some ''u'', email = Some ''m'', jti = Some i, exp = Some \<lfloor>t + 1800\<rfloor>, jkt = None, wbd = None, purpose = None, pwb = None\<rparr>"

definition plain_row :: "real \<Rightarrow> string \<Rightarrow> session_row" where
  "plain_row t i = \<lparr>row_jti = i, row_user = ''u'', expires_at = of_int \<lfloor>t + 1800\<rfloor>, source_ip = None, user_agent = None, created_at = of_int \<lfloor>t\<rfloor>,
     last_seen_at = Some t, session_id = ''s'' @ i, stepped_up_at = None\<rparr>"

lemmas plain_defs = plain_jose_def plain_settings_def plain_moment_def plain_claims_def plain_row_def

lemma plain_config: "auth_config plain_settings plain_jose"
  by (simp add: auth_config_def jose_ok_def plain_defs)

definition logged_in :: "payload world" where
  "logged_in = \<lparr>db = \<lparr>sessions = [plain_row 0 ''a''], blocklist = [], session_stamps = [], sockets = [], dpop_replay = []\<rparr>,
     minted = {plain_claims 0 ''a''}, clock = 0\<rparr>"

lemma plain_login:
  "issue_token plain_settings plain_jose (plain_moment 0 ''a'') ''u'' ''m'' None None False None init_auth =
     (Inr (plain_claims 0 ''a''), db logged_in)"
  by (simp add: issue_token_def create_capped_token_def create_token_def idle_window_minutes_for_user_def plain_user_def
      effective_session_idle_minutes_def web_deadline_def decode_token_def record_session_def audit_concurrent_logons_def
      enforce_session_limit_def purge_expired_def list_sessions_def init_auth_def logged_in_def plain_defs Let_def)

lemma logged_in_reachable: "(auth_step plain_settings e plain_jose)\<^sup>*\<^sup>* init_world logged_in"
proof -
  have "auth_step plain_settings e plain_jose init_world \<lparr>db = db logged_in, minted = minted init_world \<union> claims_of plain_jose (plain_claims 0 ''a''),
      clock = now (plain_moment 0 ''a'')\<rparr>"
    using issued [of init_world "plain_moment 0 ''a''" plain_settings plain_jose] plain_login
    by (fastforce simp: init_world_def plain_moment_def jtis_def)
  then show ?thesis by (simp add: init_world_def logged_in_def claims_of_def plain_defs r_into_rtranclp)
qed


section \<open>Revocation\<close>

lemma is_blocklisted_prefix: "blocklist s' = blocklist s @ later \<Longrightarrow> is_token_blocklisted i s \<Longrightarrow> is_token_blocklisted i s'"
  by (simp add: is_token_blocklisted_def image_Un)

lemma revoked_refused:
  assumes "jwt_decode j t = Some p" "jti p = Some i" "is_token_blocklisted i s"
  shows "\<exists>err. fst (get_current_user cfg e j m pr (Some t) s) = Inl err" "fst (ws_authenticate cfg e j m pr k t s) = None"
proof -
  have same: "is_token_blocklisted i s' = is_token_blocklisted i s" if "check_dpop e j m pr t p s = (r, s')" for r s'
    using check_dpop_core [OF that] by (simp add: same_core_def is_token_blocklisted_def)
  obtain r s' where r: "check_dpop e j m pr t p s = (r, s')" by fastforce
  have dec: "decode_token j m False t = Inr p \<or> decode_token j m False t = Inl Expired_Signature"
    using assms(1) by (auto simp: decode_token_def)
  have "\<exists>err. fst (authenticated_user cfg e j m pr t s) = Inl err"
    using dec assms(2,3) r same [OF r]
    by (auto simp: authenticated_user_def and_then_def enforce_dpop_def split: option.splits)
  then show "\<exists>err. fst (get_current_user cfg e j m pr (Some t) s) = Inl err"
    by (auto simp: get_current_user_def split: prod.splits sum.splits)
  show "fst (ws_authenticate cfg e j m pr k t s) = None"
    using dec assms(2,3) r same [OF r]
    by (auto simp: ws_authenticate_def user_from_valid_payload_def split: option.splits)
qed

lemma cached_response_token: "fst (cached_refresh_response j m t) = t"
  by (simp add: cached_refresh_response_def)

text \<open>A refresh of a revoked token makes nothing new: it hands out the token cached with the revocation, if any.\<close>

lemma revoked_refresh:
  assumes "jwt_decode j t = Some p" "jti p = Some i" "is_token_blocklisted i s" "refresh_token cfg e j m pr t s = (Inr (t', b), s')"
  shows "get_refreshed_token i s = Some t'"
proof (cases "decode_token j m False t")
  case (Inl err)
  then have "expired_token_response cfg j m t (workstation pr) s = (Inr (t', b), s')" "decode_token j m True t = Inr p"
    using assms(1,4) by (auto simp: refresh_token_def decode_token_def split: token_error.splits)
  with assms(2) show ?thesis
    by (auto simp: expired_token_response_def and_then_def cached_refresh_response_def split: option.splits if_splits prod.splits)
next
  case (Inr p')
  then have p': "p' = p" using assms(1) by (auto simp: decode_token_def split: if_splits)
  have same: "s1 = s" if "reject_replayed_refresh cfg (Some i) x ws s = (None, s1)" for x ws s1
    using reject_replayed_refresh_cases [OF that] by simp
  have cached: "\<exists>c. get_refreshed_token i s = Some c \<and> r = Inr (Some (cached_refresh_response j m c))"
    if "refreshed_or_revoked cfg j m i ws s = (r, s1)" "\<And>err. r \<noteq> Inl err" for r s1 ws
    using that assms(3) by (auto simp: refreshed_or_revoked_def and_then_def split: option.splits prod.splits)
  obtain r1 s1 where r1: "refresh_checks cfg e j m pr t p s = (r1, s1)" by fastforce
  have "(\<exists>err. r1 = Inl err) \<or> (\<exists>c. get_refreshed_token i s = Some c \<and> r1 = Inr (Inl (cached_refresh_response j m c)))"
    using r1 assms(2) same cached unfolding refresh_checks_def
    by (fastforce elim!: and_thenE split: option.splits if_splits sum.splits prod.splits)
  with assms(4) Inr p' r1 show ?thesis by (auto simp: refresh_token_def cached_refresh_response_def)
qed

lemma revoke_all_revokes:
  assumes "auth_inv cfg j B c M s" "p \<in> M" "sub p = Some user" "jti p = Some i" "exp p = Some x" "c < of_int x"
  shows "is_token_blocklisted i (revoke_all_user_sessions user s)"
proof -
  have bl: "is_token_blocklisted i (revoke_all_user_sessions user s) \<longleftrightarrow>
      is_token_blocklisted i s \<or> i \<in> row_jti ` set (list_sessions user s)"
    using revoke_rows_effect(3) [of i "list_sessions user s" s]
    by (simp add: revoke_all_user_sessions_def revoke_sessions_def remove_sessions_def is_token_blocklisted_def)
  from live_row [OF assms(1,2,4-6)] show ?thesis
  proof
    assume "\<exists>r\<in>set (sessions s). row_of p r"
    then obtain r where "r \<in> set (sessions s)" "row_of p r" by blast
    then have "r \<in> set (list_sessions user s)" "i = row_jti r" using assms(3,4) by (auto simp: set_list_sessions row_of_def)
    then show ?thesis using bl by blast
  qed (simp add: bl)
qed

lemma run_keeps_revocations:
  assumes "auth_config cfg j" "auth_inv cfg j [] (clock w) (minted w) (db w)" "(auth_step cfg e j)\<^sup>*\<^sup>* w w'"
  obtains later where "blocklist (db w') = blocklist (db w) @ later"
proof -
  have "world_inv cfg j (blocklist (db w)) w" using assms(2) by (simp add: world_inv_def auth_inv_def revocations_ok_def)
  then have "world_inv cfg j (blocklist (db w)) w'" using auth_run.star_inv [OF assms(3)] assms(1) by blast
  then show ?thesis using that by (auto simp: world_inv_def auth_inv_def revocations_ok_def)
qed

lemma revoked_for_good:
  assumes "auth_config cfg j" "(auth_step cfg e j)\<^sup>*\<^sup>* init_world w"
    and "(auth_step cfg e j)\<^sup>*\<^sup>* (w\<lparr>db := revoke_all_user_sessions user (db w)\<rparr>) w'"
    and "p \<in> minted w" "sub p = Some user" "jti p = Some i" "exp p = Some x" "clock w < of_int x" "jwt_decode j t = Some p"
  shows "(\<exists>err. fst (get_current_user cfg e j m pr (Some t) (db w')) = Inl err) \<and>
    fst (ws_authenticate cfg e j m pr k t (db w')) = None \<and>
    (\<forall>k. (k, i) \<notin> set (sockets (db w'))) \<and>
    handed_out j (fst (refresh_token cfg e j m pr t (db w'))) \<subseteq> minted w"
proof -
  let ?w = "w\<lparr>db := revoke_all_user_sessions user (db w)\<rparr>"
  note inv = reachable_auth [OF assms(1,2)]
  have inv1: "auth_inv cfg j [] (clock ?w) (minted ?w) (db ?w)" using revoke_all_inv [OF inv] by simp
  have gone: "is_token_blocklisted i (db ?w)" using revoke_all_revokes [OF inv assms(4-8)] by simp
  obtain later where later: "blocklist (db w') = blocklist (db ?w) @ later"
    by (rule run_keeps_revocations [OF assms(1) inv1 assms(3)])
  note gone' = is_blocklisted_prefix [OF later gone]
  have "auth_inv cfg j [] (clock w') (minted w') (db w')"
    using auth_run.star_inv [OF assms(3), of "[]"] inv1 assms(1) by (simp add: world_inv_def)
  then have "\<forall>k. (k, i) \<notin> set (sockets (db w'))" using gone' by (auto simp: auth_inv_def revocations_ok_def)
  moreover have "handed_out j (fst (refresh_token cfg e j m pr t (db w'))) \<subseteq> minted w"
  proof (cases "fst (refresh_token cfg e j m pr t (db w'))")
    case (Inr v)
    then obtain t' b s' where v: "refresh_token cfg e j m pr t (db w') = (Inr (t', b), s')" "v = (t', b)"
      by (metis prod.collapse)
    have "get_refreshed_token i (db w') = Some t'" by (rule revoked_refresh [OF assms(9,6) gone' v(1)])
    moreover have "map_of (blocklist (db w')) i = map_of (blocklist (db ?w)) i"
      using gone by (auto simp: later is_token_blocklisted_def map_add_def map_of_eq_None_iff split: option.splits)
    ultimately have "get_refreshed_token i (db ?w) = Some t'" by (simp add: get_refreshed_token_def)
    then obtain q where "q \<in> minted ?w" "jwt_decode j t' = Some q" by (rule get_refreshed_known [OF inv1])
    then show ?thesis by (simp add: Inr v(2) handed_out_def claims_of_def)
  qed (simp add: handed_out_def)
  ultimately show ?thesis using revoked_refused [OF assms(9,6) gone'] by blast
qed



section \<open>The session limit and the idle window\<close>


text \<open>Removing by id the oldest of the rows leaves the rest, in order.\<close>

lemma filter_taken:
  assumes "distinct (map f rows)"
  shows "filter (\<lambda>r. f r \<notin> f ` set (take n rows)) rows = drop n rows"
proof -
  have split: "distinct (map f (take n rows @ drop n rows))" using assms by simp
  have "filter P (take n rows) @ filter P (drop n rows) = drop n rows"
    if "P = (\<lambda>r. f r \<notin> f ` set (take n rows))" for P
  proof -
    have "filter P (take n rows) = []" by (auto simp: that filter_empty_conv)
    moreover have "filter P (drop n rows) = drop n rows"
      using split unfolding map_append distinct_append by (auto simp: that filter_id_conv simp del: append_take_drop_id)
    ultimately show ?thesis by simp
  qed
  then show ?thesis by (metis append_take_drop_id filter_append)
qed

lemma list_sessions_filter:
  "sessions s' = filter P (sessions s) \<Longrightarrow> list_sessions user s' = filter P (list_sessions user s)"
  by (simp add: list_sessions_def filter_sort conj_commute)

lemma list_sessions_distinct: "distinct (map row_jti (sessions s)) \<Longrightarrow> distinct (map row_jti (list_sessions user s))"
  by (auto simp: list_sessions_def distinct_map inj_on_def)

text \<open>What revoking some of a user's rows leaves of the table, the blocklist and the sockets.\<close>

lemma revoke_sessions_effect:
  "sessions (revoke_sessions rows s) = filter (\<lambda>r. row_jti r \<notin> row_jti ` set rows) (sessions s)"
  "i \<in> row_jti ` set rows \<Longrightarrow> is_token_blocklisted i (revoke_sessions rows s) \<and> (k, i) \<notin> set (sockets (revoke_sessions rows s))"
  using revoke_rows_effect(3) [of i rows s]
  by (auto simp: revoke_sessions_def remove_sessions_def revoke_rows_effect(1,2) is_token_blocklisted_def)

lemma enforce_session_limit_effect:
  assumes "distinct (map row_jti (sessions s))" "0 < max_sessions_per_user cfg" "n = nat (max_sessions_per_user cfg)"
    and "rows = list_sessions user (purge_expired m s)" "s' = enforce_session_limit cfg m user s"
  shows "list_sessions user s' = drop (length rows - n) rows"
    and "v \<noteq> user \<Longrightarrow> list_sessions v s' = list_sessions v (purge_expired m s)"
    and "r \<in> set (take (length rows - n) rows) \<Longrightarrow> is_token_blocklisted (row_jti r) s' \<and> (k, row_jti r) \<notin> set (sockets s')"
proof -
  let ?p = "purge_expired m s" and ?old = "take (length rows - n) rows"
  have key: "distinct (map row_jti (sessions ?p))" using assms(1) by (simp add: purge_expired_def distinct_map_filter)
  have rows: "set rows = {r \<in> set (sessions ?p). row_user r = user}" unfolding assms(4) by (rule set_list_sessions)
  have s': "s' = (if length rows > n then revoke_sessions ?old ?p else ?p)"
    using assms(2-5) by (auto simp: enforce_session_limit_def Let_def)
  show "list_sessions user s' = drop (length rows - n) rows"
    using filter_taken [OF list_sessions_distinct [OF key, of user], of "length rows - n"]
    by (simp add: s' assms(4) list_sessions_filter [OF revoke_sessions_effect(1)])
  show "list_sessions v s' = list_sessions v ?p" if "v \<noteq> user"
  proof -
    have "row_jti r \<notin> row_jti ` set ?old" if r: "r \<in> set (list_sessions v ?p)" for r
    proof
      assume "row_jti r \<in> row_jti ` set ?old"
      then obtain r' where r': "r' \<in> set rows" "row_jti r' = row_jti r" using in_set_takeD by force
      then have "r' = r" using key r rows by (auto simp: set_list_sessions distinct_map inj_on_def)
      with r r' rows \<open>v \<noteq> user\<close> show False by (simp add: set_list_sessions)
    qed
    then show ?thesis by (simp add: s' list_sessions_filter [OF revoke_sessions_effect(1)] filter_id_conv)
  qed
  show "is_token_blocklisted (row_jti r) s' \<and> (k, row_jti r) \<notin> set (sockets s')" if "r \<in> set ?old"
    using that revoke_sessions_effect(2) [of "row_jti r" ?old ?p k] by (auto simp: s' split: if_splits)
qed

lemma purge_twice: "purge_expired m (audit_concurrent_logons m ip s) = purge_expired m s"
  by (simp add: audit_concurrent_logons_def purge_expired_def conj_absorb)

text \<open>
  The limit on concurrent sessions: after a login the user has at most the configured number of sessions, the most
  recently created ones of the live sessions and the new one; those left out are revoked and their sockets closed, and
  the sessions of other users are as they were, less the expired ones.
\<close>

theorem session_limit:
  assumes "issue_token cfg j m user mail ip agent web k s = (Inr t, s')" "jose_ok j" "0 < max_sessions_per_user cfg"
    and "distinct (map row_jti (sessions s))" "new_jti m \<notin> row_jti ` set (sessions s)"
  shows "int (length (list_sessions user s')) \<le> max_sessions_per_user cfg \<and>
    (\<forall>r\<in>set (sessions s). row_user r = user \<and> now m < expires_at r \<and> r \<notin> set (list_sessions user s') \<longrightarrow>
      is_token_blocklisted (row_jti r) s' \<and> (\<forall>k. (k, row_jti r) \<notin> set (sockets s')) \<and>
      (\<forall>r'\<in>set (list_sessions user s'). created_at r \<le> created_at r')) \<and>
    (\<forall>v. v \<noteq> user \<longrightarrow> list_sessions v s' = list_sessions v (purge_expired m s))"
proof -
  let ?p = "create_capped_token cfg m user mail k (web_deadline cfg m web)"
  obtain x where x: "exp ?p = Some x" "jti ?p = Some (new_jti m)" by (simp add: create_capped_token_def create_token_def Let_def)
  define s1 where "s1 = audit_concurrent_logons m ip (record_session m user (new_jti m) (of_int x) ip agent s)"
  have s': "s' = enforce_session_limit cfg m user s1"
    using assms(1,2) x by (auto simp: s1_def issue_token_def Let_def jose_ok_def decode_token_def split: if_splits)
  have table: "\<exists>row. row_user row = user \<and> row_jti row = new_jti m \<and>
      sessions (record_session m user (new_jti m) (of_int x) ip agent s) = sessions s @ [row]"
    using assms(5) by (auto simp: record_session_def filter_id_conv image_iff)
  then obtain row where row: "row_user row = user" "row_jti row = new_jti m"
    "sessions (record_session m user (new_jti m) (of_int x) ip agent s) = sessions s @ [row]" by blast
  have key: "distinct (map row_jti (sessions s1))"
    using assms(4,5) row by (auto simp: s1_def audit_concurrent_logons_def purge_expired_def distinct_map_filter)
  define rows where "rows = list_sessions user (purge_expired m s1)"
  define n where "n = length rows - nat (max_sessions_per_user cfg)"
  note effect = enforce_session_limit_effect [OF key assms(3) refl rows_def s', folded n_def]
  have purged: "sessions (purge_expired m s1) = filter (\<lambda>r. \<not> expires_at r \<le> now m) (sessions s @ [row])"
    unfolding s1_def purge_twice by (simp add: purge_expired_def row(3))
  have "int (length (list_sessions user s')) \<le> max_sessions_per_user cfg" using assms(3) by (simp add: effect(1) n_def)
  moreover have "list_sessions v s' = list_sessions v (purge_expired m s)" if "v \<noteq> user" for v
    unfolding effect(2) [OF that] using that row(1) by (simp add: list_sessions_def purged, simp add: purge_expired_def)
  moreover have "is_token_blocklisted (row_jti r) s' \<and> (\<forall>k. (k, row_jti r) \<notin> set (sockets s')) \<and>
      (\<forall>r'\<in>set (list_sessions user s'). created_at r \<le> created_at r')"
    if r: "r \<in> set (sessions s)" "row_user r = user" "now m < expires_at r" "r \<notin> set (list_sessions user s')" for r
  proof -
    have "r \<in> set rows" using r(1-3) by (simp add: rows_def set_list_sessions purged)
    then have old: "r \<in> set (take n rows)" using r(4) by (metis Un_iff append_take_drop_id effect(1) set_append)
    have "sorted (map created_at (take n rows @ drop n rows))" by (simp add: rows_def list_sessions_def)
    then have "created_at r \<le> created_at r'" if "r' \<in> set (drop n rows)" for r'
      using old that unfolding map_append sorted_append by simp
    with effect(1,3) old show ?thesis by simp
  qed
  ultimately show ?thesis by blast
qed

definition second_login :: "payload world" where
  "second_login = \<lparr>db = \<lparr>sessions = [plain_row 60 ''b''], blocklist = [(''a'', None)], session_stamps = [], sockets = [], dpop_replay = []\<rparr>,
     minted = {plain_claims 60 ''b'', plain_claims 0 ''a''}, clock = 60\<rparr>"

lemma plain_second_login:
  "issue_token plain_settings plain_jose (plain_moment 60 ''b'') ''u'' ''m'' None None False None (db logged_in) =
     (Inr (plain_claims 60 ''b''), db second_login)"
  by (simp add: issue_token_def create_capped_token_def create_token_def idle_window_minutes_for_user_def plain_user_def
      effective_session_idle_minutes_def web_deadline_def decode_token_def record_session_def audit_concurrent_logons_def
      enforce_session_limit_def purge_expired_def list_sessions_def logged_in_def second_login_def plain_defs Let_def
      revoke_sessions_def revoke_row_def remove_sessions_def forget_stamp_def kick_revoked_sockets_def blocklist_token_def)

theorem session_limit_witness: "is_token_blocklisted ''a'' (db second_login) \<and> list_sessions ''u'' (db second_login) = [plain_row 60 ''b'']"
  using session_limit [OF plain_second_login]
  by (simp add: plain_defs jose_ok_def logged_in_def second_login_def list_sessions_def)

text \<open>
  With an idle window, a token that a request or a web socket presents and that is accepted before its expiry belongs
  to a session that was active within the last two windows: its lifetime is one window, and it is only refreshed within
  one window of the session's activity.
\<close>

theorem idle_session_bound:
  assumes "auth_config cfg j" "(auth_step cfg e j)\<^sup>*\<^sup>* init_world w" "clock w \<le> now m" "0 < session_idle_timeout_minutes cfg"
    and "p \<in> minted w" "jti p = Some i" "exp p = Some x" "now m < of_int x" "jwt_decode j t = Some p"
    and "fst (get_current_user cfg e j m pr (Some t) (db w)) = Inr u \<or> fst (ws_authenticate cfg e j m pr k t (db w)) = Some u"
  shows "\<exists>r seen. find_session i (db w) = Some r \<and> sub p = Some (row_user r) \<and> last_seen_at r = Some seen \<and>
    now m < seen + 2 * (60 * of_int (session_idle_timeout_minutes cfg))"
proof -
  note inv = auth_inv_later [OF reachable_auth [OF assms(1,2)] assms(3)]
  have "\<not> is_token_blocklisted i (db w)"
  proof
    assume "is_token_blocklisted i (db w)"
    from revoked_refused [OF assms(9,6) this] assms(10) show False by (metis Inl_Inr_False option.distinct(1))
  qed
  then obtain r where r: "r \<in> set (sessions (db w))" "row_of p r" using live_row [OF inv assms(5-8)] by blast
  moreover have "row_active cfg (now m) r" using inv r(1) by (simp add: auth_inv_def rows_ok_def)
  moreover have "find_session i (db w) = Some r" using find_session_row [OF inv r(1)] r(2) assms(6) by (simp add: row_of_def)
  ultimately show ?thesis using assms(4,7,8) by (force simp: row_active_def row_of_def)
qed

definition plain_presentation :: presentation where
  "plain_presentation = \<lparr>proof_header = None, http_method = ''GET'', http_path = [], base_path = [], workstation = None\<rparr>"

lemma plain_request:
  "fst (get_current_user plain_settings e plain_jose (plain_moment 100 ''b'') plain_presentation (Some (plain_claims 0 ''a'')) (db logged_in)) =
     Inr plain_user"
  by (simp add: get_current_user_def authenticated_user_def decode_token_def and_then_def enforce_dpop_def check_dpop_def
      token_binding_def enforce_bind_deadline_def bind_deadline_expired_def is_token_blocklisted_def reject_replayed_session_def
      password_expired_def ensure_not_disabled_def ensure_password_changed_def logged_in_def plain_defs)
    (simp add: plain_user_def)

theorem idle_session_bound_witness:
  "\<exists>r seen. find_session ''a'' (db logged_in) = Some r \<and> last_seen_at r = Some seen \<and> 100 < seen + 3600"
  using idle_session_bound [OF plain_config logged_in_reachable, of "plain_moment 100 ''b''" "plain_claims 0 ''a''" "''a''" 1800
      "plain_claims 0 ''a''", OF _ _ _ _ _ _ _ disjI1 [OF plain_request]]
  by (auto simp: logged_in_def plain_defs)

section \<open>Refreshing\<close>

lemma enforce_session_limit_keeps:
  "\<exists>P. sessions (enforce_session_limit cfg m user s) = filter P (sessions s)"
  "\<exists>more. blocklist (enforce_session_limit cfg m user s) = blocklist s @ more"
  "max_sessions_per_user cfg \<le> 0 \<Longrightarrow> enforce_session_limit cfg m user s = purge_expired m s"
proof -
  let ?p = "purge_expired m s"
  let ?rows = "take (length (list_sessions user ?p) - nat (max_sessions_per_user cfg)) (list_sessions user ?p)"
  have cases: "enforce_session_limit cfg m user s = ?p \<or> enforce_session_limit cfg m user s = revoke_sessions ?rows ?p"
    by (auto simp: enforce_session_limit_def Let_def)
  then show "\<exists>P. sessions (enforce_session_limit cfg m user s) = filter P (sessions s)"
    by (auto simp: revoke_sessions_effect(1) purge_expired_def)
  have "blocklist ?p = blocklist s @ []" by (simp add: purge_expired_def)
  moreover have "\<exists>more. blocklist (revoke_sessions ?rows ?p) = blocklist s @ more"
    using revoke_rows_effect(4) [of ?rows ?p] by (auto simp: revoke_sessions_def remove_sessions_def purge_expired_def)
  ultimately show "\<exists>more. blocklist (enforce_session_limit cfg m user s) = blocklist s @ more" using cases by metis
qed (simp add: enforce_session_limit_def Let_def)

lemma get_refreshed_token_appended:
  "get_refreshed_token i s = Some t \<Longrightarrow> blocklist s' = blocklist s @ rest \<Longrightarrow> get_refreshed_token i s' = Some t"
  by (auto simp: get_refreshed_token_def Option.bind_eq_Some_conv map_add_def split: option.splits)

text \<open>What a refresh of a token that is not revoked yet does: the checks, then the swap.\<close>

lemma refresh_swaps:
  assumes inv: "auth_inv cfg j B (now m) M s" and p: "p \<in> M" "jwt_decode j t = Some p" "jti p = Some i" "\<not> is_token_blocklisted i s"
    and refresh: "refresh_token cfg e j m pr t s = (Inr (t', b), s')"
  obtains s1 user mail u where "same_core s s1" "sub p = Some user"
    "t' = jwt_encode j (create_capped_token cfg m user mail (token_binding p) (wbd p))"
    "finish_swap cfg j m i user u t' s1 = (Inr (t', b), s')"
proof (cases "decode_token j m False t")
  case (Inl err)
  moreover have "get_refreshed_token i s = None"
    using p(4) by (auto simp: get_refreshed_token_def is_token_blocklisted_def Option.bind_eq_None_conv map_of_eq_None_iff)
  ultimately show ?thesis
    using refresh p(2,3) by (auto simp: refresh_token_def expired_token_response_def decode_token_def split: token_error.splits if_splits)
next
  case (Inr q)
  then have [simp]: "q = p" using p(2) by (auto simp: decode_token_def split: if_splits)
  obtain r1 s1 where r1: "refresh_checks cfg e j m pr t p s = (r1, s1)" by fastforce
  note checked = refresh_checks_inv [OF inv p(1) r1]
  have "r1 \<noteq> Inr (Inl c)" for c
  proof
    assume "r1 = Inr (Inl c)"
    moreover have "refreshed_or_revoked cfg j m i ws s = (Inr None, s)" for ws using p(4) by (simp add: refreshed_or_revoked_def)
    moreover have "s2 = s" if "reject_replayed_refresh cfg (Some i) x ws s = (None, s2)" for x ws s2
      using reject_replayed_refresh_cases [OF that] by simp
    ultimately show False using r1 p(3) unfolding refresh_checks_def
      by (fastforce elim!: and_thenE split: option.splits if_splits sum.splits prod.splits)
  qed
  moreover have "r1 \<noteq> Inl err" for err using refresh Inr r1 by (auto simp: refresh_token_def)
  ultimately obtain i' u t'' where v: "r1 = Inr (Inr (i', u, t''))" by (metis sumE prod.exhaust)
  with checked have "refresh_ready cfg j m p s (i', u, t'') s1" by (simp add: refresh_checked_def)
  then obtain user mail where w: "same_core s s1" "i' = i" "sub p = Some user"
    "t'' = jwt_encode j (create_capped_token cfg m user mail (token_binding p) (wbd p))"
    using p(3) unfolding refresh_ready_def by auto
  have fin: "finish_swap cfg j m i user u t'' s1 = (Inr (t', b), s')" using refresh Inr r1 v w(2,3) by (simp add: refresh_token_def)
  then have "t'' = t'" by (auto simp: finish_swap_def elim!: and_thenE)
  with that [OF w(1,3)] w(4) fin show ?thesis by blast
qed

lemma finish_swap_effect:
  assumes "finish_swap cfg j m i user u t s = (Inr (t', b), s')" "jwt_decode j t = Some p'" "jti p' = Some i'" "exp p' = Some x'"
    and "\<not> is_token_blocklisted i s"
  shows "get_refreshed_token i s' = Some t" "is_token_blocklisted i s'"
    and "\<exists>P. sessions s' = filter P (sessions (replace_session m i user i' (of_int x') s))"
    and "max_sessions_per_user cfg \<le> 0 \<Longrightarrow>
      sessions s' = filter (\<lambda>r. \<not> expires_at r \<le> now m) (sessions (replace_session m i user i' (of_int x') s))"
proof -
  let ?b = "blocklist_token i (Some t) s"
  let ?s1 = "forget_stamp i (retarget_refreshed_sockets i i' (replace_session m i user i' (of_int x') ?b))"
  have s': "s' = enforce_session_limit cfg m user ?s1"
    using assms(1-4) by (auto simp: finish_swap_def swap_token_def swap_row_def decode_token_def elim!: and_thenE
        split: if_splits)
  have bl: "blocklist ?s1 = blocklist s @ [(i, Some t)]"
    using blocklist_fresh [OF assms(5), of "Some t"]
    by (simp add: forget_stamp_def retarget_refreshed_sockets_def replace_session_def update_rows_def record_session_def)
  have "sessions ?s1 = sessions (replace_session m i user i' (of_int x') s)"
    using blocklist_token_fields(1) [of i "Some t" s]
    by (simp add: forget_stamp_def retarget_refreshed_sockets_def replace_session_def update_rows_def record_session_def find_session_def)
  with enforce_session_limit_keeps(1,3) [of cfg m user ?s1]
  show "\<exists>P. sessions s' = filter P (sessions (replace_session m i user i' (of_int x') s))"
    "max_sessions_per_user cfg \<le> 0 \<Longrightarrow>
      sessions s' = filter (\<lambda>r. \<not> expires_at r \<le> now m) (sessions (replace_session m i user i' (of_int x') s))"
    by (simp_all add: s' purge_expired_def)
  have "map_of (blocklist s) i = None" using assms(5) by (simp add: is_token_blocklisted_def map_of_eq_None_iff)
  then have "get_refreshed_token i ?s1 = Some t" by (simp add: get_refreshed_token_def bl map_add_def)
  then show new: "get_refreshed_token i s' = Some t"
    using enforce_session_limit_keeps(2) [of cfg m user ?s1] unfolding s' by (auto intro: get_refreshed_token_appended)
  then show "is_token_blocklisted i s'"
    by (auto simp: get_refreshed_token_def is_token_blocklisted_def Option.bind_eq_Some_conv dest!: map_of_SomeD intro: rev_image_eqI)
qed


lemmas plain_evaluation = decode_token_def and_then_def enforce_dpop_def check_dpop_def token_binding_def
  enforce_bind_deadline_def bind_deadline_expired_def is_token_blocklisted_def reject_replayed_session_def
  reject_replayed_refresh_def refreshed_or_revoked_def require_active_user_def ensure_not_disabled_def password_expired_def
  ensure_password_changed_def reject_idle_session_def session_idle_seconds_def get_last_seen_def find_session_def
  idle_window_minutes_for_user_def effective_session_idle_minutes_def create_capped_token_def create_token_def Let_def

definition refreshed_login :: "payload auth_state" where
  "refreshed_login = \<lparr>sessions = [(plain_row 0 ''a'')\<lparr>row_jti := ''b'', expires_at := 2700\<rparr>], blocklist = [(''a'', Some (plain_claims 900 ''b''))],
     session_stamps = [], sockets = [], dpop_replay = []\<rparr>"

lemma plain_checks:
  "refresh_checks plain_settings e plain_jose (plain_moment 900 ''b'') plain_presentation (plain_claims 0 ''a'') (plain_claims 0 ''a'') (db logged_in) =
     (Inr (Inr (''a'', plain_user, plain_claims 900 ''b'')), db logged_in)"
  by (simp add: refresh_checks_def plain_evaluation plain_presentation_def logged_in_def plain_user_def plain_defs)

lemma plain_swap:
  "finish_swap plain_settings plain_jose (plain_moment 900 ''b'') ''a'' ''u'' plain_user (plain_claims 900 ''b'') (db logged_in) =
     (Inr (plain_claims 900 ''b'', False), refreshed_login)"
  by (simp add: finish_swap_def swap_token_def swap_row_def plain_evaluation blocklist_token_def replace_session_def update_rows_def
      retarget_refreshed_sockets_def forget_stamp_def enforce_session_limit_def purge_expired_def list_sessions_def
      logged_in_def refreshed_login_def plain_user_def plain_defs)

lemma plain_refresh:
  "refresh_token plain_settings e plain_jose (plain_moment 900 ''b'') plain_presentation (plain_claims 0 ''a'') (db logged_in) =
     (Inr (plain_claims 900 ''b'', False), refreshed_login)"
proof -
  have "decode_token plain_jose (plain_moment 900 ''b'') False (plain_claims 0 ''a'') = Inr (plain_claims 0 ''a'')"
    by (simp add: decode_token_def plain_defs)
  moreover have "sub (plain_claims 0 ''a'') = Some ''u''" by (simp add: plain_claims_def)
  ultimately show ?thesis by (simp add: refresh_token_def plain_checks plain_swap)
qed


lemma find_appended: "\<forall>x\<in>set xs. \<not> P x \<Longrightarrow> P y \<Longrightarrow> find P (xs @ [y]) = Some y"
  by (induction xs) auto

text \<open>
  Between the checks of a refresh and its swap other requests run, and nothing looks at the revocations again: when
  all the sessions of the user are revoked in between, the swap finds no row to move and inserts a new one, and the token
  it hands out is live.
\<close>

theorem refresh_outlives_revocation:
  assumes "auth_config cfg j" "refresh_checks cfg e j m pr t p s = (Inr (Inr (i, u, t')), s1)" "sub p = Some user"
    and "jwt_decode j t' = Some p'" "jti p' = Some i'" "exp p' = Some x'" "now m < of_int x'"
    and "find_session i s1 = Some r" "row_user r = user" "i' \<noteq> i" "i' \<notin> row_jti ` set (sessions s1)" "\<not> is_token_blocklisted i' s1"
    and "finish_swap cfg j m i user u t' (revoke_all_user_sessions user s1) = (r', s')"
  shows "r' = Inr (t', u_must_change u) \<and> \<not> is_token_blocklisted i' s' \<and>
    (\<exists>row. find_session i' s' = Some row \<and> row_user row = user \<and> created_at row = of_int \<lfloor>now m\<rfloor>)"
proof -
  let ?s = "revoke_all_user_sessions user s1"
  let ?row = "\<lparr>row_jti = i', row_user = user, expires_at = of_int x', source_ip = None, user_agent = None, created_at = of_int \<lfloor>now m\<rfloor>,
    last_seen_at = Some (now m), session_id = new_sid m, stepped_up_at = None\<rparr>"
  let ?s2 = "forget_stamp i (retarget_refreshed_sockets i i' (record_session m user i' (of_int x') None None ?s))"
  have "r \<in> set (sessions s1)" "row_jti r = i" using assms(8) by (auto simp: find_session_def find_Some_iff)
  then have mine: "i \<in> row_jti ` set (list_sessions user s1)" using assms(9) by (auto simp: set_list_sessions)
  note effect = revoke_sessions_effect [where rows = "list_sessions user s1" and s = s1, folded revoke_all_user_sessions_def]
  have gone: "is_token_blocklisted i ?s" "find_session i ?s = None"
    using mine effect(2) [OF mine] by (auto simp: find_session_def find_None_iff effect(1))
  have "i' \<notin> row_jti ` set (list_sessions user s1)" using assms(11) by (auto simp: set_list_sessions)
  then have fresh: "\<not> is_token_blocklisted i' ?s" "i' \<notin> row_jti ` set (sessions ?s)"
    using assms(11,12) revoke_rows_effect(3) [of i' "list_sessions user s1" s1]
    by (auto simp: revoke_all_user_sessions_def revoke_sessions_def remove_sessions_def is_token_blocklisted_def revoke_rows_effect(1))
  have kept: "filter (\<lambda>r. \<not> expires_at r \<le> now m) (sessions ?s2) = filter (\<lambda>r. \<not> expires_at r \<le> now m) (sessions ?s) @ [?row]"
    using fresh(2) assms(7) by (auto simp: forget_stamp_def retarget_refreshed_sockets_def record_session_def intro!: filter_cong)
  have "row_user r' \<noteq> user" if "r' \<in> set (sessions ?s)" for r' using that by (auto simp: effect(1) set_list_sessions)
  then have "list_sessions user (purge_expired m ?s2) = [?row]"
    unfolding list_sessions_def purge_expired_def kept auth_state.simps by (simp add: filter_empty_conv cong: filter_cong)
  then have limit: "enforce_session_limit cfg m user ?s2 = purge_expired m ?s2" by (simp add: enforce_session_limit_def Let_def)
  have same: "blocklist_token i (Some t') ?s = ?s" using gone(1) by (simp add: blocklist_token_def is_token_blocklisted_def)
  have "decode_token j m False t' = Inr p'" using assms(4,6,7) by (auto simp: decode_token_def) linarith
  then have swapped: "r' = Inr (t', u_must_change u)" "s' = purge_expired m ?s2"
    using assms(5,6,13) gone(2)
    by (simp_all add: finish_swap_def swap_token_def swap_row_def same replace_session_def and_then_def limit)
  moreover have "\<not> is_token_blocklisted i' s'"
    using fresh(1) by (simp add: swapped is_token_blocklisted_def purge_expired_def forget_stamp_def retarget_refreshed_sockets_def record_session_def)
  moreover have "find_session i' s' = Some ?row"
    using find_appended [of "filter (\<lambda>r. \<not> expires_at r \<le> now m) (sessions ?s)" "\<lambda>r. row_jti r = i'" ?row] fresh(2)
    unfolding swapped find_session_def purge_expired_def kept by auto
  ultimately show ?thesis by simp
qed

theorem refresh_outlives_revocation_witness:
  "fst (finish_swap plain_settings plain_jose (plain_moment 900 ''b'') ''a'' ''u'' plain_user (plain_claims 900 ''b'')
      (revoke_all_user_sessions ''u'' (db logged_in))) = Inr (plain_claims 900 ''b'', False)"
proof -
  have "find_session ''a'' (db logged_in) = Some (plain_row 0 ''a'')" "u_must_change plain_user = False"
    by (simp_all add: find_session_def logged_in_def plain_user_def plain_defs)
  with refresh_outlives_revocation [OF plain_config plain_checks, of "''u''" "plain_claims 900 ''b''" "''b''" 2700 "plain_row 0 ''a''"
      "fst (finish_swap plain_settings plain_jose (plain_moment 900 ''b'') ''a'' ''u'' plain_user (plain_claims 900 ''b'')
        (revoke_all_user_sessions ''u'' (db logged_in)))" "snd (finish_swap plain_settings plain_jose (plain_moment 900 ''b'') ''a'' ''u''
        plain_user (plain_claims 900 ''b'') (revoke_all_user_sessions ''u'' (db logged_in)))"]
  show ?thesis by (simp add: logged_in_def is_token_blocklisted_def plain_defs)
qed

end
