(* ===== verification/Login.thy ===== *)
theory Login
  imports Lockout Passwords Session_Runs
begin

text \<open>
  Logging in and the routes that prove ownership of an account: \<open>klangk/auth.py\<close> (login, the change of an expired
  password, single-purpose tokens, login codes), the routes of \<open>klangk/api/auth.py\<close> for a change and a reset of the
  password, for the verification of the address and for a step-up (\<open>klangk/stepup.py\<close>). The rows of users are part of
  the state here. Audit rows, notifications, the time of the last login and the mail itself are output.
\<close>

section \<open>State\<close>

record user_row =
  r_id :: string
  r_email :: string
  r_handle :: string
  r_verified :: bool
  r_disabled :: bool
  r_admin :: bool
  r_account :: account

record 'tok login_state =
  users :: "user_row list"
  login_attempts :: attempts
  auth :: "'tok auth_state"
  pending_login_codes :: "(string, 'tok \<times> string \<times> real) dict"

record login_settings =
  session_policy :: auth_settings
  pw_policy :: password_policy
  guess_policy :: lockout_policy
  crypto :: hashing
  dummy_verify_hash :: string
  sha256_hex :: "byte list \<Rightarrow> string"

definition AGENT_USER_ID :: string where "AGENT_USER_ID = ''00000000-0000-0000-0000-000000000001''"

definition has_password :: "account \<Rightarrow> bool" where
  "has_password a \<longleftrightarrow> password_hash a \<noteq> None \<and> password_hash a \<noteq> Some []"

definition session_user :: "user_row \<Rightarrow> user" where
  "session_user r = \<lparr>u_id = r_id r, u_email = r_email r, u_disabled = r_disabled r, u_must_change = must_change_password (r_account r),
     u_has_password = has_password (r_account r), u_password_set_at = password_set_time (r_account r), u_admin = r_admin r\<rparr>"

definition get_user_by_id :: "string \<Rightarrow> 'tok login_state \<Rightarrow> user_row option" where
  "get_user_by_id i s = find (\<lambda>r. r_id r = i) (users s)"

definition get_user_by_email :: "string \<Rightarrow> 'tok login_state \<Rightarrow> user_row option" where
  "get_user_by_email mail s = find (\<lambda>r. r_email r = mail) (users s)"

definition get_user_by_identifier :: "string \<Rightarrow> 'tok login_state \<Rightarrow> user_row option" where
  "get_user_by_identifier identifier s =
     (if CHR ''@'' \<in> set identifier then get_user_by_email identifier s else find (\<lambda>r. r_handle r = identifier) (users s))"

text \<open>A request reads the users of the state.\<close>

definition with_users :: "moment \<Rightarrow> 'tok login_state \<Rightarrow> moment" where
  "with_users m s = m\<lparr>get_user := \<lambda>i. map_option session_user (get_user_by_id i s)\<rparr>"

definition update_account :: "string \<Rightarrow> (account \<Rightarrow> account) \<Rightarrow> 'tok login_state \<Rightarrow> 'tok login_state" where
  "update_account i f s = s\<lparr>users := map (\<lambda>r. if r_id r = i then r\<lparr>r_account := f (r_account r)\<rparr> else r) (users s)\<rparr>"

datatype login_error = Http http_error | Token_Error token_error | Value_Error | Agent_Principal_Error

text \<open>Where a request comes from and the key its token is bound to.\<close>

record client =
  client_ip :: "string option"
  client_agent :: "string option"
  web_client :: bool
  client_jkt :: "string option"

definition mint ::
  "login_settings \<Rightarrow> 'tok jose \<Rightarrow> moment \<Rightarrow> client \<Rightarrow> user_row \<Rightarrow> 'tok login_state \<Rightarrow> (login_error + 'tok) \<times> 'tok login_state" where
  "mint cfg j m c r s =
     (case issue_token (session_policy cfg) j (with_users m s) (r_id r) (r_email r) (client_ip c) (client_agent c) (web_client c)
             (client_jkt c) (auth s) of
        (Inl e, a) \<Rightarrow> (Inl (Token_Error e), s\<lparr>auth := a\<rparr>)
      | (Inr t, a) \<Rightarrow> (Inr t, s\<lparr>auth := a\<rparr>))"


section \<open>Login\<close>

definition verify_login_password :: "login_settings \<Rightarrow> user_row option \<Rightarrow> string \<Rightarrow> bool" where
  "verify_login_password cfg user password =
     verify_password (crypto cfg) password
       (case user of
          None \<Rightarrow> dummy_verify_hash cfg
        | Some r \<Rightarrow> (case password_hash (r_account r) of
             None \<Rightarrow> dummy_verify_hash cfg
           | Some x \<Rightarrow> if x = [] then dummy_verify_hash cfg else x))"

definition reject_bad_credentials ::
  "login_settings \<Rightarrow> moment \<Rightarrow> user_row option \<Rightarrow> string \<Rightarrow> string \<Rightarrow> attempt option \<Rightarrow> 'tok login_state \<Rightarrow>
     login_error option \<times> 'tok login_state" where
  "reject_bad_credentials cfg m user password lockout_key info s =
     (let password_ok = verify_login_password cfg user password
      in if (case user of None \<Rightarrow> True | Some r \<Rightarrow> \<not> has_password (r_account r)) \<or> \<not> password_ok
         then (case record_login_failure (guess_policy cfg) (now m) lockout_key info (login_attempts s) of
                 (Some err, d) \<Rightarrow> (Some (Http err), s\<lparr>login_attempts := d\<rparr>)
               | (None, d) \<Rightarrow> (Some (Http (401, ''Invalid credentials'')), s\<lparr>login_attempts := d\<rparr>))
         else (None, s))"

definition login_key :: "string \<Rightarrow> user_row option \<Rightarrow> string" where
  "login_key identifier user = (case user of None \<Rightarrow> identifier | Some r \<Rightarrow> r_email r)"

text \<open>The gates that \<open>login\<close> and the change of an expired password share, up to the clearing of the failures.\<close>

definition login_gates ::
  "login_settings \<Rightarrow> moment \<Rightarrow> string \<Rightarrow> string \<Rightarrow> 'tok login_state \<Rightarrow> (login_error + user_row) \<times> 'tok login_state" where
  "login_gates cfg m identifier password s =
     (let user = get_user_by_identifier identifier s; lockout_key = login_key identifier user
      in case check_login_lockout (guess_policy cfg) (now m) lockout_key (login_attempts s) of
           Inl err \<Rightarrow> (Inl (Http err), s)
         | Inr info \<Rightarrow>
             (case reject_bad_credentials cfg m user password lockout_key info s of
                (Some err, s) \<Rightarrow> (Inl err, s)
              | (None, s) \<Rightarrow>
                  (if \<not> r_verified (the user) then (Inl (Http (403, ''Account not verified. Check your email.'')), s)
                   else if r_disabled (the user) then (Inl (Http (403, ''Account disabled'')), s)
                   else (Inr (the user), s\<lparr>login_attempts := clear_login_failures (guess_policy cfg) lockout_key (login_attempts s)\<rparr>))))"

definition login ::
  "login_settings \<Rightarrow> 'tok jose \<Rightarrow> moment \<Rightarrow> client \<Rightarrow> string \<Rightarrow> string \<Rightarrow> 'tok login_state \<Rightarrow>
     (login_error + 'tok \<times> bool) \<times> 'tok login_state" where
  "login cfg j m c identifier password s =
     (case login_gates cfg m identifier password s of
        (Inl err, s) \<Rightarrow> (Inl err, s)
      | (Inr r, s) \<Rightarrow>
          (if password_expired (session_policy cfg) m (session_user r) then (Inl (Http (403, ''password_expired'')), s)
           else case mint cfg j m c r s of
             (Inl err, s) \<Rightarrow> (Inl err, s)
           | (Inr t, s) \<Rightarrow> (Inr (t, must_change_password (r_account r)), s)))"


section \<open>Passwords of accounts\<close>

text \<open>\<open>_set_password_and_flag\<close> of the table, with the flag to write, if any.\<close>

definition store_password :: "login_settings \<Rightarrow> moment \<Rightarrow> string \<Rightarrow> string \<Rightarrow> bool option \<Rightarrow> 'tok login_state \<Rightarrow> 'tok login_state" where
  "store_password cfg m i hashed flag = update_account i (set_password_and_flag (pw_policy cfg) (now m) hashed flag)"

definition change_expired_password ::
  "login_settings \<Rightarrow> 'tok jose \<Rightarrow> moment \<Rightarrow> client \<Rightarrow> byte list \<Rightarrow> string \<Rightarrow> string \<Rightarrow> string \<Rightarrow> 'tok login_state \<Rightarrow>
     (login_error + 'tok \<times> bool) \<times> 'tok login_state" where
  "change_expired_password cfg j m c salt identifier current_password new_password s =
     (case login_gates cfg m identifier current_password s of
        (Inl err, s) \<Rightarrow> (Inl err, s)
      | (Inr r, s) \<Rightarrow>
          (if \<not> password_expired (session_policy cfg) m (session_user r)
           then (Inl (Http (400, ''Password has not expired; use change-password'')), s)
           else case validate_password_min_age (pw_policy cfg) (now m) (r_account r) of
             Some err \<Rightarrow> (Inl (Http err), s)
           | None \<Rightarrow>
          (case validate_password (pw_policy cfg) new_password of
             Some err \<Rightarrow> (Inl (Http err), s)
           | None \<Rightarrow>
          (case validate_password_not_reused (crypto cfg) (pw_policy cfg) new_password (r_account r) of
             Some err \<Rightarrow> (Inl (Http err), s)
           | None \<Rightarrow>
          (case hash_password (crypto cfg) salt new_password of
             None \<Rightarrow> (Inl Value_Error, s)
           | Some hashed \<Rightarrow>
               (if r_id r = AGENT_USER_ID then (Inl Agent_Principal_Error, s)
                else case mint cfg j m c r (store_password cfg m (r_id r) hashed None s) of
                  (Inl err, s) \<Rightarrow> (Inl err, s)
                | (Inr t, s) \<Rightarrow> (Inr (t, False), s)))))))"

definition verify_password_confirmation :: "login_settings \<Rightarrow> string \<Rightarrow> string \<Rightarrow> string \<Rightarrow> 'tok login_state \<Rightarrow> login_error option" where
  "verify_password_confirmation cfg mail password incorrect_detail s =
     (case get_user_by_email mail s of
        None \<Rightarrow> Some (Http (401, incorrect_detail))
      | Some r \<Rightarrow>
          (if \<not> has_password (r_account r) then Some (Http (403, ''Account is managed by your identity provider''))
           else if \<not> verify_password (crypto cfg) password (the (password_hash (r_account r))) then Some (Http (401, incorrect_detail))
           else None))"

text \<open>The route that changes the password of the user \<open>r\<close> the request was authenticated as.\<close>

definition change_password ::
  "login_settings \<Rightarrow> moment \<Rightarrow> byte list \<Rightarrow> user_row \<Rightarrow> string \<Rightarrow> string \<Rightarrow> 'tok login_state \<Rightarrow> login_error option \<times> 'tok login_state" where
  "change_password cfg m salt r current_password new_password s =
     (case verify_password_confirmation cfg (r_email r) current_password ''Current password is incorrect'' s of
        Some err \<Rightarrow> (Some err, s)
      | None \<Rightarrow>
     (case (if must_change_password (r_account r) then None else validate_password_min_age (pw_policy cfg) (now m) (r_account r)) of
        Some err \<Rightarrow> (Some (Http err), s)
      | None \<Rightarrow>
     (case validate_password (pw_policy cfg) new_password of
        Some err \<Rightarrow> (Some (Http err), s)
      | None \<Rightarrow>
     (case validate_password_changed_enough (pw_policy cfg) current_password new_password of
        Some err \<Rightarrow> (Some (Http err), s)
      | None \<Rightarrow>
     (case Option.bind (get_user_by_id (r_id r) s)
             (\<lambda>r. validate_password_not_reused (crypto cfg) (pw_policy cfg) new_password (r_account r)) of
        Some err \<Rightarrow> (Some (Http err), s)
      | None \<Rightarrow>
     (case hash_password (crypto cfg) salt new_password of
        None \<Rightarrow> (Some Value_Error, s)
      | Some hashed \<Rightarrow>
          (if r_id r = AGENT_USER_ID then (Some Agent_Principal_Error, s)
           else (let s = store_password cfg m (r_id r) hashed (Some False) s
                 in (None, s\<lparr>auth := revoke_all_user_sessions (r_id r) (auth s)\<rparr>)))))))))"


section \<open>Single-purpose tokens\<close>

definition verify_token_expire_hours :: real where "verify_token_expire_hours = 72"

definition reset_token_expire_hours :: real where "reset_token_expire_hours = 1"

definition create_verification_token :: "'tok jose \<Rightarrow> moment \<Rightarrow> string \<Rightarrow> string \<Rightarrow> 'tok" where
  "create_verification_token j m i mail = jwt_encode j (create_purpose_token m i ''verify'' verify_token_expire_hours (Some mail) None)"

text \<open>A claim that is absent or empty makes the token invalid.\<close>

definition two_claims :: "string option \<Rightarrow> string option \<Rightarrow> (string \<times> string) option" where
  "two_claims a b = (case (a, b) of (Some x, Some y) \<Rightarrow> if x = [] \<or> y = [] then None else Some (x, y) | _ \<Rightarrow> None)"

definition decode_verification_token :: "'tok jose \<Rightarrow> moment \<Rightarrow> 'tok \<Rightarrow> (string \<times> string) option" where
  "decode_verification_token j m t = Option.bind (decode_purpose_token j m ''verify'' t) (\<lambda>p. two_claims (sub p) (email p))"

definition reset_token_binding :: "login_settings \<Rightarrow> string option \<Rightarrow> string" where
  "reset_token_binding cfg hashed = take 16 (sha256_hex cfg (encode (case hashed of None \<Rightarrow> [] | Some x \<Rightarrow> x)))"

definition create_password_reset_token :: "'tok jose \<Rightarrow> moment \<Rightarrow> string \<Rightarrow> string \<Rightarrow> 'tok" where
  "create_password_reset_token j m i binding = jwt_encode j (create_purpose_token m i ''reset'' reset_token_expire_hours None (Some binding))"

definition decode_password_reset_token :: "'tok jose \<Rightarrow> moment \<Rightarrow> 'tok \<Rightarrow> (string \<times> string) option" where
  "decode_password_reset_token j m t = Option.bind (decode_purpose_token j m ''reset'' t) (\<lambda>p. two_claims (sub p) (pwb p))"

definition create_invitation_token :: "'tok jose \<Rightarrow> moment \<Rightarrow> real \<Rightarrow> string \<Rightarrow> string \<Rightarrow> 'tok" where
  "create_invitation_token j m hours i mail = jwt_encode j (create_purpose_token m i ''invite'' hours (Some mail) None)"

definition decode_invitation_token :: "'tok jose \<Rightarrow> moment \<Rightarrow> 'tok \<Rightarrow> (string \<times> string) option" where
  "decode_invitation_token j m t = Option.bind (decode_purpose_token j m ''invite'' t) (\<lambda>p. two_claims (sub p) (email p))"

definition create_workspace_token :: "'tok jose \<Rightarrow> moment \<Rightarrow> real \<Rightarrow> string \<Rightarrow> 'tok" where
  "create_workspace_token j m hours ws = jwt_encode j (create_purpose_token m ws ''workspace'' hours None None)"

text \<open>\<open>Inl True\<close> is the sentinel \<open>WORKSPACE_TOKEN_EXPIRED\<close>, \<open>Inl False\<close> every other failure.\<close>

definition decode_workspace_token :: "'tok jose \<Rightarrow> moment \<Rightarrow> 'tok \<Rightarrow> bool + string option" where
  "decode_workspace_token j m t =
     (case decode_token j m False t of
        Inl Expired_Signature \<Rightarrow> Inl True
      | Inl Invalid_Token \<Rightarrow> Inl False
      | Inr p \<Rightarrow> if purpose p \<noteq> Some ''workspace'' then Inl False else Inr (sub p))"

definition reset_password ::
  "login_settings \<Rightarrow> 'tok jose \<Rightarrow> moment \<Rightarrow> client \<Rightarrow> byte list \<Rightarrow> 'tok \<Rightarrow> string \<Rightarrow> 'tok login_state \<Rightarrow>
     (login_error + 'tok) \<times> 'tok login_state" where
  "reset_password cfg j m c salt t password s =
     (case decode_password_reset_token j m t of
        None \<Rightarrow> (Inl (Http (400, ''Invalid or expired reset token'')), s)
      | Some (i, binding) \<Rightarrow>
     (case validate_password (pw_policy cfg) password of
        Some err \<Rightarrow> (Inl (Http err), s)
      | None \<Rightarrow>
     (if i = AGENT_USER_ID then (Inl (Http (400, ''Cannot set a password on the system agent user'')), s)
      else case get_user_by_id i s of
        None \<Rightarrow> (Inl (Http (404, ''User not found'')), s)
      | Some r \<Rightarrow>
          (if reset_token_binding cfg (password_hash (r_account r)) \<noteq> binding then (Inl (Http (400, ''Invalid or expired reset token'')), s)
           else if r_disabled r then (Inl (Http (403, ''Account disabled'')), s)
           else case validate_password_min_age (pw_policy cfg) (now m) (r_account r) of
             Some err \<Rightarrow> (Inl (Http err), s)
           | None \<Rightarrow>
          (case validate_password_not_reused (crypto cfg) (pw_policy cfg) password (r_account r) of
             Some err \<Rightarrow> (Inl (Http err), s)
           | None \<Rightarrow>
          (case hash_password (crypto cfg) salt password of
             None \<Rightarrow> (Inl Value_Error, s)
           | Some hashed \<Rightarrow> mint cfg j m c r (store_password cfg m i hashed (Some False) s)))))))"

text \<open>\<open>verify_user\<close>: the update is conditional, and says whether it matched a row.\<close>

definition verify_user :: "string \<Rightarrow> string \<Rightarrow> 'tok login_state \<Rightarrow> bool \<times> 'tok login_state" where
  "verify_user i mail s =
     (let hit = (\<lambda>r. r_id r = i \<and> \<not> r_verified r \<and> r_email r = mail)
      in (list_ex hit (users s), s\<lparr>users := map (\<lambda>r. if hit r then r\<lparr>r_verified := True\<rparr> else r) (users s)\<rparr>))"

definition verify_email ::
  "login_settings \<Rightarrow> 'tok jose \<Rightarrow> moment \<Rightarrow> client \<Rightarrow> 'tok \<Rightarrow> 'tok login_state \<Rightarrow> (login_error + 'tok) \<times> 'tok login_state" where
  "verify_email cfg j m c t s =
     (case decode_verification_token j m t of
        None \<Rightarrow> (Inl (Http (400, ''Invalid or expired verification token'')), s)
      | Some (i, mail) \<Rightarrow>
          (case verify_user i mail s of
             (False, s) \<Rightarrow> (Inl (Http (400, ''Invalid or expired verification token'')), s)
           | (True, s) \<Rightarrow>
               (case get_user_by_id i s of
                  None \<Rightarrow> (Inl (Http (404, ''User not found'')), s)
                | Some r \<Rightarrow> if r_disabled r then (Inl (Http (403, ''Account disabled'')), s) else mint cfg j m c r s)))"


section \<open>Login codes and the step-up\<close>

definition login_code_ttl_seconds :: real where "login_code_ttl_seconds = 60"

definition prune_login_codes :: "real \<Rightarrow> (string, 'tok \<times> string \<times> real) dict \<Rightarrow> (string, 'tok \<times> string \<times> real) dict" where
  "prune_login_codes t d = filter (\<lambda>(_, _, _, x). \<not> x \<le> t) d"

text \<open>The code is random.\<close>

definition mint_login_code :: "moment \<Rightarrow> string \<Rightarrow> 'tok \<Rightarrow> string \<Rightarrow> 'tok login_state \<Rightarrow> 'tok login_state" where
  "mint_login_code m code t mail s =
     s\<lparr>pending_login_codes := AList.update code (t, mail, now m + login_code_ttl_seconds) (prune_login_codes (now m) (pending_login_codes s))\<rparr>"

definition redeem_login_code :: "moment \<Rightarrow> string \<Rightarrow> 'tok login_state \<Rightarrow> ('tok \<times> string) option \<times> 'tok login_state" where
  "redeem_login_code m code s =
     (case map_of (pending_login_codes s) code of
        None \<Rightarrow> (None, s)
      | Some (t, mail, x) \<Rightarrow>
          (if x \<le> now m then None else Some (t, mail), s\<lparr>pending_login_codes := AList.delete code (pending_login_codes s)\<rparr>))"

definition confirm_step_up_password ::
  "login_settings \<Rightarrow> moment \<Rightarrow> user_row \<Rightarrow> string \<Rightarrow> 'tok login_state \<Rightarrow> login_error option \<times> 'tok login_state" where
  "confirm_step_up_password cfg m r password s =
     (if \<not> has_password (r_account r) then (Some (Http (403, ''Account is managed by your identity provider'')), s)
      else case check_login_lockout (guess_policy cfg) (now m) (r_email r) (login_attempts s) of
        Inl err \<Rightarrow> (Some (Http err), s)
      | Inr info \<Rightarrow>
          (if \<not> verify_login_password cfg (Some r) password
           then (case record_login_failure (guess_policy cfg) (now m) (r_email r) info (login_attempts s) of
                   (Some err, d) \<Rightarrow> (Some (Http err), s\<lparr>login_attempts := d\<rparr>)
                 | (None, d) \<Rightarrow> (Some (Http (401, ''Invalid credentials'')), s\<lparr>login_attempts := d\<rparr>))
           else (None, s\<lparr>login_attempts := clear_login_failures (guess_policy cfg) (r_email r) (login_attempts s)\<rparr>)))"

text \<open>The route, for the user \<open>r\<close> and the token id \<open>i\<close> of the request.\<close>

definition step_up ::
  "login_settings \<Rightarrow> moment \<Rightarrow> user_row \<Rightarrow> string option \<Rightarrow> string \<Rightarrow> 'tok login_state \<Rightarrow> login_error option \<times> 'tok login_state" where
  "step_up cfg m r i password s =
     (if step_up_window_minutes (session_policy cfg) \<le> 0 then (Some (Http (400, ''Step-up authentication is not enabled'')), s)
      else case confirm_step_up_password cfg m r password s of
        (Some err, s) \<Rightarrow> (Some err, s)
      | (None, s) \<Rightarrow>
          (case stamp_step_up m (case i of None \<Rightarrow> [] | Some x \<Rightarrow> x) (auth s) of
             (False, a) \<Rightarrow> (Some (Http (401, ''Session not found'')), s\<lparr>auth := a\<rparr>)
           | (True, a) \<Rightarrow> (None, s\<lparr>auth := a\<rparr>)))"


section \<open>Properties\<close>

lemma check_lockout_passes:
  "(\<exists>info. check_login_lockout pol t key d = Inr info) \<longleftrightarrow>
     login_lockout_failures pol \<le> 0 \<or> (case Option.bind (map_of d key) locked_until of None \<Rightarrow> True | Some u \<Rightarrow> u \<le> t)"
  by (auto simp: check_login_lockout_def is_locked_out_def get_login_attempt_info_def Let_def split: option.splits)

lemma login_gates_pass:
  "login_gates cfg m identifier password s = (Inr r, s') \<longleftrightarrow>
     get_user_by_identifier identifier s = Some r \<and>
     (login_lockout_failures (guess_policy cfg) \<le> 0 \<or>
        (case Option.bind (map_of (login_attempts s) (r_email r)) locked_until of None \<Rightarrow> True | Some u \<Rightarrow> u \<le> now m)) \<and>
     has_password (r_account r) \<and> verify_password (crypto cfg) password (the (password_hash (r_account r))) \<and>
     r_verified r \<and> \<not> r_disabled r \<and>
     s' = s\<lparr>login_attempts := clear_login_failures (guess_policy cfg) (r_email r) (login_attempts s)\<rparr>"
proof (cases "get_user_by_identifier identifier s")
  case None
  then show ?thesis by (auto simp: login_gates_def reject_bad_credentials_def Let_def split: sum.splits prod.splits option.splits)
next
  case (Some x)
  have hash: "verify_login_password cfg (Some x) password \<longleftrightarrow> verify_password (crypto cfg) password (the (password_hash (r_account x)))"
    if "has_password (r_account x)"
    using that by (auto simp: verify_login_password_def has_password_def)
  show ?thesis
  proof (cases "check_login_lockout (guess_policy cfg) (now m) (r_email x) (login_attempts s)")
    case (Inl err)
    then show ?thesis using Some check_lockout_passes [of "guess_policy cfg" "now m" "r_email x" "login_attempts s"]
      by (auto simp: login_gates_def login_key_def Let_def)
  next
    case (Inr info)
    then have "login_lockout_failures (guess_policy cfg) \<le> 0 \<or>
        (case Option.bind (map_of (login_attempts s) (r_email x)) locked_until of None \<Rightarrow> True | Some u \<Rightarrow> u \<le> now m)"
      using check_lockout_passes [of "guess_policy cfg" "now m" "r_email x" "login_attempts s"] by blast
    then show ?thesis using Some Inr hash
      by (auto simp: login_gates_def login_key_def reject_bad_credentials_def Let_def split: prod.splits option.splits if_splits)
  qed
qed

text \<open>
  (C13) Who gets in: a login hands out a token exactly when the account exists, no lock is in force for it, it has a
  password that the presented one matches, its address is verified, it is not disabled and the password has not expired;
  its failures are then forgotten and the token is the one minted for it.
\<close>

theorem login_gate:
  "login cfg j m c identifier password s = (Inr (t, b), s') \<longleftrightarrow>
     (\<exists>r. get_user_by_identifier identifier s = Some r \<and>
        (login_lockout_failures (guess_policy cfg) \<le> 0 \<or>
           (case Option.bind (map_of (login_attempts s) (r_email r)) locked_until of None \<Rightarrow> True | Some u \<Rightarrow> u \<le> now m)) \<and>
        has_password (r_account r) \<and> verify_password (crypto cfg) password (the (password_hash (r_account r))) \<and>
        r_verified r \<and> \<not> r_disabled r \<and> \<not> password_expired (session_policy cfg) m (session_user r) \<and>
        b = must_change_password (r_account r) \<and>
        mint cfg j m c r (s\<lparr>login_attempts := clear_login_failures (guess_policy cfg) (r_email r) (login_attempts s)\<rparr>) = (Inr t, s'))"
proof (cases "login_gates cfg m identifier password s")
  case (Pair v s1)
  show ?thesis
  proof (cases v)
    case (Inl err)
    then have "\<nexists>r s'. login_gates cfg m identifier password s = (Inr r, s')" using Pair by auto
    then show ?thesis unfolding login_gates_pass using Pair Inl by (auto simp: login_def)
  next
    case (Inr r)
    note gates = Pair [unfolded Inr login_gates_pass]
    show ?thesis using gates Pair Inr by (auto simp: login_def split: prod.splits sum.splits)
  qed
qed

lemma find_updated:
  "find (\<lambda>r. r_id r = i) (map (\<lambda>r. if r_id r = i then r\<lparr>r_account := f (r_account r)\<rparr> else r) us) =
     map_option (\<lambda>r. r\<lparr>r_account := f (r_account r)\<rparr>) (find (\<lambda>r. r_id r = i) us)"
  by (induction us) auto

lemma stored_password:
  "get_user_by_id i (store_password cfg m i hashed flag s) =
     map_option (\<lambda>r. r\<lparr>r_account := set_password_and_flag (pw_policy cfg) (now m) hashed flag (r_account r)\<rparr>) (get_user_by_id i s)"
  "auth (store_password cfg m i hashed flag s) = auth s" "login_attempts (store_password cfg m i hashed flag s) = login_attempts s"
  by (simp_all add: store_password_def update_account_def get_user_by_id_def find_updated)

lemma set_password_hash:
  "password_hash (set_password_and_flag pol t hashed flag a) = Some hashed"
  "must_change_password (set_password_and_flag pol t hashed (Some b) a) = b"
  by (simp_all add: set_password_and_flag_def retire_password_def Let_def split: option.splits)

lemma change_password_effect:
  assumes "change_password cfg m salt r current_password new_password s = (None, s')"
  obtains hashed where "hash_password (crypto cfg) salt new_password = Some hashed" "r_id r \<noteq> AGENT_USER_ID"
    "s' = (store_password cfg m (r_id r) hashed (Some False) s)\<lparr>auth := revoke_all_user_sessions (r_id r) (auth s)\<rparr>"
  using assms by (auto simp: change_password_def stored_password Let_def split: option.splits if_splits)

text \<open>
  (C15) Changing the password: the new one is what the account is checked against from then on and no change is due any
  more, and every unexpired token of the user handed out before is refused by all later requests and web sockets.
\<close>

theorem password_change_ends_sessions:
  assumes "auth_config (session_policy cfg) j" "(auth_step (session_policy cfg) e j)\<^sup>*\<^sup>* init_world w" "auth s = db w"
    and "change_password cfg m salt r current_password new_password s = (None, s')" "base64_ok (crypto cfg)"
    and "(auth_step (session_policy cfg) e j)\<^sup>*\<^sup>* (w\<lparr>db := auth s'\<rparr>) w'"
    and "p \<in> minted w" "sub p = Some (r_id r)" "jti p = Some i" "exp p = Some x" "clock w < of_int x" "jwt_decode j t = Some p"
    and "get_user_by_id (r_id r) s = Some r0"
  shows "(\<exists>r'. get_user_by_id (r_id r) s' = Some r' \<and> has_password (r_account r') \<and> \<not> must_change_password (r_account r') \<and>
      verify_password (crypto cfg) new_password (the (password_hash (r_account r')))) \<and>
    (\<exists>err. fst (get_current_user (session_policy cfg) e j m' pr (Some t) (db w')) = Inl err) \<and>
    fst (ws_authenticate (session_policy cfg) e j m' pr k t (db w')) = None"
proof -
  obtain hashed where h: "hash_password (crypto cfg) salt new_password = Some hashed" "r_id r \<noteq> AGENT_USER_ID"
    "s' = (store_password cfg m (r_id r) hashed (Some False) s)\<lparr>auth := revoke_all_user_sessions (r_id r) (auth s)\<rparr>"
    by (rule change_password_effect [OF assms(4)])
  let ?a = "set_password_and_flag (pw_policy cfg) (now m) hashed (Some False) (r_account r0)"
  have "get_user_by_id (r_id r) s' = Some (r0\<lparr>r_account := ?a\<rparr>)"
    using assms(13) stored_password(1) [of "r_id r" cfg m hashed "Some False" s] by (simp add: h(3) get_user_by_id_def)
  moreover have "hashed \<noteq> []" using h(1) by (auto simp: hash_password_def HASH_SCHEME_def Let_def split: if_splits)
  moreover have "verify_password (crypto cfg) new_password hashed"
    using hashed_password_verifies [OF assms(5) h(1), of new_password] h(1) by (auto simp: hash_password_def Let_def split: if_splits)
  ultimately have row: "\<exists>r'. get_user_by_id (r_id r) s' = Some r' \<and> has_password (r_account r') \<and> \<not> must_change_password (r_account r') \<and>
      verify_password (crypto cfg) new_password (the (password_hash (r_account r')))"
    by (simp add: has_password_def set_password_hash)
  have "auth s' = revoke_all_user_sessions (r_id r) (db w)" using h(3) assms(3) by simp
  with revoked_for_good [OF assms(1,2) _ assms(7-12)] assms(6) row show ?thesis by metis
qed

lemma purpose_claims:
  "jti (create_purpose_token m i why h mail b) = None" "purpose (create_purpose_token m i why h mail b) = Some why"
  by (simp_all add: create_purpose_token_def)

lemma no_id_refused:
  assumes "jwt_decode j t = Some p" "jti p = None"
  shows "\<exists>err. fst (get_current_user cfg e j m pr (Some t) s) = Inl err" "fst (ws_authenticate cfg e j m pr k t s) = None"
    "\<exists>err. fst (refresh_token cfg e j m pr t s) = Inl err"
proof -
  obtain r s' where r: "check_dpop e j m pr t p s = (r, s')" by fastforce
  have dec: "decode_token j m False t = Inr p \<or> decode_token j m False t = Inl Expired_Signature" "decode_token j m True t = Inr p"
    using assms(1) by (auto simp: decode_token_def)
  have "\<exists>err. fst (authenticated_user cfg e j m pr t s) = Inl err"
    using dec(1) assms(2) r by (auto simp: authenticated_user_def and_then_def enforce_dpop_def split: option.splits)
  then show "\<exists>err. fst (get_current_user cfg e j m pr (Some t) s) = Inl err"
    by (auto simp: get_current_user_def split: prod.splits sum.splits)
  show "fst (ws_authenticate cfg e j m pr k t s) = None"
    using dec(1) assms(2) r by (auto simp: ws_authenticate_def user_from_valid_payload_def split: option.splits)
  show "\<exists>err. fst (refresh_token cfg e j m pr t s) = Inl err"
    using dec assms(2) by (auto simp: refresh_token_def expired_token_response_def refresh_checks_def split: option.splits)
qed

lemma wrong_purpose:
  assumes "jwt_decode j t = Some p" "purpose p \<noteq> Some why"
  shows "decode_purpose_token j m why t = None"
  using assms by (auto simp: decode_purpose_token_def decode_token_def split: sum.splits if_splits)

text \<open>
  No token stands in for another kind: a token made for one purpose is refused as an access token by requests, web
  sockets and refreshes, and the decoders of the other purposes refuse it, as they all refuse access tokens.
\<close>

theorem token_kinds_separate:
  assumes "jose_ok j" "t = jwt_encode j (create_purpose_token m0 i why hours mail binding)"
    and "t' = jwt_encode j (create_capped_token cfg m0 user mail' key deadline)"
  shows "(\<exists>err. fst (get_current_user cfg e j m pr (Some t) s) = Inl err) \<and> fst (ws_authenticate cfg e j m pr k t s) = None \<and>
    (\<exists>err. fst (refresh_token cfg e j m pr t s) = Inl err) \<and>
    (why \<noteq> ''verify'' \<longrightarrow> decode_verification_token j m t = None) \<and> (why \<noteq> ''reset'' \<longrightarrow> decode_password_reset_token j m t = None) \<and>
    (why \<noteq> ''invite'' \<longrightarrow> decode_invitation_token j m t = None) \<and> (why \<noteq> ''workspace'' \<longrightarrow> (\<exists>b. decode_workspace_token j m t = Inl b)) \<and>
    decode_verification_token j m t' = None \<and> decode_password_reset_token j m t' = None \<and> decode_invitation_token j m t' = None \<and>
    (\<exists>b. decode_workspace_token j m t' = Inl b)"
proof -
  have dec: "jwt_decode j t = Some (create_purpose_token m0 i why hours mail binding)"
    "jwt_decode j t' = Some (create_capped_token cfg m0 user mail' key deadline)" using assms by (simp_all add: jose_ok_def)
  have none: "purpose (create_capped_token cfg m0 user mail' key deadline) = None"
    by (simp add: create_capped_token_def create_token_def Let_def)
  have ws: "\<exists>b. decode_workspace_token j m x = Inl b" if "jwt_decode j x = Some p" "purpose p \<noteq> Some ''workspace''" for x p
    using that by (auto simp: decode_workspace_token_def decode_token_def split: option.splits)
  show ?thesis
    using no_id_refused [OF dec(1) purpose_claims(1)] wrong_purpose [OF dec(1)] wrong_purpose [OF dec(2)] ws [OF dec(1)] ws [OF dec(2)] none
    by (simp add: purpose_claims decode_verification_token_def decode_password_reset_token_def decode_invitation_token_def)
qed

theorem token_kinds_separate_witness:
  "decode_verification_token plain_jose (plain_moment 0 ''b'') (create_workspace_token plain_jose (plain_moment 0 ''a'') 1 ''w'') = None"
  using token_kinds_separate [of plain_jose "create_workspace_token plain_jose (plain_moment 0 ''a'') 1 ''w''" "plain_moment 0 ''a''" "''w''"
      "''workspace''" 1 None None, where m = "plain_moment 0 ''b''"]
  by (simp add: create_workspace_token_def jose_ok_def plain_jose_def)

text \<open>
  A reset link works once: after a reset with it has succeeded, presenting it again is refused, whatever the password
  - provided the digest that the link is bound to tells the old hash from the new one.
\<close>

theorem reset_link_once:
  assumes "reset_password cfg j m c salt t password s = (Inr t', s')" "decode_password_reset_token j m t = Some (i, binding)"
    and "hash_password (crypto cfg) salt password = Some hashed" "reset_token_binding cfg (Some hashed) \<noteq> binding"
  shows "\<exists>err. reset_password cfg j m' c' salt' t password' s' = (Inl err, s')"
proof -
  obtain r where r: "get_user_by_id i s = Some r"
    and new: "mint cfg j m c r (store_password cfg m i hashed (Some False) s) = (Inr t', s')"
    using assms(1-3) by (auto simp: reset_password_def split: option.splits if_splits)
  from new have "users s' = users (store_password cfg m i hashed (Some False) s)" by (auto simp: mint_def split: prod.splits sum.splits)
  then obtain r' where r': "get_user_by_id i s' = Some r'" "password_hash (r_account r') = Some hashed"
    using stored_password(1) [of i cfg m hashed "Some False" s] r by (auto simp: get_user_by_id_def set_password_hash)
  have "decode_password_reset_token j m' t = None \<or> decode_password_reset_token j m' t = Some (i, binding)"
    using assms(2) by (auto simp: decode_password_reset_token_def decode_purpose_token_def decode_token_def split: sum.splits option.splits if_splits)
  with r' assms(4) show ?thesis by (auto simp: reset_password_def split: option.splits)
qed

text \<open>A verification link works once, too: it needs a row that is not verified.\<close>

lemma verification_link_once:
  assumes "verify_email cfg j m c t s = (Inr t', s')"
  shows "\<exists>err. fst (verify_email cfg j m' c' t s') = Inl err"
proof -
  obtain i mail s1 where v: "decode_verification_token j m t = Some (i, mail)" "verify_user i mail s = (True, s1)"
    using assms by (auto simp: verify_email_def split: option.splits prod.splits bool.splits)
  then have "users s' = users s1" using assms by (auto simp: verify_email_def mint_def split: option.splits prod.splits sum.splits if_splits)
  then have "\<not> list_ex (\<lambda>r. r_id r = i \<and> \<not> r_verified r \<and> r_email r = mail) (users s')"
    using v(2) by (auto simp: verify_user_def list_ex_iff Let_def)
  moreover have "decode_verification_token j m' t = None \<or> decode_verification_token j m' t = Some (i, mail)"
    using v(1) by (auto simp: decode_verification_token_def decode_purpose_token_def decode_token_def split: sum.splits option.splits if_splits)
  ultimately show ?thesis by (auto simp: verify_email_def verify_user_def Let_def)
qed

text \<open>A login code is redeemed at most once and only within its lifetime.\<close>

lemma login_code_once:
  assumes "redeem_login_code m code s = (Some v, s')"
  shows "fst (redeem_login_code m' code s') = None"
  using assms by (auto simp: redeem_login_code_def map_of_dict_delete split: option.splits if_splits)

text \<open>An account with a password, logged in as in the run above.\<close>

definition plain_hash :: "string \<Rightarrow> string" where
  "plain_hash pw = the (hash_password plain_hashing [] pw)"

definition plain_login_settings :: login_settings where
  "plain_login_settings = \<lparr>session_policy = plain_settings, pw_policy = plain_policy\<lparr>min_password_length := 1, password_history_count := 0\<rparr>,
     guess_policy = default_lockout, crypto = plain_hashing, dummy_verify_hash = [],
     sha256_hex = \<lambda>bs. map (\<lambda>b. char_of (unat b)) (rev bs)\<rparr>"

definition plain_user_row :: user_row where
  "plain_user_row = \<lparr>r_id = ''u'', r_email = ''m'', r_handle = ''h'', r_verified = True, r_disabled = False, r_admin = False,
     r_account = plain_account\<lparr>password_hash := Some (plain_hash ''a'')\<rparr>\<rparr>"

definition plain_login_state :: "payload login_state" where
  "plain_login_state = \<lparr>users = [plain_user_row], login_attempts = [], auth = db logged_in, pending_login_codes = []\<rparr>"

lemma plain_hashed: "hash_password plain_hashing [] ''a'' = Some (plain_hash ''a'')" "hash_password plain_hashing [] ''b'' = Some (plain_hash ''b'')"
  by (simp_all add: plain_hash_def hash_password_def Let_def encode_def utf8_char_def MAX_PASSWORD_BYTES_def)

lemma plain_hash_shape:
  "plain_hash ''a'' \<noteq> []" "verify_password plain_hashing ''a'' (plain_hash ''a'')"
  using hashed_password_verifies [OF plain_base64 plain_hashed(1), of "''a''"]
  by (simp_all add: plain_hash_def hash_password_def HASH_SCHEME_def Let_def encode_def utf8_char_def MAX_PASSWORD_BYTES_def)

lemma plain_change:
  obtains s' where "change_password plain_login_settings (plain_moment 900 ''b'') [] plain_user_row ''a'' ''b'' plain_login_state = (None, s')"
proof -
  have "validate_password (pw_policy plain_login_settings) ''b'' = None"
    by (simp add: validate_password_def validate_password_length_def validate_password_complexity_def plain_login_settings_def plain_policy_def
        encode_def utf8_char_def MAX_PASSWORD_BYTES_def PASSWORD_CLASSES_def map_filter_simps unmet_requirement_def required_def Let_def)
  moreover have "get_user_by_email ''m'' plain_login_state = Some plain_user_row" "get_user_by_id ''u'' plain_login_state = Some plain_user_row"
    by (simp_all add: get_user_by_email_def get_user_by_id_def plain_login_state_def plain_user_row_def)
  ultimately have "fst (change_password plain_login_settings (plain_moment 900 ''b'') [] plain_user_row ''a'' ''b'' plain_login_state) = None"
    using plain_hash_shape plain_hashed(2)
    by (simp add: change_password_def verify_password_confirmation_def plain_user_row_def has_password_def plain_account_def
        validate_password_min_age_def validate_password_changed_enough_def validate_password_not_reused_def plain_login_settings_def
        plain_policy_def AGENT_USER_ID_def Let_def)
  then show thesis using that by (metis prod.collapse)
qed

theorem password_change_ends_sessions_witness:
  "\<exists>s'. change_password plain_login_settings (plain_moment 900 ''b'') [] plain_user_row ''a'' ''b'' plain_login_state = (None, s') \<and>
     (\<forall>e m pr. \<exists>err. fst (get_current_user plain_settings e plain_jose m pr (Some (plain_claims 0 ''a'')) (auth s')) = Inl err)"
proof -
  obtain s' where s': "change_password plain_login_settings (plain_moment 900 ''b'') [] plain_user_row ''a'' ''b'' plain_login_state = (None, s')"
    by (rule plain_change)
  have "\<exists>err. fst (get_current_user plain_settings e plain_jose m pr (Some (plain_claims 0 ''a'')) (auth s')) = Inl err" for e m pr
    using password_change_ends_sessions [where cfg = plain_login_settings and w = logged_in and e = e and m' = m and pr = pr and r0 = plain_user_row
        and p = "plain_claims 0 ''a''" and t = "plain_claims 0 ''a''" and i = "''a''" and x = 1800, OF _ _ _ s' _ rtranclp.rtrancl_refl]
      plain_config logged_in_reachable [of e] plain_base64
    by (simp add: plain_login_settings_def plain_login_state_def plain_user_row_def get_user_by_id_def)
      (simp add: logged_in_def plain_defs)
  with s' show ?thesis by blast
qed

definition plain_reset_token :: payload where
  "plain_reset_token = create_password_reset_token plain_jose (plain_moment 0 ''a'') ''u'' (reset_token_binding plain_login_settings (Some (plain_hash ''a'')))"

definition plain_client :: client where
  "plain_client = \<lparr>client_ip = None, client_agent = None, web_client = False, client_jkt = None\<rparr>"

lemma plain_hash_text:
  "plain_hash ''a'' = ''pbkdf2_sha512$600000$$gb''" "plain_hash ''b'' = ''pbkdf2_sha512$600000$$gc''"
  by (simp_all add: plain_hash_def hash_password_def HASH_SCHEME_def PBKDF2_ITERATIONS_def plain_hashing_def hex_letter_def Let_def encode_def
      utf8_char_def MAX_PASSWORD_BYTES_def py_eval)

lemma plain_binding:
  "reset_token_binding plain_login_settings (Some (plain_hash ''a'')) = ''bg$$000006$215ah''"
  "reset_token_binding plain_login_settings (Some (plain_hash ''b'')) = ''cg$$000006$215ah''"
  by (simp_all add: plain_hash_text reset_token_binding_def plain_login_settings_def encode_def utf8_char_def py_eval)

lemma plain_reset_decoded:
  "decode_password_reset_token plain_jose (plain_moment 900 ''b'') plain_reset_token =
     Some (''u'', reset_token_binding plain_login_settings (Some (plain_hash ''a'')))"
  by (simp add: plain_reset_token_def create_password_reset_token_def create_purpose_token_def decode_password_reset_token_def
      decode_purpose_token_def decode_token_def plain_jose_def plain_moment_def reset_token_expire_hours_def two_claims_def plain_binding)

lemma plain_mint: "\<exists>t s'. mint plain_login_settings plain_jose (plain_moment 900 ''b'') plain_client r s = (Inr t, s')"
proof -
  have "\<lfloor>900 + min 24 (30 / 60) * (3600::real)\<rfloor> \<ge> 900" "\<lfloor>900 + min 24 (10 / 60) * (3600::real)\<rfloor> \<ge> 900" by simp_all
  then show ?thesis
    by (simp add: mint_def issue_token_def create_capped_token_def create_token_def idle_window_minutes_for_user_def
        effective_session_idle_minutes_def decode_token_def plain_login_settings_def plain_settings_def plain_jose_def plain_moment_def
        with_users_def Let_def split: prod.splits option.splits)
qed

lemma plain_reset:
  "\<exists>t s'. reset_password plain_login_settings plain_jose (plain_moment 900 ''b'') plain_client [] plain_reset_token ''b'' plain_login_state = (Inr t, s')"
proof -
  have "validate_password (pw_policy plain_login_settings) ''b'' = None"
    by (simp add: validate_password_def validate_password_length_def validate_password_complexity_def plain_login_settings_def plain_policy_def
        encode_def utf8_char_def MAX_PASSWORD_BYTES_def PASSWORD_CLASSES_def map_filter_simps unmet_requirement_def required_def Let_def)
  moreover have "get_user_by_id ''u'' plain_login_state = Some plain_user_row"
    by (simp add: get_user_by_id_def plain_login_state_def plain_user_row_def)
  moreover have "crypto plain_login_settings = plain_hashing" "password_history_count (pw_policy plain_login_settings) = 0"
    "password_min_age_hours (pw_policy plain_login_settings) = 0" by (simp_all add: plain_login_settings_def plain_policy_def)
  moreover have "\<not> r_disabled plain_user_row" "password_hash (r_account plain_user_row) = Some (plain_hash ''a'')"
    by (simp_all add: plain_user_row_def plain_account_def)
  ultimately show ?thesis
    using plain_reset_decoded plain_hashed(2) plain_mint
    by (simp add: reset_password_def AGENT_USER_ID_def validate_password_min_age_def validate_password_not_reused_def Let_def)
qed

theorem reset_link_once_witness:
  "\<exists>t s' err. reset_password plain_login_settings plain_jose (plain_moment 900 ''b'') plain_client [] plain_reset_token ''b'' plain_login_state =
     (Inr t, s') \<and>
     reset_password plain_login_settings plain_jose (plain_moment 900 ''b'') plain_client [] plain_reset_token ''c'' s' = (Inl err, s')"
proof -
  obtain t s' where r: "reset_password plain_login_settings plain_jose (plain_moment 900 ''b'') plain_client [] plain_reset_token ''b''
      plain_login_state = (Inr t, s')" using plain_reset by blast
  have "crypto plain_login_settings = plain_hashing" by (simp add: plain_login_settings_def)
  then show ?thesis using r reset_link_once [OF r plain_reset_decoded, of "plain_hash ''b''"] plain_hashed(2) by (fastforce simp: plain_binding)
qed


end
