(* ===== verification/Notifier.thy ===== *)
theory Notifier
  imports Prelude
begin

text \<open>
  Notifications to the administrators: \<open>klangk/notifier.py\<close>. An event passes the operator's list, needs a channel,
  and - for a condition that persists - waits out a window per throttle bucket. What the channels do with a
  notification, e-mail and web hook, is output. Settings are read at every call, so they are an argument of it.
\<close>

section \<open>The gate\<close>

datatype detail_value = Text string | Number real | Count int

type_synonym detail = "(string, detail_value) dict"

record notify_settings =
  admin_notification_emails :: "string list option"
  admin_notification_webhook_url :: "string option"
  admin_notify_events :: "string list option"

definition DEFAULT_NOTIFY_EVENTS :: "string list" where
  "DEFAULT_NOTIFY_EVENTS =
     [''user.create'', ''user.register'', ''user.update'', ''user.delete'', ''user.unlock'', ''user.disable'',
      ''user.enable'', ''user.password.change'', ''user.email.change'', ''user.handle.change'', ''group.member.add'',
      ''group.member.remove'', ''audit.failure'', ''resource.low'',
      ''resource.disk.warn'', ''resource.disk.critical'', ''resource.disk.recovered'',
      ''resource.memory.warn'', ''resource.memory.critical'', ''resource.memory.recovered'',
      ''resource.cpu.warn'', ''resource.cpu.critical'', ''resource.cpu.recovered'']"

definition THROTTLE_SECONDS :: "(string, int) dict" where
  "THROTTLE_SECONDS =
     [(''audit.failure'', 300), (''resource.low'', 300),
      (''resource.disk.warn'', 300), (''resource.disk.critical'', 300), (''resource.disk.recovered'', 300),
      (''resource.memory.warn'', 300), (''resource.memory.critical'', 300), (''resource.memory.recovered'', 300),
      (''resource.cpu.warn'', 300), (''resource.cpu.critical'', 300), (''resource.cpu.recovered'', 300)]"

definition throttle_window :: "string \<Rightarrow> int" where
  "throttle_window event = (case map_of THROTTLE_SECONDS event of None \<Rightarrow> 0 | Some w \<Rightarrow> w)"

text \<open>
  One call of \<open>notify_admins\<close>, and what it needs of the world: the monotonic clock, the printed wall clock and
  whether a delivery task can be created.
\<close>

record notice =
  event :: string
  actor_id :: "string option"
  actor_email :: "string option"
  target_type :: "string option"
  target_id :: "string option"
  detail_of :: "detail option"
  source_ip :: "string option"

record moment =
  monotonic :: real
  wall_clock :: string
  loop_running :: bool

text \<open>A delivery task: its payload, and when and in which bucket it was dispatched.\<close>

record delivery =
  dispatched_at :: real
  bucket :: string
  timestamp :: string
  payload :: notice

record notifier =
  last_notified :: "(string, real) dict"
  deliveries :: "delivery list"

definition init_notifier :: notifier where
  "init_notifier = \<lparr>last_notified = [], deliveries = []\<rparr>"

definition recipients :: "notify_settings \<Rightarrow> string list" where
  "recipients st = (case admin_notification_emails st of None \<Rightarrow> [] | Some es \<Rightarrow> es)"

definition webhook_url :: "notify_settings \<Rightarrow> string option" where
  "webhook_url st = admin_notification_webhook_url st"

definition notify_events :: "notify_settings \<Rightarrow> string list" where
  "notify_events st = (case admin_notify_events st of None \<Rightarrow> DEFAULT_NOTIFY_EVENTS | Some es \<Rightarrow> es)"

definition channels_configured :: "notify_settings \<Rightarrow> bool" where
  "channels_configured st \<longleftrightarrow> recipients st \<noteq> [] \<or> (webhook_url st \<noteq> None \<and> webhook_url st \<noteq> Some [])"

text \<open>Python's \<open>or\<close> on an optional string. The three keys below always carry text.\<close>

definition str_or :: "string option \<Rightarrow> string option \<Rightarrow> string option" where
  "str_or a b = (if a = None \<or> a = Some [] then b else a)"

definition detail_text :: "detail \<Rightarrow> string \<Rightarrow> string option" where
  "detail_text d k = (case map_of d k of Some (Text s) \<Rightarrow> Some s | _ \<Rightarrow> None)"

definition throttle_key :: "string \<Rightarrow> detail option \<Rightarrow> string" where
  "throttle_key ev det =
     (let d = (case det of None \<Rightarrow> [] | Some d \<Rightarrow> d)
      in case str_or (str_or (detail_text d ''table'') (detail_text d ''path'')) (detail_text d ''metric'') of
           None \<Rightarrow> ev
         | Some scope \<Rightarrow> ev @ '':'' @ scope)"

definition throttle_allows :: "real \<Rightarrow> string \<Rightarrow> string \<Rightarrow> notifier \<Rightarrow> bool \<times> notifier" where
  "throttle_allows now ev key n =
     (let window = throttle_window ev
      in if window \<le> 0 then (True, n)
         else case map_of (last_notified n) key of
                Some prev \<Rightarrow>
                  (if now - prev < of_int window then (False, n)
                   else (True, n\<lparr>last_notified := AList.update key now (last_notified n)\<rparr>))
              | None \<Rightarrow> (True, n\<lparr>last_notified := AList.update key now (last_notified n)\<rparr>))"

definition should_notify :: "notify_settings \<Rightarrow> real \<Rightarrow> string \<Rightarrow> string \<Rightarrow> notifier \<Rightarrow> bool \<times> notifier" where
  "should_notify st now ev key n =
     (if ev \<notin> set (notify_events st) then (False, n)
      else if \<not> channels_configured st then (False, n)
      else throttle_allows now ev key n)"

definition notify_admins :: "notify_settings \<Rightarrow> moment \<Rightarrow> notice \<Rightarrow> notifier \<Rightarrow> bool \<times> notifier" where
  "notify_admins st m x n =
     (let key = throttle_key (event x) (detail_of x)
      in case should_notify st (monotonic m) (event x) key n of
           (False, n) \<Rightarrow> (False, n)
         | (True, n) \<Rightarrow>
             (if loop_running m
              then (True, n\<lparr>deliveries := deliveries n @
                       [\<lparr>dispatched_at = monotonic m, bucket = key, timestamp = wall_clock m,
                         payload = x\<lparr>detail_of := Some (case detail_of x of None \<Rightarrow> [] | Some d \<Rightarrow> d)\<rparr>\<rparr>]\<rparr>)
              else (False, n)))"

text \<open>The guarded form every caller uses: nothing happens where no notifier is wired.\<close>

definition notify_event :: "notify_settings \<Rightarrow> moment \<Rightarrow> notice \<Rightarrow> notifier option \<Rightarrow> bool \<times> notifier option" where
  "notify_event st m x app =
     (case app of
        None \<Rightarrow> (False, None)
      | Some n \<Rightarrow> (case notify_admins st m x n of (sent, n) \<Rightarrow> (sent, Some n)))"

text \<open>A reload clears the throttle clocks; the delivery tasks go on.\<close>

definition reconfigure_notifier :: "notifier \<Rightarrow> notifier" where
  "reconfigure_notifier n = n\<lparr>last_notified := []\<rparr>"

section \<open>Delivery\<close>

text \<open>
  What a delivery task attempts, with the settings at the time it runs: a mail to every recipient and one post.
  An attempt that fails is logged and the others are made all the same.
\<close>

datatype sending = Email string string | Post string

definition deliver_via_email :: "notify_settings \<Rightarrow> notice \<Rightarrow> sending list" where
  "deliver_via_email st x = map (\<lambda>to. Email to (''[klangk] admin event: '' @ event x)) (recipients st)"

definition deliver_via_webhook :: "notify_settings \<Rightarrow> notice \<Rightarrow> sending list" where
  "deliver_via_webhook st x = (case webhook_url st of None \<Rightarrow> [] | Some url \<Rightarrow> [Post url])"

definition deliver :: "notify_settings \<Rightarrow> notice \<Rightarrow> sending list" where
  "deliver st x = deliver_via_email st x @ deliver_via_webhook st x"

section \<open>The throttle\<close>

fun run_notices :: "(notify_settings \<times> moment \<times> notice) list \<Rightarrow> notifier \<Rightarrow> notifier" where
  "run_notices [] n = n"
| "run_notices ((st, m, x) # calls) n = run_notices calls (snd (notify_admins st m x n))"

abbreviation event_of :: "delivery \<Rightarrow> string" where
  "event_of d \<equiv> event (payload d)"

definition spaced :: "delivery \<Rightarrow> delivery \<Rightarrow> bool" where
  "spaced d e \<longleftrightarrow> (bucket d = bucket e \<longrightarrow> throttle_window (event_of d) > 0 \<longrightarrow> throttle_window (event_of e) > 0 \<longrightarrow>
     dispatched_at d + of_int (throttle_window (event_of e)) \<le> dispatched_at e)"

text \<open>The clock of a bucket is not behind its deliveries.\<close>

definition clocked :: "notifier \<Rightarrow> bool" where
  "clocked n \<longleftrightarrow> (\<forall>d\<in>set (deliveries n). throttle_window (event_of d) > 0 \<longrightarrow>
     (\<exists>prev. map_of (last_notified n) (bucket d) = Some prev \<and> dispatched_at d \<le> prev))"

lemma throttle_allows_cases:
  assumes "throttle_allows now ev key n = (ok, n')"
  obtains (free) "ok" "n' = n" "throttle_window ev \<le> 0"
    | (closed) prev where "\<not> ok" "n' = n" "map_of (last_notified n) key = Some prev"
        "now - prev < of_int (throttle_window ev)" "throttle_window ev > 0"
    | (passed) "ok" "n' = n\<lparr>last_notified := AList.update key now (last_notified n)\<rparr>" "throttle_window ev > 0"
        "\<And>prev. map_of (last_notified n) key = Some prev \<Longrightarrow> prev + of_int (throttle_window ev) \<le> now"
  using assms by (auto simp: throttle_allows_def Let_def split: if_splits option.splits)


lemma notify_admins_cases:
  assumes "notify_admins st m x n = (sent, n')"
  obtains (quiet) "\<not> sent" "n' = n"
    | (lost) k where "\<not> sent" "n' = k" "\<not> loop_running m"
        "throttle_allows (monotonic m) (event x) (throttle_key (event x) (detail_of x)) n = (True, k)"
    | (sent) k d where "sent" "n' = k\<lparr>deliveries := deliveries k @ [d]\<rparr>" "loop_running m"
        "throttle_allows (monotonic m) (event x) (throttle_key (event x) (detail_of x)) n = (True, k)"
        "dispatched_at d = monotonic m" "bucket d = throttle_key (event x) (detail_of x)" "event_of d = event x"
proof -
  let ?k = "throttle_key (event x) (detail_of x)"
  obtain ok k where t: "should_notify st (monotonic m) (event x) ?k n = (ok, k)" by fastforce
  have quiet: "k = n" if "\<not> ok"
    using t that by (auto simp: should_notify_def elim!: throttle_allows_cases split: if_splits)
  have allows: "throttle_allows (monotonic m) (event x) ?k n = (True, k)" if ok
    using t that by (auto simp: should_notify_def split: if_splits)
  show thesis
  proof (cases ok)
    case False
    then show thesis using assms t quiet that(1) by (simp add: notify_admins_def Let_def)
  next
    case True
    note allows = allows [OF True]
    show thesis
    proof (cases "loop_running m")
      case True
      then show thesis using assms t \<open>ok\<close> that(3) [OF _ _ True allows] by (auto simp: notify_admins_def Let_def)
    next
      case False
      then show thesis using assms t \<open>ok\<close> that(2) [OF _ _ False allows] by (auto simp: notify_admins_def Let_def)
    qed
  qed
qed

lemma clocked_update:
  assumes "clocked n" "\<And>prev. map_of (last_notified n) key = Some prev \<Longrightarrow> prev \<le> now"
  shows "clocked (n\<lparr>last_notified := AList.update key now (last_notified n)\<rparr>)"
  using assms by (fastforce simp: clocked_def map_of_dict_update)

lemma notify_admins_spaced:
  assumes "clocked n" "sorted_wrt spaced (deliveries n)"
  shows "clocked (snd (notify_admins st m x n)) \<and> sorted_wrt spaced (deliveries (snd (notify_admins st m x n)))"
proof -
  obtain sent n' where r: "notify_admins st m x n = (sent, n')" by fastforce
  let ?w = "throttle_window (event x)" and ?k = "throttle_key (event x) (detail_of x)"
  have upd: "clocked k \<and> deliveries k = deliveries n"
    if "throttle_allows (monotonic m) (event x) ?k n = (True, k)" for k
    using that
  proof (cases rule: throttle_allows_cases)
    case passed
    have "clocked k" unfolding passed(2)
      by (rule clocked_update [OF assms(1)]) (use passed(3) passed(4) in fastforce)
    then show ?thesis by (simp add: passed(2))
  qed (use assms(1) in simp_all)
  from r show ?thesis
  proof (cases rule: notify_admins_cases)
    case quiet
    then show ?thesis using assms r by simp
  next
    case (lost k)
    then show ?thesis using upd assms(2) r by auto
  next
    case (sent k d)
    have "spaced e d" if e: "e \<in> set (deliveries n)" for e
    proof (unfold spaced_def, intro impI)
      assume same: "bucket e = bucket d" and thr: "throttle_window (event_of e) > 0" "throttle_window (event_of d) > 0"
      then obtain prev where prev: "map_of (last_notified n) ?k = Some prev" "dispatched_at e \<le> prev"
        using assms(1) e sent(6) unfolding clocked_def by metis
      from sent(4) show "dispatched_at e + of_int (throttle_window (event_of d)) \<le> dispatched_at d"
        by (cases rule: throttle_allows_cases) (use thr prev sent(5,7) in fastforce)+
    qed
    moreover have "throttle_window (event_of d) > 0 \<longrightarrow>
        (\<exists>prev. map_of (last_notified k) (bucket d) = Some prev \<and> dispatched_at d \<le> prev)"
      using sent(4) by (cases rule: throttle_allows_cases) (use sent(5-7) in \<open>auto simp: map_of_dict_update\<close>)
    ultimately show ?thesis
      using upd [OF sent(4)] assms(2) r sent(2) by (auto simp: clocked_def sorted_wrt_append)
  qed
qed

lemma run_notices_spaced:
  "clocked n \<Longrightarrow> sorted_wrt spaced (deliveries n) \<Longrightarrow>
   clocked (run_notices calls n) \<and> sorted_wrt spaced (deliveries (run_notices calls n))"
  by (induction calls n rule: run_notices.induct) (simp_all add: notify_admins_spaced)


end
