(* ===== verification/Watchdog.thy ===== *)
theory Watchdog
  imports Notifier Eviction
begin

text \<open>
  Detection of exhausted resources: \<open>klangk/resource_watchdog.py\<close>. Each poll measures the monitored file systems,
  the memory and the CPU pressure, classifies every reading against two thresholds with a hysteresis band, and
  notifies on a change of state - again while it persists, and again when the throttle of \<open>Notifier\<close> swallowed it.
  The rows are read by the health route. File systems, \<open>/proc\<close>, podman and the clocks are arguments; log
  lines are output.
\<close>

section \<open>Measuring\<close>

text \<open>What \<open>float\<close> makes of a text: \<open>None\<close> where it raises \<open>ValueError\<close>.\<close>

datatype py_float = Finite real | Nonfinite

definition digit_group :: "string \<Rightarrow> string option" where
  "digit_group s =
     (if s = [] then Some []
      else if list_all (\<lambda>p. p \<noteq> [] \<and> list_all ascii_digit p) (split_on CHR ''_'' s) then Some (concat (split_on CHR ''_'' s))
      else None)"

definition split_sign :: "string \<Rightarrow> bool \<times> string" where
  "split_sign s =
     (case s of c # t \<Rightarrow> (if c = CHR ''-'' then (True, t) else if c = CHR ''+'' then (False, t) else (False, s))
      | [] \<Rightarrow> (False, []))"

definition decimal_value :: "bool \<Rightarrow> string \<Rightarrow> string \<Rightarrow> int \<Rightarrow> py_float" where
  "decimal_value neg i f e =
     (let k = e - int (length f);
          v = real (int_of_digits (i @ f)) * (if k \<ge> 0 then 10 ^ nat k else 1 / 10 ^ nat (- k))
      in if v \<ge> 2 ^ 1024 - 2 ^ 970 then Nonfinite else Finite (if neg then - v else v))"

definition float_mantissa :: "string \<Rightarrow> (string \<times> string) option" where
  "float_mantissa m =
     (case map digit_group (split_on CHR ''.'' m) of
        [Some i] \<Rightarrow> (if i = [] then None else Some (i, []))
      | [Some i, Some f] \<Rightarrow> (if i = [] \<and> f = [] then None else Some (i, f))
      | _ \<Rightarrow> None)"

definition float_exponent :: "string \<Rightarrow> int option" where
  "float_exponent s =
     (case split_sign s of (neg, t) \<Rightarrow>
        (case digit_group t of
           None \<Rightarrow> None
         | Some ds \<Rightarrow> (if ds = [] then None else Some (if neg then - int (int_of_digits ds) else int (int_of_digits ds)))))"

definition float_of :: "string \<Rightarrow> py_float option" where
  "float_of s =
     (case split_sign (lower (strip s)) of (neg, t) \<Rightarrow>
        (if t \<in> {''inf'', ''infinity'', ''nan''} then Some Nonfinite
         else case split_on CHR ''e'' t of
                [m] \<Rightarrow> map_option (\<lambda>(i, f). decimal_value neg i f 0) (float_mantissa m)
              | [m, x] \<Rightarrow>
                  (case (float_mantissa m, float_exponent x) of
                     (Some (i, f), Some e) \<Rightarrow> Some (decimal_value neg i f e)
                   | _ \<Rightarrow> None)
              | _ \<Rightarrow> None))"

fun psi_tokens :: "string list \<Rightarrow> string \<Rightarrow> real option" where
  "psi_tokens [] name = None"
| "psi_tokens (token # tokens) name =
     (if startswith token (name @ ''='')
      then (case float_of (drop (Suc (length (takeWhile (\<lambda>c. c \<noteq> CHR ''='') token))) token) of
              Some (Finite v) \<Rightarrow> Some v
            | _ \<Rightarrow> None)
      else psi_tokens tokens name)"

definition psi_field :: "string \<Rightarrow> string \<Rightarrow> real option" where
  "psi_field line name = psi_tokens (split_ws line) name"

fun parse_psi_lines :: "string list \<Rightarrow> measure_error + real" where
  "parse_psi_lines [] = Inl ValueError"
| "parse_psi_lines (line # lines) =
     (if startswith line ''some ''
      then (case psi_field line ''avg60'' of Some v \<Rightarrow> Inr v | None \<Rightarrow> parse_psi_lines lines)
      else parse_psi_lines lines)"

definition parse_cpu_psi :: "string \<Rightarrow> measure_error + real" where
  "parse_cpu_psi text = parse_psi_lines (splitlines text)"

text \<open>\<open>os.stat\<close> and \<open>os.statvfs\<close> of a path; \<open>None\<close> where one raises \<open>OSError\<close>.\<close>

record vfs =
  st_dev :: int
  f_blocks :: int
  f_frsize :: int
  f_bavail :: int

type_synonym mounts = "string \<Rightarrow> vfs option"

definition usage_percent :: "vfs \<Rightarrow> measure_error + real" where
  "usage_percent v =
     (let total = f_blocks v * f_frsize v
      in if total \<le> 0 then Inl ValueError
         else (let available = f_bavail v * f_frsize v
               in Inr (real_of_int (total - available) / real_of_int total * 100)))"

type_synonym fs_entry = "int \<times> string \<times> real"

fun dedup_loop :: "fs_entry list \<Rightarrow> (int, fs_entry) dict \<Rightarrow> (int, fs_entry) dict" where
  "dedup_loop [] seen = seen"
| "dedup_loop (entry # entries) seen =
     dedup_loop entries (if map_of seen (fst entry) = None then AList.update (fst entry) entry seen else seen)"

definition dedup_filesystems :: "fs_entry list \<Rightarrow> fs_entry list" where
  "dedup_filesystems entries = map snd (dedup_loop entries [])"

section \<open>Threshold states\<close>

datatype level = OK | WARN | CRITICAL

definition classify_below_critical :: "real \<Rightarrow> level \<Rightarrow> real \<Rightarrow> real \<Rightarrow> level" where
  "classify_below_critical usage state warn low =
     (if usage \<ge> warn then WARN else if usage \<le> low then OK else state)"

definition classify :: "real \<Rightarrow> level \<Rightarrow> real \<Rightarrow> real \<Rightarrow> real \<Rightarrow> real \<Rightarrow> level" where
  "classify usage state warn critical low critical_floor =
     (if usage \<ge> critical then CRITICAL
      else if state = CRITICAL \<and> usage > critical_floor then CRITICAL
      else classify_below_critical usage state warn low)"

record threshold_events =
  warn_event :: string
  critical_event :: string
  recovered_event :: string

definition by_state :: "threshold_events \<Rightarrow> level \<Rightarrow> string" where
  "by_state ev state = (case state of CRITICAL \<Rightarrow> critical_event ev | WARN \<Rightarrow> warn_event ev | OK \<Rightarrow> recovered_event ev)"

definition DISK_EVENTS :: threshold_events where
  "DISK_EVENTS = \<lparr>warn_event = ''resource.disk.warn'', critical_event = ''resource.disk.critical'',
     recovered_event = ''resource.disk.recovered''\<rparr>"

definition MEMORY_EVENTS :: threshold_events where
  "MEMORY_EVENTS = \<lparr>warn_event = ''resource.memory.warn'', critical_event = ''resource.memory.critical'',
     recovered_event = ''resource.memory.recovered''\<rparr>"

definition CPU_EVENTS :: threshold_events where
  "CPU_EVENTS = \<lparr>warn_event = ''resource.cpu.warn'', critical_event = ''resource.cpu.critical'',
     recovered_event = ''resource.cpu.recovered''\<rparr>"

definition RECOVERY_GAP_PERCENT :: real where "RECOVERY_GAP_PERCENT = 5"

definition REFRESH_SECONDS :: real where
  "REFRESH_SECONDS = of_int (Max (set (map throttle_window
     [''resource.disk.warn'', ''resource.disk.critical'', ''resource.memory.warn'', ''resource.memory.critical'',
      ''resource.cpu.warn'', ''resource.cpu.critical''])))"

definition GRAPH_ROOT_RETRY_SECONDS :: real where "GRAPH_ROOT_RETRY_SECONDS = 300"

section \<open>The watchdog\<close>

text \<open>The key of a metric: a device number, or the name of a host metric.\<close>

datatype metric = Device int | Host string

definition MEMORY_KEY :: metric where "MEMORY_KEY = Host ''memory''"

definition CPU_KEY :: metric where "CPU_KEY = Host ''cpu-psi''"

record watch_settings =
  notify :: notify_settings
  resource_watchdog_enabled :: bool
  resource_watchdog_poll_interval :: real
  disk_watchdog_warn_percent :: real
  disk_watchdog_critical_percent :: real
  memory_watchdog_enabled :: bool
  memory_watchdog_warn_percent :: real
  memory_watchdog_critical_percent :: real
  cpu_watchdog_enabled :: bool
  cpu_watchdog_warn_percent :: real
  cpu_watchdog_critical_percent :: real
  data_dir :: string
  state_dir :: string
  disk_watchdog_paths :: "string list option"

type_synonym thresholds = "(real \<times> real \<times> string set) \<times> (real \<times> real) \<times> (real \<times> real)"

definition extra_paths :: "watch_settings \<Rightarrow> string list" where
  "extra_paths st = (case disk_watchdog_paths st of None \<Rightarrow> [] | Some ps \<Rightarrow> ps)"

definition thresholds_of :: "watch_settings \<Rightarrow> thresholds" where
  "thresholds_of st =
     ((disk_watchdog_warn_percent st, disk_watchdog_critical_percent st, set (data_dir st # state_dir st # extra_paths st)),
      (memory_watchdog_warn_percent st, memory_watchdog_critical_percent st),
      (cpu_watchdog_warn_percent st, cpu_watchdog_critical_percent st))"

definition watchdog_thresholds_ok :: "watch_settings \<Rightarrow> bool" where
  "watchdog_thresholds_ok st \<longleftrightarrow>
     list_all (\<lambda>(warn, critical). RECOVERY_GAP_PERCENT \<le> warn \<and> warn \<le> 100 \<and> warn \<le> critical \<and> critical \<le> 100)
       [(disk_watchdog_warn_percent st, disk_watchdog_critical_percent st),
        (memory_watchdog_warn_percent st, memory_watchdog_critical_percent st),
        (cpu_watchdog_warn_percent st, cpu_watchdog_critical_percent st)]"

definition watch_poll_interval :: "watch_settings \<Rightarrow> real" where
  "watch_poll_interval st = max (resource_watchdog_poll_interval st) MIN_POLL_INTERVAL_SECONDS"

record watchdog =
  states :: "(metric, level) dict"
  emitted_at :: "(metric, real) dict"
  pending :: "(metric, level) dict"
  last_usage :: "(metric, real) dict"
  disk_paths :: "(metric, string) dict"
  last_poll :: "real option"
  audit_counts :: "(string, int) dict"
  audit_alerted :: "(string, bool) dict"
  unmeasurable :: "string set"
  graph_root :: "string option"
  graph_root_retry_at :: real
  thresholds_seen :: thresholds

definition init_watchdog :: "watch_settings \<Rightarrow> watchdog" where
  "init_watchdog st =
     \<lparr>states = [], emitted_at = [], pending = [], last_usage = [], disk_paths = [], last_poll = None,
      audit_counts = [], audit_alerted = [], unmeasurable = {}, graph_root = None, graph_root_retry_at = 0,
      thresholds_seen = thresholds_of st\<rparr>"

definition forget :: "metric \<Rightarrow> watchdog \<Rightarrow> watchdog" where
  "forget key w =
     w\<lparr>states := AList.delete key (states w), emitted_at := AList.delete key (emitted_at w),
       pending := AList.delete key (pending w), last_usage := AList.delete key (last_usage w),
       disk_paths := AList.delete key (disk_paths w)\<rparr>"

fun is_device :: "metric \<Rightarrow> bool" where
  "is_device (Device _) = True"
| "is_device (Host _) = False"

definition forget_disk_states :: "watchdog \<Rightarrow> watchdog" where
  "forget_disk_states w = fold forget (filter is_device (map fst (states w))) w"

definition reset_families_with_changed_thresholds :: "thresholds \<Rightarrow> thresholds \<Rightarrow> watchdog \<Rightarrow> watchdog" where
  "reset_families_with_changed_thresholds old new w =
     (let w = (if fst old \<noteq> fst new then forget_disk_states w else w);
          w = (if fst (snd old) \<noteq> fst (snd new) then forget MEMORY_KEY w else w)
      in if snd (snd old) \<noteq> snd (snd new) then forget CPU_KEY w else w)"

definition reconfigure :: "watch_settings \<Rightarrow> watchdog \<Rightarrow> watchdog" where
  "reconfigure st w =
     reset_families_with_changed_thresholds (thresholds_seen w) (thresholds_of st)
       (w\<lparr>thresholds_seen := thresholds_of st, graph_root := None, graph_root_retry_at := 0, unmeasurable := {}\<rparr>)"

definition reset_states :: "watchdog \<Rightarrow> watchdog" where
  "reset_states w =
     w\<lparr>states := [], emitted_at := [], pending := [], last_usage := [], disk_paths := [], audit_alerted := []\<rparr>"
section \<open>One evaluation\<close>

text \<open>
  The clock readings of an evaluation in the order the code takes them: for \<open>refresh_due\<close>, for the stamp before a
  dispatch, inside the notifier, and for the stamp after a retry.
\<close>

record readings =
  at_due :: real
  at_stamp :: real
  at_send :: moment
  at_done :: real

type_synonym emitter = "level \<Rightarrow> real \<Rightarrow> bool \<Rightarrow> notifier option \<Rightarrow> bool \<times> notifier option"

definition state_of :: "watchdog \<Rightarrow> metric \<Rightarrow> level" where
  "state_of w key = (case map_of (states w) key of None \<Rightarrow> OK | Some l \<Rightarrow> l)"

definition refresh_due :: "real \<Rightarrow> metric \<Rightarrow> level \<Rightarrow> watchdog \<Rightarrow> bool" where
  "refresh_due now key state w \<longleftrightarrow>
     (if state = OK then False
      else (let prev = (case map_of (emitted_at w) key of None \<Rightarrow> 0 | Some t \<Rightarrow> t) in now - prev \<ge> REFRESH_SECONDS))"

definition event_dispatchable :: "notify_settings \<Rightarrow> string \<Rightarrow> notifier option \<Rightarrow> bool" where
  "event_dispatchable st ev app \<longleftrightarrow> app \<noteq> None \<and> ev \<in> set (notify_events st) \<and> channels_configured st"

definition record_dispatch ::
  "notify_settings \<Rightarrow> metric \<Rightarrow> level \<Rightarrow> bool \<Rightarrow> threshold_events \<Rightarrow> notifier option \<Rightarrow> watchdog \<Rightarrow> watchdog" where
  "record_dispatch st key state dispatched ev app w =
     (if dispatched \<or> \<not> event_dispatchable st (by_state ev state) app
      then w\<lparr>pending := AList.delete key (pending w)\<rparr>
      else w\<lparr>pending := AList.update key state (pending w)\<rparr>)"

definition retry_pending ::
  "notify_settings \<Rightarrow> real \<Rightarrow> metric \<Rightarrow> real \<Rightarrow> threshold_events \<Rightarrow> emitter \<Rightarrow> watchdog \<times> notifier option \<Rightarrow>
   watchdog \<times> notifier option" where
  "retry_pending st now key usage ev emit wa =
     (case wa of (w, app) \<Rightarrow>
        (case map_of (pending w) key of
           None \<Rightarrow> (w, app)
         | Some p \<Rightarrow>
             (case emit p usage True app of (dispatched, app) \<Rightarrow>
                (let w = (if dispatched \<or> \<not> event_dispatchable st (by_state ev p) app
                          then w\<lparr>pending := AList.delete key (pending w)\<rparr> else w)
                 in (if dispatched then w\<lparr>emitted_at := AList.update key now (emitted_at w)\<rparr> else w, app)))))"

definition step_threshold ::
  "notify_settings \<Rightarrow> readings \<Rightarrow> metric \<Rightarrow> real \<Rightarrow> real \<Rightarrow> real \<Rightarrow> threshold_events \<Rightarrow> emitter \<Rightarrow>
   watchdog \<times> notifier option \<Rightarrow> watchdog \<times> notifier option" where
  "step_threshold st r key usage warn critical ev emit wa =
     (case wa of (w, app) \<Rightarrow>
        (let state = state_of w key;
             new = classify usage state warn critical (warn - RECOVERY_GAP_PERCENT) (critical - RECOVERY_GAP_PERCENT);
             w = w\<lparr>states := AList.update key new (states w), last_usage := AList.update key usage (last_usage w)\<rparr>
         in if new \<noteq> state \<or> refresh_due (at_due r) key new w
            then (let w = w\<lparr>emitted_at := AList.update key (at_stamp r) (emitted_at w)\<rparr>
                  in case emit new usage False app of (dispatched, app) \<Rightarrow>
                       (record_dispatch st key new dispatched ev app w, app))
            else retry_pending st (at_done r) key usage ev emit (w, app)))"

text \<open>\<open>round(x, 1)\<close>: the nearest tenth, the even one in the middle.\<close>

definition round_half_even :: "real \<Rightarrow> int" where
  "round_half_even x =
     (let f = \<lfloor>x\<rfloor>; d = x - of_int f
      in if d < 1 / 2 then f else if d > 1 / 2 then f + 1 else if even f then f else f + 1)"

definition round1 :: "real \<Rightarrow> real" where
  "round1 x = of_int (round_half_even (x * 10)) / 10"

definition level_text :: "level \<Rightarrow> string" where
  "level_text l = (case l of OK \<Rightarrow> ''ok'' | WARN \<Rightarrow> ''warn'' | CRITICAL \<Rightarrow> ''critical'')"

definition resource_notice :: "string \<Rightarrow> detail \<Rightarrow> notice" where
  "resource_notice ev d =
     \<lparr>event = ev, actor_id = None, actor_email = None, target_type = None, target_id = None, detail_of = Some d,
      source_ip = None\<rparr>"

definition emit_disk_event :: "watch_settings \<Rightarrow> moment \<Rightarrow> string \<Rightarrow> emitter" where
  "emit_disk_event st m path state usage retry app =
     notify_event (notify st) m
       (resource_notice (by_state DISK_EVENTS state)
          [(''path'', Text path), (''usage_percent'', Number (round1 usage)), (''state'', Text (level_text state)),
           (''warn_percent'', Number (disk_watchdog_warn_percent st)),
           (''critical_percent'', Number (disk_watchdog_critical_percent st))]) app"

definition emit_memory :: "watch_settings \<Rightarrow> moment \<Rightarrow> emitter" where
  "emit_memory st m state usage retry app =
     notify_event (notify st) m
       (resource_notice (by_state MEMORY_EVENTS state)
          [(''metric'', Text ''memory''), (''usage_percent'', Number (round1 usage)), (''state'', Text (level_text state)),
           (''warn_percent'', Number (memory_watchdog_warn_percent st)),
           (''critical_percent'', Number (memory_watchdog_critical_percent st))]) app"

definition emit_cpu :: "watch_settings \<Rightarrow> moment \<Rightarrow> emitter" where
  "emit_cpu st m state usage retry app =
     notify_event (notify st) m
       (resource_notice (by_state CPU_EVENTS state)
          [(''metric'', Text ''cpu''), (''psi_avg60_percent'', Number (round1 usage)), (''state'', Text (level_text state)),
           (''warn_percent'', Number (cpu_watchdog_warn_percent st)),
           (''critical_percent'', Number (cpu_watchdog_critical_percent st))]) app"

section \<open>A poll\<close>

definition note_unmeasurable :: "string \<Rightarrow> watchdog \<Rightarrow> watchdog" where
  "note_unmeasurable what w = w\<lparr>unmeasurable := insert (''unmeasurable:'' @ what) (unmeasurable w)\<rparr>"

definition rearm_unmeasurable :: "string \<Rightarrow> watchdog \<Rightarrow> watchdog" where
  "rearm_unmeasurable what w = w\<lparr>unmeasurable := unmeasurable w - {''unmeasurable:'' @ what}\<rparr>"

definition measure_path :: "mounts \<Rightarrow> string \<Rightarrow> watchdog \<Rightarrow> fs_entry option \<times> watchdog" where
  "measure_path mts path w =
     (case mts path of
        None \<Rightarrow> (None, note_unmeasurable (''disk usage of '' @ path) w)
      | Some v \<Rightarrow>
          (case usage_percent v of
             Inl e \<Rightarrow> (None, note_unmeasurable (''disk usage of '' @ path) w)
           | Inr usage \<Rightarrow> (Some (st_dev v, path, usage), rearm_unmeasurable (''disk usage of '' @ path) w)))"

fun measure_paths :: "mounts \<Rightarrow> string list \<Rightarrow> watchdog \<Rightarrow> fs_entry list \<times> watchdog" where
  "measure_paths mts [] w = ([], w)"
| "measure_paths mts (path # paths) w =
     (case measure_path mts path w of (e, w) \<Rightarrow>
        (case measure_paths mts paths w of (es, w) \<Rightarrow> (case e of None \<Rightarrow> es | Some e \<Rightarrow> e # es, w)))"

text \<open>
  The podman query: \<open>None\<close> where no podman is wired, \<open>Some None\<close> where the call raises, else its exit code and output.
  The clock is read before the query and, for the next attempt, after it.
\<close>

type_synonym podman_info = "(int \<times> string) option option"

definition query_graph_root :: "(int \<times> string) option \<Rightarrow> string option" where
  "query_graph_root run =
     (case run of
        None \<Rightarrow> None
      | Some (rc, out) \<Rightarrow> (if rc \<noteq> 0 then None else if strip out = [] then None else Some (strip out)))"

definition defer_graph_root_retry :: "real \<Rightarrow> watchdog \<Rightarrow> watchdog" where
  "defer_graph_root_retry now w = w\<lparr>graph_root_retry_at := now + GRAPH_ROOT_RETRY_SECONDS\<rparr>"

definition resolve_graph_root :: "real \<Rightarrow> real \<Rightarrow> podman_info \<Rightarrow> watchdog \<Rightarrow> string option \<times> watchdog" where
  "resolve_graph_root now later podman w =
     (case graph_root w of
        Some (c # dir) \<Rightarrow> (Some (c # dir), w)
      | _ \<Rightarrow>
          (if now < graph_root_retry_at w then (None, w)
           else case podman of
                  None \<Rightarrow> (None, defer_graph_root_retry later w)
                | Some run \<Rightarrow>
                    (case query_graph_root run of
                       None \<Rightarrow> (None, defer_graph_root_retry later w)
                     | Some dir \<Rightarrow> (Some dir, w\<lparr>graph_root := Some dir\<rparr>))))"

definition monitored_filesystems ::
  "watch_settings \<Rightarrow> mounts \<Rightarrow> mounts \<Rightarrow> real \<Rightarrow> real \<Rightarrow> podman_info \<Rightarrow> watchdog \<Rightarrow> fs_entry list \<times> watchdog" where
  "monitored_filesystems st mts later_mts now later podman w =
     (case measure_paths mts (data_dir st # state_dir st # extra_paths st) w of (entries, w) \<Rightarrow>
        (case resolve_graph_root now later podman w of
           (None, w) \<Rightarrow> (dedup_filesystems entries, w)
         | (Some dir, w) \<Rightarrow>
             (case measure_path later_mts dir w of
                (None, w) \<Rightarrow> (dedup_filesystems entries, w)
              | (Some entry, w) \<Rightarrow> (dedup_filesystems (entries @ [entry]), w))))"

definition prune_disk_rows :: "int list \<Rightarrow> watchdog \<Rightarrow> watchdog" where
  "prune_disk_rows devs w =
     (let stale = filter (\<lambda>key. is_device key \<and> key \<notin> Device ` set devs) (map fst (last_usage w))
      in w\<lparr>last_usage := fold AList.delete stale (last_usage w), disk_paths := fold AList.delete stale (disk_paths w)\<rparr>)"

definition step_filesystem ::
  "watch_settings \<Rightarrow> readings \<Rightarrow> int \<Rightarrow> string \<Rightarrow> real \<Rightarrow> watchdog \<times> notifier option \<Rightarrow> watchdog \<times> notifier option" where
  "step_filesystem st r device path usage wa =
     (case wa of (w, app) \<Rightarrow>
        step_threshold (notify st) r (Device device) usage (disk_watchdog_warn_percent st)
          (disk_watchdog_critical_percent st) DISK_EVENTS (emit_disk_event st (at_send r) path)
          (w\<lparr>disk_paths := AList.update (Device device) path (disk_paths w)\<rparr>, app))"

text \<open>The rest of \<open>check_disk\<close>, after its await: the entries measured, with the clock readings of each evaluation.\<close>

definition check_disk ::
  "watch_settings \<Rightarrow> (int \<Rightarrow> readings) \<Rightarrow> fs_entry list \<Rightarrow> watchdog \<times> notifier option \<Rightarrow> watchdog \<times> notifier option" where
  "check_disk st clock entries wa =
     (case wa of (w, app) \<Rightarrow>
        fold (\<lambda>(device, path, usage). step_filesystem st (clock device) device path usage) entries
          (prune_disk_rows (map fst entries) w, app))"

text \<open>
  The host metrics. On macOS the files are those of the podman machine; \<open>machine_proc\<close> is \<open>None\<close> where reading
  them raises.
\<close>

definition measure_memory_fraction :: "host \<Rightarrow> files \<Rightarrow> measure_error + real" where
  "measure_memory_fraction h machine_proc =
     (if \<not> darwin h then measure_available_fraction h
      else case machine_proc ''meminfo'' of
             None \<Rightarrow> Inl OSError
           | Some text \<Rightarrow> (case parse_meminfo text of Inl e \<Rightarrow> Inl e | Inr meminfo \<Rightarrow> available_fraction meminfo))"

definition check_memory ::
  "watch_settings \<Rightarrow> readings \<Rightarrow> measure_error + real \<Rightarrow> watchdog \<times> notifier option \<Rightarrow> watchdog \<times> notifier option" where
  "check_memory st r fr wa =
     (case wa of (w, app) \<Rightarrow>
        (if \<not> memory_watchdog_enabled st then (forget MEMORY_KEY w, app)
         else case fr of
                Inl e \<Rightarrow> (note_unmeasurable ''host memory'' w, app)
              | Inr fraction \<Rightarrow>
                  step_threshold (notify st) r MEMORY_KEY ((1 - fraction) * 100) (memory_watchdog_warn_percent st)
                    (memory_watchdog_critical_percent st) MEMORY_EVENTS (emit_memory st (at_send r))
                    (rearm_unmeasurable ''host memory'' w, app)))"

definition read_cpu_psi :: "host \<Rightarrow> files \<Rightarrow> measure_error + string" where
  "read_cpu_psi h machine_proc =
     (case (if darwin h then machine_proc ''pressure/cpu'' else host_files h ''/proc/pressure/cpu'') of
        None \<Rightarrow> Inl OSError
      | Some text \<Rightarrow> Inr text)"

definition check_cpu ::
  "watch_settings \<Rightarrow> readings \<Rightarrow> measure_error + string \<Rightarrow> watchdog \<times> notifier option \<Rightarrow> watchdog \<times> notifier option" where
  "check_cpu st r text wa =
     (case wa of (w, app) \<Rightarrow>
        (if \<not> cpu_watchdog_enabled st then (forget CPU_KEY w, app)
         else case (case text of Inl e \<Rightarrow> Inl e | Inr t \<Rightarrow> parse_cpu_psi t) of
                Inl e \<Rightarrow> (note_unmeasurable ''CPU pressure (PSI)'' w, app)
              | Inr psi \<Rightarrow>
                  step_threshold (notify st) r CPU_KEY psi (cpu_watchdog_warn_percent st)
                    (cpu_watchdog_critical_percent st) CPU_EVENTS (emit_cpu st (at_send r))
                    (rearm_unmeasurable ''CPU pressure (PSI)'' w, app)))"

definition step_audit ::
  "watch_settings \<Rightarrow> moment \<Rightarrow> string \<Rightarrow> int \<Rightarrow> watchdog \<times> notifier option \<Rightarrow> watchdog \<times> notifier option" where
  "step_audit st m table count wa =
     (case wa of (w, app) \<Rightarrow>
        (let previous = map_of (audit_counts w) table;
             w = w\<lparr>audit_counts := AList.update table count (audit_counts w)\<rparr>
         in case previous of
              Some p \<Rightarrow>
                (if \<not> count > p then (w\<lparr>audit_alerted := AList.update table False (audit_alerted w)\<rparr>, app)
                 else if map_of (audit_alerted w) table = Some True then (w, app)
                 else (w\<lparr>audit_alerted := AList.update table True (audit_alerted w)\<rparr>,
                       snd (notify_event (notify st) m
                         (resource_notice ''audit.failure''
                            [(''table'', Text table), (''failures'', Count (count - p)), (''total'', Count count),
                             (''source'', Text ''watchdog'')]) app)))
            | None \<Rightarrow> (w\<lparr>audit_alerted := AList.update table False (audit_alerted w)\<rparr>, app)))"

text \<open>The counters, absent where the subsystem is.\<close>

definition audit_failure_counts :: "int option \<Rightarrow> int option \<Rightarrow> (string \<times> int) list" where
  "audit_failure_counts registry events =
     (case registry of None \<Rightarrow> [] | Some n \<Rightarrow> [(''container_events'', n)]) @
     (case events of None \<Rightarrow> [] | Some n \<Rightarrow> [(''audit_events'', n)])"

definition check_audit ::
  "watch_settings \<Rightarrow> moment \<Rightarrow> (string \<times> int) list \<Rightarrow> watchdog \<times> notifier option \<Rightarrow> watchdog \<times> notifier option" where
  "check_audit st m counts wa = fold (\<lambda>(table, count). step_audit st m table count) counts wa"

section \<open>The rows of the health route\<close>

record row =
  row_path :: string
  row_usage :: real
  row_state :: level

record snapshot =
  filesystems :: "row list"
  audit_degraded :: bool
  last_poll_at :: "real option"
  memory_row :: "(real \<times> level) option"
  cpu_row :: "(real \<times> level) option"
  degraded :: bool

text \<open>\<open>None\<close> is the \<open>KeyError\<close> of a device without a path.\<close>

fun disk_rows_from :: "watchdog \<Rightarrow> (metric \<times> real) list \<Rightarrow> row list option" where
  "disk_rows_from w [] = Some []"
| "disk_rows_from w ((Host _, _) # us) = disk_rows_from w us"
| "disk_rows_from w ((Device d, u) # us) =
     (case map_of (disk_paths w) (Device d) of
        None \<Rightarrow> None
      | Some p \<Rightarrow> map_option (Cons \<lparr>row_path = p, row_usage = round1 u, row_state = state_of w (Device d)\<rparr>) (disk_rows_from w us))"

definition disk_rows :: "watchdog \<Rightarrow> row list option" where
  "disk_rows w = disk_rows_from w (last_usage w)"

definition host_row :: "watchdog \<Rightarrow> metric \<Rightarrow> (real \<times> level) option" where
  "host_row w key = map_option (\<lambda>u. (round1 u, state_of w key)) (map_of (last_usage w) key)"

definition snapshot_of :: "watchdog \<Rightarrow> snapshot option" where
  "snapshot_of w =
     (case disk_rows w of
        None \<Rightarrow> None
      | Some rows \<Rightarrow>
          (let hosts = List.map_filter (host_row w) [MEMORY_KEY, CPU_KEY];
               audit = list_ex id (map snd (audit_alerted w))
           in Some \<lparr>filesystems = rows, audit_degraded = audit, last_poll_at = last_poll w,
                memory_row = host_row w MEMORY_KEY, cpu_row = host_row w CPU_KEY,
                degraded = (list_ex (\<lambda>x. row_state x \<noteq> OK) rows \<or> list_ex (\<lambda>x. snd x \<noteq> OK) hosts \<or> audit)\<rparr>))"
section \<open>The shape of an evaluation\<close>

abbreviation next_level :: "real \<Rightarrow> real \<Rightarrow> real \<Rightarrow> level \<Rightarrow> level" where
  "next_level warn critical u l \<equiv> classify u l warn critical (warn - RECOVERY_GAP_PERCENT) (critical - RECOVERY_GAP_PERCENT)"

lemma record_dispatch_fields [simp]:
  "states (record_dispatch st key l sent ev app w) = states w"
  "last_usage (record_dispatch st key l sent ev app w) = last_usage w"
  "disk_paths (record_dispatch st key l sent ev app w) = disk_paths w"
  "emitted_at (record_dispatch st key l sent ev app w) = emitted_at w"
  "audit_alerted (record_dispatch st key l sent ev app w) = audit_alerted w"
  by (simp_all add: record_dispatch_def)

lemma retry_pending_fields [simp]:
  "states (fst (retry_pending st now key u ev emit (w, app))) = states w"
  "last_usage (fst (retry_pending st now key u ev emit (w, app))) = last_usage w"
  "disk_paths (fst (retry_pending st now key u ev emit (w, app))) = disk_paths w"
  "audit_alerted (fst (retry_pending st now key u ev emit (w, app))) = audit_alerted w"
  by (simp_all add: retry_pending_def Let_def split: option.split prod.split)

lemma step_threshold_fields [simp]:
  "states (fst (step_threshold st r key u warn critical ev emit (w, app))) =
     AList.update key (next_level warn critical u (state_of w key)) (states w)"
  "last_usage (fst (step_threshold st r key u warn critical ev emit (w, app))) = AList.update key u (last_usage w)"
  "disk_paths (fst (step_threshold st r key u warn critical ev emit (w, app))) = disk_paths w"
  "audit_alerted (fst (step_threshold st r key u warn critical ev emit (w, app))) = audit_alerted w"
  by (simp_all add: step_threshold_def Let_def split: prod.split)

lemma state_of_step:
  "state_of (fst (step_threshold st r key u warn critical ev emit (w, app))) k =
     (if k = key then next_level warn critical u (state_of w key) else state_of w k)"
  by (simp add: state_of_def map_of_dict_update)

lemma state_of_paths [simp]: "state_of (w\<lparr>disk_paths := d\<rparr>) k = state_of w k"
  by (simp add: state_of_def)

lemma state_of_filesystem:
  "state_of (fst (step_filesystem st r d p u (w, app))) k =
     (if k = Device d
      then next_level (disk_watchdog_warn_percent st) (disk_watchdog_critical_percent st) u (state_of w k)
      else state_of w k)"
  by (simp add: step_filesystem_def state_of_step)

section \<open>Hysteresis\<close>

text \<open>How often the state of a file system changes over a list of polls.\<close>

fun level_changes ::
  "watch_settings \<Rightarrow> int \<Rightarrow> (readings \<times> string \<times> real) list \<Rightarrow> watchdog \<times> notifier option \<Rightarrow> nat" where
  "level_changes st d [] wa = 0"
| "level_changes st d ((r, p, u) # polls) wa =
     (let wa' = step_filesystem st r d p u wa
      in (if state_of (fst wa') (Device d) \<noteq> state_of (fst wa) (Device d) then 1 else 0) + level_changes st d polls wa')"

definition changes_left :: "real \<Rightarrow> real \<Rightarrow> real \<Rightarrow> level \<Rightarrow> nat" where
  "changes_left warn critical hi l =
     (if hi \<ge> critical then (case l of OK \<Rightarrow> 2 | WARN \<Rightarrow> 1 | CRITICAL \<Rightarrow> 0)
      else if hi \<ge> warn then (if l = WARN then 0 else 1)
      else (if l = OK then 0 else 1))"

lemma changes_left_less:
  assumes "warn \<le> critical" "lo \<le> u" "u \<le> hi" "hi - lo < RECOVERY_GAP_PERCENT" "next_level warn critical u l \<noteq> l"
  shows "changes_left warn critical hi (next_level warn critical u l) < changes_left warn critical hi l"
  using assms by (cases l) (auto simp: classify_def classify_below_critical_def changes_left_def split: if_splits)

lemma level_changes_bound:
  assumes "disk_watchdog_warn_percent st \<le> disk_watchdog_critical_percent st" "hi - lo < RECOVERY_GAP_PERCENT"
    and "\<forall>(r, p, u)\<in>set polls. lo \<le> u \<and> u \<le> hi"
  shows "level_changes st d polls wa \<le>
    changes_left (disk_watchdog_warn_percent st) (disk_watchdog_critical_percent st) hi (state_of (fst wa) (Device d))"
  using assms(3)
proof (induction polls arbitrary: wa)
  case Nil
  then show ?case by simp
next
  case (Cons x polls)
  obtain r p u w app where x: "x = (r, p, u)" "wa = (w, app)" by (metis prod.exhaust)
  let ?next = "step_filesystem st r d p u wa"
  have "level_changes st d polls ?next \<le>
      changes_left (disk_watchdog_warn_percent st) (disk_watchdog_critical_percent st) hi (state_of (fst ?next) (Device d))"
    using Cons by simp
  moreover have "lo \<le> u" "u \<le> hi" using Cons.prems x by auto
  ultimately show ?case
    using changes_left_less [OF assms(1) _ _ assms(2), of u "state_of w (Device d)"]
    by (fastforce simp: x Let_def state_of_filesystem)
qed

text \<open>
  No flapping. While the usage of a file system stays within a band narrower than the recovery gap -
  wherever that band lies, around a threshold or both - its state changes at most twice, over any number of polls and
  from any state: usage that hovers at a boundary is one episode, not an alert per poll.
\<close>

theorem hovering_usage_settles:
  assumes "watchdog_thresholds_ok st" "hi - lo < RECOVERY_GAP_PERCENT" "\<forall>(r, p, u)\<in>set polls. lo \<le> u \<and> u \<le> hi"
  shows "level_changes st d polls wa \<le> 2"
proof -
  have "disk_watchdog_warn_percent st \<le> disk_watchdog_critical_percent st"
    using assms(1) by (simp add: watchdog_thresholds_ok_def)
  from level_changes_bound [OF this assms(2,3), of d wa] show ?thesis
    by (rule order_trans) (simp add: changes_left_def split: level.split)
qed
section \<open>Runs\<close>

text \<open>
  What runs between two awaits, in any order: the measuring half of \<open>check_disk\<close>, its evaluating half with whatever
  was measured, the other checks, the end of a sweep, a poll while disabled, a reload (which also clears the
  throttle clocks), and a notification from elsewhere. Settings are those in force at the step.
\<close>

inductive watch_step :: "watchdog \<times> notifier option \<Rightarrow> watchdog \<times> notifier option \<Rightarrow> bool" where
  measure: "watch_step (w, app) (snd (monitored_filesystems st mts mts' now later podman w), app)"
| disk: "watch_step (w, app) (check_disk st clock (dedup_filesystems es) (w, app))"
| memory: "watch_step (w, app) (check_memory st r fr (w, app))"
| cpu: "watch_step (w, app) (check_cpu st r text (w, app))"
| audit: "watch_step (w, app) (check_audit st m counts (w, app))"
| swept: "watch_step (w, app) (w\<lparr>last_poll := Some now\<rparr>, app)"
| disabled: "watch_step (w, app) (reset_states w, app)"
| reload: "watch_step (w, app) (reconfigure st w, map_option reconfigure_notifier app)"
| elsewhere: "watch_step (w, app) (w, snd (notify_event st m x app))"

definition watch_init :: "watchdog \<times> notifier option \<Rightarrow> bool" where
  "watch_init wa \<longleftrightarrow> (\<exists>st. fst wa = init_watchdog st) \<and> (snd wa = None \<or> snd wa = Some init_notifier)"

text \<open>
  A pending retry is the current state, a degraded state has been stamped, a row has a state, a row of
  a device has a path, and the only other rows are the two host metrics.
\<close>

definition watch_inv :: "watchdog \<Rightarrow> bool" where
  "watch_inv w \<longleftrightarrow>
     (\<forall>k l. map_of (pending w) k = Some l \<longrightarrow> map_of (states w) k = Some l) \<and>
     (\<forall>k. state_of w k \<noteq> OK \<longrightarrow> map_of (emitted_at w) k \<noteq> None) \<and>
     (\<forall>k. map_of (last_usage w) k \<noteq> None \<longrightarrow> map_of (states w) k \<noteq> None) \<and>
     (\<forall>d. map_of (last_usage w) (Device d) \<noteq> None \<longrightarrow> map_of (disk_paths w) (Device d) \<noteq> None) \<and>
     (\<forall>h. map_of (last_usage w) (Host h) \<noteq> None \<longrightarrow> Host h \<in> {MEMORY_KEY, CPU_KEY}) \<and>
     dict_ok (last_usage w)"

lemma watch_inv_cong:
  assumes "watch_inv w" "states w' = states w" "pending w' = pending w" "emitted_at w' = emitted_at w"
    "last_usage w' = last_usage w" "disk_paths w' = disk_paths w"
  shows "watch_inv w'"
  using assms by (simp add: watch_inv_def state_of_def)

lemma forget_inv: "watch_inv w \<Longrightarrow> watch_inv (forget k w)"
  by (auto simp: watch_inv_def forget_def state_of_def map_of_dict_delete)

lemma fold_forget_inv: "watch_inv w \<Longrightarrow> watch_inv (fold forget ks w)"
  by (induction ks arbitrary: w) (simp_all add: forget_inv)

lemma reset_families_inv: "watch_inv w \<Longrightarrow> watch_inv (reset_families_with_changed_thresholds old new w)"
  by (simp add: reset_families_with_changed_thresholds_def Let_def forget_disk_states_def forget_inv fold_forget_inv)

lemma reconfigure_inv: "watch_inv w \<Longrightarrow> watch_inv (reconfigure st w)"
  unfolding reconfigure_def by (rule reset_families_inv) (erule watch_inv_cong; simp)

text \<open>The state and the usage written, before anything is emitted.\<close>

definition written :: "metric \<Rightarrow> level \<Rightarrow> real \<Rightarrow> watchdog \<Rightarrow> watchdog" where
  "written key l u w = w\<lparr>states := AList.update key l (states w), last_usage := AList.update key u (last_usage w)\<rparr>"

lemma step_threshold_cases:
  assumes "step_threshold st r key u warn critical ev emit (w, app) = wa"
  obtains (emits) sent app' where "emit (next_level warn critical u (state_of w key)) u False app = (sent, app')"
      "wa = (record_dispatch st key (next_level warn critical u (state_of w key)) sent ev app'
         ((written key (next_level warn critical u (state_of w key)) u w)
            \<lparr>emitted_at := AList.update key (at_stamp r) (emitted_at w)\<rparr>), app')"
    | (retries) "next_level warn critical u (state_of w key) = state_of w key"
      "wa = retry_pending st (at_done r) key u ev emit (written key (state_of w key) u w, app)"
  using assms by (fastforce simp: step_threshold_def Let_def written_def split: if_splits prod.splits)

lemma watch_inv_written:
  assumes "watch_inv w" "is_device key \<longrightarrow> map_of (disk_paths w) key \<noteq> None" "\<not> is_device key \<longrightarrow> key \<in> {MEMORY_KEY, CPU_KEY}"
    and "states w' = AList.update key l (states w)" "last_usage w' = AList.update key u (last_usage w)"
    and "disk_paths w' = disk_paths w" "l \<noteq> OK \<longrightarrow> map_of (emitted_at w') key \<noteq> None"
    and "\<And>k. map_of (emitted_at w) k \<noteq> None \<Longrightarrow> map_of (emitted_at w') k \<noteq> None"
    and "\<And>k p. map_of (pending w') k = Some p \<Longrightarrow> if k = key then p = l else map_of (pending w) k = Some p"
  shows "watch_inv w'"
  unfolding watch_inv_def
proof (intro conjI allI impI)
  show "map_of (states w') k = Some p" if "map_of (pending w') k = Some p" for k p
    using assms(1,4) assms(9) [OF that] by (auto simp: watch_inv_def map_of_dict_update split: if_splits)
  show "map_of (emitted_at w') k \<noteq> None" if "state_of w' k \<noteq> OK" for k
  proof (cases "k = key")
    case False
    then have "state_of w k \<noteq> OK" using that assms(4) by (simp add: state_of_def map_of_dict_update)
    then show ?thesis using assms(1,8) by (simp add: watch_inv_def)
  qed (use that assms(4,7) in \<open>simp add: state_of_def map_of_dict_update\<close>)
  show "map_of (states w') k \<noteq> None" if "map_of (last_usage w') k \<noteq> None" for k
    using that assms(1,4,5) by (auto simp: watch_inv_def map_of_dict_update split: if_splits)
  show "map_of (disk_paths w') (Device d) \<noteq> None" if "map_of (last_usage w') (Device d) \<noteq> None" for d
    using that assms(1,2,5,6) by (auto simp: watch_inv_def map_of_dict_update split: if_splits)
  show "Host h \<in> {MEMORY_KEY, CPU_KEY}" if "map_of (last_usage w') (Host h) \<noteq> None" for h
    using that assms(1,3,5) by (auto simp: watch_inv_def map_of_dict_update split: if_splits)
  show "dict_ok (last_usage w')" using assms(1,5) by (simp add: watch_inv_def)
qed

lemma retry_pending_inv:
  assumes "watch_inv w"
  shows "watch_inv (fst (retry_pending st now key u ev emit (w, app)))"
  using assms unfolding watch_inv_def
  by (auto simp: retry_pending_def Let_def state_of_def map_of_dict_update map_of_dict_delete split: option.split prod.split)

lemma step_threshold_inv:
  assumes "watch_inv w" "is_device key \<longrightarrow> map_of (disk_paths w) key \<noteq> None" "\<not> is_device key \<longrightarrow> key \<in> {MEMORY_KEY, CPU_KEY}"
  shows "watch_inv (fst (step_threshold st r key u warn critical ev emit (w, app)))"
  using refl [of "step_threshold st r key u warn critical ev emit (w, app)"]
proof (cases rule: step_threshold_cases)
  case (emits sent app')
  show ?thesis unfolding emits(2) fst_conv
    by (rule watch_inv_written [OF assms])
      (auto simp: record_dispatch_def written_def map_of_dict_update map_of_dict_delete split: if_splits)
next
  case retries
  have old: "state_of w key \<noteq> OK \<longrightarrow> map_of (emitted_at w) key \<noteq> None"
    and pend: "map_of (pending w) key = Some p \<Longrightarrow> p = state_of w key" for p
    using assms(1) by (auto simp: watch_inv_def state_of_def)
  have "watch_inv (written key (state_of w key) u w)"
    by (rule watch_inv_written [OF assms]) (use old pend in \<open>auto simp: written_def split: if_splits\<close>)
  then show ?thesis unfolding retries(2) by (rule retry_pending_inv)
qed

lemma measure_path_fields:
  "watch_inv w \<Longrightarrow> watch_inv (snd (measure_path mts p w))"
  by (auto simp: measure_path_def note_unmeasurable_def rearm_unmeasurable_def split: option.split sum.split
      elim: watch_inv_cong)

lemma measure_paths_inv: "watch_inv w \<Longrightarrow> watch_inv (snd (measure_paths mts ps w))"
proof (induction ps arbitrary: w)
  case (Cons p ps)
  obtain e w1 where m: "measure_path mts p w = (e, w1)" by fastforce
  obtain es w2 where ms: "measure_paths mts ps w1 = (es, w2)" by fastforce
  have "watch_inv w1" using measure_path_fields [OF Cons.prems, of mts p] m by simp
  from Cons.IH [OF this] show ?case by (simp add: m ms)
qed simp

lemma resolve_graph_root_inv: "watch_inv w \<Longrightarrow> watch_inv (snd (resolve_graph_root now later podman w))"
  by (auto simp: resolve_graph_root_def defer_graph_root_retry_def split: option.split list.split elim: watch_inv_cong)

lemma monitored_filesystems_inv:
  assumes "watch_inv w"
  shows "watch_inv (snd (monitored_filesystems st mts mts' now later podman w))"
proof -
  obtain es w1 where m: "measure_paths mts (data_dir st # state_dir st # extra_paths st) w = (es, w1)" by fastforce
  obtain dir w2 where g: "resolve_graph_root now later podman w1 = (dir, w2)" by fastforce
  have "watch_inv w2"
    using measure_paths_inv [OF assms] resolve_graph_root_inv m g by (metis snd_conv)
  then have "watch_inv (snd (measure_path mts' d w2))" for d by (rule measure_path_fields)
  then show ?thesis
    using \<open>watch_inv w2\<close> by (auto simp: monitored_filesystems_def m g simp del: measure_paths.simps split: option.split prod.split) (metis snd_conv)+
qed

lemma map_of_fold_delete: "map_of (fold AList.delete ks d) k = (if k \<in> set ks then None else map_of d k)"
  by (induction ks arbitrary: d) (auto simp: map_of_dict_delete)

lemma dict_ok_fold_delete: "dict_ok d \<Longrightarrow> dict_ok (fold AList.delete ks d)"
  by (induction ks arbitrary: d) simp_all

lemma prune_disk_rows_usage:
  "map_of (last_usage (prune_disk_rows ds w)) k =
     (if is_device k \<and> k \<notin> Device ` set ds then None else map_of (last_usage w) k)"
  by (force simp: prune_disk_rows_def Let_def map_of_fold_delete map_of_eq_None_iff)

lemma prune_disk_rows_paths:
  "map_of (disk_paths (prune_disk_rows ds w)) k =
     (if is_device k \<and> k \<notin> Device ` set ds \<and> map_of (last_usage w) k \<noteq> None then None else map_of (disk_paths w) k)"
  by (force simp: prune_disk_rows_def Let_def map_of_fold_delete map_of_eq_None_iff)

lemma prune_disk_rows_fields [simp]:
  "states (prune_disk_rows ds w) = states w" "pending (prune_disk_rows ds w) = pending w"
  "emitted_at (prune_disk_rows ds w) = emitted_at w" "state_of (prune_disk_rows ds w) = state_of w"
  by (auto simp: prune_disk_rows_def Let_def state_of_def)

lemma prune_disk_rows_inv: "watch_inv w \<Longrightarrow> watch_inv (prune_disk_rows ds w)"
proof -
  assume w: "watch_inv w"
  then have "dict_ok (last_usage (prune_disk_rows ds w))"
    by (simp add: watch_inv_def prune_disk_rows_def Let_def dict_ok_fold_delete)
  with w show ?thesis
    unfolding watch_inv_def prune_disk_rows_usage prune_disk_rows_paths by (auto split: if_splits)
qed

lemma step_filesystem_inv:
  assumes "watch_inv w"
  shows "watch_inv (fst (step_filesystem st r d p u (w, app)))"
proof -
  have "watch_inv (w\<lparr>disk_paths := AList.update (Device d) p (disk_paths w)\<rparr>)"
    using assms unfolding watch_inv_def by (auto simp: state_of_def map_of_dict_update)
  then show ?thesis unfolding step_filesystem_def by (simp add: step_threshold_inv map_of_dict_update)
qed

lemma check_disk_inv:
  assumes "watch_inv w"
  shows "watch_inv (fst (check_disk st clock es (w, app)))"
proof -
  have "watch_inv (fst (fold (\<lambda>(d, p, u). step_filesystem st (clock d) d p u) es wa))" if "watch_inv (fst wa)" for wa
    using that
  proof (induction es arbitrary: wa)
    case (Cons e es)
    then show ?case using step_filesystem_inv [of "fst wa"] by (cases e; cases wa) simp
  qed simp
  then show ?thesis using prune_disk_rows_inv [OF assms] by (simp add: check_disk_def)
qed

lemma check_memory_inv: "watch_inv w \<Longrightarrow> watch_inv (fst (check_memory st r fr (w, app)))"
  and check_cpu_inv: "watch_inv w \<Longrightarrow> watch_inv (fst (check_cpu st r text (w, app)))"
proof -
  assume w: "watch_inv w"
  then have noted: "watch_inv (note_unmeasurable what w)" "watch_inv (rearm_unmeasurable what w)" for what
    by (auto simp: note_unmeasurable_def rearm_unmeasurable_def elim: watch_inv_cong)
  show "watch_inv (fst (check_memory st r fr (w, app)))"
    unfolding check_memory_def using w noted
    by (auto intro: forget_inv intro!: step_threshold_inv simp: MEMORY_KEY_def split: sum.split)
  show "watch_inv (fst (check_cpu st r text (w, app)))"
    unfolding check_cpu_def using w noted
    by (auto intro: forget_inv intro!: step_threshold_inv simp: CPU_KEY_def split: sum.split)
qed

lemma step_audit_inv: "watch_inv w \<Longrightarrow> watch_inv (fst (step_audit st m t c (w, app)))"
  by (auto simp: step_audit_def Let_def split: option.split elim: watch_inv_cong)

lemma check_audit_inv: "watch_inv (fst wa) \<Longrightarrow> watch_inv (fst (check_audit st m counts wa))"
  unfolding check_audit_def
proof (induction counts arbitrary: wa)
  case (Cons c counts)
  then show ?case using step_audit_inv [of "fst wa"] by (cases c; cases wa) simp
qed simp

lemma watch_step_inv: "watch_step wa wa' \<Longrightarrow> watch_inv (fst wa) \<Longrightarrow> watch_inv (fst wa')"
proof (induction rule: watch_step.induct)
  case (disabled w app)
  then show ?case by (simp add: reset_states_def watch_inv_def state_of_def)
next
  case (swept w app now)
  then show ?case by (auto elim: watch_inv_cong)
qed (simp_all add: monitored_filesystems_inv check_disk_inv check_memory_inv check_cpu_inv check_audit_inv reconfigure_inv)

lemma watch_init_inv: "watch_init wa \<Longrightarrow> watch_inv (fst wa)"
  by (auto simp: watch_init_def init_watchdog_def watch_inv_def state_of_def)

interpretation watch: step_invariant watch_step watch_init "\<lambda>wa. watch_inv (fst wa)"
  by unfold_locales (rule watch_init_inv, assumption, rule watch_step_inv)
section \<open>What the health route reads\<close>

lemma disk_rows_from_total:
  assumes "\<And>d. Device d \<in> fst ` set us \<Longrightarrow> map_of (disk_paths w) (Device d) \<noteq> None"
  shows "\<exists>rows. disk_rows_from w us = Some rows \<and>
    set rows = {\<lparr>row_path = p, row_usage = round1 u, row_state = state_of w (Device d)\<rparr> | d p u.
      (Device d, u) \<in> set us \<and> map_of (disk_paths w) (Device d) = Some p}"
  using assms
proof (induction w us rule: disk_rows_from.induct)
  case (3 w d u us)
  obtain p where p: "map_of (disk_paths w) (Device d) = Some p" using "3.prems" [of d] by auto
  obtain rows where "disk_rows_from w us = Some rows" and
    rows: "set rows = {\<lparr>row_path = p, row_usage = round1 u, row_state = state_of w (Device d)\<rparr> | d p u.
      (Device d, u) \<in> set us \<and> map_of (disk_paths w) (Device d) = Some p}"
    using "3.IH" [OF p] "3.prems" by auto
  with p show ?case by (auto simp: rows)
qed simp_all

lemma disk_rows_total:
  assumes "watch_inv w"
  obtains rows where "disk_rows w = Some rows"
    "set rows = {\<lparr>row_path = p, row_usage = round1 u, row_state = state_of w (Device d)\<rparr> | d p u.
      map_of (last_usage w) (Device d) = Some u \<and> map_of (disk_paths w) (Device d) = Some p}"
proof -
  have ok: "dict_ok (last_usage w)" and "map_of (disk_paths w) (Device d) \<noteq> None" if "Device d \<in> fst ` set (last_usage w)" for d
    using assms that by (auto simp: watch_inv_def map_of_eq_None_iff)
  with assms disk_rows_from_total [of "last_usage w" w] that show thesis
    by (auto simp: disk_rows_def watch_inv_def)
qed

lemma host_rows_degraded:
  "list_ex (\<lambda>x. snd x \<noteq> OK) (List.map_filter (host_row w) [MEMORY_KEY, CPU_KEY]) \<longleftrightarrow>
     (\<exists>k\<in>{MEMORY_KEY, CPU_KEY}. map_of (last_usage w) k \<noteq> None \<and> state_of w k \<noteq> OK)"
  by (auto simp: List.map_filter_def host_row_def)


lemma step_filesystem_rows:
  "map_of (last_usage (fst (step_filesystem st r d p u (w, app)))) k =
     (if k = Device d then Some u else map_of (last_usage w) k)"
  "map_of (disk_paths (fst (step_filesystem st r d p u (w, app)))) k =
     (if k = Device d then Some p else map_of (disk_paths w) k)"
  by (simp_all add: step_filesystem_def map_of_dict_update)

lemma fold_filesystem_rows:
  assumes "distinct (map fst es)"
  shows "map_of (last_usage (fst (fold (\<lambda>(d, p, u). step_filesystem st (clock d) d p u) es wa))) (Device d) =
      (case map_of es d of Some (p, u) \<Rightarrow> Some u | None \<Rightarrow> map_of (last_usage (fst wa)) (Device d)) \<and>
    map_of (disk_paths (fst (fold (\<lambda>(d, p, u). step_filesystem st (clock d) d p u) es wa))) (Device d) =
      (case map_of es d of Some (p, u) \<Rightarrow> Some p | None \<Rightarrow> map_of (disk_paths (fst wa)) (Device d))"
  using assms
proof (induction es arbitrary: wa)
  case (Cons e es)
  obtain c p u w app where e: "e = (c, p, u)" "wa = (w, app)" by (metis prod.exhaust)
  have "map_of es c = None" using Cons.prems e by (simp add: map_of_eq_None_iff)
  with Cons.IH [of "step_filesystem st (clock c) c p u wa"] Cons.prems show ?case
    by (simp add: e step_filesystem_rows split: option.split)
qed simp

lemma dedup_loop_keys:
  "dict_ok seen \<Longrightarrow> \<forall>x\<in>set seen. fst (snd x) = fst x \<Longrightarrow>
     dict_ok (dedup_loop es seen) \<and> (\<forall>x\<in>set (dedup_loop es seen). fst (snd x) = fst x)"
proof (induction es arbitrary: seen)
  case (Cons e es)
  have "\<forall>x\<in>set (AList.update (fst e) e seen). fst (snd x) = fst x"
    using Cons.prems by (simp add: set_dict_update)
  then show ?case using Cons.prems Cons.IH [of "AList.update (fst e) e seen"] Cons.IH [of seen] by simp
qed simp

lemma distinct_dedup: "distinct (map fst (dedup_filesystems es))"
proof -
  note keys = dedup_loop_keys [of "[]" es]
  have "map fst (dedup_filesystems es) = map fst (dedup_loop es [])"
    unfolding dedup_filesystems_def map_map by (rule map_cong [OF refl]) (use keys in simp)
  then show ?thesis using keys by simp
qed

lemma check_disk_rows:
  "map_of (last_usage (fst (check_disk st clock (dedup_filesystems es) (w, app)))) (Device d) = Some u \<and>
   map_of (disk_paths (fst (check_disk st clock (dedup_filesystems es) (w, app)))) (Device d) = Some p \<longleftrightarrow>
     (d, p, u) \<in> set (dedup_filesystems es)"
proof -
  let ?es = "dedup_filesystems es"
  note rows = fold_filesystem_rows [OF distinct_dedup, of st clock es "(prune_disk_rows (map fst ?es) w, app)" d]
  have iff: "(d, p, u) \<in> set ?es \<longleftrightarrow> map_of ?es d = Some (p, u)" by (simp add: distinct_dedup)
  show ?thesis
  proof (cases "map_of ?es d")
    case None
    then have "d \<notin> fst ` set ?es" by (simp add: map_of_eq_None_iff)
    then have "map_of (last_usage (prune_disk_rows (map fst ?es) w)) (Device d) = None" by (auto simp: prune_disk_rows_usage)
    then show ?thesis using rows None unfolding iff check_disk_def by simp
  next
    case (Some pu)
    then show ?thesis using rows unfolding iff check_disk_def by (cases pu) auto
  qed
qed

text \<open>
  The rows are those of the last pass. After a disk pass the snapshot lists exactly the file systems it
  measured, each under its path with its usage and its state; a disk that went away, or that a path left for another
  device, leaves no row that could keep the health route degraded.
\<close>

theorem rows_mirror_last_pass:
  assumes "watch_init wa" "watch_step\<^sup>*\<^sup>* wa (w, app)"
  shows "\<exists>rows. disk_rows (fst (check_disk st clock (dedup_filesystems es) (w, app))) = Some rows \<and>
    set rows = {\<lparr>row_path = p, row_usage = round1 u,
      row_state = state_of (fst (check_disk st clock (dedup_filesystems es) (w, app))) (Device d)\<rparr> | d p u.
        (d, p, u) \<in> set (dedup_filesystems es)}"
proof -
  let ?es = "dedup_filesystems es" and ?w = "fst (check_disk st clock (dedup_filesystems es) (w, app))"
  have "watch_inv w" using watch.reachable_inv [OF assms(2,1)] by simp
  then obtain rows where rows: "disk_rows ?w = Some rows"
    "set rows = {\<lparr>row_path = p, row_usage = round1 u, row_state = state_of ?w (Device d)\<rparr> | d p u.
      map_of (last_usage ?w) (Device d) = Some u \<and> map_of (disk_paths ?w) (Device d) = Some p}"
    using disk_rows_total [OF check_disk_inv, of w st clock ?es app] by blast
  then show ?thesis by (simp add: check_disk_rows)
qed
section \<open>Alerts arrive\<close>

lemma notify_admins_grows: "set (deliveries n) \<subseteq> set (deliveries (snd (notify_admins st m x n)))"
proof -
  obtain sent n' where r: "notify_admins st m x n = (sent, n')" by fastforce
  have same: "deliveries k = deliveries n" if "throttle_allows now e key n = (ok, k)" for now e key ok k
    using that by (cases rule: throttle_allows_cases) simp_all
  from r show ?thesis by (cases rule: notify_admins_cases) (use r same in auto)
qed

text \<open>
  What an evaluation relies on in the function that emits for its metric: it is one guarded notification, of the
  event of the state, in a bucket of its own for every state, with the window of five minutes.
\<close>

locale alerting =
  fixes cfg :: notify_settings and ev :: threshold_events and emit :: "moment \<Rightarrow> emitter" and alert_bucket :: "level \<Rightarrow> string"
  assumes emits: "\<exists>x. event x = by_state ev l \<and> throttle_key (event x) (detail_of x) = alert_bucket l \<and>
      emit m l u retry app = notify_event cfg m x app"
    and window: "throttle_window (by_state ev l) = 300"
begin

text \<open>An alert for the state was dispatched since, or it is pending and the window opens by then.\<close>

definition landed :: "level \<Rightarrow> real \<Rightarrow> notifier \<Rightarrow> bool" where
  "landed l since n \<longleftrightarrow> (\<exists>x\<in>set (deliveries n). bucket x = alert_bucket l \<and> since \<le> dispatched_at x)"

definition owed :: "metric \<Rightarrow> level \<Rightarrow> real \<Rightarrow> watchdog \<Rightarrow> notifier \<Rightarrow> bool" where
  "owed key l since w n \<longleftrightarrow> landed l since n \<or>
     (map_of (pending w) key = Some l \<and> (\<forall>prev. map_of (last_notified n) (alert_bucket l) = Some prev \<longrightarrow> prev \<le> since))"

lemma emit_cases:
  assumes "event_dispatchable cfg (by_state ev l) (Some n)" "loop_running m"
  obtains (dispatched) n' x where "emit m l u retry (Some n) = (True, Some n')" "x \<in> set (deliveries n')"
      "bucket x = alert_bucket l" "dispatched_at x = monotonic m" "set (deliveries n) \<subseteq> set (deliveries n')"
    | (closed) prev where "emit m l u retry (Some n) = (False, Some n)"
      "map_of (last_notified n) (alert_bucket l) = Some prev" "monotonic m - prev < 300"
proof -
  note dispatched = that(1)
  obtain x where x: "event x = by_state ev l" "throttle_key (event x) (detail_of x) = alert_bucket l"
      "emit m l u retry (Some n) = notify_event cfg m x (Some n)"
    using emits by blast
  obtain ok k where t: "throttle_allows (monotonic m) (event x) (alert_bucket l) n = (ok, k)" by fastforce
  let ?d = "\<lparr>dispatched_at = monotonic m, bucket = alert_bucket l, timestamp = wall_clock m,
      payload = x\<lparr>detail_of := Some (case detail_of x of None \<Rightarrow> [] | Some d \<Rightarrow> d)\<rparr>\<rparr>"
  have r: "notify_admins cfg m x n = (if ok then (True, k\<lparr>deliveries := deliveries k @ [?d]\<rparr>) else (False, k))"
    using assms t x(1) x(2) [unfolded x(1)] by (simp add: notify_admins_def should_notify_def event_dispatchable_def Let_def)
  have yes: thesis if "ok" "deliveries k = deliveries n"
    by (rule dispatched [of "k\<lparr>deliveries := deliveries k @ [?d]\<rparr>" ?d])
      (use that r x(3) in \<open>auto simp: notify_event_def\<close>)
  from t show thesis
  proof (cases rule: throttle_allows_cases)
    case (closed prev)
    then show thesis using that(2) r x(3) window x(1) by (simp add: notify_event_def)
  qed (use yes in simp_all)
qed

lemma emit_lands:
  assumes "event_dispatchable cfg (by_state ev l) (Some n)" "loop_running m" "since \<le> monotonic m"
    and "\<forall>prev. map_of (last_notified n) (alert_bucket l) = Some prev \<longrightarrow> prev \<le> since"
  obtains (dispatched) n' where "emit m l u retry (Some n) = (True, Some n')" "landed l since n'"
    | (closed) "emit m l u retry (Some n) = (False, Some n)" "monotonic m < since + 300"
  using assms(1,2)
proof (cases rule: emit_cases [of l n m u retry])
  case (dispatched n' x)
  then have "landed l since n'" using assms(3) by (auto simp: landed_def)
  with dispatched(1) show thesis by (rule that(1))
next
  case (closed prev)
  then show thesis using that(2) assms(4) by force
qed

lemma emit_grows:
  "\<exists>sent n'. emit m l u retry (Some n) = (sent, Some n') \<and> set (deliveries n) \<subseteq> set (deliveries n')"
proof -
  obtain x where "emit m l u retry (Some n) = notify_event cfg m x (Some n)" using emits by blast
  moreover obtain sent n' where "notify_admins cfg m x n = (sent, n')" "set (deliveries n) \<subseteq> set (deliveries n')"
    using notify_admins_grows by (metis prod.exhaust snd_conv)
  ultimately show ?thesis by (auto simp: notify_event_def)
qed

lemma step_threshold_grows:
  "\<exists>w' n'. step_threshold cfg r key u warn critical ev (emit m) (w, Some n) = (w', Some n') \<and>
     set (deliveries n) \<subseteq> set (deliveries n')"
  using refl [of "step_threshold cfg r key u warn critical ev (emit m) (w, Some n)"]
proof (cases rule: step_threshold_cases)
  case (emits sent app')
  then show ?thesis using emit_grows [of m "next_level warn critical u (state_of w key)" u False n] by auto
next
  case retries
  show ?thesis
  proof (cases "map_of (pending w) key")
    case (Some p)
    obtain sent n' where "emit m p u True (Some n) = (sent, Some n')" "set (deliveries n) \<subseteq> set (deliveries n')"
      using emit_grows by blast
    then show ?thesis unfolding retries(2) using Some by (simp add: retry_pending_def Let_def written_def)
  qed (simp add: retries(2) retry_pending_def written_def)
qed

lemma landed_mono: "landed l since n \<Longrightarrow> set (deliveries n) \<subseteq> set (deliveries n') \<Longrightarrow> landed l since n'"
  by (auto simp: landed_def)

text \<open>An evaluation with the result \<open>l\<close>, at the beginning of the episode and later in it.\<close>

lemma first_evaluation:
  assumes "event_dispatchable cfg (by_state ev l) (Some n)" "loop_running (at_send r)"
    and "state_of w key \<noteq> l" "next_level warn critical u (state_of w key) = l"
    and "\<forall>prev. map_of (last_notified n) (alert_bucket l) = Some prev \<longrightarrow> prev \<le> monotonic (at_send r)"
  shows "\<exists>w' n'. step_threshold cfg r key u warn critical ev (emit (at_send r)) (w, Some n) = (w', Some n') \<and>
    owed key l (monotonic (at_send r)) w' n'"
  using refl [of "step_threshold cfg r key u warn critical ev (emit (at_send r)) (w, Some n)"]
proof (cases rule: step_threshold_cases)
  case (emits sent app')
  from assms(1,2) order_refl assms(5) show ?thesis
  proof (cases rule: emit_lands [of l n "at_send r" "monotonic (at_send r)" u False])
    case (dispatched n')
    then show ?thesis using emits assms(4) by (auto simp: owed_def)
  next
    case closed
    then show ?thesis using emits assms(1,4,5) by (auto simp: owed_def record_dispatch_def map_of_dict_update event_dispatchable_def)
  qed
qed (use assms(3,4) in simp)

lemma later_evaluation:
  assumes "event_dispatchable cfg (by_state ev l) (Some n)" "loop_running (at_send r)" "since \<le> monotonic (at_send r)"
    and "state_of w key = l" "next_level warn critical u l = l" "owed key l since w n"
  shows "\<exists>w' n'. step_threshold cfg r key u warn critical ev (emit (at_send r)) (w, Some n) = (w', Some n') \<and>
    owed key l since w' n' \<and> (since + 300 \<le> monotonic (at_send r) \<longrightarrow> landed l since n')"
proof (cases "landed l since n")
  case True
  obtain w' n' where s: "step_threshold cfg r key u warn critical ev (emit (at_send r)) (w, Some n) = (w', Some n')"
      "set (deliveries n) \<subseteq> set (deliveries n')"
    using step_threshold_grows by blast
  with landed_mono [OF True] show ?thesis by (auto simp: owed_def)
next
  case False
  then have p: "map_of (pending w) key = Some l" "\<forall>prev. map_of (last_notified n) (alert_bucket l) = Some prev \<longrightarrow> prev \<le> since"
    using assms(6) by (auto simp: owed_def)
  have disp: "event_dispatchable cfg (by_state ev l) (Some k)" for k using assms(1) by (simp add: event_dispatchable_def)
  from refl [of "step_threshold cfg r key u warn critical ev (emit (at_send r)) (w, Some n)"] show ?thesis
  proof (cases rule: step_threshold_cases)
    case (emits sent app')
    from assms(1-3) p(2) show ?thesis
    proof (cases rule: emit_lands [of l n "at_send r" since u False])
      case (dispatched n')
      then show ?thesis using emits assms(4,5) by (auto simp: owed_def)
    next
      case closed
      then show ?thesis using emits assms(4,5) disp p(2) by (auto simp: owed_def record_dispatch_def map_of_dict_update)
    qed
  next
    case retries
    from assms(1-3) p(2) show ?thesis
    proof (cases rule: emit_lands [of l n "at_send r" since u True])
      case (dispatched n')
      then show ?thesis using retries p(1) by (simp add: owed_def retry_pending_def written_def)
    next
      case closed
      then show ?thesis using retries disp p by (simp add: owed_def retry_pending_def written_def)
    qed
  qed
qed

end
context alerting
begin

lemma owed_elsewhere:
  assumes "owed key l since w n" "loop_running m" "since \<le> monotonic m"
  shows "owed key l since w (snd (notify_admins cfg' m x n))"
proof -
  obtain sent n' where r: "notify_admins cfg' m x n = (sent, n')" by fastforce
  have grows: "landed l since n \<Longrightarrow> landed l since n'"
    using landed_mono notify_admins_grows [of n cfg' m x] r by auto
  from r show ?thesis
  proof (cases rule: notify_admins_cases)
    case (sent k d)
    show ?thesis
    proof (cases "bucket d = alert_bucket l")
      case True
      then have "landed l since n'" using sent(2,5) assms(3) by (simp add: landed_def)
      then show ?thesis by (simp add: owed_def r)
    next
      case False
      from sent(4) have "map_of (last_notified n') (alert_bucket l) = map_of (last_notified n) (alert_bucket l)"
        by (cases rule: throttle_allows_cases) (use False sent(2,6) in \<open>auto simp: map_of_dict_update\<close>)
      then show ?thesis using assms(1) grows by (auto simp: owed_def r)
    qed
  qed (use assms(1,2) r in auto)
qed

lemma evaluation_notifies:
  "\<exists>w' n' x. step_threshold cfg r key u warn critical ev (emit m) (w, Some n) = (w', Some n') \<and>
     (n' = n \<or> n' = snd (notify_admins cfg m x n)) \<and> (\<forall>k. k \<noteq> key \<longrightarrow> map_of (pending w') k = map_of (pending w) k)"
proof -
  have emitted: "\<exists>x sent n'. emit m l u retry (Some n) = (sent, Some n') \<and> n' = snd (notify_admins cfg m x n)" for l retry
  proof -
    obtain x where "emit m l u retry (Some n) = notify_event cfg m x (Some n)" using emits by blast
    then show ?thesis by (intro exI [of _ x]) (simp add: notify_event_def case_prod_unfold)
  qed
  from refl [of "step_threshold cfg r key u warn critical ev (emit m) (w, Some n)"] show ?thesis
  proof (cases rule: step_threshold_cases)
    case (emits sent app')
    then show ?thesis using emitted [of "next_level warn critical u (state_of w key)" False]
      by (auto simp: record_dispatch_def written_def map_of_dict_update map_of_dict_delete)
  next
    case retries
    show ?thesis
    proof (cases "map_of (pending w) key")
      case (Some p)
      then show ?thesis using emitted [of p True] unfolding retries(2)
        by (auto simp: retry_pending_def written_def Let_def map_of_dict_delete)
    qed (simp add: retries(2) retry_pending_def written_def)
  qed
qed

end

definition disk_bucket :: "string \<Rightarrow> level \<Rightarrow> string" where
  "disk_bucket p l = (if p = [] then by_state DISK_EVENTS l else by_state DISK_EVENTS l @ '':'' @ p)"

lemmas bucket_eval = throttle_key_def detail_text_def str_or_def resource_notice_def

lemma resource_windows:
  "throttle_window (by_state DISK_EVENTS l) = 300" "throttle_window (by_state MEMORY_EVENTS l) = 300"
  "throttle_window (by_state CPU_EVENTS l) = 300"
  by (cases l; simp add: throttle_window_def THROTTLE_SECONDS_def by_state_def DISK_EVENTS_def MEMORY_EVENTS_def CPU_EVENTS_def)+

interpretation disk_alerts: alerting "notify st" DISK_EVENTS "\<lambda>m. emit_disk_event st m p" "disk_bucket p" for st p
proof unfold_locales
  show "\<exists>x. event x = by_state DISK_EVENTS l \<and> throttle_key (event x) (detail_of x) = disk_bucket p l \<and>
      emit_disk_event st m p l u retry app = notify_event (notify st) m x app" for l m u retry app
    unfolding emit_disk_event_def by (intro exI conjI refl) (simp_all add: bucket_eval disk_bucket_def)
qed (rule resource_windows)

interpretation memory_alerts: alerting "notify st" MEMORY_EVENTS "emit_memory st" "\<lambda>l. by_state MEMORY_EVENTS l @ '':memory''" for st
proof unfold_locales
  show "\<exists>x. event x = by_state MEMORY_EVENTS l \<and> throttle_key (event x) (detail_of x) = by_state MEMORY_EVENTS l @ '':memory'' \<and>
      emit_memory st m l u retry app = notify_event (notify st) m x app" for l m u retry app
    unfolding emit_memory_def by (intro exI conjI refl) (simp_all add: bucket_eval)
qed (rule resource_windows)

interpretation cpu_alerts: alerting "notify st" CPU_EVENTS "emit_cpu st" "\<lambda>l. by_state CPU_EVENTS l @ '':cpu''" for st
proof unfold_locales
  show "\<exists>x. event x = by_state CPU_EVENTS l \<and> throttle_key (event x) (detail_of x) = by_state CPU_EVENTS l @ '':cpu'' \<and>
      emit_cpu st m l u retry app = notify_event (notify st) m x app" for l m u retry app
    unfolding emit_cpu_def by (intro exI conjI refl) (simp_all add: bucket_eval)
qed (rule resource_windows)

text \<open>
  What may happen in an episode: evaluations of any file system, and notifications from elsewhere (the host metrics,
  the audit tables, the account routes). It is steady while the disk of the episode keeps its path and its
  state, and a delivery task can be created.
\<close>

datatype happening = Disk int string readings real | Notice notify_settings moment notice

fun happen :: "watch_settings \<Rightarrow> happening \<Rightarrow> watchdog \<times> notifier option \<Rightarrow> watchdog \<times> notifier option" where
  "happen st (Disk d p r u) wa = step_filesystem st r d p u wa"
| "happen st (Notice cfg m x) wa = (fst wa, snd (notify_event cfg m x (snd wa)))"

fun moment_of :: "happening \<Rightarrow> moment" where
  "moment_of (Disk d p r u) = at_send r"
| "moment_of (Notice cfg m x) = m"

fun of_disk :: "int \<Rightarrow> happening \<Rightarrow> bool" where
  "of_disk d (Disk d' p r u) \<longleftrightarrow> d = d'"
| "of_disk d (Notice cfg m x) \<longleftrightarrow> False"

fun path_kept :: "string \<Rightarrow> happening \<Rightarrow> bool" where
  "path_kept p (Disk d p' r u) \<longleftrightarrow> p = p'"
| "path_kept p (Notice cfg m x) \<longleftrightarrow> True"

fun steady ::
  "watch_settings \<Rightarrow> int \<Rightarrow> string \<Rightarrow> level \<Rightarrow> real \<Rightarrow> happening list \<Rightarrow> watchdog \<times> notifier option \<Rightarrow> bool" where
  "steady st d p l since [] wa \<longleftrightarrow> True"
| "steady st d p l since (h # hs) wa \<longleftrightarrow>
     loop_running (moment_of h) \<and> since \<le> monotonic (moment_of h) \<and>
     (of_disk d h \<longrightarrow> path_kept p h \<and> state_of (fst (happen st h wa)) (Device d) = l) \<and>
     steady st d p l since hs (happen st h wa)"
abbreviation disk_level :: "watch_settings \<Rightarrow> real \<Rightarrow> level \<Rightarrow> level" where
  "disk_level st u l \<equiv> next_level (disk_watchdog_warn_percent st) (disk_watchdog_critical_percent st) u l"

abbreviation disk_dispatchable :: "watch_settings \<Rightarrow> level \<Rightarrow> bool" where
  "disk_dispatchable st l \<equiv> by_state DISK_EVENTS l \<in> set (notify_events (notify st)) \<and> channels_configured (notify st)"

lemma dispatchable_iff: "event_dispatchable (notify st) (by_state DISK_EVENTS l) (Some n) \<longleftrightarrow> disk_dispatchable st l"
  by (simp add: event_dispatchable_def)

lemma owed_paths [simp]: "disk_alerts.owed p key l since (w\<lparr>disk_paths := ps\<rparr>) n \<longleftrightarrow> disk_alerts.owed p key l since w n"
  by (simp add: disk_alerts.owed_def)

lemma disk_first:
  assumes "disk_dispatchable st l" "loop_running (at_send r)" "state_of w (Device d) \<noteq> l"
    and "state_of (fst (step_filesystem st r d p u (w, Some n))) (Device d) = l"
    and "\<forall>prev. map_of (last_notified n) (disk_bucket p l) = Some prev \<longrightarrow> prev \<le> monotonic (at_send r)"
  shows "\<exists>w' n'. step_filesystem st r d p u (w, Some n) = (w', Some n') \<and> state_of w' (Device d) = l \<and>
    disk_alerts.owed p (Device d) l (monotonic (at_send r)) w' n'"
proof -
  let ?w = "w\<lparr>disk_paths := AList.update (Device d) p (disk_paths w)\<rparr>"
  have "disk_level st u (state_of w (Device d)) = l" using assms by (simp add: state_of_filesystem)
  then obtain w' n' where s: "step_filesystem st r d p u (w, Some n) = (w', Some n')" "disk_alerts.owed p (Device d) l (monotonic (at_send r)) w' n'"
    using disk_alerts.first_evaluation [of st l n r ?w "Device d" u "disk_watchdog_warn_percent st"
        "disk_watchdog_critical_percent st" p] assms
    by (auto simp: dispatchable_iff step_filesystem_def)
  then show ?thesis using assms by auto
qed

lemma disk_later:
  assumes "disk_dispatchable st l" "loop_running (at_send r)" "since \<le> monotonic (at_send r)" "state_of w (Device d) = l"
    and "state_of (fst (step_filesystem st r d p u (w, Some n))) (Device d) = l" "disk_alerts.owed p (Device d) l since w n"
  shows "\<exists>w' n'. step_filesystem st r d p u (w, Some n) = (w', Some n') \<and> state_of w' (Device d) = l \<and>
    disk_alerts.owed p (Device d) l since w' n' \<and>
    (since + 300 \<le> monotonic (at_send r) \<longrightarrow> disk_alerts.landed p l since n')"
proof -
  let ?w = "w\<lparr>disk_paths := AList.update (Device d) p (disk_paths w)\<rparr>"
  have "disk_level st u (state_of w (Device d)) = l" using assms by (simp add: state_of_filesystem)
  then obtain w' n' where s: "step_filesystem st r d p u (w, Some n) = (w', Some n')" "disk_alerts.owed p (Device d) l since w' n'"
      "since + 300 \<le> monotonic (at_send r) \<longrightarrow> disk_alerts.landed p l since n'"
    using disk_alerts.later_evaluation [of st l n r since ?w "Device d" u "disk_watchdog_warn_percent st"
        "disk_watchdog_critical_percent st" p] assms
    by (auto simp: dispatchable_iff step_filesystem_def)
  then show ?thesis using assms by auto
qed

lemma disk_other:
  assumes "c \<noteq> d" "loop_running (at_send r)" "since \<le> monotonic (at_send r)" "disk_alerts.owed p (Device d) l since w n"
  shows "\<exists>w' n'. step_filesystem st r c q u (w, Some n) = (w', Some n') \<and> state_of w' (Device d) = state_of w (Device d) \<and>
    disk_alerts.owed p (Device d) l since w' n'"
proof -
  let ?w = "w\<lparr>disk_paths := AList.update (Device c) q (disk_paths w)\<rparr>"
  obtain w' n' x where s: "step_filesystem st r c q u (w, Some n) = (w', Some n')"
      "n' = n \<or> n' = snd (notify_admins (notify st) (at_send r) x n)"
      "\<forall>k. k \<noteq> Device c \<longrightarrow> map_of (pending w') k = map_of (pending w) k"
    using disk_alerts.evaluation_notifies [of st r "Device c" u "disk_watchdog_warn_percent st"
        "disk_watchdog_critical_percent st" "at_send r" q ?w n]
    by (auto simp: step_filesystem_def)
  have "disk_alerts.owed p (Device d) l since w n'"
    using s(2) assms(4) disk_alerts.owed_elsewhere [OF assms(4,2,3)] by auto
  then have "disk_alerts.owed p (Device d) l since w' n'" using s(3) assms(1) by (simp add: disk_alerts.owed_def)
  then show ?thesis using s(1) state_of_filesystem [of st r c q u w "Some n" "Device d"] assms(1) by simp
qed

lemma steady_owed:
  assumes "disk_dispatchable st l" "steady st d p l since hs (w, Some n)" "state_of w (Device d) = l"
    "disk_alerts.owed p (Device d) l since w n"
  shows "\<exists>w' n'. fold (happen st) hs (w, Some n) = (w', Some n') \<and> state_of w' (Device d) = l \<and>
    disk_alerts.owed p (Device d) l since w' n'"
  using assms(2-)
proof (induction hs arbitrary: w n)
  case (Cons h hs)
  have "\<exists>w' n'. happen st h (w, Some n) = (w', Some n') \<and> state_of w' (Device d) = l \<and> disk_alerts.owed p (Device d) l since w' n'"
  proof (cases h)
    case (Disk c q r u)
    then show ?thesis using Cons.prems disk_later [OF assms(1), of r since w d p u n] disk_other [of c d r since p l w n st q u]
      by (cases "c = d") auto
  next
    case (Notice cfg m x)
    then show ?thesis using Cons.prems disk_alerts.owed_elsewhere [of p "Device d" l since w n m cfg x]
      by (auto simp: notify_event_def case_prod_unfold)
  qed
  with Cons show ?case by auto
qed simp

text \<open>
  (C24) An alert is late at worst, never lost. A file system changes its state - to degraded or to recovered -
  and stays there; the event is one the operator wants, and a channel exists. Then the first evaluation five
  minutes later, or any after it, finds that a notification of this event for this path was dispatched
  since the change: even if the change fell into the window of an earlier episode, and whatever else was
  evaluated and notified meanwhile.
\<close>

theorem episode_alert_lands:
  assumes "disk_dispatchable st l" "loop_running (at_send r)" "state_of w (Device d) \<noteq> l"
    and "state_of (fst (step_filesystem st r d p u (w, Some n))) (Device d) = l"
    and "\<forall>prev. map_of (last_notified n) (disk_bucket p l) = Some prev \<longrightarrow> prev \<le> monotonic (at_send r)"
    and "steady st d p l (monotonic (at_send r)) (hs @ [Disk d p r' u']) (step_filesystem st r d p u (w, Some n))"
    and "monotonic (at_send r) + 300 \<le> monotonic (at_send r')"
  shows "\<exists>n'. snd (fold (happen st) (hs @ [Disk d p r' u']) (step_filesystem st r d p u (w, Some n))) = Some n' \<and>
    (\<exists>x\<in>set (deliveries n'). bucket x = disk_bucket p l \<and> monotonic (at_send r) \<le> dispatched_at x)"
proof -
  let ?since = "monotonic (at_send r)"
  have split: "steady st d p l since (xs @ ys) wa \<longleftrightarrow> steady st d p l since xs wa \<and> steady st d p l since ys (fold (happen st) xs wa)"
    for since xs ys wa
    by (induction xs arbitrary: wa) auto
  obtain w1 n1 where 1: "step_filesystem st r d p u (w, Some n) = (w1, Some n1)" "state_of w1 (Device d) = l"
      "disk_alerts.owed p (Device d) l ?since w1 n1"
    using disk_first [OF assms(1-5)] by blast
  have "steady st d p l ?since hs (w1, Some n1)" using assms(6) unfolding 1(1) split by simp
  then obtain w2 n2 where 2: "fold (happen st) hs (w1, Some n1) = (w2, Some n2)" "state_of w2 (Device d) = l"
      "disk_alerts.owed p (Device d) l ?since w2 n2"
    using steady_owed [OF assms(1) _ 1(2,3)] by blast
  have "loop_running (at_send r')" "?since \<le> monotonic (at_send r')"
      "state_of (fst (step_filesystem st r' d p u' (w2, Some n2))) (Device d) = l"
    using assms(6) unfolding 1(1) split 2(1) by simp_all
  from disk_later [OF assms(1) this(1,2) 2(2) this(3) 2(3)] show ?thesis
    using assms(7) by (auto simp: 1(1) 2(1) disk_alerts.landed_def)
qed
section \<open>Instances\<close>

definition default_watch :: watch_settings where
  "default_watch =
     \<lparr>notify = \<lparr>admin_notification_emails = Some [''a@b''], admin_notification_webhook_url = None, admin_notify_events = None\<rparr>,
      resource_watchdog_enabled = True, resource_watchdog_poll_interval = 60,
      disk_watchdog_warn_percent = 75, disk_watchdog_critical_percent = 90,
      memory_watchdog_enabled = True, memory_watchdog_warn_percent = 80, memory_watchdog_critical_percent = 90,
      cpu_watchdog_enabled = True, cpu_watchdog_warn_percent = 30, cpu_watchdog_critical_percent = 60,
      data_dir = ''/data'', state_dir = ''/state'', disk_watchdog_paths = None\<rparr>"

definition reading_at :: "real \<Rightarrow> readings" where
  "reading_at t = \<lparr>at_due = t, at_stamp = t, at_send = \<lparr>monotonic = t, wall_clock = '''', loop_running = True\<rparr>, at_done = t\<rparr>"

lemma default_level:
  "next_level 75 90 u l = (if u \<ge> 90 \<or> (l = CRITICAL \<and> u > 85) then CRITICAL else if u \<ge> 75 then WARN else if u \<le> 70 then OK else l)"
  by (simp add: classify_def classify_below_critical_def RECOVERY_GAP_PERCENT_def)

lemmas watch_eval = default_watch_def reading_at_def init_watchdog_def state_of_def

theorem hovering_usage_settles_witness:
  "level_changes default_watch 1 [(reading_at 0, ''/data'', 74), (reading_at 60, ''/data'', 76), (reading_at 120, ''/data'', 73)]
     (init_watchdog default_watch, None) \<le> 2"
  by (rule hovering_usage_settles [where lo = 73 and hi = 76])
    (simp_all add: watchdog_thresholds_ok_def RECOVERY_GAP_PERCENT_def default_watch_def)

lemma default_disk_step:
  "watch_step\<^sup>*\<^sup>* (init_watchdog default_watch, None)
     (check_disk default_watch (\<lambda>_. reading_at 0) (dedup_filesystems [(1, ''/data'', 80)]) (init_watchdog default_watch, None))"
  by (rule r_into_rtranclp [of watch_step, OF watch_step.disk])

lemma default_dedup: "dedup_filesystems [(1, p, u)] = [(1, p, u)]"
  by (simp add: dedup_filesystems_def)

lemma default_disk_state:
  "state_of (fst (check_disk default_watch clock [(1, p, 80)] (init_watchdog default_watch, app))) (Device 1) = WARN"
  "map_of (last_usage (fst (check_disk default_watch clock [(1, p, 80)] (init_watchdog default_watch, app)))) (Device 1) = Some 80"
  by (simp_all add: check_disk_def state_of_filesystem step_filesystem_rows)
    (simp add: default_watch_def default_level)


theorem rows_mirror_last_pass_witness:
  "\<exists>rows. disk_rows (fst (check_disk default_watch (\<lambda>_. reading_at 0) (dedup_filesystems [(1, ''/data'', 80), (1, ''/state'', 80)])
      (init_watchdog default_watch, None))) = Some rows \<and> row_path ` set rows = {''/data''}"
proof -
  have "watch_init (init_watchdog default_watch, None)" by (auto simp: watch_init_def)
  from rows_mirror_last_pass [OF this rtranclp.rtrancl_refl] obtain rows where
    "disk_rows (fst (check_disk default_watch (\<lambda>_. reading_at 0) (dedup_filesystems [(1, ''/data'', 80), (1, ''/state'', 80)])
      (init_watchdog default_watch, None))) = Some rows"
    "set rows = {\<lparr>row_path = p, row_usage = round1 u,
      row_state = state_of (fst (check_disk default_watch (\<lambda>_. reading_at 0)
        (dedup_filesystems [(1, ''/data'', 80), (1, ''/state'', 80)]) (init_watchdog default_watch, None))) (Device d)\<rparr> | d p u.
        (d, p, u) \<in> set (dedup_filesystems [(1, ''/data'', 80), (1, ''/state'', 80)])}"
    by blast
  moreover have "dedup_filesystems [(1, ''/data'', 80), (1, ''/state'', 80)] = [(1, ''/data'', 80)]"
    by (simp add: dedup_filesystems_def)
  ultimately show ?thesis by (intro exI [of _ rows]) auto
qed

text \<open>A change that falls into the window of an earlier alert, sent a hundred seconds before.\<close>

definition throttled_notifier :: notifier where
  "throttled_notifier = \<lparr>last_notified = [(''resource.disk.warn:/data'', 900)], deliveries = []\<rparr>"

theorem episode_alert_lands_witness:
  "\<exists>n'. snd (fold (happen default_watch) ([] @ [Disk 1 ''/data'' (reading_at 1300) 80])
      (step_filesystem default_watch (reading_at 1000) 1 ''/data'' 80 (init_watchdog default_watch, Some throttled_notifier))) = Some n' \<and>
    (\<exists>x. x \<in> set (deliveries n') \<and> bucket x = ''resource.disk.warn:/data'' \<and> 1000 \<le> dispatched_at x)"
proof -
  have b: "disk_bucket ''/data'' WARN = ''resource.disk.warn:/data''"
    by (simp add: disk_bucket_def by_state_def DISK_EVENTS_def)
  have s: "state_of (init_watchdog default_watch) (Device 1) = OK" by (simp add: watch_eval)
  have disp: "by_state DISK_EVENTS WARN \<in> set (notify_events (notify default_watch)) \<and> channels_configured (notify default_watch)"
    by (simp add: default_watch_def by_state_def DISK_EVENTS_def notify_events_def DEFAULT_NOTIFY_EVENTS_def channels_configured_def
        recipients_def)
  have lev: "state_of (fst (step_filesystem default_watch r 1 ''/data'' 80 wa)) (Device 1) = WARN"
    if "state_of (fst wa) (Device 1) \<noteq> CRITICAL" for r wa
    using that by (cases wa) (simp add: state_of_filesystem, simp add: default_watch_def default_level)
  have "steady default_watch 1 ''/data'' WARN (monotonic (at_send (reading_at 1000))) ([] @ [Disk 1 ''/data'' (reading_at 1300) 80])
      (step_filesystem default_watch (reading_at 1000) 1 ''/data'' 80 (init_watchdog default_watch, Some throttled_notifier))"
    by (simp add: lev s) (simp add: reading_at_def)
  from episode_alert_lands [OF disp _ _ _ _ this] show ?thesis
    by (auto simp: lev s b reading_at_def throttled_notifier_def)
qed

text \<open>
  The rows keep the order in which the devices were first measured, not that of the last pass: a data directory
  that was not measurable at first comes last.
\<close>

lemma rows_in_first_order:
  "map_option (map row_path) (disk_rows (fst (check_disk default_watch (\<lambda>_. reading_at 60) [(1, ''/data'', 50), (2, ''/state'', 50)]
     (check_disk default_watch (\<lambda>_. reading_at 0) [(2, ''/state'', 50)] (init_watchdog default_watch, None))))) =
   Some [''/state'', ''/data'']"
  by (simp add: check_disk_def step_filesystem_def step_threshold_def retry_pending_def prune_disk_rows_def watch_eval default_level
      refresh_due_def disk_rows_def Let_def)


end
