(* ===== verification/Health.thy ===== *)
theory Health
  imports Container_Registry
begin

text \<open>
  Service health: \<open>klangk/container/health.py\<close> with the frames of \<open>klangk/wshandler/session.py\<close>. A loop probes the
  workspaces one after the other and tells the clients about transitions; a dying container gets a terminal
  frame; a client that connects gets the current states replayed. Between the loop's choice of a workspace and
  the result of its probe the container may die or be replaced, so a state is an object with an identity.
  Running the probe is podman's; the sockets are output.
\<close>

section \<open>One probe\<close>

definition SHARED_HOME :: string where "SHARED_HOME = ''/home/klangk''"

definition HEALTH_MESSAGE_MAX_BYTES :: nat where "HEALTH_MESSAGE_MAX_BYTES = 512"

datatype status = Healthy | Unhealthy

definition trimmed_body :: "string \<Rightarrow> string \<Rightarrow> string" where
  "trimmed_body err out = (if strip err \<noteq> [] then strip err else strip out)"

definition unhealthy_message :: "int \<Rightarrow> string \<Rightarrow> string \<Rightarrow> string" where
  "unhealthy_message rc out err =
     (let body = trimmed_body err out;
          body = (if length body > HEALTH_MESSAGE_MAX_BYTES
                  then ''...'' @ drop (length body - HEALTH_MESSAGE_MAX_BYTES) body else body)
      in if body \<noteq> [] then ''exited '' @ str_int rc @ '': '' @ body else ''exited '' @ str_int rc)"

record probe =
  workspace_id :: string
  base :: container_state
  health_status :: "status option"
  health_checked_at :: "real option"
  health_message :: "string option"
  health_seq :: int

text \<open>\<open>ContainerState.__init__\<close>, and the metadata refreshed by every start.\<close>

definition new_probe :: "real \<Rightarrow> string \<Rightarrow> string \<Rightarrow> probe" where
  "new_probe now ws cid =
     \<lparr>workspace_id = ws, base = new_state now cid, health_status = None, health_checked_at = None, health_message = None,
      health_seq = 0\<rparr>"

definition track_probe :: "real \<Rightarrow> string \<Rightarrow> track_metadata \<Rightarrow> probe \<Rightarrow> probe" where
  "track_probe now cid m p = p\<lparr>base := apply_track_metadata m ((base p)\<lparr>container_id := cid, last_activity := now\<rparr>)\<rparr>"

text \<open>
  The home of the probe: \<open>handle\<close> is the owner's, \<open>home\<close> what \<open>ensure_home_symlink\<close> returns for it. \<open>Inl\<close> is a failure.
\<close>

definition resolve_check_home :: "string option \<Rightarrow> string \<Rightarrow> probe \<Rightarrow> string + string" where
  "resolve_check_home handle home p =
     (case owner_id (base p) of
        None \<Rightarrow> Inl ''no owner recorded for workspace''
      | Some owner \<Rightarrow>
          (if per_handle_home (base p)
           then (if handle = None \<or> handle = Some [] then Inl (''owner '' @ owner @ '' has no handle'') else Inr home)
           else Inr SHARED_HOME))"

text \<open>The outcome of \<open>podman exec\<close> in that home: an exit code with the outputs, or an exception with its text.\<close>

datatype exec_result = Exited int string string | Raised string string

definition run_one :: "string option \<Rightarrow> string \<Rightarrow> (string \<Rightarrow> exec_result) \<Rightarrow> probe \<Rightarrow> status \<times> string" where
  "run_one handle home exec p =
     (case resolve_check_home handle home p of
        Inl failure \<Rightarrow> (Unhealthy, failure)
      | Inr user_home \<Rightarrow>
          (case exec user_home of
             Raised name text \<Rightarrow> (Unhealthy, name @ '': '' @ text)
           | Exited rc out err \<Rightarrow> (if rc = 0 then (Healthy, []) else (Unhealthy, unhealthy_message rc out err))))"

definition setup_complete :: "probe \<Rightarrow> bool" where
  "setup_complete p \<longleftrightarrow> setup_state (base p) = Some ''complete''"

definition eligible_for_check :: "probe \<Rightarrow> bool" where
  "eligible_for_check p \<longleftrightarrow> health_check (base p) \<noteq> None \<and> health_check (base p) \<noteq> Some [] \<and> setup_complete p"

definition in_startup_grace :: "real \<Rightarrow> real \<Rightarrow> probe \<Rightarrow> bool" where
  "in_startup_grace grace now p \<longleftrightarrow> now - service_started_at (base p) < grace"

definition within_startup_grace :: "real \<Rightarrow> real \<Rightarrow> probe \<Rightarrow> status \<Rightarrow> bool" where
  "within_startup_grace grace now p st \<longleftrightarrow> st = Unhealthy \<and> in_startup_grace grace now p"

section \<open>Frames\<close>

record frame =
  f_workspace_id :: string
  f_healthy :: bool
  f_message :: "string option"
  f_running :: bool
  f_checked_at :: "real option"
  f_seq :: int

definition service_health_frame :: "probe \<Rightarrow> bool \<Rightarrow> string option \<Rightarrow> bool \<Rightarrow> frame" where
  "service_health_frame p healthy message running =
     \<lparr>f_workspace_id = workspace_id p, f_healthy = healthy, f_message = message, f_running = running,
      f_checked_at = health_checked_at p, f_seq = health_seq p\<rparr>"

text \<open>
  The state objects, the registry's view of them, what the loop has still to visit and is probing, and the
  frames handed to the clients, each with the object it is about.
\<close>

record health_world =
  probes :: "nat \<Rightarrow> probe option"
  live :: "(string, nat) dict"
  todo :: "nat list"
  probing :: "nat option"
  frames :: "(nat \<times> frame) list"

definition init_health :: health_world where
  "init_health = \<lparr>probes = (\<lambda>_. None), live = [], todo = [], probing = None, frames = []\<rparr>"

definition update_probe :: "nat \<Rightarrow> (probe \<Rightarrow> probe) \<Rightarrow> health_world \<Rightarrow> health_world" where
  "update_probe i f s = (case probes s i of None \<Rightarrow> s | Some p \<Rightarrow> s\<lparr>probes := (probes s)(i \<mapsto> f p)\<rparr>)"

definition emit :: "nat \<Rightarrow> bool \<Rightarrow> string option \<Rightarrow> bool \<Rightarrow> health_world \<Rightarrow> health_world" where
  "emit i healthy message running s =
     (case probes s i of
        None \<Rightarrow> s
      | Some p \<Rightarrow>
          (let p = p\<lparr>health_seq := health_seq p + 1\<rparr>
           in s\<lparr>probes := (probes s)(i \<mapsto> p), frames := frames s @ [(i, service_health_frame p healthy message running)]\<rparr>))"

definition broadcast :: "nat \<Rightarrow> status \<Rightarrow> string option \<Rightarrow> health_world \<Rightarrow> health_world" where
  "broadcast i st message s = emit i (st = Healthy) message True s"

definition broadcast_death :: "nat \<Rightarrow> string option \<Rightarrow> health_world \<Rightarrow> health_world" where
  "broadcast_death i message s = emit i False message False s"

text \<open>\<open>_check_workspace\<close> after its probe; the clock is read for the grace window and for the stamp.\<close>

definition check_workspace :: "real \<Rightarrow> real \<Rightarrow> real \<Rightarrow> nat \<Rightarrow> status \<times> string \<Rightarrow> health_world \<Rightarrow> health_world" where
  "check_workspace grace now later i result s =
     (case probes s i of
        None \<Rightarrow> s
      | Some p \<Rightarrow>
          (case result of (st, message) \<Rightarrow>
             (if within_startup_grace grace now p st then s
              else (let old = health_status p;
                        p = p\<lparr>health_status := Some st, health_message := (if st = Unhealthy then Some message else None),
                              health_checked_at := Some later\<rparr>;
                        s = s\<lparr>probes := (probes s)(i \<mapsto> p)\<rparr>
                    in if Some st \<noteq> old then broadcast i st (health_message p) s else s))))"

text \<open>\<open>notify_workspace_killed\<close> on the stream: the workspace's state, unless it is re-bound to another container.\<close>

definition broadcast_service_death :: "string \<Rightarrow> string option \<Rightarrow> string option \<Rightarrow> health_world \<Rightarrow> health_world" where
  "broadcast_service_death ws cid cause s =
     (case Option.bind (map_of (live s) ws) (\<lambda>i. map_option (Pair i) (probes s i)) of
        None \<Rightarrow> s
      | Some (i, p) \<Rightarrow>
          (if cid \<noteq> None \<and> cid \<noteq> Some (container_id (base p)) then s
           else if health_check (base p) \<noteq> None then broadcast_death i cause s
           else s))"

definition reset_health_probe :: "string \<Rightarrow> probe \<Rightarrow> probe" where
  "reset_health_probe cmd p =
     p\<lparr>base := (base p)\<lparr>health_check := (if cmd = [] then None else Some cmd)\<rparr>, health_status := None,
       health_checked_at := None, health_message := None\<rparr>"

definition apply_live_state_updates :: "string option option \<Rightarrow> string option \<Rightarrow> probe \<Rightarrow> probe" where
  "apply_live_state_updates setup cmd p =
     (let p = (case setup of None \<Rightarrow> p | Some v \<Rightarrow> p\<lparr>base := (base p)\<lparr>setup_state := v\<rparr>\<rparr>)
      in case cmd of None \<Rightarrow> p | Some c \<Rightarrow> reset_health_probe c p)"

section \<open>The replay for a client that connects\<close>

definition health_candidates :: "health_world \<Rightarrow> (nat \<times> int) list" where
  "health_candidates s =
     List.map_filter (\<lambda>(_, i). case probes s i of
        Some p \<Rightarrow> if health_check (base p) \<noteq> None \<and> health_status p \<noteq> None then Some (i, health_seq p) else None
      | None \<Rightarrow> None) (live s)"

text \<open>The frame replayed for one candidate, after the permission lookup; \<open>None\<close> where it is skipped.\<close>

definition replay_service_health :: "string set \<Rightarrow> nat \<times> int \<Rightarrow> health_world \<Rightarrow> frame option" where
  "replay_service_health allowed c s =
     (case c of (i, seq) \<Rightarrow>
        (case probes s i of
           None \<Rightarrow> None
         | Some p \<Rightarrow>
             (if ''/workspaces/'' @ workspace_id p \<notin> allowed then None
              else if map_of (live s) (workspace_id p) \<noteq> Some i then None
              else if health_seq p \<noteq> seq then None
              else Some (service_health_frame p (health_status p = Some Healthy) (health_message p) True))))"

section \<open>Runs\<close>

text \<open>
  The loop takes the states of the registry, then one after the other: a state that is not eligible is
  passed over, otherwise its probe runs, and ends with a result or an unexpected exception. Meanwhile workspaces start,
  are edited, die and are removed.
\<close>

datatype health_event =
    Tracked nat real string string track_metadata
  | Service_Started string real
  | Edited string "string option option" "string option"
  | Sweep
  | Next
  | Checked real real real status string
  | Check_Raised
  | Died string "string option" "string option"
  | Removed string

fun health_happens :: "health_event \<Rightarrow> health_world \<Rightarrow> health_world option" where
  "health_happens (Tracked i now ws cid m) s =
     (case map_of (live s) ws of
        Some j \<Rightarrow> Some (update_probe j (track_probe now cid m) s)
      | None \<Rightarrow>
          (if probes s i = None
           then Some (s\<lparr>probes := (probes s)(i \<mapsto> track_probe now cid m (new_probe now ws cid)),
                        live := AList.update ws i (live s)\<rparr>)
           else None))"
| "health_happens (Service_Started ws now) s =
     (case map_of (live s) ws of
        None \<Rightarrow> Some s
      | Some i \<Rightarrow> Some (update_probe i (\<lambda>p. p\<lparr>base := (base p)\<lparr>service_started_at := now\<rparr>\<rparr>) s))"
| "health_happens (Edited ws setup cmd) s =
     (case map_of (live s) ws of
        None \<Rightarrow> Some s
      | Some i \<Rightarrow> Some (update_probe i (apply_live_state_updates setup cmd) s))"
| "health_happens Sweep s =
     (if todo s = [] \<and> probing s = None then Some (s\<lparr>todo := map snd (live s)\<rparr>) else None)"
| "health_happens Next s =
     (case (probing s, todo s) of
        (None, i # is) \<Rightarrow>
          Some (s\<lparr>todo := is, probing :=
             (case probes s i of Some p \<Rightarrow> if eligible_for_check p then Some i else None | None \<Rightarrow> None)\<rparr>)
      | _ \<Rightarrow> None)"
| "health_happens (Checked grace now later st message) s =
     (case probing s of
        None \<Rightarrow> None
      | Some i \<Rightarrow> Some ((check_workspace grace now later i (st, message) s)\<lparr>probing := None\<rparr>))"
| "health_happens Check_Raised s = (if probing s = None then None else Some (s\<lparr>probing := None\<rparr>))"
| "health_happens (Died ws cid cause) s = Some (broadcast_service_death ws cid cause s)"
| "health_happens (Removed ws) s = Some (s\<lparr>live := AList.delete ws (live s)\<rparr>)"

inductive health_step :: "health_world \<Rightarrow> health_world \<Rightarrow> bool" where
  "health_happens e s = Some s' \<Longrightarrow> health_step s s'"

fun run_health :: "health_event list \<Rightarrow> health_world \<Rightarrow> health_world option" where
  "run_health [] s = Some s"
| "run_health (e # es) s = (case health_happens e s of None \<Rightarrow> None | Some s \<Rightarrow> run_health es s)"

lemma run_health_steps: "run_health es s = Some s' \<Longrightarrow> health_step\<^sup>*\<^sup>* s s'"
  by (induction es s rule: run_health.induct)
    (auto split: option.splits intro: converse_rtranclp_into_rtranclp health_step.intros)
section \<open>What the stream says\<close>

definition frames_of :: "nat \<Rightarrow> health_world \<Rightarrow> frame list" where
  "frames_of i s = map snd (filter (\<lambda>(j, _). j = i) (frames s))"

definition last_live :: "nat \<Rightarrow> health_world \<Rightarrow> frame option" where
  "last_live i s = (case rev (filter f_running (frames_of i s)) of [] \<Rightarrow> None | f # _ \<Rightarrow> Some f)"

text \<open>The frames about a state are numbered without a gap, and the last about the running service tells its status.\<close>

definition stream_ok :: "frame list \<Rightarrow> probe \<Rightarrow> bool" where
  "stream_ok fs p \<longleftrightarrow> map f_seq fs = map int [1..<Suc (length fs)] \<and> health_seq p = int (length fs) \<and>
     (\<forall>st. health_status p = Some st \<longrightarrow>
        (\<exists>f fs'. filter f_running fs = fs' @ [f] \<and> (f_healthy f \<longleftrightarrow> st = Healthy)))"

definition health_inv :: "health_world \<Rightarrow> bool" where
  "health_inv s \<longleftrightarrow>
     (\<forall>i. probes s i = None \<longrightarrow> frames_of i s = []) \<and> (\<forall>i p. probes s i = Some p \<longrightarrow> stream_ok (frames_of i s) p) \<and>
     (\<forall>ws i. map_of (live s) ws = Some i \<longrightarrow> (\<exists>p. probes s i = Some p \<and> workspace_id p = ws))"

lemma frames_of_fields [simp]:
  "frames_of i (s\<lparr>probes := ps\<rparr>) = frames_of i s" "frames_of i (s\<lparr>live := l\<rparr>) = frames_of i s"
  "frames_of i (s\<lparr>todo := t\<rparr>) = frames_of i s" "frames_of i (s\<lparr>probing := c\<rparr>) = frames_of i s"
  by (simp_all add: frames_of_def)

lemma health_inv_fields [simp]:
  "health_inv (s\<lparr>todo := t\<rparr>) \<longleftrightarrow> health_inv s" "health_inv (s\<lparr>probing := c\<rparr>) \<longleftrightarrow> health_inv s"
  by (simp_all add: health_inv_def)

text \<open>An object changed in place, with its frames.\<close>

lemma health_inv_replace:
  assumes "health_inv s" "probes s i = Some p" "workspace_id p' = workspace_id p" "live s' = live s"
    and "probes s' = (probes s)(i \<mapsto> p')" "\<And>j. j \<noteq> i \<Longrightarrow> frames_of j s' = frames_of j s" "stream_ok (frames_of i s') p'"
  shows "health_inv s'"
  unfolding health_inv_def
proof (intro conjI allI impI)
  show "frames_of j s' = []" if "probes s' j = None" for j
    using that assms(1,5) assms(6) [of j] by (auto simp: health_inv_def split: if_splits)
  show "stream_ok (frames_of j s') q" if "probes s' j = Some q" for j q
    using that assms(1,5,7) assms(6) [of j] by (auto simp: health_inv_def split: if_splits)
  show "\<exists>q. probes s' j = Some q \<and> workspace_id q = ws" if "map_of (live s') ws = Some j" for ws j
  proof -
    have "\<exists>q. probes s j = Some q \<and> workspace_id q = ws" using that assms(1,4) by (simp add: health_inv_def)
    then show ?thesis using assms(2,3,5) by (cases "j = i") auto
  qed
qed

lemma frames_of_snoc: "frames s' = frames s @ [(i, f)] \<Longrightarrow> frames_of j s' = (if j = i then frames_of i s @ [f] else frames_of j s)"
  by (simp add: frames_of_def)

text \<open>A frame about an object whose fields were just written; \<open>h\<close> is the status before.\<close>

lemma emit_ok:
  assumes "health_inv s" "probes s i = Some p" "workspace_id q = workspace_id p"
    and "stream_ok (frames_of i s) (q\<lparr>health_status := h\<rparr>)"
    and "\<And>st. health_status q = Some st \<Longrightarrow> if running then healthy \<longleftrightarrow> st = Healthy else h = Some st"
  shows "health_inv (emit i healthy message running (s\<lparr>probes := (probes s)(i \<mapsto> q)\<rparr>))"
proof -
  let ?q = "q\<lparr>health_seq := health_seq q + 1\<rparr>" let ?f = "service_health_frame ?q healthy message running"
  have e: "emit i healthy message running (s\<lparr>probes := (probes s)(i \<mapsto> q)\<rparr>) =
      s\<lparr>probes := (probes s)(i \<mapsto> ?q), frames := frames s @ [(i, ?f)]\<rparr>"
    by (simp add: emit_def Let_def)
  have "stream_ok (frames_of i s @ [?f]) ?q"
    using assms(4,5) unfolding stream_ok_def by (auto simp: service_health_frame_def)
  then show ?thesis unfolding e
    by (intro health_inv_replace [OF assms(1,2)]) (simp_all add: frames_of_def assms(3))
qed

lemma stream_ok_cong:
  "stream_ok fs p \<Longrightarrow> health_seq q = health_seq p \<Longrightarrow> health_status q = health_status p \<Longrightarrow> stream_ok fs q"
  by (simp add: stream_ok_def)

lemma check_workspace_ok:
  assumes "health_inv s"
  shows "health_inv (check_workspace grace now later i result s)"
proof (cases "probes s i")
  case (Some p)
  obtain st message where r: "result = (st, message)" by fastforce
  let ?q = "p\<lparr>health_status := Some st, health_message := (if st = Unhealthy then Some message else None), health_checked_at := Some later\<rparr>"
  have ok: "stream_ok (frames_of i s) p" using assms Some by (simp add: health_inv_def)
  then have old: "stream_ok (frames_of i s) (?q\<lparr>health_status := health_status p\<rparr>)" by (rule stream_ok_cong) simp_all
  show ?thesis
  proof (cases "within_startup_grace grace now p st \<or> Some st = health_status p")
    case True
    have "health_inv (s\<lparr>probes := (probes s)(i \<mapsto> ?q)\<rparr>)" if "Some st = health_status p"
      by (rule health_inv_replace [OF assms Some])
        (use that stream_ok_cong [OF ok, of ?q] in \<open>simp_all del: if_split\<close>)
    then show ?thesis using True assms by (auto simp: check_workspace_def Some r Let_def)
  next
    case False
    have "health_inv (emit i (st = Healthy) (health_message ?q) True (s\<lparr>probes := (probes s)(i \<mapsto> ?q)\<rparr>))"
      by (rule emit_ok [OF assms Some _ old]) simp_all
    then show ?thesis using False by (auto simp: check_workspace_def Some r Let_def broadcast_def)
  qed
qed (use assms in \<open>simp add: check_workspace_def\<close>)

lemma broadcast_service_death_ok:
  assumes "health_inv s"
  shows "health_inv (broadcast_service_death ws cid cause s)"
proof -
  have "health_inv (emit i False cause False s)" if p: "probes s i = Some p" for i p
  proof -
    have "stream_ok (frames_of i s) (p\<lparr>health_status := health_status p\<rparr>)" using assms p by (simp add: health_inv_def)
    from emit_ok [OF assms p refl this, of False False cause] show ?thesis by (simp add: fun_upd_idem p)
  qed
  then show ?thesis
    using assms by (auto simp: broadcast_service_death_def broadcast_death_def Option.bind_eq_Some_conv split: option.split)
qed

lemma update_probe_ok:
  assumes "health_inv s" "\<And>p. workspace_id (f p) = workspace_id p" "\<And>p. health_seq (f p) = health_seq p"
    and "\<And>p. health_status (f p) = None \<or> health_status (f p) = health_status p"
  shows "health_inv (update_probe i f s)"
proof (cases "probes s i")
  case (Some p)
  then have "stream_ok (frames_of i s) (f p)"
    using assms(1,3) assms(4) [of p] by (auto simp: health_inv_def stream_ok_def)
  then have "health_inv (s\<lparr>probes := (probes s)(i \<mapsto> f p)\<rparr>)"
    by (intro health_inv_replace [OF assms(1) Some]) (simp_all add: assms(2))
  then show ?thesis by (simp add: update_probe_def Some)
qed (use assms(1) in \<open>simp add: update_probe_def\<close>)

lemma health_step_inv:
  assumes "health_step s s'" "health_inv s"
  shows "health_inv s'"
proof -
  obtain e where "health_happens e s = Some s'" using assms(1) by (auto elim: health_step.cases)
  then show ?thesis
  proof (cases e)
    case (Tracked i now ws cid m)
    show ?thesis
    proof (cases "map_of (live s) ws")
      case None
      let ?p = "track_probe now cid m (new_probe now ws cid)"
      have new: "probes s i = None" and s': "s' = s\<lparr>probes := (probes s)(i \<mapsto> ?p), live := AList.update ws i (live s)\<rparr>"
        using \<open>health_happens e s = Some s'\<close> Tracked None by (auto split: if_splits)
      have "frames_of i s = []" using assms(2) new by (simp add: health_inv_def)
      then have ok: "stream_ok (frames_of i s) ?p" by (simp add: stream_ok_def track_probe_def new_probe_def)
      have known: "\<exists>q. probes s j = Some q \<and> workspace_id q = v" if "map_of (live s) v = Some j" for v j
        using assms(2) that by (simp add: health_inv_def)
      show ?thesis unfolding health_inv_def
      proof (intro conjI allI impI)
        show "frames_of j s' = []" if "probes s' j = None" for j
          using that assms(2) by (auto simp: s' health_inv_def split: if_splits)
        show "stream_ok (frames_of j s') q" if "probes s' j = Some q" for j q
          using that assms(2) ok by (auto simp: s' health_inv_def split: if_splits)
        show "\<exists>q. probes s' j = Some q \<and> workspace_id q = v" if "map_of (live s') v = Some j" for v j
          using that known [of v j] new
          by (cases "v = ws") (auto simp: s' map_of_dict_update track_probe_def new_probe_def)
      qed
    next
      case (Some j)
      then show ?thesis using \<open>health_happens e s = Some s'\<close> Tracked update_probe_ok [OF assms(2), of "track_probe now cid m" j]
        by (simp add: track_probe_def)
    qed
  next
    case (Removed ws)
    then have s': "s' = s\<lparr>live := AList.delete ws (live s)\<rparr>" using \<open>health_happens e s = Some s'\<close> by simp
    have "map_of (live s) v = Some j" if "map_of (live s') v = Some j" for v j
      using that by (simp add: s' map_of_dict_delete split: if_splits)
    then show ?thesis using assms(2) by (simp add: health_inv_def s')
  qed (use assms(2) in \<open>auto intro!: update_probe_ok check_workspace_ok broadcast_service_death_ok
      simp: apply_live_state_updates_def reset_health_probe_def Let_def split: option.splits if_splits list.splits\<close>)
qed

lemma init_health_inv: "health_inv init_health"
  by (simp add: init_health_def health_inv_def frames_of_def)

interpretation stream: step_invariant health_step "\<lambda>s. s = init_health" health_inv
  by unfold_locales (simp add: init_health_inv, rule health_step_inv)


text \<open>Frames are never withdrawn, and each costs a number.\<close>

lemma emit_appends: "\<exists>fs. frames_of j (emit i healthy message running s) = frames_of j s @ fs"
  by (auto simp: emit_def Let_def frames_of_def split: option.split)

lemma check_workspace_grows: "\<exists>fs. frames_of j (check_workspace grace now later i r s) = frames_of j s @ fs"
  by (auto simp: check_workspace_def broadcast_def emit_def Let_def frames_of_def split: option.split prod.split)

lemma step_grows: "health_step s s' \<Longrightarrow> \<exists>fs. frames_of j s' = frames_of j s @ fs"
proof (induction rule: health_step.induct)
  case (1 e s s')
  then show ?case using emit_appends [of j] check_workspace_grows [of j]
    by (cases e) (auto simp: update_probe_def broadcast_service_death_def broadcast_death_def split: option.splits if_splits list.splits)
qed

lemma run_grows: "health_step\<^sup>*\<^sup>* s s' \<Longrightarrow> \<exists>fs. frames_of j s' = frames_of j s @ fs"
  by (induction rule: rtranclp_induct) (auto dest: step_grows [of _ _ j])

lemma in_map_filter: "y \<in> set (List.map_filter f xs) \<longleftrightarrow> (\<exists>x\<in>set xs. f x = Some y)"
  by (induction xs) (auto simp: map_filter_simps split: option.split)

lemma seq_of_inv: "health_inv s \<Longrightarrow> probes s i = Some p \<Longrightarrow> health_seq p = int (length (frames_of i s))"
  by (simp add: health_inv_def stream_ok_def)

text \<open>
  A replay never turns a client back. A client connects, its candidates are collected, and while its
  permissions are looked up anything may happen. A frame is then replayed only for a state that is still the
  workspace's, about which no frame has been sent in between, and it shows the present status.
\<close>

theorem replay_not_stale:
  assumes "health_step\<^sup>*\<^sup>* init_health s" "(i, seq) \<in> set (health_candidates s)" "health_step\<^sup>*\<^sup>* s s'"
    and "replay_service_health allowed (i, seq) s' = Some f"
  shows "map_of (live s') (f_workspace_id f) = Some i \<and> frames_of i s' = frames_of i s \<and>
    (\<exists>p. probes s' i = Some p \<and> (f_healthy f \<longleftrightarrow> health_status p = Some Healthy) \<and> f_seq f = health_seq p)"
proof -
  obtain q where q: "probes s i = Some q" "health_seq q = seq"
    using assms(2) by (auto simp: health_candidates_def in_map_filter split: option.splits if_splits)
  obtain p where p: "probes s' i = Some p" "map_of (live s') (workspace_id p) = Some i" "health_seq p = seq"
      "f = service_health_frame p (health_status p = Some Healthy) (health_message p) True"
    using assms(4) by (auto simp: replay_service_health_def split: option.splits if_splits)
  have "health_inv s" "health_inv s'"
    using stream.reachable_inv [OF _ refl] assms(1,3) by (blast intro: rtranclp_trans)+
  then have "length (frames_of i s') = length (frames_of i s)" using seq_of_inv p q by fastforce
  then have "frames_of i s' = frames_of i s" using run_grows [OF assms(3), of i] by auto
  then show ?thesis using p by (simp add: service_health_frame_def)
qed

section \<open>The terminal frame\<close>

text \<open>A state that is gone: removed, and neither waiting for the loop nor being probed.\<close>

definition gone :: "nat \<Rightarrow> health_world \<Rightarrow> bool" where
  "gone i s \<longleftrightarrow> probes s i \<noteq> None \<and> (\<forall>ws. map_of (live s) ws \<noteq> Some i) \<and> dict_ok (live s) \<and> i \<notin> set (todo s) \<and> probing s \<noteq> Some i"
lemma gone_step:
  assumes "health_step s s'" "gone i s"
  shows "gone i s' \<and> frames_of i s' = frames_of i s"
proof -
  obtain e where e: "health_happens e s = Some s'" using assms(1) by (auto elim: health_step.cases)
  have others: "j \<noteq> i" if "map_of (live s) ws = Some j" for ws j using assms(2) that by (auto simp: gone_def)
  have listed: "i \<notin> snd ` set (live s)" using assms(2) by (force simp: gone_def)
  have upd: "gone i (update_probe j f s) \<and> frames_of i (update_probe j f s) = frames_of i s" for j f
    using assms(2) by (auto simp: update_probe_def gone_def split: option.split)
  have emit: "gone i (emit j h m r t) \<and> frames_of i (emit j h m r t) = frames_of i t" if "j \<noteq> i" "gone i t" for j h m r t
    using that by (auto simp: emit_def gone_def Let_def frames_of_def split: option.split)
  show ?thesis
  proof (cases e)
    case (Tracked j now ws cid m)
    then show ?thesis
      using e upd assms(2) by (auto simp: gone_def map_of_dict_update split: option.splits if_splits)
  next
    case (Checked grace now later st msg)
    then obtain j where j: "probing s = Some j" "s' = (check_workspace grace now later j (st, msg) s)\<lparr>probing := None\<rparr>"
      using e by (auto split: option.splits)
    have "j \<noteq> i" using j(1) assms(2) by (auto simp: gone_def)
    moreover have "gone i (s\<lparr>probes := (probes s)(j \<mapsto> q)\<rparr>)" for q using assms(2) by (simp add: gone_def)
    ultimately have "gone i (check_workspace grace now later j (st, msg) s) \<and>
        frames_of i (check_workspace grace now later j (st, msg) s) = frames_of i s"
      using emit assms(2) by (simp add: check_workspace_def broadcast_def Let_def split: option.split)
    then show ?thesis unfolding j(2) by (auto simp: gone_def)
  next
    case (Died ws cid cause)
    then show ?thesis using e emit others assms(2)
      by (auto simp: broadcast_service_death_def broadcast_death_def Option.bind_eq_Some_conv split: option.splits if_splits)
  qed (use e upd assms(2) listed in \<open>auto simp: gone_def map_of_dict_delete split: option.splits if_splits list.splits\<close>)
qed

text \<open>
  After the terminal frame. Once the state of a container is removed and the loop neither has it on its
  list nor is probing it, no frame about it is ever sent again: if the last one said that it is not running, that
  stays the last word.
\<close>

theorem terminal_frame_final:
  assumes "gone i s" "health_step\<^sup>*\<^sup>* s s'"
  shows "frames_of i s' = frames_of i s"
proof -
  from assms(2) have "gone i s' \<and> frames_of i s' = frames_of i s"
    by (induction rule: rtranclp_induct) (use assms(1) gone_step in auto)
  then show ?thesis ..
qed

section \<open>Instances\<close>

definition web_metadata :: track_metadata where
  "web_metadata = \<lparr>m_health_check = Some ''true'', m_owner_id = Some ''u1'', m_setup_state = Some ''complete'', m_per_handle_home = None\<rparr>"

definition healthy_run :: "health_event list" where
  "healthy_run = [Tracked 0 0 ''w1'' ''c1'' web_metadata, Sweep, Next, Checked 30 60 60 Healthy []]"

lemmas health_eval = web_metadata_def new_probe_def track_probe_def apply_track_metadata_def new_state_def eligible_for_check_def
  setup_complete_def check_workspace_def within_startup_grace_def in_startup_grace_def broadcast_def emit_def Let_def
  service_health_frame_def init_health_def broadcast_service_death_def broadcast_death_def frames_of_def update_probe_def

text \<open>
  The condition is needed. The container dies, and its state is removed, while its next probe runs: the
  terminal frame is followed by one that says the service is running. The same happens to every state that is
  still on the list of the sweep when its container dies.
\<close>

theorem terminal_frame_overtaken:
  "\<exists>s. health_step\<^sup>*\<^sup>* init_health s \<and> live s = [] \<and>
     map (\<lambda>f. (f_running f, f_healthy f, f_seq f)) (frames_of 0 s) = [(True, True, 1), (False, False, 2), (True, False, 3)]"
proof -
  let ?es = "healthy_run @ [Sweep, Next, Died ''w1'' (Some ''c1'') None, Removed ''w1'', Checked 30 90 90 Unhealthy ''no such container'']"
  have "map_option (\<lambda>s. (live s, map (\<lambda>f. (f_running f, f_healthy f, f_seq f)) (frames_of 0 s))) (run_health ?es init_health) =
      Some ([], [(True, True, 1), (False, False, 2), (True, False, 3)])"
    by code_simp
  then obtain s where s: "run_health ?es init_health = Some s" "live s = []"
    "map (\<lambda>f. (f_running f, f_healthy f, f_seq f)) (frames_of 0 s) = [(True, True, 1), (False, False, 2), (True, False, 3)]"
    by auto
  from run_health_steps [OF s(1)] s(2,3) show ?thesis by (intro exI conjI)
qed

lemma healthy_run_result:
  obtains s p where "health_step\<^sup>*\<^sup>* init_health s" "probes s 0 = Some p" "health_status p = Some Healthy" "health_seq p = 1"
    "(0, 1) \<in> set (health_candidates s)" "workspace_id p = ''w1''" "live s = [(''w1'', 0)]"
    "frames_of 0 s = [service_health_frame p True None True]" "health_message p = None"
proof -
  obtain s p where "run_health healthy_run init_health = Some s" "probes s 0 = Some p" "health_status p = Some Healthy" "health_seq p = 1"
    "(0, 1) \<in> set (health_candidates s)" "workspace_id p = ''w1''" "live s = [(''w1'', 0)]"
    "frames_of 0 s = [service_health_frame p True None True]" "health_message p = None"
    by (simp add: healthy_run_def health_eval health_candidates_def in_map_filter)
  then show thesis using that run_health_steps by blast
qed


theorem replay_not_stale_witness:
  "\<exists>s f. replay_service_health {''/workspaces/w1''} (0, 1) s = Some f \<and> map_of (live s) (f_workspace_id f) = Some 0"
proof -
  obtain s p where s: "health_step\<^sup>*\<^sup>* init_health s" "probes s 0 = Some p" "health_seq p = 1"
      "(0, 1) \<in> set (health_candidates s)" "workspace_id p = ''w1''" "live s = [(''w1'', 0)]"
    using healthy_run_result by metis
  then obtain f where "replay_service_health {''/workspaces/w1''} (0, 1) s = Some f" by (simp add: replay_service_health_def)
  with replay_not_stale [OF s(1,4) rtranclp.rtrancl_refl this] show ?thesis by blast
qed

theorem terminal_frame_final_witness:
  "\<exists>s. gone 0 s \<and> frames_of 0 (s\<lparr>todo := map snd (live s)\<rparr>) = frames_of 0 s \<and> map f_running (frames_of 0 s) = [True, False]"
proof -
  have "map_option (\<lambda>s. (probes s 0 = None, live s, todo s, probing s, map f_running (frames_of 0 s)))
      (run_health (healthy_run @ [Died ''w1'' (Some ''c1'') None, Removed ''w1'']) init_health) = Some (False, [], [], None, [True, False])"
    by code_simp
  then obtain s where s: "run_health (healthy_run @ [Died ''w1'' (Some ''c1'') None, Removed ''w1'']) init_health = Some s"
      "gone 0 s" "map f_running (frames_of 0 s) = [True, False]" "todo s = []" "probing s = None"
    by (auto simp: gone_def)
  have "health_step s (s\<lparr>todo := map snd (live s)\<rparr>)" by (rule health_step.intros [of Sweep]) (simp add: s(4,5))
  from s(2) terminal_frame_final [OF s(2) r_into_rtranclp [of health_step, OF this]] s(3) show ?thesis by (intro exI conjI)
qed


end
