(* ===== verification/Audit_Forward.thy ===== *)
theory Audit_Forward
  imports Prelude
begin

text \<open>
  Forwarding of audit records: \<open>klangk/audit_forward.py\<close> over \<open>klangk/model/audit_forward.py\<close> and the cursors of
  migration 0037. Every row of the three audit tables goes to every configured target: a batch past the cursor of the
  target is delivered, then the cursor advances. The digest of a target, the transport, the database's
  failures and the other writers of the tables are arguments. What a target has received is recorded
  beside the store for the statements.
\<close>

section \<open>Tables and cursors\<close>

definition SOURCE_ORDER :: "string list" where
  "SOURCE_ORDER = [''audit_events'', ''container_events'', ''egress_consent'']"

definition FORWARD_INTERVAL_SECONDS :: real where "FORWARD_INTERVAL_SECONDS = 5"

definition FORWARD_BATCH_LIMIT :: nat where "FORWARD_BATCH_LIMIT = 500"

definition FORWARD_MAX_BACKOFF_SECONDS :: real where "FORWARD_MAX_BACKOFF_SECONDS = 300"

text \<open>
  A table lists its rows by their cursor; \<open>high_water\<close> is the counter of \<open>AUTOINCREMENT\<close> or of the trigger, which
  deletions leave alone. \<open>received\<close> has, for a source and a target, the cursors in the order they arrived; \<open>pruned\<close> those of
  deleted rows.
\<close>

record 'r store =
  rows :: "string \<Rightarrow> (int \<times> 'r) list"
  high_water :: "string \<Rightarrow> int"
  watermarks :: "(string, int) dict"
  received :: "string \<Rightarrow> string \<Rightarrow> int list"
  pruned :: "string \<Rightarrow> int set"

definition init_store :: "'r store" where
  "init_store = \<lparr>rows = (\<lambda>_. []), high_water = (\<lambda>_. 0), watermarks = [], received = (\<lambda>_ _. []), pruned = (\<lambda>_. {})\<rparr>"

definition insert_row :: "string \<Rightarrow> 'r \<Rightarrow> 'r store \<Rightarrow> 'r store" where
  "insert_row src r s =
     (let c = high_water s src + 1
      in s\<lparr>rows := (rows s)(src := rows s src @ [(c, r)]), high_water := (high_water s)(src := c)\<rparr>)"

text \<open>Retention, row caps and cascades delete rows; a consent row may be rewritten in place.\<close>

definition delete_rows :: "string \<Rightarrow> (int \<Rightarrow> bool) \<Rightarrow> 'r store \<Rightarrow> 'r store" where
  "delete_rows src P s =
     s\<lparr>rows := (rows s)(src := filter (\<lambda>(c, _). \<not> P c) (rows s src)),
       pruned := (pruned s)(src := pruned s src \<union> {c \<in> fst ` set (rows s src). P c})\<rparr>"

definition update_rows :: "string \<Rightarrow> ('r \<Rightarrow> 'r) \<Rightarrow> 'r store \<Rightarrow> 'r store" where
  "update_rows src f s = s\<lparr>rows := (rows s)(src := map (\<lambda>(c, r). (c, f r)) (rows s src))\<rparr>"

datatype 'r table_write = Insert string 'r | Delete string "int \<Rightarrow> bool" | Update string "'r \<Rightarrow> 'r"

fun do_write :: "'r table_write \<Rightarrow> 'r store \<Rightarrow> 'r store" where
  "do_write (Insert src r) s = insert_row src r s"
| "do_write (Delete src P) s = delete_rows src P s"
| "do_write (Update src f) s = update_rows src f s"

definition watermark :: "string \<Rightarrow> 'r store \<Rightarrow> int" where
  "watermark key s = (case map_of (watermarks s) key of None \<Rightarrow> 0 | Some c \<Rightarrow> c)"

definition advance :: "string \<Rightarrow> int \<Rightarrow> 'r store \<Rightarrow> 'r store" where
  "advance key c s = s\<lparr>watermarks := AList.update key c (watermarks s)\<rparr>"

definition rows_after :: "string \<Rightarrow> int \<Rightarrow> nat \<Rightarrow> 'r store \<Rightarrow> (int \<times> 'r) list" where
  "rows_after src after limit s = take limit (sort_key fst (filter (\<lambda>(c, _). c > after) (rows s src)))"

definition pending_count :: "string \<Rightarrow> int \<Rightarrow> 'r store \<Rightarrow> nat" where
  "pending_count src after s = length (filter (\<lambda>(c, _). c > after) (rows s src))"

section \<open>One source to one target\<close>

text \<open>A target: its kind and its address. The key of a cursor hashes the address.\<close>

type_synonym target = "string \<times> string"

definition state_key :: "(string \<Rightarrow> string) \<Rightarrow> string \<Rightarrow> target \<Rightarrow> string" where
  "state_key digest src t = src @ '':'' @ digest (snd t)"

text \<open>
  What one attempt meets: whether each database call succeeds, what other tasks write before the rows are read
  and before the cursor is advanced, and the delivery - a raised exception, with how much of the batch the target
  got all the same, or \<open>None\<close>.
\<close>

record 'r attempt_env =
  watermark_ok :: bool
  rows_ok :: bool
  advance_ok :: bool
  before_read :: "'r table_write list"
  before_advance :: "'r table_write list"
  delivery :: "(string \<times> nat) option"

definition receive :: "string \<Rightarrow> target \<Rightarrow> int list \<Rightarrow> 'r store \<Rightarrow> 'r store" where
  "receive src t cs s = s\<lparr>received := (received s)(src := (received s src)(snd t := received s src (snd t) @ cs))\<rparr>"

text \<open>\<open>Some e\<close> is the exception that left \<open>forward_target\<close>, \<open>None\<close> its return; the flag says whether a batch was accepted.\<close>

definition forward_target ::
  "(string \<Rightarrow> string) \<Rightarrow> 'r attempt_env \<Rightarrow> string \<Rightarrow> target \<Rightarrow> 'r store \<Rightarrow> string option \<times> bool \<times> 'r store" where
  "forward_target digest e src t s =
     (if \<not> watermark_ok e then (Some ''DatabaseError'', False, s)
      else (let key = state_key digest src t;
                cursor = watermark key s;
                s = fold do_write (before_read e) s
            in if \<not> rows_ok e then (Some ''DatabaseError'', False, s)
               else (let batch = rows_after src cursor FORWARD_BATCH_LIMIT s
                     in if batch = [] then (None, False, s)
                        else (let cs = map fst batch; s = fold do_write (before_advance e) s
                              in case delivery e of
                                   Some (exc, n) \<Rightarrow> (Some exc, False, receive src t (take n cs) s)
                                 | None \<Rightarrow>
                                     (let s = receive src t cs s
                                      in if \<not> advance_ok e then (Some ''DatabaseError'', False, s)
                                         else (None, True, advance key (last cs) s))))))"

section \<open>A sweep\<close>

record forwarder =
  target_failures :: "(string, int) dict"
  target_cooldown_until :: "(string, real) dict"
  healthy :: bool
  last_success_at :: "real option"
  last_failure_at :: "real option"
  last_error :: "string option"

definition init_forwarder :: forwarder where
  "init_forwarder = \<lparr>target_failures = [], target_cooldown_until = [], healthy = True, last_success_at = None,
     last_failure_at = None, last_error = None\<rparr>"

definition reconfigure_forwarder :: "forwarder \<Rightarrow> forwarder" where
  "reconfigure_forwarder f = f\<lparr>target_failures := [], target_cooldown_until := [], healthy := True, last_error := None\<rparr>"

definition forward_targets :: "string option \<Rightarrow> string option \<Rightarrow> target list" where
  "forward_targets url syslog =
     (case url of Some (c # u) \<Rightarrow> [(''url'', c # u)] | _ \<Rightarrow> []) @ (case syslog of Some (c # u) \<Rightarrow> [(''syslog'', c # u)] | _ \<Rightarrow> [])"

definition in_cooldown :: "real \<Rightarrow> target \<Rightarrow> forwarder \<Rightarrow> bool" where
  "in_cooldown now t f \<longleftrightarrow> now < (case map_of (target_cooldown_until f) (snd t) of None \<Rightarrow> 0 | Some u \<Rightarrow> u)"

definition active_targets :: "real \<Rightarrow> target list \<Rightarrow> forwarder \<Rightarrow> target list" where
  "active_targets now ts f = filter (\<lambda>t. \<not> in_cooldown now t f) ts"

definition backoff_seconds :: "target \<Rightarrow> forwarder \<Rightarrow> real" where
  "backoff_seconds t f =
     (let failures = (case map_of (target_failures f) (snd t) of None \<Rightarrow> 0 | Some n \<Rightarrow> n);
          doubling = max (failures - 1) 0
      in min FORWARD_MAX_BACKOFF_SECONDS (FORWARD_INTERVAL_SECONDS * 2 ^ nat doubling))"

definition note_global_failure :: "real \<Rightarrow> string \<Rightarrow> forwarder \<Rightarrow> forwarder" where
  "note_global_failure wall exc f = f\<lparr>healthy := False, last_failure_at := Some wall, last_error := Some exc\<rparr>"

text \<open>The clocks of an attempt: monotonic before it, monotonic and wall clock after a failure.\<close>

record clocks =
  before :: real
  after :: real
  wall :: real

definition record_failure :: "clocks \<Rightarrow> target \<Rightarrow> string \<Rightarrow> forwarder \<Rightarrow> forwarder" where
  "record_failure k t exc f =
     (let key = snd t;
          failures = (case map_of (target_failures f) key of None \<Rightarrow> 0 | Some n \<Rightarrow> n) + 1;
          f = note_global_failure (wall k) exc (f\<lparr>target_failures := AList.update key failures (target_failures f)\<rparr>)
      in f\<lparr>target_cooldown_until := AList.update key (after k + backoff_seconds t f) (target_cooldown_until f)\<rparr>)"

definition record_success :: "real \<Rightarrow> forwarder \<Rightarrow> forwarder" where
  "record_success wall_now f = f\<lparr>healthy := True, last_success_at := Some wall_now, last_error := None\<rparr>"

text \<open>The world of a sweep: for each source and target, its clocks and what its attempt meets.\<close>

type_synonym 'r sweep_env = "string \<Rightarrow> target \<Rightarrow> clocks \<times> 'r attempt_env"

fun forward_source ::
  "(string \<Rightarrow> string) \<Rightarrow> 'r sweep_env \<Rightarrow> string \<Rightarrow> target list \<Rightarrow> string list \<times> forwarder \<times> 'r store \<Rightarrow> string list \<times> forwarder \<times> 'r store" where
  "forward_source digest w src [] fs = fs"
| "forward_source digest w src (t # ts) (failures, f, s) =
     (let (k, e) = w src t
      in if in_cooldown (before k) t f then forward_source digest w src ts (failures, f, s)
         else case forward_target digest e src t s of
                (None, accepted, s) \<Rightarrow>
                  forward_source digest w src ts
                    (failures, if accepted then f\<lparr>target_failures := AList.delete (snd t) (target_failures f)\<rparr> else f, s)
              | (Some exc, _, s) \<Rightarrow> forward_source digest w src ts (failures @ [exc], record_failure k t exc f, s))"

definition forward_all ::
  "(string \<Rightarrow> string) \<Rightarrow> 'r sweep_env \<Rightarrow> target list \<Rightarrow> forwarder \<times> 'r store \<Rightarrow> string list \<times> forwarder \<times> 'r store" where
  "forward_all digest w ts fs = fold (\<lambda>src. forward_source digest w src ts) SOURCE_ORDER ([], fs)"

definition sweep ::
  "(string \<Rightarrow> string) \<Rightarrow> 'r sweep_env \<Rightarrow> real \<Rightarrow> real \<Rightarrow> target list \<Rightarrow> forwarder \<times> 'r store \<Rightarrow> forwarder \<times> 'r store" where
  "sweep digest w now wall_now ts fs =
     (let active = active_targets now ts (fst fs)
      in if active = [] then fs
         else case forward_all digest w active fs of
                (exc # _, f, s) \<Rightarrow> (note_global_failure wall_now exc f, s)
              | ([], f, s) \<Rightarrow> (record_success wall_now f, s))"

section \<open>Lines for syslog\<close>

definition escape_char :: "char \<Rightarrow> string \<Rightarrow> string" where
  "escape_char c s = concat (map (\<lambda>d. if d = c then [CHR 0x5C, c] else [d]) s)"

definition escape_sd_value :: "string \<Rightarrow> string" where
  "escape_sd_value s = escape_char CHR '']'' (escape_char CHR 0x22 (escape_char CHR 0x5C s))"

definition sanitize_hostname :: "string \<Rightarrow> string" where
  "sanitize_hostname name =
     (let cleaned = map (\<lambda>c. if 33 \<le> (of_char c :: nat) \<and> (of_char c :: nat) \<le> 126 then c else CHR ''-'') (strip name)
      in if take 255 cleaned = [] then ''-'' else take 255 cleaned)"
section \<open>The tables\<close>

abbreviation cursors :: "string \<Rightarrow> 'r store \<Rightarrow> int set" where
  "cursors src s \<equiv> fst ` set (rows s src)"

text \<open>Rows by increasing cursor, and every number the counter gave out is a row or was deleted.\<close>

definition table_ok :: "'r store \<Rightarrow> string \<Rightarrow> bool" where
  "table_ok s src \<longleftrightarrow> sorted_wrt (<) (map fst (rows s src)) \<and> cursors src s \<union> pruned s src = {1..high_water s src} \<and> 0 \<le> high_water s src"

lemma table_okD:
  assumes "table_ok s src" "c \<in> cursors src s"
  shows "1 \<le> c" "c \<le> high_water s src"
proof -
  have "c \<in> {1..high_water s src}" using assms unfolding table_ok_def by blast
  then show "1 \<le> c" "c \<le> high_water s src" by simp_all
qed

lemma do_write_fields [simp]:
  "watermarks (do_write w s) = watermarks s" "received (do_write w s) = received s"
  by (cases w; simp add: insert_row_def delete_rows_def update_rows_def Let_def)+

lemma do_writes_fields [simp]:
  "watermarks (fold do_write ws s) = watermarks s" "received (fold do_write ws s) = received s"
  by (induction ws arbitrary: s) simp_all

lemma watermark_writes [simp]: "watermark key (fold do_write ws s) = watermark key s"
  by (simp add: watermark_def)

lemma do_write_ok:
  assumes "table_ok s src"
  shows "table_ok (do_write w s) src"
proof (cases w)
  case (Insert t r)
  have "\<forall>c\<in>cursors src s. c < high_water s src + 1" using table_okD [OF assms] by force
  moreover have "{1..high_water s src + 1} = insert (high_water s src + 1) {1..high_water s src}"
    using assms by (auto simp: table_ok_def)
  ultimately show ?thesis using assms Insert
    by (auto simp: table_ok_def insert_row_def Let_def sorted_wrt_append)
next
  case (Delete t P)
  have "sorted_wrt (<) (map fst (filter (\<lambda>(c, _). \<not> P c) (rows s src)))"
    using assms by (simp add: table_ok_def sorted_wrt_map sorted_wrt_filter)
  moreover have "fst ` set (filter (\<lambda>(c, _). \<not> P c) (rows s src)) \<union> (pruned s src \<union> {c \<in> cursors src s. P c}) = cursors src s \<union> pruned s src"
    by force
  ultimately show ?thesis using assms Delete by (auto simp: table_ok_def delete_rows_def)
next
  case (Update t f)
  have same: "map fst (rows (do_write w s) src) = map fst (rows s src)"
    by (simp add: Update update_rows_def case_prod_beta comp_def)
  then have "cursors src (do_write w s) = cursors src s" by (metis list.set_map)
  then show ?thesis using assms same by (simp add: table_ok_def Update update_rows_def)
qed

text \<open>Nothing appears below the counter again.\<close>

lemma do_write_old:
  assumes "c \<in> cursors src (do_write w s)" "c \<le> high_water s src"
  shows "c \<in> cursors src s"
  using assms by (cases w) (force simp: insert_row_def delete_rows_def update_rows_def Let_def split: if_splits)+

lemma do_write_high: "high_water s src \<le> high_water (do_write w s) src"
  by (cases w) (simp_all add: insert_row_def delete_rows_def update_rows_def Let_def)

lemma do_writes_ok: "table_ok s src \<Longrightarrow> table_ok (fold do_write ws s) src"
  by (induction ws arbitrary: s) (simp_all add: do_write_ok)

lemma do_writes_high: "high_water s src \<le> high_water (fold do_write ws s) src"
  by (induction ws arbitrary: s) (simp_all, meson do_write_high order_trans)

lemma do_writes_old:
  "c \<in> cursors src (fold do_write ws s) \<Longrightarrow> c \<le> high_water s src \<Longrightarrow> c \<in> cursors src s"
proof (induction ws arbitrary: s)
  case (Cons w ws)
  then show ?case using do_write_old [of c w s src] do_write_high [of s src w] by fastforce
qed simp

lemma rows_after_sorted:
  assumes "table_ok s src"
  shows "rows_after src a n s = take n (filter (\<lambda>(c, _). c > a) (rows s src))"
proof -
  have "sorted_wrt (\<lambda>x y. fst x < fst y) (filter (\<lambda>(c, _). c > a) (rows s src))"
    using assms by (simp add: table_ok_def sorted_wrt_map sorted_wrt_filter)
  then have "sorted (map fst (filter (\<lambda>(c, _). c > a) (rows s src)))"
    unfolding sorted_wrt_map by (rule sorted_wrt_mono_rel [rotated]) simp
  then have "sort_key fst (filter (\<lambda>(c, _). c > a) (rows s src)) = filter (\<lambda>(c, _). c > a) (rows s src)"
    by (simp add: sort_key_id_if_sorted)
  then show ?thesis by (simp add: rows_after_def)
qed

section \<open>What a target has\<close>

text \<open>A cursor that arrives is a repetition or above all that came before.\<close>

definition in_order :: "int list \<Rightarrow> bool" where
  "in_order cs \<longleftrightarrow> (\<forall>i<length cs. cs ! i \<in> set (take i cs) \<or> (\<forall>c\<in>set (take i cs). c < cs ! i))"

lemma in_order_append:
  assumes "in_order cs" "sorted_wrt (<) ds" "\<forall>d\<in>set ds. d \<in> set cs \<or> (\<forall>c\<in>set cs. c < d)"
  shows "in_order (cs @ ds)"
  unfolding in_order_def
proof (intro allI impI)
  fix i assume i: "i < length (cs @ ds)"
  show "(cs @ ds) ! i \<in> set (take i (cs @ ds)) \<or> (\<forall>c\<in>set (take i (cs @ ds)). c < (cs @ ds) ! i)"
  proof (cases "i < length cs")
    case True
    then show ?thesis using assms(1) by (simp add: in_order_def nth_append)
  next
    case False
    let ?k = "i - length cs"
    have k: "?k < length ds" using i False by simp
    have "d < ds ! ?k" if "d \<in> set (take ?k ds)" for d
      using that assms(2) k by (auto simp: in_set_conv_nth sorted_wrt_iff_nth_less)
    then show ?thesis using assms(3) k False by (fastforce simp: nth_append)
  qed
qed

text \<open>
  The cursor of a target is the beginning or something it received; a row below something it received, it has
  received too.
\<close>

definition delivered_ok :: "(string \<Rightarrow> string) \<Rightarrow> 'r store \<Rightarrow> string \<Rightarrow> target \<Rightarrow> bool" where
  "delivered_ok digest s src t \<longleftrightarrow>
     in_order (received s src (snd t)) \<and> (\<forall>c\<in>set (received s src (snd t)). c \<le> high_water s src) \<and>
     (watermark (state_key digest src t) s = 0 \<or> watermark (state_key digest src t) s \<in> set (received s src (snd t))) \<and>
     (\<forall>c\<in>cursors src s. (\<exists>d\<in>set (received s src (snd t)). c \<le> d) \<longrightarrow> c \<in> set (received s src (snd t)))"

lemma delivered_writes:
  assumes "delivered_ok digest s src t"
  shows "delivered_ok digest (fold do_write ws s) src t"
proof -
  have "c \<in> set (received s src (snd t))"
    if c: "c \<in> cursors src (fold do_write ws s)" and d: "d \<in> set (received s src (snd t))" "c \<le> d" for c d
  proof -
    have "d \<le> high_water s src" using assms d(1) by (simp add: delivered_ok_def)
    then have "c \<in> cursors src s" using do_writes_old [OF c] d(2) by simp
    then show ?thesis using assms d by (auto simp: delivered_ok_def)
  qed
  then show ?thesis using assms do_writes_high [of s src ws] by (fastforce simp: delivered_ok_def)
qed
lemma take_closed:
  assumes "sorted_wrt (<) (xs :: int list)" "d \<in> set (take k xs)" "c \<in> set xs" "c \<le> d"
  shows "c \<in> set (take k xs)"
proof (rule ccontr)
  assume "c \<notin> set (take k xs)"
  then have "c \<in> set (drop k xs)" using assms(3) by (metis UnE append_take_drop_id set_append)
  then have "d < c" using assms(1,2) by (metis append_take_drop_id sorted_wrt_append)
  with assms(4) show False by simp
qed

lemma batch_received:
  fixes s :: "'r store"
  assumes t: "table_ok s src" and ok: "delivered_ok digest s src tg"
    and ds: "ds = take n (map fst (rows_after src (watermark (state_key digest src tg) s) limit s))"
  shows "delivered_ok digest (receive src tg ds (fold do_write ws s)) src tg"
proof -
  let ?W = "watermark (state_key digest src tg) s" and ?R = "received s src (snd tg)" and ?s = "fold do_write ws s"
  define all where "all = map fst (filter (\<lambda>(c, _). c > ?W) (rows s src))"
  have "sorted_wrt (<) all" using t unfolding all_def by (simp add: table_ok_def sorted_wrt_map sorted_wrt_filter)
  have ds_all: "ds = take (min n limit) all" by (simp add: ds rows_after_sorted [OF t] all_def take_map)
  have all: "c \<in> set all \<longleftrightarrow> c \<in> cursors src s \<and> ?W < c" for c by (force simp: all_def)
  have sub: "d \<in> cursors src s" if "d \<in> set ds" for d using that all in_set_takeD unfolding ds_all by metis
  have W: "?W = 0 \<or> ?W \<in> set ?R" and closed: "c \<in> cursors src s \<Longrightarrow> d \<in> set ?R \<Longrightarrow> c \<le> d \<Longrightarrow> c \<in> set ?R" for c d
    using ok by (auto simp: delivered_ok_def)
  have "sorted_wrt (<) ds" using \<open>sorted_wrt (<) all\<close> unfolding ds_all by (metis append_take_drop_id sorted_wrt_append)
  moreover have "\<forall>d\<in>set ds. d \<in> set ?R \<or> (\<forall>c\<in>set ?R. c < d)" using sub closed by (meson not_le)
  ultimately have order: "in_order (?R @ ds)" using ok in_order_append by (simp add: delivered_ok_def)
  have high: "\<forall>c\<in>set (?R @ ds). c \<le> high_water ?s src"
    using ok sub table_okD(2) [OF t] do_writes_high [of s src ws] by (fastforce simp: delivered_ok_def)
  have "c \<in> set ?R \<or> c \<in> set ds" if c: "c \<in> cursors src ?s" and d: "d \<in> set ds" "c \<le> d" for c d
  proof -
    have "c \<in> cursors src s" using do_writes_old [OF c] table_okD(2) [OF t sub [OF d(1)]] d(2) by simp
    show ?thesis
    proof (cases "c \<le> ?W")
      case True
      then have "?W \<in> set ?R" using W table_okD(1) [OF t \<open>c \<in> cursors src s\<close>] by auto
      then show ?thesis using closed [OF \<open>c \<in> cursors src s\<close> _ True] by simp
    next
      case False
      then have "c \<in> set all" using all \<open>c \<in> cursors src s\<close> by simp
      then show ?thesis using take_closed [OF \<open>sorted_wrt (<) all\<close>] d unfolding ds_all by blast
    qed
  qed
  moreover have "c \<in> set ?R" if "c \<in> cursors src ?s" "d \<in> set ?R" "c \<le> d" for c d
    using delivered_writes [OF ok, of ws] that by (auto simp: delivered_ok_def)
  ultimately have "\<forall>c\<in>cursors src ?s. (\<exists>d\<in>set (?R @ ds). c \<le> d) \<longrightarrow> c \<in> set (?R @ ds)"
    unfolding set_append by blast
  then show ?thesis using order high W by (simp add: delivered_ok_def receive_def watermark_def) blast
qed

lemma state_key_inject:
  assumes "src \<in> set SOURCE_ORDER" "src' \<in> set SOURCE_ORDER" "state_key digest src t = state_key digest src' t'"
  shows "src = src' \<and> digest (snd t) = digest (snd t')"
  using assms by (auto simp: SOURCE_ORDER_def state_key_def)

text \<open>The store as a whole, for the targets in use; their digests are different.\<close>

definition store_ok :: "(string \<Rightarrow> string) \<Rightarrow> target set \<Rightarrow> 'r store \<Rightarrow> bool" where
  "store_ok digest U s \<longleftrightarrow> (\<forall>src\<in>set SOURCE_ORDER. table_ok s src \<and> (\<forall>t\<in>U. delivered_ok digest s src t))"

lemma store_ok_writes: "store_ok digest U s \<Longrightarrow> store_ok digest U (fold do_write ws s)"
  by (simp add: store_ok_def do_writes_ok delivered_writes)

lemma store_ok_receive:
  assumes "store_ok digest U s" "src \<in> set SOURCE_ORDER" "t \<in> U"
    and "ds = take n (map fst (rows_after src (watermark (state_key digest src t) s) limit s))"
  shows "store_ok digest U (receive src t ds (fold do_write ws s))"
  unfolding store_ok_def
proof (intro ballI conjI)
  fix src' assume src': "src' \<in> set SOURCE_ORDER"
  have ok: "table_ok s src'" "delivered_ok digest s src' t'" if "t' \<in> U" for t' using assms(1) src' that by (auto simp: store_ok_def)
  show "table_ok (receive src t ds (fold do_write ws s)) src'"
    using do_writes_ok [of s src' ws] assms(1) src' by (simp add: store_ok_def table_ok_def receive_def)
  fix t' assume t': "t' \<in> U"
  show "delivered_ok digest (receive src t ds (fold do_write ws s)) src' t'"
  proof (cases "src' = src \<and> snd t' = snd t")
    case True
    then have "delivered_ok digest s src t" "state_key digest src t = state_key digest src t'"
      using ok(2) [OF t'] by (simp_all add: delivered_ok_def state_key_def)
    with batch_received [OF ok(1) [OF t', unfolded True [THEN conjunct1]] this(1) assms(4), of ws] True show ?thesis
      by (simp add: delivered_ok_def)
  next
    case False
    then show ?thesis using delivered_writes [OF ok(2) [OF t'], of ws]
      by (auto simp: delivered_ok_def receive_def watermark_def)
  qed
qed

lemma store_ok_advance:
  assumes "store_ok digest U s" "src \<in> set SOURCE_ORDER" "t \<in> U" "inj_on digest (snd ` U)" "c \<in> set (received s src (snd t))"
  shows "store_ok digest U (advance (state_key digest src t) c s)"
  unfolding store_ok_def
proof (intro ballI conjI)
  fix src' assume src': "src' \<in> set SOURCE_ORDER"
  show "table_ok (advance (state_key digest src t) c s) src'" using assms(1) src' by (simp add: store_ok_def table_ok_def advance_def)
  fix t' assume t': "t' \<in> U"
  have ok: "delivered_ok digest s src' t'" using assms(1) src' t' by (simp add: store_ok_def)
  have "snd t' = snd t" "src' = src" if "state_key digest src' t' = state_key digest src t"
    using state_key_inject [OF src' assms(2) that] assms(3,4) t' by (auto dest: inj_onD)
  then show "delivered_ok digest (advance (state_key digest src t) c s) src' t'"
    using ok assms(5) by (auto simp: delivered_ok_def advance_def watermark_def map_of_dict_update)
qed

lemma forward_target_ok:
  assumes "store_ok digest U s" "src \<in> set SOURCE_ORDER" "t \<in> U" "inj_on digest (snd ` U)"
  shows "store_ok digest U (snd (snd (forward_target digest e src t s)))"
proof -
  let ?s = "fold do_write (before_read e) s"
  let ?cs = "map fst (rows_after src (watermark (state_key digest src t) s) FORWARD_BATCH_LIMIT ?s)"
  have read: "store_ok digest U ?s" using store_ok_writes [OF assms(1)] .
  have got: "store_ok digest U (receive src t (take n ?cs) (fold do_write (before_advance e) ?s))" for n
    using store_ok_receive [OF read assms(2,3) refl, of n FORWARD_BATCH_LIMIT "before_advance e"] by simp
  have all: "store_ok digest U (receive src t ?cs (fold do_write (before_advance e) ?s))" using got [of "length ?cs"] by simp
  moreover have "store_ok digest U (advance (state_key digest src t) (last ?cs) (receive src t ?cs (fold do_write (before_advance e) ?s)))"
    if "?cs \<noteq> []"
    by (rule store_ok_advance [OF all assms(2-4)]) (use that last_in_set [of ?cs] in \<open>simp add: receive_def\<close>)
  ultimately show ?thesis using assms(1) read got by (auto simp: forward_target_def Let_def split: option.split)
qed
section \<open>Runs\<close>

text \<open>
  Sweeps, single attempts of a sweep that is cut short, other writers, reloads and restarts of the process.
\<close>

inductive forward_step ::
  "(string \<Rightarrow> string) \<Rightarrow> target set \<Rightarrow> forwarder \<times> 'r store \<Rightarrow> forwarder \<times> 'r store \<Rightarrow> bool" for digest U where
  swept: "set ts \<subseteq> U \<Longrightarrow> forward_step digest U fs (sweep digest w now wall_now ts fs)"
| attempted: "src \<in> set SOURCE_ORDER \<Longrightarrow> t \<in> U \<Longrightarrow>
    forward_step digest U (f, s) (f, snd (snd (forward_target digest e src t s)))"
| written: "forward_step digest U (f, s) (f, do_write w s)"
| reloaded: "forward_step digest U (f, s) (reconfigure_forwarder f, s)"
| restarted: "forward_step digest U (f, s) (init_forwarder, s)"

definition forward_init :: "(string \<Rightarrow> string) \<Rightarrow> target set \<Rightarrow> forwarder \<times> 'r store \<Rightarrow> bool" where
  "forward_init digest U fs \<longleftrightarrow> inj_on digest (snd ` U) \<and> fs = (init_forwarder, init_store)"

definition forward_inv :: "(string \<Rightarrow> string) \<Rightarrow> target set \<Rightarrow> forwarder \<times> 'r store \<Rightarrow> bool" where
  "forward_inv digest U fs \<longleftrightarrow> inj_on digest (snd ` U) \<and> store_ok digest U (snd fs)"

lemma forward_source_ok:
  assumes "store_ok digest U (snd (snd x))" "set ts \<subseteq> U" "src \<in> set SOURCE_ORDER" "inj_on digest (snd ` U)"
  shows "store_ok digest U (snd (snd (forward_source digest w src ts x)))"
  using assms(1,2)
proof (induction ts arbitrary: x)
  case (Cons t ts)
  obtain failures f s k e where x: "x = (failures, f, s)" "w src t = (k, e)" by (metis prod.exhaust)
  obtain exc acc s' where r: "forward_target digest e src t s = (exc, acc, s')" by (metis prod.exhaust)
  have "store_ok digest U s'" using forward_target_ok [OF _ assms(3) _ assms(4), of s t e] Cons.prems x r by simp
  with Cons x r show ?case by (cases exc) (auto split: if_splits)
qed simp

lemma forward_all_ok:
  assumes "store_ok digest U (snd fs)" "set ts \<subseteq> U" "inj_on digest (snd ` U)"
  shows "store_ok digest U (snd (snd (forward_all digest w ts fs)))"
proof -
  have "store_ok digest U (snd (snd (fold (\<lambda>src. forward_source digest w src ts) srcs x)))"
    if "store_ok digest U (snd (snd x))" "set srcs \<subseteq> set SOURCE_ORDER" for srcs x
    using that by (induction srcs arbitrary: x) (simp_all add: forward_source_ok assms)
  from this [of "([], fs)" SOURCE_ORDER] show ?thesis using assms(1) by (simp add: forward_all_def)
qed

lemma sweep_ok:
  assumes "store_ok digest U (snd fs)" "set ts \<subseteq> U" "inj_on digest (snd ` U)"
  shows "store_ok digest U (snd (sweep digest w now wall_now ts fs))"
proof -
  have "set (active_targets now ts (fst fs)) \<subseteq> U" using assms(2) by (auto simp: active_targets_def)
  from forward_all_ok [OF assms(1) this assms(3), of w] show ?thesis
    using assms(1) by (auto simp: sweep_def Let_def split: list.split prod.split)
qed

lemma forward_step_inv: "forward_step digest U fs fs' \<Longrightarrow> forward_inv digest U fs \<Longrightarrow> forward_inv digest U fs'"
proof (induction rule: forward_step.induct)
  case (written f s w)
  then show ?case using store_ok_writes [of digest U s "[w]"] by (simp add: forward_inv_def)
qed (simp_all add: forward_inv_def sweep_ok forward_target_ok)

lemma forward_init_inv: "forward_init digest U fs \<Longrightarrow> forward_inv digest U fs"
  by (auto simp: forward_init_def forward_inv_def store_ok_def table_ok_def delivered_ok_def in_order_def init_store_def watermark_def)

interpretation forwarding: step_invariant "forward_step digest U" "forward_init digest U" "forward_inv digest U" for digest U
  by unfold_locales (rule forward_init_inv, assumption, rule forward_step_inv)

text \<open>
  (C22) No gap, in order. Whatever fails and whoever writes - deliveries that break off half-way, a crash between
  a delivery and the advance of the cursor, deletions by retention, reloads - every record ever written to an audit
  table has reached each target, or is queued for it, or was deleted; and records reach a target in the order they
  were written, repetitions apart.
\<close>

theorem forwarding_gapless:
  assumes "forward_init digest U fs" "(forward_step digest U)\<^sup>*\<^sup>* fs (f, s)" "src \<in> set SOURCE_ORDER" "t \<in> U"
  shows "in_order (received s src (snd t)) \<and>
    {1..high_water s src} \<subseteq> set (received s src (snd t)) \<union> pruned s src \<union>
      fst ` set (filter (\<lambda>(c, _). c > watermark (state_key digest src t) s) (rows s src))"
proof -
  have "store_ok digest U s" using forwarding.reachable_inv [OF assms(2,1)] by (simp add: forward_inv_def)
  then have t: "table_ok s src" and d: "delivered_ok digest s src t" using assms(3,4) by (auto simp: store_ok_def)
  have "c \<in> set (received s src (snd t))" if "c \<in> cursors src s" "c \<le> watermark (state_key digest src t) s" for c
    using d that table_okD(1) [OF t that(1)] by (auto simp: delivered_ok_def)
  then have "cursors src s \<subseteq> set (received s src (snd t)) \<union>
      fst ` set (filter (\<lambda>(c, _). c > watermark (state_key digest src t) s) (rows s src))"
    by force
  moreover have "{1..high_water s src} = cursors src s \<union> pruned s src" using t by (simp add: table_ok_def)
  ultimately show ?thesis using d by (auto simp: delivered_ok_def)
qed

section \<open>Draining\<close>

text \<open>An attempt that meets no failure and no other writer.\<close>

definition clean :: "'r attempt_env" where
  "clean = \<lparr>watermark_ok = True, rows_ok = True, advance_ok = True, before_read = [], before_advance = [], delivery = None\<rparr>"

definition attempt :: "(string \<Rightarrow> string) \<Rightarrow> string \<Rightarrow> target \<Rightarrow> 'r store \<Rightarrow> 'r store" where
  "attempt digest src t s = snd (snd (forward_target digest clean src t s))"

abbreviation queue_length :: "(string \<Rightarrow> string) \<Rightarrow> string \<Rightarrow> target \<Rightarrow> 'r store \<Rightarrow> nat" where
  "queue_length digest src t s \<equiv> pending_count src (watermark (state_key digest src t) s) s"

lemma filter_above_taken:
  assumes "sorted_wrt (<) (map fst xs)" "take n xs \<noteq> []"
  shows "filter (\<lambda>(c, _). c > (last (map fst (take n xs)) :: int)) xs = drop n xs"
  using assms
proof (induction xs arbitrary: n)
  case (Cons x xs)
  then obtain m where n: "n = Suc m" by (cases n) auto
  have above: "\<forall>y\<in>set xs. fst x < fst y" and "sorted_wrt (<) (map fst xs)" using Cons.prems(1) by auto
  show ?case
  proof (cases "take m xs = []")
    case True
    then have "drop m xs = xs" by (metis append.simps(1) append_take_drop_id)
    moreover have "filter (\<lambda>(c, _). c > fst x) xs = xs" using above by (simp add: filter_id_conv case_prod_beta)
    ultimately show ?thesis using True by (cases x) (simp add: n)
  next
    case False
    then have "last (take m xs) \<in> set xs" by (meson in_set_takeD last_in_set)
    then have "fst x < last (map fst (take m xs))" using above False by (simp add: last_map)
    then show ?thesis using Cons.IH [OF \<open>sorted_wrt (<) (map fst xs)\<close> False] False by (cases x) (simp add: n)
  qed
qed simp

lemma watermark_advance: "watermark key (advance key c s) = c"
  by (simp add: watermark_def advance_def map_of_dict_update)

lemma attempt_drains:
  assumes "table_ok s src"
  shows "table_ok (attempt digest src t s) src" "queue_length digest src t (attempt digest src t s) = queue_length digest src t s - FORWARD_BATCH_LIMIT"
proof -
  let ?q = "filter (\<lambda>(c, _). c > watermark (state_key digest src t) s) (rows s src)"
  have batch: "rows_after src (watermark (state_key digest src t) s) FORWARD_BATCH_LIMIT s = take FORWARD_BATCH_LIMIT ?q"
    by (rule rows_after_sorted [OF assms])
  have "rows (attempt digest src t s) = rows s" "high_water (attempt digest src t s) = high_water s" "pruned (attempt digest src t s) = pruned s"
    by (simp_all add: attempt_def forward_target_def clean_def Let_def receive_def advance_def)
  note same = this
  then show "table_ok (attempt digest src t s) src" using assms by (simp add: table_ok_def)
  show "queue_length digest src t (attempt digest src t s) = queue_length digest src t s - FORWARD_BATCH_LIMIT"
  proof (cases "?q = []")
    case True
    then show ?thesis by (simp add: attempt_def forward_target_def clean_def batch Let_def pending_count_def)
  next
    case False
    let ?m = "last (map fst (take FORWARD_BATCH_LIMIT ?q))"
    have ne: "take FORWARD_BATCH_LIMIT ?q \<noteq> []" using False by (simp add: FORWARD_BATCH_LIMIT_def)
    then have w: "watermark (state_key digest src t) (attempt digest src t s) = ?m"
      by (simp add: attempt_def forward_target_def clean_def batch Let_def watermark_advance)
    have "sorted_wrt (<) (map fst ?q)" using assms by (simp add: table_ok_def sorted_wrt_map sorted_wrt_filter)
    from filter_above_taken [OF this ne] have "filter (\<lambda>(c, _). c > ?m) ?q = drop FORWARD_BATCH_LIMIT ?q" .
    moreover have "last (take FORWARD_BATCH_LIMIT ?q) \<in> set ?q" using ne by (meson in_set_takeD last_in_set)
    then have "watermark (state_key digest src t) s < ?m" using ne by (auto simp: last_map)
    then have "filter (\<lambda>(c, _). c > ?m) ?q = filter (\<lambda>(c, _). c > ?m) (rows s src)"
      by (auto simp: filter_filter intro!: filter_cong)
    ultimately show ?thesis unfolding pending_count_def w same by (metis length_drop)
  qed
qed

text \<open>
  (C23) The backlog drains. As soon as a target accepts again and nothing new is written, its queue of a table is empty
  after as many attempts as the queue has batches of 500 rows, and then it has every record that was not deleted.
\<close>

theorem backlog_drains:
  assumes "forward_init digest U fs" "(forward_step digest U)\<^sup>*\<^sup>* fs (f, s)" "src \<in> set SOURCE_ORDER" "t \<in> U"
    and "queue_length digest src t s \<le> k * FORWARD_BATCH_LIMIT"
  shows "{1..high_water s src} - pruned s src \<subseteq> set (received ((attempt digest src t ^^ k) s) src (snd t))"
proof -
  let ?s = "(attempt digest src t ^^ k) s"
  have ok: "store_ok digest U s" and inj: "inj_on digest (snd ` U)"
    using forwarding.reachable_inv [OF assms(2,1)] by (simp_all add: forward_inv_def)
  have "store_ok digest U ?s"
    by (induction k) (simp_all add: ok attempt_def forward_target_ok assms(3,4) inj)
  then have t: "table_ok ?s src" and d: "delivered_ok digest ?s src t" using assms(3,4) by (auto simp: store_ok_def)
  have t0: "table_ok s src" using ok assms(3) by (simp add: store_ok_def)
  have run: "table_ok ((attempt digest src t ^^ j) s) src \<and>
      queue_length digest src t ((attempt digest src t ^^ j) s) = queue_length digest src t s - j * FORWARD_BATCH_LIMIT \<and>
      high_water ((attempt digest src t ^^ j) s) = high_water s \<and> pruned ((attempt digest src t ^^ j) s) = pruned s" for j
  proof (induction j)
    case (Suc j)
    let ?p = "(attempt digest src t ^^ j) s"
    have "high_water (attempt digest src t ?p) = high_water ?p" "pruned (attempt digest src t ?p) = pruned ?p"
      by (simp_all add: attempt_def [of digest src t ?p] forward_target_def clean_def Let_def receive_def advance_def)
    then show ?case using Suc attempt_drains [of ?p src digest t] by simp
  qed (simp add: t0)
  have "queue_length digest src t ?s = 0" using run [of k] assms(5) by simp
  then have "\<forall>c\<in>cursors src ?s. c \<le> watermark (state_key digest src t) ?s"
    by (auto simp: pending_count_def filter_empty_conv)
  then have "cursors src ?s \<subseteq> set (received ?s src (snd t))"
    using d table_okD(1) [OF t] by (fastforce simp: delivered_ok_def)
  moreover have "{1..high_water s src} = cursors src ?s \<union> pruned s src" using t run [of k] by (simp add: table_ok_def)
  ultimately show ?thesis by blast
qed
section \<open>Back-off, health and lines\<close>

text \<open>The pauses of a target: five seconds after the first failure, doubling, at most five minutes.\<close>

lemma backoff_values:
  assumes "map_of (target_failures f) (snd t) = Some (int (Suc n))"
  shows "backoff_seconds t f = min 300 (5 * 2 ^ n)"
  using assms by (simp add: backoff_seconds_def FORWARD_MAX_BACKOFF_SECONDS_def FORWARD_INTERVAL_SECONDS_def Let_def)

lemma failed_target_pauses:
  "in_cooldown now t (record_failure k t exc f) \<longleftrightarrow>
     now < after k + backoff_seconds t (record_failure k t exc f)"
  by (simp add: in_cooldown_def record_failure_def Let_def note_global_failure_def backoff_seconds_def map_of_dict_update)

text \<open>
  One bit for all targets: a sweep that skips the target in its pause and fails nowhere else reports a healthy
  forwarder, although that target refuses everything and its rows are queued. Three sweeps, five seconds apart.
\<close>

definition refused_at :: "real \<Rightarrow> unit sweep_env" where
  "refused_at now src t =
     (\<lparr>before = now, after = now, wall = now\<rparr>, if snd t = ''a'' then clean\<lparr>delivery := Some (''ConnectError'', 0)\<rparr> else clean)"

definition two_targets :: "target list" where "two_targets = [(''url'', ''a''), (''syslog'', ''b'')]"

definition after_three_sweeps :: "forwarder \<times> unit store" where
  "after_three_sweeps =
     sweep id (refused_at 10) 10 10 two_targets (sweep id (refused_at 5) 5 5 two_targets
       (sweep id (refused_at 0) 0 0 two_targets (init_forwarder, insert_row ''audit_events'' () init_store)))"

theorem dead_target_reported_healthy:
  "(healthy (fst after_three_sweeps), last_error (fst after_three_sweeps), queue_length id ''audit_events'' (''url'', ''a'') (snd after_three_sweeps),
    received (snd after_three_sweeps) ''audit_events'' ''a'', received (snd after_three_sweeps) ''audit_events'' ''b'') =
   (True, None, 1, [], [1])"
  by code_simp

text \<open>No value breaks out of its quotes: read to the first bare quote, an escaped value gives itself back.\<close>

fun read_sd_value :: "string \<Rightarrow> (string \<times> string) option" where
  "read_sd_value [] = None"
| "read_sd_value (c # cs) =
     (if c = CHR 0x22 then Some ([], cs)
      else if c = CHR '']'' then None
      else if c = CHR 0x5C
           then (case cs of [] \<Rightarrow> None | d # ds \<Rightarrow> map_option (\<lambda>(v, rest). (d # v, rest)) (read_sd_value ds))
           else map_option (\<lambda>(v, rest). (c # v, rest)) (read_sd_value cs))"

lemma escape_sd_value_Cons:
  "escape_sd_value (c # cs) =
     (if c = CHR 0x5C \<or> c = CHR 0x22 \<or> c = CHR '']'' then CHR 0x5C # c # escape_sd_value cs else c # escape_sd_value cs)"
  by (simp add: escape_sd_value_def escape_char_def)

lemma escaped_value_contained: "read_sd_value (escape_sd_value v @ CHR 0x22 # rest) = Some (v, rest)"
proof (induction v)
  case (Cons c cs)
  then show ?case by (cases "c = CHR 0x5C \<or> c = CHR 0x22 \<or> c = CHR '']''") (auto simp: escape_sd_value_Cons)
qed (simp add: escape_sd_value_def escape_char_def)

section \<open>Instances\<close>

definition one_target :: "target set" where "one_target = {(''url'', ''a'')}"

definition one_record :: "unit store" where "one_record = insert_row ''audit_events'' () init_store"

lemma one_record_reached:
  "forward_init id one_target (init_forwarder, init_store)"
  "(forward_step id one_target)\<^sup>*\<^sup>* (init_forwarder, init_store) (init_forwarder, one_record)"
proof -
  show "forward_init id one_target (init_forwarder, init_store)" by (simp add: forward_init_def one_target_def)
  have "forward_step id one_target (init_forwarder, init_store) (init_forwarder, do_write (Insert ''audit_events'' ()) init_store)"
    by (rule forward_step.written)
  then show "(forward_step id one_target)\<^sup>*\<^sup>* (init_forwarder, init_store) (init_forwarder, one_record)"
    by (simp add: one_record_def)
qed

theorem forwarding_gapless_witness:
  "in_order (received one_record ''audit_events'' ''a'') \<and>
   1 \<in> fst ` set (filter (\<lambda>(c, _). c > watermark (state_key id ''audit_events'' (''url'', ''a'')) one_record) (rows one_record ''audit_events''))"
proof -
  have "''audit_events'' \<in> set SOURCE_ORDER" "(''url'', ''a'') \<in> one_target" by (simp_all add: SOURCE_ORDER_def one_target_def)
  from forwarding_gapless [OF one_record_reached this] have gapless: "in_order (received one_record ''audit_events'' ''a'')"
    "{1..high_water one_record ''audit_events''} \<subseteq> set (received one_record ''audit_events'' ''a'') \<union> pruned one_record ''audit_events'' \<union>
      fst ` set (filter (\<lambda>(c, _). c > watermark (state_key id ''audit_events'' (''url'', ''a'')) one_record) (rows one_record ''audit_events''))"
    by simp_all
  have here: "1 \<in> {1..high_water one_record ''audit_events''}" "received one_record ''audit_events'' ''a'' = []" "pruned one_record ''audit_events'' = {}"
    by (simp_all add: one_record_def insert_row_def Let_def init_store_def)
  from subsetD [OF gapless(2) here(1)] gapless(1) show ?thesis unfolding here(2,3) by simp
qed

theorem backlog_drains_witness:
  "1 \<in> set (received ((attempt id ''audit_events'' (''url'', ''a'') ^^ 1) one_record) ''audit_events'' ''a'')"
proof -
  have "''audit_events'' \<in> set SOURCE_ORDER" "(''url'', ''a'') \<in> one_target" by (simp_all add: SOURCE_ORDER_def one_target_def)
  moreover have "queue_length id ''audit_events'' (''url'', ''a'') one_record \<le> 1 * FORWARD_BATCH_LIMIT"
    by (simp add: one_record_def insert_row_def Let_def init_store_def pending_count_def watermark_def FORWARD_BATCH_LIMIT_def)
  ultimately have "{1..high_water one_record ''audit_events''} - pruned one_record ''audit_events'' \<subseteq>
      set (received ((attempt id ''audit_events'' (''url'', ''a'') ^^ 1) one_record) ''audit_events'' (snd (''url'', ''a'')))"
    by (rule backlog_drains [OF one_record_reached])
  moreover have "1 \<in> {1..high_water one_record ''audit_events''} - pruned one_record ''audit_events''"
    by (simp add: one_record_def insert_row_def Let_def init_store_def)
  ultimately show ?thesis by auto
qed


end
