(* ===== verification/Spec2Isabelle.thy ===== *)
theory Spec2Isabelle
  imports Acl_Defaults Sharing Packets Nfqueue Resolve Consent_Client Netfilter Acl Deciders Consent_Table Domain_Lists
    Consent_Link Envexp Dpop Ports Admission Crash_Recovery Login Watchdog Health Audit_Forward
begin

text \<open>
  A verification library for klangk: a server (\<open>src/src/klangk/klangk\<close>, called klangkd) that runs
  workspaces as podman containers, and the network sidecar of a workspace
  (\<open>src/src/klangksidecar/klangksidecar\<close>) that filters what leaves it.

  \<^bold>\<open>The program.\<close> A sidecar owns the network namespace of a workspace. A name the workspace looks up passes its
  DNS gate, which opens the addresses of allowed names in the OUTPUT chain; a SYN to any other address is queued
  to user space. There it is decided by what is remembered, or the sidecar asks the server over a web socket.
  The server holds the request, shows it to the deciders connected to the workspace, and answers with their
  verdict - or with a deny after a time-out, at shutdown, or when nobody is there. Verdicts are rows of an
  audited table, and those taken for ever become entries of the workspace's lists, with which the next sidecar
  starts. Around that: who may do what (access control), whose token it is (proof of possession), what the
  environment of a workspace contains, and the life of its container - admission of a start, host ports, tracking,
  idle stops, eviction under memory pressure, recovery from crashes, the health of its service. A watchdog over disks, memory and CPU
  notifies the administrators.

  \<^bold>\<open>Theories and sources.\<close>
  \<^item> \<open>Prelude\<close>: Python strings, decimals, dictionaries, big-endian integers; the locales \<open>step_invariant\<close> and
    \<open>settling\<close> that every state machine below interprets.
  \<^item> Sidecar: \<open>Packets\<close> (packets.py), \<open>Sidecar_State\<close> (config.py, state.py), \<open>Allowlist\<close> (allowlist.py),
    \<open>Rules\<close> (rules.py, over the locale \<open>iptables\<close>), \<open>Nfqueue\<close> (nfqueue.py), \<open>Resolve\<close> (resolve.py),
    \<open>Consent_Client\<close> (consent.py).
  \<^item> Consent on the server: \<open>Deciders\<close> (consent/deciders.py), \<open>Audit_Hmac\<close> (model/audit_hmac.py),
    \<open>Consent_Table\<close> (model/egress_consent.py and the indexes of model/schema.py), \<open>Netfilter\<close> (netfilter.py),
    \<open>Domain_Lists\<close> (model/workspaces.py), \<open>Sidecar_Connections\<close> (sidecar_connections.py), \<open>Coordinator\<close>
    (consent/coordinator.py), \<open>Consent_Link\<close> (wshandler/sidecar.py and both ends of the socket together).
  \<^item> Access: \<open>Acl\<close> (acl.py); \<open>Acl_Store\<close>, the tables of entries, groups and memberships with all their writers
    (model/acl.py, model/users.py, model/workspaces.py and the constraints of model/schema.py); \<open>Sharing\<close>, the routes
    over them (api/workspaces.py, api/admin.py); \<open>Acl_Defaults\<close> (lifecycle.py); \<open>Dpop\<close> (dpop.py), \<open>Workstation\<close> and \<open>Sessions\<close> with its runs in \<open>Session_Runs\<close>
    (auth.py, model/sessions.py, model/model.py, stepup.py, wshandler/dispatch.py), \<open>Passwords\<close> and \<open>Lockout\<close>
    (auth.py, model/users.py) and \<open>Login\<close>, the routes of api/auth.py over them. Environment: \<open>Envexp\<close> (envexp.py).
  \<^item> Containers: \<open>Ports\<close> (model/ports.py, util.py, container/basics.py), \<open>Container_Registry\<close>
    (container/registry.py, basics.py, idle.py), \<open>Eviction\<close> (container/eviction.py), \<open>Admission\<close>
    (container/admission.py), \<open>Crash_Recovery\<close> (container/crash.py), \<open>Health\<close> (container/health.py and its frames in
    wshandler/session.py).
  \<^item> Operations: \<open>Notifier\<close> (notifier.py) and \<open>Watchdog\<close> (resource_watchdog.py), whose locale \<open>alerting\<close> is what an
    evaluation relies on in the notifier, interpreted for each of the three metrics; \<open>Audit_Forward\<close> (audit_forward.py,
    model/audit_forward.py).

  \<^bold>\<open>How code is modelled.\<close> A class is a record of its attributes, a function a definition with the name of the
  source; a method gets the state and returns it updated. A coroutine is split at its awaits: an operation is
  what runs between two of them, and an inductive relation interleaves the operations (\<open>coord_step\<close>,
  \<open>table_step\<close>, \<open>conn_step\<close>, \<open>registry_step\<close>, \<open>quota_step\<close>, \<open>crash_step\<close>, \<open>watch_step\<close>, \<open>health_step\<close>, \<open>forward_step\<close>; \<open>acl_step\<close> and \<open>auth_step\<close> run whole requests, one after the other). An exception is a value (\<open>None\<close> or
  \<open>Inl\<close>). Clock readings, random ids, whether a database call commits or a send enqueues are arguments, so a
  property holds for all of them. Third-party code is a parameter: iptables, dnspython, the keyed hash, the
  elliptic-curve check, the JWT library, podman. Packets, checksums and ports are words or bounded numbers with their
  wrap-around; Python ints are \<^typ>\<open>int\<close>, floats \<^typ>\<open>real\<close> without rounding, a \<open>str\<close> is a list of code points
  below 256.

  \<^bold>\<open>What is shown.\<close>
  \<^item> Gates of the sidecar: a queued SYN is accepted only on a verdict or a session allow in force, everything
    fails closed, each packet is disposed of once; a rejected name is never forwarded; a revocation closes the
    session memory, the rules and the cache before it is acknowledged.
  \<^item> Consent: no held connection is forgotten, an allow needs a recorded decision of a decider, every hold ends;
    a revocation needs the sidecar's acknowledgement; the table keeps its indexes and tags, retention deletes no
    verdict in effect, list mutations lose no concurrent write; the frames of the two ends agree; a verdict for
    ever is enforced by the next sidecar (below, across six theories).
  \<^item> Access: a permission check is the first applicable entry, the bulk form agrees. Whatever is written, the system
    agent holds nothing and a role group stays on its workspace; a share adds exactly its block, and removing the
    member undoes it; a new workspace starts with the documented roles, a fresh server with the documented posture;
    five lemmas exhibit writes that go wrong. A proof of possession is
    accepted under exactly the documented conditions and only once. Every live token has its session row; revoking
    a user's sessions is final, but for a refresh in flight, which a theorem exhibits; a refresh continues its
    session; the session limit and the idle window are kept. A login needs every gate of the route; the guesses
    against an account are bounded in any window; a password change ends the other sessions; a reset link works
    once; a token of one kind is refused as another; no recent password comes back; the edit distance of the
    password policy is the least number of edits. Expansion computes its reference semantics.
  \<^item> Containers: ports are exact and disjoint; the two indexes of the registry agree; a stop leaves a re-bound
    workspace alone; eviction takes an idle workspace, only under sustained pressure, and then does; the quota
    holds under every interleaving of starts; the crash monitor stays within its budget and restarts no stopped
    workspace, but for two races that two theorems exhibit. The stream of health frames tells the present status, a
    replay never sends a stale one, and the terminal frame is the last, but for a race that a theorem exhibits.
  \<^item> Operations: an alert of a resource is late at worst, never lost; usage that hovers at a threshold raises no
    storm; two alerts of one bucket are a window apart; the health route always has an answer, of the last pass.
    Forwarded audit records have no gap and keep their order, a backlog drains; one theorem exhibits a dead target that
    is reported healthy.

  \<^bold>\<open>Loops.\<close> Loops are structural recursion or have a termination proof by a measure (the port scan by the distance
  to the last port, the expansion by the length of the text). \<open>resource_ancestors\<close>, which some arguments never
  leave, is a partial function, and \<open>resource_ancestors_terminates\<close> says which. The retry loop of the domain lists
  runs over a list with one element per attempt, as many as the source makes. No definition uses fuel.

  \<^bold>\<open>Not modelled.\<close> Process start-up, sockets and endless polling loops, SQL apart from the tables above, the HTTP
  routes other than those of login and sharing, terminals, the reverse proxy, mail and web hooks, the command-line client, and the assembly of podman
  command lines: input and output around what is modelled, or code that only hands data on. Left out for their
  size, not for their nature: registration and the identity providers, server schedules and the settings.
\<close>


text \<open>
  (C8) From a verdict to the next sidecar. A decider allows a held request for ever: the workspace's list then
  names the destination, and a sidecar started with that list opens the port for the name at its DNS
  gate (or every port, when another entry does). No other writer interferes and the two database calls
  succeed.
\<close>

theorem forever_allow_enforced:
  assumes "map_of (holds s) rid = Some h" "hold_in_scope h scope"
    and "get_request rid (ctable s) = Some q" "ec_decision q = DECISION_PENDING" "ec_ws q \<noteq> []"
    and "host_grammar (ec_host q)" "lower (ec_host q) = ec_host q"
    and "ec_port q = Some (int n)" "0 < n" "n \<le> 65535"
    and "get_workspace (ec_ws q) (wsdb s) = Some x" "parse_allowed_domains vs = Inr (allowed_domains x)"
    and "db_ok w Decide" "db_ok w Add_Domain" "writers w = (\<lambda>_ d. d)"
  shows "\<exists>x'. get_workspace (ec_ws q)
        (wsdb (snd (resolve w rid DECISION_ALLOWED actor Consent_Table.DURATION_FOREVER scope s))) = Some x' \<and>
    (\<forall>env t sc. env ''KLANGKNETWORK_EGRESS_ALLOW'' = Some (join_with CHR '','' (allowed_domains x')) \<longrightarrow>
       (case fst (ports_for (SPECS env) t (ec_host q) sc) of None \<Rightarrow> True | Some ps \<Rightarrow> n \<in> set ps))"
proof -
  let ?e = "ec_host q @ '':'' @ str_nat n"
  obtain r where res: "wsdb (snd (resolve w rid DECISION_ALLOWED actor Consent_Table.DURATION_FOREVER scope s)) =
      wsdb (persist_forever_allow w r s)" and r: "ec_ws r = ec_ws q" "ec_host r = ec_host q" "ec_port r = ec_port q"
    using resolve_persists [OF assms(1,2,13,3,4)] .
  have "ec_host q \<noteq> []" using assms(6) by (auto simp: host_grammar_def)
  then have "forever_allow_entry r = Some ?e"
    using r assms(5,8,9) by (simp add: forever_allow_entry_def forever_entry_def has_port_def str_int_def)
  then have persisted: "wsdb (persist_forever_allow w r s) = snd (add_allowed_domain (\<lambda>_ d. d) (ec_ws q) ?e (wsdb s))"
    using assms(14,15) r(1) by (simp add: persist_forever_allow_def)
  note valid = valid_host_entry(1) [OF assms(6,10)]
  have low: "lower ?e = ?e"
    using assms(7) lower_digits [of "str_nat n"] str_nat_digits by (auto simp: list_all_iff) (simp add: lower_def)
  obtain x' where x': "get_workspace (ec_ws q) (snd (add_allowed_domain (\<lambda>_ d. d) (ec_ws q) ?e (wsdb s))) = Some x'"
      "listed ?e (allowed_domains x')" "set (allowed_domains x') \<subseteq> insert ?e (set (allowed_domains x))"
    using add_allowed_alone [of "wsdb s" "ec_ws q" x, OF _ valid] assms(11) unfolding get_workspace_def low by auto
  have all: "valid_domain_spec spec" if "spec \<in> set (allowed_domains x')" for spec
    using that x'(3) valid parse_allowed_domains_valid [OF assms(12)] by blast
  from x'(2) obtain e where e: "e \<in> set (allowed_domains x')" "lower e = ?e" by (auto simp: listed_def)
  have "(ec_host q, Some n, EXACT) \<in> set (SPECS env)"
    if "env ''KLANGKNETWORK_EGRESS_ALLOW'' = Some (join_with CHR '','' (allowed_domains x'))" for env
    using SPECS_of_list [of "allowed_domains x'" e "(ec_host q, Some n, EXACT)" env] all e(1)
      parse_spelling [OF all [OF e(1)] e(2) assms(6)] that by blast
  with x'(1) ports_for_opens show ?thesis unfolding res persisted by blast
qed

theorem forever_allow_enforced_witness:
  "\<exists>x'. get_workspace ''w1''
      (wsdb (snd (resolve example_world ''r1'' DECISION_ALLOWED ''u1'' Consent_Table.DURATION_FOREVER (Some ''w1'')
        example_held))) = Some x' \<and>
    (case fst (ports_for (SPECS [''KLANGKNETWORK_EGRESS_ALLOW'' \<mapsto> join_with CHR '','' (allowed_domains x')])
        0 ''h.org'' (initial_sidecar ())) of None \<Rightarrow> True | Some ps \<Rightarrow> 443 \<in> set ps)"
proof -
  let ?q = "pending_row ''r1'' ''w1'' ''h.org'' (Some 443) None None 20"
  let ?x = "\<lparr>egress_mode = EGRESS_MODE_INTERACTIVE, consent_paused_until = None, allowed_domains = [], rejected_domains = []\<rparr>"
  note e2e = forever_allow_enforced [where s = example_held and rid = "''r1''" and scope = "Some ''w1''" and q = ?q and n = 443
      and h = "\<lparr>h_future = 0, h_ws = ''w1'', h_task = 0\<rparr>" and x = ?x and vs = "[]" and w = example_world and actor = "''u1''"]
  have held: "map_of (holds example_held) ''r1'' = Some \<lparr>h_future = 0, h_ws = ''w1'', h_task = 0\<rparr>"
    using example_hold(2) by (simp add: core_def)
  have request: "get_request ''r1'' (ctable example_held) = Some ?q"
    by (simp add: example_hold(3) get_request_def pending_row_def)
  have host: "host_grammar (ec_host ?q)" "lower (ec_host ?q) = ec_host ?q"
    by (simp_all add: pending_row_def host_grammar_def domain_char_def alnum_char_def lower_def lower_char_def)
  have ws: "get_workspace (ec_ws ?q) (wsdb example_held) = Some ?x"
    by (simp add: example_held_def wsdb_hold start_eval get_workspace_def pending_row_def)
  have "\<exists>x'. get_workspace (ec_ws ?q)
      (wsdb (snd (resolve example_world ''r1'' DECISION_ALLOWED ''u1'' Consent_Table.DURATION_FOREVER (Some ''w1'')
        example_held))) = Some x' \<and>
    (\<forall>env t sc. env ''KLANGKNETWORK_EGRESS_ALLOW'' = Some (join_with CHR '','' (allowed_domains x')) \<longrightarrow>
       (case fst (ports_for (SPECS env) t (ec_host ?q) (sc :: unit sidecar)) of None \<Rightarrow> True | Some ps \<Rightarrow> 443 \<in> set ps))"
    by (rule e2e [OF held _ request _ _ host _ _ _ ws])
      (simp_all add: hold_in_scope_def pending_row_def parse_allowed_domains_def example_world_def)
  then obtain x' where x': "get_workspace (ec_ws ?q)
      (wsdb (snd (resolve example_world ''r1'' DECISION_ALLOWED ''u1'' Consent_Table.DURATION_FOREVER (Some ''w1'')
        example_held))) = Some x'"
    and gate: "\<And>env t (sc :: unit sidecar).
      env ''KLANGKNETWORK_EGRESS_ALLOW'' = Some (join_with CHR '','' (allowed_domains x')) \<Longrightarrow>
       (case fst (ports_for (SPECS env) t (ec_host ?q) sc) of None \<Rightarrow> True | Some ps \<Rightarrow> 443 \<in> set ps)"
    by blast
  have "ec_ws ?q = ''w1''" "ec_host ?q = ''h.org''" by (simp_all add: pending_row_def)
  with x' gate [of "[''KLANGKNETWORK_EGRESS_ALLOW'' \<mapsto> join_with CHR '','' (allowed_domains x')]" 0 "initial_sidecar ()"]
  show ?thesis by (intro exI [of _ x']) simp
qed

end
